(* ===== verification/Prelude.thy ===== *)
theory Prelude
  imports Main "HOL-Library.Word" "HOL-Library.List_Lexorder"
begin

text \<open>
  Shared vocabulary of the development: the outcome of a fallible Rust function, the
  machine-integer operations of Rust as the workspace compiles them, fixed-size byte arrays,
  and the generic list lemmas the components use.

  The workspace builds with \<^verbatim>\<open>overflow-checks = true\<close> and \<^verbatim>\<open>panic = "abort"\<close>
  (\<^verbatim>\<open>Cargo.toml\<close>), so an overflowing \<^verbatim>\<open>+\<close>, \<^verbatim>\<open>-\<close> or \<^verbatim>\<open>*\<close> stops the process. A
  Rust \<^verbatim>\<open>Result<T, E>\<close> that can also stop the process has three outcomes.
\<close>

named_theorems result_simps "elimination of the sequencing of fallible steps"
named_theorems arith_defs "definitions of the machine-integer operations"

section \<open>Outcomes\<close>

datatype ('e, 'a) result = Ok 'a | Err 'e | Panic

primrec rbind :: "('e, 'a) result \<Rightarrow> ('a \<Rightarrow> ('e, 'b) result) \<Rightarrow> ('e, 'b) result" where
  "rbind (Ok x) f = f x"
| "rbind (Err e) f = Err e"
| "rbind Panic f = Panic"

lemma rbind_Ok_iff [result_simps]: "rbind m f = Ok y \<longleftrightarrow> (\<exists>x. m = Ok x \<and> f x = Ok y)"
  by (cases m) auto

lemma rbind_Err_iff [result_simps]:
  "rbind m f = Err e \<longleftrightarrow> m = Err e \<or> (\<exists>x. m = Ok x \<and> f x = Err e)"
  by (cases m) auto

lemma rbind_Panic_iff [result_simps]:
  "rbind m f = Panic \<longleftrightarrow> m = Panic \<or> (\<exists>x. m = Ok x \<and> f x = Panic)"
  by (cases m) auto

lemma rbind_assoc [simp]: "rbind (rbind m f) g = rbind m (\<lambda>x. rbind (f x) g)"
  by (cases m) auto

lemma rbind_cong [fundef_cong]:
  "m = m' \<Longrightarrow> (\<And>x. m' = Ok x \<Longrightarrow> f x = f' x) \<Longrightarrow> rbind m f = rbind m' f'"
  by (cases m') auto

text \<open>\<^verbatim>\<open>map_err\<close>: the error conversions at crate boundaries.\<close>

primrec map_err :: "('e \<Rightarrow> 'f) \<Rightarrow> ('e, 'a) result \<Rightarrow> ('f, 'a) result" where
  "map_err h (Ok x) = Ok x"
| "map_err h (Err e) = Err (h e)"
| "map_err h Panic = Panic"

lemma map_err_Ok_iff [simp]: "map_err h m = Ok x \<longleftrightarrow> m = Ok x"
  by (cases m) auto

lemma map_err_Panic_iff [simp]: "map_err h m = Panic \<longleftrightarrow> m = Panic"
  by (cases m) auto

text \<open>A loop whose body may fail: the first failure ends it (the \<^verbatim>\<open>?\<close> operator in a
  \<^verbatim>\<open>for\<close> body).\<close>

fun rfold :: "('a \<Rightarrow> 's \<Rightarrow> ('e, 's) result) \<Rightarrow> 'a list \<Rightarrow> 's \<Rightarrow> ('e, 's) result" where
  "rfold f [] s = Ok s"
| "rfold f (x # xs) s = rbind (f x s) (rfold f xs)"

lemma rfold_append: "rfold f (xs @ ys) s = rbind (rfold f xs s) (rfold f ys)"
proof (induction xs arbitrary: s)
  case (Cons x xs)
  then show ?case by (cases "f x s") auto
qed simp

lemma rfold_invariant:
  assumes "\<And>x s s'. x \<in> set xs \<Longrightarrow> P s \<Longrightarrow> f x s = Ok s' \<Longrightarrow> P s'"
    and "P s" and "rfold f xs s = Ok s'"
  shows "P s'"
  using assms
proof (induction xs arbitrary: s)
  case Nil
  then show ?case by simp
next
  case (Cons x xs)
  from Cons.prems(3) obtain t where t: "f x s = Ok t" "rfold f xs t = Ok s'"
    by (auto simp: rbind_Ok_iff)
  have "P t" using Cons.prems(1)[of x s t] Cons.prems(2) t(1) by simp
  from Cons.prems(1) have "\<And>y s s'. y \<in> set xs \<Longrightarrow> P s \<Longrightarrow> f y s = Ok s' \<Longrightarrow> P s'"
    by (metis list.set_intros(2))
  from Cons.IH[OF this \<open>P t\<close> t(2)] show ?case .
qed

section \<open>Machine integers\<close>

text \<open>
  Unsigned integers are natural numbers below \<open>2 ^ w\<close>; every operation of the code that can
  leave that range is written with its width. \<open>uadd\<close>, \<open>usub\<close>, \<open>umul\<close> are the plain
  operators (they panic), \<open>sat_*\<close> the saturating methods, \<open>checked_add\<close> the checked one,
  \<open>ucastn\<close> the \<^verbatim>\<open>as\<close> cast to a narrower type.
\<close>

definition umax :: "nat \<Rightarrow> nat" where
  "umax w = 2 ^ w - 1"

definition uadd :: "nat \<Rightarrow> nat \<Rightarrow> nat \<Rightarrow> ('e, nat) result" where
  [arith_defs]: "uadd w a b = (if a + b < 2 ^ w then Ok (a + b) else Panic)"

definition usub :: "nat \<Rightarrow> nat \<Rightarrow> ('e, nat) result" where
  [arith_defs]: "usub a b = (if b \<le> a then Ok (a - b) else Panic)"

definition umul :: "nat \<Rightarrow> nat \<Rightarrow> nat \<Rightarrow> ('e, nat) result" where
  [arith_defs]: "umul w a b = (if a * b < 2 ^ w then Ok (a * b) else Panic)"

definition udiv :: "nat \<Rightarrow> nat \<Rightarrow> ('e, nat) result" where
  [arith_defs]: "udiv a b = (if b = 0 then Panic else Ok (a div b))"

definition checked_add :: "nat \<Rightarrow> nat \<Rightarrow> nat \<Rightarrow> nat option" where
  [arith_defs]: "checked_add w a b = (if a + b < 2 ^ w then Some (a + b) else None)"

definition sat_add :: "nat \<Rightarrow> nat \<Rightarrow> nat \<Rightarrow> nat" where
  [arith_defs]: "sat_add w a b = min (a + b) (umax w)"

definition sat_mul :: "nat \<Rightarrow> nat \<Rightarrow> nat \<Rightarrow> nat" where
  [arith_defs]: "sat_mul w a b = min (a * b) (umax w)"

definition sat_sub :: "nat \<Rightarrow> nat \<Rightarrow> nat" where
  [arith_defs]: "sat_sub a b = a - b"

definition ucastn :: "nat \<Rightarrow> nat \<Rightarrow> nat" where
  [arith_defs]: "ucastn w a = a mod 2 ^ w"

lemma umax_less [simp]: "umax w < 2 ^ w"
  by (simp add: umax_def)

lemma le_umax_iff: "a \<le> umax w \<longleftrightarrow> a < 2 ^ w"
proof -
  have "(2::nat) ^ w > 0" by simp
  then show ?thesis unfolding umax_def by linarith
qed

lemma sat_add_less [simp]: "sat_add w a b < 2 ^ w"
  unfolding sat_add_def by (meson le_umax_iff min.cobounded2)

lemma sat_mul_less [simp]: "sat_mul w a b < 2 ^ w"
  unfolding sat_mul_def by (meson le_umax_iff min.cobounded2)

lemma sat_add_le: "sat_add w a b \<le> a + b"
  by (simp add: sat_add_def)

lemma sat_add_ge: "a < 2 ^ w \<Longrightarrow> a \<le> sat_add w a b"
  by (simp add: sat_add_def le_umax_iff)

lemma sat_add_exact: "a + b < 2 ^ w \<Longrightarrow> sat_add w a b = a + b"
  by (simp add: sat_add_def min_def le_umax_iff)

lemma sat_mul_exact: "a * b < 2 ^ w \<Longrightarrow> sat_mul w a b = a * b"
  by (simp add: sat_mul_def min_def le_umax_iff)

lemma sat_mul_le: "sat_mul w a b \<le> a * b"
  by (simp add: sat_mul_def)

lemma sat_add_0 [simp]: "a < 2 ^ w \<Longrightarrow> sat_add w a 0 = a" "a < 2 ^ w \<Longrightarrow> sat_add w 0 a = a"
  by (simp_all add: sat_add_exact)

lemma sat_add_mono: "a \<le> a' \<Longrightarrow> b \<le> b' \<Longrightarrow> sat_add w a b \<le> sat_add w a' b'"
  by (auto simp: sat_add_def min_def)

lemma uadd_Ok_iff [result_simps]: "uadd w a b = Ok c \<longleftrightarrow> c = a + b \<and> a + b < 2 ^ w"
  by (auto simp: uadd_def)

lemma usub_Ok_iff [result_simps]: "usub a b = Ok c \<longleftrightarrow> c = a - b \<and> b \<le> a"
  by (auto simp: usub_def)

lemma umul_Ok_iff [result_simps]: "umul w a b = Ok c \<longleftrightarrow> c = a * b \<and> a * b < 2 ^ w"
  by (auto simp: umul_def)

lemma udiv_Ok_iff [result_simps]: "udiv a b = Ok c \<longleftrightarrow> c = a div b \<and> b \<noteq> 0"
  by (auto simp: udiv_def)

lemma arith_not_Err [simp]:
  "uadd w a b \<noteq> Err e" "usub a b \<noteq> Err e" "umul w a b \<noteq> Err e" "udiv a b \<noteq> Err e"
  by (auto simp: arith_defs)

lemma checked_add_eq_Some [simp]: "checked_add w a b = Some c \<longleftrightarrow> c = a + b \<and> a + b < 2 ^ w"
  by (auto simp: checked_add_def)

lemma checked_add_eq_None [simp]: "checked_add w a b = None \<longleftrightarrow> 2 ^ w \<le> a + b"
  by (auto simp: checked_add_def)

section \<open>Byte arrays\<close>

text \<open>
  A fixed-size array \<open>[u8; n]\<close> is a word of \<open>8 * n\<close> bits, most significant byte first, so
  the array's length is in its type and the bytewise order of two arrays of one length is the
  order of the words. \<open>word_bytes\<close> gives the bytes back.
\<close>

type_synonym byte = "8 word"
type_synonym bytes = "8 word list"

definition word_bytes :: "'a::len word \<Rightarrow> bytes" where
  "word_bytes w = map (\<lambda>i. ucast (drop_bit (8 * i) w)) (rev [0..<LENGTH('a) div 8])"

text \<open>\<^verbatim>\<open>u64::to_be_bytes\<close>.\<close>

definition u64_be_bytes :: "nat \<Rightarrow> bytes" where
  "u64_be_bytes n = word_bytes (of_nat n :: 64 word)"

lemma length_word_bytes [simp]: "length (word_bytes (w :: 'a::len word)) = LENGTH('a) div 8"
  by (simp add: word_bytes_def)

lemma length_u64_be_bytes [simp]: "length (u64_be_bytes n) = 8"
  by (simp add: u64_be_bytes_def)

lemma word_bytes_inj:
  fixes v w :: "'a::len word"
  assumes "8 dvd LENGTH('a)" and "word_bytes v = word_bytes w"
  shows "v = w"
proof (rule bit_word_eqI)
  fix n assume n: "n < LENGTH('a)"
  from assms(2) have "\<forall>i \<in> set [0..<LENGTH('a) div 8].
      (ucast (drop_bit (8 * i) v) :: byte) = ucast (drop_bit (8 * i) w)"
    by (auto simp: word_bytes_def rev_map [symmetric])
  moreover have "n div 8 < LENGTH('a) div 8"
    using n assms(1) by (simp add: div_less_iff_less_mult dvd_div_mult_self)
  ultimately have eq: "(ucast (drop_bit (8 * (n div 8)) v) :: byte) = ucast (drop_bit (8 * (n div 8)) w)"
    by auto
  have bits: "bit (ucast (drop_bit (8 * (n div 8)) x) :: byte) (n mod 8) = bit x n"
    for x :: "'a word"
    by (simp add: bit_simps)
  show "bit v n \<longleftrightarrow> bit w n" using bits[of v] bits[of w] eq by simp
qed

lemma u64_be_bytes_inj:
  assumes "m < 2 ^ 64" "n < 2 ^ 64" "u64_be_bytes m = u64_be_bytes n"
  shows "m = n"
proof -
  have "(of_nat m :: 64 word) = of_nat n"
    using assms(3) word_bytes_inj[of "of_nat m :: 64 word" "of_nat n"]
    by (simp add: u64_be_bytes_def)
  then have "unat (of_nat m :: 64 word) = unat (of_nat n :: 64 word)" by simp
  with assms(1,2) show ?thesis by (simp add: unat_of_nat)
qed

text \<open>A string literal's bytes (the code's \<^verbatim>\<open>b"..."\<close> and \<^verbatim>\<open>as_bytes\<close>).\<close>

definition str_bytes :: "string \<Rightarrow> bytes" where
  "str_bytes s = map (\<lambda>c. of_char c) s"

section \<open>Lists\<close>

lemma append_eq_same_length:
  "length xs = length ys \<Longrightarrow> xs @ us = ys @ vs \<longleftrightarrow> xs = ys \<and> us = vs"
  by simp

lemma sum_list_filter_le: "sum_list (map f (filter P xs)) \<le> (sum_list (map f xs) :: nat)"
  by (induction xs) auto

text \<open>\<^verbatim>\<open>starts_with\<close> on byte strings.\<close>

definition starts_with :: "'a list \<Rightarrow> 'a list \<Rightarrow> bool" where
  "starts_with p xs \<longleftrightarrow> take (length p) xs = p"

lemma starts_with_append [simp]: "starts_with p (p @ xs)"
  by (simp add: starts_with_def)

lemma starts_with_same_length:
  "length p = length q \<Longrightarrow> starts_with p (q @ xs) \<longleftrightarrow> p = q"
  by (auto simp: starts_with_def)

end
