(* ===== verification/KvStore.thy ===== *)
theory KvStore
  imports Prelude
begin

text \<open>
  The contents of one column family of the database, and the in-memory ordered maps
  (\<^verbatim>\<open>BTreeMap\<close>, \<^verbatim>\<open>BTreeSet\<close>): a finite map whose entries are listed in the order of
  the keys. RocksDB itself is not modelled. What the code relies on is its documented contract:
  \<^verbatim>\<open>get\<close> returns the last value written, \<^verbatim>\<open>delete\<close> removes it, an iterator walks the keys in
  bytewise order, and a write batch takes effect as a whole. The locale \<open>ordered_store\<close> is that
  contract, the type \<open>kv\<close> a representation of the contents, and the interpretation shows that the
  contents behave as the contract says.
\<close>

section \<open>The contract\<close>

definition entry_sum :: "('k \<Rightarrow> 'v \<Rightarrow> nat) \<Rightarrow> ('k \<times> 'v) list \<Rightarrow> nat" where
  "entry_sum f es = sum_list (map (\<lambda>(k, v). f k v) es)"

lemma entry_sum_simps [simp]:
  "entry_sum f [] = 0" "entry_sum f ((k, v) # es) = f k v + entry_sum f es"
  "entry_sum f (xs @ ys) = entry_sum f xs + entry_sum f ys"
  by (simp_all add: entry_sum_def)

lemma entry_sum_le: "(\<And>k v. f k v \<le> g k v) \<Longrightarrow> entry_sum f es \<le> entry_sum g es"
  by (induction es) (auto simp: add_le_mono)

lemma entry_sum_member: "(k, v) \<in> set es \<Longrightarrow> f k v \<le> entry_sum f es"
  by (induction es) (auto intro: trans_le_add1 trans_le_add2)

text \<open>A scan from a prefix that stops at the first key without it, as the prefix iterators of
  the state layer do.\<close>

definition scan_prefix :: "'a::linorder list \<Rightarrow> ('a list \<times> 'v) list \<Rightarrow> ('a list \<times> 'v) list" where
  "scan_prefix p es = takeWhile (\<lambda>e. starts_with p (fst e)) (dropWhile (\<lambda>e. fst e < p) es)"

locale ordered_store =
  fixes empty :: "'m"
    and get :: "'m \<Rightarrow> 'k::linorder \<Rightarrow> 'v option"
    and put :: "'k \<Rightarrow> 'v \<Rightarrow> 'm \<Rightarrow> 'm"
    and del :: "'k \<Rightarrow> 'm \<Rightarrow> 'm"
    and entries :: "'m \<Rightarrow> ('k \<times> 'v) list"
  assumes entries_empty: "entries empty = []"
    and get_entries: "get m k = map_of (entries m) k"
    and get_put: "get (put k v m) k' = (if k' = k then Some v else get m k')"
    and get_del: "get (del k m) k' = (if k' = k then None else get m k')"
    and entries_ordered: "sorted_wrt (<) (map fst (entries m))"
begin

lemma distinct_keys: "distinct (map fst (entries m))"
  using entries_ordered strict_sorted_iff by blast

lemma get_empty: "get empty k = None"
  by (simp add: get_entries entries_empty)

lemma mem_entries: "(k, v) \<in> set (entries m) \<longleftrightarrow> get m k = Some v"
  using distinct_keys by (simp add: get_entries)

lemma set_entries: "set (entries m) = {(k, v). get m k = Some v}"
  by (auto simp: mem_entries)

lemma entry_sum_set: "entry_sum f (entries m) = (\<Sum>(k, v) \<in> set (entries m). f k v)"
proof -
  have "distinct (entries m)" using distinct_keys distinct_map by blast
  then show ?thesis by (simp add: entry_sum_def sum_list_distinct_conv_sum_set)
qed

lemma sum_del:
  "entry_sum f (entries (del k m)) + (case get m k of None \<Rightarrow> 0 | Some v \<Rightarrow> f k v) =
   entry_sum f (entries m)"
proof (cases "get m k")
  case None
  then have "set (entries (del k m)) = set (entries m)"
    by (auto simp: set_entries get_del split: if_splits)
  with None show ?thesis by (simp add: entry_sum_set)
next
  case (Some v)
  then have "set (entries m) = insert (k, v) (set (entries (del k m)))"
    by (auto simp: set_entries get_del split: if_splits)
  moreover have "(k, v) \<notin> set (entries (del k m))" by (simp add: mem_entries get_del)
  ultimately show ?thesis using Some by (simp add: entry_sum_set)
qed

lemma sum_put:
  "entry_sum f (entries (put k v m)) + (case get m k of None \<Rightarrow> 0 | Some u \<Rightarrow> f k u) =
   entry_sum f (entries m) + f k v"
proof -
  have "set (entries (put k v m)) = insert (k, v) (set (entries (del k m)))"
    by (auto simp: set_entries get_del get_put split: if_splits)
  moreover have "(k, v) \<notin> set (entries (del k m))" by (simp add: mem_entries get_del)
  ultimately have "entry_sum f (entries (put k v m)) = f k v + entry_sum f (entries (del k m))"
    by (simp add: entry_sum_set)
  with sum_del[of f k m] show ?thesis by linarith
qed

lemma sum_ge_get: "get m k = Some v \<Longrightarrow> f k v \<le> entry_sum f (entries m)"
  using entry_sum_member[of k v "entries m" f] by (simp add: mem_entries)

lemma entries_ext: "(\<And>k. get m k = get m' k) \<Longrightarrow> entries m = entries m'"
proof -
  assume "\<And>k. get m k = get m' k"
  then have "set (entries m) = set (entries m')" by (simp add: set_entries)
  with entries_ordered[of m] entries_ordered[of m'] distinct_keys[of m] distinct_keys[of m']
  show ?thesis
    by (intro map_sorted_distinct_set_unique[where f = fst])
      (auto simp: strict_sorted_iff inj_on_def mem_entries dest: distinct_map[THEN iffD1])
qed

end

section \<open>Prefix scans over ordered keys\<close>

lemma starts_with_le:
  fixes p k :: "'a::linorder list"
  shows "starts_with p k \<Longrightarrow> p \<le> k"
  unfolding starts_with_def
proof (induction p arbitrary: k)
  case (Cons a p)
  then show ?case by (cases k) auto
qed simp

lemma starts_with_convex:
  fixes p k k' :: "'a::linorder list"
  shows "p \<le> k \<Longrightarrow> \<not> starts_with p k \<Longrightarrow> k < k' \<Longrightarrow> \<not> starts_with p k'"
  unfolding starts_with_def
proof (induction p arbitrary: k k')
  case (Cons a p)
  then show ?case by (cases k; cases k') auto
qed simp

lemma takeWhile_prefix_filter:
  fixes p :: "'a::linorder list"
  assumes "sorted_wrt (<) (map fst es)" and "\<forall>e \<in> set es. p \<le> fst e"
  shows "takeWhile (\<lambda>e. starts_with p (fst e)) es = filter (\<lambda>e. starts_with p (fst e)) es"
  using assms
proof (induction es)
  case (Cons e es)
  show ?case
  proof (cases "starts_with p (fst e)")
    case False
    have "\<not> starts_with p (fst x)" if "x \<in> set es" for x
      using Cons.prems False that starts_with_convex[of p "fst e" "fst x"] by auto
    with False show ?thesis by (simp add: filter_False)
  qed (use Cons in auto)
qed simp

text \<open>Stopping at the first key without the prefix loses no key that has it.\<close>

lemma scan_prefix_filter:
  fixes p :: "'a::linorder list"
  assumes "sorted_wrt (<) (map fst es)"
  shows "scan_prefix p es = filter (\<lambda>e. starts_with p (fst e)) es"
  using assms
proof (induction es)
  case (Cons e es)
  show ?case
  proof (cases "fst e < p")
    case True
    then have "\<not> starts_with p (fst e)" using starts_with_le leD by blast
    with True Cons show ?thesis by (simp add: scan_prefix_def)
  next
    case False
    have "takeWhile (\<lambda>e. starts_with p (fst e)) (e # es) = filter (\<lambda>e. starts_with p (fst e)) (e # es)"
      using Cons.prems False by (intro takeWhile_prefix_filter) fastforce+
    with False show ?thesis by (simp add: scan_prefix_def)
  qed
qed (simp add: scan_prefix_def)

section \<open>The contents\<close>

fun ins_entry :: "'k::linorder \<Rightarrow> 'v \<Rightarrow> ('k \<times> 'v) list \<Rightarrow> ('k \<times> 'v) list" where
  "ins_entry k v [] = [(k, v)]"
| "ins_entry k v ((k', v') # es) =
     (if k < k' then (k, v) # (k', v') # es
      else if k = k' then (k, v) # es
      else (k', v') # ins_entry k v es)"

fun del_entry :: "'k::linorder \<Rightarrow> ('k \<times> 'v) list \<Rightarrow> ('k \<times> 'v) list" where
  "del_entry k [] = []"
| "del_entry k ((k', v') # es) = (if k = k' then es else (k', v') # del_entry k es)"

lemma set_ins_entry: "fst ` set (ins_entry k v es) = insert k (fst ` set es)"
  by (induction k v es rule: ins_entry.induct) auto

lemma set_del_entry: "fst ` set (del_entry k es) \<subseteq> fst ` set es"
  by (induction k es rule: del_entry.induct) auto

lemma ordered_ins_entry:
  "sorted_wrt (<) (map fst es) \<Longrightarrow> sorted_wrt (<) (map fst (ins_entry k v es))"
proof (induction k v es rule: ins_entry.induct)
  case (2 k v k' v' es)
  show ?case
  proof (cases "k < k' \<or> k = k'")
    case False
    then have "\<forall>x \<in> fst ` set (ins_entry k v es). k' < x"
      using 2 by (auto simp: set_ins_entry)
    with False 2 show ?thesis by auto
  qed (use 2 in auto)
qed simp

lemma ordered_del_entry:
  "sorted_wrt (<) (map fst es) \<Longrightarrow> sorted_wrt (<) (map fst (del_entry k es))"
proof (induction k es rule: del_entry.induct)
  case (2 k k' v' es)
  then show ?case using set_del_entry[of k es] by fastforce
qed simp

lemma map_of_ins_entry:
  "sorted_wrt (<) (map fst es) \<Longrightarrow> map_of (ins_entry k v es) = (map_of es)(k \<mapsto> v)"
  by (induction k v es rule: ins_entry.induct) (auto simp: fun_eq_iff)

lemma map_of_del_entry:
  "sorted_wrt (<) (map fst es) \<Longrightarrow> map_of (del_entry k es) = (map_of es)(k := None)"
proof (induction k es rule: del_entry.induct)
  case (2 k k' v' es)
  then have "k' \<notin> fst ` set es" by auto
  then have "map_of es k' = None" by (simp add: map_of_eq_None_iff)
  with 2 show ?case by (auto simp: fun_eq_iff)
qed simp

typedef (overloaded) ('k::linorder, 'v) kv =
  "{es :: ('k \<times> 'v) list. sorted_wrt (<) (map fst es)}"
  morphisms kv_entries Kv
  by (rule exI[of _ "[]"]) simp

setup_lifting type_definition_kv

lift_definition kv_empty :: "('k::linorder, 'v) kv" is "[]"
  by simp

lift_definition kv_get :: "('k::linorder, 'v) kv \<Rightarrow> 'k \<Rightarrow> 'v option" is map_of .

lift_definition kv_put :: "'k::linorder \<Rightarrow> 'v \<Rightarrow> ('k, 'v) kv \<Rightarrow> ('k, 'v) kv" is ins_entry
  by (rule ordered_ins_entry)

lift_definition kv_del :: "'k::linorder \<Rightarrow> ('k, 'v) kv \<Rightarrow> ('k, 'v) kv" is del_entry
  by (rule ordered_del_entry)

lemma kv_entries_empty [simp]: "kv_entries kv_empty = []"
  by transfer simp

lemma kv_entries_put [simp]: "kv_entries (kv_put k v m) = ins_entry k v (kv_entries m)"
  by transfer simp

lemma kv_entries_del [simp]: "kv_entries (kv_del k m) = del_entry k (kv_entries m)"
  by transfer simp

interpretation kv: ordered_store kv_empty kv_get kv_put kv_del kv_entries
proof (unfold_locales, goal_cases)
  case 1
  show ?case by simp
next
  case (2 m k)
  show ?case by transfer simp
next
  case (3 k v m k')
  show ?case by transfer (simp add: map_of_ins_entry)
next
  case (4 k m k')
  show ?case by transfer (simp add: map_of_del_entry)
next
  case (5 m)
  show ?case by transfer simp
qed

lemma kv_get_empty [simp]: "kv_get kv_empty k = None"
  by (rule kv.get_empty)

lemma kv_get_put [simp]: "kv_get (kv_put k v m) k' = (if k' = k then Some v else kv_get m k')"
  by (rule kv.get_put)

lemma kv_get_del [simp]: "kv_get (kv_del k m) k' = (if k' = k then None else kv_get m k')"
  by (rule kv.get_del)

lemma kv_eqI: "(\<And>k. kv_get m k = kv_get m' k) \<Longrightarrow> m = m'"
  using kv.entries_ext[of m m'] by (simp add: kv_entries_inject)

lemma kv_put_same: "kv_get m k = Some v \<Longrightarrow> kv_put k v m = m"
  by (rule kv_eqI) simp

lemma kv_put_put [simp]: "kv_put k v (kv_put k u m) = kv_put k v m"
  by (rule kv_eqI) simp

lemma kv_del_put [simp]: "kv_del k (kv_put k v m) = kv_del k m"
  by (rule kv_eqI) simp

lemma kv_del_absent: "kv_get m k = None \<Longrightarrow> kv_del k m = m"
  by (rule kv_eqI) simp

lemma kv_put_commute: "k \<noteq> k' \<Longrightarrow> kv_put k v (kv_put k' v' m) = kv_put k' v' (kv_put k v m)"
  by (rule kv_eqI) simp

definition kv_size :: "('k::linorder, 'v) kv \<Rightarrow> nat" where
  "kv_size m = length (kv_entries m)"

definition kv_sum :: "('k \<Rightarrow> 'v \<Rightarrow> nat) \<Rightarrow> ('k::linorder, 'v) kv \<Rightarrow> nat" where
  "kv_sum f m = entry_sum f (kv_entries m)"

lemma kv_size_sum: "kv_size m = kv_sum (\<lambda>k v. 1) m"
  by (simp add: kv_size_def kv_sum_def entry_sum_def case_prod_unfold sum_list_triv)

lemma kv_sum_empty [simp]: "kv_sum f kv_empty = 0"
  by (simp add: kv_sum_def)

lemma kv_sum_put:
  "kv_sum f (kv_put k v m) + (case kv_get m k of None \<Rightarrow> 0 | Some u \<Rightarrow> f k u) = kv_sum f m + f k v"
  unfolding kv_sum_def by (rule kv.sum_put)

lemma kv_sum_del:
  "kv_sum f (kv_del k m) + (case kv_get m k of None \<Rightarrow> 0 | Some u \<Rightarrow> f k u) = kv_sum f m"
  unfolding kv_sum_def by (rule kv.sum_del)

lemma kv_sum_ge: "kv_get m k = Some v \<Longrightarrow> f k v \<le> kv_sum f m"
  unfolding kv_sum_def by (rule kv.sum_ge_get)

lemma kv_size_eq_0_iff: "kv_size m = 0 \<longleftrightarrow> m = kv_empty"
  by (metis kv_entries_empty kv_entries_inject kv_size_def length_0_conv)

end
