(* ===== verification/ChainTypes.thy ===== *)
theory ChainTypes
  imports KvStore "HOL-Library.Char_ord"
begin

text \<open>
  The on-chain vocabulary: identifiers (\<^verbatim>\<open>crates/common/src/types.rs\<close>), transactions, receipts
  and blocks (\<^verbatim>\<open>crates/chain/src/transactions.rs\<close>, \<^verbatim>\<open>receipt.rs\<close>, \<^verbatim>\<open>block.rs\<close>) and the records
  of the state columns. Field names carry a prefix per record, because Isabelle's record fields
  are global constants. Byte arrays of fixed length are words (theory \<open>Prelude\<close>).

  The hash functions, borsh encodings, the hex encoder and the sparse Merkle tree's root are not
  part of the repository; they are the fields of the record \<open>ext\<close>, an argument of every
  definition that uses one of them.
\<close>

type_synonym address = "160 word"
type_synonym node_id = "256 word"
type_synonym job_id = "256 word"
type_synonym pool_id = "128 word"
type_synonym hash256 = "256 word"
type_synonym amount = nat
type_synonym gas = nat
type_synonym height = nat
type_synonym nonce = nat
type_synonym timestamp = nat

definition ATOMS_PER_ARK :: amount where
  "ATOMS_PER_ARK = 1000000000"

section \<open>Keys and signatures\<close>

datatype signature_scheme = Ed25519 | Dilithium | Falcon | Sphincs | HybridEd25519Dilithium

fun scheme_is_active :: "signature_scheme \<Rightarrow> bool" where
  "scheme_is_active Ed25519 = True"
| "scheme_is_active _ = False"

fun pubkey_len :: "signature_scheme \<Rightarrow> nat" where
  "pubkey_len Ed25519 = 32"
| "pubkey_len Dilithium = 1312"
| "pubkey_len Falcon = 897"
| "pubkey_len Sphincs = 32"
| "pubkey_len HybridEd25519Dilithium = 32 + 1312"

fun signature_len :: "signature_scheme \<Rightarrow> nat" where
  "signature_len Ed25519 = 64"
| "signature_len Dilithium = 2420"
| "signature_len Falcon = 666"
| "signature_len Sphincs = 17088"
| "signature_len HybridEd25519Dilithium = 64 + 2420"

record pubkey =
  pk_scheme :: signature_scheme
  pk_bytes :: bytes

record sig =
  sig_scheme :: signature_scheme
  sig_bytes :: bytes

datatype tee_platform = IntelTdx | AmdSevSnp | ArmCca

text \<open>The checked constructors; the numbers of an error are those its message prints.\<close>

datatype common_error = InvalidArgument string "nat list"

definition pubkey_new :: "signature_scheme \<Rightarrow> bytes \<Rightarrow> (common_error, pubkey) result" where
  "pubkey_new scheme bs =
     (if length bs \<noteq> pubkey_len scheme
      then Err (InvalidArgument ''pubkey length'' [pubkey_len scheme, length bs])
      else Ok \<lparr>pk_scheme = scheme, pk_bytes = bs\<rparr>)"

definition signature_new :: "signature_scheme \<Rightarrow> bytes \<Rightarrow> (common_error, sig) result" where
  "signature_new scheme bs =
     (if length bs \<noteq> signature_len scheme
      then Err (InvalidArgument ''signature length'' [signature_len scheme, length bs])
      else Ok \<lparr>sig_scheme = scheme, sig_bytes = bs\<rparr>)"

section \<open>Roles of a node\<close>

unbundle bit_operations_syntax

text \<open>\<^verbatim>\<open>RoleBitmap\<close>: a bit for each of validator, router, compute and verifier.\<close>

definition role_has :: "8 word \<Rightarrow> 8 word \<Rightarrow> bool" where
  "role_has roles other \<longleftrightarrow> (roles AND other) = other"

definition role_with :: "8 word \<Rightarrow> 8 word \<Rightarrow> 8 word" where
  "role_with roles other = (roles OR other)"

definition role_without :: "8 word \<Rightarrow> 8 word \<Rightarrow> 8 word" where
  "role_without roles other = (roles AND NOT other)"

lemma role_has_with [simp]: "role_has (role_with roles other) other"
  unfolding role_has_def role_with_def by (rule bit_word_eqI) (auto simp: bit_simps)

lemma role_without_has: "other \<noteq> 0 \<Longrightarrow> \<not> role_has (role_without roles other) other"
proof -
  have "role_without roles other AND other = 0"
    unfolding role_without_def by (rule bit_word_eqI) (auto simp: bit_simps)
  then show "other \<noteq> 0 \<Longrightarrow> ?thesis" by (simp add: role_has_def)
qed

section \<open>Attestation\<close>

record tee_capability =
  tc_platform :: tee_platform
  tc_quote :: bytes
  tc_enclave_pubkey :: pubkey

definition MAX_TEE_QUOTE_BYTES :: nat where
  "MAX_TEE_QUOTE_BYTES = 16 * 1024"

section \<open>Receipts\<close>

datatype quantization = F32 | F16 | BF16 | Q8_0 | Q6_K | Q5_K_M | Q4_K_M | Q3_K_M | Q2_K

datatype compute_proof = HashChain "hash256 list" | TeeQuote bytes | ZkProof bytes

datatype da_layer = Inline | Celestia | EigenDa

record da_reference =
  da_layer :: da_layer
  da_commitment :: hash256
  da_height :: nat

datatype verification_tier = Optimistic | Deterministic | Tee

record tee_attestation =
  ta_quote :: bytes

record inference_receipt =
  ir_job_id :: job_id
  ir_pool_id :: pool_id
  ir_model_id :: string
  ir_model_hash :: hash256
  ir_quantization :: quantization
  ir_user_address :: address
  ir_router_node :: node_id
  ir_compute_node :: node_id
  ir_backup_node :: "node_id option"
  ir_input_hash :: hash256
  ir_output_hash :: hash256
  ir_da_reference :: "da_reference option"
  ir_input_token_count :: nat
  ir_output_token_count :: nat
  ir_latency_ms :: nat
  ir_total_time_ms :: nat
  ir_seed :: nat
  ir_compute_proof :: compute_proof
  ir_tee_attestation :: "tee_attestation option"
  ir_verification_tier :: verification_tier
  ir_prompt_encrypted :: bool
  ir_timestamp_start :: timestamp
  ir_timestamp_end :: timestamp
  ir_compute_signature :: sig
  ir_user_signature :: sig

record receipt_batch =
  rb_batch_id :: hash256
  rb_receipts :: "inference_receipt list"
  rb_merkle_root :: hash256
  rb_aggregator :: node_id
  rb_signature :: sig

section \<open>Transactions\<close>

datatype stake_role = Validator | Router | Verifier | Compute

fun role_byte :: "stake_role \<Rightarrow> byte" where
  "role_byte Validator = 1"
| "role_byte Router = 2"
| "role_byte Verifier = 3"
| "role_byte Compute = 4"

datatype stake_op =
  Deposit node_id stake_role "pool_id option" amount "address option"
| Withdraw node_id stake_role "pool_id option" amount
| Complete node_id stake_role "pool_id option" nat
| Redelegate node_id node_id stake_role amount

datatype vote_choice = Yes | No | Abstain | NoWithVeto

fun vote_byte :: "vote_choice \<Rightarrow> byte" where
  "vote_byte Yes = 1"
| "vote_byte No = 2"
| "vote_byte Abstain = 3"
| "vote_byte NoWithVeto = 4"

record proposal =
  pr_proposal_id :: nat
  pr_proposer :: address
  pr_deposit :: amount
  pr_title :: string
  pr_body :: string
  pr_discussion_ends :: timestamp
  pr_voting_ends :: timestamp
  pr_activation :: "height option"

record model_manifest =
  mm_model_id :: string
  mm_sha256 :: hash256
  mm_size_bytes :: nat
  mm_mirrors :: "string list"
  mm_license :: string

record dispute =
  dp_job_id :: job_id
  dp_compute_node :: node_id
  dp_claimed_output_hash :: hash256
  dp_reexec_output_hash :: hash256
  dp_verifier :: node_id
  dp_reporter :: address
  dp_vrf_proof :: bytes
  dp_reexec_proof :: compute_proof

text \<open>The arguments of each constructor are the variant's fields, in the order of the source.\<close>

datatype transaction =
  Transfer address address amount nonce gas
| StakeOp stake_op
| ReceiptBatchTx receipt_batch
| RegisterModel model_manifest address amount
| GovProposal proposal
| GovVote nat address vote_choice
| DisputeTx dispute
| EscrowLock address job_id amount nonce gas
| EscrowSettle job_id hash256 address address address address
| RewardMint job_id amount address address address address nat
| RegisterTeeCapability node_id address tee_capability
| RegisterGateway node_id address string bool
| UnregisterGateway node_id address

record signed_transaction =
  stx_tx :: transaction
  stx_signer :: pubkey
  stx_signature :: sig

section \<open>Records of the state columns\<close>

record account =
  balance :: amount
  nonce :: nonce

definition ACCOUNT_ZERO :: account where
  "ACCOUNT_ZERO = \<lparr>balance = 0, nonce = 0\<rparr>"

definition account_is_empty :: "account \<Rightarrow> bool" where
  "account_is_empty a \<longleftrightarrow> balance a = 0 \<and> nonce a = 0"

lemma account_is_empty_iff [simp]: "account_is_empty a \<longleftrightarrow> a = ACCOUNT_ZERO"
  by (cases a) (auto simp: account_is_empty_def ACCOUNT_ZERO_def)

lemma ACCOUNT_ZERO_fields [simp]: "balance ACCOUNT_ZERO = 0" "nonce ACCOUNT_ZERO = 0"
  by (simp_all add: ACCOUNT_ZERO_def)

record stake_entry =
  se_node_id :: node_id
  se_role :: stake_role
  se_pool_id :: "pool_id option"
  se_delegator :: "address option"
  se_amount :: amount
  se_bonded_at :: height

definition stake_is_empty :: "stake_entry \<Rightarrow> bool" where
  "stake_is_empty e \<longleftrightarrow> se_amount e = 0"

record unbonding_entry =
  un_unbond_id :: nat
  un_node_id :: node_id
  un_role :: stake_role
  un_pool_id :: "pool_id option"
  un_delegator :: "address option"
  un_amount :: amount
  un_started_at :: height
  un_completes_at :: height

definition is_complete :: "unbonding_entry \<Rightarrow> height \<Rightarrow> bool" where
  "is_complete e current_height \<longleftrightarrow> current_height \<ge> un_completes_at e"

record validator_info =
  vi_node_id :: node_id
  vi_consensus_key :: pubkey
  vi_operator :: address
  vi_bonded_stake :: amount
  vi_voting_power :: nat
  vi_is_genesis :: bool
  vi_jailed :: bool

definition validator_is_active :: "validator_info \<Rightarrow> bool" where
  "validator_is_active v \<longleftrightarrow> \<not> vi_jailed v \<and> vi_voting_power v > 0"

datatype escrow_state = Locked | Settled | Refunded

record escrow_entry =
  es_job_id :: job_id
  es_user :: address
  es_amount :: amount
  es_created_at :: height
  es_state :: escrow_state

definition ESCROW_TIMEOUT_BLOCKS :: height where
  "ESCROW_TIMEOUT_BLOCKS = 7200"

record pending_reward =
  pw_job_id :: job_id
  pw_output_tokens :: nat
  pw_user_payment :: amount
  pw_epoch :: nat
  pw_compute_addr :: address
  pw_verifier_addr :: address
  pw_router_addr :: address
  pw_treasury_addr :: address
  pw_tee_multiplier_bps :: nat
  pw_https_multiplier_bps :: nat

definition TEE_MULTIPLIER_NONE :: nat where "TEE_MULTIPLIER_NONE = 10000"

definition TEE_MULTIPLIER_TEE :: nat where "TEE_MULTIPLIER_TEE = 15000"

definition HTTPS_MULTIPLIER_BPS :: nat where "HTTPS_MULTIPLIER_BPS = 12000"

definition HTTP_MULTIPLIER_BPS :: nat where "HTTP_MULTIPLIER_BPS = 10000"

definition MAX_GATEWAY_URL_LEN :: nat where "MAX_GATEWAY_URL_LEN = 512"

record gateway_entry =
  ge_node_id :: node_id
  ge_operator :: address
  ge_url :: string
  ge_https :: bool
  ge_registered_at :: height

datatype proposal_phase = Discussion | Voting | Passed | Rejected | RejectedWithVeto | Executed

record proposal_record =
  prr_proposal :: proposal
  prr_phase :: proposal_phase
  prr_submitted_at :: height

record block_header =
  bh_version :: nat
  bh_chain_id :: string
  bh_height :: height
  bh_timestamp_ms :: timestamp
  bh_parent_hash :: hash256
  bh_state_root :: hash256
  bh_tx_root :: hash256
  bh_receipt_root :: hash256
  bh_proposer :: node_id
  bh_validator_set_hash :: hash256
  bh_base_fee :: amount
  bh_genesis_message :: string

record block =
  bl_header :: block_header
  bl_txs :: "signed_transaction list"
  bl_receipts :: "inference_receipt list"

section \<open>Code outside the repository\<close>

record ext =
  x_blake3 :: "bytes \<Rightarrow> hash256"
  x_sha256 :: "bytes \<Rightarrow> hash256"
  x_borsh_account :: "account \<Rightarrow> bytes"
  x_borsh_receipt :: "inference_receipt \<Rightarrow> bytes"
  x_borsh_tx :: "transaction \<Rightarrow> bytes"
  x_borsh_stx :: "signed_transaction \<Rightarrow> bytes"
  x_borsh_header :: "block_header \<Rightarrow> bytes"
  x_borsh_block :: "block \<Rightarrow> bytes"
  x_hex_encode :: "bytes \<Rightarrow> string"
  x_smt_root :: "(hash256 \<Rightarrow> hash256) \<Rightarrow> hash256"

section \<open>Hashes and addresses\<close>

definition DOMAIN_TX :: bytes where "DOMAIN_TX = str_bytes ''arknet-tx-v1''"

definition DOMAIN_BLOCK :: bytes where "DOMAIN_BLOCK = str_bytes ''arknet-block-v1''"

definition DOMAIN_TX_ROOT :: bytes where "DOMAIN_TX_ROOT = str_bytes ''arknet-tx-root-v1''"

definition DOMAIN_RECEIPT_ROOT :: bytes where
  "DOMAIN_RECEIPT_ROOT = str_bytes ''arknet-receipt-root-v1''"

definition tx_hash :: "ext \<Rightarrow> transaction \<Rightarrow> hash256" where
  "tx_hash X tx = x_blake3 X (DOMAIN_TX @ x_borsh_tx X tx)"

definition stx_hash :: "ext \<Rightarrow> signed_transaction \<Rightarrow> hash256" where
  "stx_hash X stx = tx_hash X (stx_tx stx)"

definition header_hash :: "ext \<Rightarrow> block_header \<Rightarrow> hash256" where
  "header_hash X h = x_blake3 X (DOMAIN_BLOCK @ x_borsh_header X h)"

definition linear_root :: "ext \<Rightarrow> bytes \<Rightarrow> hash256 list \<Rightarrow> hash256" where
  "linear_root X domain leaves = x_blake3 X (domain @ concat (map word_bytes leaves))"

definition tx_root :: "ext \<Rightarrow> hash256 list \<Rightarrow> hash256" where
  "tx_root X hs = linear_root X DOMAIN_TX_ROOT hs"

definition receipt_root :: "ext \<Rightarrow> hash256 list \<Rightarrow> hash256" where
  "receipt_root X hs = linear_root X DOMAIN_RECEIPT_ROOT hs"

text \<open>The first 20 of a digest's 32 bytes.\<close>

definition digest_address :: "hash256 \<Rightarrow> address" where
  "digest_address d = ucast (drop_bit 96 d)"

definition derive_address_from_signer :: "ext \<Rightarrow> pubkey \<Rightarrow> address" where
  "derive_address_from_signer X pk = digest_address (x_blake3 X (pk_bytes pk))"

definition node_id_to_address :: "ext \<Rightarrow> node_id \<Rightarrow> address" where
  "node_id_to_address X n = digest_address (x_blake3 X (word_bytes n))"

definition bootstrap_treasury_address :: "ext \<Rightarrow> address" where
  "bootstrap_treasury_address X = digest_address (x_blake3 X (str_bytes ''arknet-treasury-v1''))"

definition MAX_SIGNED_TX_BYTES :: nat where
  "MAX_SIGNED_TX_BYTES = 1024 * 1024"

definition stx_encoded_len :: "ext \<Rightarrow> signed_transaction \<Rightarrow> nat" where
  "stx_encoded_len X stx = length (x_borsh_stx X stx)"

datatype chain_error =
  Codec string
| Oversize string nat nat
| FeeMarket string
| Da string

definition check_signed_tx_size :: "ext \<Rightarrow> signed_transaction \<Rightarrow> (chain_error, unit) result" where
  "check_signed_tx_size X stx =
     (let len = stx_encoded_len X stx
      in if len > MAX_SIGNED_TX_BYTES
         then Err (Oversize ''signed transaction'' len MAX_SIGNED_TX_BYTES)
         else Ok ())"

definition MAX_BLOCK_BYTES :: nat where
  "MAX_BLOCK_BYTES = 10 * 1024 * 1024"

definition check_block_size :: "ext \<Rightarrow> block \<Rightarrow> (chain_error, unit) result" where
  "check_block_size X b =
     (let len = length (x_borsh_block X b)
      in if len > MAX_BLOCK_BYTES then Err (Oversize ''block'' len MAX_BLOCK_BYTES) else Ok ())"

section \<open>Keys of the state columns\<close>

definition opt_bytes :: "'a::len word option \<Rightarrow> bytes" where
  "opt_bytes x = (case x of None \<Rightarrow> [0] | Some w \<Rightarrow> 1 # word_bytes w)"

definition stake_key ::
    "node_id \<Rightarrow> stake_role \<Rightarrow> pool_id option \<Rightarrow> address option \<Rightarrow> bytes" where
  "stake_key n r pool delegator = word_bytes n @ role_byte r # opt_bytes pool @ opt_bytes delegator"

definition unbond_key :: "node_id \<Rightarrow> nat \<Rightarrow> bytes" where
  "unbond_key n unbond_id = word_bytes n @ u64_be_bytes unbond_id"

definition gov_vote_key :: "nat \<Rightarrow> address \<Rightarrow> bytes" where
  "gov_vote_key proposal_id voter = u64_be_bytes proposal_id @ word_bytes voter"

lemma role_byte_inj: "role_byte r = role_byte r' \<Longrightarrow> r = r'"
  by (cases r; cases r') auto

lemma opt_bytes_append_inj:
  assumes "8 dvd LENGTH('a::len)"
  shows "opt_bytes (x :: 'a word option) @ us = opt_bytes y @ vs \<Longrightarrow> x = y \<and> us = vs"
  using word_bytes_inj[OF assms]
  by (cases x; cases y) (auto simp: opt_bytes_def dest: word_bytes_inj[OF assms])

lemma opt_bytes_inj:
  assumes "8 dvd LENGTH('a::len)"
  shows "opt_bytes (x :: 'a word option) = opt_bytes y \<Longrightarrow> x = y"
  using opt_bytes_append_inj[OF assms, of x "[]" y "[]"] by simp

lemma stake_key_eq_iff:
  "stake_key n r p d = stake_key n' r' p' d' \<longleftrightarrow> n = n' \<and> r = r' \<and> p = p' \<and> d = d'"
proof
  assume "stake_key n r p d = stake_key n' r' p' d'"
  then have n: "word_bytes n = word_bytes n'" and r: "role_byte r = role_byte r'"
    and rest: "opt_bytes p @ opt_bytes d = opt_bytes p' @ opt_bytes d'"
    by (auto simp: stake_key_def)
  from n have "n = n'" by (rule word_bytes_inj[rotated]) simp
  moreover from r have "r = r'" by (rule role_byte_inj)
  moreover from rest have "p = p'" "opt_bytes d = opt_bytes d'"
    using opt_bytes_append_inj[of p "opt_bytes d" p' "opt_bytes d'"] by simp_all
  moreover from this(2) have "d = d'" by (rule opt_bytes_inj[rotated]) simp
  ultimately show "n = n' \<and> r = r' \<and> p = p' \<and> d = d'" by simp
qed simp

lemma unbond_key_eq_iff:
  "i < 2 ^ 64 \<Longrightarrow> i' < 2 ^ 64 \<Longrightarrow> unbond_key n i = unbond_key n' i' \<longleftrightarrow> n = n' \<and> i = i'"
  using word_bytes_inj[of n n'] u64_be_bytes_inj[of i i'] by (auto simp: unbond_key_def)

lemma gov_vote_key_eq_iff:
  "i < 2 ^ 64 \<Longrightarrow> i' < 2 ^ 64 \<Longrightarrow> gov_vote_key i v = gov_vote_key i' v' \<longleftrightarrow> i = i' \<and> v = v'"
  using word_bytes_inj[of v v'] u64_be_bytes_inj[of i i'] by (auto simp: gov_vote_key_def)

lemma starts_with_stake_key: "starts_with (word_bytes n) (stake_key n' r p d) \<longleftrightarrow> n = n'"
  unfolding stake_key_def
  using starts_with_same_length[of "word_bytes n" "word_bytes n'"] word_bytes_inj[of n n'] by auto

lemma starts_with_unbond_key: "starts_with (word_bytes n) (unbond_key n' i) \<longleftrightarrow> n = n'"
  unfolding unbond_key_def
  using starts_with_same_length[of "word_bytes n" "word_bytes n'"] word_bytes_inj[of n n'] by auto

end
