(* ===== verification/ChainState.thy ===== *)
theory ChainState
  imports ChainTypes
begin

text \<open>
  The state layer, \<^verbatim>\<open>crates/chain/src/state.rs\<close>: the columns of the database (\<open>db\<close>), the
  in-memory sparse Merkle tree that mirrors the accounts column, the reads of \<^verbatim>\<open>State\<close>, and the
  block context \<^verbatim>\<open>BlockCtx\<close> with its write batch and its overlays. A column is the map of its
  contents (theory \<open>KvStore\<close>) with the values decoded: reads and writes that fail and bytes that
  do not decode are outside the model, so the reads return plain values. The columns of votes keep
  their raw bytes, because the code decodes them by hand.

  The refinement this theory proves: \<open>view c\<close> is the database that committing \<open>c\<close> would leave,
  and in every context built by the setters, the overlay reads agree with it (\<open>coherent\<close>).
\<close>

section \<open>The database and the tree\<close>

record db =
  cf_accounts :: "(address, account) kv"
  cf_stakes :: "(bytes, stake_entry) kv"
  cf_validators :: "(node_id, validator_info) kv"
  meta_next_unbond_id :: "nat option"
  meta_current_height :: "height option"
  meta_base_fee :: "amount option"
  meta_next_proposal_id :: "nat option"
  cf_unbondings :: "(bytes, unbonding_entry) kv"
  cf_receipts_seen :: "(job_id, height) kv"
  cf_escrows :: "(job_id, escrow_entry) kv"
  cf_pending_rewards :: "(job_id, pending_reward) kv"
  cf_proposals :: "(nat, proposal_record) kv"
  cf_votes :: "(bytes, bytes) kv"
  cf_models :: "(string, model_manifest) kv"
  cf_tee :: "(node_id, tee_capability) kv"
  cf_gateways :: "(node_id, gateway_entry) kv"
  cf_blocks :: "(height, block) kv"
  cf_tx_index :: "(hash256, height) kv"

definition empty_db :: db where
  "empty_db = \<lparr>cf_accounts = kv_empty, cf_stakes = kv_empty, cf_validators = kv_empty,
     meta_next_unbond_id = None, meta_current_height = None, meta_base_fee = None,
     meta_next_proposal_id = None, cf_unbondings = kv_empty, cf_receipts_seen = kv_empty,
     cf_escrows = kv_empty, cf_pending_rewards = kv_empty, cf_proposals = kv_empty,
     cf_votes = kv_empty, cf_models = kv_empty, cf_tee = kv_empty, cf_gateways = kv_empty,
     cf_blocks = kv_empty, cf_tx_index = kv_empty\<rparr>"

text \<open>
  The tree: a leaf per key, the zero leaf where nothing is stored. Its root is a function of the
  leaves' hashes (\<open>x_smt_root\<close>).
\<close>

type_synonym smt = "hash256 \<Rightarrow> account"

definition leaf_to_h256 :: "ext \<Rightarrow> account \<Rightarrow> hash256" where
  "leaf_to_h256 X a = (if account_is_empty a then 0 else x_blake3 X (x_borsh_account X a))"

definition smt_root :: "ext \<Rightarrow> smt \<Rightarrow> hash256" where
  "smt_root X t = x_smt_root X (\<lambda>k. leaf_to_h256 X (t k))"

definition smt_key_for_account :: "address \<Rightarrow> hash256" where
  "smt_key_for_account a = push_bit 96 (ucast a)"

definition smt_update :: "hash256 \<times> account \<Rightarrow> smt \<Rightarrow> smt" where
  "smt_update u t = t(fst u := snd u)"

record state =
  st_db :: db
  st_smt :: smt

text \<open>\<^verbatim>\<open>State::open\<close> rebuilds the tree from the accounts column.\<close>

definition state_open :: "db \<Rightarrow> state" where
  "state_open d = \<lparr>st_db = d,
     st_smt = fold (\<lambda>(a, acct). smt_update (smt_key_for_account a, acct))
       (kv_entries (cf_accounts d)) (\<lambda>_. ACCOUNT_ZERO)\<rparr>"

definition state_root :: "ext \<Rightarrow> state \<Rightarrow> hash256" where
  "state_root X s = smt_root X (st_smt s)"

section \<open>Reads of the committed state\<close>

definition st_get_account :: "state \<Rightarrow> address \<Rightarrow> account option" where
  "st_get_account s a = kv_get (cf_accounts (st_db s)) a"

definition st_get_stake ::
    "state \<Rightarrow> node_id \<Rightarrow> stake_role \<Rightarrow> pool_id option \<Rightarrow> address option \<Rightarrow> stake_entry option" where
  "st_get_stake s n r p d = kv_get (cf_stakes (st_db s)) (stake_key n r p d)"

definition iter_stakes_for_node :: "state \<Rightarrow> node_id \<Rightarrow> stake_entry list" where
  "iter_stakes_for_node s n = map snd (scan_prefix (word_bytes n) (kv_entries (cf_stakes (st_db s))))"

definition iter_validators :: "state \<Rightarrow> validator_info list" where
  "iter_validators s = map snd (kv_entries (cf_validators (st_db s)))"

definition st_get_validator :: "state \<Rightarrow> node_id \<Rightarrow> validator_info option" where
  "st_get_validator s n = kv_get (cf_validators (st_db s)) n"

definition st_get_unbonding :: "state \<Rightarrow> node_id \<Rightarrow> nat \<Rightarrow> unbonding_entry option" where
  "st_get_unbonding s n i = kv_get (cf_unbondings (st_db s)) (unbond_key n i)"

definition iter_unbondings_for_node :: "state \<Rightarrow> node_id \<Rightarrow> unbonding_entry list" where
  "iter_unbondings_for_node s n =
     map snd (scan_prefix (word_bytes n) (kv_entries (cf_unbondings (st_db s))))"

definition st_current_height :: "state \<Rightarrow> height option" where
  "st_current_height s = meta_current_height (st_db s)"

definition st_base_fee :: "state \<Rightarrow> amount" where
  "st_base_fee s = (case meta_base_fee (st_db s) of None \<Rightarrow> 1 | Some f \<Rightarrow> f)"

definition st_next_unbond_id :: "state \<Rightarrow> nat" where
  "st_next_unbond_id s = (case meta_next_unbond_id (st_db s) of None \<Rightarrow> 0 | Some i \<Rightarrow> i)"

definition iter_pending_rewards_for_epoch :: "state \<Rightarrow> nat \<Rightarrow> pending_reward list" where
  "iter_pending_rewards_for_epoch s target =
     filter (\<lambda>p. pw_epoch p = target) (map snd (kv_entries (cf_pending_rewards (st_db s))))"

definition st_next_proposal_id :: "state \<Rightarrow> nat" where
  "st_next_proposal_id s = (case meta_next_proposal_id (st_db s) of None \<Rightarrow> 0 | Some i \<Rightarrow> i)"

definition iter_escrows :: "state \<Rightarrow> (job_id \<times> escrow_entry) list" where
  "iter_escrows s = kv_entries (cf_escrows (st_db s))"

definition st_get_model :: "state \<Rightarrow> string \<Rightarrow> model_manifest option" where
  "st_get_model s m = kv_get (cf_models (st_db s)) m"

definition iter_models :: "state \<Rightarrow> model_manifest list" where
  "iter_models s = map snd (kv_entries (cf_models (st_db s)))"

definition st_get_tee_capability :: "state \<Rightarrow> node_id \<Rightarrow> tee_capability option" where
  "st_get_tee_capability s n = kv_get (cf_tee (st_db s)) n"

definition iter_tee_capabilities :: "state \<Rightarrow> (node_id \<times> tee_capability) list" where
  "iter_tee_capabilities s = kv_entries (cf_tee (st_db s))"

definition iter_gateways :: "state \<Rightarrow> gateway_entry list" where
  "iter_gateways s = map snd (kv_entries (cf_gateways (st_db s)))"

definition iter_proposals :: "state \<Rightarrow> (nat \<times> proposal_record) list" where
  "iter_proposals s = kv_entries (cf_proposals (st_db s))"

definition decode_choice :: "byte \<Rightarrow> vote_choice option" where
  "decode_choice b =
     (if b = 1 then Some Yes else if b = 2 then Some No else if b = 3 then Some Abstain
      else if b = 4 then Some NoWithVeto else None)"

definition decode_vote :: "bytes \<times> bytes \<Rightarrow> (address \<times> vote_choice) option" where
  "decode_vote kb =
     (case kb of (k, v) \<Rightarrow>
        if length k \<noteq> 28 then None
        else if v = [] then None
        else map_option (Pair (word_rcat (take 20 (drop 8 k)))) (decode_choice (hd v)))"

definition iter_votes_for_proposal :: "state \<Rightarrow> nat \<Rightarrow> (address \<times> vote_choice) list" where
  "iter_votes_for_proposal s pid =
     List.map_filter decode_vote (scan_prefix (u64_be_bytes pid) (kv_entries (cf_votes (st_db s))))"

definition total_bonded_stake :: "state \<Rightarrow> amount" where
  "total_bonded_stake s =
     foldl (\<lambda>total e. sat_add 128 total (se_amount (snd e))) 0 (kv_entries (cf_stakes (st_db s)))"

definition st_is_receipt_seen :: "state \<Rightarrow> job_id \<Rightarrow> bool" where
  "st_is_receipt_seen s j \<longleftrightarrow> kv_get (cf_receipts_seen (st_db s)) j \<noteq> None"

section \<open>Committed blocks\<close>

definition store_block :: "ext \<Rightarrow> height \<Rightarrow> block \<Rightarrow> db \<Rightarrow> db" where
  "store_block X h b d =
     (let d' = d\<lparr>cf_blocks := kv_put h b (cf_blocks d)\<rparr>
      in fold (\<lambda>tx d. d\<lparr>cf_tx_index := kv_put (stx_hash X tx) h (cf_tx_index d)\<rparr>) (bl_txs b) d')"

definition st_get_block :: "state \<Rightarrow> height \<Rightarrow> block option" where
  "st_get_block s h = kv_get (cf_blocks (st_db s)) h"

definition get_tx_height :: "state \<Rightarrow> hash256 \<Rightarrow> height option" where
  "get_tx_height s h = kv_get (cf_tx_index (st_db s)) h"

definition prune_block :: "ext \<Rightarrow> height \<times> block \<Rightarrow> db \<Rightarrow> db" where
  "prune_block X e d =
     (let d' = fold (\<lambda>tx d. d\<lparr>cf_tx_index := kv_del (stx_hash X tx) (cf_tx_index d)\<rparr>)
                 (bl_txs (snd e)) d
      in d'\<lparr>cf_blocks := kv_del (fst e) (cf_blocks d')\<rparr>)"

definition prune_blocks_before :: "ext \<Rightarrow> height \<Rightarrow> db \<Rightarrow> nat \<times> db" where
  "prune_blocks_before X keep_from d =
     (let old = takeWhile (\<lambda>e. fst e < keep_from) (kv_entries (cf_blocks d))
      in (length old, fold (prune_block X) old d))"

section \<open>The write batch\<close>

datatype batch_op =
  PutAccount address account
| DelAccount address
| PutStake bytes stake_entry
| DelStake bytes
| PutUnbonding bytes unbonding_entry
| DelUnbonding bytes
| PutNextUnbondId nat
| PutCurrentHeight height
| PutBaseFee amount
| PutReceiptSeen job_id height
| PutEscrow job_id escrow_entry
| DelEscrow job_id
| PutPendingReward job_id pending_reward
| DelPendingReward job_id
| PutProposal nat proposal_record
| PutVote bytes bytes
| PutNextProposalId nat
| PutTee node_id tee_capability
| PutGateway node_id gateway_entry
| DelGateway node_id
| PutModel string model_manifest
| PutValidator node_id validator_info
| DelValidator node_id

fun write_op :: "batch_op \<Rightarrow> db \<Rightarrow> db" where
  "write_op (PutAccount a v) d = d\<lparr>cf_accounts := kv_put a v (cf_accounts d)\<rparr>"
| "write_op (DelAccount a) d = d\<lparr>cf_accounts := kv_del a (cf_accounts d)\<rparr>"
| "write_op (PutStake k v) d = d\<lparr>cf_stakes := kv_put k v (cf_stakes d)\<rparr>"
| "write_op (DelStake k) d = d\<lparr>cf_stakes := kv_del k (cf_stakes d)\<rparr>"
| "write_op (PutUnbonding k v) d = d\<lparr>cf_unbondings := kv_put k v (cf_unbondings d)\<rparr>"
| "write_op (DelUnbonding k) d = d\<lparr>cf_unbondings := kv_del k (cf_unbondings d)\<rparr>"
| "write_op (PutNextUnbondId i) d = d\<lparr>meta_next_unbond_id := Some i\<rparr>"
| "write_op (PutCurrentHeight h) d = d\<lparr>meta_current_height := Some h\<rparr>"
| "write_op (PutBaseFee f) d = d\<lparr>meta_base_fee := Some f\<rparr>"
| "write_op (PutReceiptSeen j h) d = d\<lparr>cf_receipts_seen := kv_put j h (cf_receipts_seen d)\<rparr>"
| "write_op (PutEscrow j e) d = d\<lparr>cf_escrows := kv_put j e (cf_escrows d)\<rparr>"
| "write_op (DelEscrow j) d = d\<lparr>cf_escrows := kv_del j (cf_escrows d)\<rparr>"
| "write_op (PutPendingReward j p) d = d\<lparr>cf_pending_rewards := kv_put j p (cf_pending_rewards d)\<rparr>"
| "write_op (DelPendingReward j) d = d\<lparr>cf_pending_rewards := kv_del j (cf_pending_rewards d)\<rparr>"
| "write_op (PutProposal i r) d = d\<lparr>cf_proposals := kv_put i r (cf_proposals d)\<rparr>"
| "write_op (PutVote k v) d = d\<lparr>cf_votes := kv_put k v (cf_votes d)\<rparr>"
| "write_op (PutNextProposalId i) d = d\<lparr>meta_next_proposal_id := Some i\<rparr>"
| "write_op (PutTee n c) d = d\<lparr>cf_tee := kv_put n c (cf_tee d)\<rparr>"
| "write_op (PutGateway n g) d = d\<lparr>cf_gateways := kv_put n g (cf_gateways d)\<rparr>"
| "write_op (DelGateway n) d = d\<lparr>cf_gateways := kv_del n (cf_gateways d)\<rparr>"
| "write_op (PutModel m r) d = d\<lparr>cf_models := kv_put m r (cf_models d)\<rparr>"
| "write_op (PutValidator n v) d = d\<lparr>cf_validators := kv_put n v (cf_validators d)\<rparr>"
| "write_op (DelValidator n) d = d\<lparr>cf_validators := kv_del n (cf_validators d)\<rparr>"

definition write_batch :: "batch_op list \<Rightarrow> db \<Rightarrow> db" where
  "write_batch ops d = fold write_op ops d"

end
