(* ===== verification/BlockContext.thy ===== *)
theory BlockContext
  imports ChainState
begin

text \<open>
  The block context \<^verbatim>\<open>BlockCtx\<close> of \<^verbatim>\<open>crates/chain/src/state.rs\<close>: a write batch over the
  committed state, the overlays that let later reads of the same block see earlier writes, and the
  pending updates of the account tree. Only accounts, stakes, unbondings, receipt marks, the next
  unbonding id and the height have an overlay; escrows, proposals, votes and models are read from
  the committed state, whatever the block has buffered.

  \<open>view c\<close> is the database after committing \<open>c\<close>. \<open>coherent c\<close> says that every overlay
  read of \<open>c\<close> agrees with \<open>view c\<close> and that the pending tree updates bring the tree in line
  with the accounts of \<open>view c\<close>; \<open>begin_block\<close> establishes it and every setter keeps it.
\<close>

named_theorems ctx_defs "the setters and reads of the block context"
named_theorems coherent_intros "the setters keep the context coherent"

record block_ctx =
  ctx_state :: state
  ctx_batch :: "batch_op list"
  pending_smt_updates :: "(hash256 \<times> account) list"
  account_overlay :: "address \<Rightarrow> account option option"
  stake_overlay :: "bytes \<Rightarrow> stake_entry option option"
  unbonding_overlay :: "bytes \<Rightarrow> unbonding_entry option option"
  receipt_seen_overlay :: "job_id \<Rightarrow> height option"
  pending_next_unbond_id :: "nat option"
  pending_current_height :: "height option"

definition begin_block :: "state \<Rightarrow> block_ctx" where
  "begin_block s = \<lparr>ctx_state = s, ctx_batch = [], pending_smt_updates = [],
     account_overlay = Map.empty, stake_overlay = Map.empty, unbonding_overlay = Map.empty,
     receipt_seen_overlay = Map.empty, pending_next_unbond_id = None,
     pending_current_height = None\<rparr>"

definition buffer :: "batch_op \<Rightarrow> block_ctx \<Rightarrow> block_ctx" where
  "buffer op c = c\<lparr>ctx_batch := ctx_batch c @ [op]\<rparr>"

section \<open>Writes\<close>

definition set_account :: "address \<Rightarrow> account \<Rightarrow> block_ctx \<Rightarrow> block_ctx" where
  "set_account a acct c =
     (let c1 = (if account_is_empty acct
                then (buffer (DelAccount a) c)\<lparr>account_overlay := (account_overlay c)(a \<mapsto> None)\<rparr>
                else (buffer (PutAccount a acct) c)
                       \<lparr>account_overlay := (account_overlay c)(a \<mapsto> Some acct)\<rparr>)
      in c1\<lparr>pending_smt_updates := pending_smt_updates c @ [(smt_key_for_account a, acct)]\<rparr>)"

definition set_stake ::
    "node_id \<Rightarrow> stake_role \<Rightarrow> pool_id option \<Rightarrow> address option \<Rightarrow> stake_entry \<Rightarrow> block_ctx \<Rightarrow>
     block_ctx" where
  "set_stake n r p d e c =
     (let key = stake_key n r p d
      in if stake_is_empty e
         then (buffer (DelStake key) c)\<lparr>stake_overlay := (stake_overlay c)(key \<mapsto> None)\<rparr>
         else (buffer (PutStake key e) c)\<lparr>stake_overlay := (stake_overlay c)(key \<mapsto> Some e)\<rparr>)"

definition set_unbonding :: "node_id \<Rightarrow> unbonding_entry \<Rightarrow> block_ctx \<Rightarrow> block_ctx" where
  "set_unbonding n e c =
     (let key = unbond_key n (un_unbond_id e)
      in (buffer (PutUnbonding key e) c)
           \<lparr>unbonding_overlay := (unbonding_overlay c)(key \<mapsto> Some e)\<rparr>)"

definition delete_unbonding :: "node_id \<Rightarrow> nat \<Rightarrow> block_ctx \<Rightarrow> block_ctx" where
  "delete_unbonding n i c =
     (let key = unbond_key n i
      in (buffer (DelUnbonding key) c)\<lparr>unbonding_overlay := (unbonding_overlay c)(key \<mapsto> None)\<rparr>)"

definition set_next_unbond_id :: "nat \<Rightarrow> block_ctx \<Rightarrow> block_ctx" where
  "set_next_unbond_id i c = (buffer (PutNextUnbondId i) c)\<lparr>pending_next_unbond_id := Some i\<rparr>"

definition set_current_height :: "height \<Rightarrow> block_ctx \<Rightarrow> block_ctx" where
  "set_current_height h c = (buffer (PutCurrentHeight h) c)\<lparr>pending_current_height := Some h\<rparr>"

definition set_base_fee :: "amount \<Rightarrow> block_ctx \<Rightarrow> block_ctx" where
  "set_base_fee f c = buffer (PutBaseFee f) c"

definition mark_receipt_seen :: "job_id \<Rightarrow> height \<Rightarrow> block_ctx \<Rightarrow> block_ctx" where
  "mark_receipt_seen j h c =
     (buffer (PutReceiptSeen j h) c)\<lparr>receipt_seen_overlay := (receipt_seen_overlay c)(j \<mapsto> h)\<rparr>"

definition set_escrow :: "job_id \<Rightarrow> escrow_entry \<Rightarrow> block_ctx \<Rightarrow> block_ctx" where
  "set_escrow j e c = buffer (PutEscrow j e) c"

definition delete_escrow :: "job_id \<Rightarrow> block_ctx \<Rightarrow> block_ctx" where
  "delete_escrow j c = buffer (DelEscrow j) c"

definition set_pending_reward :: "job_id \<Rightarrow> pending_reward \<Rightarrow> block_ctx \<Rightarrow> block_ctx" where
  "set_pending_reward j p c = buffer (PutPendingReward j p) c"

definition delete_pending_reward :: "job_id \<Rightarrow> block_ctx \<Rightarrow> block_ctx" where
  "delete_pending_reward j c = buffer (DelPendingReward j) c"

definition set_proposal :: "nat \<Rightarrow> proposal_record \<Rightarrow> block_ctx \<Rightarrow> block_ctx" where
  "set_proposal i r c = buffer (PutProposal i r) c"

definition set_vote :: "bytes \<Rightarrow> bytes \<Rightarrow> block_ctx \<Rightarrow> block_ctx" where
  "set_vote k v c = buffer (PutVote k v) c"

definition set_next_proposal_id :: "nat \<Rightarrow> block_ctx \<Rightarrow> block_ctx" where
  "set_next_proposal_id i c = buffer (PutNextProposalId i) c"

definition set_tee_capability :: "node_id \<Rightarrow> tee_capability \<Rightarrow> block_ctx \<Rightarrow> block_ctx" where
  "set_tee_capability n t c = buffer (PutTee n t) c"

definition set_gateway :: "node_id \<Rightarrow> gateway_entry \<Rightarrow> block_ctx \<Rightarrow> block_ctx" where
  "set_gateway n g c = buffer (PutGateway n g) c"

definition delete_gateway :: "node_id \<Rightarrow> block_ctx \<Rightarrow> block_ctx" where
  "delete_gateway n c = buffer (DelGateway n) c"

definition set_model :: "string \<Rightarrow> model_manifest \<Rightarrow> block_ctx \<Rightarrow> block_ctx" where
  "set_model m r c = buffer (PutModel m r) c"

definition set_validator :: "node_id \<Rightarrow> validator_info \<Rightarrow> block_ctx \<Rightarrow> block_ctx" where
  "set_validator n v c = buffer (PutValidator n v) c"

definition delete_validator :: "node_id \<Rightarrow> block_ctx \<Rightarrow> block_ctx" where
  "delete_validator n c = buffer (DelValidator n) c"

section \<open>Reads\<close>

definition get_account :: "block_ctx \<Rightarrow> address \<Rightarrow> account option" where
  "get_account c a =
     (case account_overlay c a of Some entry \<Rightarrow> entry | None \<Rightarrow> st_get_account (ctx_state c) a)"

definition get_stake ::
    "block_ctx \<Rightarrow> node_id \<Rightarrow> stake_role \<Rightarrow> pool_id option \<Rightarrow> address option \<Rightarrow> stake_entry option" where
  "get_stake c n r p d =
     (case stake_overlay c (stake_key n r p d) of
        Some entry \<Rightarrow> entry | None \<Rightarrow> st_get_stake (ctx_state c) n r p d)"

definition get_unbonding :: "block_ctx \<Rightarrow> node_id \<Rightarrow> nat \<Rightarrow> unbonding_entry option" where
  "get_unbonding c n i =
     (case unbonding_overlay c (unbond_key n i) of
        Some entry \<Rightarrow> entry | None \<Rightarrow> st_get_unbonding (ctx_state c) n i)"

definition next_unbond_id :: "block_ctx \<Rightarrow> nat" where
  "next_unbond_id c =
     (case pending_next_unbond_id c of Some v \<Rightarrow> v | None \<Rightarrow> st_next_unbond_id (ctx_state c))"

definition current_height :: "block_ctx \<Rightarrow> height option" where
  "current_height c =
     (case pending_current_height c of Some h \<Rightarrow> Some h | None \<Rightarrow> st_current_height (ctx_state c))"

definition is_receipt_seen :: "block_ctx \<Rightarrow> job_id \<Rightarrow> bool" where
  "is_receipt_seen c j \<longleftrightarrow>
     receipt_seen_overlay c j \<noteq> None \<or> st_is_receipt_seen (ctx_state c) j"

definition get_escrow :: "block_ctx \<Rightarrow> job_id \<Rightarrow> escrow_entry option" where
  "get_escrow c j = kv_get (cf_escrows (st_db (ctx_state c))) j"

definition get_proposal :: "block_ctx \<Rightarrow> nat \<Rightarrow> proposal_record option" where
  "get_proposal c i = kv_get (cf_proposals (st_db (ctx_state c))) i"

definition get_vote :: "block_ctx \<Rightarrow> bytes \<Rightarrow> bytes option" where
  "get_vote c k = kv_get (cf_votes (st_db (ctx_state c))) k"

definition get_model :: "block_ctx \<Rightarrow> string \<Rightarrow> model_manifest option" where
  "get_model c m = kv_get (cf_models (st_db (ctx_state c))) m"

definition get_tee_capability :: "block_ctx \<Rightarrow> node_id \<Rightarrow> tee_capability option" where
  "get_tee_capability c n = kv_get (cf_tee (st_db (ctx_state c))) n"

text \<open>\<^verbatim>\<open>get_account(a)?.unwrap_or_default()\<close>, and the credit the handlers repeat.\<close>

definition account_or_default :: "block_ctx \<Rightarrow> address \<Rightarrow> account" where
  "account_or_default c a = (case get_account c a of None \<Rightarrow> ACCOUNT_ZERO | Some acct \<Rightarrow> acct)"

definition credit_address :: "address \<Rightarrow> amount \<Rightarrow> block_ctx \<Rightarrow> block_ctx" where
  "credit_address a n c =
     (let acct = account_or_default c a
      in set_account a (acct\<lparr>balance := sat_add 128 (balance acct) n\<rparr>) c)"

section \<open>Preview and commit\<close>

definition smt_apply :: "(hash256 \<times> account) list \<Rightarrow> smt \<Rightarrow> smt" where
  "smt_apply us t = fold smt_update us t"

text \<open>
  \<^verbatim>\<open>preview_state_root\<close> works on the shared tree: it stashes the leaves under the pending
  keys, applies the updates, reads the root, and writes the stashed leaves back in reverse order.
  The result is the root and the tree it leaves behind.
\<close>

definition preview_state_root :: "ext \<Rightarrow> block_ctx \<Rightarrow> hash256 \<times> smt" where
  "preview_state_root X c =
     (let t = st_smt (ctx_state c);
          stashed = map (\<lambda>u. (fst u, t (fst u))) (pending_smt_updates c);
          applied = smt_apply (pending_smt_updates c) t;
          restored = smt_apply (rev stashed) applied
      in (smt_root X applied, restored))"

definition commit :: "ext \<Rightarrow> block_ctx \<Rightarrow> hash256 \<times> state" where
  "commit X c =
     (let s = \<lparr>st_db = write_batch (ctx_batch c) (st_db (ctx_state c)),
               st_smt = smt_apply (pending_smt_updates c) (st_smt (ctx_state c))\<rparr>
      in (smt_root X (st_smt s), s))"

section \<open>The view of a context\<close>

definition view :: "block_ctx \<Rightarrow> db" where
  "view c = write_batch (ctx_batch c) (st_db (ctx_state c))"

lemma view_commit: "st_db (snd (commit X c)) = view c"
  by (simp add: commit_def view_def Let_def)

lemma view_buffer [simp]: "view (buffer op c) = write_op op (view c)"
  by (simp add: view_def buffer_def write_batch_def)

lemma view_overlay_updates [simp]:
  "view (c\<lparr>account_overlay := ao\<rparr>) = view c"
  "view (c\<lparr>stake_overlay := so\<rparr>) = view c"
  "view (c\<lparr>unbonding_overlay := uo\<rparr>) = view c"
  "view (c\<lparr>receipt_seen_overlay := ro\<rparr>) = view c"
  "view (c\<lparr>pending_next_unbond_id := ni\<rparr>) = view c"
  "view (c\<lparr>pending_current_height := ch\<rparr>) = view c"
  "view (c\<lparr>pending_smt_updates := us\<rparr>) = view c"
  by (simp_all add: view_def)

lemma buffer_fields [simp]:
  "ctx_state (buffer op c) = ctx_state c"
  "pending_smt_updates (buffer op c) = pending_smt_updates c"
  "account_overlay (buffer op c) = account_overlay c"
  "stake_overlay (buffer op c) = stake_overlay c"
  "unbonding_overlay (buffer op c) = unbonding_overlay c"
  "receipt_seen_overlay (buffer op c) = receipt_seen_overlay c"
  "pending_next_unbond_id (buffer op c) = pending_next_unbond_id c"
  "pending_current_height (buffer op c) = pending_current_height c"
  by (simp_all add: buffer_def)

lemma view_begin_block [simp]: "view (begin_block s) = st_db s"
  by (simp add: view_def begin_block_def write_batch_def)

lemmas setter_defs =
  set_account_def set_stake_def set_unbonding_def delete_unbonding_def set_next_unbond_id_def
  set_current_height_def set_base_fee_def mark_receipt_seen_def set_escrow_def delete_escrow_def
  set_pending_reward_def delete_pending_reward_def set_proposal_def set_vote_def
  set_next_proposal_id_def set_tee_capability_def set_gateway_def delete_gateway_def set_model_def
  set_validator_def delete_validator_def

lemmas getter_defs =
  get_account_def get_stake_def get_unbonding_def next_unbond_id_def current_height_def
  is_receipt_seen_def st_get_account_def st_get_stake_def st_get_unbonding_def
  st_next_unbond_id_def st_current_height_def st_is_receipt_seen_def

lemma ctx_state_setters [simp]:
  "ctx_state (set_account a acct c) = ctx_state c"
  "ctx_state (set_stake n r p d e c) = ctx_state c"
  "ctx_state (set_unbonding n u c) = ctx_state c"
  "ctx_state (delete_unbonding n i c) = ctx_state c"
  "ctx_state (set_next_unbond_id i c) = ctx_state c"
  "ctx_state (set_current_height h c) = ctx_state c"
  "ctx_state (set_base_fee f c) = ctx_state c"
  "ctx_state (mark_receipt_seen j h c) = ctx_state c"
  "ctx_state (set_escrow j es c) = ctx_state c"
  "ctx_state (delete_escrow j c) = ctx_state c"
  "ctx_state (set_pending_reward j pw c) = ctx_state c"
  "ctx_state (delete_pending_reward j c) = ctx_state c"
  "ctx_state (set_proposal i prr c) = ctx_state c"
  "ctx_state (set_vote k v c) = ctx_state c"
  "ctx_state (set_next_proposal_id i c) = ctx_state c"
  "ctx_state (set_tee_capability n t c) = ctx_state c"
  "ctx_state (set_gateway n g c) = ctx_state c"
  "ctx_state (delete_gateway n c) = ctx_state c"
  "ctx_state (set_model m mm c) = ctx_state c"
  "ctx_state (set_validator n vi c) = ctx_state c"
  "ctx_state (delete_validator n c) = ctx_state c"
  "ctx_state (credit_address a x c) = ctx_state c"
  by (simp_all add: setter_defs credit_address_def Let_def)

text \<open>What each setter does to the view.\<close>

lemma view_setters [simp]:
  "view (set_account a acct c) =
     (view c)\<lparr>cf_accounts := (if acct = ACCOUNT_ZERO then kv_del a (cf_accounts (view c))
                             else kv_put a acct (cf_accounts (view c)))\<rparr>"
  "view (set_stake n r p d e c) =
     (view c)\<lparr>cf_stakes := (if se_amount e = 0 then kv_del (stake_key n r p d) (cf_stakes (view c))
                           else kv_put (stake_key n r p d) e (cf_stakes (view c)))\<rparr>"
  "view (set_unbonding n u c) =
     (view c)\<lparr>cf_unbondings := kv_put (unbond_key n (un_unbond_id u)) u (cf_unbondings (view c))\<rparr>"
  "view (delete_unbonding n i c) =
     (view c)\<lparr>cf_unbondings := kv_del (unbond_key n i) (cf_unbondings (view c))\<rparr>"
  "view (set_next_unbond_id i c) = (view c)\<lparr>meta_next_unbond_id := Some i\<rparr>"
  "view (set_current_height h c) = (view c)\<lparr>meta_current_height := Some h\<rparr>"
  "view (set_base_fee f c) = (view c)\<lparr>meta_base_fee := Some f\<rparr>"
  "view (mark_receipt_seen j h c) =
     (view c)\<lparr>cf_receipts_seen := kv_put j h (cf_receipts_seen (view c))\<rparr>"
  "view (set_escrow j es c) = (view c)\<lparr>cf_escrows := kv_put j es (cf_escrows (view c))\<rparr>"
  "view (delete_escrow j c) = (view c)\<lparr>cf_escrows := kv_del j (cf_escrows (view c))\<rparr>"
  "view (set_pending_reward j pw c) =
     (view c)\<lparr>cf_pending_rewards := kv_put j pw (cf_pending_rewards (view c))\<rparr>"
  "view (delete_pending_reward j c) =
     (view c)\<lparr>cf_pending_rewards := kv_del j (cf_pending_rewards (view c))\<rparr>"
  "view (set_proposal i prr c) = (view c)\<lparr>cf_proposals := kv_put i prr (cf_proposals (view c))\<rparr>"
  "view (set_vote k v c) = (view c)\<lparr>cf_votes := kv_put k v (cf_votes (view c))\<rparr>"
  "view (set_next_proposal_id i c) = (view c)\<lparr>meta_next_proposal_id := Some i\<rparr>"
  "view (set_tee_capability n t c) = (view c)\<lparr>cf_tee := kv_put n t (cf_tee (view c))\<rparr>"
  "view (set_gateway n g c) = (view c)\<lparr>cf_gateways := kv_put n g (cf_gateways (view c))\<rparr>"
  "view (delete_gateway n c) = (view c)\<lparr>cf_gateways := kv_del n (cf_gateways (view c))\<rparr>"
  "view (set_model m mm c) = (view c)\<lparr>cf_models := kv_put m mm (cf_models (view c))\<rparr>"
  "view (set_validator n vi c) = (view c)\<lparr>cf_validators := kv_put n vi (cf_validators (view c))\<rparr>"
  "view (delete_validator n c) = (view c)\<lparr>cf_validators := kv_del n (cf_validators (view c))\<rparr>"
  by (simp_all add: setter_defs Let_def stake_is_empty_def)

section \<open>Coherence\<close>

text \<open>The tree mirrors the accounts column: the leaf of an address is its account, or the zero
  leaf, and no other key has a leaf.\<close>

definition mirrors :: "smt \<Rightarrow> (address, account) kv \<Rightarrow> bool" where
  "mirrors t accts \<longleftrightarrow>
     (\<forall>a. t (smt_key_for_account a) = (case kv_get accts a of None \<Rightarrow> ACCOUNT_ZERO | Some x \<Rightarrow> x)) \<and>
     (\<forall>k. k \<notin> range smt_key_for_account \<longrightarrow> t k = ACCOUNT_ZERO)"

definition state_ok :: "state \<Rightarrow> bool" where
  "state_ok s \<longleftrightarrow> mirrors (st_smt s) (cf_accounts (st_db s))"

definition coherent :: "block_ctx \<Rightarrow> bool" where
  "coherent c \<longleftrightarrow>
     (\<forall>a. get_account c a = kv_get (cf_accounts (view c)) a) \<and>
     (\<forall>n r p d. get_stake c n r p d = kv_get (cf_stakes (view c)) (stake_key n r p d)) \<and>
     (\<forall>n i. get_unbonding c n i = kv_get (cf_unbondings (view c)) (unbond_key n i)) \<and>
     (\<forall>j. is_receipt_seen c j \<longleftrightarrow> kv_get (cf_receipts_seen (view c)) j \<noteq> None) \<and>
     next_unbond_id c = (case meta_next_unbond_id (view c) of None \<Rightarrow> 0 | Some i \<Rightarrow> i) \<and>
     current_height c = meta_current_height (view c) \<and>
     mirrors (smt_apply (pending_smt_updates c) (st_smt (ctx_state c))) (cf_accounts (view c))"

lemma smt_key_inj: "smt_key_for_account a = smt_key_for_account b \<longleftrightarrow> a = b"
proof
  assume eq: "smt_key_for_account a = smt_key_for_account b"
  show "a = b"
  proof (rule bit_word_eqI)
    fix n assume n: "n < LENGTH(160)"
    have "bit (smt_key_for_account x) (n + 96) = bit x n" for x :: address
      using n by (simp add: smt_key_for_account_def bit_simps)
    from this[of a] this[of b] eq show "bit a n \<longleftrightarrow> bit b n" by simp
  qed
qed simp

lemma smt_apply_append: "smt_apply (us @ [u]) t = smt_update u (smt_apply us t)"
  by (simp add: smt_apply_def)

lemma mirrors_update:
  "mirrors t accts \<Longrightarrow>
   mirrors (smt_update (smt_key_for_account a, acct) t)
     (if acct = ACCOUNT_ZERO then kv_del a accts else kv_put a acct accts)"
  by (auto simp: mirrors_def smt_update_def smt_key_inj)

lemma fold_smt_update:
  assumes "distinct (map fst es)"
  shows "fold (\<lambda>(a, x). smt_update (smt_key_for_account a, x)) es t (smt_key_for_account b) =
    (case map_of es b of None \<Rightarrow> t (smt_key_for_account b) | Some x \<Rightarrow> x)"
  using assms
proof (induction es arbitrary: t)
  case (Cons e es)
  obtain a x where e: "e = (a, x)" by (cases e)
  from Cons e have "map_of es a = None" by (simp add: map_of_eq_None_iff)
  with Cons e show ?case by (simp add: smt_update_def smt_key_inj)
qed simp

lemma fold_smt_update_other:
  "k \<notin> range smt_key_for_account \<Longrightarrow>
   fold (\<lambda>(a, x). smt_update (smt_key_for_account a, x)) es t k = t k"
  by (induction es arbitrary: t) (auto simp: smt_update_def)

text \<open>The tree rebuilt by \<open>state_open\<close> mirrors the accounts column.\<close>

lemma state_ok_open: "state_ok (state_open d)"
  using fold_smt_update[OF kv.distinct_keys, of "cf_accounts d"]
  by (simp add: state_ok_def mirrors_def state_open_def kv.get_entries fold_smt_update_other
      del: split_paired_All)

lemma coherent_begin_block [coherent_intros]: "state_ok s \<Longrightarrow> coherent (begin_block s)"
  by (simp add: coherent_def state_ok_def getter_defs begin_block_def smt_apply_def
      view_def write_batch_def)

lemma coherent_set_account [coherent_intros]:
  assumes "coherent c"
  shows "coherent (set_account a acct c)"
proof -
  have m: "mirrors (smt_apply (pending_smt_updates (set_account a acct c)) (st_smt (ctx_state c)))
      (cf_accounts (view (set_account a acct c)))"
    using mirrors_update[of "smt_apply (pending_smt_updates c) (st_smt (ctx_state c))"
        "cf_accounts (view c)" a acct] assms
    by (simp add: coherent_def set_account_def smt_apply_append Let_def split: if_splits)
  have rest: "stake_overlay (set_account a acct c) = stake_overlay c"
    "unbonding_overlay (set_account a acct c) = unbonding_overlay c"
    "receipt_seen_overlay (set_account a acct c) = receipt_seen_overlay c"
    "pending_next_unbond_id (set_account a acct c) = pending_next_unbond_id c"
    "pending_current_height (set_account a acct c) = pending_current_height c"
    "account_overlay (set_account a acct c) =
       (account_overlay c)(a \<mapsto> (if acct = ACCOUNT_ZERO then None else Some acct))"
    by (simp_all add: set_account_def Let_def)
  show ?thesis using assms m by (simp add: coherent_def getter_defs rest cong: option.case_cong)
qed

lemma coherent_set_stake [coherent_intros]: "coherent c \<Longrightarrow> coherent (set_stake n r p d e c)"
proof -
  assume c: "coherent c"
  have rest: "account_overlay (set_stake n r p d e c) = account_overlay c"
    "unbonding_overlay (set_stake n r p d e c) = unbonding_overlay c"
    "receipt_seen_overlay (set_stake n r p d e c) = receipt_seen_overlay c"
    "pending_next_unbond_id (set_stake n r p d e c) = pending_next_unbond_id c"
    "pending_current_height (set_stake n r p d e c) = pending_current_height c"
    "pending_smt_updates (set_stake n r p d e c) = pending_smt_updates c"
    "stake_overlay (set_stake n r p d e c) =
       (stake_overlay c)(stake_key n r p d \<mapsto> (if se_amount e = 0 then None else Some e))"
    by (simp_all add: set_stake_def stake_is_empty_def Let_def)
  show ?thesis using c by (simp add: coherent_def getter_defs rest cong: option.case_cong)
qed

lemma coherent_set_unbonding [coherent_intros]: "coherent c \<Longrightarrow> coherent (set_unbonding n u c)"
  by (simp add: coherent_def getter_defs set_unbonding_def Let_def cong: option.case_cong)

lemma coherent_delete_unbonding [coherent_intros]:
  "coherent c \<Longrightarrow> coherent (delete_unbonding n i c)"
  by (simp add: coherent_def getter_defs delete_unbonding_def Let_def cong: option.case_cong)

lemma coherent_meta [coherent_intros]:
  "coherent c \<Longrightarrow> coherent (set_next_unbond_id i c)"
  "coherent c \<Longrightarrow> coherent (set_current_height h c)"
  "coherent c \<Longrightarrow> coherent (set_base_fee f c)"
  "coherent c \<Longrightarrow> coherent (set_next_proposal_id i c)"
  by (simp_all add: coherent_def getter_defs set_next_unbond_id_def set_current_height_def
      set_base_fee_def set_next_proposal_id_def cong: option.case_cong)

lemma coherent_mark_receipt_seen [coherent_intros]:
  "coherent c \<Longrightarrow> coherent (mark_receipt_seen j h c)"
  by (simp add: coherent_def getter_defs mark_receipt_seen_def cong: option.case_cong)

lemma coherent_buffered [coherent_intros]:
  "coherent c \<Longrightarrow> coherent (set_escrow j es c)"
  "coherent c \<Longrightarrow> coherent (delete_escrow j c)"
  "coherent c \<Longrightarrow> coherent (set_pending_reward j pw c)"
  "coherent c \<Longrightarrow> coherent (delete_pending_reward j c)"
  "coherent c \<Longrightarrow> coherent (set_proposal i prr c)"
  "coherent c \<Longrightarrow> coherent (set_vote k v c)"
  "coherent c \<Longrightarrow> coherent (set_tee_capability n t c)"
  "coherent c \<Longrightarrow> coherent (set_gateway n g c)"
  "coherent c \<Longrightarrow> coherent (delete_gateway n c)"
  "coherent c \<Longrightarrow> coherent (set_model m mm c)"
  "coherent c \<Longrightarrow> coherent (set_validator n vi c)"
  "coherent c \<Longrightarrow> coherent (delete_validator n c)"
  by (simp_all add: coherent_def getter_defs setter_defs cong: option.case_cong)

lemma coherent_credit_address [coherent_intros]: "coherent c \<Longrightarrow> coherent (credit_address a x c)"
  by (simp add: credit_address_def Let_def coherent_set_account)

lemma coherentD:
  assumes "coherent c"
  shows coherent_account: "get_account c a = kv_get (cf_accounts (view c)) a"
    and coherent_stake: "get_stake c n r p d = kv_get (cf_stakes (view c)) (stake_key n r p d)"
    and coherent_unbonding: "get_unbonding c n i = kv_get (cf_unbondings (view c)) (unbond_key n i)"
    and coherent_seen: "is_receipt_seen c j \<longleftrightarrow> kv_get (cf_receipts_seen (view c)) j \<noteq> None"
    and coherent_mirrors:
      "mirrors (smt_apply (pending_smt_updates c) (st_smt (ctx_state c))) (cf_accounts (view c))"
  using assms by (auto simp: coherent_def)

lemma state_ok_commit: "coherent c \<Longrightarrow> state_ok (snd (commit X c))"
  using coherent_mirrors[of c] by (simp add: state_ok_def commit_def Let_def view_def)

section \<open>Preview\<close>

lemma smt_apply_stash:
  "smt_apply (rev (map (\<lambda>u. (fst u, t (fst u))) us)) s k =
     (if k \<in> fst ` set us then t k else s k)"
proof -
  have "fold smt_update (map (\<lambda>u. (fst u, t (fst u))) vs) s k =
      (if k \<in> fst ` set vs then t k else s k)" for vs s
    by (induction vs arbitrary: s) (auto simp: smt_update_def)
  from this[of "rev us" s] show ?thesis by (simp add: smt_apply_def rev_map [symmetric])
qed

lemma smt_apply_other: "k \<notin> fst ` set us \<Longrightarrow> smt_apply us t k = t k"
  unfolding smt_apply_def by (induction us arbitrary: t) (auto simp: smt_update_def)

lemma preview_restores: "snd (preview_state_root X c) = st_smt (ctx_state c)"
proof
  fix k
  show "snd (preview_state_root X c) k = st_smt (ctx_state c) k"
    by (simp add: preview_state_root_def Let_def smt_apply_stash smt_apply_other)
qed

lemma preview_eq_commit: "fst (preview_state_root X c) = fst (commit X c)"
  by (simp add: preview_state_root_def commit_def Let_def)

section \<open>Reads after writes\<close>

lemma get_account_after [simp]:
  "get_account (set_account a acct c) b =
     (if b = a then if acct = ACCOUNT_ZERO then None else Some acct else get_account c b)"
  "get_account (set_stake n r p d e c) b = get_account c b"
  "get_account (set_unbonding n u c) b = get_account c b"
  "get_account (delete_unbonding n i c) b = get_account c b"
  "get_account (set_next_unbond_id i c) b = get_account c b"
  "get_account (set_current_height h c) b = get_account c b"
  "get_account (set_base_fee f c) b = get_account c b"
  "get_account (mark_receipt_seen j h c) b = get_account c b"
  "get_account (set_escrow j es c) b = get_account c b"
  "get_account (delete_escrow j c) b = get_account c b"
  "get_account (set_pending_reward j pw c) b = get_account c b"
  "get_account (delete_pending_reward j c) b = get_account c b"
  "get_account (set_proposal i prr c) b = get_account c b"
  "get_account (set_vote k v c) b = get_account c b"
  "get_account (set_next_proposal_id i c) b = get_account c b"
  "get_account (set_tee_capability n t c) b = get_account c b"
  "get_account (set_gateway n g c) b = get_account c b"
  "get_account (delete_gateway n c) b = get_account c b"
  "get_account (set_model m mm c) b = get_account c b"
  "get_account (set_validator n vi c) b = get_account c b"
  "get_account (delete_validator n c) b = get_account c b"
  by (simp_all add: setter_defs getter_defs Let_def stake_is_empty_def cong: option.case_cong)

lemma account_or_default_after [simp]:
  "account_or_default (set_account a acct c) b = (if b = a then acct else account_or_default c b)"
  "account_or_default (set_stake n r p d e c) b = account_or_default c b"
  "account_or_default (set_unbonding n u c) b = account_or_default c b"
  "account_or_default (delete_unbonding n i c) b = account_or_default c b"
  "account_or_default (set_next_unbond_id i c) b = account_or_default c b"
  "account_or_default (mark_receipt_seen j h c) b = account_or_default c b"
  "account_or_default (set_escrow j es c) b = account_or_default c b"
  "account_or_default (set_pending_reward j pw c) b = account_or_default c b"
  "account_or_default (delete_pending_reward j c) b = account_or_default c b"
  "account_or_default (credit_address a x c) b =
     (if b = a then (account_or_default c a)\<lparr>balance := sat_add 128 (balance (account_or_default c a)) x\<rparr>
      else account_or_default c b)"
  by (simp_all add: account_or_default_def credit_address_def Let_def)

lemma get_stake_after [simp]:
  "get_stake (set_stake n r p d e c) n' r' p' d' =
     (if n' = n \<and> r' = r \<and> p' = p \<and> d' = d then if se_amount e = 0 then None else Some e
      else get_stake c n' r' p' d')"
  "get_stake (set_account a acct c) n' r' p' d' = get_stake c n' r' p' d'"
  "get_stake (set_unbonding n u c) n' r' p' d' = get_stake c n' r' p' d'"
  "get_stake (delete_unbonding n i c) n' r' p' d' = get_stake c n' r' p' d'"
  "get_stake (set_next_unbond_id i c) n' r' p' d' = get_stake c n' r' p' d'"
  "get_stake (credit_address a x c) n' r' p' d' = get_stake c n' r' p' d'"
  by (simp_all add: setter_defs getter_defs credit_address_def Let_def stake_is_empty_def
      stake_key_eq_iff cong: option.case_cong)

lemma get_unbonding_after [simp]:
  "get_unbonding (set_unbonding n u c) n' i' =
     (if unbond_key n' i' = unbond_key n (un_unbond_id u) then Some u else get_unbonding c n' i')"
  "get_unbonding (delete_unbonding n i c) n' i' =
     (if unbond_key n' i' = unbond_key n i then None else get_unbonding c n' i')"
  "get_unbonding (set_account a acct c) n' i' = get_unbonding c n' i'"
  "get_unbonding (set_stake n r p d e c) n' i' = get_unbonding c n' i'"
  "get_unbonding (set_next_unbond_id i c) n' i' = get_unbonding c n' i'"
  "get_unbonding (credit_address a x c) n' i' = get_unbonding c n' i'"
  by (simp_all add: setter_defs getter_defs credit_address_def Let_def stake_is_empty_def
      cong: option.case_cong)

lemma next_unbond_id_after [simp]:
  "next_unbond_id (set_next_unbond_id i c) = i"
  "next_unbond_id (set_account a acct c) = next_unbond_id c"
  "next_unbond_id (set_stake n r p d e c) = next_unbond_id c"
  "next_unbond_id (set_unbonding n u c) = next_unbond_id c"
  "next_unbond_id (delete_unbonding n i' c) = next_unbond_id c"
  "next_unbond_id (credit_address a x c) = next_unbond_id c"
  by (simp_all add: setter_defs getter_defs credit_address_def Let_def stake_is_empty_def
      cong: option.case_cong)

lemma is_receipt_seen_after [simp]:
  "is_receipt_seen (mark_receipt_seen j h c) j' \<longleftrightarrow> j' = j \<or> is_receipt_seen c j'"
  "is_receipt_seen (set_account a acct c) j' = is_receipt_seen c j'"
  "is_receipt_seen (set_pending_reward j pw c) j' = is_receipt_seen c j'"
  by (auto simp add: setter_defs getter_defs Let_def)

end
