(* ===== verification/Ledger.thy ===== *)
theory Ledger
  imports BlockContext
begin

text \<open>
  The interface between the transaction handlers and the block context: an account ledger that can
  be read and written, with the map of its accounts as the abstraction. The handlers of
  \<^verbatim>\<open>apply.rs\<close>, \<^verbatim>\<open>stake_apply.rs\<close>, \<^verbatim>\<open>slashing.rs\<close> and \<^verbatim>\<open>commit.rs\<close> move value only
  through these two operations; the conservation lemmas are proved once here and hold for the
  block context by the interpretation \<open>ctx\<close>.
\<close>

definition total_balance :: "(address, account) kv \<Rightarrow> nat" where
  "total_balance accts = kv_sum (\<lambda>_. balance) accts"

definition or_zero :: "account option \<Rightarrow> account" where
  "or_zero x = (case x of None \<Rightarrow> ACCOUNT_ZERO | Some acct \<Rightarrow> acct)"

lemma or_zero_simps [simp]: "or_zero None = ACCOUNT_ZERO" "or_zero (Some a) = a"
  by (simp_all add: or_zero_def)

lemma account_or_default_or_zero: "account_or_default c a = or_zero (get_account c a)"
  by (simp add: account_or_default_def or_zero_def)

locale ledger =
  fixes get :: "'c \<Rightarrow> address \<Rightarrow> account option"
    and set :: "address \<Rightarrow> account \<Rightarrow> 'c \<Rightarrow> 'c"
    and accounts :: "'c \<Rightarrow> (address, account) kv"
    and ok :: "'c \<Rightarrow> bool"
  assumes get_accounts: "ok c \<Longrightarrow> get c a = kv_get (accounts c) a"
    and accounts_set: "ok c \<Longrightarrow>
      accounts (set a x c) = (if x = ACCOUNT_ZERO then kv_del a (accounts c) else kv_put a x (accounts c))"
    and ok_set: "ok c \<Longrightarrow> ok (set a x c)"
begin

lemma total_set:
  assumes "ok c"
  shows "total_balance (accounts (set a x c)) + balance (or_zero (get c a)) =
         total_balance (accounts c) + balance x"
  using kv_sum_put[of "\<lambda>_. balance" a x "accounts c"] kv_sum_del[of "\<lambda>_. balance" a "accounts c"]
  by (auto simp: total_balance_def accounts_set[OF assms] get_accounts[OF assms]
      split: option.splits)

lemma balance_le_total: "ok c \<Longrightarrow> balance (or_zero (get c a)) \<le> total_balance (accounts c)"
  using kv_sum_ge[of "accounts c" a _ "\<lambda>_. balance"]
  by (auto simp: total_balance_def get_accounts or_zero_def split: option.splits)

lemma total_debit:
  assumes "ok c" and "x \<le> balance (or_zero (get c a))"
    and "balance acct = balance (or_zero (get c a)) - x"
  shows "total_balance (accounts (set a acct c)) + x = total_balance (accounts c)"
  using total_set[OF assms(1), of a acct] assms(2,3) balance_le_total[OF assms(1), of a] by linarith

lemma total_credit_le:
  assumes "ok c" and "balance acct = sat_add 128 (balance (or_zero (get c a))) x"
  shows "total_balance (accounts (set a acct c)) \<le> total_balance (accounts c) + x"
  using total_set[OF assms(1), of a acct] assms(2) sat_add_le[of 128 "balance (or_zero (get c a))" x]
  by linarith

lemma total_credit:
  assumes "ok c" and "balance acct = sat_add 128 (balance (or_zero (get c a))) x"
    and "total_balance (accounts c) + x < 2 ^ 128"
  shows "total_balance (accounts (set a acct c)) = total_balance (accounts c) + x"
proof -
  have "balance (or_zero (get c a)) + x < 2 ^ 128"
    using balance_le_total[OF assms(1), of a] assms(3) by linarith
  then have "balance acct = balance (or_zero (get c a)) + x" using assms(2) by (simp add: sat_add_exact)
  with total_set[OF assms(1), of a acct] show ?thesis by linarith
qed

end

interpretation ctx: ledger get_account set_account "\<lambda>c. cf_accounts (view c)" coherent
  by unfold_locales (simp_all add: coherent_account coherent_set_account)

text \<open>The same facts about the helper \<open>credit_address\<close>, and the frame of the other columns.\<close>

lemma credit_total_le:
  "coherent c \<Longrightarrow>
   total_balance (cf_accounts (view (credit_address a x c))) \<le> total_balance (cf_accounts (view c)) + x"
  unfolding credit_address_def Let_def
  by (rule ctx.total_credit_le) (simp_all add: account_or_default_or_zero)

lemma credit_total:
  assumes "coherent c" and "total_balance (cf_accounts (view c)) + x < 2 ^ 128"
  shows "total_balance (cf_accounts (view (credit_address a x c))) =
         total_balance (cf_accounts (view c)) + x"
  unfolding credit_address_def Let_def
  by (rule ctx.total_credit[OF assms(1) _ assms(2)]) (simp add: account_or_default_or_zero)

lemma debit_total:
  assumes "coherent c" and "x \<le> balance (account_or_default c a)"
    and "balance acct = balance (account_or_default c a) - x"
  shows "total_balance (cf_accounts (view (set_account a acct c))) + x =
         total_balance (cf_accounts (view c))"
  using assms by (intro ctx.total_debit) (simp_all add: account_or_default_or_zero)

lemma account_le_total:
  "coherent c \<Longrightarrow> balance (account_or_default c a) \<le> total_balance (cf_accounts (view c))"
  using ctx.balance_le_total[of c a] by (simp add: account_or_default_or_zero)

lemma view_credit_other [simp]:
  "cf_stakes (view (credit_address a x c)) = cf_stakes (view c)"
  "cf_unbondings (view (credit_address a x c)) = cf_unbondings (view c)"
  "cf_escrows (view (credit_address a x c)) = cf_escrows (view c)"
  "cf_proposals (view (credit_address a x c)) = cf_proposals (view c)"
  "cf_pending_rewards (view (credit_address a x c)) = cf_pending_rewards (view c)"
  "cf_receipts_seen (view (credit_address a x c)) = cf_receipts_seen (view c)"
  "cf_validators (view (credit_address a x c)) = cf_validators (view c)"
  "meta_next_unbond_id (view (credit_address a x c)) = meta_next_unbond_id (view c)"
  by (simp_all add: credit_address_def Let_def)

end
