(* ===== verification/FeeMarket.thy ===== *)
theory FeeMarket
  imports ChainTypes
begin

text \<open>
  The bootstrap window (\<^verbatim>\<open>crates/chain/src/bootstrap.rs\<close>) and the EIP-1559 base fee
  (\<^verbatim>\<open>crates/chain/src/fee_market.rs\<close>): pure functions of the height, the number of validators
  and the parent block. The lemmas give the base fee's totality, its step bounds, its direction and
  its monotonicity in the gas used.
\<close>

section \<open>Bootstrap\<close>

definition BOOTSTRAP_MAX_BLOCKS :: height where
  "BOOTSTRAP_MAX_BLOCKS = 6 * 30 * 86400"

definition BOOTSTRAP_VALIDATOR_TARGET :: nat where
  "BOOTSTRAP_VALIDATOR_TARGET = 100"

definition EPOCH_LENGTH_BLOCKS :: height where
  "EPOCH_LENGTH_BLOCKS = 3600"

definition within_bootstrap_window :: "height \<Rightarrow> bool" where
  "within_bootstrap_window h \<longleftrightarrow> h < BOOTSTRAP_MAX_BLOCKS"

definition in_bootstrap_epoch :: "height \<Rightarrow> nat \<Rightarrow> bool" where
  "in_bootstrap_epoch h active \<longleftrightarrow> within_bootstrap_window h \<and> active < BOOTSTRAP_VALIDATOR_TARGET"

definition is_epoch_boundary :: "height \<Rightarrow> bool" where
  "is_epoch_boundary h \<longleftrightarrow> h \<noteq> 0 \<and> h mod EPOCH_LENGTH_BLOCKS = 0"

lemma bootstrap_antimono:
  "h \<le> h' \<Longrightarrow> n \<le> n' \<Longrightarrow> in_bootstrap_epoch h' n' \<Longrightarrow> in_bootstrap_epoch h n"
  by (auto simp: in_bootstrap_epoch_def within_bootstrap_window_def)

section \<open>Base fee\<close>

definition BASE_FEE_MAX_CHANGE_DENOM :: nat where
  "BASE_FEE_MAX_CHANGE_DENOM = 8"

definition MIN_BASE_FEE :: amount where
  "MIN_BASE_FEE = 1"

definition TARGET_GAS_PER_BLOCK :: gas where
  "TARGET_GAS_PER_BLOCK = 15000000"

definition next_base_fee :: "amount \<Rightarrow> gas \<Rightarrow> gas \<Rightarrow> (chain_error, amount) result" where
  "next_base_fee parent_base_fee parent_gas_used parent_gas_target =
     (if parent_gas_target = 0 then Err (FeeMarket ''gas target must be > 0'')
      else let target = parent_gas_target; used = parent_gas_used
      in if used = target then Ok (max parent_base_fee MIN_BASE_FEE)
      else let fee =
        (if used > target
         then let excess = used - target;
                  delta_num = sat_mul 128 parent_base_fee excess;
                  delta = max (delta_num div target div BASE_FEE_MAX_CHANGE_DENOM) 1
              in sat_add 128 parent_base_fee delta
         else let deficit = target - used;
                  delta_num = sat_mul 128 parent_base_fee deficit;
                  delta = delta_num div target div BASE_FEE_MAX_CHANGE_DENOM
              in sat_sub parent_base_fee delta)
      in Ok (max fee MIN_BASE_FEE))"

lemmas fee_defs = next_base_fee_def BASE_FEE_MAX_CHANGE_DENOM_def MIN_BASE_FEE_def Let_def

lemma scaled_delta_le:
  assumes "t > 0" and "e \<le> k * t"
  shows "sat_mul 128 p e div t div 8 \<le> k * p div (8::nat)"
proof -
  have "sat_mul 128 p e \<le> p * (k * t)"
    using sat_mul_le[of 128 p e] assms(2) by (meson le_trans mult_le_mono2)
  then have "sat_mul 128 p e div t \<le> p * (k * t) div t" by (rule div_le_mono)
  also have "\<dots> = k * p" using assms(1) by (simp add: mult.assoc [symmetric] mult.commute[of p])
  finally show ?thesis by (rule div_le_mono)
qed

lemma scaled_delta_mono:
  assumes "e \<le> e'"
  shows "sat_mul 128 p e div t div 8 \<le> sat_mul 128 p e' div t div (8::nat)"
proof -
  have "p * e \<le> p * e'" using assms by simp
  then have "sat_mul 128 p e \<le> sat_mul 128 p e'" unfolding sat_mul_def by (rule min.mono) simp
  then show ?thesis by (simp add: div_le_mono)
qed

definition up_delta :: "amount \<Rightarrow> gas \<Rightarrow> gas \<Rightarrow> amount" where
  "up_delta p u t = max (sat_mul 128 p (u - t) div t div 8) 1"

definition down_delta :: "amount \<Rightarrow> gas \<Rightarrow> gas \<Rightarrow> amount" where
  "down_delta p u t = sat_mul 128 p (t - u) div t div 8"

text \<open>The three cases of the update.\<close>

lemma next_base_fee_cases:
  assumes "next_base_fee p u t = Ok fee"
  obtains (at) "u = t" "0 < t" "fee = max p 1"
  | (above) "t < u" "0 < t" "fee = max (sat_add 128 p (up_delta p u t)) 1"
  | (below) "u < t" "0 < t" "fee = max (p - down_delta p u t) 1"
proof (cases u t rule: linorder_cases)
  case less
  with assms that(3) show ?thesis by (simp add: fee_defs down_delta_def sat_sub_def)
next
  case equal
  with assms that(1) show ?thesis by (simp add: fee_defs split: if_splits)
next
  case greater
  with assms that(2) show ?thesis by (simp add: fee_defs up_delta_def split: if_splits)
qed

lemma up_delta_le: "0 < t \<Longrightarrow> u \<le> 2 * t \<Longrightarrow> up_delta p u t \<le> max (p div 8) 1"
  unfolding up_delta_def using scaled_delta_le[of t "u - t" 1 p] by (intro max.mono) simp_all

lemma down_delta_le: "0 < t \<Longrightarrow> down_delta p u t \<le> p div 8"
  unfolding down_delta_def using scaled_delta_le[of t "t - u" 1 p] by simp

lemma up_delta_mono: "u \<le> u' \<Longrightarrow> up_delta p u t \<le> up_delta p u' t"
  unfolding up_delta_def by (intro max.mono scaled_delta_mono) simp_all

lemma down_delta_antimono: "u \<le> u' \<Longrightarrow> down_delta p u' t \<le> down_delta p u t"
  unfolding down_delta_def by (intro scaled_delta_mono) simp

lemma next_base_fee_total:
  "t > 0 \<Longrightarrow> \<exists>fee. next_base_fee p u t = Ok fee \<and> 1 \<le> fee"
  by (auto simp: fee_defs)

lemma next_base_fee_u128:
  assumes "p < 2 ^ 128" and "next_base_fee p u t = Ok fee"
  shows "fee < 2 ^ 128"
  using assms(2)
proof (cases rule: next_base_fee_cases)
  case above
  then show ?thesis using sat_add_less[of 128 p "up_delta p u t"] by (simp add: max_def)
next
  case below
  then show ?thesis using assms(1) by simp
qed (use assms(1) in simp)

text \<open>
  At the target the fee stays; above it rises by at least one and, up to twice the target, by at
  most an eighth (or one); below it falls by at most an eighth. The floor of one always holds.
\<close>

lemma next_base_fee_at_target:
  "next_base_fee p t t = Ok fee \<Longrightarrow> 1 \<le> p \<Longrightarrow> fee = p"
  by (auto elim: next_base_fee_cases)

lemma next_base_fee_above_ge:
  assumes "next_base_fee p u t = Ok fee" "t \<le> u" "p < 2 ^ 128"
  shows "p \<le> fee"
  using assms(1)
proof (cases rule: next_base_fee_cases)
  case above
  then show ?thesis using sat_add_ge[OF assms(3), of "up_delta p u t"] by linarith
qed (use assms(2) in simp_all)

lemma next_base_fee_up:
  assumes "next_base_fee p u t = Ok fee" "t < u" "p < umax 128"
  shows "p < fee"
  using assms(1)
proof (cases rule: next_base_fee_cases)
  case above
  have "1 \<le> up_delta p u t" by (simp add: up_delta_def)
  then have "p < sat_add 128 p (up_delta p u t)"
    using assms(3) unfolding sat_add_def by linarith
  with above show ?thesis by linarith
qed (use assms(2) in simp_all)

lemma next_base_fee_up_le:
  assumes "next_base_fee p u t = Ok fee" "u \<le> 2 * t" "1 \<le> p"
  shows "fee \<le> p + max (p div 8) 1"
  using assms(1)
proof (cases rule: next_base_fee_cases)
  case above
  then show ?thesis
    using sat_add_le[of 128 p "up_delta p u t"] up_delta_le[of t u p] assms(2,3) by linarith
qed (use assms(3) in auto)

lemma next_base_fee_down:
  assumes "next_base_fee p u t = Ok fee" "u \<le> t" "1 \<le> p"
  shows "fee \<le> p"
  using assms(1) by (cases rule: next_base_fee_cases) (use assms(2,3) in auto)

lemma next_base_fee_down_ge:
  assumes "next_base_fee p u t = Ok fee" "p < 2 ^ 128"
  shows "p - p div 8 \<le> fee"
  using assms(1)
proof (cases rule: next_base_fee_cases)
  case below
  then show ?thesis using down_delta_le[of t p u] by linarith
next
  case above
  then show ?thesis using next_base_fee_above_ge[OF assms(1) _ assms(2)] by simp
qed simp

lemma next_base_fee_mono:
  assumes "next_base_fee p u t = Ok fee" "next_base_fee p u' t = Ok fee'"
    and "u \<le> u'" and p: "1 \<le> p" "p < 2 ^ 128"
  shows "fee \<le> fee'"
proof (cases "t \<le> u'")
  case F: False
  from assms(1) show ?thesis
  proof (cases rule: next_base_fee_cases)
    case below
    from assms(2) show ?thesis
      by (cases rule: next_base_fee_cases)
        (use F below down_delta_antimono[OF assms(3), of p t] in linarith)+
  qed (use F assms(3) in simp_all)
next
  case T: True
  have ge: "p \<le> fee'" by (rule next_base_fee_above_ge[OF assms(2) T p(2)])
  show ?thesis
  proof (cases "u \<le> t")
    case True
    then show ?thesis using next_base_fee_down[OF assms(1) _ p(1)] ge by simp
  next
    case False
    have le: "sat_add 128 p (up_delta p u t) \<le> sat_add 128 p (up_delta p u' t)"
      by (intro sat_add_mono up_delta_mono assms(3) order_refl)
    from assms(1) show ?thesis
      by (cases rule: next_base_fee_cases; use assms(2) in \<open>cases rule: next_base_fee_cases\<close>)
        (use False assms(3) le in linarith)+
  qed
qed

end
