(* ===== verification/TxOutcome.thy ===== *)
theory TxOutcome
  imports Ledger FeeMarket
begin

text \<open>
  The outcome of applying one transaction (\<^verbatim>\<open>TxOutcome\<close>, \<^verbatim>\<open>RejectReason\<close> of
  \<^verbatim>\<open>crates/chain/src/apply.rs\<close>), the shape every handler has, and the quantities and
  well-formedness conditions the handlers are judged by: the value held by accounts, stakes and
  unbondings, and the invariant of the stake and unbonding columns.
\<close>

datatype reject_reason =
  InsufficientBalance amount amount
| NonceMismatch nonce nonce
| FeeTooLow gas gas
| SelfTransfer
| StakeNotFound
| StakeExceeded amount amount
| UnbondingNotComplete height height
| UnbondingNotFound
| RedelegateCooldown height
| ThirdPartyDelegation
| RedelegateSameNode
| EmptyReceiptBatch
| ReceiptMerkleMismatch
| ReceiptDoubleAnchor string
| DisputeOutputMatches
| DisputeReceiptNotFound
| NotYetImplemented string

datatype tx_outcome = TxApplied gas | TxRejected reject_reason

text \<open>A handler returns the context it leaves behind and the outcome.\<close>

type_synonym tx_step = "(chain_error, block_ctx \<times> tx_outcome) result"

abbreviation applied :: "gas \<Rightarrow> block_ctx \<Rightarrow> tx_step" where
  "applied g c \<equiv> Ok (c, TxApplied g)"

abbreviation rejected :: "reject_reason \<Rightarrow> block_ctx \<Rightarrow> tx_step" where
  "rejected r c \<equiv> Ok (c, TxRejected r)"

fun is_applied :: "tx_outcome \<Rightarrow> bool" where
  "is_applied (TxApplied g) = True"
| "is_applied (TxRejected r) = False"

section \<open>Value\<close>

definition stake_total :: "(bytes, stake_entry) kv \<Rightarrow> nat" where
  "stake_total m = kv_sum (\<lambda>_. se_amount) m"

definition unbonding_total :: "(bytes, unbonding_entry) kv \<Rightarrow> nat" where
  "unbonding_total m = kv_sum (\<lambda>_. un_amount) m"

text \<open>What the accounts, the bonded stakes and the unbondings of a database hold together.\<close>

definition held_value :: "db \<Rightarrow> nat" where
  "held_value d = total_balance (cf_accounts d) + stake_total (cf_stakes d)
     + unbonding_total (cf_unbondings d)"

definition stake_amount :: "stake_entry option \<Rightarrow> nat" where
  "stake_amount x = (case x of None \<Rightarrow> 0 | Some e \<Rightarrow> se_amount e)"

lemma stake_amount_simps [simp]: "stake_amount None = 0" "stake_amount (Some e) = se_amount e"
  by (simp_all add: stake_amount_def)

definition unbonding_amount :: "unbonding_entry option \<Rightarrow> nat" where
  "unbonding_amount x = (case x of None \<Rightarrow> 0 | Some e \<Rightarrow> un_amount e)"

lemma unbonding_amount_simps [simp]:
  "unbonding_amount None = 0" "unbonding_amount (Some e) = un_amount e"
  by (simp_all add: unbonding_amount_def)

lemma stake_total_set:
  assumes "coherent c"
  shows "stake_total (cf_stakes (view (set_stake n r p d e c))) + stake_amount (get_stake c n r p d) =
         stake_total (cf_stakes (view c)) + se_amount e"
  using kv_sum_put[of "\<lambda>_. se_amount" "stake_key n r p d" e "cf_stakes (view c)"]
    kv_sum_del[of "\<lambda>_. se_amount" "stake_key n r p d" "cf_stakes (view c)"]
  by (auto simp: stake_total_def coherent_stake[OF assms] stake_amount_def split: option.splits)

lemma stake_amount_le_total:
  "coherent c \<Longrightarrow> stake_amount (get_stake c n r p d) \<le> stake_total (cf_stakes (view c))"
  using kv_sum_ge[of "cf_stakes (view c)" "stake_key n r p d" _ "\<lambda>_. se_amount"]
  by (auto simp: stake_total_def coherent_stake stake_amount_def split: option.splits)

lemma unbonding_total_set:
  assumes "coherent c"
  shows "unbonding_total (cf_unbondings (view (set_unbonding n u c)))
           + unbonding_amount (get_unbonding c n (un_unbond_id u)) =
         unbonding_total (cf_unbondings (view c)) + un_amount u"
  using kv_sum_put[of "\<lambda>_. un_amount" "unbond_key n (un_unbond_id u)" u "cf_unbondings (view c)"]
  by (auto simp: unbonding_total_def coherent_unbonding[OF assms] unbonding_amount_def
      split: option.splits)

lemma unbonding_total_delete:
  assumes "coherent c"
  shows "unbonding_total (cf_unbondings (view (delete_unbonding n i c)))
           + unbonding_amount (get_unbonding c n i) =
         unbonding_total (cf_unbondings (view c))"
  using kv_sum_del[of "\<lambda>_. un_amount" "unbond_key n i" "cf_unbondings (view c)"]
  by (auto simp: unbonding_total_def coherent_unbonding[OF assms] unbonding_amount_def
      split: option.splits)

section \<open>Well-formed staking columns\<close>

text \<open>
  Every stake row is stored under the key of its own fields and is not empty; every unbonding row
  under the key of its own fields, with an id below the counter.
\<close>

definition stakes_wf :: "db \<Rightarrow> bool" where
  "stakes_wf d \<longleftrightarrow> (\<forall>k e. kv_get (cf_stakes d) k = Some e \<longrightarrow>
     k = stake_key (se_node_id e) (se_role e) (se_pool_id e) (se_delegator e) \<and> 0 < se_amount e)"

definition unbond_counter :: "db \<Rightarrow> nat" where
  "unbond_counter d = (case meta_next_unbond_id d of None \<Rightarrow> 0 | Some i \<Rightarrow> i)"

definition unbondings_wf :: "db \<Rightarrow> bool" where
  "unbondings_wf d \<longleftrightarrow> unbond_counter d < 2 ^ 64 \<and>
     (\<forall>k e. kv_get (cf_unbondings d) k = Some e \<longrightarrow>
        k = unbond_key (un_node_id e) (un_unbond_id e) \<and> un_unbond_id e < unbond_counter d)"

definition staking_wf :: "db \<Rightarrow> bool" where
  "staking_wf d \<longleftrightarrow> stakes_wf d \<and> unbondings_wf d"

lemma coherent_next_id: "coherent c \<Longrightarrow> next_unbond_id c = unbond_counter (view c)"
  by (simp add: coherent_def unbond_counter_def)

lemma get_stake_wf:
  assumes "coherent c" "stakes_wf (view c)" "get_stake c n r p d = Some e"
  shows "se_node_id e = n" "se_role e = r" "se_pool_id e = p" "se_delegator e = d" "0 < se_amount e"
proof -
  have "stake_key n r p d = stake_key (se_node_id e) (se_role e) (se_pool_id e) (se_delegator e)
    \<and> 0 < se_amount e"
    using assms unfolding stakes_wf_def coherent_stake[OF assms(1)] by blast
  then show "se_node_id e = n" "se_role e = r" "se_pool_id e = p" "se_delegator e = d"
    "0 < se_amount e"
    unfolding stake_key_eq_iff by simp_all
qed

lemma fresh_unbonding:
  assumes "coherent c" "unbondings_wf (view c)"
  shows "get_unbonding c n (next_unbond_id c) = None"
proof (rule ccontr)
  assume "get_unbonding c n (next_unbond_id c) \<noteq> None"
  then obtain e where
    "kv_get (cf_unbondings (view c)) (unbond_key n (next_unbond_id c)) = Some e"
    using assms(1) by (auto simp: coherent_unbonding)
  with assms(2) have "unbond_key n (unbond_counter (view c)) = unbond_key (un_node_id e) (un_unbond_id e)"
    "un_unbond_id e < unbond_counter (view c)" "unbond_counter (view c) < 2 ^ 64"
    by (auto simp: unbondings_wf_def coherent_next_id[OF assms(1)])
  then show False using unbond_key_eq_iff by (metis less_irrefl less_trans)
qed

lemma stakes_wf_set_stake:
  assumes "stakes_wf (view c)" "se_node_id e = n" "se_role e = r" "se_pool_id e = p" "se_delegator e = d"
  shows "stakes_wf (view (set_stake n r p d e c))"
  using assms by (auto simp: stakes_wf_def split: if_splits)

lemma wf_updates [simp]:
  "stakes_wf (d\<lparr>cf_accounts := xa\<rparr>) = stakes_wf d"
  "stakes_wf (d\<lparr>cf_unbondings := xu\<rparr>) = stakes_wf d"
  "stakes_wf (d\<lparr>meta_next_unbond_id := xi\<rparr>) = stakes_wf d"
  "unbondings_wf (d\<lparr>cf_accounts := xa\<rparr>) = unbondings_wf d"
  "unbondings_wf (d\<lparr>cf_stakes := xs\<rparr>) = unbondings_wf d"
  by (simp_all add: stakes_wf_def unbondings_wf_def unbond_counter_def)

lemma stakes_wf_frame:
  "stakes_wf (view (set_account a acct c)) = stakes_wf (view c)"
  "stakes_wf (view (credit_address a x c)) = stakes_wf (view c)"
  "stakes_wf (view (set_unbonding n u c)) = stakes_wf (view c)"
  "stakes_wf (view (delete_unbonding n i c)) = stakes_wf (view c)"
  "stakes_wf (view (set_next_unbond_id i c)) = stakes_wf (view c)"
  by (simp_all add: credit_address_def Let_def)

lemma unbondings_wf_frame:
  "unbondings_wf (view (set_account a acct c)) = unbondings_wf (view c)"
  "unbondings_wf (view (credit_address a x c)) = unbondings_wf (view c)"
  "unbondings_wf (view (set_stake n r p d e c)) = unbondings_wf (view c)"
  by (simp_all add: credit_address_def Let_def)

lemma unbondings_wf_delete:
  "unbondings_wf (view c) \<Longrightarrow> unbondings_wf (view (delete_unbonding n i c))"
  by (auto simp: unbondings_wf_def unbond_counter_def split: if_splits)

lemma unbondings_wf_new:
  assumes "unbondings_wf (view c)" "un_unbond_id u = unbond_counter (view c)" "un_node_id u = n"
    and "unbond_counter (view c) + 1 < 2 ^ 64"
  shows "unbondings_wf (view (set_next_unbond_id (unbond_counter (view c) + 1) (set_unbonding n u c)))"
  unfolding unbondings_wf_def
proof (intro conjI allI impI)
  show "unbond_counter (view (set_next_unbond_id (unbond_counter (view c) + 1) (set_unbonding n u c)))
      < 2 ^ 64"
    using assms(4) by (simp add: unbond_counter_def)
next
  fix k e
  assume "kv_get (cf_unbondings (view (set_next_unbond_id (unbond_counter (view c) + 1)
    (set_unbonding n u c)))) k = Some e"
  then have "(k = unbond_key n (un_unbond_id u) \<and> e = u) \<or> kv_get (cf_unbondings (view c)) k = Some e"
    by (auto split: if_splits)
  then show "k = unbond_key (un_node_id e) (un_unbond_id e)"
    "un_unbond_id e < unbond_counter
      (view (set_next_unbond_id (unbond_counter (view c) + 1) (set_unbonding n u c)))"
    using assms(1-3) by (auto simp: unbondings_wf_def unbond_counter_def less_Suc_eq)
qed

end
