(* ===== verification/StakeApply.thy ===== *)
theory StakeApply
  imports TxOutcome
begin

text \<open>
  The stake lifecycle, \<^verbatim>\<open>crates/chain/src/stake_apply.rs\<close>: bond, unbond, claim after the
  unbonding window, move between nodes. The lemmas show that every operation keeps the context
  coherent and the staking columns well formed, that a rejected operation changes nothing, that no
  operation creates or destroys value, and whose entries an operation can touch.
\<close>

section \<open>Handlers\<close>

definition UNBONDING_PERIOD_BLOCKS :: height where
  "UNBONDING_PERIOD_BLOCKS = 1209600"

definition STAKE_OP_GAS :: gas where
  "STAKE_OP_GAS = 50000"

definition REDELEGATE_COOLDOWN_BLOCKS :: height where
  "REDELEGATE_COOLDOWN_BLOCKS = 86400"

fun inline_base_min_stake :: "stake_role \<Rightarrow> amount" where
  "inline_base_min_stake Validator = 50000 * ATOMS_PER_ARK"
| "inline_base_min_stake Router = 8000 * ATOMS_PER_ARK"
| "inline_base_min_stake Verifier = 10000 * ATOMS_PER_ARK"
| "inline_base_min_stake Compute = 5000 * ATOMS_PER_ARK"

text \<open>\<^verbatim>\<open>ctx.state().iter_validators().map(|v| v.len() as u32).unwrap_or(0)\<close>.\<close>

definition active_count :: "block_ctx \<Rightarrow> nat" where
  "active_count c = ucastn 32 (length (iter_validators (ctx_state c)))"

definition below_min_stake ::
    "block_ctx \<Rightarrow> node_id \<Rightarrow> stake_role \<Rightarrow> pool_id option \<Rightarrow> amount \<Rightarrow> address option \<Rightarrow> height \<Rightarrow> bool" where
  "below_min_stake c node_id role pool_id amount delegator height \<longleftrightarrow>
     \<not> in_bootstrap_epoch height (active_count c) \<and>
     (let existing_amount = (case get_stake c node_id role pool_id delegator of
            Some e \<Rightarrow> se_amount e | None \<Rightarrow> 0);
          resulting = sat_add 128 existing_amount amount
      in resulting < inline_base_min_stake role)"

definition apply_deposit ::
    "block_ctx \<Rightarrow> address \<Rightarrow> node_id \<Rightarrow> stake_role \<Rightarrow> pool_id option \<Rightarrow> amount \<Rightarrow> address option \<Rightarrow> height \<Rightarrow>
     tx_step" where
  "apply_deposit c sender node_id role pool_id amount delegator height =
     (if (case delegator of Some d \<Rightarrow> d \<noteq> sender | None \<Rightarrow> False)
      then rejected ThirdPartyDelegation c
      else if below_min_stake c node_id role pool_id amount delegator height
      then rejected (NotYetImplemented ''stake below minimum for this role'') c
      else let acct = account_or_default c sender
      in if balance acct < amount then rejected (InsufficientBalance (balance acct) amount) c
      else let c1 = set_account sender (acct\<lparr>balance := balance acct - amount\<rparr>) c;
               entry = (case get_stake c1 node_id role pool_id delegator of
                 Some e \<Rightarrow> e\<lparr>se_amount := sat_add 128 (se_amount e) amount\<rparr>
               | None \<Rightarrow> \<lparr>se_node_id = node_id, se_role = role, se_pool_id = pool_id,
                          se_delegator = delegator, se_amount = amount, se_bonded_at = height\<rparr>)
      in applied STAKE_OP_GAS (set_stake node_id role pool_id delegator entry c1))"

text \<open>The entry Withdraw and Redelegate draw on: the sender's delegation, else the node's own
  entry.\<close>

definition source_stake ::
    "block_ctx \<Rightarrow> address \<Rightarrow> node_id \<Rightarrow> stake_role \<Rightarrow> pool_id option \<Rightarrow> (address option \<times> stake_entry) option" where
  "source_stake c sender node_id role pool_id =
     (case get_stake c node_id role pool_id (Some sender) of
        Some e \<Rightarrow> Some (Some sender, e)
      | None \<Rightarrow> (case get_stake c node_id role pool_id None of
          Some e \<Rightarrow> Some (None, e)
        | None \<Rightarrow> None))"

definition apply_withdraw ::
    "block_ctx \<Rightarrow> address \<Rightarrow> node_id \<Rightarrow> stake_role \<Rightarrow> pool_id option \<Rightarrow> amount \<Rightarrow> height \<Rightarrow> tx_step" where
  "apply_withdraw c sender node_id role pool_id amount height =
     (case source_stake c sender node_id role pool_id of
        None \<Rightarrow> rejected StakeNotFound c
      | Some (delegator_key, entry) \<Rightarrow>
          if amount > se_amount entry then rejected (StakeExceeded amount (se_amount entry)) c
          else let c1 = set_stake node_id role pool_id delegator_key
                          (entry\<lparr>se_amount := se_amount entry - amount\<rparr>) c;
                   unbond_id = next_unbond_id c1
          in rbind (uadd 64 height UNBONDING_PERIOD_BLOCKS) (\<lambda>completes_at.
             let unbonding = \<lparr>un_unbond_id = unbond_id, un_node_id = node_id, un_role = role,
                   un_pool_id = pool_id, un_delegator = delegator_key, un_amount = amount,
                   un_started_at = height, un_completes_at = completes_at\<rparr>;
                 c2 = set_unbonding node_id unbonding c1
             in rbind (uadd 64 unbond_id 1) (\<lambda>next_id.
             applied STAKE_OP_GAS (set_next_unbond_id next_id c2))))"

definition apply_complete :: "block_ctx \<Rightarrow> address \<Rightarrow> node_id \<Rightarrow> nat \<Rightarrow> height \<Rightarrow> tx_step" where
  "apply_complete c sender node_id unbond_id height =
     (case get_unbonding c node_id unbond_id of
        None \<Rightarrow> rejected UnbondingNotFound c
      | Some entry \<Rightarrow>
          if (case un_delegator entry of Some d \<Rightarrow> d \<noteq> sender | None \<Rightarrow> False)
          then rejected UnbondingNotFound c
          else if \<not> is_complete entry height
          then rejected (UnbondingNotComplete height (un_completes_at entry)) c
          else let credit_to = (case un_delegator entry of Some d \<Rightarrow> d | None \<Rightarrow> sender);
                   c1 = credit_address credit_to (un_amount entry) c
          in applied STAKE_OP_GAS (delete_unbonding node_id unbond_id c1))"

definition apply_redelegate ::
    "block_ctx \<Rightarrow> address \<Rightarrow> node_id \<Rightarrow> node_id \<Rightarrow> stake_role \<Rightarrow> amount \<Rightarrow> height \<Rightarrow> tx_step" where
  "apply_redelegate c sender from to role amount height =
     (if from = to then rejected RedelegateSameNode c
      else case source_stake c sender from role None of
        None \<Rightarrow> rejected StakeNotFound c
      | Some (src_delegator, src) \<Rightarrow>
          if amount > se_amount src then rejected (StakeExceeded amount (se_amount src)) c
          else let cooldown_ends = sat_add 64 (se_bonded_at src) REDELEGATE_COOLDOWN_BLOCKS
          in if height < cooldown_ends
          then rejected (RedelegateCooldown (sat_sub cooldown_ends height)) c
          else let c1 = set_stake from role None src_delegator
                          (src\<lparr>se_amount := se_amount src - amount\<rparr>) c;
                   dst = (case get_stake c1 to role None src_delegator of
                     Some e \<Rightarrow> e\<lparr>se_amount := sat_add 128 (se_amount e) amount\<rparr>
                   | None \<Rightarrow> \<lparr>se_node_id = to, se_role = role, se_pool_id = None,
                              se_delegator = src_delegator, se_amount = amount,
                              se_bonded_at = height\<rparr>)
          in applied STAKE_OP_GAS (set_stake to role None src_delegator dst c1))"

fun apply_stake_op :: "block_ctx \<Rightarrow> stake_op \<Rightarrow> address \<Rightarrow> height \<Rightarrow> tx_step" where
  "apply_stake_op c (Deposit node_id role pool_id amount delegator) sender height =
     apply_deposit c sender node_id role pool_id amount delegator height"
| "apply_stake_op c (Withdraw node_id role pool_id amount) sender height =
     apply_withdraw c sender node_id role pool_id amount height"
| "apply_stake_op c (Complete node_id role pool_id unbond_id) sender height =
     apply_complete c sender node_id unbond_id height"
| "apply_stake_op c (Redelegate from to role amount) sender height =
     apply_redelegate c sender from to role amount height"

section \<open>What an applied operation does\<close>

text \<open>Each handler either rejects and leaves the context alone or applies, in one form.\<close>

abbreviation rejects :: "block_ctx \<Rightarrow> block_ctx \<Rightarrow> tx_outcome \<Rightarrow> bool" where
  "rejects c c' out \<equiv> c' = c \<and> \<not> is_applied out"

definition bonded_entry :: "stake_entry option \<Rightarrow> amount \<Rightarrow> stake_entry \<Rightarrow> stake_entry" where
  "bonded_entry x amount fresh =
     (case x of Some e \<Rightarrow> e\<lparr>se_amount := sat_add 128 (se_amount e) amount\<rparr> | None \<Rightarrow> fresh)"

lemma apply_deposit_cases:
  assumes "apply_deposit c sender n r p amount d h = Ok (c', out)"
  shows "rejects c c' out \<or>
    out = TxApplied STAKE_OP_GAS \<and> d \<in> {None, Some sender} \<and>
    \<not> below_min_stake c n r p amount d h \<and> amount \<le> balance (account_or_default c sender) \<and>
    c' = set_stake n r p d
      (bonded_entry (get_stake c n r p d) amount
        \<lparr>se_node_id = n, se_role = r, se_pool_id = p, se_delegator = d, se_amount = amount, se_bonded_at = h\<rparr>)
      (set_account sender ((account_or_default c sender)\<lparr>balance := balance (account_or_default c sender) - amount\<rparr>) c)"
proof -
  have "(case d of None \<Rightarrow> False | Some d \<Rightarrow> d \<noteq> sender) \<longleftrightarrow> d \<notin> {None, Some sender}"
    by (cases d) auto
  with assms show ?thesis
    unfolding apply_deposit_def Let_def bonded_entry_def
    by (auto split: if_split_asm)
qed

lemma source_stake_Some:
  "source_stake c sender n r p = Some (d, e) \<Longrightarrow>
   get_stake c n r p d = Some e \<and> d \<in> {None, Some sender}"
  by (auto simp: source_stake_def split: option.splits)

lemma apply_withdraw_cases:
  assumes "apply_withdraw c sender n r p amount h = Ok (c', out)"
  shows "rejects c c' out \<or>
    (\<exists>d e. out = TxApplied STAKE_OP_GAS \<and> source_stake c sender n r p = Some (d, e) \<and>
      amount \<le> se_amount e \<and> h + UNBONDING_PERIOD_BLOCKS < 2 ^ 64 \<and> next_unbond_id c + 1 < 2 ^ 64 \<and>
      c' = set_next_unbond_id (next_unbond_id c + 1)
        (set_unbonding n
          \<lparr>un_unbond_id = next_unbond_id c, un_node_id = n, un_role = r, un_pool_id = p,
           un_delegator = d, un_amount = amount, un_started_at = h,
           un_completes_at = h + UNBONDING_PERIOD_BLOCKS\<rparr>
          (set_stake n r p d (e\<lparr>se_amount := se_amount e - amount\<rparr>) c)))"
proof (cases "source_stake c sender n r p")
  case None
  with assms show ?thesis by (auto simp: apply_withdraw_def)
next
  case (Some de)
  obtain d e where "de = (d, e)" by (cases de)
  with assms Some show ?thesis
    by (auto simp: apply_withdraw_def Let_def rbind_Ok_iff uadd_Ok_iff split: if_split_asm)
qed

lemma apply_complete_cases:
  assumes "apply_complete c sender n i h = Ok (c', out)"
  shows "rejects c c' out \<or>
    (\<exists>u. out = TxApplied STAKE_OP_GAS \<and> get_unbonding c n i = Some u \<and>
      un_delegator u \<in> {None, Some sender} \<and> is_complete u h \<and>
      c' = delete_unbonding n i (credit_address sender (un_amount u) c))"
proof (cases "get_unbonding c n i")
  case None
  with assms show ?thesis by (auto simp: apply_complete_def)
next
  case (Some u)
  with assms show ?thesis
    by (cases "un_delegator u") (auto simp: apply_complete_def Let_def split: if_split_asm)
qed

lemma apply_redelegate_cases:
  assumes "apply_redelegate c sender from to r amount h = Ok (c', out)"
  shows "rejects c c' out \<or>
    (\<exists>d src. out = TxApplied STAKE_OP_GAS \<and> from \<noteq> to \<and>
      source_stake c sender from r None = Some (d, src) \<and> amount \<le> se_amount src \<and>
      sat_add 64 (se_bonded_at src) REDELEGATE_COOLDOWN_BLOCKS \<le> h \<and>
      c' = set_stake to r None d
        (bonded_entry (get_stake c to r None d) amount
          \<lparr>se_node_id = to, se_role = r, se_pool_id = None, se_delegator = d, se_amount = amount,
           se_bonded_at = h\<rparr>)
        (set_stake from r None d (src\<lparr>se_amount := se_amount src - amount\<rparr>) c))"
proof (cases "source_stake c sender from r None")
  case None
  with assms show ?thesis by (auto simp: apply_redelegate_def split: if_split_asm)
next
  case (Some de)
  obtain d e where "de = (d, e)" by (cases de)
  with assms Some show ?thesis
    by (auto simp: apply_redelegate_def Let_def bonded_entry_def split: if_split_asm)
qed

section \<open>Coherence and rejection\<close>

lemma apply_stake_op_cases:
  assumes "apply_stake_op c op sender h = Ok (c', out)"
  obtains (rejected) "c' = c" "\<not> is_applied out"
  | (deposit) n r p amount d where "op = Deposit n r p amount d" "is_applied out"
  | (withdraw) n r p amount where "op = Withdraw n r p amount" "is_applied out"
  | (complete) n r p i where "op = Complete n r p i" "is_applied out"
  | (redelegate) src dst r amount where "op = Redelegate src dst r amount" "is_applied out"
proof (cases "is_applied out")
  case True
  with that(2-5) show ?thesis by (cases op) auto
next
  case False
  have "c' = c"
    using assms False apply_deposit_cases apply_withdraw_cases apply_complete_cases
      apply_redelegate_cases
    by (cases op) (fastforce dest: apply_deposit_cases apply_withdraw_cases apply_complete_cases
        apply_redelegate_cases)+
  with False that(1) show ?thesis by blast
qed

lemma apply_stake_op_coherent:
  assumes "coherent c" and "apply_stake_op c op sender h = Ok (c', out)"
  shows "coherent c'" and "ctx_state c' = ctx_state c"
proof -
  have "coherent c' \<and> ctx_state c' = ctx_state c"
  proof (cases op)
    case (Deposit n r p amount d)
    with assms apply_deposit_cases[of c sender n r p amount d h c' out] show ?thesis
      by (auto intro: coherent_intros)
  next
    case (Withdraw n r p amount)
    with assms apply_withdraw_cases[of c sender n r p amount h c' out] show ?thesis
      by (auto intro: coherent_intros)
  next
    case (Complete n r p i)
    with assms apply_complete_cases[of c sender n i h c' out] show ?thesis
      by (auto intro: coherent_intros)
  next
    case (Redelegate src dst r amount)
    with assms apply_redelegate_cases[of c sender src dst r amount h c' out] show ?thesis
      by (auto intro: coherent_intros)
  qed
  then show "coherent c'" "ctx_state c' = ctx_state c" by simp_all
qed

section \<open>Value and well-formedness\<close>

lemma held_value_set_stake:
  "coherent c \<Longrightarrow>
   held_value (view (set_stake n r p d e c)) + stake_amount (get_stake c n r p d) =
   held_value (view c) + se_amount e"
  using stake_total_set[of c n r p d e] by (simp add: held_value_def)

lemma held_value_set_unbonding:
  "coherent c \<Longrightarrow> get_unbonding c n (un_unbond_id u) = None \<Longrightarrow>
   held_value (view (set_unbonding n u c)) = held_value (view c) + un_amount u"
  using unbonding_total_set[of c n u] by (simp add: held_value_def)

lemma held_value_delete_unbonding:
  "coherent c \<Longrightarrow> get_unbonding c n i = Some u \<Longrightarrow>
   held_value (view (delete_unbonding n i c)) + un_amount u = held_value (view c)"
  using unbonding_total_delete[of c n i] by (simp add: held_value_def)

lemma held_value_debit:
  assumes "coherent c" "x \<le> balance (account_or_default c a)"
    "balance acct = balance (account_or_default c a) - x"
  shows "held_value (view (set_account a acct c)) + x = held_value (view c)"
  using debit_total[OF assms] by (simp add: held_value_def)

lemma held_value_credit:
  assumes "coherent c" "total_balance (cf_accounts (view c)) + x < 2 ^ 128"
  shows "held_value (view (credit_address a x c)) = held_value (view c) + x"
  using credit_total[OF assms] by (simp add: held_value_def)

lemma held_value_meta [simp]: "held_value (view (set_next_unbond_id i c)) = held_value (view c)"
  by (simp add: held_value_def)

lemma stake_amount_le_held: "coherent c \<Longrightarrow> stake_amount (get_stake c n r p d) \<le> held_value (view c)"
  using stake_amount_le_total[of c n r p d] by (simp add: held_value_def)

lemma bonded_entry_amount:
  assumes "stake_amount x + amount < 2 ^ 128" and "se_amount fresh = amount"
  shows "se_amount (bonded_entry x amount fresh) = stake_amount x + amount"
  using assms by (cases x) (auto simp: bonded_entry_def sat_add_exact)

lemma held_value_bond:
  assumes "coherent c" and "held_value (view c) + amount < 2 ^ 128" and "se_amount fresh = amount"
  shows "held_value (view (set_stake n r p d (bonded_entry (get_stake c n r p d) amount fresh) c)) =
         held_value (view c) + amount"
proof -
  have "stake_amount (get_stake c n r p d) + amount < 2 ^ 128"
    using stake_amount_le_held[OF assms(1), of n r p d] assms(2) by linarith
  from bonded_entry_amount[OF this assms(3)]
    held_value_set_stake[OF assms(1), of n r p d "bonded_entry (get_stake c n r p d) amount fresh"]
  show ?thesis by linarith
qed

lemma held_value_unbond:
  assumes "coherent c" "get_stake c n r p d = Some e" "amount \<le> se_amount e"
  shows "held_value (view (set_stake n r p d (e\<lparr>se_amount := se_amount e - amount\<rparr>) c)) + amount =
         held_value (view c)"
proof -
  have "stake_amount (get_stake c n r p d) = se_amount e" using assms(2) by simp
  moreover have "se_amount (e\<lparr>se_amount := se_amount e - amount\<rparr>) = se_amount e - amount" by simp
  ultimately show ?thesis
    using held_value_set_stake[OF assms(1), of n r p d "e\<lparr>se_amount := se_amount e - amount\<rparr>"]
      stake_amount_le_held[OF assms(1), of n r p d] assms(3) by linarith
qed

lemma bonded_entry_fields:
  assumes "coherent c" "stakes_wf (view c)"
    and e: "e = bonded_entry (get_stake c n r p d) amount
    \<lparr>se_node_id = n, se_role = r, se_pool_id = p, se_delegator = d, se_amount = amount, se_bonded_at = h\<rparr>"
  shows "se_node_id e = n" "se_role e = r" "se_pool_id e = p" "se_delegator e = d"
proof -
  have "se_node_id e = n \<and> se_role e = r \<and> se_pool_id e = p \<and> se_delegator e = d"
  proof (cases "get_stake c n r p d")
    case (Some e')
    then have "e = e'\<lparr>se_amount := sat_add 128 (se_amount e') amount\<rparr>"
      by (simp only: e bonded_entry_def option.case)
    with get_stake_wf[OF assms(1,2) Some] show ?thesis by simp
  qed (simp add: e bonded_entry_def)
  then show "se_node_id e = n" "se_role e = r" "se_pool_id e = p" "se_delegator e = d" by simp_all
qed

lemma stakes_wf_bond:
  assumes "coherent c" "stakes_wf (view c)"
  shows "stakes_wf (view (set_stake n r p d (bonded_entry (get_stake c n r p d) amount
    \<lparr>se_node_id = n, se_role = r, se_pool_id = p, se_delegator = d, se_amount = amount, se_bonded_at = h\<rparr>) c))"
  by (rule stakes_wf_set_stake[OF assms(2)]) (rule bonded_entry_fields[OF assms refl])+

lemma stakes_wf_unbond:
  assumes "coherent c" "stakes_wf (view c)" "get_stake c n r p d = Some e"
  shows "stakes_wf (view (set_stake n r p d (e\<lparr>se_amount := x\<rparr>) c))"
  using get_stake_wf[OF assms] by (intro stakes_wf_set_stake[OF assms(2)]) simp_all

lemmas held_value_steps = held_value_bond held_value_unbond held_value_debit held_value_credit
  held_value_delete_unbonding held_value_set_unbonding

lemma deposit_value:
  assumes c: "coherent c" "staking_wf (view c)" "held_value (view c) < 2 ^ 128"
    and step: "apply_deposit c sender n r p amount d h = Ok (c', out)"
  shows "held_value (view c') = held_value (view c) \<and> staking_wf (view c')"
  using apply_deposit_cases[OF step]
proof (elim disjE conjE)
  let ?acct = "account_or_default c sender"
  let ?c1 = "set_account sender (?acct\<lparr>balance := balance ?acct - amount\<rparr>) c"
  let ?e = "bonded_entry (get_stake c n r p d) amount
    \<lparr>se_node_id = n, se_role = r, se_pool_id = p, se_delegator = d, se_amount = amount, se_bonded_at = h\<rparr>"
  assume le: "amount \<le> balance ?acct" and c': "c' = set_stake n r p d ?e ?c1"
  have same: "get_stake ?c1 n r p d = get_stake c n r p d" by simp
  have co: "coherent ?c1" using c(1) by (intro coherent_intros)
  have v: "held_value (view ?c1) + amount = held_value (view c)"
    using c(1) le by (rule held_value_debit) simp
  have "held_value (view c') = held_value (view ?c1) + amount"
    unfolding c' same [symmetric] by (rule held_value_bond[OF co]) (use v c(3) in simp_all)
  moreover have "stakes_wf (view c')"
    unfolding c' same [symmetric]
    by (rule stakes_wf_bond[OF co]) (use c(2) in \<open>simp only: stakes_wf_frame staking_wf_def\<close>)
  moreover have "unbondings_wf (view c')"
    using c(2) unfolding c' staking_wf_def by (simp only: unbondings_wf_frame)
  ultimately show ?thesis using v by (simp add: staking_wf_def)
qed (use c in simp)

lemma withdraw_value:
  assumes c: "coherent c" "staking_wf (view c)"
    and step: "apply_withdraw c sender n r p amount h = Ok (c', out)"
  shows "held_value (view c') = held_value (view c) \<and> staking_wf (view c')"
  using apply_withdraw_cases[OF step]
proof (elim disjE conjE exE)
  fix d and e :: stake_entry
  let ?c1 = "set_stake n r p d (e\<lparr>se_amount := se_amount e - amount\<rparr>) c"
  let ?u = "\<lparr>un_unbond_id = next_unbond_id c, un_node_id = n, un_role = r, un_pool_id = p,
    un_delegator = d, un_amount = amount, un_started_at = h,
    un_completes_at = h + UNBONDING_PERIOD_BLOCKS\<rparr>"
  assume src: "source_stake c sender n r p = Some (d, e)" and le: "amount \<le> se_amount e"
    and id: "next_unbond_id c + 1 < 2 ^ 64"
    and c': "c' = set_next_unbond_id (next_unbond_id c + 1) (set_unbonding n ?u ?c1)"
  have e: "get_stake c n r p d = Some e" using source_stake_Some[OF src] by simp
  have co: "coherent ?c1" using c(1) by (intro coherent_intros)
  have wf: "stakes_wf (view c)" "unbondings_wf (view c)" using c(2) by (simp_all add: staking_wf_def)
  have ctr: "unbond_counter (view ?c1) = next_unbond_id c"
    using c(1) by (simp add: coherent_next_id unbond_counter_def)
  have none: "get_unbonding ?c1 n (un_unbond_id ?u) = None"
    using fresh_unbonding[OF c(1) wf(2), of n] by simp
  have "held_value (view c') = held_value (view ?c1) + amount"
    unfolding c' held_value_meta held_value_set_unbonding[OF co none] by simp
  moreover have "held_value (view ?c1) + amount = held_value (view c)"
    by (rule held_value_unbond[OF c(1) e le])
  moreover have "stakes_wf (view c')"
    unfolding c' using stakes_wf_unbond[OF c(1) wf(1) e] by (simp only: stakes_wf_frame)
  moreover have "unbondings_wf (view c')"
    unfolding c' using unbondings_wf_new[of ?c1 ?u n] wf(2) id
    by (simp only: ctr unbondings_wf_frame unbonding_entry.simps)
  ultimately show ?thesis by (simp add: staking_wf_def)
qed (use c in simp)

lemma complete_value:
  assumes c: "coherent c" "staking_wf (view c)" "held_value (view c) < 2 ^ 128"
    and step: "apply_complete c sender n i h = Ok (c', out)"
  shows "held_value (view c') = held_value (view c) \<and> staking_wf (view c')"
  using apply_complete_cases[OF step]
proof (elim disjE conjE exE)
  fix u :: unbonding_entry
  let ?c1 = "credit_address sender (un_amount u) c"
  assume u: "get_unbonding c n i = Some u" and c': "c' = delete_unbonding n i ?c1"
  have co: "coherent ?c1" using c(1) by (intro coherent_intros)
  have wf: "stakes_wf (view c)" "unbondings_wf (view c)" using c(2) by (simp_all add: staking_wf_def)
  have "un_amount u \<le> unbonding_total (cf_unbondings (view c))"
    using unbonding_total_delete[OF c(1), of n i] u by simp
  then have "total_balance (cf_accounts (view c)) + un_amount u < 2 ^ 128"
    using c(3) unfolding held_value_def by linarith
  then have "held_value (view ?c1) = held_value (view c) + un_amount u"
    by (rule held_value_credit[OF c(1)])
  moreover have "held_value (view c') + un_amount u = held_value (view ?c1)"
    unfolding c' by (rule held_value_delete_unbonding[OF co]) (simp add: u)
  moreover have "stakes_wf (view c')" unfolding c' using wf(1) by (simp only: stakes_wf_frame)
  moreover have "unbondings_wf (view c')"
    unfolding c' using wf(2) by (intro unbondings_wf_delete) (simp only: unbondings_wf_frame)
  ultimately show ?thesis by (simp add: staking_wf_def)
qed (use c in simp)

lemma redelegate_value:
  assumes c: "coherent c" "staking_wf (view c)" "held_value (view c) < 2 ^ 128"
    and step: "apply_redelegate c sender src dst r amount h = Ok (c', out)"
  shows "held_value (view c') = held_value (view c) \<and> staking_wf (view c')"
  using apply_redelegate_cases[OF step]
proof (elim disjE conjE exE)
  fix d and e :: stake_entry
  let ?c1 = "set_stake src r None d (e\<lparr>se_amount := se_amount e - amount\<rparr>) c"
  let ?fresh = "\<lparr>se_node_id = dst, se_role = r, se_pool_id = None, se_delegator = d,
    se_amount = amount, se_bonded_at = h\<rparr>"
  assume ne: "src \<noteq> dst" and s: "source_stake c sender src r None = Some (d, e)"
    and le: "amount \<le> se_amount e"
    and c': "c' = set_stake dst r None d (bonded_entry (get_stake c dst r None d) amount ?fresh) ?c1"
  have e: "get_stake c src r None d = Some e" using source_stake_Some[OF s] by simp
  have co: "coherent ?c1" using c(1) by (intro coherent_intros)
  have wf: "stakes_wf (view c)" "unbondings_wf (view c)" using c(2) by (simp_all add: staking_wf_def)
  have same: "get_stake ?c1 dst r None d = get_stake c dst r None d" using ne by simp
  have v: "held_value (view ?c1) + amount = held_value (view c)"
    by (rule held_value_unbond[OF c(1) e le])
  moreover have "held_value (view c') = held_value (view ?c1) + amount"
    unfolding c' same [symmetric] by (rule held_value_bond[OF co]) (use v c(3) in simp_all)
  moreover have "stakes_wf (view c')"
    unfolding c' same [symmetric]
    by (rule stakes_wf_bond[OF co stakes_wf_unbond[OF c(1) wf(1) e]])
  moreover have "unbondings_wf (view c')"
    unfolding c' using wf(2) by (simp only: unbondings_wf_frame)
  ultimately show ?thesis by (simp add: staking_wf_def)
qed (use c in simp)

lemma stake_op_value:
  assumes "coherent c" "staking_wf (view c)" "held_value (view c) < 2 ^ 128"
    and "apply_stake_op c op sender h = Ok (c', out)"
  shows "held_value (view c') = held_value (view c) \<and> staking_wf (view c')"
proof (cases op)
  case (Deposit n r p amount d)
  then show ?thesis using assms(4) deposit_value[OF assms(1-3)] by (simp only: apply_stake_op.simps)
next
  case (Withdraw n r p amount)
  then show ?thesis using assms(4) withdraw_value[OF assms(1,2)] by (simp only: apply_stake_op.simps)
next
  case (Complete n r p i)
  then show ?thesis using assms(4) complete_value[OF assms(1-3)] by (simp only: apply_stake_op.simps)
next
  case (Redelegate src dst r amount)
  then show ?thesis using assms(4) redelegate_value[OF assms(1-3)] by (simp only: apply_stake_op.simps)
qed

section \<open>Whose entries an operation touches\<close>

lemma stake_op_frame:
  assumes "apply_stake_op c op sender h = Ok (c', out)"
  shows "\<forall>a. a \<noteq> sender \<longrightarrow> get_account c' a = get_account c a"
    and "\<forall>n r p d. d \<noteq> sender \<longrightarrow> get_stake c' n r p (Some d) = get_stake c n r p (Some d)"
proof -
  have credit: "get_account (credit_address sender x c) a = get_account c a" if "a \<noteq> sender" for x a
    using that by (simp add: credit_address_def Let_def)
  have "(\<forall>a. a \<noteq> sender \<longrightarrow> get_account c' a = get_account c a) \<and>
    (\<forall>n r p d. d \<noteq> sender \<longrightarrow> get_stake c' n r p (Some d) = get_stake c n r p (Some d))"
  proof (cases op)
    case (Deposit n r p amount d)
    with assms apply_deposit_cases[of c sender n r p amount d h c' out] show ?thesis by auto
  next
    case (Withdraw n r p amount)
    with assms apply_withdraw_cases[of c sender n r p amount h c' out] show ?thesis
      by (auto dest!: source_stake_Some)
  next
    case (Complete n r p i)
    with assms apply_complete_cases[of c sender n i h c' out] credit show ?thesis by auto
  next
    case (Redelegate src dst r amount)
    with assms apply_redelegate_cases[of c sender src dst r amount h c' out] show ?thesis
      by (auto dest!: source_stake_Some)
  qed
  then show "\<forall>a. a \<noteq> sender \<longrightarrow> get_account c' a = get_account c a"
    "\<forall>n r p d. d \<noteq> sender \<longrightarrow> get_stake c' n r p (Some d) = get_stake c n r p (Some d)"
    by simp_all
qed

section \<open>The unbonding window\<close>

lemma withdraw_opens_window:
  assumes "apply_withdraw c sender n r p amount h = Ok (c', TxApplied g)"
  obtains u where "get_unbonding c' n (next_unbond_id c) = Some u" "un_amount u = amount"
    "un_delegator u \<in> {None, Some sender}" "un_completes_at u = h + UNBONDING_PERIOD_BLOCKS"
    "next_unbond_id c' = next_unbond_id c + 1"
  using apply_withdraw_cases[OF assms] that by (auto dest!: source_stake_Some)

lemma complete_eq:
  assumes "get_unbonding c n i = Some u" "un_delegator u \<in> {None, Some sender}"
  shows "apply_complete c sender n i h =
    (if h < un_completes_at u then rejected (UnbondingNotComplete h (un_completes_at u)) c
     else applied STAKE_OP_GAS (delete_unbonding n i (credit_address sender (un_amount u) c)))"
  using assms by (auto simp: apply_complete_def is_complete_def Let_def)

lemma complete_once:
  assumes "apply_complete c sender n i h = Ok (c', TxApplied g)"
  shows "apply_complete c' sender' n i h' = rejected UnbondingNotFound c'"
  using apply_complete_cases[OF assms] by (auto simp: apply_complete_def)

section \<open>The node's own entry\<close>

text \<open>A sender without a delegation draws on the node's own entry, whoever the sender is.\<close>

lemma source_stake_stranger:
  assumes "get_stake c n r p (Some sender) = None" "get_stake c n r p None = Some e"
  shows "source_stake c sender n r p = Some (None, e)"
  using assms by (simp add: source_stake_def)

lemma withdraw_stranger:
  assumes "get_stake c n r p (Some sender) = None" "get_stake c n r p None = Some e"
    and "amount \<le> se_amount e" "h + UNBONDING_PERIOD_BLOCKS < 2 ^ 64" "next_unbond_id c + 1 < 2 ^ 64"
  shows "\<exists>c'. apply_withdraw c sender n r p amount h = Ok (c', TxApplied STAKE_OP_GAS) \<and>
    (\<exists>u. get_unbonding c' n (next_unbond_id c) = Some u \<and> un_amount u = amount \<and>
      un_delegator u = None \<and> un_completes_at u = h + UNBONDING_PERIOD_BLOCKS)"
  using assms by (simp add: apply_withdraw_def source_stake_stranger Let_def uadd_def)

end
