(* ===== verification/Merkle.thy ===== *)
theory Merkle
  imports ChainTypes
begin

text \<open>
  The binary Merkle tree over SHA-256, \<^verbatim>\<open>crates/crypto/src/merkle.rs\<close>, with the hash function
  as the parameter \<open>H\<close>. The lemmas show that every generated proof verifies against the root, and
  that a proof that verifies belongs to a leaf of the tree, as long as \<open>H\<close> has no collision
  among the strings hashed to build the tree and to check the proof.
\<close>

section \<open>The tree\<close>

text \<open>The numbers of an error are those its message prints.\<close>

datatype crypto_error =
  InvalidInput string "nat list"
| MerkleInvalid string "nat list"

record merkle_proof =
  mp_leaf_index :: nat
  mp_leaf_count :: nat
  mp_siblings :: "hash256 list"

type_synonym hash_fn = "bytes \<Rightarrow> hash256"

type_synonym merkle_tree = "hash256 list list"

definition leaf_input :: "bytes \<Rightarrow> bytes" where
  "leaf_input l = 0 # l"

definition node_input :: "hash256 \<Rightarrow> hash256 \<Rightarrow> bytes" where
  "node_input l r = 1 # word_bytes l @ word_bytes r"

definition hash_leaf :: "hash_fn \<Rightarrow> bytes \<Rightarrow> hash256" where
  "hash_leaf H l = H (leaf_input l)"

definition hash_node :: "hash_fn \<Rightarrow> hash256 \<Rightarrow> hash256 \<Rightarrow> hash256" where
  "hash_node H l r = H (node_input l r)"

text \<open>One pass over \<^verbatim>\<open>prev.chunks(2)\<close>.\<close>

fun next_layer :: "hash_fn \<Rightarrow> hash256 list \<Rightarrow> hash256 list" where
  "next_layer H [] = []"
| "next_layer H [a] = [hash_node H a a]"
| "next_layer H (a # b # xs) = hash_node H a b # next_layer H xs"

lemma length_next_layer: "length (next_layer H xs) = (length xs + 1) div 2"
  by (induction H xs rule: next_layer.induct) auto

function build_layers :: "hash_fn \<Rightarrow> hash256 list \<Rightarrow> merkle_tree" where
  "build_layers H hs = (if length hs > 1 then hs # build_layers H (next_layer H hs) else [hs])"
  by pat_completeness auto
termination
  by (relation "measure (\<lambda>(H, hs). length hs)") (auto simp: length_next_layer)

declare build_layers.simps [simp del]

definition merkle_new :: "hash_fn \<Rightarrow> bytes list \<Rightarrow> (crypto_error, merkle_tree) result" where
  "merkle_new H leaves =
     (let leaf_hashes = map (hash_leaf H) leaves
      in if leaf_hashes = []
         then Err (InvalidInput ''cannot build Merkle tree over 0 leaves'' [])
         else Ok (build_layers H leaf_hashes))"

definition merkle_root :: "merkle_tree \<Rightarrow> hash256" where
  "merkle_root layers = (if layers = [] then 0 else case last layers of [] \<Rightarrow> 0 | h # _ \<Rightarrow> h)"

definition leaf_count :: "merkle_tree \<Rightarrow> nat" where
  "leaf_count layers = (case layers of [] \<Rightarrow> 0 | l # _ \<Rightarrow> length l)"

fun proof_siblings :: "merkle_tree \<Rightarrow> nat \<Rightarrow> hash256 list" where
  "proof_siblings [] idx = []"
| "proof_siblings (layer # layers) idx =
     (let sibling_idx = (if even idx then if idx + 1 < length layer then idx + 1 else idx
                         else idx - 1)
      in layer ! sibling_idx # proof_siblings layers (idx div 2))"

definition merkle_prove :: "merkle_tree \<Rightarrow> nat \<Rightarrow> (crypto_error, merkle_proof) result" where
  "merkle_prove layers index =
     (let n = leaf_count layers
      in if index \<ge> n then Err (InvalidInput ''leaf index out of range'' [index, n])
         else Ok \<lparr>mp_leaf_index = index, mp_leaf_count = n,
                  mp_siblings = proof_siblings (butlast layers) index\<rparr>)"

section \<open>Verification\<close>

function compute_expected_siblings :: "nat \<Rightarrow> nat" where
  "compute_expected_siblings width =
     (if width > 1 then Suc (compute_expected_siblings ((width + 1) div 2)) else 0)"
  by pat_completeness auto
termination
  by (relation "measure id") auto

declare compute_expected_siblings.simps [simp del]

fun verify_path ::
    "hash_fn \<Rightarrow> hash256 \<Rightarrow> nat \<Rightarrow> nat \<Rightarrow> hash256 list \<Rightarrow> (crypto_error, hash256) result" where
  "verify_path H current idx layer_width [] = Ok current"
| "verify_path H current idx layer_width (sibling # siblings) =
     (let on_left = even idx;
          is_self_sibling = (on_left \<and> idx = layer_width - 1 \<and> odd layer_width)
      in if is_self_sibling
         then if sibling \<noteq> current
              then Err (MerkleInvalid ''self-sibling mismatch at odd layer'' [])
              else verify_path H (hash_node H current current) (idx div 2) ((layer_width + 1) div 2) siblings
         else if on_left
         then verify_path H (hash_node H current sibling) (idx div 2) ((layer_width + 1) div 2) siblings
         else verify_path H (hash_node H sibling current) (idx div 2) ((layer_width + 1) div 2) siblings)"

definition verify_proof ::
    "hash_fn \<Rightarrow> hash256 \<Rightarrow> bytes \<Rightarrow> merkle_proof \<Rightarrow> (crypto_error, unit) result" where
  "verify_proof H root leaf pf =
     (if mp_leaf_index pf \<ge> mp_leaf_count pf
      then Err (MerkleInvalid ''leaf index out of range'' [])
      else let expected_height = (if mp_leaf_count pf \<le> 1 then 0
                                  else compute_expected_siblings (mp_leaf_count pf))
      in if length (mp_siblings pf) \<noteq> expected_height
      then Err (MerkleInvalid ''expected sibling(s)'' [expected_height, length (mp_siblings pf)])
      else rbind (verify_path H (hash_leaf H leaf) (mp_leaf_index pf) (mp_leaf_count pf) (mp_siblings pf))
        (\<lambda>current. if current = root then Ok () else Err (MerkleInvalid ''root mismatch'' [])))"

section \<open>Generated proofs verify\<close>

lemma nth_next_layer:
  "i < length (next_layer H xs) \<Longrightarrow>
   next_layer H xs ! i =
     hash_node H (xs ! (2 * i)) (if 2 * i + 1 < length xs then xs ! (2 * i + 1) else xs ! (2 * i))"
proof (induction H xs arbitrary: i rule: next_layer.induct)
  case (3 H a b xs)
  then show ?case by (cases i) auto
qed auto

lemma build_layers_not_Nil [simp]: "build_layers H hs \<noteq> []"
  by (subst build_layers.simps) simp

lemma hd_build_layers: "hd (build_layers H hs) = hs"
  by (subst build_layers.simps) simp

lemma leaf_count_build [simp]: "leaf_count (build_layers H hs) = length hs"
  by (subst build_layers.simps) (simp add: leaf_count_def)

lemma merkle_root_step:
  "length hs > 1 \<Longrightarrow> merkle_root (build_layers H hs) = merkle_root (build_layers H (next_layer H hs))"
  by (subst build_layers.simps) (simp add: merkle_root_def)

lemma merkle_root_single: "length hs = 1 \<Longrightarrow> merkle_root (build_layers H hs) = hs ! 0"
  by (subst build_layers.simps) (cases hs, auto simp: merkle_root_def)

lemma length_siblings:
  "length (proof_siblings (butlast (build_layers H hs)) i) = compute_expected_siblings (length hs)"
proof (induction H hs arbitrary: i rule: build_layers.induct)
  case (1 H hs)
  then show ?case
    by (subst build_layers.simps, subst compute_expected_siblings.simps)
      (auto simp: length_next_layer Let_def)
qed

lemma verify_generated:
  "i < length hs \<Longrightarrow>
   verify_path H (hs ! i) i (length hs) (proof_siblings (butlast (build_layers H hs)) i) =
     Ok (merkle_root (build_layers H hs))"
proof (induction H hs arbitrary: i rule: build_layers.induct)
  case (1 H hs)
  show ?case
  proof (cases "length hs > 1")
    case False
    with 1(2) have n: "length hs = 1" "i = 0" by auto
    then have "butlast (build_layers H hs) = []" by (subst build_layers.simps) simp
    with n show ?thesis by (simp add: merkle_root_single)
  next
    case True
    define hs' where "hs' = next_layer H hs"
    have len: "length hs' = (length hs + 1) div 2" by (simp add: hs'_def length_next_layer)
    have i': "i div 2 < length hs'" using 1(2) len by linarith
    have IH: "verify_path H (hs' ! (i div 2)) (i div 2) (length hs')
        (proof_siblings (butlast (build_layers H hs')) (i div 2)) = Ok (merkle_root (build_layers H hs))"
      using 1(1)[OF True, of "i div 2"] i' merkle_root_step[OF True, of H] by (simp add: hs'_def)
    have layers: "butlast (build_layers H hs) = hs # butlast (build_layers H hs')"
      using True by (subst build_layers.simps) (simp add: hs'_def)
    have nth: "hs' ! (i div 2) = hash_node H (hs ! (2 * (i div 2)))
        (if 2 * (i div 2) + 1 < length hs then hs ! (2 * (i div 2) + 1) else hs ! (2 * (i div 2)))"
      using nth_next_layer[of "i div 2" H hs] i' by (simp add: hs'_def)
    show ?thesis
    proof (cases "even i")
      case False
      then have "2 * (i div 2) = i - 1" "2 * (i div 2) + 1 = i" by presburger+
      with False nth IH 1(2) len show ?thesis by (simp add: layers Let_def)
    next
      case even: True
      then have e: "2 * (i div 2) = i" by simp
      show ?thesis
      proof (cases "i + 1 < length hs")
        case True
        then have ne: "i \<noteq> length hs - 1" by linarith
        from nth True e have nth': "hs' ! (i div 2) = hash_node H (hs ! i) (hs ! (i + 1))" by simp
        show ?thesis using IH
          by (simp only: layers proof_siblings.simps verify_path.simps Let_def if_True if_False
              True even ne nth' len simp_thms)
      next
        case False
        with 1(2) even have "i = length hs - 1" "odd (length hs)" by presburger+
        with False even e nth IH len show ?thesis by (simp add: layers Let_def)
      qed
    qed
  qed
qed

lemma merkle_complete:
  assumes "merkle_new H leaves = Ok tree" and "merkle_prove tree i = Ok pf"
  shows "verify_proof H (merkle_root tree) (leaves ! i) pf = Ok ()"
proof -
  let ?hs = "map (hash_leaf H) leaves"
  from assms(1) have tree: "tree = build_layers H ?hs" and "leaves \<noteq> []"
    by (auto simp: merkle_new_def Let_def split: if_splits)
  from assms(2) tree have i: "i < length leaves"
    and pf: "pf = \<lparr>mp_leaf_index = i, mp_leaf_count = length leaves,
      mp_siblings = proof_siblings (butlast tree) i\<rparr>"
    by (auto simp: merkle_prove_def Let_def split: if_splits)
  have height: "length (mp_siblings pf) =
      (if length leaves \<le> 1 then 0 else compute_expected_siblings (length leaves))"
    unfolding pf tree using length_siblings[of H ?hs i]
    by (simp add: compute_expected_siblings.simps[of "length leaves"])
  have "verify_path H (hash_leaf H (leaves ! i)) i (length leaves) (mp_siblings pf) =
      Ok (merkle_root tree)"
    using verify_generated[of i ?hs H] i by (simp add: tree pf)
  with i height show ?thesis by (simp add: verify_proof_def pf)
qed

section \<open>A verified leaf is a leaf of the tree\<close>

text \<open>The strings hashed to build the tree, and those hashed to check a path.\<close>

fun pair_inputs :: "hash256 list \<Rightarrow> bytes list" where
  "pair_inputs [] = []"
| "pair_inputs [a] = [node_input a a]"
| "pair_inputs (a # b # xs) = node_input a b # pair_inputs xs"

definition tree_inputs :: "hash_fn \<Rightarrow> bytes list \<Rightarrow> bytes list" where
  "tree_inputs H leaves =
     map leaf_input leaves @
     concat (map pair_inputs (butlast (build_layers H (map (hash_leaf H) leaves))))"

fun path_inputs :: "hash_fn \<Rightarrow> hash256 \<Rightarrow> nat \<Rightarrow> nat \<Rightarrow> hash256 list \<Rightarrow> bytes list" where
  "path_inputs H current idx w [] = []"
| "path_inputs H current idx w (s # ss) =
     (let x = (if even idx \<and> idx = w - 1 \<and> odd w then node_input current current
               else if even idx then node_input current s else node_input s current)
      in x # path_inputs H (H x) (idx div 2) ((w + 1) div 2) ss)"

definition proof_inputs :: "hash_fn \<Rightarrow> bytes \<Rightarrow> merkle_proof \<Rightarrow> bytes list" where
  "proof_inputs H leaf pf = leaf_input leaf #
     path_inputs H (hash_leaf H leaf) (mp_leaf_index pf) (mp_leaf_count pf) (mp_siblings pf)"

lemma next_layer_inputs: "next_layer H xs = map H (pair_inputs xs)"
  by (induction xs rule: pair_inputs.induct) (auto simp: hash_node_def)

lemma pair_inputs_nodes: "x \<in> set (pair_inputs xs) \<Longrightarrow> \<exists>a \<in> set xs. \<exists>b \<in> set xs. x = node_input a b"
  by (induction xs rule: pair_inputs.induct) auto

lemma node_input_eq_iff: "node_input a b = node_input c d \<longleftrightarrow> a = c \<and> b = d"
  using word_bytes_inj[of a c] word_bytes_inj[of b d] by (auto simp: node_input_def)

lemma node_not_leaf [simp]: "node_input a b \<noteq> leaf_input l" "leaf_input l \<noteq> node_input a b"
  by (auto simp: node_input_def leaf_input_def)

lemma leaf_input_inj [simp]: "leaf_input l = leaf_input l' \<longleftrightarrow> l = l'"
  by (simp add: leaf_input_def)

lemma build_layers_nth_0 [simp]: "build_layers H hs ! 0 = hs"
  using hd_build_layers[of H hs] hd_conv_nth[of "build_layers H hs"] by simp

lemma build_layers_step:
  "Suc j < length (build_layers H hs) \<Longrightarrow>
   build_layers H hs ! Suc j = next_layer H (build_layers H hs ! j)"
proof (induction H hs arbitrary: j rule: build_layers.induct)
  case (1 H hs)
  show ?case
  proof (cases "length hs > 1")
    case True
    have unf: "build_layers H hs = hs # build_layers H (next_layer H hs)"
      using True by (subst build_layers.simps) simp
    show ?thesis using 1(1)[OF True] 1(2) by (cases j) (simp_all add: unf)
  next
    case False
    have "build_layers H hs = [hs]" using False by (subst build_layers.simps) simp
    with 1(2) show ?thesis by simp
  qed
qed

lemma build_layers_top: "hs \<noteq> [] \<Longrightarrow> last (build_layers H hs) = [merkle_root (build_layers H hs)]"
proof (induction H hs rule: build_layers.induct)
  case (1 H hs)
  show ?case
  proof (cases "length hs > 1")
    case True
    have unf: "build_layers H hs = hs # build_layers H (next_layer H hs)"
      using True by (subst build_layers.simps) simp
    have "next_layer H hs \<noteq> []" using True length_next_layer[of H hs] by auto
    with 1(1)[OF True] unf show ?thesis using merkle_root_step[OF True, of H] by simp
  next
    case False
    with 1(2) obtain x where "hs = [x]" by (cases hs) auto
    then show ?thesis by (simp add: build_layers.simps merkle_root_def)
  qed
qed

lemma layer_member:
  assumes "Suc j < length (build_layers H hs)" and "v \<in> set (build_layers H hs ! Suc j)"
  obtains a b where "a \<in> set (build_layers H hs ! j)" "b \<in> set (build_layers H hs ! j)"
    "v = H (node_input a b)" "node_input a b \<in> set (pair_inputs (build_layers H hs ! j))"
  using assms pair_inputs_nodes by (force simp: build_layers_step next_layer_inputs)

lemma verify_path_step:
  assumes "verify_path H cur i w (s # ss) = Ok r"
  obtains a b where "path_inputs H cur i w (s # ss) =
      node_input a b # path_inputs H (H (node_input a b)) (i div 2) ((w + 1) div 2) ss"
    "cur = a \<or> cur = b"
    "verify_path H (H (node_input a b)) (i div 2) ((w + 1) div 2) ss = Ok r"
  using assms by (auto simp: Let_def hash_node_def split: if_splits)

lemma path_descends:
  fixes hs H
  defines "ls \<equiv> build_layers H hs"
  defines "nodes \<equiv> set (concat (map pair_inputs (butlast ls)))"
  assumes r: "r \<in> set (last ls)" and leaves: "\<forall>v \<in> set hs. \<exists>l \<in> L. v = H (leaf_input l)"
    and inj: "inj_on H (leaf_input ` L \<union> nodes \<union> P)"
  shows "set (path_inputs H cur i w ss) \<subseteq> P \<Longrightarrow> verify_path H cur i w ss = Ok r \<Longrightarrow>
    length ss < length ls \<and> cur \<in> set (ls ! (length ls - 1 - length ss))"
proof (induction ss arbitrary: cur i w)
  case Nil
  then show ?case using r by (simp add: ls_def last_conv_nth)
next
  case (Cons s ss)
  from Cons.prems(2) obtain a b where step: "path_inputs H cur i w (s # ss) =
      node_input a b # path_inputs H (H (node_input a b)) (i div 2) ((w + 1) div 2) ss"
    "cur = a \<or> cur = b"
    "verify_path H (H (node_input a b)) (i div 2) ((w + 1) div 2) ss = Ok r"
    by (rule verify_path_step)
  from Cons.prems(1) have P: "node_input a b \<in> P"
    "set (path_inputs H (H (node_input a b)) (i div 2) ((w + 1) div 2) ss) \<subseteq> P"
    unfolding step(1) by auto
  from Cons.IH[OF P(2) step(3)] have IH: "length ss < length ls"
    "H (node_input a b) \<in> set (ls ! (length ls - 1 - length ss))" by auto
  show ?case
  proof (cases "length ls - 1 - length ss")
    case 0
    then have "H (node_input a b) \<in> set hs" using IH(2) by (simp add: ls_def)
    then obtain l where "l \<in> L" "H (node_input a b) = H (leaf_input l)" using leaves by auto
    with inj P(1) have "node_input a b = leaf_input l" by (auto dest: inj_onD)
    then show ?thesis by simp
  next
    case (Suc j)
    then have j: "Suc j < length ls" using IH(1) by linarith
    from IH(2) Suc obtain x y where xy: "x \<in> set (ls ! j)" "y \<in> set (ls ! j)"
      "H (node_input a b) = H (node_input x y)" "node_input x y \<in> set (pair_inputs (ls ! j))"
      using layer_member[OF j[unfolded ls_def], of "H (node_input a b)"] by (auto simp: ls_def)
    have "ls ! j \<in> set (butlast ls)" using j by (metis Suc_lessE diff_Suc_1 in_set_conv_nth length_butlast nth_butlast)
    with xy(4) have "node_input x y \<in> nodes" by (auto simp: nodes_def)
    with inj P(1) xy(3) have "node_input a b = node_input x y" by (auto dest: inj_onD)
    with step(2) xy(1,2) have "cur \<in> set (ls ! j)" by (auto simp: node_input_eq_iff)
    moreover have "length ls - 1 - length (s # ss) = j" "length (s # ss) < length ls"
      using Suc by simp_all
    ultimately show ?thesis by simp
  qed
qed

lemma merkle_sound:
  assumes new: "merkle_new H leaves = Ok tree"
    and ver: "verify_proof H (merkle_root tree) leaf pf = Ok ()"
    and inj: "inj_on H (set (tree_inputs H leaves) \<union> set (proof_inputs H leaf pf))"
  shows "leaf \<in> set leaves"
proof -
  let ?hs = "map (hash_leaf H) leaves" let ?ls = "build_layers H ?hs"
  let ?N = "set (concat (map pair_inputs (butlast ?ls)))"
  let ?path = "path_inputs H (hash_leaf H leaf) (mp_leaf_index pf) (mp_leaf_count pf) (mp_siblings pf)"
  from new have tree: "tree = ?ls" and ne: "?hs \<noteq> []"
    by (auto simp: merkle_new_def Let_def split: if_splits)
  from ver have path: "verify_path H (hash_leaf H leaf) (mp_leaf_index pf) (mp_leaf_count pf)
      (mp_siblings pf) = Ok (merkle_root ?ls)"
    by (auto simp: verify_proof_def Let_def tree rbind_Ok_iff split: if_splits)
  have inj': "inj_on H (leaf_input ` set leaves \<union> ?N \<union> set (leaf_input leaf # ?path))"
    using inj by (auto simp: tree_inputs_def proof_inputs_def intro: inj_on_subset)
  let ?j = "length ?ls - 1 - length (mp_siblings pf)"
  have pos: "length (mp_siblings pf) < length ?ls \<and>
    hash_leaf H leaf \<in> set (?ls ! (length ?ls - 1 - length (mp_siblings pf)))"
    by (rule path_descends[OF _ _ inj' _ path])
      (use build_layers_top[OF ne, of H] in \<open>auto simp: hash_leaf_def\<close>)
  obtain j where j: "j < length ?ls" "H (leaf_input leaf) \<in> set (?ls ! j)"
    by (rule that[of ?j]) (use pos in \<open>auto simp: hash_leaf_def\<close>)
  show ?thesis
  proof (cases j)
    case 0
    then obtain l where l: "l \<in> set leaves" "H (leaf_input leaf) = H (leaf_input l)"
      using j(2) by (auto simp: hash_leaf_def)
    with inj' have "leaf_input leaf = leaf_input l" by (auto dest: inj_onD)
    with l show ?thesis by simp
  next
    case (Suc k)
    obtain a b where ab:
      "H (leaf_input leaf) = H (node_input a b)" "node_input a b \<in> set (pair_inputs (?ls ! k))"
      by (rule layer_member[OF j[unfolded Suc]])
    have "?ls ! k \<in> set (butlast ?ls)" using j(1) Suc
      by (metis Suc_lessE diff_Suc_1 in_set_conv_nth length_butlast nth_butlast)
    with ab(2) have "node_input a b \<in> ?N" by auto
    with ab(1) inj' have "leaf_input leaf = node_input a b"
      by (meson UnCI inj_onD list.set_intros(1))
    then show ?thesis by simp
  qed
qed

end
