(* ===== verification/Apply.thy ===== *)
theory Apply
  imports StakeApply Merkle
begin

text \<open>
  Transaction application, \<^verbatim>\<open>crates/chain/src/apply.rs\<close>: one handler per transaction kind and
  the dispatcher \<open>apply_tx\<close>. The definitions are in this theory, with the shape of each handler's
  result; the theories \<open>ApplySafety\<close> and \<open>ApplyValue\<close> hold the theorems.
\<close>

section \<open>Constants\<close>

definition BASE_TRANSFER_GAS :: gas where "BASE_TRANSFER_GAS = 21000"

definition RECEIPT_ANCHOR_GAS_PER_RECEIPT :: gas where "RECEIPT_ANCHOR_GAS_PER_RECEIPT = 20000"

definition DISPUTE_GAS :: gas where "DISPUTE_GAS = 100000"

definition ESCROW_LOCK_GAS :: gas where "ESCROW_LOCK_GAS = 50000"

definition ESCROW_SETTLE_GAS :: gas where "ESCROW_SETTLE_GAS = 50000"

definition REWARD_MINT_GAS :: gas where "REWARD_MINT_GAS = 30000"

definition REGISTER_MODEL_GAS :: gas where "REGISTER_MODEL_GAS = 200000"

definition MODEL_DEPOSIT :: amount where "MODEL_DEPOSIT = 10000 * 1000000000"

definition REGISTER_TEE_GAS :: gas where "REGISTER_TEE_GAS = 200000"

definition MIN_TEE_QUOTE_BYTES :: nat where "MIN_TEE_QUOTE_BYTES = 128"

definition REGISTER_GATEWAY_GAS :: gas where "REGISTER_GATEWAY_GAS = 100000"

definition UNREGISTER_GATEWAY_GAS :: gas where "UNREGISTER_GATEWAY_GAS = 50000"

definition GOV_PROPOSAL_GAS :: gas where "GOV_PROPOSAL_GAS = 500000"

definition GOV_VOTE_GAS :: gas where "GOV_VOTE_GAS = 30000"

definition PROPOSAL_DEPOSIT :: amount where "PROPOSAL_DEPOSIT = 10000 * 1000000000"

section \<open>Transfers\<close>

definition apply_transfer ::
    "block_ctx \<Rightarrow> address \<Rightarrow> address \<Rightarrow> amount \<Rightarrow> nonce \<Rightarrow> gas \<Rightarrow> tx_step" where
  "apply_transfer c from to amount n fee =
     (if from = to then rejected SelfTransfer c
      else if fee < BASE_TRANSFER_GAS then rejected (FeeTooLow BASE_TRANSFER_GAS fee) c
      else let from_acct = account_or_default c from
      in if nonce from_acct \<noteq> n then rejected (NonceMismatch (nonce from_acct) n) c
      else let base_fee = st_base_fee (ctx_state c);
               fee_cost = sat_mul 128 fee base_fee
      in case checked_add 128 amount fee_cost of
        None \<Rightarrow> rejected (InsufficientBalance (balance from_acct) (umax 128)) c
      | Some needed \<Rightarrow>
          if balance from_acct < needed then rejected (InsufficientBalance (balance from_acct) needed) c
          else rbind (uadd 64 (nonce from_acct) 1) (\<lambda>next_nonce.
            let from_acct' = \<lparr>balance = balance from_acct - needed, nonce = next_nonce\<rparr>;
                to_acct = account_or_default c to;
                to_acct' = to_acct\<lparr>balance := sat_add 128 (balance to_acct) amount\<rparr>
            in applied fee (set_account to to_acct' (set_account from from_acct' c))))"

section \<open>Receipts and disputes\<close>

definition receipt_leaf :: "ext \<Rightarrow> inference_receipt \<Rightarrow> bytes" where
  "receipt_leaf X r = word_bytes (x_sha256 X (str_bytes ''arknet-receipt-leaf-v1'' @ x_borsh_receipt X r))"

text \<open>The loop that checks and marks each receipt: the first job already seen ends it, with the
  marks made so far in the context.\<close>

fun mark_receipts ::
    "height \<Rightarrow> inference_receipt list \<Rightarrow> block_ctx \<Rightarrow> block_ctx \<times> job_id option" where
  "mark_receipts h [] c = (c, None)"
| "mark_receipts h (r # rs) c =
     (if is_receipt_seen c (ir_job_id r) then (c, Some (ir_job_id r))
      else mark_receipts h rs (mark_receipt_seen (ir_job_id r) h c))"

definition bootstrap_reward :: "ext \<Rightarrow> height \<Rightarrow> inference_receipt \<Rightarrow> pending_reward" where
  "bootstrap_reward X height r =
     (let treasury = bootstrap_treasury_address X
      in \<lparr>pw_job_id = ir_job_id r, pw_output_tokens = ir_output_token_count r, pw_user_payment = 0,
         pw_epoch = height div EPOCH_LENGTH_BLOCKS,
         pw_compute_addr = node_id_to_address X (ir_compute_node r), pw_verifier_addr = treasury,
         pw_router_addr = node_id_to_address X (ir_router_node r), pw_treasury_addr = treasury,
         pw_tee_multiplier_bps = (if ir_verification_tier r = Tee then TEE_MULTIPLIER_TEE
                                  else TEE_MULTIPLIER_NONE),
         pw_https_multiplier_bps = HTTP_MULTIPLIER_BPS\<rparr>)"

definition apply_receipt_batch :: "ext \<Rightarrow> block_ctx \<Rightarrow> receipt_batch \<Rightarrow> height \<Rightarrow> tx_step" where
  "apply_receipt_batch X c batch height =
     (if rb_receipts batch = [] then rejected EmptyReceiptBatch c
      else rbind (map_err (\<lambda>e. Codec ''receipt merkle'')
             (merkle_new (x_sha256 X) (map (receipt_leaf X) (rb_receipts batch)))) (\<lambda>tree.
      if merkle_root tree \<noteq> rb_merkle_root batch then rejected ReceiptMerkleMismatch c
      else case mark_receipts height (rb_receipts batch) c of
        (c1, Some j) \<Rightarrow> rejected (ReceiptDoubleAnchor (x_hex_encode X (word_bytes j))) c1
      | (c1, None) \<Rightarrow>
          let c2 = (if in_bootstrap_epoch height (active_count c1)
                    then fold (\<lambda>r. set_pending_reward (ir_job_id r) (bootstrap_reward X height r))
                           (rb_receipts batch) c1
                    else c1)
          in applied (sat_mul 64 RECEIPT_ANCHOR_GAS_PER_RECEIPT (length (rb_receipts batch))) c2))"

definition apply_dispute :: "block_ctx \<Rightarrow> dispute \<Rightarrow> height \<Rightarrow> tx_step" where
  "apply_dispute c d height =
     (if dp_claimed_output_hash d = dp_reexec_output_hash d then rejected DisputeOutputMatches c
      else if \<not> is_receipt_seen c (dp_job_id d) then rejected DisputeReceiptNotFound c
      else applied DISPUTE_GAS c)"

section \<open>Escrow and rewards\<close>

text \<open>\<^verbatim>\<open>if amount > 0 { credit }\<close> for each line of the split.\<close>

definition credit_line :: "address \<times> amount \<Rightarrow> block_ctx \<Rightarrow> block_ctx" where
  "credit_line l c = (if snd l > 0 then credit_address (fst l) (snd l) c else c)"

definition credit_reward_split ::
    "block_ctx \<Rightarrow> amount \<Rightarrow> address \<Rightarrow> address \<Rightarrow> address \<Rightarrow> address \<Rightarrow> (chain_error, block_ctx) result" where
  "credit_reward_split c total_amount compute_addr verifier_addr router_addr treasury_addr =
     rbind (umul 128 total_amount 80) (\<lambda>t80. let compute = t80 div 100 in
     rbind (umul 128 total_amount 7) (\<lambda>t7. let verifier = t7 div 100 in
     rbind (umul 128 total_amount 3) (\<lambda>t3. let burned = t3 div 100 in
     rbind (umul 128 total_amount 5) (\<lambda>t5. let delegators = t5 div 100 in
     rbind (usub total_amount compute) (\<lambda>r1.
     rbind (usub r1 verifier) (\<lambda>r2.
     rbind (usub r2 burned) (\<lambda>r3.
     rbind (usub r3 delegators) (\<lambda>treasury.
     rbind (uadd 128 compute delegators) (\<lambda>compute_total.
     Ok (fold credit_line [(compute_addr, compute_total), (verifier_addr, verifier),
           (treasury_addr, treasury)] c))))))))))"

definition apply_escrow_lock ::
    "ext \<Rightarrow> block_ctx \<Rightarrow> address \<Rightarrow> job_id \<Rightarrow> amount \<Rightarrow> nonce \<Rightarrow> gas \<Rightarrow> height \<Rightarrow> tx_step" where
  "apply_escrow_lock X c sender job_id amount n fee height =
     (if amount = 0 then rejected (NotYetImplemented ''zero-amount escrow'') c
      else if get_escrow c job_id \<noteq> None
      then rejected (ReceiptDoubleAnchor (x_hex_encode X (word_bytes job_id))) c
      else let acct = account_or_default c sender
      in if nonce acct \<noteq> n then rejected (NonceMismatch (nonce acct) n) c
      else let total_amount = sat_add 128 amount fee
      in if balance acct < total_amount then rejected (InsufficientBalance (balance acct) total_amount) c
      else rbind (uadd 64 (nonce acct) 1) (\<lambda>next_nonce.
        let c1 = set_account sender \<lparr>balance = balance acct - total_amount, nonce = next_nonce\<rparr> c;
            entry = \<lparr>es_job_id = job_id, es_user = sender, es_amount = amount,
                     es_created_at = height, es_state = Locked\<rparr>
        in applied ESCROW_LOCK_GAS (set_escrow job_id entry c1)))"

definition settle_reward ::
    "job_id \<Rightarrow> escrow_entry \<Rightarrow> address \<Rightarrow> address \<Rightarrow> address \<Rightarrow> address \<Rightarrow> height \<Rightarrow> pending_reward" where
  "settle_reward job_id entry compute_addr verifier_addr router_addr treasury_addr height =
     \<lparr>pw_job_id = job_id, pw_output_tokens = 0, pw_user_payment = es_amount entry,
      pw_epoch = height div EPOCH_LENGTH_BLOCKS, pw_compute_addr = compute_addr,
      pw_verifier_addr = verifier_addr, pw_router_addr = router_addr,
      pw_treasury_addr = treasury_addr, pw_tee_multiplier_bps = TEE_MULTIPLIER_NONE,
      pw_https_multiplier_bps = HTTP_MULTIPLIER_BPS\<rparr>"

definition apply_escrow_settle ::
    "block_ctx \<Rightarrow> job_id \<Rightarrow> address \<Rightarrow> address \<Rightarrow> address \<Rightarrow> address \<Rightarrow> height \<Rightarrow> tx_step" where
  "apply_escrow_settle c job_id compute_addr verifier_addr router_addr treasury_addr height =
     (case get_escrow c job_id of
        None \<Rightarrow> rejected (NotYetImplemented ''escrow not found for settle'') c
      | Some entry \<Rightarrow>
          if es_state entry \<noteq> Locked
          then rejected (NotYetImplemented ''escrow not in Locked state'') c
          else rbind (credit_reward_split c (es_amount entry) compute_addr verifier_addr router_addr
                        treasury_addr) (\<lambda>c1.
            let c2 = set_pending_reward job_id (settle_reward job_id entry compute_addr verifier_addr
                       router_addr treasury_addr height) c1
            in applied ESCROW_SETTLE_GAS (set_escrow job_id (entry\<lparr>es_state := Settled\<rparr>) c2)))"

definition apply_reward_mint ::
    "block_ctx \<Rightarrow> job_id \<Rightarrow> amount \<Rightarrow> address \<Rightarrow> address \<Rightarrow> address \<Rightarrow> address \<Rightarrow> tx_step" where
  "apply_reward_mint c job_id total_reward compute_addr verifier_addr router_addr treasury_addr =
     (if total_reward = 0 then applied REWARD_MINT_GAS c
      else rbind (credit_reward_split c total_reward compute_addr verifier_addr router_addr treasury_addr)
        (\<lambda>c1. applied (REWARD_MINT_GAS * 6) c1))"

section \<open>Registries\<close>

definition apply_register_model ::
    "block_ctx \<Rightarrow> model_manifest \<Rightarrow> address \<Rightarrow> amount \<Rightarrow> tx_step" where
  "apply_register_model c manifest registrar deposit =
     (if deposit < MODEL_DEPOSIT
      then rejected (FeeTooLow (ucastn 64 MODEL_DEPOSIT) (ucastn 64 deposit)) c
      else if mm_model_id manifest = [] then rejected (NotYetImplemented ''empty model_id'') c
      else if get_model c (mm_model_id manifest) \<noteq> None
      then rejected (NotYetImplemented ''model already registered'') c
      else let acct = account_or_default c registrar
      in if balance acct < deposit then rejected (InsufficientBalance (balance acct) deposit) c
      else let c1 = set_account registrar (acct\<lparr>balance := balance acct - deposit\<rparr>) c
      in applied REGISTER_MODEL_GAS (set_model (mm_model_id manifest) manifest c1))"

definition validate_tee_quote_structure :: "tee_platform \<Rightarrow> bytes \<Rightarrow> (string, unit) result" where
  "validate_tee_quote_structure platform quote =
     (if length quote < MIN_TEE_QUOTE_BYTES then Err ''TEE quote too short''
      else if length quote > MAX_TEE_QUOTE_BYTES then Err ''TEE quote exceeds size limit''
      else case platform of
        IntelTdx \<Rightarrow>
          if length quote < 4 \<or> quote ! 0 \<noteq> 4 \<or> quote ! 1 \<noteq> 0
          then Err ''Intel TDX quote: invalid version header'' else Ok ()
      | AmdSevSnp \<Rightarrow>
          if length quote < 4 \<or> (quote ! 0 \<noteq> 2 \<and> quote ! 0 \<noteq> 3)
          then Err ''AMD SEV-SNP report: invalid version byte'' else Ok ()
      | ArmCca \<Rightarrow> Ok ())"

definition apply_register_tee ::
    "block_ctx \<Rightarrow> node_id \<Rightarrow> address \<Rightarrow> tee_capability \<Rightarrow> tx_step" where
  "apply_register_tee c node_id operator capability =
     (if tc_quote capability = [] then rejected (NotYetImplemented ''empty TEE attestation quote'') c
      else case validate_tee_quote_structure (tc_platform capability) (tc_quote capability) of
        Err reason \<Rightarrow> rejected (NotYetImplemented reason) c
      | Panic \<Rightarrow> Panic
      | Ok _ \<Rightarrow>
          if \<not> scheme_is_active (pk_scheme (tc_enclave_pubkey capability))
          then rejected (NotYetImplemented ''enclave pubkey uses inactive scheme'') c
          else applied REGISTER_TEE_GAS (set_tee_capability node_id capability c))"

definition apply_register_gateway ::
    "block_ctx \<Rightarrow> node_id \<Rightarrow> address \<Rightarrow> string \<Rightarrow> bool \<Rightarrow> height \<Rightarrow> tx_step" where
  "apply_register_gateway c node_id operator url https height =
     (if url = [] then rejected (NotYetImplemented ''empty gateway URL'') c
      else if length url > MAX_GATEWAY_URL_LEN
      then rejected (NotYetImplemented ''gateway URL too long'') c
      else if https \<and> \<not> starts_with ''https://'' url
      then rejected (NotYetImplemented ''https flag set but URL does not start with https://'') c
      else let entry = \<lparr>ge_node_id = node_id, ge_operator = operator, ge_url = url,
                        ge_https = https, ge_registered_at = height\<rparr>
      in applied REGISTER_GATEWAY_GAS (set_gateway node_id entry c))"

definition apply_unregister_gateway :: "block_ctx \<Rightarrow> node_id \<Rightarrow> tx_step" where
  "apply_unregister_gateway c node_id = applied UNREGISTER_GATEWAY_GAS (delete_gateway node_id c)"

section \<open>Governance\<close>

definition apply_gov_proposal ::
    "ext \<Rightarrow> block_ctx \<Rightarrow> pubkey \<Rightarrow> proposal \<Rightarrow> height \<Rightarrow> tx_step" where
  "apply_gov_proposal X c signer p height =
     (let sender = derive_address_from_signer X signer
      in if pr_deposit p < PROPOSAL_DEPOSIT
      then rejected (NotYetImplemented ''deposit below minimum'') c
      else let acct = account_or_default c sender
      in if balance acct < pr_deposit p
      then rejected (InsufficientBalance (balance acct) (pr_deposit p)) c
      else let c1 = set_account sender (acct\<lparr>balance := balance acct - pr_deposit p\<rparr>) c;
               pid = st_next_proposal_id (ctx_state c1);
               record = \<lparr>prr_proposal = p, prr_phase = Discussion, prr_submitted_at = height\<rparr>;
               c2 = set_proposal pid record c1
      in rbind (uadd 64 pid 1) (\<lambda>next_id. applied GOV_PROPOSAL_GAS (set_next_proposal_id next_id c2)))"

definition apply_gov_vote :: "block_ctx \<Rightarrow> nat \<Rightarrow> address \<Rightarrow> vote_choice \<Rightarrow> tx_step" where
  "apply_gov_vote c proposal_id voter choice =
     (case get_proposal c proposal_id of
        None \<Rightarrow> rejected (NotYetImplemented ''proposal not found'') c
      | Some record \<Rightarrow>
          if prr_phase record \<noteq> Voting
          then rejected (NotYetImplemented ''proposal not in voting phase'') c
          else let key = gov_vote_key proposal_id voter
          in if get_vote c key \<noteq> None then rejected (NotYetImplemented ''duplicate vote'') c
          else applied GOV_VOTE_GAS (set_vote key [vote_byte choice] c))"

section \<open>The dispatcher\<close>

definition apply_tx :: "ext \<Rightarrow> block_ctx \<Rightarrow> signed_transaction \<Rightarrow> tx_step" where
  "apply_tx X c stx =
     (let height = (case current_height c of Some h \<Rightarrow> h | None \<Rightarrow> 0)
      in case stx_tx stx of
        Transfer from to amount n fee \<Rightarrow> apply_transfer c from to amount n fee
      | StakeOp op \<Rightarrow>
          apply_stake_op c op (derive_address_from_signer X (stx_signer stx)) height
      | ReceiptBatchTx batch \<Rightarrow> apply_receipt_batch X c batch height
      | DisputeTx d \<Rightarrow> apply_dispute c d height
      | EscrowLock from job_id amount n fee \<Rightarrow>
          apply_escrow_lock X c from job_id amount n fee height
      | EscrowSettle job_id batch_id compute_addr verifier_addr router_addr treasury_addr \<Rightarrow>
          apply_escrow_settle c job_id compute_addr verifier_addr router_addr treasury_addr height
      | RewardMint job_id total_reward compute_addr verifier_addr router_addr treasury_addr tokens \<Rightarrow>
          apply_reward_mint c job_id total_reward compute_addr verifier_addr router_addr treasury_addr
      | RegisterModel manifest registrar deposit \<Rightarrow> apply_register_model c manifest registrar deposit
      | GovProposal p \<Rightarrow> apply_gov_proposal X c (stx_signer stx) p height
      | GovVote proposal_id voter choice \<Rightarrow> apply_gov_vote c proposal_id voter choice
      | RegisterTeeCapability node_id operator capability \<Rightarrow>
          apply_register_tee c node_id operator capability
      | RegisterGateway node_id operator url https \<Rightarrow>
          apply_register_gateway c node_id operator url https height
      | UnregisterGateway node_id operator \<Rightarrow> apply_unregister_gateway c node_id)"

section \<open>The shape of each handler's result\<close>

lemma apply_transfer_cases:
  assumes "apply_transfer c from to amount n fee = Ok (c', out)"
  shows "rejects c c' out \<or>
    (\<exists>fa ta cost. out = TxApplied fee \<and> from \<noteq> to \<and> BASE_TRANSFER_GAS \<le> fee \<and>
      fa = account_or_default c from \<and> nonce fa = n \<and> n + 1 < 2 ^ 64 \<and>
      cost = sat_mul 128 fee (st_base_fee (ctx_state c)) \<and> amount + cost < 2 ^ 128 \<and>
      amount + cost \<le> balance fa \<and>
      ta = account_or_default c to \<and>
      c' = set_account to (ta\<lparr>balance := sat_add 128 (balance ta) amount\<rparr>)
        (set_account from \<lparr>balance = balance fa - (amount + cost), nonce = n + 1\<rparr> c))"
  using assms
  by (auto simp: apply_transfer_def Let_def rbind_Ok_iff uadd_Ok_iff
      split: if_split_asm option.split_asm)

lemma mark_receipts_coherent:
  "coherent c \<Longrightarrow> mark_receipts h rs c = (c', j) \<Longrightarrow> coherent c'"
  by (induction h rs c arbitrary: c' rule: mark_receipts.induct)
    (auto split: if_splits intro: coherent_intros)

lemma mark_receipts_frame:
  "mark_receipts h rs c = (c', j) \<Longrightarrow>
   ctx_state c' = ctx_state c \<and> get_account c' = get_account c \<and>
   cf_accounts (view c') = cf_accounts (view c) \<and> cf_stakes (view c') = cf_stakes (view c) \<and>
   cf_unbondings (view c') = cf_unbondings (view c) \<and> cf_escrows (view c') = cf_escrows (view c) \<and>
   meta_next_unbond_id (view c') = meta_next_unbond_id (view c)"
  by (induction h rs c arbitrary: c' rule: mark_receipts.induct) (auto split: if_splits)

definition queue_rewards ::
    "ext \<Rightarrow> height \<Rightarrow> inference_receipt list \<Rightarrow> block_ctx \<Rightarrow> block_ctx" where
  "queue_rewards X height rs c =
     fold (\<lambda>r. set_pending_reward (ir_job_id r) (bootstrap_reward X height r)) rs c"

lemma queue_rewards_simps [simp]:
  "queue_rewards X h [] c = c"
  "queue_rewards X h (r # rs) c =
     queue_rewards X h rs (set_pending_reward (ir_job_id r) (bootstrap_reward X h r) c)"
  by (simp_all add: queue_rewards_def)

lemma queue_rewards_coherent: "coherent c \<Longrightarrow> coherent (queue_rewards X h rs c)"
  by (induction rs arbitrary: c) (auto intro: coherent_intros)

lemma queue_rewards_frame [simp]:
  "ctx_state (queue_rewards X h rs c) = ctx_state c"
  "get_account (queue_rewards X h rs c) = get_account c"
  "cf_accounts (view (queue_rewards X h rs c)) = cf_accounts (view c)"
  "cf_stakes (view (queue_rewards X h rs c)) = cf_stakes (view c)"
  "cf_unbondings (view (queue_rewards X h rs c)) = cf_unbondings (view c)"
  "cf_escrows (view (queue_rewards X h rs c)) = cf_escrows (view c)"
  "meta_next_unbond_id (view (queue_rewards X h rs c)) = meta_next_unbond_id (view c)"
  "is_receipt_seen (queue_rewards X h rs c) = is_receipt_seen c"
  by (induction rs arbitrary: c) auto

lemma apply_receipt_batch_cases:
  assumes "apply_receipt_batch X c batch h = Ok (c', out)"
  shows "rejects c c' out \<or>
    (\<exists>c1 marked tree. mark_receipts h (rb_receipts batch) c = (c1, marked) \<and>
      merkle_new (x_sha256 X) (map (receipt_leaf X) (rb_receipts batch)) = Ok tree \<and>
      merkle_root tree = rb_merkle_root batch \<and> rb_receipts batch \<noteq> [] \<and>
      (\<not> is_applied out \<and> marked \<noteq> None \<and> c' = c1 \<or>
       is_applied out \<and> marked = None \<and>
       c' = (if in_bootstrap_epoch h (active_count c1) then queue_rewards X h (rb_receipts batch) c1
             else c1)))"
  using assms
  by (auto simp: apply_receipt_batch_def Let_def rbind_Ok_iff queue_rewards_def
      split: if_split_asm prod.split_asm option.split_asm)

lemma apply_dispute_cases:
  "apply_dispute c d h = Ok (c', out) \<Longrightarrow> c' = c"
  by (auto simp: apply_dispute_def split: if_split_asm)

lemma credit_line_coherent: "coherent c \<Longrightarrow> coherent (credit_line l c)"
  by (auto simp: credit_line_def intro: coherent_intros)

lemma credit_line_simps [simp]:
  "ctx_state (credit_line l c) = ctx_state c"
  "cf_stakes (view (credit_line l c)) = cf_stakes (view c)"
  "cf_unbondings (view (credit_line l c)) = cf_unbondings (view c)"
  "cf_escrows (view (credit_line l c)) = cf_escrows (view c)"
  "meta_next_unbond_id (view (credit_line l c)) = meta_next_unbond_id (view c)"
  "nonce (account_or_default (credit_line l c) a) = nonce (account_or_default c a)"
  by (simp_all add: credit_line_def)

text \<open>The three lines of the split.\<close>

definition split_lines :: "amount \<Rightarrow> address \<Rightarrow> address \<Rightarrow> address \<Rightarrow> (address \<times> amount) list" where
  "split_lines t compute_addr verifier_addr treasury_addr =
     [(compute_addr, t * 80 div 100 + t * 5 div 100), (verifier_addr, t * 7 div 100),
      (treasury_addr, t - t * 80 div 100 - t * 7 div 100 - t * 3 div 100 - t * 5 div 100)]"

lemma credit_reward_split_eq:
  "credit_reward_split c t ca va ra ta =
     (if t * 80 < 2 ^ 128 then Ok (fold credit_line (split_lines t ca va ta) c) else Panic)"
proof (cases "t * 80 < 2 ^ 128")
  case True
  have "t * 7 < 2 ^ 128" "t * 3 < 2 ^ 128" "t * 5 < 2 ^ 128"
    "t * 80 div 100 + t * 5 div 100 < 2 ^ 128" using True by linarith+
  moreover have "t * 80 div 100 \<le> t" "t * 7 div 100 \<le> t - t * 80 div 100"
    "t * 3 div 100 \<le> t - t * 80 div 100 - t * 7 div 100"
    "t * 5 div 100 \<le> t - t * 80 div 100 - t * 7 div 100 - t * 3 div 100" by linarith+
  ultimately show ?thesis using True
    by (simp add: credit_reward_split_def Let_def umul_def usub_def uadd_def split_lines_def)
next
  case False
  then show ?thesis by (simp add: credit_reward_split_def umul_def)
qed

lemma apply_escrow_lock_cases:
  assumes "apply_escrow_lock X c sender j amount n fee h = Ok (c', out)"
  shows "rejects c c' out \<or>
    (\<exists>acct. out = TxApplied ESCROW_LOCK_GAS \<and> 0 < amount \<and> get_escrow c j = None \<and>
      acct = account_or_default c sender \<and> nonce acct = n \<and> n + 1 < 2 ^ 64 \<and>
      sat_add 128 amount fee \<le> balance acct \<and>
      c' = set_escrow j \<lparr>es_job_id = j, es_user = sender, es_amount = amount, es_created_at = h,
                         es_state = Locked\<rparr>
        (set_account sender \<lparr>balance = balance acct - sat_add 128 amount fee, nonce = n + 1\<rparr> c))"
  using assms
  by (auto simp: apply_escrow_lock_def Let_def rbind_Ok_iff uadd_Ok_iff split: if_split_asm)

lemma apply_escrow_settle_cases:
  assumes "apply_escrow_settle c j ca va ra ta h = Ok (c', out)"
  shows "rejects c c' out \<or>
    (\<exists>e. out = TxApplied ESCROW_SETTLE_GAS \<and> get_escrow c j = Some e \<and> es_state e = Locked \<and>
      es_amount e * 80 < 2 ^ 128 \<and>
      c' = set_escrow j (e\<lparr>es_state := Settled\<rparr>)
        (set_pending_reward j (settle_reward j e ca va ra ta h)
          (fold credit_line (split_lines (es_amount e) ca va ta) c)))"
  using assms
  by (auto simp: apply_escrow_settle_def Let_def rbind_Ok_iff credit_reward_split_eq
      simp del: fold_simps split: if_split_asm option.split_asm)

lemma apply_reward_mint_cases:
  assumes "apply_reward_mint c j t ca va ra ta = Ok (c', out)"
  shows "is_applied out \<and> (t = 0 \<and> c' = c \<or>
    0 < t \<and> t * 80 < 2 ^ 128 \<and> c' = fold credit_line (split_lines t ca va ta) c)"
  using assms
  by (auto simp: apply_reward_mint_def rbind_Ok_iff credit_reward_split_eq simp del: fold_simps
      split: if_split_asm)

lemma apply_register_model_cases:
  assumes "apply_register_model c m registrar deposit = Ok (c', out)"
  shows "rejects c c' out \<or>
    (\<exists>acct. out = TxApplied REGISTER_MODEL_GAS \<and> MODEL_DEPOSIT \<le> deposit \<and> mm_model_id m \<noteq> [] \<and>
      get_model c (mm_model_id m) = None \<and> acct = account_or_default c registrar \<and>
      deposit \<le> balance acct \<and>
      c' = set_model (mm_model_id m) m
        (set_account registrar (acct\<lparr>balance := balance acct - deposit\<rparr>) c))"
  using assms by (auto simp: apply_register_model_def Let_def split: if_split_asm)

lemma apply_register_tee_cases:
  assumes "apply_register_tee c n operator cap = Ok (c', out)"
  shows "rejects c c' out \<or>
    (out = TxApplied REGISTER_TEE_GAS \<and> validate_tee_quote_structure (tc_platform cap) (tc_quote cap) = Ok () \<and>
     scheme_is_active (pk_scheme (tc_enclave_pubkey cap)) \<and> c' = set_tee_capability n cap c)"
  using assms by (auto simp: apply_register_tee_def split: if_split_asm result.split_asm)

lemma apply_register_gateway_cases:
  assumes "apply_register_gateway c n operator url https h = Ok (c', out)"
  shows "rejects c c' out \<or>
    (out = TxApplied REGISTER_GATEWAY_GAS \<and> url \<noteq> [] \<and> length url \<le> MAX_GATEWAY_URL_LEN \<and>
     (https \<longrightarrow> starts_with ''https://'' url) \<and>
     c' = set_gateway n \<lparr>ge_node_id = n, ge_operator = operator, ge_url = url, ge_https = https,
                         ge_registered_at = h\<rparr> c)"
  using assms by (auto simp: apply_register_gateway_def Let_def split: if_split_asm)

lemma apply_gov_proposal_cases:
  assumes "apply_gov_proposal X c signer p h = Ok (c', out)"
  shows "rejects c c' out \<or>
    (\<exists>sender acct. out = TxApplied GOV_PROPOSAL_GAS \<and> PROPOSAL_DEPOSIT \<le> pr_deposit p \<and>
      sender = derive_address_from_signer X signer \<and> acct = account_or_default c sender \<and>
      pr_deposit p \<le> balance acct \<and> st_next_proposal_id (ctx_state c) + 1 < 2 ^ 64 \<and>
      c' = set_next_proposal_id (st_next_proposal_id (ctx_state c) + 1)
        (set_proposal (st_next_proposal_id (ctx_state c))
          \<lparr>prr_proposal = p, prr_phase = Discussion, prr_submitted_at = h\<rparr>
          (set_account sender (acct\<lparr>balance := balance acct - pr_deposit p\<rparr>) c)))"
  using assms
  by (auto simp: apply_gov_proposal_def Let_def rbind_Ok_iff uadd_Ok_iff split: if_split_asm)

lemma apply_gov_vote_cases:
  assumes "apply_gov_vote c pid voter choice = Ok (c', out)"
  shows "rejects c c' out \<or>
    (\<exists>r. out = TxApplied GOV_VOTE_GAS \<and> get_proposal c pid = Some r \<and> prr_phase r = Voting \<and>
      get_vote c (gov_vote_key pid voter) = None \<and>
      c' = set_vote (gov_vote_key pid voter) [vote_byte choice] c)"
  using assms by (auto simp: apply_gov_vote_def Let_def split: if_split_asm option.split_asm)

end
