(* ===== verification/ApplySafety.thy ===== *)
theory ApplySafety
  imports Apply
begin

text \<open>
  What every transaction keeps, whatever it does (\<^verbatim>\<open>crates/chain/src/apply.rs\<close>): the overlays
  stay coherent with the write batch, the committed state is not touched, nonces never go back, and
  a rejection leaves the context as it was, receipt batches apart. From these: a transfer or an
  escrow lock that was applied can never be applied again, and a job's receipt is anchored once.
\<close>

named_theorems evolve_intros "steps that evolve a context"

section \<open>Evolution of a context\<close>

definition evolves :: "block_ctx \<Rightarrow> block_ctx \<Rightarrow> bool" where
  "evolves c c' \<longleftrightarrow> (coherent c \<longrightarrow> coherent c') \<and> ctx_state c' = ctx_state c \<and>
     (\<forall>a. nonce (account_or_default c a) \<le> nonce (account_or_default c' a)) \<and>
     (\<forall>j. is_receipt_seen c j \<longrightarrow> is_receipt_seen c' j)"

lemma evolves_refl [simp, evolve_intros]: "evolves c c"
  by (simp add: evolves_def)

lemma evolves_trans: "evolves a b \<Longrightarrow> evolves b c \<Longrightarrow> evolves a c"
  by (auto simp: evolves_def intro: le_trans)

lemma evolves_set_account [evolve_intros]:
  "evolves c0 c \<Longrightarrow> nonce (account_or_default c a) \<le> nonce acct \<Longrightarrow> evolves c0 (set_account a acct c)"
  by (erule evolves_trans) (auto simp: evolves_def intro: coherent_intros)

lemma evolves_buffered:
  assumes "coherent c \<Longrightarrow> coherent c'" "ctx_state c' = ctx_state c" "get_account c' = get_account c"
    "is_receipt_seen c' = is_receipt_seen c"
  shows "evolves c c'"
  using assms by (simp add: evolves_def account_or_default_def)

lemma seen_frame [simp]:
  "is_receipt_seen (buffer op c) = is_receipt_seen c"
  by (rule ext) (simp add: getter_defs)

lemma account_frame [simp]:
  "get_account (buffer op c) = get_account c"
  by (rule ext) (simp add: getter_defs cong: option.case_cong)

lemma account_or_default_plain [simp]:
  "account_or_default (set_proposal i prr c) a = account_or_default c a"
  "account_or_default (set_vote k v c) a = account_or_default c a"
  "account_or_default (set_next_proposal_id i c) a = account_or_default c a"
  "account_or_default (set_model m mm c) a = account_or_default c a"
  "account_or_default (set_tee_capability n t c) a = account_or_default c a"
  "account_or_default (set_gateway n g c) a = account_or_default c a"
  "account_or_default (delete_gateway n c) a = account_or_default c a"
  by (simp_all add: account_or_default_def setter_defs)

lemma evolves_plain [evolve_intros]:
  "evolves c0 c \<Longrightarrow> evolves c0 (set_escrow j es c)"
  "evolves c0 c \<Longrightarrow> evolves c0 (set_pending_reward j pw c)"
  "evolves c0 c \<Longrightarrow> evolves c0 (set_proposal i prr c)"
  "evolves c0 c \<Longrightarrow> evolves c0 (set_vote k v c)"
  "evolves c0 c \<Longrightarrow> evolves c0 (set_tee_capability n t c)"
  "evolves c0 c \<Longrightarrow> evolves c0 (set_gateway n g c)"
  "evolves c0 c \<Longrightarrow> evolves c0 (delete_gateway n c)"
  "evolves c0 c \<Longrightarrow> evolves c0 (set_model m mm c)"
  "evolves c0 c \<Longrightarrow> evolves c0 (set_next_proposal_id i c)"
  by (erule evolves_trans, rule evolves_buffered; (erule coherent_intros | simp add: setter_defs))+

lemma evolves_stakes [evolve_intros]:
  "evolves c0 c \<Longrightarrow> evolves c0 (set_stake n r p d e c)"
  "evolves c0 c \<Longrightarrow> evolves c0 (set_unbonding n u c)"
  "evolves c0 c \<Longrightarrow> evolves c0 (delete_unbonding n i c)"
  "evolves c0 c \<Longrightarrow> evolves c0 (set_next_unbond_id i c)"
  by (erule evolves_trans, rule evolves_buffered;
      (erule coherent_intros
       | simp add: setter_defs getter_defs Let_def fun_eq_iff cong: option.case_cong))+

lemma evolves_credit [evolve_intros]: "evolves c0 c \<Longrightarrow> evolves c0 (credit_address a x c)"
  unfolding credit_address_def Let_def by (rule evolves_set_account) simp_all

lemma evolves_credit_line [evolve_intros]: "evolves c0 c \<Longrightarrow> evolves c0 (credit_line l c)"
  by (simp add: credit_line_def evolves_credit)

lemma evolves_credit_lines [evolve_intros]:
  "evolves c0 c \<Longrightarrow> evolves c0 (fold credit_line ls c)"
  by (induction ls arbitrary: c) (auto intro: evolve_intros)

lemma evolves_mark [evolve_intros]: "evolves c0 c \<Longrightarrow> evolves c0 (mark_receipt_seen j h c)"
  by (erule evolves_trans) (auto simp: evolves_def intro: coherent_intros)

lemma evolves_mark_receipts:
  "mark_receipts h rs c = (c', j) \<Longrightarrow> evolves c c'"
proof (induction h rs c rule: mark_receipts.induct)
  case (2 h r rs c)
  then show ?case
    using evolves_trans[OF evolves_mark[OF evolves_refl]] by (auto split: if_splits)
qed simp

lemma evolves_queue_rewards [evolve_intros]:
  "evolves c0 c \<Longrightarrow> evolves c0 (queue_rewards X h rs c)"
  by (induction rs arbitrary: c) (auto intro: evolve_intros)

section \<open>Every handler evolves the context\<close>

lemma evolves_stake_op:
  assumes "apply_stake_op c op sender h = Ok (c', out)"
  shows "evolves c c'"
proof (cases op)
  case (Deposit n r p amount d)
  with assms apply_deposit_cases[of c sender n r p amount d h c' out] show ?thesis
    by (auto intro!: evolve_intros)
next
  case (Withdraw n r p amount)
  with assms apply_withdraw_cases[of c sender n r p amount h c' out] show ?thesis
    by (auto intro!: evolve_intros)
next
  case (Complete n r p i)
  with assms apply_complete_cases[of c sender n i h c' out] show ?thesis
    by (auto intro!: evolve_intros)
next
  case (Redelegate src dst r amount)
  with assms apply_redelegate_cases[of c sender src dst r amount h c' out] show ?thesis
    by (auto intro!: evolve_intros)
qed

lemma evolves_transfer: "apply_transfer c from to amount n fee = Ok (c', out) \<Longrightarrow> evolves c c'"
  using apply_transfer_cases[of c "from" to amount n fee c' out] by (auto intro!: evolve_intros)

lemma evolves_receipt_batch: "apply_receipt_batch X c b h = Ok (c', out) \<Longrightarrow> evolves c c'"
  using apply_receipt_batch_cases[of X c b h c' out] evolves_mark_receipts
  by (auto intro: evolve_intros split: if_splits)

lemma evolves_escrow_lock: "apply_escrow_lock X c s j amount n fee h = Ok (c', out) \<Longrightarrow> evolves c c'"
  using apply_escrow_lock_cases[of X c s j amount n fee h c' out] by (auto intro!: evolve_intros)

lemma evolves_escrow_settle: "apply_escrow_settle c j ca va ra ta h = Ok (c', out) \<Longrightarrow> evolves c c'"
  using apply_escrow_settle_cases[of c j ca va ra ta h c' out] by (auto intro!: evolve_intros)

lemma evolves_reward_mint: "apply_reward_mint c j t ca va ra ta = Ok (c', out) \<Longrightarrow> evolves c c'"
  using apply_reward_mint_cases[of c j t ca va ra ta c' out] by (auto intro!: evolve_intros)

lemma evolves_registries:
  "apply_dispute c d h = Ok (c', out) \<Longrightarrow> evolves c c'"
  "apply_register_model c m rg dep = Ok (c', out) \<Longrightarrow> evolves c c'"
  "apply_register_tee c n op cap = Ok (c', out) \<Longrightarrow> evolves c c'"
  "apply_register_gateway c n op url https h = Ok (c', out) \<Longrightarrow> evolves c c'"
  "apply_unregister_gateway c n = Ok (c', out) \<Longrightarrow> evolves c c'"
  "apply_gov_proposal X c pk p h = Ok (c', out) \<Longrightarrow> evolves c c'"
  "apply_gov_vote c pid voter choice = Ok (c', out) \<Longrightarrow> evolves c c'"
  using apply_dispute_cases[of c d h c' out] apply_register_model_cases[of c m rg dep c' out]
    apply_register_tee_cases[of c n op cap c' out]
    apply_register_gateway_cases[of c n op url https h c' out]
    apply_gov_proposal_cases[of X c pk p h c' out] apply_gov_vote_cases[of c pid voter choice c' out]
  by (auto simp: apply_unregister_gateway_def intro!: evolve_intros)

lemmas evolves_handlers = evolves_stake_op evolves_transfer evolves_receipt_batch
  evolves_escrow_lock evolves_escrow_settle evolves_reward_mint evolves_registries

lemma apply_tx_evolves: "apply_tx X c stx = Ok (c', out) \<Longrightarrow> evolves c c'"
  unfolding apply_tx_def Let_def
  by (cases "stx_tx stx") (auto dest: evolves_handlers)

section \<open>Rejection\<close>

lemma apply_tx_rejected:
  assumes "apply_tx X c stx = Ok (c', TxRejected why)" and "\<nexists>b. stx_tx stx = ReceiptBatchTx b"
  shows "c' = c"
proof (cases "stx_tx stx")
  case (StakeOp op)
  with assms(1) show ?thesis by (auto simp: apply_tx_def Let_def elim: apply_stake_op_cases)
qed (use assms in \<open>auto simp: apply_tx_def Let_def apply_unregister_gateway_def
    dest: apply_transfer_cases apply_dispute_cases apply_escrow_lock_cases apply_escrow_settle_cases
      apply_reward_mint_cases apply_register_model_cases apply_register_tee_cases
      apply_register_gateway_cases apply_gov_proposal_cases apply_gov_vote_cases\<close>)

section \<open>Runs\<close>

text \<open>The contexts reachable from \<open>c\<close> by transactions of one block.\<close>

inductive reaches :: "ext \<Rightarrow> block_ctx \<Rightarrow> block_ctx \<Rightarrow> bool" for X where
  start: "reaches X c c"
| step: "reaches X c c1 \<Longrightarrow> apply_tx X c1 stx = Ok (c2, out) \<Longrightarrow> reaches X c c2"

inductive_cases reachesE: "reaches X c c'"

lemma reaches_evolves: "reaches X c c' \<Longrightarrow> evolves c c'"
  by (induction rule: reaches.induct) (auto intro: evolves_trans apply_tx_evolves)

lemma reaches_coherent: "reaches X c c' \<Longrightarrow> coherent c \<Longrightarrow> coherent c'"
  using reaches_evolves[of X c c'] by (simp add: evolves_def)

lemma reaches_nonce:
  "reaches X c c' \<Longrightarrow> nonce (account_or_default c a) \<le> nonce (account_or_default c' a)"
  using reaches_evolves[of X c c'] by (simp add: evolves_def)

lemma transfer_nonce_after:
  assumes "apply_transfer c from to amount n fee = Ok (c', TxApplied g)"
  shows "nonce (account_or_default c from) = n \<and> nonce (account_or_default c' from) = n + 1"
  using apply_transfer_cases[OF assms] by auto

lemma escrow_lock_nonce_after:
  assumes "apply_escrow_lock X c from j amount n fee h = Ok (c', TxApplied g)"
  shows "nonce (account_or_default c from) = n \<and> nonce (account_or_default c' from) = n + 1"
  using apply_escrow_lock_cases[OF assms] by auto

lemma nonce_spent:
  assumes tx: "stx_tx stx = Transfer from to amount n fee \<or> stx_tx stx = EscrowLock from j amount n fee"
    and ap: "apply_tx X c stx = Ok (c', TxApplied g)"
  shows "nonce (account_or_default c from) = n \<and> nonce (account_or_default c' from) = n + 1"
  using tx
proof
  assume "stx_tx stx = Transfer from to amount n fee"
  with ap show ?thesis
    using transfer_nonce_after[of c "from" to amount n fee c' g] by (simp add: apply_tx_def Let_def)
next
  assume "stx_tx stx = EscrowLock from j amount n fee"
  with ap show ?thesis
    using escrow_lock_nonce_after[of X c "from" j amount n fee _ c' g]
    by (simp add: apply_tx_def Let_def)
qed

lemma no_replay:
  assumes tx: "stx_tx stx = Transfer from to amount n fee \<or> stx_tx stx = EscrowLock from j amount n fee"
    and first: "apply_tx X c stx = Ok (c1, TxApplied g)" and later: "reaches X c1 c2"
  shows "apply_tx X c2 stx \<noteq> Ok (c3, TxApplied g')"
proof
  assume again: "apply_tx X c2 stx = Ok (c3, TxApplied g')"
  have "nonce (account_or_default c1 from) = n + 1" "nonce (account_or_default c2 from) = n"
    using nonce_spent[OF tx first] nonce_spent[OF tx again] by simp_all
  with reaches_nonce[OF later, of "from"] show False by simp
qed

section \<open>Receipts\<close>

lemma mark_receipts_Some:
  "mark_receipts h rs c = (c', Some j) \<Longrightarrow> j \<in> ir_job_id ` set rs"
  by (induction h rs c rule: mark_receipts.induct) (auto split: if_splits)

lemma mark_receipts_None:
  "mark_receipts h rs c = (c', None) \<Longrightarrow>
   distinct (map ir_job_id rs) \<and> (\<forall>r \<in> set rs. \<not> is_receipt_seen c (ir_job_id r)) \<and>
   (\<forall>j. is_receipt_seen c' j \<longleftrightarrow> is_receipt_seen c j \<or> j \<in> ir_job_id ` set rs)"
  by (induction h rs c rule: mark_receipts.induct) (auto split: if_splits)

lemma mark_receipts_seen:
  "r \<in> set rs \<Longrightarrow> is_receipt_seen c (ir_job_id r) \<Longrightarrow> snd (mark_receipts h rs c) \<noteq> None"
  by (induction h rs c rule: mark_receipts.induct) auto

lemma receipt_batch_applied:
  assumes "apply_receipt_batch X c b h = Ok (c', TxApplied g)"
  shows "distinct (map ir_job_id (rb_receipts b)) \<and> rb_receipts b \<noteq> [] \<and>
    (\<forall>r \<in> set (rb_receipts b). \<not> is_receipt_seen c (ir_job_id r)) \<and>
    (\<forall>j. is_receipt_seen c' j \<longleftrightarrow> is_receipt_seen c j \<or> j \<in> ir_job_id ` set (rb_receipts b))"
  using apply_receipt_batch_cases[OF assms] mark_receipts_None[of h "rb_receipts b" c]
  by (auto split: if_splits)

lemma receipt_batch_seen_rejected:
  assumes "r \<in> set (rb_receipts b)" "is_receipt_seen c (ir_job_id r)"
  shows "apply_receipt_batch X c b h \<noteq> Ok (c', TxApplied g)"
  using receipt_batch_applied[of X c b h c' g] assms by blast

end
