(* ===== verification/ApplyValue.thy ===== *)
theory ApplyValue
  imports ApplySafety
begin

text \<open>
  The value theorems of \<^verbatim>\<open>crates/chain/src/apply.rs\<close>. The supply of a database is what the
  accounts, stakes, unbondings and locked escrows hold. A transfer destroys exactly its fee, the
  reward split destroys exactly the burned share, and no transaction but a reward mint creates
  value, as long as the escrow it reads has not been written earlier in the block.
\<close>

section \<open>Supply\<close>

definition locked_amount :: "escrow_entry \<Rightarrow> nat" where
  "locked_amount e = (if es_state e = Locked then es_amount e else 0)"

definition escrow_locked :: "db \<Rightarrow> nat" where
  "escrow_locked d = kv_sum (\<lambda>_. locked_amount) (cf_escrows d)"

definition total_supply :: "db \<Rightarrow> nat" where
  "total_supply d = held_value d + escrow_locked d"

text \<open>No escrow has been written since the block began.\<close>

definition escrows_fresh :: "block_ctx \<Rightarrow> bool" where
  "escrows_fresh c \<longleftrightarrow> (\<forall>j. get_escrow c j = kv_get (cf_escrows (view c)) j)"

lemma escrows_fresh_begin [simp]: "escrows_fresh (begin_block s)"
  by (simp add: escrows_fresh_def get_escrow_def) (simp add: begin_block_def)

lemma escrow_locked_set:
  assumes "escrows_fresh c"
  shows "escrow_locked (view (set_escrow j e c)) +
      (case get_escrow c j of None \<Rightarrow> 0 | Some u \<Rightarrow> locked_amount u) =
    escrow_locked (view c) + locked_amount e"
  using kv_sum_put[of "\<lambda>_. locked_amount" j e "cf_escrows (view c)"] assms
  by (simp add: escrow_locked_def escrows_fresh_def)

lemma escrow_locked_ge:
  "escrows_fresh c \<Longrightarrow> get_escrow c j = Some e \<Longrightarrow> locked_amount e \<le> escrow_locked (view c)"
  using kv_sum_ge[of "cf_escrows (view c)" j e "\<lambda>_. locked_amount"]
  by (simp add: escrow_locked_def escrows_fresh_def)

lemma value_updates [simp]:
  "held_value (d\<lparr>cf_escrows := x1\<rparr>) = held_value d"
  "held_value (d\<lparr>cf_pending_rewards := x2\<rparr>) = held_value d"
  "held_value (d\<lparr>cf_proposals := x3\<rparr>) = held_value d"
  "held_value (d\<lparr>cf_votes := x4\<rparr>) = held_value d"
  "held_value (d\<lparr>cf_models := x5\<rparr>) = held_value d"
  "held_value (d\<lparr>cf_tee := x6\<rparr>) = held_value d"
  "held_value (d\<lparr>cf_gateways := x7\<rparr>) = held_value d"
  "held_value (d\<lparr>cf_receipts_seen := x8\<rparr>) = held_value d"
  "held_value (d\<lparr>meta_next_proposal_id := x9\<rparr>) = held_value d"
  "escrow_locked (d\<lparr>cf_accounts := y1\<rparr>) = escrow_locked d"
  "escrow_locked (d\<lparr>cf_pending_rewards := x2\<rparr>) = escrow_locked d"
  "escrow_locked (d\<lparr>cf_proposals := x3\<rparr>) = escrow_locked d"
  "escrow_locked (d\<lparr>cf_votes := x4\<rparr>) = escrow_locked d"
  "escrow_locked (d\<lparr>cf_models := x5\<rparr>) = escrow_locked d"
  "escrow_locked (d\<lparr>cf_tee := x6\<rparr>) = escrow_locked d"
  "escrow_locked (d\<lparr>cf_gateways := x7\<rparr>) = escrow_locked d"
  "escrow_locked (d\<lparr>cf_receipts_seen := x8\<rparr>) = escrow_locked d"
  "escrow_locked (d\<lparr>meta_next_proposal_id := x9\<rparr>) = escrow_locked d"
  by (simp_all add: held_value_def escrow_locked_def)

lemma value_frame:
  assumes "cf_accounts d' = cf_accounts d" "cf_stakes d' = cf_stakes d"
    "cf_unbondings d' = cf_unbondings d" "cf_escrows d' = cf_escrows d"
  shows "total_supply d' = total_supply d"
  using assms by (simp add: total_supply_def held_value_def escrow_locked_def)

section \<open>The reward split\<close>

definition lines_total :: "(address \<times> amount) list \<Rightarrow> amount" where
  "lines_total ls = sum_list (map snd ls)"

lemma lines_total_simps [simp]:
  "lines_total [] = 0" "lines_total (l # ls) = snd l + lines_total ls"
  by (simp_all add: lines_total_def)

text \<open>The lines pay out everything but the burned three percent.\<close>

lemma split_lines_total: "lines_total (split_lines t ca va ta) + t * 3 div 100 = t"
proof -
  have "t * 80 div 100 + t * 7 div 100 + t * 3 div 100 + t * 5 div 100 \<le> t" by linarith
  then show ?thesis by (simp add: split_lines_def)
qed

lemma credit_line_total:
  assumes "coherent c" "total_balance (cf_accounts (view c)) + snd l < 2 ^ 128"
  shows "total_balance (cf_accounts (view (credit_line l c))) =
    total_balance (cf_accounts (view c)) + snd l"
  using credit_total[OF assms] by (simp add: credit_line_def)

lemma credit_line_total_le:
  "coherent c \<Longrightarrow> total_balance (cf_accounts (view (credit_line l c))) \<le>
    total_balance (cf_accounts (view c)) + snd l"
  using credit_total_le[of c "fst l" "snd l"] by (simp add: credit_line_def)

lemma credit_lines_total:
  assumes "coherent c" "total_balance (cf_accounts (view c)) + lines_total ls < 2 ^ 128"
  shows "total_balance (cf_accounts (view (fold credit_line ls c))) =
    total_balance (cf_accounts (view c)) + lines_total ls"
  using assms
proof (induction ls arbitrary: c)
  case (Cons l ls)
  have one: "total_balance (cf_accounts (view (credit_line l c))) =
      total_balance (cf_accounts (view c)) + snd l"
    by (rule credit_line_total[OF Cons.prems(1)]) (use Cons.prems(2) in simp)
  show ?case
    using Cons.IH[OF credit_line_coherent[OF Cons.prems(1)]] Cons.prems(2) unfolding one
    by (simp add: one add.assoc)
qed simp

lemma credit_lines_total_le:
  "coherent c \<Longrightarrow> total_balance (cf_accounts (view (fold credit_line ls c))) \<le>
    total_balance (cf_accounts (view c)) + lines_total ls"
proof (induction ls arbitrary: c)
  case (Cons l ls)
  show ?case
    using Cons.IH[OF credit_line_coherent[OF Cons.prems, of l]] credit_line_total_le[OF Cons.prems, of l]
    by simp
qed simp

lemma credit_lines_frame [simp]:
  "ctx_state (fold credit_line ls c) = ctx_state c"
  "cf_stakes (view (fold credit_line ls c)) = cf_stakes (view c)"
  "cf_unbondings (view (fold credit_line ls c)) = cf_unbondings (view c)"
  "cf_escrows (view (fold credit_line ls c)) = cf_escrows (view c)"
  by (induction ls arbitrary: c) simp_all

lemma credit_lines_coherent: "coherent c \<Longrightarrow> coherent (fold credit_line ls c)"
  by (induction ls arbitrary: c) (auto intro: credit_line_coherent)

lemma credit_lines_supply_le:
  "coherent c \<Longrightarrow> total_supply (view (fold credit_line ls c)) \<le> total_supply (view c) + lines_total ls"
  using credit_lines_total_le[of c ls]
  by (simp add: total_supply_def held_value_def escrow_locked_def)

section \<open>Transfers\<close>

lemma transfer_effect:
  assumes "apply_transfer c from to amount n fee = Ok (c', TxApplied g)" and "coherent c"
    and "total_balance (cf_accounts (view c)) < 2 ^ 128"
  defines "cost \<equiv> sat_mul 128 fee (st_base_fee (ctx_state c))"
  shows "balance (account_or_default c' from) + (amount + cost) = balance (account_or_default c from)"
    and "balance (account_or_default c' to) = balance (account_or_default c to) + amount"
    and "\<forall>a. a \<noteq> from \<longrightarrow> a \<noteq> to \<longrightarrow> get_account c' a = get_account c a"
    and "total_supply (view c') + cost = total_supply (view c)"
proof -
  let ?fa = "account_or_default c from" and ?ta = "account_or_default c to"
  let ?c1 = "set_account from \<lparr>balance = balance ?fa - (amount + cost), nonce = n + 1\<rparr> c"
  from apply_transfer_cases[OF assms(1)] have ne: "from \<noteq> to" and le: "amount + cost \<le> balance ?fa"
    and c': "c' = set_account to (?ta\<lparr>balance := sat_add 128 (balance ?ta) amount\<rparr>) ?c1"
    by (auto simp: cost_def)
  have v1: "total_balance (cf_accounts (view ?c1)) + (amount + cost) = total_balance (cf_accounts (view c))"
    by (rule debit_total[OF assms(2) le]) simp
  have co: "coherent ?c1" using assms(2) by (intro coherent_intros)
  have same: "account_or_default ?c1 to = ?ta" using ne by simp
  have cr: "c' = credit_address to amount ?c1"
    unfolding c' credit_address_def Let_def same ..
  have lt: "total_balance (cf_accounts (view ?c1)) + amount < 2 ^ 128" using v1 assms(3) by linarith
  have v2: "total_balance (cf_accounts (view c')) = total_balance (cf_accounts (view ?c1)) + amount"
    unfolding cr by (rule credit_total[OF co lt])
  have "balance ?ta + amount < 2 ^ 128"
    using account_le_total[OF co, of to] lt unfolding same by linarith
  then show "balance (account_or_default c' to) = balance ?ta + amount"
    unfolding cr using same by (simp add: sat_add_exact del: account_or_default_after(1))
  show "balance (account_or_default c' from) + (amount + cost) = balance ?fa"
    unfolding c' using ne le by simp
  show "\<forall>a. a \<noteq> from \<longrightarrow> a \<noteq> to \<longrightarrow> get_account c' a = get_account c a"
    unfolding c' by simp
  have "cf_stakes (view c') = cf_stakes (view c)" "cf_unbondings (view c') = cf_unbondings (view c)"
    "cf_escrows (view c') = cf_escrows (view c)" unfolding c' by simp_all
  then show "total_supply (view c') + cost = total_supply (view c)"
    using v1 v2 by (simp add: total_supply_def held_value_def escrow_locked_def)
qed

section \<open>No transaction but a mint creates value\<close>

lemma transfer_supply:
  assumes "apply_transfer c from to amount n fee = Ok (c', out)" "coherent c"
    and "total_balance (cf_accounts (view c)) < 2 ^ 128"
  shows "total_supply (view c') \<le> total_supply (view c)"
proof (cases out)
  case (TxApplied g)
  with transfer_effect(4)[OF _ assms(2,3)] assms(1) show ?thesis by fastforce
next
  case (TxRejected r)
  with assms(1) apply_transfer_cases[of c "from" to amount n fee c' out] show ?thesis by auto
qed

lemma debit_supply:
  assumes "coherent c" "x \<le> balance (account_or_default c a)"
    "balance acct = balance (account_or_default c a) - x"
  shows "total_supply (view (set_account a acct c)) + x = total_supply (view c)"
  using held_value_debit[OF assms] by (simp add: total_supply_def)

lemma escrows_setters:
  "cf_escrows (view (set_account a acct c)) = cf_escrows (view c)"
  "cf_escrows (view (set_stake n r p d e c)) = cf_escrows (view c)"
  "cf_escrows (view (set_unbonding n u c)) = cf_escrows (view c)"
  "cf_escrows (view (delete_unbonding n i c)) = cf_escrows (view c)"
  "cf_escrows (view (set_next_unbond_id i c)) = cf_escrows (view c)"
  "cf_escrows (view (credit_address a x c)) = cf_escrows (view c)"
  by simp_all

lemma stake_op_escrows:
  assumes "apply_stake_op c op sender h = Ok (c', out)"
  shows "cf_escrows (view c') = cf_escrows (view c)"
proof (cases op)
  case (Deposit n r p amount d)
  with assms have s: "apply_deposit c sender n r p amount d h = Ok (c', out)" by simp
  show ?thesis using apply_deposit_cases[OF s]
    by (elim disjE exE conjE; simp only: escrows_setters)
next
  case (Withdraw n r p amount)
  with assms have s: "apply_withdraw c sender n r p amount h = Ok (c', out)" by simp
  show ?thesis using apply_withdraw_cases[OF s]
    by (elim disjE exE conjE; simp only: escrows_setters)
next
  case (Complete n r p i)
  with assms have s: "apply_complete c sender n i h = Ok (c', out)" by simp
  show ?thesis using apply_complete_cases[OF s]
    by (elim disjE exE conjE; simp only: escrows_setters)
next
  case (Redelegate src dst r amount)
  with assms have s: "apply_redelegate c sender src dst r amount h = Ok (c', out)" by simp
  show ?thesis using apply_redelegate_cases[OF s]
    by (elim disjE exE conjE; simp only: escrows_setters)
qed

lemma stake_op_supply:
  assumes "coherent c" "staking_wf (view c)" "held_value (view c) < 2 ^ 128"
    and "apply_stake_op c op sender h = Ok (c', out)"
  shows "total_supply (view c') = total_supply (view c)"
proof -
  have "cf_escrows (view c') = cf_escrows (view c)" by (rule stake_op_escrows[OF assms(4)])
  with stake_op_value[OF assms] show ?thesis
    unfolding total_supply_def escrow_locked_def by (simp only:)
qed

lemma receipt_batch_supply:
  assumes "apply_receipt_batch X c b h = Ok (c', out)"
  shows "total_supply (view c') = total_supply (view c)"
  using apply_receipt_batch_cases[OF assms]
proof (elim disjE conjE exE)
  fix c1 and marked :: "job_id option"
  assume m: "mark_receipts h (rb_receipts b) c = (c1, marked)"
  have v: "total_supply (view c1) = total_supply (view c)"
    using mark_receipts_frame[OF m] by (intro value_frame) simp_all
  have q: "total_supply (view (queue_rewards X h (rb_receipts b) c1)) = total_supply (view c1)"
    by (rule value_frame) simp_all
  {
    assume "c' = c1"
    then show ?thesis using v by simp
  next
    assume c': "c' = (if in_bootstrap_epoch h (active_count c1) then queue_rewards X h (rb_receipts b) c1
      else c1)"
    show ?thesis unfolding c' using v q by simp
  }
qed simp

lemma escrow_lock_supply:
  assumes "apply_escrow_lock X c s j amount n fee h = Ok (c', out)" "coherent c" "escrows_fresh c"
    and typed: "amount < 2 ^ 128"
  shows "total_supply (view c') \<le> total_supply (view c)"
  using apply_escrow_lock_cases[OF assms(1)]
proof (elim disjE conjE exE)
  fix acct :: account
  let ?tot = "sat_add 128 amount fee"
  let ?c1 = "set_account s \<lparr>balance = balance acct - ?tot, nonce = n + 1\<rparr> c"
  let ?e = "\<lparr>es_job_id = j, es_user = s, es_amount = amount, es_created_at = h, es_state = Locked\<rparr>"
  assume acct: "acct = account_or_default c s" and le: "?tot \<le> balance acct"
    and none: "get_escrow c j = None" and c': "c' = set_escrow j ?e ?c1"
    and out: "out = TxApplied ESCROW_LOCK_GAS"
  have v: "total_supply (view ?c1) + ?tot = total_supply (view c)"
    unfolding acct by (rule debit_supply[OF assms(2)]) (use le acct in simp_all)
  have fresh: "escrows_fresh ?c1" using assms(3) by (simp add: escrows_fresh_def get_escrow_def)
  have "get_escrow ?c1 j = None" using none by (simp add: get_escrow_def)
  with escrow_locked_set[OF fresh, of j ?e]
  have "escrow_locked (view c') = escrow_locked (view ?c1) + amount"
    unfolding c' by (simp add: locked_amount_def)
  then have "total_supply (view c') = total_supply (view ?c1) + amount"
    unfolding c' by (simp add: total_supply_def)
  moreover have "amount \<le> ?tot" by (rule sat_add_ge[OF typed])
  ultimately show ?thesis using v by linarith
qed (use assms in simp)

lemma escrow_settle_supply:
  assumes "apply_escrow_settle c j ca va ra ta h = Ok (c', out)" "coherent c" "escrows_fresh c"
  shows "total_supply (view c') \<le> total_supply (view c)"
  using apply_escrow_settle_cases[OF assms(1)]
proof (elim disjE conjE exE)
  fix e :: escrow_entry
  let ?ls = "split_lines (es_amount e) ca va ta"
  let ?c1 = "fold credit_line ?ls c"
  let ?c2 = "set_pending_reward j (settle_reward j e ca va ra ta h) ?c1"
  let ?e = "e\<lparr>es_state := Settled\<rparr>"
  assume e: "get_escrow c j = Some e" "es_state e = Locked" and c': "c' = set_escrow j ?e ?c2"
  have fresh: "escrows_fresh ?c2" and ge: "get_escrow ?c2 j = Some e"
    using assms(3) e(1) by (simp_all add: escrows_fresh_def get_escrow_def del: fold_simps)
  have "escrow_locked (view c') + es_amount e = escrow_locked (view ?c2)"
    unfolding c' using escrow_locked_set[OF fresh, of j ?e] ge e(2)
    by (simp add: locked_amount_def del: fold_simps view_setters)
  moreover have "held_value (view c') = held_value (view ?c2)" unfolding c' by (simp del: fold_simps)
  moreover have "total_supply (view ?c2) = total_supply (view ?c1)"
    by (rule value_frame) (simp_all del: fold_simps)
  moreover have "total_supply (view ?c1) \<le> total_supply (view c) + lines_total ?ls"
    by (rule credit_lines_supply_le[OF assms(2)])
  moreover have "lines_total ?ls \<le> es_amount e" using split_lines_total[of "es_amount e" ca va ta] by linarith
  ultimately show ?thesis unfolding total_supply_def by linarith
qed (use assms in simp)

lemma reward_mint_supply:
  assumes "apply_reward_mint c j t ca va ra ta = Ok (c', out)" "coherent c"
  shows "total_supply (view c') \<le> total_supply (view c) + t"
proof -
  have "lines_total (split_lines t ca va ta) \<le> t" using split_lines_total[of t ca va ta] by linarith
  with apply_reward_mint_cases[OF assms(1)] credit_lines_supply_le[OF assms(2), of "split_lines t ca va ta"]
  show ?thesis by (elim conjE disjE) (hypsubst, linarith)+
qed

lemma registries_supply:
  assumes "coherent c"
  shows "apply_dispute c d h = Ok (c', out) \<Longrightarrow> total_supply (view c') = total_supply (view c)"
    and "apply_register_tee c n op cap = Ok (c', out) \<Longrightarrow> total_supply (view c') = total_supply (view c)"
    and "apply_register_gateway c n op url https h = Ok (c', out) \<Longrightarrow>
      total_supply (view c') = total_supply (view c)"
    and "apply_unregister_gateway c n = Ok (c', out) \<Longrightarrow> total_supply (view c') = total_supply (view c)"
    and "apply_gov_vote c pid voter choice = Ok (c', out) \<Longrightarrow>
      total_supply (view c') = total_supply (view c)"
  using apply_dispute_cases[of c d h c' out] apply_register_tee_cases[of c n op cap c' out]
    apply_register_gateway_cases[of c n op url https h c' out]
    apply_gov_vote_cases[of c pid voter choice c' out]
  by (auto simp: apply_unregister_gateway_def intro!: value_frame)

lemma register_model_supply:
  assumes "apply_register_model c m rg dep = Ok (c', out)" "coherent c"
  shows "total_supply (view c') \<le> total_supply (view c)"
  using apply_register_model_cases[OF assms(1)]
proof (elim disjE conjE exE)
  fix acct :: account
  let ?c1 = "set_account rg (acct\<lparr>balance := balance acct - dep\<rparr>) c"
  assume acct: "acct = account_or_default c rg" and le: "dep \<le> balance acct"
    and c': "c' = set_model (mm_model_id m) m ?c1"
  have "total_supply (view c') = total_supply (view ?c1)" unfolding c' by (rule value_frame) simp_all
  moreover have "total_supply (view ?c1) + dep = total_supply (view c)"
    unfolding acct by (rule debit_supply[OF assms(2)]) (use le acct in simp_all)
  ultimately show ?thesis by linarith
qed (use assms in simp)

lemma gov_proposal_supply:
  assumes "apply_gov_proposal X c pk p h = Ok (c', out)" "coherent c"
  shows "total_supply (view c') \<le> total_supply (view c)"
  using apply_gov_proposal_cases[OF assms(1)]
proof (elim disjE conjE exE)
  fix sender and acct :: account
  let ?c1 = "set_account sender (acct\<lparr>balance := balance acct - pr_deposit p\<rparr>) c"
  let ?i = "st_next_proposal_id (ctx_state c)"
  assume acct: "acct = account_or_default c sender" and le: "pr_deposit p \<le> balance acct"
    and c': "c' = set_next_proposal_id (?i + 1) (set_proposal ?i
      \<lparr>prr_proposal = p, prr_phase = Discussion, prr_submitted_at = h\<rparr> ?c1)"
  have "total_supply (view c') = total_supply (view ?c1)" unfolding c' by (rule value_frame) simp_all
  moreover have "total_supply (view ?c1) + pr_deposit p = total_supply (view c)"
    unfolding acct by (rule debit_supply[OF assms(2)]) (use le acct in simp_all)
  ultimately show ?thesis by linarith
qed (use assms in simp)

text \<open>The amounts of a transaction as it is decoded: they fit their integer types.\<close>

fun tx_typed :: "transaction \<Rightarrow> bool" where
  "tx_typed (Transfer from to amount n fee) \<longleftrightarrow> amount < 2 ^ 128 \<and> n < 2 ^ 64 \<and> fee < 2 ^ 64"
| "tx_typed (EscrowLock from j amount n fee) \<longleftrightarrow> amount < 2 ^ 128 \<and> n < 2 ^ 64 \<and> fee < 2 ^ 64"
| "tx_typed (RewardMint j t ca va ra ta tokens) \<longleftrightarrow> t < 2 ^ 128 \<and> tokens < 2 ^ 32"
| "tx_typed (RegisterModel m rg dep) \<longleftrightarrow> dep < 2 ^ 128"
| "tx_typed (GovProposal p) \<longleftrightarrow> pr_deposit p < 2 ^ 128"
| "tx_typed _ \<longleftrightarrow> True"

text \<open>The amount a transaction may add to the supply.\<close>

fun minted_by :: "transaction \<Rightarrow> amount" where
  "minted_by (RewardMint j t ca va ra ta tokens) = t"
| "minted_by _ = 0"

lemma apply_tx_supply:
  assumes c: "coherent c" "staking_wf (view c)" "escrows_fresh c" "held_value (view c) < 2 ^ 128"
    and typed: "tx_typed (stx_tx stx)" and step: "apply_tx X c stx = Ok (c', out)"
  shows "total_supply (view c') \<le> total_supply (view c) + minted_by (stx_tx stx)"
proof -
  have bal: "total_balance (cf_accounts (view c)) < 2 ^ 128"
    using c(4) unfolding held_value_def by linarith
  show ?thesis
  proof (cases "stx_tx stx")
    case (Transfer a b amount n fee)
    with step transfer_supply[OF _ c(1) bal] show ?thesis by (simp add: apply_tx_def Let_def)
  next
    case (StakeOp op)
    with step stake_op_supply[OF c(1,2,4)] show ?thesis by (simp add: apply_tx_def Let_def)
  next
    case (EscrowLock a j amount n fee)
    with step typed escrow_lock_supply[OF _ c(1,3)] show ?thesis by (simp add: apply_tx_def Let_def)
  next
    case (EscrowSettle j b ca va ra ta)
    with step escrow_settle_supply[OF _ c(1,3)] show ?thesis by (simp add: apply_tx_def Let_def)
  next
    case (RewardMint j t ca va ra ta tok)
    with step reward_mint_supply[OF _ c(1)] show ?thesis by (simp add: apply_tx_def Let_def)
  qed (use step in \<open>simp_all add: apply_tx_def Let_def receipt_batch_supply registries_supply[OF c(1)]
      register_model_supply[OF _ c(1)] gov_proposal_supply[OF _ c(1)]\<close>)
qed

end
