(* ===== verification/ApplySameBlock.thy ===== *)
theory ApplySameBlock
  imports ApplyValue
begin

text \<open>
  What \<^verbatim>\<open>crates/chain/src/apply.rs\<close> does between transactions of one block. Escrows and the
  proposal counter are read from the committed state, not from the block's overlay, so a second
  transaction of the block does not see the first; a rejected receipt batch keeps the marks it made;
  and no handler reads the signature.
\<close>

section \<open>Escrows\<close>

lemma settle_eq:
  assumes "get_escrow c j = Some e" "es_state e = Locked" "es_amount e * 80 < 2 ^ 128"
  shows "apply_escrow_settle c j ca va ra ta h = applied ESCROW_SETTLE_GAS
    (set_escrow j (e\<lparr>es_state := Settled\<rparr>)
      (set_pending_reward j (settle_reward j e ca va ra ta h)
        (fold credit_line (split_lines (es_amount e) ca va ta) c)))"
  using assms by (simp add: apply_escrow_settle_def credit_reward_split_eq Let_def del: fold_simps)

lemma settle_step:
  assumes c: "coherent c" "get_escrow c j = Some e" "es_state e = Locked" "es_amount e * 80 < 2 ^ 128"
    and lt: "total_balance (cf_accounts (view c)) + es_amount e < 2 ^ 128"
  obtains c' where "apply_escrow_settle c j ca va ra ta h = applied ESCROW_SETTLE_GAS c'"
    "coherent c'" "get_escrow c' j = Some e"
    "total_balance (cf_accounts (view c')) + es_amount e * 3 div 100 =
      total_balance (cf_accounts (view c)) + es_amount e"
proof -
  let ?ls = "split_lines (es_amount e) ca va ta"
  let ?c1 = "fold credit_line ?ls c"
  let ?c' = "set_escrow j (e\<lparr>es_state := Settled\<rparr>)
    (set_pending_reward j (settle_reward j e ca va ra ta h) ?c1)"
  have sum: "lines_total ?ls + es_amount e * 3 div 100 = es_amount e" by (rule split_lines_total)
  then have "total_balance (cf_accounts (view ?c1)) = total_balance (cf_accounts (view c)) + lines_total ?ls"
    using lt by (intro credit_lines_total[OF c(1)]) linarith
  then have "total_balance (cf_accounts (view ?c')) + es_amount e * 3 div 100 =
      total_balance (cf_accounts (view c)) + es_amount e"
    using sum by (simp del: fold_simps)
  moreover have "coherent ?c'" by (intro coherent_intros credit_lines_coherent c(1))
  moreover have "get_escrow ?c' j = Some e" using c(2) by (simp add: get_escrow_def del: fold_simps)
  ultimately show thesis using that[of ?c'] settle_eq[OF c(2-4), of ca va ra ta h] by blast
qed

lemma settle_twice:
  assumes "coherent c" "get_escrow c j = Some e" "es_state e = Locked" "es_amount e * 80 < 2 ^ 128"
    and "total_balance (cf_accounts (view c)) + 2 * es_amount e < 2 ^ 128"
  shows "\<exists>c1 c2. apply_escrow_settle c j ca va ra ta h = applied ESCROW_SETTLE_GAS c1 \<and>
    apply_escrow_settle c1 j ca' va' ra' ta' h' = applied ESCROW_SETTLE_GAS c2 \<and>
    total_balance (cf_accounts (view c2)) + 2 * (es_amount e * 3 div 100) =
      total_balance (cf_accounts (view c)) + 2 * es_amount e"
proof -
  have "total_balance (cf_accounts (view c)) + es_amount e < 2 ^ 128" using assms(5) by linarith
  then obtain c1 where c1: "apply_escrow_settle c j ca va ra ta h = applied ESCROW_SETTLE_GAS c1"
    "coherent c1" "get_escrow c1 j = Some e"
    "total_balance (cf_accounts (view c1)) + es_amount e * 3 div 100 =
      total_balance (cf_accounts (view c)) + es_amount e"
    using settle_step[OF assms(1-4)] by blast
  have "total_balance (cf_accounts (view c1)) + es_amount e < 2 ^ 128" using assms(5) c1(4) by linarith
  then obtain c2 where c2: "apply_escrow_settle c1 j ca' va' ra' ta' h' = applied ESCROW_SETTLE_GAS c2"
    "total_balance (cf_accounts (view c2)) + es_amount e * 3 div 100 =
      total_balance (cf_accounts (view c1)) + es_amount e"
    using settle_step[OF c1(2,3) assms(3,4)] by blast
  have "total_balance (cf_accounts (view c2)) + 2 * (es_amount e * 3 div 100) =
      total_balance (cf_accounts (view c)) + 2 * es_amount e" using c1(4) c2(2) by linarith
  with c1(1) c2(1) show ?thesis by blast
qed

lemma lock_eq:
  assumes "0 < amount" "get_escrow c j = None" "nonce (account_or_default c s) = n" "n + 1 < 2 ^ 64"
    "sat_add 128 amount fee \<le> balance (account_or_default c s)"
  shows "apply_escrow_lock X c s j amount n fee h = applied ESCROW_LOCK_GAS
    (set_escrow j \<lparr>es_job_id = j, es_user = s, es_amount = amount, es_created_at = h, es_state = Locked\<rparr>
      (set_account s \<lparr>balance = balance (account_or_default c s) - sat_add 128 amount fee,
                      nonce = n + 1\<rparr> c))"
  using assms by (simp add: apply_escrow_lock_def Let_def uadd_def)

lemma lock_twice:
  assumes "0 < a" "get_escrow c j = None" "nonce (account_or_default c s) = n" "n + 1 < 2 ^ 64"
    "sat_add 128 a fee \<le> balance (account_or_default c s)"
    and "s' \<noteq> s" "0 < a'" "nonce (account_or_default c s') = n'" "n' + 1 < 2 ^ 64"
    "sat_add 128 a' fee' \<le> balance (account_or_default c s')"
  shows "\<exists>c1 c2 e. apply_escrow_lock X c s j a n fee h = applied ESCROW_LOCK_GAS c1 \<and>
    apply_escrow_lock X c1 s' j a' n' fee' h = applied ESCROW_LOCK_GAS c2 \<and>
    kv_get (cf_escrows (view c2)) j = Some e \<and> es_user e = s' \<and> es_amount e = a' \<and>
    balance (account_or_default c2 s) + sat_add 128 a fee = balance (account_or_default c s)"
proof -
  let ?e = "\<lparr>es_job_id = j, es_user = s, es_amount = a, es_created_at = h, es_state = Locked\<rparr>"
  let ?e' = "\<lparr>es_job_id = j, es_user = s', es_amount = a', es_created_at = h, es_state = Locked\<rparr>"
  let ?c1 = "set_escrow j ?e (set_account s
    \<lparr>balance = balance (account_or_default c s) - sat_add 128 a fee, nonce = n + 1\<rparr> c)"
  let ?c2 = "set_escrow j ?e' (set_account s'
    \<lparr>balance = balance (account_or_default ?c1 s') - sat_add 128 a' fee', nonce = n' + 1\<rparr> ?c1)"
  have 1: "apply_escrow_lock X c s j a n fee h = applied ESCROW_LOCK_GAS ?c1"
    by (rule lock_eq) (use assms in simp_all)
  have 2: "apply_escrow_lock X ?c1 s' j a' n' fee' h = applied ESCROW_LOCK_GAS ?c2"
    by (rule lock_eq) (use assms in \<open>simp_all add: get_escrow_def\<close>)
  have "kv_get (cf_escrows (view ?c2)) j = Some ?e'" by simp
  moreover have "balance (account_or_default ?c2 s) + sat_add 128 a fee = balance (account_or_default c s)"
    using assms(5,6) by simp
  ultimately show ?thesis using 1 2 by (metis escrow_entry.select_convs(2,3))
qed

section \<open>Proposals\<close>

lemma proposal_eq:
  assumes "PROPOSAL_DEPOSIT \<le> pr_deposit p" "acct = account_or_default c (derive_address_from_signer X pk)"
    "pr_deposit p \<le> balance acct" "st_next_proposal_id (ctx_state c) + 1 < 2 ^ 64"
  shows "apply_gov_proposal X c pk p h = applied GOV_PROPOSAL_GAS
    (set_next_proposal_id (st_next_proposal_id (ctx_state c) + 1)
      (set_proposal (st_next_proposal_id (ctx_state c))
        \<lparr>prr_proposal = p, prr_phase = Discussion, prr_submitted_at = h\<rparr>
        (set_account (derive_address_from_signer X pk)
          (acct\<lparr>balance := balance acct - pr_deposit p\<rparr>) c)))"
  using assms by (simp add: apply_gov_proposal_def Let_def uadd_def)

lemma proposals_same_id:
  assumes first: "apply_gov_proposal X c pk p h = applied g c1"
    and second: "apply_gov_proposal X c1 pk' p' h = applied g' c2"
  shows "kv_get (cf_proposals (view c1)) (st_next_proposal_id (ctx_state c)) =
      Some \<lparr>prr_proposal = p, prr_phase = Discussion, prr_submitted_at = h\<rparr>"
    and "kv_get (cf_proposals (view c2)) (st_next_proposal_id (ctx_state c)) =
      Some \<lparr>prr_proposal = p', prr_phase = Discussion, prr_submitted_at = h\<rparr>"
    and "meta_next_proposal_id (view c2) = Some (st_next_proposal_id (ctx_state c) + 1)"
proof -
  from apply_gov_proposal_cases[OF first]
  show "kv_get (cf_proposals (view c1)) (st_next_proposal_id (ctx_state c)) =
      Some \<lparr>prr_proposal = p, prr_phase = Discussion, prr_submitted_at = h\<rparr>"
    by (elim disjE exE conjE) simp_all
  from apply_gov_proposal_cases[OF first] have same: "ctx_state c1 = ctx_state c"
    by (elim disjE exE conjE) simp_all
  from apply_gov_proposal_cases[OF second]
  show "kv_get (cf_proposals (view c2)) (st_next_proposal_id (ctx_state c)) =
      Some \<lparr>prr_proposal = p', prr_phase = Discussion, prr_submitted_at = h\<rparr>"
    "meta_next_proposal_id (view c2) = Some (st_next_proposal_id (ctx_state c) + 1)"
    unfolding same by (elim disjE exE conjE; simp)+
qed

section \<open>Rejected batches\<close>

lemma mark_receipts_dup:
  "\<exists>r \<in> set rs. is_receipt_seen c (ir_job_id r) \<Longrightarrow> \<exists>j c'. mark_receipts h rs c = (c', Some j)"
  by (metis mark_receipts_seen option.exhaust prod.collapse)

lemma rejected_batch_marks:
  assumes rs: "rb_receipts b = r # rs" and new: "\<not> is_receipt_seen c (ir_job_id r)"
    and dup: "\<exists>r' \<in> set rs. is_receipt_seen c (ir_job_id r')"
    and tree: "merkle_new (x_sha256 X) (map (receipt_leaf X) (rb_receipts b)) = Ok tree"
      "merkle_root tree = rb_merkle_root b"
  shows "\<exists>(j :: job_id) c'. apply_receipt_batch X c b h =
      rejected (ReceiptDoubleAnchor (x_hex_encode X (word_bytes j))) c' \<and>
    is_receipt_seen c' (ir_job_id r)"
proof -
  let ?c1 = "mark_receipt_seen (ir_job_id r) h c"
  have "\<exists>r' \<in> set rs. is_receipt_seen ?c1 (ir_job_id r')" using dup by auto
  then obtain j c' where m: "mark_receipts h rs ?c1 = (c', Some j)" using mark_receipts_dup by blast
  have "is_receipt_seen c' (ir_job_id r)"
    using evolves_mark_receipts[OF m] by (simp add: evolves_def)
  moreover have "apply_receipt_batch X c b h =
      rejected (ReceiptDoubleAnchor (x_hex_encode X (word_bytes j))) c'"
    using rs new tree m by (simp add: apply_receipt_batch_def)
  ultimately show ?thesis by blast
qed

section \<open>Signatures\<close>

lemma apply_tx_signature: "apply_tx X c (stx\<lparr>stx_signature := sg\<rparr>) = apply_tx X c stx"
  by (cases "stx_tx stx") (simp_all add: apply_tx_def)

text \<open>The transactions whose handler looks at the signer's key.\<close>

fun uses_signer :: "transaction \<Rightarrow> bool" where
  "uses_signer (StakeOp op) = True"
| "uses_signer (GovProposal p) = True"
| "uses_signer _ = False"

lemma apply_tx_unsigned:
  "\<not> uses_signer (stx_tx stx) \<Longrightarrow>
   apply_tx X c (stx\<lparr>stx_signer := pk, stx_signature := sg\<rparr>) = apply_tx X c stx"
  by (cases "stx_tx stx") (simp_all add: apply_tx_def)

end
