(* ===== verification/Samples.thy ===== *)
theory Samples
  imports ApplySameBlock
begin

text \<open>
  Concrete inputs for the witnesses: the external functions fixed to simple ones, and contexts that
  open a block on a small database. Every theorem with a hypothesis is applied to one of them.
\<close>

definition demo_ext :: ext where
  "demo_ext = \<lparr>x_blake3 = (\<lambda>bs. word_rcat bs), x_sha256 = (\<lambda>bs. word_rcat bs),
     x_borsh_account = (\<lambda>a. u64_be_bytes (balance a) @ u64_be_bytes (nonce a)),
     x_borsh_receipt = (\<lambda>r. word_bytes (ir_job_id r)), x_borsh_tx = (\<lambda>t. []),
     x_borsh_stx = (\<lambda>t. []), x_borsh_header = (\<lambda>h. u64_be_bytes (bh_height h)),
     x_borsh_block = (\<lambda>b. []),
     x_hex_encode = (\<lambda>bs. []), x_smt_root = (\<lambda>f. f 0)\<rparr>"

definition demo_db :: "(address \<times> account) list \<Rightarrow> db" where
  "demo_db accts = empty_db\<lparr>cf_accounts := fold (\<lambda>(a, x). kv_put a x) accts kv_empty\<rparr>"

definition demo_ctx :: "(address \<times> account) list \<Rightarrow> block_ctx" where
  "demo_ctx accts = begin_block (state_open (demo_db accts))"

definition demo_acct :: "amount \<Rightarrow> account" where
  "demo_acct x = \<lparr>balance = x, nonce = 0\<rparr>"

lemma demo_acct_simps [simp]: "balance (demo_acct x) = x" "nonce (demo_acct x) = 0"
  by (simp_all add: demo_acct_def)

definition demo_sig :: sig where
  "demo_sig = \<lparr>sig_scheme = Ed25519, sig_bytes = []\<rparr>"

definition demo_key :: pubkey where
  "demo_key = \<lparr>pk_scheme = Ed25519, pk_bytes = []\<rparr>"

definition demo_stx :: "transaction \<Rightarrow> signed_transaction" where
  "demo_stx tx = \<lparr>stx_tx = tx, stx_signer = demo_key, stx_signature = demo_sig\<rparr>"

lemma demo_stx_simps [simp]:
  "stx_tx (demo_stx tx) = tx" "stx_signer (demo_stx tx) = demo_key"
  by (simp_all add: demo_stx_def)

lemma st_db_open [simp]: "st_db (state_open d) = d"
  by (simp add: state_open_def)

lemma begin_block_reads [simp]:
  "ctx_state (begin_block s) = s"
  "get_account (begin_block s) a = kv_get (cf_accounts (st_db s)) a"
  "get_stake (begin_block s) n r p d = kv_get (cf_stakes (st_db s)) (stake_key n r p d)"
  "get_unbonding (begin_block s) n i = kv_get (cf_unbondings (st_db s)) (unbond_key n i)"
  "next_unbond_id (begin_block s) = st_next_unbond_id s"
  "current_height (begin_block s) = meta_current_height (st_db s)"
  "is_receipt_seen (begin_block s) j \<longleftrightarrow> kv_get (cf_receipts_seen (st_db s)) j \<noteq> None"
  by (simp_all add: begin_block_def getter_defs)

lemma coherent_demo [simp]: "coherent (demo_ctx accts)"
  by (simp add: demo_ctx_def coherent_begin_block state_ok_open)

lemma demo_ctx_reads [simp]:
  "account_or_default (demo_ctx accts) a =
     or_zero (kv_get (fold (\<lambda>(a, x). kv_put a x) accts kv_empty) a)"
  "view (demo_ctx accts) = demo_db accts"
  "st_base_fee (ctx_state (demo_ctx accts)) = 1"
  "current_height (demo_ctx accts) = None"
  "get_stake (demo_ctx accts) n r p d = None"
  "get_unbonding (demo_ctx accts) n i = None"
  "next_unbond_id (demo_ctx accts) = 0"
  "get_escrow (demo_ctx accts) j = None"
  "is_receipt_seen (demo_ctx accts) j = False"
  "active_count (demo_ctx accts) = 0"
  "st_next_proposal_id (ctx_state (demo_ctx accts)) = 0"
  by (simp_all add: demo_ctx_def demo_db_def empty_db_def account_or_default_or_zero st_base_fee_def
      st_next_unbond_id_def get_escrow_def active_count_def iter_validators_def ucastn_def
      st_next_proposal_id_def)

lemma demo_db_wf [simp]: "staking_wf (demo_db accts)"
  by (simp add: staking_wf_def stakes_wf_def unbondings_wf_def unbond_counter_def demo_db_def
      empty_db_def)

lemma demo_db_columns [simp]:
  "cf_accounts (demo_db accts) = fold (\<lambda>(a, x). kv_put a x) accts kv_empty"
  "cf_stakes (demo_db accts) = kv_empty"
  "cf_unbondings (demo_db accts) = kv_empty"
  "cf_escrows (demo_db accts) = kv_empty"
  by (simp_all add: demo_db_def empty_db_def)

lemma demo_held [simp]:
  "held_value (demo_db accts) = total_balance (fold (\<lambda>(a, x). kv_put a x) accts kv_empty)"
  by (simp add: held_value_def stake_total_def unbonding_total_def)

lemma demo_fresh [simp]: "escrows_fresh (demo_ctx accts)"
  by (simp add: demo_ctx_def)

lemma total_balance_entries:
  "total_balance m = sum_list (map (\<lambda>e. balance (snd e)) (kv_entries m))"
  by (simp add: total_balance_def kv_sum_def entry_sum_def case_prod_unfold)

lemma demo_one [simp]:
  "total_balance (fold (\<lambda>(a, x). kv_put a x) [(1, demo_acct x)] kv_empty) = x"
  by (simp add: total_balance_entries)

end
