(* ===== verification/LedgerProperties.thy ===== *)
theory LedgerProperties
  imports Samples
begin

text \<open>
  The properties of the chain crate: block contexts and their state root, the base fee, the stake
  lifecycle, receipt trees, and transaction application. Each property stands under its claim id
  and is followed by a witness where it has hypotheses.
\<close>

section \<open>Block contexts\<close>

text \<open>C8: whatever transactions a block applies, starting from a state whose tree mirrors its
  accounts, every account the handlers read through the overlay is the one the commit writes, and
  the committed tree again mirrors the committed accounts.\<close>

theorem commit_refines_overlay:
  assumes "state_ok s" and "reaches X (begin_block s) c" and "d = st_db (snd (commit X c))"
  shows "get_account c a = kv_get (cf_accounts d) a \<and>
    get_stake c n r p dl = kv_get (cf_stakes d) (stake_key n r p dl) \<and>
    get_unbonding c n i = kv_get (cf_unbondings d) (unbond_key n i) \<and>
    (is_receipt_seen c j \<longleftrightarrow> kv_get (cf_receipts_seen d) j \<noteq> None) \<and>
    state_ok (snd (commit X c))"
proof -
  have c: "coherent c" by (rule reaches_coherent[OF assms(2) coherent_begin_block[OF assms(1)]])
  show ?thesis unfolding assms(3) view_commit by (simp add: coherentD[OF c] state_ok_commit[OF c])
qed

theorem commit_refines_overlay_witness:
  "get_account (begin_block (state_open (demo_db [(1, demo_acct 5)]))) 1 =
     kv_get (cf_accounts (st_db (snd (commit demo_ext
       (begin_block (state_open (demo_db [(1, demo_acct 5)]))))))) 1"
  using commit_refines_overlay[OF state_ok_open reaches.start refl] by blast

text \<open>C19: the proposer's preview returns the root the commit will have and leaves the shared
  tree exactly as it was.\<close>

theorem preview_is_pure:
  "preview_state_root X c = (fst (commit X c), st_smt (ctx_state c))"
  by (rule prod_eqI) (simp_all add: preview_eq_commit preview_restores)

section \<open>Base fee\<close>

text \<open>The base fee of the next block exists whenever the gas target is positive, is at least
  one, never falls by more than an eighth, never rises by more than an eighth (or one) up to twice
  the target, falls or stays below the target and rises strictly above it.\<close>

theorem base_fee_step:
  assumes "0 < target" and "1 \<le> p" and "p < umax 128"
  shows "\<exists>fee. next_base_fee p used target = Ok fee \<and> 1 \<le> fee \<and> fee < 2 ^ 128 \<and>
    p - p div 8 \<le> fee \<and> (used \<le> 2 * target \<longrightarrow> fee \<le> p + max (p div 8) 1) \<and>
    (used \<le> target \<longrightarrow> fee \<le> p) \<and> (used = target \<longrightarrow> fee = p) \<and> (target < used \<longrightarrow> p < fee)"
proof -
  have p: "p < 2 ^ 128" using assms(3) by (simp add: umax_def)
  obtain fee where fee: "next_base_fee p used target = Ok fee" "1 \<le> fee"
    using next_base_fee_total[OF assms(1), of p used] by blast
  show ?thesis
    by (intro exI[of _ fee] conjI impI fee next_base_fee_u128[OF p fee(1)]
        next_base_fee_down_ge[OF fee(1) p] next_base_fee_up_le[OF fee(1) _ assms(2)]
        next_base_fee_down[OF fee(1) _ assms(2)] next_base_fee_up[OF fee(1) _ assms(3)])
      (use next_base_fee_at_target[of p target fee] fee(1) assms(2) in simp_all)
qed

theorem base_fee_step_witness:
  "\<exists>fee. next_base_fee 1000 15000000 15000000 = Ok fee \<and> fee = 1000"
  using base_fee_step[of 15000000 1000 15000000] by (auto simp: umax_def)

text \<open>A block that used more gas never leads to a lower base fee.\<close>

theorem base_fee_monotone:
  assumes "used \<le> used'" and "1 \<le> p" and "p < 2 ^ 128"
    and "next_base_fee p used target = Ok fee" and "next_base_fee p used' target = Ok fee'"
  shows "fee \<le> fee'"
  by (rule next_base_fee_mono[OF assms(4,5,1-3)])

theorem base_fee_monotone_witness:
  "next_base_fee 1000 0 100 = Ok 875 \<and> next_base_fee 1000 200 100 = Ok 1125 \<and> (875::nat) \<le> 1125"
proof -
  have 1: "next_base_fee 1000 0 100 = Ok 875" "next_base_fee 1000 200 100 = Ok 1125"
    by (simp_all add: next_base_fee_def BASE_FEE_MAX_CHANGE_DENOM_def MIN_BASE_FEE_def Let_def
        sat_mul_def sat_add_def sat_sub_def umax_def)
  show ?thesis using base_fee_monotone[OF _ _ _ 1] 1 by simp
qed

section \<open>Stakes\<close>

text \<open>C6: every stake operation keeps the staking columns well formed and the sum of balances,
  bonded stakes and unbondings exactly, and leaves the context as it was when it is rejected.\<close>

theorem stake_op_conserves:
  assumes "coherent c" and "staking_wf (view c)" and "held_value (view c) < 2 ^ 128"
    and "apply_stake_op c op sender h = Ok (c', out)"
  shows "held_value (view c') = held_value (view c) \<and> staking_wf (view c') \<and> coherent c' \<and>
    (\<not> is_applied out \<longrightarrow> c' = c)"
  using stake_op_value[OF assms] apply_stake_op_coherent(1)[OF assms(1,4)]
  by (cases rule: apply_stake_op_cases[OF assms(4)]) simp_all

definition demo_bonded :: block_ctx where
  "demo_bonded = set_stake 7 Validator None None
     \<lparr>se_node_id = 7, se_role = Validator, se_pool_id = None, se_delegator = None,
      se_amount = 4, se_bonded_at = 0\<rparr>
     (set_account 1 (demo_acct 5) (demo_ctx [(1, demo_acct 9)]))"

lemma demo_deposit:
  "apply_stake_op (demo_ctx [(1, demo_acct 9)]) (Deposit 7 Validator None 4 None) 1 0 =
     Ok (demo_bonded, TxApplied 50000)"
  by (simp add: apply_deposit_def below_min_stake_def in_bootstrap_epoch_def
      within_bootstrap_window_def BOOTSTRAP_MAX_BLOCKS_def BOOTSTRAP_VALIDATOR_TARGET_def Let_def
      STAKE_OP_GAS_def demo_acct_def demo_bonded_def)

theorem stake_op_conserves_witness:
  "\<exists>c'. apply_stake_op (demo_ctx [(1, demo_acct 9)]) (Deposit 7 Validator None 4 None) 1 0 =
     Ok (c', TxApplied 50000) \<and> held_value (view c') = 9"
proof -
  have "held_value (view (demo_ctx [(1, demo_acct 9)])) = 9"
    by (simp only: demo_ctx_reads demo_held demo_one)
  then show ?thesis
    using stake_op_conserves[OF coherent_demo _ _ demo_deposit] demo_deposit by simp
qed

text \<open>C20: a stake operation of one sender changes no other account and no stake delegated by
  another address.\<close>

theorem stake_op_only_sender:
  assumes "apply_stake_op c op sender h = Ok (c', out)" and "a \<noteq> sender"
  shows "get_account c' a = get_account c a \<and> get_stake c' n r p (Some a) = get_stake c n r p (Some a)"
  using stake_op_frame[OF assms(1)] assms(2) by blast

theorem stake_op_only_sender_witness:
  "\<exists>c'. apply_stake_op (demo_ctx [(1, demo_acct 9)]) (Deposit 7 Validator None 4 None) 1 0 =
     Ok (c', TxApplied 50000) \<and> get_account c' 2 = get_account (demo_ctx [(1, demo_acct 9)]) 2"
  using stake_op_only_sender[OF demo_deposit, of 2] demo_deposit by auto


definition demo_staked :: block_ctx where
  "demo_staked = set_stake 7 Validator None None
     \<lparr>se_node_id = 7, se_role = Validator, se_pool_id = None, se_delegator = None,
      se_amount = 4, se_bonded_at = 0\<rparr> (demo_ctx [])"

lemma demo_staked_reads [simp]:
  "get_stake demo_staked 7 Validator None (Some a) = None"
  "get_stake demo_staked 7 Validator None None = Some
     \<lparr>se_node_id = 7, se_role = Validator, se_pool_id = None, se_delegator = None,
      se_amount = 4, se_bonded_at = 0\<rparr>"
  "next_unbond_id demo_staked = 0"
  by (simp_all add: demo_staked_def)


text \<open>A node's own stake can be unbonded by any sender who has no delegation to the node, and
  the unbonding names no owner, so any sender may claim it: nothing ties the entry to the operator
  who bonded it.\<close>

theorem own_stake_unprotected:
  assumes "get_stake c n r p (Some thief) = None" and "get_stake c n r p None = Some e"
    and "h + UNBONDING_PERIOD_BLOCKS < 2 ^ 64" and "next_unbond_id c + 1 < 2 ^ 64"
  shows "\<exists>c1 c2. apply_withdraw c thief n r p (se_amount e) h = applied STAKE_OP_GAS c1 \<and>
    apply_complete c1 thief n (next_unbond_id c) (h + UNBONDING_PERIOD_BLOCKS) = applied STAKE_OP_GAS c2 \<and>
    account_or_default c2 thief = account_or_default (credit_address thief (se_amount e) c) thief"
proof -
  let ?e = "e\<lparr>se_amount := se_amount e - se_amount e\<rparr>"
  let ?u = "\<lparr>un_unbond_id = next_unbond_id c, un_node_id = n, un_role = r, un_pool_id = p,
    un_delegator = None, un_amount = se_amount e, un_started_at = h,
    un_completes_at = h + UNBONDING_PERIOD_BLOCKS\<rparr>"
  let ?c1 = "set_next_unbond_id (next_unbond_id c + 1) (set_unbonding n ?u (set_stake n r p None ?e c))"
  let ?c2 = "delete_unbonding n (next_unbond_id c) (credit_address thief (se_amount e) ?c1)"
  have 1: "apply_withdraw c thief n r p (se_amount e) h = applied STAKE_OP_GAS ?c1"
    using assms by (simp add: apply_withdraw_def source_stake_stranger Let_def uadd_def)
  have u: "get_unbonding ?c1 n (next_unbond_id c) = Some ?u"
    by (simp add: set_next_unbond_id_def getter_defs set_unbonding_def Let_def)
  have 2: "apply_complete ?c1 thief n (next_unbond_id c) (h + UNBONDING_PERIOD_BLOCKS) =
      applied STAKE_OP_GAS ?c2"
    using complete_eq[OF u, of thief "h + UNBONDING_PERIOD_BLOCKS"] by simp
  have "account_or_default ?c2 thief = account_or_default (credit_address thief (se_amount e) c) thief"
    by simp
  with 1 2 show ?thesis by blast
qed

theorem own_stake_unprotected_witness:
  "\<exists>c1 c2. apply_withdraw demo_staked 3 7 Validator None 4 10 = applied STAKE_OP_GAS c1 \<and>
    apply_complete c1 3 7 0 (10 + UNBONDING_PERIOD_BLOCKS) = applied STAKE_OP_GAS c2"
  using own_stake_unprotected[of demo_staked 7 Validator None 3 _ 10]
  by (auto simp: UNBONDING_PERIOD_BLOCKS_def)

section \<open>Receipt trees\<close>

text \<open>The proof generated for a leaf of a tree verifies against the tree's root.\<close>

theorem merkle_proof_verifies:
  assumes "merkle_new H leaves = Ok tree" and "merkle_prove tree i = Ok pf"
  shows "verify_proof H (merkle_root tree) (leaves ! i) pf = Ok ()"
  by (rule merkle_complete[OF assms])

lemma demo_tree:
  "merkle_new H [[1], [2]] = Ok [[hash_leaf H [1], hash_leaf H [2]],
     [hash_node H (hash_leaf H [1]) (hash_leaf H [2])]]"
  by (simp add: merkle_new_def build_layers.simps)

theorem merkle_proof_verifies_witness:
  "\<exists>tree pf. merkle_new (x_sha256 demo_ext) [[1], [2]] = Ok tree \<and> merkle_prove tree 1 = Ok pf \<and>
     verify_proof (x_sha256 demo_ext) (merkle_root tree) [2] pf = Ok ()"
proof -
  let ?H = "x_sha256 demo_ext"
  let ?t = "[[hash_leaf ?H [1], hash_leaf ?H [2]], [hash_node ?H (hash_leaf ?H [1]) (hash_leaf ?H [2])]]"
  obtain pf where pf: "merkle_prove ?t 1 = Ok pf" by (simp add: merkle_prove_def leaf_count_def)
  show ?thesis using demo_tree[of ?H] pf merkle_proof_verifies[OF demo_tree pf] by auto
qed

text \<open>Whatever leaf count and siblings a proof claims, if it verifies against the root of a
  tree, its leaf is one of the tree's leaves, unless two of the strings hashed along the way
  collide.\<close>

theorem verified_leaf_is_member:
  assumes "merkle_new H leaves = Ok tree" and "verify_proof H (merkle_root tree) leaf pf = Ok ()"
    and "inj_on H (set (tree_inputs H leaves) \<union> set (proof_inputs H leaf pf))"
  shows "leaf \<in> set leaves"
  by (rule merkle_sound[OF assms])

theorem verified_leaf_is_member_witness:
  "\<exists>H pf. verify_proof H (merkle_root [[H (leaf_input [5])]]) [5] pf = Ok () \<and> [5] \<in> set [[5 :: byte]]"
proof -
  let ?H = "\<lambda>bs. word_rcat bs :: hash256"
  let ?pf = "\<lparr>mp_leaf_index = 0, mp_leaf_count = 1, mp_siblings = []\<rparr>"
  have new: "merkle_new ?H [[5]] = Ok [[?H (leaf_input [5])]]"
    by (simp add: merkle_new_def build_layers.simps hash_leaf_def)
  have ver: "verify_proof ?H (merkle_root [[?H (leaf_input [5])]]) [5] ?pf = Ok ()"
    by (simp add: verify_proof_def merkle_root_def hash_leaf_def)
  have "inj_on ?H (set (tree_inputs ?H [[5]]) \<union> set (proof_inputs ?H [5] ?pf))"
    by (simp add: tree_inputs_def proof_inputs_def build_layers.simps)
  from verified_leaf_is_member[OF new ver this] ver show ?thesis by blast
qed

section \<open>Transactions\<close>


lemma demo_transfer:
  "\<exists>c'. apply_transfer (demo_ctx [(1, demo_acct 30000)]) 1 2 500 0 21000 = Ok (c', TxApplied 21000)"
  by (simp add: apply_transfer_def BASE_TRANSFER_GAS_def sat_mul_def umax_def checked_add_def uadd_def
      Let_def)


text \<open>C7: once a transfer or an escrow lock has been applied, it is never applied again in the
  block, whatever transactions come between.\<close>

theorem applied_once:
  assumes "stx_tx stx = Transfer from to amount n fee \<or> stx_tx stx = EscrowLock from j amount n fee"
    and "apply_tx X c stx = Ok (c1, TxApplied g)" and "reaches X c1 c2"
  shows "apply_tx X c2 stx \<noteq> Ok (c3, TxApplied g')"
  by (rule no_replay[OF assms])

theorem applied_once_witness:
  "\<exists>c1. apply_tx demo_ext (demo_ctx [(1, demo_acct 60000)]) (demo_stx (Transfer 1 2 500 0 21000)) =
      Ok (c1, TxApplied 21000) \<and>
    apply_tx demo_ext c1 (demo_stx (Transfer 1 2 500 0 21000)) \<noteq> Ok (c1, TxApplied 21000)"
proof -
  obtain c1 where c1: "apply_tx demo_ext (demo_ctx [(1, demo_acct 60000)])
      (demo_stx (Transfer 1 2 500 0 21000)) = Ok (c1, TxApplied 21000)"
    by (simp add: apply_tx_def apply_transfer_def BASE_TRANSFER_GAS_def sat_mul_def umax_def
        checked_add_def uadd_def Let_def)
  show ?thesis using c1 applied_once[OF _ c1 reaches.start] by auto
qed

text \<open>A transaction that is not a receipt batch and is rejected leaves the block context
  exactly as it was.\<close>

theorem rejection_changes_nothing:
  assumes "apply_tx X c stx = Ok (c', TxRejected why)" and "\<nexists>b. stx_tx stx = ReceiptBatchTx b"
  shows "c' = c"
  by (rule apply_tx_rejected[OF assms])

theorem rejection_changes_nothing_witness:
  "\<exists>why. apply_tx demo_ext (demo_ctx []) (demo_stx (Transfer 1 2 500 0 21000)) =
    Ok (demo_ctx [], TxRejected why)"
proof -
  obtain c' why where c': "apply_tx demo_ext (demo_ctx []) (demo_stx (Transfer 1 2 500 0 21000)) =
      Ok (c', TxRejected why)"
    by (simp add: apply_tx_def apply_transfer_def BASE_TRANSFER_GAS_def sat_mul_def umax_def
        checked_add_def Let_def)
  show ?thesis using c' rejection_changes_nothing[OF c'] by simp
qed

text \<open>C1: In a context that has written no escrow earlier in the block, whose stakes and unbondings are well
  formed and whose held value fits 128 bits, no transaction of the wire types but a reward mint increases what
  accounts, stakes, unbondings and locked escrows hold together, and a reward mint increases it by at most
  the amount it names. The condition on the escrows is needed: escrows have no overlay, so a second
  settlement of one escrow in a block would pay again.\<close>

theorem only_mints_create_value:
  assumes "coherent c" "staking_wf (view c)" "escrows_fresh c" "held_value (view c) < 2 ^ 128"
    and "tx_typed (stx_tx stx)" and "apply_tx X c stx = Ok (c', out)"
  shows "total_supply (view c') \<le> total_supply (view c) + minted_by (stx_tx stx)"
  by (rule apply_tx_supply[OF assms])

theorem only_mints_create_value_witness:
  "\<exists>c'. apply_tx demo_ext (demo_ctx [(1, demo_acct 30000)]) (demo_stx (Transfer 1 2 500 0 21000)) =
      Ok (c', TxApplied 21000) \<and> total_supply (view c') \<le> 30000"
proof -
  obtain c' where c': "apply_tx demo_ext (demo_ctx [(1, demo_acct 30000)])
      (demo_stx (Transfer 1 2 500 0 21000)) = Ok (c', TxApplied 21000)"
    using demo_transfer by (auto simp: apply_tx_def)
  have held: "held_value (view (demo_ctx [(1, demo_acct 30000)])) = 30000"
    by (simp only: demo_ctx_reads demo_held demo_one)
  have esc: "escrow_locked (view (demo_ctx [(1, demo_acct 30000)])) = 0"
    by (simp add: escrow_locked_def)
  have typed: "tx_typed (stx_tx (demo_stx (Transfer 1 2 500 0 21000)))" by simp
  show ?thesis
    using only_mints_create_value[OF coherent_demo _ demo_fresh _ typed c'] c' held esc
    by (simp add: total_supply_def)
qed

text \<open>A receipt batch that is applied holds distinct jobs, none of them anchored before, and
  anchors exactly these; from then on no batch with one of these jobs is applied in the block.\<close>

theorem receipts_anchor_once:
  assumes "apply_receipt_batch X c b h = Ok (c1, TxApplied g)" and "reaches X c1 c2"
    and "r \<in> set (rb_receipts b)" and "r' \<in> set (rb_receipts b')" and "ir_job_id r' = ir_job_id r"
  shows "distinct (map ir_job_id (rb_receipts b)) \<and> \<not> is_receipt_seen c (ir_job_id r) \<and>
    (\<forall>j. is_receipt_seen c1 j \<longleftrightarrow> is_receipt_seen c j \<or> j \<in> ir_job_id ` set (rb_receipts b)) \<and>
    apply_receipt_batch X c2 b' h' \<noteq> Ok (c3, TxApplied g')"
proof -
  have a: "distinct (map ir_job_id (rb_receipts b)) \<and> \<not> is_receipt_seen c (ir_job_id r) \<and>
    (\<forall>j. is_receipt_seen c1 j \<longleftrightarrow> is_receipt_seen c j \<or> j \<in> ir_job_id ` set (rb_receipts b))"
    using receipt_batch_applied[OF assms(1)] assms(3) by blast
  then have "is_receipt_seen c1 (ir_job_id r)" using assms(3) by blast
  then have "is_receipt_seen c2 (ir_job_id r')"
    using reaches_evolves[OF assms(2)] assms(5) by (simp add: evolves_def)
  with a receipt_batch_seen_rejected[OF assms(4)] show ?thesis by blast
qed

definition demo_receipt :: "job_id \<Rightarrow> inference_receipt" where
  "demo_receipt j = \<lparr>ir_job_id = j, ir_pool_id = 0, ir_model_id = [], ir_model_hash = 0,
     ir_quantization = F16, ir_user_address = 0, ir_router_node = 0, ir_compute_node = 0,
     ir_backup_node = None, ir_input_hash = 0, ir_output_hash = 0, ir_da_reference = None,
     ir_input_token_count = 0, ir_output_token_count = 0, ir_latency_ms = 0, ir_total_time_ms = 0,
     ir_seed = 0, ir_compute_proof = HashChain [], ir_tee_attestation = None,
     ir_verification_tier = Optimistic, ir_prompt_encrypted = False, ir_timestamp_start = 0,
     ir_timestamp_end = 0, ir_compute_signature = demo_sig, ir_user_signature = demo_sig\<rparr>"

lemma demo_receipt_job [simp]: "ir_job_id (demo_receipt j) = j"
  by (simp add: demo_receipt_def)

definition demo_batch :: "job_id list \<Rightarrow> receipt_batch" where
  "demo_batch js = \<lparr>rb_batch_id = 0, rb_receipts = map demo_receipt js,
     rb_merkle_root = merkle_root (build_layers (x_sha256 demo_ext)
       (map (hash_leaf (x_sha256 demo_ext)) (map (receipt_leaf demo_ext) (map demo_receipt js)))),
     rb_aggregator = 0, rb_signature = demo_sig\<rparr>"

lemma demo_batch_simps [simp]:
  "rb_receipts (demo_batch js) = map demo_receipt js"
  "js \<noteq> [] \<Longrightarrow> merkle_new (x_sha256 demo_ext) (map (receipt_leaf demo_ext) (map demo_receipt js)) =
     Ok (build_layers (x_sha256 demo_ext)
       (map (hash_leaf (x_sha256 demo_ext)) (map (receipt_leaf demo_ext) (map demo_receipt js))))"
  by (simp_all add: demo_batch_def merkle_new_def)

theorem receipts_anchor_once_witness:
  "\<exists>c1. apply_receipt_batch demo_ext (demo_ctx []) (demo_batch [3]) 0 = Ok (c1, TxApplied 20000) \<and>
    apply_receipt_batch demo_ext c1 (demo_batch [3]) 1 \<noteq> Ok (c1, TxApplied 20000)"
proof -
  obtain c1 where c1: "apply_receipt_batch demo_ext (demo_ctx []) (demo_batch [3]) 0 =
      Ok (c1, TxApplied 20000)"
    using demo_batch_simps(2)[of "[3]"]
    by (simp add: apply_receipt_batch_def demo_batch_def sat_mul_def umax_def
        RECEIPT_ANCHOR_GAS_PER_RECEIPT_def Let_def)
  show ?thesis
    using c1 receipts_anchor_once[OF c1 reaches.start, of "demo_receipt 3" "demo_receipt 3"] by simp
qed

section \<open>What transactions of one block do not see\<close>

text \<open>The same locked escrow can be settled twice in one block: the second settlement reads
  the committed escrow, which is still locked, and pays the split again, so a block creates value.\<close>

theorem escrow_settles_twice_in_block:
  assumes "coherent c" "get_escrow c j = Some e" "es_state e = Locked" "es_amount e * 80 < 2 ^ 128"
    and "total_balance (cf_accounts (view c)) + 2 * es_amount e < 2 ^ 128"
  shows "\<exists>c1 c2. apply_escrow_settle c j ca va ra ta h = applied ESCROW_SETTLE_GAS c1 \<and>
    apply_escrow_settle c1 j ca va ra ta h = applied ESCROW_SETTLE_GAS c2 \<and>
    total_balance (cf_accounts (view c2)) + 2 * (es_amount e * 3 div 100) =
      total_balance (cf_accounts (view c)) + 2 * es_amount e"
  by (rule settle_twice[OF assms])

definition demo_escrow :: escrow_entry where
  "demo_escrow = \<lparr>es_job_id = 4, es_user = 1, es_amount = 100, es_created_at = 0, es_state = Locked\<rparr>"

definition demo_escrow_ctx :: block_ctx where
  "demo_escrow_ctx = begin_block (state_open (demo_db []\<lparr>cf_escrows := kv_put 4 demo_escrow kv_empty\<rparr>))"

lemma demo_escrow_ctx_reads [simp]:
  "coherent demo_escrow_ctx" "get_escrow demo_escrow_ctx 4 = Some demo_escrow"
  "cf_accounts (view demo_escrow_ctx) = kv_empty"
  by (simp_all add: demo_escrow_ctx_def coherent_begin_block state_ok_open get_escrow_def)

theorem escrow_settles_twice_in_block_witness:
  "\<exists>c1 c2. apply_escrow_settle demo_escrow_ctx 4 1 2 3 9 5 = applied ESCROW_SETTLE_GAS c1 \<and>
    apply_escrow_settle c1 4 1 2 3 9 5 = applied ESCROW_SETTLE_GAS c2 \<and>
    total_balance (cf_accounts (view c2)) = 194"
proof -
  have t: "total_balance kv_empty = 0" by (simp add: total_balance_def)
  show ?thesis
    using escrow_settles_twice_in_block[of demo_escrow_ctx 4 demo_escrow 1 2 3 9 5]
    by (auto simp: demo_escrow_def t)
qed

text \<open>Two governance proposals of one block get the same id: both deposits are taken, the
  second record replaces the first, and the counter moves by one.\<close>

theorem proposals_share_id_in_block:
  assumes "apply_gov_proposal X c pk p h = applied g c1" and "apply_gov_proposal X c1 pk' p' h = applied g' c2"
    and "i = st_next_proposal_id (ctx_state c)"
  shows "kv_get (cf_proposals (view c1)) i =
      Some \<lparr>prr_proposal = p, prr_phase = Discussion, prr_submitted_at = h\<rparr> \<and>
    kv_get (cf_proposals (view c2)) i =
      Some \<lparr>prr_proposal = p', prr_phase = Discussion, prr_submitted_at = h\<rparr> \<and>
    meta_next_proposal_id (view c2) = Some (i + 1)"
  using proposals_same_id[OF assms(1,2)] unfolding assms(3) by blast

definition demo_proposal :: "timestamp \<Rightarrow> proposal" where
  "demo_proposal t = \<lparr>pr_proposal_id = 0, pr_proposer = 1, pr_deposit = PROPOSAL_DEPOSIT,
     pr_title = [], pr_body = [], pr_discussion_ends = t, pr_voting_ends = t, pr_activation = None\<rparr>"

theorem proposals_share_id_in_block_witness:
  "\<exists>c1 c2. apply_gov_proposal demo_ext
      (demo_ctx [(derive_address_from_signer demo_ext demo_key, demo_acct (2 * PROPOSAL_DEPOSIT))])
      demo_key (demo_proposal 1) 0 = applied GOV_PROPOSAL_GAS c1 \<and>
    apply_gov_proposal demo_ext c1 demo_key (demo_proposal 2) 0 = applied GOV_PROPOSAL_GAS c2 \<and>
    kv_get (cf_proposals (view c2)) 0 =
      Some \<lparr>prr_proposal = demo_proposal 2, prr_phase = Discussion, prr_submitted_at = 0\<rparr>"
proof -
  let ?a = "derive_address_from_signer demo_ext demo_key"
  let ?c = "demo_ctx [(?a, demo_acct (2 * PROPOSAL_DEPOSIT))]"
  obtain c1 where c1: "apply_gov_proposal demo_ext ?c demo_key (demo_proposal 1) 0 =
      applied GOV_PROPOSAL_GAS c1" and acct: "balance (account_or_default c1 ?a) = PROPOSAL_DEPOSIT"
    and st: "ctx_state c1 = ctx_state ?c"
    by (simp add: apply_gov_proposal_def demo_proposal_def uadd_def Let_def)
  obtain c2 where c2: "apply_gov_proposal demo_ext c1 demo_key (demo_proposal 2) 0 =
      applied GOV_PROPOSAL_GAS c2"
    using acct st by (simp add: apply_gov_proposal_def demo_proposal_def uadd_def Let_def)
  show ?thesis using c1 c2 proposals_share_id_in_block[OF c1 c2 refl] by auto
qed

text \<open>A receipt batch rejected because a later job was already anchored leaves its earlier
  jobs marked as anchored, although their receipts were not accepted.\<close>

theorem rejected_batch_leaves_marks:
  assumes "rb_receipts b = r # rs" and "\<not> is_receipt_seen c (ir_job_id r)"
    and "\<exists>r' \<in> set rs. is_receipt_seen c (ir_job_id r')"
    and "merkle_new (x_sha256 X) (map (receipt_leaf X) (rb_receipts b)) = Ok tree"
    and "merkle_root tree = rb_merkle_root b"
  shows "\<exists>why c'. apply_receipt_batch X c b h = rejected why c' \<and> is_receipt_seen c' (ir_job_id r)"
  using rejected_batch_marks[OF assms, of h] by blast

theorem rejected_batch_leaves_marks_witness:
  "\<exists>why c'. apply_receipt_batch demo_ext (mark_receipt_seen 4 0 (demo_ctx [])) (demo_batch [3, 4]) 1 =
    rejected why c' \<and> is_receipt_seen c' 3"
  using rejected_batch_leaves_marks[of "demo_batch [3, 4]" "demo_receipt 3" "[demo_receipt 4]"
      "mark_receipt_seen 4 0 (demo_ctx [])" demo_ext _ 1] demo_batch_simps(2)[of "[3, 4]"]
  by (simp add: demo_batch_def)

text \<open>No handler reads the signature, and except for stake operations and proposals none reads
  the signer's key: whoever submits a transfer, an escrow lock or a vote, the account it names pays.\<close>

theorem signer_is_not_checked:
  assumes "\<not> uses_signer (stx_tx stx)"
  shows "apply_tx X c (stx\<lparr>stx_signer := pk, stx_signature := sg\<rparr>) = apply_tx X c stx"
  by (rule apply_tx_unsigned[OF assms])

theorem signer_is_not_checked_witness:
  "\<exists>c'. apply_tx demo_ext (demo_ctx [(1, demo_acct 30000)])
      ((demo_stx (Transfer 1 2 500 0 21000))\<lparr>stx_signer := \<lparr>pk_scheme = Ed25519, pk_bytes = [1]\<rparr>,
        stx_signature := demo_sig\<rparr>) =
    Ok (c', TxApplied 21000)"
  using signer_is_not_checked[of "demo_stx (Transfer 1 2 500 0 21000)" demo_ext] demo_transfer
  by (simp add: apply_tx_def)

end
