(* ===== verification/Slashing.thy ===== *)
theory Slashing
  imports LedgerProperties
begin

text \<open>
  Slashing, \<^verbatim>\<open>crates/staking/src/slashing.rs\<close>: a percentage of every stake entry and of every
  unfinished unbonding of a node and role is drained, and the drained total is split between burn,
  reporter and treasury. The entries are read from the committed state and written to the block.
  The lemmas give the effect of a slash on a context whose staking columns the block has not
  touched, and what a second slash of the same block does.
\<close>

section \<open>Penalties\<close>

definition BURN_PERCENT :: amount where "BURN_PERCENT = 90"

definition REPORTER_PERCENT :: amount where "REPORTER_PERCENT = 5"

definition TREASURY_PERCENT :: amount where "TREASURY_PERCENT = 5"

datatype offense =
  WrongModelHash | DoubleClaimReceipt | VerifierComputeCollusion | DataLeak
| FailedDeterministicVerification | RouterPreferentialRouting | CensoringMints | RepeatedTimeouts
| ExtendedDowntime | FalseDispute | FakeTeeAttestation

fun penalty_percent :: "offense \<Rightarrow> amount" where
  "penalty_percent WrongModelHash = 100"
| "penalty_percent DoubleClaimReceipt = 100"
| "penalty_percent VerifierComputeCollusion = 100"
| "penalty_percent DataLeak = 100"
| "penalty_percent FailedDeterministicVerification = 5"
| "penalty_percent RouterPreferentialRouting = 5"
| "penalty_percent CensoringMints = 10"
| "penalty_percent RepeatedTimeouts = 2"
| "penalty_percent ExtendedDowntime = 1"
| "penalty_percent FalseDispute = 10"
| "penalty_percent FakeTeeAttestation = 100"

record slash_report =
  sr_total_slashed :: amount
  sr_burned :: amount
  sr_to_reporter :: amount
  sr_to_treasury :: amount
  sr_entries_affected :: nat

section \<open>The slash\<close>

text \<open>The loop state: the context, the total drained, the entries affected.\<close>

type_synonym slash_acc = "block_ctx \<times> amount \<times> nat"

definition slash_stake :: "amount \<Rightarrow> stake_entry \<Rightarrow> slash_acc \<Rightarrow> (chain_error, slash_acc) result" where
  "slash_stake percent entry acc =
     (case acc of (c, total_amount, affected) \<Rightarrow>
       rbind (umul 128 (se_amount entry) percent) (\<lambda>scaled.
       let slash = scaled div 100
       in if slash = 0 then Ok acc
          else let entry' = entry\<lparr>se_amount := se_amount entry - slash\<rparr>
          in Ok (set_stake (se_node_id entry) (se_role entry) (se_pool_id entry) (se_delegator entry)
                   entry' c,
                 sat_add 128 total_amount slash, affected + 1)))"

definition slash_unbonding ::
    "node_id \<Rightarrow> stake_role \<Rightarrow> height \<Rightarrow> amount \<Rightarrow> unbonding_entry \<Rightarrow> slash_acc \<Rightarrow>
     (chain_error, slash_acc) result" where
  "slash_unbonding node_id role height percent un acc =
     (case acc of (c, total_amount, affected) \<Rightarrow>
       if un_role un \<noteq> role then Ok acc
       else if un_completes_at un \<le> height then Ok acc
       else rbind (umul 128 (un_amount un) percent) (\<lambda>scaled.
       let slash = scaled div 100
       in if slash = 0 then Ok acc
          else Ok (set_unbonding node_id (un\<lparr>un_amount := un_amount un - slash\<rparr>) c,
                   sat_add 128 total_amount slash, affected + 1)))"

definition credit_positive :: "address \<Rightarrow> amount \<Rightarrow> block_ctx \<Rightarrow> block_ctx" where
  "credit_positive a x c = (if x > 0 then credit_address a x c else c)"

definition apply_slash ::
    "block_ctx \<Rightarrow> node_id \<Rightarrow> stake_role \<Rightarrow> offense \<Rightarrow> address \<Rightarrow> address \<Rightarrow>
     (chain_error, block_ctx \<times> slash_report) result" where
  "apply_slash c node_id role offense reporter treasury =
     (let percent = penalty_percent offense;
          entries = filter (\<lambda>e. se_role e = role) (iter_stakes_for_node (ctx_state c) node_id)
      in rbind (rfold (slash_stake percent) entries (c, 0, 0)) (\<lambda>acc1.
      let height = (case st_current_height (ctx_state c) of Some h \<Rightarrow> h | None \<Rightarrow> 0);
          pending = iter_unbondings_for_node (ctx_state c) node_id
      in rbind (rfold (slash_unbonding node_id role height percent) pending acc1) (\<lambda>acc2.
      case acc2 of (c2, total_amount, affected) \<Rightarrow>
        rbind (umul 128 total_amount BURN_PERCENT) (\<lambda>b. let burned = b div 100 in
        rbind (umul 128 total_amount REPORTER_PERCENT) (\<lambda>r. let to_reporter = r div 100 in
        rbind (uadd 128 burned to_reporter) (\<lambda>br.
        let to_treasury = sat_sub total_amount br;
            c3 = credit_positive reporter to_reporter c2;
            c4 = credit_positive treasury to_treasury c3
        in Ok (c4, \<lparr>sr_total_slashed = total_amount, sr_burned = burned,
                    sr_to_reporter = to_reporter, sr_to_treasury = to_treasury,
                    sr_entries_affected = affected\<rparr>)))))))"

section \<open>The loops\<close>

definition cut :: "amount \<Rightarrow> amount \<Rightarrow> amount" where
  "cut percent x = x * percent div 100"

lemma penalty_le: "penalty_percent o' \<le> 100"
  by (cases o') simp_all

lemma cut_le: "p \<le> 100 \<Longrightarrow> cut p x \<le> x"
proof -
  assume "p \<le> 100"
  then have "x * p div 100 \<le> x * 100 div 100" by (intro div_le_mono mult_le_mono2)
  then show ?thesis by (simp add: cut_def)
qed

lemma cut_0 [simp]: "cut p 0 = 0"
  by (simp add: cut_def)

definition own_key :: "stake_entry \<Rightarrow> bytes" where
  "own_key e = stake_key (se_node_id e) (se_role e) (se_pool_id e) (se_delegator e)"

definition read_own :: "block_ctx \<Rightarrow> stake_entry \<Rightarrow> stake_entry option" where
  "read_own c e = get_stake c (se_node_id e) (se_role e) (se_pool_id e) (se_delegator e)"

definition write_own :: "stake_entry \<Rightarrow> block_ctx \<Rightarrow> block_ctx" where
  "write_own e c = set_stake (se_node_id e) (se_role e) (se_pool_id e) (se_delegator e) e c"

lemma read_write_own:
  "read_own (write_own e c) f =
     (if own_key f = own_key e then if se_amount e = 0 then None else Some e else read_own c f)"
  by (auto simp: read_own_def write_own_def own_key_def stake_key_eq_iff)

lemma stake_amount_write:
  "stake_amount (get_stake (write_own e c) n r pl d) =
     (if stake_key n r pl d = own_key e then se_amount e else stake_amount (get_stake c n r pl d))"
  by (simp add: write_own_def own_key_def stake_key_eq_iff)

lemma slash_stake_eq:
  assumes "se_amount e * p < 2 ^ 128"
  shows "slash_stake p e (c, t, n) =
    (if cut p (se_amount e) = 0 then Ok (c, t, n)
     else Ok (write_own (e\<lparr>se_amount := se_amount e - cut p (se_amount e)\<rparr>) c,
              sat_add 128 t (cut p (se_amount e)), n + 1))"
  using assms by (simp add: slash_stake_def umul_def cut_def write_own_def Let_def)

lemma slash_stake_Ok:
  assumes "slash_stake p e (c, t, n) = Ok acc"
  shows "se_amount e * p < 2 ^ 128"
  using assms by (simp add: slash_stake_def rbind_Ok_iff umul_Ok_iff)

text \<open>What one drained entry does, and what the whole loop does.\<close>

definition drained :: "amount \<Rightarrow> bytes set \<Rightarrow> block_ctx \<Rightarrow> block_ctx \<Rightarrow> bool" where
  "drained p ks c c' \<longleftrightarrow> (\<forall>n r pl d. stake_amount (get_stake c' n r pl d) =
     (let x = stake_amount (get_stake c n r pl d)
      in if stake_key n r pl d \<in> ks then x - cut p x else x))"

definition same_but_stakes :: "block_ctx \<Rightarrow> block_ctx \<Rightarrow> bool" where
  "same_but_stakes c c' \<longleftrightarrow> ctx_state c' = ctx_state c \<and>
     cf_accounts (view c') = cf_accounts (view c) \<and> cf_unbondings (view c') = cf_unbondings (view c) \<and>
     get_unbonding c' = get_unbonding c"

lemma same_but_stakes_write: "same_but_stakes c (write_own e c)"
  by (auto simp: same_but_stakes_def write_own_def fun_eq_iff)

lemma same_but_stakes_trans:
  "same_but_stakes a b \<Longrightarrow> same_but_stakes b c \<Longrightarrow> same_but_stakes a c"
  by (simp add: same_but_stakes_def)

lemma drained_step:
  assumes "get_stake c (se_node_id e) (se_role e) (se_pool_id e) (se_delegator e) = Some e"
    and "own_key e \<notin> ks" and "drained p ks (write_own (e\<lparr>se_amount := se_amount e - cut p (se_amount e)\<rparr>) c) c'"
  shows "drained p (insert (own_key e) ks) c c'"
  unfolding drained_def
proof (intro allI)
  fix n r pl d
  let ?e = "e\<lparr>se_amount := se_amount e - cut p (se_amount e)\<rparr>"
  have key: "own_key ?e = own_key e" by (simp add: own_key_def)
  show "stake_amount (get_stake c' n r pl d) = (let x = stake_amount (get_stake c n r pl d)
      in if stake_key n r pl d \<in> insert (own_key e) ks then x - cut p x else x)"
  proof (cases "stake_key n r pl d = own_key e")
    case True
    then have "get_stake c n r pl d = Some e" using assms(1) by (simp add: own_key_def stake_key_eq_iff)
    with assms(2,3) True key show ?thesis
      unfolding drained_def Let_def stake_amount_write by simp
  next
    case False
    with assms(3) key show ?thesis unfolding drained_def Let_def stake_amount_write by auto
  qed
qed

lemma drained_none:
  assumes "get_stake c (se_node_id e) (se_role e) (se_pool_id e) (se_delegator e) = Some e"
    and "own_key e \<notin> ks" "cut p (se_amount e) = 0" "drained p ks c c'"
  shows "drained p (insert (own_key e) ks) c c'"
  unfolding drained_def
proof (intro allI)
  fix n r pl d
  have "stake_key n r pl d = own_key e \<Longrightarrow> get_stake c n r pl d = Some e"
    using assms(1) by (simp add: own_key_def stake_key_eq_iff)
  then show "stake_amount (get_stake c' n r pl d) = (let x = stake_amount (get_stake c n r pl d)
      in if stake_key n r pl d \<in> insert (own_key e) ks then x - cut p x else x)"
    using assms(2-4) unfolding drained_def Let_def by auto
qed

lemma held_value_write_own:
  assumes "coherent c" "read_own c e = Some e" "x \<le> se_amount e"
  shows "held_value (view (write_own (e\<lparr>se_amount := se_amount e - x\<rparr>) c)) + x = held_value (view c)"
proof -
  have "write_own (e\<lparr>se_amount := se_amount e - x\<rparr>) c =
      set_stake (se_node_id e) (se_role e) (se_pool_id e) (se_delegator e)
        (e\<lparr>se_amount := se_amount e - x\<rparr>) c" by (simp add: write_own_def)
  then show ?thesis
    using held_value_unbond[OF assms(1) assms(2)[unfolded read_own_def] assms(3)] by (simp only:)
qed

lemma coherent_write_own: "coherent c \<Longrightarrow> coherent (write_own e c)"
  by (simp add: write_own_def coherent_set_stake)

lemma slash_stakes_loop:
  assumes "rfold (slash_stake p) es (c, t, n) = Ok (c', t', n')"
    and "coherent c" "p \<le> 100" "t + held_value (view c) < 2 ^ 128"
    and "\<forall>e \<in> set es. read_own c e = Some e" "distinct (map own_key es)"
  shows "coherent c' \<and> t' + held_value (view c') = t + held_value (view c) \<and>
    drained p (own_key ` set es) c c' \<and> same_but_stakes c c'"
  using assms
proof (induction es arbitrary: c t n)
  case Nil
  then show ?case by (simp add: drained_def same_but_stakes_def)
next
  case (Cons e es)
  let ?x = "cut p (se_amount e)"
  let ?e = "e\<lparr>se_amount := se_amount e - ?x\<rparr>"
  from Cons.prems(1) obtain acc where acc: "slash_stake p e (c, t, n) = Ok acc"
    "rfold (slash_stake p) es acc = Ok (c', t', n')" by (auto simp: rbind_Ok_iff)
  have own: "read_own c e = Some e" and notin: "own_key e \<notin> own_key ` set es"
    using Cons.prems(5,6) by auto
  show ?case
  proof (cases "?x = 0")
    case True
    with acc slash_stake_eq[OF slash_stake_Ok[OF acc(1)]]
    have "rfold (slash_stake p) es (c, t, n) = Ok (c', t', n')" by simp
    from Cons.IH[OF this Cons.prems(2-4)] Cons.prems(5,6) have
      ih: "coherent c' \<and> t' + held_value (view c') = t + held_value (view c) \<and>
        drained p (own_key ` set es) c c' \<and> same_but_stakes c c'" by simp
    with drained_none[OF own[unfolded read_own_def] notin True] show ?thesis by simp
  next
    case False
    let ?c1 = "write_own ?e c"
    have v: "held_value (view ?c1) + ?x = held_value (view c)"
      by (rule held_value_write_own[OF Cons.prems(2) own cut_le[OF Cons.prems(3)]])
    have sat: "sat_add 128 t ?x = t + ?x" by (rule sat_add_exact) (use v Cons.prems(4) in linarith)
    have run: "rfold (slash_stake p) es (?c1, t + ?x, n + 1) = Ok (c', t', n')"
      using acc slash_stake_eq[OF slash_stake_Ok[OF acc(1)]] False sat by simp
    have key: "own_key ?e = own_key e" by (simp add: own_key_def)
    have reads: "\<forall>f \<in> set es. read_own ?c1 f = Some f"
    proof
      fix f assume f: "f \<in> set es"
      then have "own_key f \<noteq> own_key e" using notin by (metis image_eqI)
      with f Cons.prems(5) show "read_own ?c1 f = Some f" by (simp add: read_write_own key)
    qed
    have lt: "t + ?x + held_value (view ?c1) < 2 ^ 128" using v Cons.prems(4) by linarith
    from Cons.IH[OF run coherent_write_own[OF Cons.prems(2)] Cons.prems(3) lt reads] Cons.prems(6)
    have ih: "coherent c'" "t' + held_value (view c') = t + ?x + held_value (view ?c1)"
      "drained p (own_key ` set es) ?c1 c'" "same_but_stakes ?c1 c'" by simp_all
    have "drained p (own_key ` set (e # es)) c c'"
      using drained_step[OF own[unfolded read_own_def] notin ih(3)] by simp
    with ih v same_but_stakes_trans[OF same_but_stakes_write ih(4)] show ?thesis by simp
  qed
qed

section \<open>Unbondings\<close>

definition slashable :: "stake_role \<Rightarrow> height \<Rightarrow> unbonding_entry \<Rightarrow> bool" where
  "slashable role h u \<longleftrightarrow> un_role u = role \<and> h < un_completes_at u"

definition drained_unbondings :: "amount \<Rightarrow> bytes set \<Rightarrow> block_ctx \<Rightarrow> block_ctx \<Rightarrow> bool" where
  "drained_unbondings p ks c c' \<longleftrightarrow> (\<forall>n i. unbonding_amount (get_unbonding c' n i) =
     (let x = unbonding_amount (get_unbonding c n i)
      in if unbond_key n i \<in> ks then x - cut p x else x))"

definition same_but_unbondings :: "block_ctx \<Rightarrow> block_ctx \<Rightarrow> bool" where
  "same_but_unbondings c c' \<longleftrightarrow> ctx_state c' = ctx_state c \<and>
     cf_accounts (view c') = cf_accounts (view c) \<and> cf_stakes (view c') = cf_stakes (view c) \<and>
     get_stake c' = get_stake c"

lemma same_but_unbondings_set: "same_but_unbondings c (set_unbonding n u c)"
  by (auto simp: same_but_unbondings_def fun_eq_iff)

lemma same_but_unbondings_trans:
  "same_but_unbondings a b \<Longrightarrow> same_but_unbondings b c \<Longrightarrow> same_but_unbondings a c"
  by (simp add: same_but_unbondings_def)

lemma slash_unbonding_eq:
  assumes "slashable role h u \<Longrightarrow> un_amount u * p < 2 ^ 128"
  shows "slash_unbonding n role h p u (c, t, k) =
    (if \<not> slashable role h u \<or> cut p (un_amount u) = 0 then Ok (c, t, k)
     else Ok (set_unbonding n (u\<lparr>un_amount := un_amount u - cut p (un_amount u)\<rparr>) c,
              sat_add 128 t (cut p (un_amount u)), k + 1))"
  using assms by (auto simp: slash_unbonding_def slashable_def umul_def cut_def Let_def)

lemma slash_unbonding_Ok:
  "slash_unbonding n role h p u (c, t, k) = Ok acc \<Longrightarrow> slashable role h u \<Longrightarrow> un_amount u * p < 2 ^ 128"
  by (simp add: slash_unbonding_def slashable_def rbind_Ok_iff umul_Ok_iff)

lemma held_value_cut_unbonding:
  assumes "coherent c" "get_unbonding c n (un_unbond_id u) = Some u" "x \<le> un_amount u"
  shows "held_value (view (set_unbonding n (u\<lparr>un_amount := un_amount u - x\<rparr>) c)) + x = held_value (view c)"
proof -
  have "un_amount u \<le> unbonding_total (cf_unbondings (view c))"
    using unbonding_total_delete[OF assms(1), of n "un_unbond_id u"] assms(2) by simp
  then show ?thesis
    using unbonding_total_set[OF assms(1), of n "u\<lparr>un_amount := un_amount u - x\<rparr>"] assms(2,3)
    by (simp add: held_value_def)
qed

lemma slash_unbondings_loop:
  assumes "rfold (slash_unbonding n role h p) us (c, t, k) = Ok (c', t', k')"
    and "coherent c" "p \<le> 100" "t + held_value (view c) < 2 ^ 128"
    and "\<forall>u \<in> set us. get_unbonding c n (un_unbond_id u) = Some u"
    and "distinct (map (\<lambda>u. unbond_key n (un_unbond_id u)) us)"
  shows "coherent c' \<and> t' + held_value (view c') = t + held_value (view c) \<and>
    drained_unbondings p ((\<lambda>u. unbond_key n (un_unbond_id u)) ` {u \<in> set us. slashable role h u}) c c' \<and>
    same_but_unbondings c c'"
  using assms
proof (induction us arbitrary: c t k)
  case Nil
  then show ?case by (simp add: drained_unbondings_def same_but_unbondings_def)
next
  case (Cons u us)
  let ?key = "\<lambda>u. unbond_key n (un_unbond_id u)"
  let ?ks = "?key ` {u \<in> set us. slashable role h u}"
  let ?x = "cut p (un_amount u)"
  let ?u = "u\<lparr>un_amount := un_amount u - ?x\<rparr>"
  from Cons.prems(1) obtain acc where acc: "slash_unbonding n role h p u (c, t, k) = Ok acc"
    "rfold (slash_unbonding n role h p) us acc = Ok (c', t', k')" by (auto simp: rbind_Ok_iff)
  have eq: "slash_unbonding n role h p u (c, t, k) =
    (if \<not> slashable role h u \<or> ?x = 0 then Ok (c, t, k)
     else Ok (set_unbonding n ?u c, sat_add 128 t ?x, k + 1))"
    by (rule slash_unbonding_eq[OF slash_unbonding_Ok[OF acc(1)]])
  have own: "get_unbonding c n (un_unbond_id u) = Some u" and notin: "?key u \<notin> ?key ` set us"
    using Cons.prems(5,6) by auto
  then have notin': "?key u \<notin> ?ks" by blast
  have at_key: "get_unbonding c m i = Some u" if "unbond_key m i = ?key u" for m i
    using own that by (simp add: coherent_unbonding[OF Cons.prems(2)])
  show ?case
  proof (cases "\<not> slashable role h u \<or> ?x = 0")
    case True
    with acc eq have "rfold (slash_unbonding n role h p) us (c, t, k) = Ok (c', t', k')" by simp
    from Cons.IH[OF this Cons.prems(2-4)] Cons.prems(5,6)
    have ih: "coherent c' \<and> t' + held_value (view c') = t + held_value (view c) \<and>
      drained_unbondings p ?ks c c' \<and> same_but_unbondings c c'" by simp
    have "drained_unbondings p (?key ` {v \<in> set (u # us). slashable role h v}) c c'"
    proof (cases "slashable role h u")
      case False
      then have "{v \<in> set (u # us). slashable role h v} = {v \<in> set us. slashable role h v}" by auto
      with ih show ?thesis by simp
    next
      case sl: True
      then have set: "?key ` {v \<in> set (u # us). slashable role h v} = insert (?key u) ?ks" by auto
      show ?thesis
        unfolding set drained_unbondings_def Let_def
      proof (intro allI)
        fix m i
        have "unbonding_amount (get_unbonding c' m i) = (let x = unbonding_amount (get_unbonding c m i)
            in if unbond_key m i \<in> ?ks then x - cut p x else x)"
          using ih unfolding drained_unbondings_def by blast
        then show "unbonding_amount (get_unbonding c' m i) =
            (if unbond_key m i \<in> insert (?key u) ?ks
             then unbonding_amount (get_unbonding c m i) - cut p (unbonding_amount (get_unbonding c m i))
             else unbonding_amount (get_unbonding c m i))"
          using at_key[of m i] notin' True sl by (auto simp: Let_def)
      qed
    qed
    with ih show ?thesis by blast
  next
    case False
    let ?c1 = "set_unbonding n ?u c"
    have v: "held_value (view ?c1) + ?x = held_value (view c)"
      by (rule held_value_cut_unbonding[OF Cons.prems(2) own cut_le[OF Cons.prems(3)]])
    have sat: "sat_add 128 t ?x = t + ?x" by (rule sat_add_exact) (use v Cons.prems(4) in linarith)
    have run: "rfold (slash_unbonding n role h p) us (?c1, t + ?x, k + 1) = Ok (c', t', k')"
      using acc eq False sat by simp
    have reads: "\<forall>w \<in> set us. get_unbonding ?c1 n (un_unbond_id w) = Some w"
    proof
      fix w assume w: "w \<in> set us"
      then have "?key w \<noteq> ?key u" using notin by (metis image_eqI)
      with w Cons.prems(5) show "get_unbonding ?c1 n (un_unbond_id w) = Some w" by simp
    qed
    have lt: "t + ?x + held_value (view ?c1) < 2 ^ 128" using v Cons.prems(4) by linarith
    from Cons.IH[OF run coherent_set_unbonding[OF Cons.prems(2)] Cons.prems(3) lt reads] Cons.prems(6)
    have ih: "coherent c'" "t' + held_value (view c') = t + ?x + held_value (view ?c1)"
      "drained_unbondings p ?ks ?c1 c'" "same_but_unbondings ?c1 c'" by simp_all
    have set: "?key ` {v \<in> set (u # us). slashable role h v} = insert (?key u) ?ks"
      using False by auto
    have "drained_unbondings p (insert (?key u) ?ks) c c'"
      unfolding drained_unbondings_def Let_def
    proof (intro allI)
      fix m i
      have "unbonding_amount (get_unbonding c' m i) = (let x = unbonding_amount (get_unbonding ?c1 m i)
          in if unbond_key m i \<in> ?ks then x - cut p x else x)"
        using ih(3) unfolding drained_unbondings_def by blast
      then show "unbonding_amount (get_unbonding c' m i) =
          (if unbond_key m i \<in> insert (?key u) ?ks
           then unbonding_amount (get_unbonding c m i) - cut p (unbonding_amount (get_unbonding c m i))
           else unbonding_amount (get_unbonding c m i))"
        using at_key[of m i] notin' by (auto simp: Let_def)
    qed
    with ih v set same_but_unbondings_trans[OF same_but_unbondings_set ih(4)] show ?thesis by simp
  qed
qed

section \<open>The node iterators\<close>

lemma entries_where:
  "v \<in> set (map snd (filter (\<lambda>x. P (fst x)) (kv_entries m))) \<longleftrightarrow> (\<exists>k. kv_get m k = Some v \<and> P k)"
proof
  assume "v \<in> set (map snd (filter (\<lambda>x. P (fst x)) (kv_entries m)))"
  then obtain k where "(k, v) \<in> set (kv_entries m)" "P k" by auto
  then show "\<exists>k. kv_get m k = Some v \<and> P k" by (auto simp: kv.mem_entries)
next
  assume "\<exists>k. kv_get m k = Some v \<and> P k"
  then obtain k where "(k, v) \<in> set (kv_entries m)" "P k" by (auto simp: kv.mem_entries)
  then show "v \<in> set (map snd (filter (\<lambda>x. P (fst x)) (kv_entries m)))" by force
qed

lemma entry_read:
  "x \<in> set (filter (\<lambda>x. P (fst x)) (kv_entries m)) \<Longrightarrow> kv_get m (fst x) = Some (snd x) \<and> P (fst x)"
  by (cases x) (auto simp: kv.mem_entries)

lemma iter_stakes_filter:
  "iter_stakes_for_node s n =
     map snd (filter (\<lambda>x. starts_with (word_bytes n) (fst x)) (kv_entries (cf_stakes (st_db s))))"
  unfolding iter_stakes_for_node_def using scan_prefix_filter[OF kv.entries_ordered] by metis

lemma iter_unbondings_filter:
  "iter_unbondings_for_node s n =
     map snd (filter (\<lambda>x. starts_with (word_bytes n) (fst x)) (kv_entries (cf_unbondings (st_db s))))"
  unfolding iter_unbondings_for_node_def using scan_prefix_filter[OF kv.entries_ordered] by metis

text \<open>The scan for a node lists exactly the node's entries, each once.\<close>

lemma iter_stakes_set:
  assumes "stakes_wf (st_db s)"
  shows "e \<in> set (iter_stakes_for_node s n) \<longleftrightarrow>
    kv_get (cf_stakes (st_db s)) (own_key e) = Some e \<and> se_node_id e = n"
proof -
  have key: "kv_get (cf_stakes (st_db s)) k = Some e \<Longrightarrow> k = own_key e" for k
    using assms by (simp add: stakes_wf_def own_key_def)
  have "e \<in> set (iter_stakes_for_node s n) \<longleftrightarrow>
      (\<exists>k. kv_get (cf_stakes (st_db s)) k = Some e \<and> starts_with (word_bytes n) k)"
    unfolding iter_stakes_filter by (rule entries_where)
  also have "\<dots> \<longleftrightarrow> kv_get (cf_stakes (st_db s)) (own_key e) = Some e \<and> se_node_id e = n"
    using key starts_with_stake_key[of n "se_node_id e" "se_role e" "se_pool_id e" "se_delegator e"]
    unfolding own_key_def by metis
  finally show ?thesis .
qed

lemma iter_stakes_distinct:
  assumes "stakes_wf (st_db s)"
  shows "distinct (map own_key (iter_stakes_for_node s n))"
proof -
  let ?es = "filter (\<lambda>x. starts_with (word_bytes n) (fst x)) (kv_entries (cf_stakes (st_db s)))"
  have "map own_key (iter_stakes_for_node s n) = map fst ?es"
    using assms by (auto simp: iter_stakes_filter stakes_wf_def own_key_def kv.mem_entries)
  then show ?thesis using kv.distinct_keys[of "cf_stakes (st_db s)"] by (simp add: distinct_map_filter)
qed

lemma iter_unbondings_set:
  assumes "unbondings_wf (st_db s)"
  shows "u \<in> set (iter_unbondings_for_node s n) \<longleftrightarrow>
    kv_get (cf_unbondings (st_db s)) (unbond_key n (un_unbond_id u)) = Some u \<and> un_node_id u = n"
proof -
  have key: "kv_get (cf_unbondings (st_db s)) k = Some u \<Longrightarrow> k = unbond_key (un_node_id u) (un_unbond_id u)"
    for k using assms by (simp add: unbondings_wf_def)
  have "u \<in> set (iter_unbondings_for_node s n) \<longleftrightarrow>
      (\<exists>k. kv_get (cf_unbondings (st_db s)) k = Some u \<and> starts_with (word_bytes n) k)"
    unfolding iter_unbondings_filter by (rule entries_where)
  also have "\<dots> \<longleftrightarrow> kv_get (cf_unbondings (st_db s)) (unbond_key n (un_unbond_id u)) = Some u \<and>
      un_node_id u = n"
    using key starts_with_unbond_key[of n "un_node_id u" "un_unbond_id u"] by metis
  finally show ?thesis .
qed

lemma iter_unbondings_distinct:
  assumes "unbondings_wf (st_db s)"
  shows "distinct (map (\<lambda>u. unbond_key n (un_unbond_id u)) (iter_unbondings_for_node s n))"
proof -
  let ?es = "filter (\<lambda>x. starts_with (word_bytes n) (fst x)) (kv_entries (cf_unbondings (st_db s)))"
  have "unbond_key n (un_unbond_id (snd x)) = fst x" if "x \<in> set ?es" for x
  proof -
    have "kv_get (cf_unbondings (st_db s)) (fst x) = Some (snd x)" "starts_with (word_bytes n) (fst x)"
      using entry_read[OF that] by simp_all
    moreover from this(1) assms have "fst x = unbond_key (un_node_id (snd x)) (un_unbond_id (snd x))"
      by (simp add: unbondings_wf_def)
    ultimately show ?thesis by (simp add: starts_with_unbond_key)
  qed
  then have "map (\<lambda>u. unbond_key n (un_unbond_id u)) (iter_unbondings_for_node s n) = map fst ?es"
    by (simp add: iter_unbondings_filter)
  then show ?thesis using kv.distinct_keys[of "cf_unbondings (st_db s)"] by (simp add: distinct_map_filter)
qed

section \<open>The effect of a slash\<close>

text \<open>The block has not written a stake or an unbonding yet.\<close>

definition staking_fresh :: "block_ctx \<Rightarrow> bool" where
  "staking_fresh c \<longleftrightarrow> cf_stakes (view c) = cf_stakes (st_db (ctx_state c)) \<and>
     cf_unbondings (view c) = cf_unbondings (st_db (ctx_state c)) \<and> staking_wf (st_db (ctx_state c))"

lemma staking_fresh_begin: "staking_wf (st_db s) \<Longrightarrow> staking_fresh (begin_block s)"
  by (simp add: staking_fresh_def)

definition slash_height :: "block_ctx \<Rightarrow> height" where
  "slash_height c = (case st_current_height (ctx_state c) of Some h \<Rightarrow> h | None \<Rightarrow> 0)"

lemma role_entries:
  assumes "staking_fresh c" "coherent c"
    and es_def: "es = filter (\<lambda>e. se_role e = role) (iter_stakes_for_node (ctx_state c) node)"
  shows "\<forall>e \<in> set es. read_own c e = Some e" "distinct (map own_key es)"
    and "stake_key n r pl d \<in> own_key ` set es \<longleftrightarrow>
      n = node \<and> r = role \<and> get_stake c n r pl d \<noteq> None"
proof -
  have wf: "stakes_wf (st_db (ctx_state c))" and st: "cf_stakes (view c) = cf_stakes (st_db (ctx_state c))"
    using assms(1) by (simp_all add: staking_fresh_def staking_wf_def)
  have mem: "e \<in> set es \<longleftrightarrow> read_own c e = Some e \<and> se_node_id e = node \<and> se_role e = role" for e
    by (auto simp: es_def iter_stakes_set[OF wf] read_own_def own_key_def coherent_stake[OF assms(2)] st)
  show "\<forall>e \<in> set es. read_own c e = Some e" using mem by blast
  show "distinct (map own_key es)"
    unfolding es_def using iter_stakes_distinct[OF wf] by (rule distinct_map_filter)
  show "stake_key n r pl d \<in> own_key ` set es \<longleftrightarrow> n = node \<and> r = role \<and> get_stake c n r pl d \<noteq> None"
  proof
    assume "stake_key n r pl d \<in> own_key ` set es"
    then obtain e where "e \<in> set es" "stake_key n r pl d = own_key e" by blast
    then show "n = node \<and> r = role \<and> get_stake c n r pl d \<noteq> None"
      using mem[of e] by (auto simp: own_key_def stake_key_eq_iff read_own_def)
  next
    assume a: "n = node \<and> r = role \<and> get_stake c n r pl d \<noteq> None"
    then obtain e where e: "get_stake c n r pl d = Some e" by blast
    have "stakes_wf (view c)" using wf st by (simp add: stakes_wf_def)
    note f = get_stake_wf[OF assms(2) this e]
    have "e \<in> set es" using mem[of e] f e a by (simp add: read_own_def)
    then show "stake_key n r pl d \<in> own_key ` set es"
      using f by (intro image_eqI[of _ _ e]) (simp_all add: own_key_def)
  qed
qed

lemma node_unbondings:
  assumes "staking_fresh c" "coherent c"
    and us_def: "us = iter_unbondings_for_node (ctx_state c) node"
  shows "\<forall>u \<in> set us. get_unbonding c node (un_unbond_id u) = Some u"
    "distinct (map (\<lambda>u. unbond_key node (un_unbond_id u)) us)"
    and "get_unbonding c n i = Some u \<Longrightarrow>
      unbond_key n i \<in> (\<lambda>u. unbond_key node (un_unbond_id u)) ` {u \<in> set us. P u} \<longleftrightarrow> n = node \<and> P u"
proof -
  have wf: "unbondings_wf (st_db (ctx_state c))"
    and un: "cf_unbondings (view c) = cf_unbondings (st_db (ctx_state c))"
    using assms(1) by (simp_all add: staking_fresh_def staking_wf_def)
  have mem: "u \<in> set us \<longleftrightarrow> get_unbonding c node (un_unbond_id u) = Some u \<and> un_node_id u = node" for u
    by (simp add: us_def iter_unbondings_set[OF wf] coherent_unbonding[OF assms(2)] un)
  show "\<forall>u \<in> set us. get_unbonding c node (un_unbond_id u) = Some u" using mem by blast
  show "distinct (map (\<lambda>u. unbond_key node (un_unbond_id u)) us)"
    unfolding us_def by (rule iter_unbondings_distinct[OF wf])
  assume u: "get_unbonding c n i = Some u"
  then have kv: "kv_get (cf_unbondings (st_db (ctx_state c))) (unbond_key n i) = Some u"
    by (simp add: coherent_unbonding[OF assms(2)] un)
  with wf have key: "unbond_key n i = unbond_key (un_node_id u) (un_unbond_id u)"
    unfolding unbondings_wf_def by blast
  have n: "n = un_node_id u"
    using key starts_with_unbond_key[of n n i] starts_with_unbond_key[of n "un_node_id u" "un_unbond_id u"]
    by metis
  show "unbond_key n i \<in> (\<lambda>u. unbond_key node (un_unbond_id u)) ` {u \<in> set us. P u} \<longleftrightarrow> n = node \<and> P u"
  proof
    assume "unbond_key n i \<in> (\<lambda>u. unbond_key node (un_unbond_id u)) ` {u \<in> set us. P u}"
    then obtain v where v: "v \<in> set us" "P v" "unbond_key n i = unbond_key node (un_unbond_id v)" by blast
    from v(1) mem[of v] have "kv_get (cf_unbondings (view c)) (unbond_key node (un_unbond_id v)) = Some v"
      "un_node_id v = node" by (simp_all add: coherent_unbonding[OF assms(2)])
    with v(3) kv un have "v = u" by simp
    with v(2) \<open>un_node_id v = node\<close> n show "n = node \<and> P u" by simp
  next
    assume a: "n = node \<and> P u"
    have "get_unbonding c node (un_unbond_id u) = Some u"
      using u a n key by (simp add: coherent_unbonding[OF assms(2)])
    then have "u \<in> set us" using mem[of u] a n by simp
    with a n key show "unbond_key n i \<in> (\<lambda>u. unbond_key node (un_unbond_id u)) ` {u \<in> set us. P u}" by auto
  qed
qed

lemma credit_positive_value:
  assumes "coherent c" "held_value (view c) + x < 2 ^ 128"
  shows "held_value (view (credit_positive a x c)) = held_value (view c) + x"
proof -
  have "total_balance (cf_accounts (view c)) + x < 2 ^ 128"
    using assms(2) unfolding held_value_def by linarith
  then show ?thesis using held_value_credit[OF assms(1)] by (simp add: credit_positive_def)
qed

lemma credit_positive_frame [simp]:
  "coherent c \<Longrightarrow> coherent (credit_positive a x c)"
  "get_stake (credit_positive a x c) = get_stake c"
  "get_unbonding (credit_positive a x c) = get_unbonding c"
  "ctx_state (credit_positive a x c) = ctx_state c"
  by (auto simp: credit_positive_def fun_eq_iff intro: coherent_intros)

definition slash_shares :: "slash_report \<Rightarrow> bool" where
  "slash_shares rep \<longleftrightarrow> sr_burned rep + sr_to_reporter rep + sr_to_treasury rep = sr_total_slashed rep"

lemma apply_slash_cases:
  assumes "apply_slash c node role off reporter treasury = Ok (c', rep)"
  obtains c1 t1 k1 c2 t2 k2 where
    "rfold (slash_stake (penalty_percent off))
       (filter (\<lambda>e. se_role e = role) (iter_stakes_for_node (ctx_state c) node)) (c, 0, 0) = Ok (c1, t1, k1)"
    "rfold (slash_unbonding node role (slash_height c) (penalty_percent off))
       (iter_unbondings_for_node (ctx_state c) node) (c1, t1, k1) = Ok (c2, t2, k2)"
    "sr_total_slashed rep = t2" "sr_burned rep = t2 * 90 div 100" "sr_to_reporter rep = t2 * 5 div 100"
    "sr_to_treasury rep = t2 - (t2 * 90 div 100 + t2 * 5 div 100)"
    "c' = credit_positive treasury (sr_to_treasury rep) (credit_positive reporter (sr_to_reporter rep) c2)"
proof -
  from assms obtain c1 t1 k1 where 1: "rfold (slash_stake (penalty_percent off))
      (filter (\<lambda>e. se_role e = role) (iter_stakes_for_node (ctx_state c) node)) (c, 0, 0) = Ok (c1, t1, k1)"
    by (auto simp: apply_slash_def Let_def rbind_Ok_iff)
  with assms obtain c2 t2 k2 where 2: "rfold (slash_unbonding node role (slash_height c) (penalty_percent off))
      (iter_unbondings_for_node (ctx_state c) node) (c1, t1, k1) = Ok (c2, t2, k2)"
    by (auto simp: apply_slash_def Let_def rbind_Ok_iff slash_height_def)
  show thesis
    by (rule that[OF 1 2])
      (use assms 1 2 in \<open>auto simp: apply_slash_def Let_def rbind_Ok_iff slash_height_def umul_Ok_iff
        uadd_Ok_iff BURN_PERCENT_def REPORTER_PERCENT_def sat_sub_def\<close>)
qed

lemma slash_effect:
  assumes slash: "apply_slash c node role off reporter treasury = Ok (c', rep)"
    and c: "coherent c" "staking_fresh c" "held_value (view c) < 2 ^ 128"
  shows "held_value (view c') + sr_burned rep = held_value (view c)" and "slash_shares rep"
    and "coherent c'"
    and "stake_amount (get_stake c' n r pl d) = (let x = stake_amount (get_stake c n r pl d)
      in if n = node \<and> r = role then x - cut (penalty_percent off) x else x)"
    and "unbonding_amount (get_unbonding c' n i) = (case get_unbonding c n i of None \<Rightarrow> 0
      | Some u \<Rightarrow> if n = node \<and> slashable role (slash_height c) u
                  then un_amount u - cut (penalty_percent off) (un_amount u) else un_amount u)"
proof -
  let ?p = "penalty_percent off"
  obtain c1 t1 k1 c2 t2 k2 where run:
    "rfold (slash_stake ?p) (filter (\<lambda>e. se_role e = role) (iter_stakes_for_node (ctx_state c) node))
       (c, 0, 0) = Ok (c1, t1, k1)"
    "rfold (slash_unbonding node role (slash_height c) ?p)
       (iter_unbondings_for_node (ctx_state c) node) (c1, t1, k1) = Ok (c2, t2, k2)"
    and rep: "sr_total_slashed rep = t2" "sr_burned rep = t2 * 90 div 100"
    "sr_to_reporter rep = t2 * 5 div 100" "sr_to_treasury rep = t2 - (t2 * 90 div 100 + t2 * 5 div 100)"
    and c': "c' = credit_positive treasury (sr_to_treasury rep)
      (credit_positive reporter (sr_to_reporter rep) c2)"
    by (rule apply_slash_cases[OF slash])
  have lt0: "0 + held_value (view c) < 2 ^ 128" using c(3) by simp
  from slash_stakes_loop[OF run(1) c(1) penalty_le lt0 role_entries(1,2)[OF c(2,1) refl]]
  have 1: "coherent c1" "t1 + held_value (view c1) = held_value (view c)"
    "drained ?p (own_key ` set (filter (\<lambda>e. se_role e = role) (iter_stakes_for_node (ctx_state c) node))) c c1"
    "same_but_stakes c c1" by simp_all
  have un1: "get_unbonding c1 = get_unbonding c" using 1(4) by (simp add: same_but_stakes_def)
  have lt1: "t1 + held_value (view c1) < 2 ^ 128" using 1(2) c(3) by simp
  have reads: "\<forall>u \<in> set (iter_unbondings_for_node (ctx_state c) node).
      get_unbonding c1 node (un_unbond_id u) = Some u"
    using node_unbondings(1)[OF c(2,1) refl] by (simp add: un1)
  from slash_unbondings_loop[OF run(2) 1(1) penalty_le lt1 reads node_unbondings(2)[OF c(2,1) refl]]
  have 2: "coherent c2" "t2 + held_value (view c2) = held_value (view c)"
    "drained_unbondings ?p ((\<lambda>u. unbond_key node (un_unbond_id u)) `
       {u \<in> set (iter_unbondings_for_node (ctx_state c) node). slashable role (slash_height c) u}) c1 c2"
    "same_but_unbondings c1 c2" using 1(2) by simp_all
  have parts: "t2 * 90 div 100 + t2 * 5 div 100 \<le> t2" by linarith
  then show "slash_shares rep" unfolding slash_shares_def rep by linarith
  have v3: "held_value (view (credit_positive reporter (sr_to_reporter rep) c2)) =
      held_value (view c2) + sr_to_reporter rep"
    by (rule credit_positive_value[OF 2(1)]) (use 2(2) c(3) parts rep(3) in linarith)
  have v4: "held_value (view c') = held_value (view c2) + sr_to_reporter rep + sr_to_treasury rep"
    unfolding c' v3 [symmetric]
    by (rule credit_positive_value) (use 2(1) in simp, use v3 2(2) c(3) parts rep(3,4) in linarith)
  show "held_value (view c') + sr_burned rep = held_value (view c)"
    using v4 2(2) parts rep by linarith
  show "coherent c'" using 2(1) by (simp add: c')
  have "get_stake c' = get_stake c1" using 2(4) by (simp add: c' same_but_unbondings_def)
  then show "stake_amount (get_stake c' n r pl d) = (let x = stake_amount (get_stake c n r pl d)
      in if n = node \<and> r = role then x - cut ?p x else x)"
    using 1(3) role_entries(3)[OF c(2,1) refl, of n r pl d role node]
    by (auto simp: drained_def Let_def)
  have un2: "get_unbonding c' = get_unbonding c2" by (simp add: c')
  show "unbonding_amount (get_unbonding c' n i) = (case get_unbonding c n i of None \<Rightarrow> 0
      | Some u \<Rightarrow> if n = node \<and> slashable role (slash_height c) u
                  then un_amount u - cut ?p (un_amount u) else un_amount u)"
    using 2(3) node_unbondings(3)[OF c(2,1) refl, of n i _ node "slashable role (slash_height c)"]
    by (cases "get_unbonding c n i") (auto simp: drained_unbondings_def un2 un1 Let_def)
qed

section \<open>Reports depend on the committed state only\<close>

lemma slash_stake_indep:
  "slash_stake p e (c, t, n) = Ok (c', t', n') \<Longrightarrow> \<exists>d'. slash_stake p e (d, t, n) = Ok (d', t', n')"
  by (auto simp: slash_stake_def umul_def Let_def split: if_splits)

lemma slash_unbonding_indep:
  "slash_unbonding m r h p u (c, t, n) = Ok (c', t', n') \<Longrightarrow>
   \<exists>d'. slash_unbonding m r h p u (d, t, n) = Ok (d', t', n')"
  by (auto simp: slash_unbonding_def umul_def Let_def split: if_splits)

lemma rfold_indep:
  assumes "\<And>x c t n c' t' n' d. f x (c, t, n) = Ok (c', t', n') \<Longrightarrow> \<exists>d'. f x (d, t, n) = Ok (d', t', n')"
  shows "rfold f xs (c, t, n) = Ok (c', t', n') \<Longrightarrow> \<exists>d'. rfold f xs (d, t, n) = Ok (d', t', n')"
proof (induction xs arbitrary: c d t n)
  case (Cons x xs)
  then obtain c1 t1 n1 where 1: "f x (c, t, n) = Ok (c1, t1, n1)"
    "rfold f xs (c1, t1, n1) = Ok (c', t', n')" by (auto simp: rbind_Ok_iff)
  obtain d1 where "f x (d, t, n) = Ok (d1, t1, n1)" using assms[OF 1(1)] by blast
  with Cons.IH[OF 1(2), of d1] show ?case by simp
qed simp

lemma slash_stakes_indep:
  "rfold (slash_stake p) es (c, t, n) = Ok (c', t', n') \<Longrightarrow>
   \<exists>d'. rfold (slash_stake p) es (d, t, n) = Ok (d', t', n')"
  by (rule rfold_indep[where f = "slash_stake p"]) (erule slash_stake_indep)

lemma slash_unbondings_indep:
  "rfold (slash_unbonding m r h p) us (c, t, n) = Ok (c', t', n') \<Longrightarrow>
   \<exists>d'. rfold (slash_unbonding m r h p) us (d, t, n) = Ok (d', t', n')"
  by (rule rfold_indep[where f = "slash_unbonding m r h p"]) (erule slash_unbonding_indep)

lemma slash_report_committed:
  assumes "apply_slash c node role off reporter treasury = Ok (c', rep)" and "ctx_state d = ctx_state c"
  shows "\<exists>d2. apply_slash d node role off reporter treasury =
    Ok (credit_positive treasury (sr_to_treasury rep) (credit_positive reporter (sr_to_reporter rep) d2), rep)"
proof -
  let ?p = "penalty_percent off"
  from assms(1) obtain c1 t1 k1 where 1: "rfold (slash_stake ?p)
      (filter (\<lambda>e. se_role e = role) (iter_stakes_for_node (ctx_state c) node)) (c, 0, 0) = Ok (c1, t1, k1)"
    by (auto simp: apply_slash_def Let_def rbind_Ok_iff)
  with assms(1) obtain c2 t2 k2 where 2: "rfold (slash_unbonding node role (slash_height c) ?p)
      (iter_unbondings_for_node (ctx_state c) node) (c1, t1, k1) = Ok (c2, t2, k2)"
    by (auto simp: apply_slash_def Let_def rbind_Ok_iff slash_height_def)
  obtain d1 where d1: "rfold (slash_stake ?p)
      (filter (\<lambda>e. se_role e = role) (iter_stakes_for_node (ctx_state c) node)) (d, 0, 0) = Ok (d1, t1, k1)"
    using slash_stakes_indep[OF 1] by blast
  obtain d2 where d2: "rfold (slash_unbonding node role (slash_height c) ?p)
      (iter_unbondings_for_node (ctx_state c) node) (d1, t1, k1) = Ok (d2, t2, k2)"
    using slash_unbondings_indep[OF 2] by blast
  show ?thesis
    by (rule exI[of _ d2]) (use assms 1 2 d1 d2 in \<open>auto simp: apply_slash_def Let_def rbind_Ok_iff
      slash_height_def umul_def uadd_def split: if_splits\<close>)
qed

lemma slash_state: "apply_slash c node role off reporter treasury = Ok (c', rep) \<Longrightarrow>
  ctx_state c' = ctx_state c"
proof -
  assume a: "apply_slash c node role off reporter treasury = Ok (c', rep)"
  obtain c1 t1 k1 c2 t2 k2 where run:
    "rfold (slash_stake (penalty_percent off))
       (filter (\<lambda>e. se_role e = role) (iter_stakes_for_node (ctx_state c) node)) (c, 0, 0) = Ok (c1, t1, k1)"
    "rfold (slash_unbonding node role (slash_height c) (penalty_percent off))
       (iter_unbondings_for_node (ctx_state c) node) (c1, t1, k1) = Ok (c2, t2, k2)"
    "c' = credit_positive treasury (sr_to_treasury rep) (credit_positive reporter (sr_to_reporter rep) c2)"
    by (rule apply_slash_cases[OF a])
  have "ctx_state (fst (c1, t1, k1)) = ctx_state c"
    by (rule rfold_invariant[OF _ _ run(1), where P = "\<lambda>acc. ctx_state (fst acc) = ctx_state c"])
      (auto simp: slash_stake_def rbind_Ok_iff Let_def split: if_splits)
  moreover have "ctx_state (fst (c2, t2, k2)) = ctx_state c1"
    by (rule rfold_invariant[OF _ _ run(2), where P = "\<lambda>acc. ctx_state (fst acc) = ctx_state c1"])
      (auto simp: slash_unbonding_def rbind_Ok_iff Let_def split: if_splits)
  ultimately show ?thesis by (simp add: run(3))
qed

section \<open>Properties\<close>

text \<open>A slash on staking columns the block has not touched takes exactly the penalty percentage
  from every stake of the node in the role and from every unbonding still running, nothing from
  anyone else; burn, reporter and treasury shares add up to what was taken, and the held value falls
  by exactly the burned share.\<close>

theorem slash_takes_penalty:
  assumes "apply_slash c node role off reporter treasury = Ok (c', rep)"
    and "coherent c" "staking_fresh c" "held_value (view c) < 2 ^ 128"
  shows "held_value (view c') + sr_burned rep = held_value (view c) \<and>
    sr_burned rep + sr_to_reporter rep + sr_to_treasury rep = sr_total_slashed rep \<and>
    (\<forall>n r pl d. stake_amount (get_stake c' n r pl d) =
      (let x = stake_amount (get_stake c n r pl d)
       in if n = node \<and> r = role then x - x * penalty_percent off div 100 else x)) \<and>
    (\<forall>n i. unbonding_amount (get_unbonding c' n i) = (case get_unbonding c n i of None \<Rightarrow> 0
      | Some u \<Rightarrow> if n = node \<and> un_role u = role \<and> slash_height c < un_completes_at u
                  then un_amount u - un_amount u * penalty_percent off div 100 else un_amount u))"
  using slash_effect(1,2,4,5)[OF assms] unfolding slash_shares_def cut_def slashable_def by blast

definition demo_stake :: stake_entry where
  "demo_stake = \<lparr>se_node_id = 7, se_role = Validator, se_pool_id = None, se_delegator = None,
     se_amount = 1000, se_bonded_at = 0\<rparr>"

definition demo_stake_db :: db where
  "demo_stake_db = (demo_db [])\<lparr>cf_stakes := kv_put (stake_key 7 Validator None None) demo_stake kv_empty\<rparr>"

definition demo_stake_ctx :: block_ctx where
  "demo_stake_ctx = begin_block (state_open demo_stake_db)"

lemma demo_stake_wf: "staking_wf demo_stake_db"
  by (simp add: staking_wf_def stakes_wf_def unbondings_wf_def unbond_counter_def demo_stake_db_def
      demo_db_def empty_db_def demo_stake_def)

lemma demo_stake_ctx_facts:
  "coherent demo_stake_ctx" "staking_fresh demo_stake_ctx" "held_value (view demo_stake_ctx) = 1000"
  "get_stake demo_stake_ctx 7 Validator None None = Some demo_stake"
  using demo_stake_wf
  by (simp_all add: demo_stake_ctx_def coherent_begin_block state_ok_open staking_fresh_begin)
    (simp_all add: demo_stake_db_def held_value_def total_balance_def stake_total_def
      unbonding_total_def kv_sum_def demo_stake_def)

lemma demo_slash_runs:
  "\<exists>c' rep. apply_slash demo_stake_ctx 7 Validator CensoringMints 1 2 = Ok (c', rep) \<and>
    sr_total_slashed rep = 100"
proof -
  have "iter_stakes_for_node (ctx_state demo_stake_ctx) 7 = [demo_stake]"
    by (simp add: demo_stake_ctx_def demo_stake_db_def iter_stakes_filter starts_with_stake_key)
  moreover have "iter_unbondings_for_node (ctx_state demo_stake_ctx) 7 = []"
    by (simp add: demo_stake_ctx_def demo_stake_db_def iter_unbondings_filter)
  ultimately show ?thesis
    by (simp add: apply_slash_def slash_stake_def demo_stake_def Let_def umul_def uadd_def
        BURN_PERCENT_def REPORTER_PERCENT_def sat_add_def umax_def)
qed

theorem slash_takes_penalty_witness:
  "\<exists>c' rep. apply_slash demo_stake_ctx 7 Validator CensoringMints 1 2 = Ok (c', rep) \<and>
    stake_amount (get_stake c' 7 Validator None None) = 900"
proof -
  obtain c' rep where run: "apply_slash demo_stake_ctx 7 Validator CensoringMints 1 2 = Ok (c', rep)"
    using demo_slash_runs by blast
  have "held_value (view demo_stake_ctx) < 2 ^ 128" by (simp add: demo_stake_ctx_facts(3))
  from slash_takes_penalty[OF run demo_stake_ctx_facts(1,2) this]
  have "stake_amount (get_stake c' 7 Validator None None) = 900"
    by (simp add: demo_stake_ctx_facts(4) demo_stake_def)
  with run show ?thesis by blast
qed

text \<open>A second slash of the same node in one block reads the committed entries again: it reports
  the same total and pays reporter and treasury again, although the stake was already taken.\<close>

theorem second_slash_pays_again:
  assumes "apply_slash c node role off reporter treasury = Ok (c1, rep)"
  shows "\<exists>d2. apply_slash c1 node role off reporter treasury =
    Ok (credit_positive treasury (sr_to_treasury rep) (credit_positive reporter (sr_to_reporter rep) d2), rep)"
  by (rule slash_report_committed[OF assms slash_state[OF assms]])

theorem second_slash_pays_again_witness:
  "\<exists>c1 c2 rep. apply_slash demo_stake_ctx 7 Validator CensoringMints 1 2 = Ok (c1, rep) \<and>
    apply_slash c1 7 Validator CensoringMints 1 2 = Ok (c2, rep) \<and> sr_total_slashed rep = 100"
proof -
  obtain c1 rep where run: "apply_slash demo_stake_ctx 7 Validator CensoringMints 1 2 = Ok (c1, rep)"
    "sr_total_slashed rep = 100" using demo_slash_runs by blast
  from second_slash_pays_again[OF run(1)] run show ?thesis by blast
qed

end
