(* ===== verification/SortBy.thy ===== *)
theory SortBy
  imports Prelude "HOL-Library.Multiset"
begin

text \<open>
  The stable sort by a comparison that the code calls \<^verbatim>\<open>sort_by\<close>: \<open>le a b\<close> says that \<open>a\<close> may
  stand before \<open>b\<close>. The locale states what a comparison has to satisfy (Rust documents that the
  comparator must be a total order); the components interpret it on their own comparisons.
\<close>

fun insert_by :: "('a \<Rightarrow> 'a \<Rightarrow> bool) \<Rightarrow> 'a \<Rightarrow> 'a list \<Rightarrow> 'a list" where
  "insert_by le x [] = [x]"
| "insert_by le x (y # ys) = (if le x y then x # y # ys else y # insert_by le x ys)"

definition sort_by :: "('a \<Rightarrow> 'a \<Rightarrow> bool) \<Rightarrow> 'a list \<Rightarrow> 'a list" where
  "sort_by le xs = foldr (insert_by le) xs []"

lemma mset_insert_by [simp]: "mset (insert_by le x ys) = add_mset x (mset ys)"
  by (induction ys) auto

lemma mset_sort_by [simp]: "mset (sort_by le xs) = mset xs"
  by (induction xs) (auto simp: sort_by_def)

lemma set_sort_by [simp]: "set (sort_by le xs) = set xs"
  using mset_sort_by[of le xs] mset_eq_setD by blast

lemma length_sort_by [simp]: "length (sort_by le xs) = length xs"
  using mset_sort_by[of le xs] mset_eq_length by blast

lemma set_insert_by [simp]: "set (insert_by le x ys) = insert x (set ys)"
  by (induction ys) auto

locale comparison =
  fixes le :: "'a \<Rightarrow> 'a \<Rightarrow> bool"
  assumes total: "le a b \<or> le b a"
    and trans: "le a b \<Longrightarrow> le b c \<Longrightarrow> le a c"
begin

lemma insert_by_sorted: "sorted_wrt le ys \<Longrightarrow> sorted_wrt le (insert_by le x ys)"
proof (induction ys)
  case (Cons y ys)
  show ?case
  proof (cases "le x y")
    case True
    with Cons.prems show ?thesis using trans by auto
  next
    case False
    then have "le y x" using total by blast
    with Cons False show ?thesis by simp
  qed
qed simp

lemma sort_by_sorted: "sorted_wrt le (sort_by le xs)"
  unfolding sort_by_def by (induction xs) (auto intro: insert_by_sorted)

text \<open>Truncating a sorted list keeps elements that stand before every one that is cut.\<close>

lemma take_best:
  assumes "a \<in> set (take n (sort_by le xs))" and "b \<in> set (drop n (sort_by le xs))"
  shows "le a b"
proof -
  have "sorted_wrt le (take n (sort_by le xs) @ drop n (sort_by le xs))"
    by (simp add: sort_by_sorted)
  with assms show ?thesis unfolding sorted_wrt_append by blast
qed

end

end
