(* ===== verification/ValidatorSet.thy ===== *)
theory ValidatorSet
  imports Slashing SortBy
begin

text \<open>
  Minimum stakes (\<^verbatim>\<open>crates/staking/src/min_stake.rs\<close>) and the validator set of an epoch
  (\<^verbatim>\<open>crates/staking/src/validator_set.rs\<close>): ranking the registered validators by bonded stake,
  and writing the new set. The lemmas show that the ranking keeps the best, what the recomputation
  writes, and which validators it leaves alone.
\<close>

section \<open>Minimum stake\<close>

definition BASE_VALIDATOR_ARK :: nat where "BASE_VALIDATOR_ARK = 50000"

definition BASE_ROUTER_ARK :: nat where "BASE_ROUTER_ARK = 8000"

definition BASE_VERIFIER_ARK :: nat where "BASE_VERIFIER_ARK = 10000"

definition BASE_COMPUTE_ARK :: nat where "BASE_COMPUTE_ARK = 5000"

datatype model_size = Small7B | Mid13B | Large70B | Frontier400B

datatype quant_bucket = Fp32 | Fp16 | Q8 | Q6 | Q5 | Q4 | Q3 | Q2

fun size_mult_x10 :: "model_size \<Rightarrow> nat" where
  "size_mult_x10 Small7B = 10"
| "size_mult_x10 Mid13B = 20"
| "size_mult_x10 Large70B = 50"
| "size_mult_x10 Frontier400B = 200"

fun quant_factor_x10 :: "quant_bucket \<Rightarrow> nat" where
  "quant_factor_x10 Fp32 = 20"
| "quant_factor_x10 Fp16 = 15"
| "quant_factor_x10 Q8 = 10"
| "quant_factor_x10 Q6 = 8"
| "quant_factor_x10 Q5 = 7"
| "quant_factor_x10 Q4 = 5"
| "quant_factor_x10 Q3 = 4"
| "quant_factor_x10 Q2 = 3"

fun base_ark :: "stake_role \<Rightarrow> nat" where
  "base_ark Validator = BASE_VALIDATOR_ARK"
| "base_ark Router = BASE_ROUTER_ARK"
| "base_ark Verifier = BASE_VERIFIER_ARK"
| "base_ark Compute = BASE_COMPUTE_ARK"

definition min_stake ::
    "stake_role \<Rightarrow> model_size \<Rightarrow> quant_bucket \<Rightarrow> height \<Rightarrow> nat \<Rightarrow> amount" where
  "min_stake role msize quant height active_validator_count =
     (if in_bootstrap_epoch height active_validator_count then 0
      else let base = base_ark role;
               ark_required = (case role of
                 Compute \<Rightarrow> base * size_mult_x10 msize * quant_factor_x10 quant div 100
               | _ \<Rightarrow> base)
      in ark_required * ATOMS_PER_ARK)"

lemmas base_ark_defs = BASE_VALIDATOR_ARK_def BASE_ROUTER_ARK_def BASE_VERIFIER_ARK_def BASE_COMPUTE_ARK_def

text \<open>The products of \<^verbatim>\<open>min_stake\<close> stay far below the width of u128.\<close>

lemma min_stake_fits: "min_stake role msize quant h n < 2 ^ 64"
  by (cases role; cases msize; cases quant) (simp_all add: min_stake_def base_ark_defs ATOMS_PER_ARK_def)

lemma min_stake_inline:
  "\<not> in_bootstrap_epoch h n \<Longrightarrow> role \<noteq> Compute \<Longrightarrow> min_stake role msize quant h n = inline_base_min_stake role"
  by (cases role) (simp_all add: min_stake_def base_ark_defs)

section \<open>Ranking\<close>

definition MAX_ACTIVE_VALIDATORS :: nat where
  "MAX_ACTIVE_VALIDATORS = 21"

record candidate =
  ca_info :: validator_info
  ca_total_stake :: amount

definition sum_validator_stake :: "block_ctx \<Rightarrow> node_id \<Rightarrow> amount" where
  "sum_validator_stake c n =
     foldl (\<lambda>t e. if se_role e = Validator then sat_add 128 t (se_amount e) else t) 0
       (iter_stakes_for_node (ctx_state c) n)"

text \<open>Stake descending, then operator ascending.\<close>

definition candidate_le :: "candidate \<Rightarrow> candidate \<Rightarrow> bool" where
  "candidate_le a b \<longleftrightarrow> ca_total_stake b < ca_total_stake a \<or>
     (ca_total_stake a = ca_total_stake b \<and> vi_operator (ca_info a) \<le> vi_operator (ca_info b))"

definition all_candidates :: "block_ctx \<Rightarrow> candidate list" where
  "all_candidates c =
     map (\<lambda>info. \<lparr>ca_info = info, ca_total_stake = sum_validator_stake c (vi_node_id info)\<rparr>)
       (iter_validators (ctx_state c))"

definition rank_candidates :: "block_ctx \<Rightarrow> candidate list" where
  "rank_candidates c = take MAX_ACTIVE_VALIDATORS (sort_by candidate_le (all_candidates c))"

interpretation ranking: comparison candidate_le
  by unfold_locales (auto simp: candidate_le_def)

lemma length_rank: "length (rank_candidates c) = min (length (iter_validators (ctx_state c))) 21"
  by (simp add: rank_candidates_def all_candidates_def MAX_ACTIVE_VALIDATORS_def)

lemma rank_subset: "set (rank_candidates c) \<subseteq> set (all_candidates c)"
  unfolding rank_candidates_def using set_take_subset[of MAX_ACTIVE_VALIDATORS "sort_by candidate_le (all_candidates c)"]
  by simp

lemma rank_best:
  assumes "a \<in> set (rank_candidates c)" and "b \<in> set (all_candidates c)" and "b \<notin> set (rank_candidates c)"
  shows "candidate_le a b"
proof -
  let ?s = "sort_by candidate_le (all_candidates c)"
  have "set ?s = set (take MAX_ACTIVE_VALIDATORS ?s) \<union> set (drop MAX_ACTIVE_VALIDATORS ?s)"
    by (metis append_take_drop_id set_append)
  moreover have "b \<in> set ?s" using assms(2) by simp
  ultimately have "b \<in> set (drop MAX_ACTIVE_VALIDATORS ?s)"
    using assms(3) unfolding rank_candidates_def by blast
  with assms(1) show ?thesis unfolding rank_candidates_def by (rule ranking.take_best)
qed

section \<open>The set of an epoch\<close>

definition total_stake_to_voting_power :: "amount \<Rightarrow> nat" where
  "total_stake_to_voting_power total_atoms =
     (let ark = total_atoms div 1000000000 in min (max ark 1) (umax 64))"

definition seat ::
    "bool \<Rightarrow> candidate \<Rightarrow> block_ctx \<times> nat \<Rightarrow> block_ctx \<times> nat" where
  "seat bootstrap cand acc =
     (case acc of (c, active) \<Rightarrow>
       let info = ca_info cand
       in if bootstrap \<or> ca_total_stake cand > 0
          then (set_validator (vi_node_id info)
                  (info\<lparr>vi_voting_power := total_stake_to_voting_power (ca_total_stake cand),
                        vi_jailed := False\<rparr>) c,
                active + 1)
          else (delete_validator (vi_node_id info) c, active))"

definition recompute_validator_set :: "block_ctx \<Rightarrow> height \<Rightarrow> block_ctx \<times> nat" where
  "recompute_validator_set c height =
     (let candidates = rank_candidates c;
          bootstrap = in_bootstrap_epoch height (ucastn 32 (length candidates))
      in fold (seat bootstrap) candidates (c, 0))"

lemma voting_power_bounds: "1 \<le> total_stake_to_voting_power t" "total_stake_to_voting_power t < 2 ^ 64"
  by (simp_all add: total_stake_to_voting_power_def Let_def umax_def)

lemma voting_power_mono: "t \<le> t' \<Longrightarrow> total_stake_to_voting_power t \<le> total_stake_to_voting_power t'"
  unfolding total_stake_to_voting_power_def Let_def by (intro min.mono max.mono div_le_mono) simp_all

text \<open>At most 21 candidates are counted, so the gate of 100 validators never closes here.\<close>

lemma recompute_bootstrap:
  "in_bootstrap_epoch h (ucastn 32 (length (rank_candidates c))) \<longleftrightarrow> within_bootstrap_window h"
proof -
  have "length (rank_candidates c) \<le> 21" by (simp add: length_rank)
  then have "ucastn 32 (length (rank_candidates c)) < 100" by (simp add: ucastn_def)
  then show ?thesis by (simp add: in_bootstrap_epoch_def BOOTSTRAP_VALIDATOR_TARGET_def)
qed

text \<open>What the loop leaves in the validators column: the row written for the last candidate with a
  node id, and every other row as it was.\<close>

lemma seat_other:
  "n \<notin> (\<lambda>x. vi_node_id (ca_info x)) ` set xs \<Longrightarrow>
   kv_get (cf_validators (view (fst (fold (seat b) xs (c, k))))) n = kv_get (cf_validators (view c)) n"
  by (induction xs arbitrary: c k) (auto simp: seat_def Let_def)

lemma seat_row:
  assumes "x \<in> set xs" "distinct (map (\<lambda>x. vi_node_id (ca_info x)) xs)"
  shows "kv_get (cf_validators (view (fst (fold (seat b) xs (c, k))))) (vi_node_id (ca_info x)) =
    (if b \<or> ca_total_stake x > 0
     then Some ((ca_info x)\<lparr>vi_voting_power := total_stake_to_voting_power (ca_total_stake x),
                            vi_jailed := False\<rparr>)
     else None)"
  using assms
proof (induction xs arbitrary: c k)
  case (Cons y ys)
  show ?case
  proof (cases "x = y")
    case True
    then have "vi_node_id (ca_info x) \<notin> (\<lambda>x. vi_node_id (ca_info x)) ` set ys" using Cons.prems(2) by simp
    obtain c1 k1 where s: "seat b y (c, k) = (c1, k1)" by (cases "seat b y (c, k)")
    have "kv_get (cf_validators (view c1)) (vi_node_id (ca_info x)) =
        (if b \<or> ca_total_stake x > 0
         then Some ((ca_info x)\<lparr>vi_voting_power := total_stake_to_voting_power (ca_total_stake x),
                                vi_jailed := False\<rparr>)
         else None)"
      using s True by (auto simp: seat_def Let_def split: if_splits)
    with \<open>vi_node_id (ca_info x) \<notin> _\<close> show ?thesis
      using seat_other[of "vi_node_id (ca_info x)" ys b c1 k1] by (simp add: s)
  next
    case False
    with Cons show ?thesis by (cases "seat b y (c, k)") simp
  qed
qed simp

lemma seat_count:
  "snd (fold (seat b) xs (c, k)) = k + length (filter (\<lambda>x. b \<or> ca_total_stake x > 0) xs)"
  by (induction xs arbitrary: c k) (auto simp: seat_def Let_def)

text \<open>Every validator row is stored under its own node id.\<close>

definition validators_wf :: "db \<Rightarrow> bool" where
  "validators_wf d \<longleftrightarrow> (\<forall>n v. kv_get (cf_validators d) n = Some v \<longrightarrow> vi_node_id v = n)"

lemma candidates_distinct:
  assumes "validators_wf (st_db (ctx_state c))"
  shows "distinct (map (\<lambda>x. vi_node_id (ca_info x)) (all_candidates c))"
proof -
  let ?es = "kv_entries (cf_validators (st_db (ctx_state c)))"
  have "map (\<lambda>x. vi_node_id (ca_info x)) (all_candidates c) = map (\<lambda>e. vi_node_id (snd e)) ?es"
    by (simp add: all_candidates_def iter_validators_def)
  also have "\<dots> = map fst ?es"
    using assms by (auto simp: validators_wf_def kv.mem_entries)
  finally show ?thesis using kv.distinct_keys by simp
qed

lemma rank_distinct:
  assumes "validators_wf (st_db (ctx_state c))"
  shows "distinct (map (\<lambda>x. vi_node_id (ca_info x)) (rank_candidates c))"
proof -
  have "mset (map (\<lambda>x. vi_node_id (ca_info x)) (sort_by candidate_le (all_candidates c))) =
      mset (map (\<lambda>x. vi_node_id (ca_info x)) (all_candidates c))" by simp
  then have "distinct (map (\<lambda>x. vi_node_id (ca_info x)) (sort_by candidate_le (all_candidates c)))"
    using candidates_distinct[OF assms] mset_eq_imp_distinct_iff by blast
  then show ?thesis unfolding rank_candidates_def take_map [symmetric] by (rule distinct_take)
qed

section \<open>Properties\<close>

lemma ranked_candidate:
  "x \<in> set (rank_candidates c) \<Longrightarrow> ca_total_stake x = sum_validator_stake c (vi_node_id (ca_info x))"
  using rank_subset[of c] by (auto simp: all_candidates_def)

text \<open>At an epoch boundary at most 21 validators are seated; a seated one is written with the
  voting power of its stake and not jailed, a ranked one without stake is deleted after the
  bootstrap window, the returned count is the number seated, and no validator left out of the
  ranking has more stake than one in it.\<close>

theorem epoch_set_is_best:
  assumes "validators_wf (st_db (ctx_state c))" and "recompute_validator_set c h = (c', active)"
  shows "active = length (filter (\<lambda>x. within_bootstrap_window h \<or> ca_total_stake x > 0) (rank_candidates c)) \<and>
    active \<le> 21 \<and>
    (\<forall>x \<in> set (rank_candidates c). kv_get (cf_validators (view c')) (vi_node_id (ca_info x)) =
       (if within_bootstrap_window h \<or> ca_total_stake x > 0
        then Some ((ca_info x)\<lparr>vi_voting_power := total_stake_to_voting_power (ca_total_stake x),
                               vi_jailed := False\<rparr>)
        else None)) \<and>
    (\<forall>v \<in> set (iter_validators (ctx_state c)). v \<notin> ca_info ` set (rank_candidates c) \<longrightarrow>
       kv_get (cf_validators (view c')) (vi_node_id v) = kv_get (cf_validators (view c)) (vi_node_id v) \<and>
       (\<forall>x \<in> set (rank_candidates c). sum_validator_stake c (vi_node_id v) \<le> ca_total_stake x))"
proof -
  let ?b = "within_bootstrap_window h" let ?r = "rank_candidates c"
  have run: "fold (seat ?b) ?r (c, 0) = (c', active)"
    using assms(2) by (simp add: recompute_validator_set_def recompute_bootstrap Let_def)
  have act: "active = length (filter (\<lambda>x. ?b \<or> ca_total_stake x > 0) ?r)"
    using seat_count[of ?b ?r c 0] run by simp
  moreover have "active \<le> 21" using act length_filter_le[of _ ?r] length_rank[of c]
    by (metis le_trans min.cobounded2)
  moreover have "\<forall>x \<in> set ?r. kv_get (cf_validators (view c')) (vi_node_id (ca_info x)) =
      (if ?b \<or> ca_total_stake x > 0
       then Some ((ca_info x)\<lparr>vi_voting_power := total_stake_to_voting_power (ca_total_stake x),
                              vi_jailed := False\<rparr>)
       else None)"
    using seat_row[OF _ rank_distinct[OF assms(1)], of _ ?b c 0] run by simp
  moreover have "kv_get (cf_validators (view c')) (vi_node_id v) = kv_get (cf_validators (view c)) (vi_node_id v) \<and>
      (\<forall>x \<in> set ?r. sum_validator_stake c (vi_node_id v) \<le> ca_total_stake x)"
    if v: "v \<in> set (iter_validators (ctx_state c))" "v \<notin> ca_info ` set ?r" for v
  proof
    let ?x = "\<lparr>ca_info = v, ca_total_stake = sum_validator_stake c (vi_node_id v)\<rparr>"
    have x: "?x \<in> set (all_candidates c)" using v(1) by (simp add: all_candidates_def)
    have nx: "?x \<notin> set ?r" using v(2) by force
    show "\<forall>x \<in> set ?r. sum_validator_stake c (vi_node_id v) \<le> ca_total_stake x"
    proof
      fix y assume "y \<in> set ?r"
      from rank_best[OF this x nx] show "sum_validator_stake c (vi_node_id v) \<le> ca_total_stake y"
        by (auto simp: candidate_le_def)
    qed
    have "vi_node_id v \<notin> (\<lambda>x. vi_node_id (ca_info x)) ` set ?r"
    proof
      assume "vi_node_id v \<in> (\<lambda>x. vi_node_id (ca_info x)) ` set ?r"
      then obtain y where y: "y \<in> set ?r" "vi_node_id (ca_info y) = vi_node_id v" by force
      have inj: "inj_on (\<lambda>x. vi_node_id (ca_info x)) (set (all_candidates c))"
        using candidates_distinct[OF assms(1)] by (simp add: distinct_map)
      have "y = ?x" using inj_onD[OF inj _ _ x, of y] y rank_subset[of c] by auto
      with y(1) nx show False by simp
    qed
    then show "kv_get (cf_validators (view c')) (vi_node_id v) = kv_get (cf_validators (view c)) (vi_node_id v)"
      using seat_other[of "vi_node_id v" ?r ?b c 0] run by simp
  qed
  ultimately show ?thesis by blast
qed

definition demo_validator :: "node_id \<Rightarrow> validator_info" where
  "demo_validator n = \<lparr>vi_node_id = n, vi_consensus_key = demo_key, vi_operator = ucast n,
     vi_bonded_stake = 0, vi_voting_power = 5, vi_is_genesis = True, vi_jailed = False\<rparr>"

definition demo_validators :: "nat \<Rightarrow> block_ctx" where
  "demo_validators k = begin_block (state_open ((demo_db [])\<lparr>cf_validators :=
     fold (\<lambda>i. kv_put (word_of_nat i) (demo_validator (word_of_nat i))) [0..<k] kv_empty\<rparr>))"

lemma fold_put_wf:
  "(\<forall>n v. kv_get m n = Some v \<longrightarrow> vi_node_id v = n) \<Longrightarrow>
   kv_get (fold (\<lambda>i. kv_put (word_of_nat i) (demo_validator (word_of_nat i))) xs m) n = Some v \<Longrightarrow>
   vi_node_id v = n"
proof (induction xs arbitrary: m)
  case (Cons x xs)
  have "\<forall>n v. kv_get (kv_put (word_of_nat x) (demo_validator (word_of_nat x)) m) n = Some v \<longrightarrow> vi_node_id v = n"
    using Cons.prems(1) by (auto simp: demo_validator_def)
  from Cons.IH[OF this] Cons.prems(2) show ?case by simp
qed simp

lemma demo_validators_wf: "validators_wf (st_db (ctx_state (demo_validators k)))"
  using fold_put_wf[of kv_empty] by (simp add: validators_wf_def demo_validators_def)

theorem epoch_set_is_best_witness:
  "\<exists>c' active. recompute_validator_set (demo_validators 1) 0 = (c', active) \<and> active \<le> 21"
proof -
  obtain c' active where run: "recompute_validator_set (demo_validators 1) 0 = (c', active)"
    by (cases "recompute_validator_set (demo_validators 1) 0")
  from epoch_set_is_best[OF demo_validators_wf run] run show ?thesis by blast
qed

text \<open>When more than 21 validators are registered, an epoch boundary leaves at least one row
  exactly as it was, its voting power included: the validators outside the best 21 are not removed
  from the set.\<close>

theorem surplus_validators_stay:
  assumes "validators_wf (st_db (ctx_state c))" and "21 < length (iter_validators (ctx_state c))"
  shows "\<exists>n v. kv_get (cf_validators (st_db (ctx_state c))) n = Some v \<and>
    kv_get (cf_validators (view (fst (recompute_validator_set c h)))) n = kv_get (cf_validators (view c)) n"
proof -
  let ?vs = "iter_validators (ctx_state c)" let ?r = "rank_candidates c"
  have "distinct (map vi_node_id ?vs)"
    using candidates_distinct[OF assms(1)] by (simp add: all_candidates_def comp_def)
  then have card: "card (vi_node_id ` set ?vs) = length ?vs"
    using distinct_card[of "map vi_node_id ?vs"] by simp
  have "card ((\<lambda>x. vi_node_id (ca_info x)) ` set ?r) \<le> length ?r"
    by (metis card_image_le card_length finite_set le_trans)
  then have "card ((\<lambda>x. vi_node_id (ca_info x)) ` set ?r) < card (vi_node_id ` set ?vs)"
    using length_rank[of c] card assms(2) by simp
  then obtain n where n: "n \<in> vi_node_id ` set ?vs" "n \<notin> (\<lambda>x. vi_node_id (ca_info x)) ` set ?r"
    by (metis card_mono finite_imageI finite_set not_less subsetI)
  then obtain v where v: "v \<in> set ?vs" "n = vi_node_id v" by blast
  then obtain k where "(k, v) \<in> set (kv_entries (cf_validators (st_db (ctx_state c))))"
    by (auto simp: iter_validators_def)
  then have "kv_get (cf_validators (st_db (ctx_state c))) n = Some v"
    using assms(1) v(2) by (auto simp: kv.mem_entries validators_wf_def)
  moreover have "kv_get (cf_validators (view (fst (recompute_validator_set c h)))) n =
      kv_get (cf_validators (view c)) n"
    using seat_other[OF n(2)] by (simp add: recompute_validator_set_def Let_def)
  ultimately show ?thesis by blast
qed

lemma demo_validators_22: "length (iter_validators (ctx_state (demo_validators 22))) = 22"
proof -
  have "kv_size (fold (\<lambda>i. kv_put (word_of_nat i :: node_id) (demo_validator (word_of_nat i))) [0..<22] kv_empty) = 22"
    unfolding kv_size_def by (simp add: upt_rec)
  then show ?thesis by (simp add: iter_validators_def demo_validators_def kv_size_def)
qed

theorem surplus_validators_stay_witness:
  "\<exists>n v. kv_get (cf_validators (st_db (ctx_state (demo_validators 22)))) n = Some v \<and>
    kv_get (cf_validators (view (fst (recompute_validator_set (demo_validators 22) 20000000)))) n =
      kv_get (cf_validators (view (demo_validators 22))) n"
  using surplus_validators_stay[OF demo_validators_wf, of 22] by (simp add: demo_validators_22)

end
