(* ===== verification/Emission.thy ===== *)
theory Emission
  imports Samples
begin

text \<open>
  The emission schedule (\<^verbatim>\<open>crates/payments/src/emission.rs\<close>), the reward of a job and its
  distribution (\<^verbatim>\<open>crates/payments/src/rewards.rs\<close>), and the escrow life cycle of the payments crate
  (\<^verbatim>\<open>crates/payments/src/escrow.rs\<close>). The lemmas bound the whole schedule by the supply cap, give
  what a sequence of mints pays out, show that a reward is distributed without loss, and that the
  split inlined in the chain crate is this distribution.
\<close>

section \<open>Schedule\<close>

definition TOTAL_SUPPLY_CAP :: amount where
  "TOTAL_SUPPLY_CAP = 1000000000 * ATOMS_PER_ARK"

definition EPOCH_LENGTH :: height where "EPOCH_LENGTH = 3600"

definition SECS_PER_BLOCK :: nat where "SECS_PER_BLOCK = 1"

definition EPOCHS_PER_YEAR :: nat where "EPOCHS_PER_YEAR = 365 * 24 * 3600 div EPOCH_LENGTH"

definition ANNUAL_EMISSION_ARK :: "amount list" where
  "ANNUAL_EMISSION_ARK =
     [120000000, 105000000, 90000000, 80000000,
      50000000, 50000000, 50000000, 50000000,
      25000000, 25000000, 25000000, 25000000,
      12500000, 12500000, 12500000, 12500000]"

text \<open>A right shift by the width or more overflows.\<close>

definition ushr :: "nat \<Rightarrow> nat \<Rightarrow> nat \<Rightarrow> ('e, nat) result" where
  "ushr w a k = (if k < w then Ok (a div 2 ^ k) else Panic)"

definition annual_emission_ark :: "nat \<Rightarrow> ('e, amount) result" where
  "annual_emission_ark year =
     (let table_len = length ANNUAL_EMISSION_ARK
      in if year < table_len then Ok (ANNUAL_EMISSION_ARK ! year)
         else let extra_years = year - table_len;
                  extra_halvings = (extra_years + 4) div 4
         in ushr 128 (last ANNUAL_EMISSION_ARK) extra_halvings)"

definition annual_emission :: "nat \<Rightarrow> ('e, amount) result" where
  "annual_emission year =
     rbind (annual_emission_ark year) (\<lambda>ark. Ok (sat_mul 128 ark ATOMS_PER_ARK))"

definition epoch_budget :: "nat \<Rightarrow> ('e, amount) result" where
  "epoch_budget year = rbind (annual_emission year) (\<lambda>a. Ok (a div EPOCHS_PER_YEAR))"

definition year_for_height :: "height \<Rightarrow> nat" where
  "year_for_height h = h div (365 * 24 * 3600 div SECS_PER_BLOCK)"

definition epoch_for_height :: "height \<Rightarrow> nat" where
  "epoch_for_height h = h div EPOCH_LENGTH"

section \<open>The state of an epoch\<close>

record emission_state =
  em_epoch :: nat
  em_budget :: amount
  em_minted :: amount
  em_total_minted :: amount

definition emission_genesis :: "('e, emission_state) result" where
  "emission_genesis = rbind (epoch_budget 0) (\<lambda>b.
     Ok \<lparr>em_epoch = 0, em_budget = b, em_minted = 0, em_total_minted = 0\<rparr>)"

definition remaining :: "emission_state \<Rightarrow> amount" where
  "remaining s = sat_sub (em_budget s) (em_minted s)"

definition try_mint :: "amount \<Rightarrow> emission_state \<Rightarrow> amount \<times> emission_state" where
  "try_mint amount s =
     (let cap_remaining = sat_sub TOTAL_SUPPLY_CAP (em_total_minted s);
          budget_remaining = remaining s;
          actual = min (min amount budget_remaining) cap_remaining
      in (actual, s\<lparr>em_minted := sat_add 128 (em_minted s) actual,
                    em_total_minted := sat_add 128 (em_total_minted s) actual\<rparr>))"

definition advance_epoch :: "height \<Rightarrow> emission_state \<Rightarrow> ('e, emission_state) result" where
  "advance_epoch new_height s =
     (let new_epoch = epoch_for_height new_height
      in if new_epoch \<le> em_epoch s then Ok s
         else let rollover = remaining s
         in rbind (epoch_budget (year_for_height new_height)) (\<lambda>fresh.
            Ok (s\<lparr>em_epoch := new_epoch, em_budget := sat_add 128 fresh rollover, em_minted := 0\<rparr>)))"

definition per_token_rate :: "emission_state \<Rightarrow> nat \<Rightarrow> amount" where
  "per_token_rate s epoch_total_tokens =
     (if epoch_total_tokens = 0 then 0 else remaining s div epoch_total_tokens)"

section \<open>The reward of a job\<close>

definition COMPUTE_PERCENT :: amount where "COMPUTE_PERCENT = 80"

definition VERIFIER_PERCENT :: amount where "VERIFIER_PERCENT = 7"

definition REWARD_BURN_PERCENT :: amount where "REWARD_BURN_PERCENT = 3"

definition DELEGATOR_PERCENT :: amount where "DELEGATOR_PERCENT = 5"

definition reward_size_mult :: "nat \<Rightarrow> nat" where
  "reward_size_mult param_billions =
     (if param_billions \<le> 7 then 10000
      else if param_billions \<le> 13 then 15000
      else if param_billions \<le> 30 then 25000
      else if param_billions \<le> 70 then 40000
      else 100000)"

datatype model_category = TextModel | Embedding | Image | Audio | Structured | Multimodal

fun category_mult :: "model_category \<Rightarrow> nat" where
  "category_mult TextModel = 10000"
| "category_mult Embedding = 3000"
| "category_mult Image = 20000"
| "category_mult Audio = 15000"
| "category_mult Structured = 12000"
| "category_mult Multimodal = 30000"

definition latency_mult :: "nat \<Rightarrow> nat \<Rightarrow> ('e, nat) result" where
  "latency_mult actual_ms expected_ms =
     (if expected_ms = 0 \<or> actual_ms \<ge> expected_ms then Ok 10000
      else rbind (umul 64 actual_ms 10000) (\<lambda>scaled.
           rbind (usub 10000 (scaled div expected_ms)) (\<lambda>improvement.
           rbind (umul 64 improvement 2000) (\<lambda>b.
           let bonus = b div 10000 in uadd 64 10000 bonus))))"

definition uptime_mult :: "nat \<Rightarrow> nat" where
  "uptime_mult uptime_bps = (if uptime_bps > 9500 then 11000 else 10000)"

definition compute_block_reward ::
    "nat \<Rightarrow> amount \<Rightarrow> model_category \<Rightarrow> nat \<Rightarrow> nat \<Rightarrow> nat \<Rightarrow> nat \<Rightarrow> ('e, amount) result" where
  "compute_block_reward output_tokens emission_per_token category param_billions latency_ms
     expected_latency_ms uptime_bps =
     (let base = sat_mul 128 output_tokens emission_per_token;
          sm = reward_size_mult param_billions;
          cm = category_mult category
      in rbind (latency_mult latency_ms expected_latency_ms) (\<lambda>lm.
         let um = uptime_mult uptime_bps;
             r1 = sat_mul 128 base sm div 10000
         in rbind (umul 128 r1 cm) (\<lambda>r2.
            rbind (umul 128 (r2 div 10000) lm) (\<lambda>r3.
            rbind (umul 128 (r3 div 10000) um) (\<lambda>r4.
            Ok (r4 div 10000))))))"

record reward_distribution =
  rd_compute :: amount
  rd_verifier :: amount
  rd_treasury :: amount
  rd_burned :: amount
  rd_delegators :: amount

definition rd_total :: "reward_distribution \<Rightarrow> amount" where
  "rd_total d = rd_compute d + rd_verifier d + rd_treasury d + rd_burned d + rd_delegators d"

definition distribute_reward :: "amount \<Rightarrow> ('e, reward_distribution) result" where
  "distribute_reward total_value =
     rbind (umul 128 total_value COMPUTE_PERCENT) (\<lambda>c. let compute = c div 100 in
     rbind (umul 128 total_value VERIFIER_PERCENT) (\<lambda>v. let verifier = v div 100 in
     rbind (umul 128 total_value REWARD_BURN_PERCENT) (\<lambda>b. let burned = b div 100 in
     rbind (umul 128 total_value DELEGATOR_PERCENT) (\<lambda>d. let delegators = d div 100 in
     rbind (usub total_value compute) (\<lambda>r1.
     rbind (usub r1 verifier) (\<lambda>r2.
     rbind (usub r2 burned) (\<lambda>r3.
     rbind (usub r3 delegators) (\<lambda>treasury.
     Ok \<lparr>rd_compute = compute, rd_verifier = verifier, rd_treasury = treasury, rd_burned = burned,
         rd_delegators = delegators\<rparr>))))))))"

definition credit_rewards ::
    "block_ctx \<Rightarrow> reward_distribution \<Rightarrow> address \<Rightarrow> address \<Rightarrow> address \<Rightarrow> block_ctx" where
  "credit_rewards c dist compute_addr verifier_addr treasury_addr =
     fold credit_line [(compute_addr, rd_compute dist), (verifier_addr, rd_verifier dist),
       (treasury_addr, rd_treasury dist)] c"

section \<open>Escrows of the payments crate\<close>

datatype payment_error = EscrowNotLocked job_id escrow_state

definition is_refundable :: "escrow_entry \<Rightarrow> height \<Rightarrow> bool" where
  "is_refundable e h \<longleftrightarrow> es_state e = Locked \<and>
     h \<ge> sat_add 64 (es_created_at e) ESCROW_TIMEOUT_BLOCKS"

definition is_terminal :: "escrow_entry \<Rightarrow> bool" where
  "is_terminal e \<longleftrightarrow> es_state e = Settled \<or> es_state e = Refunded"

definition create_escrow :: "job_id \<Rightarrow> address \<Rightarrow> amount \<Rightarrow> height \<Rightarrow> escrow_entry" where
  "create_escrow j user amount h =
     \<lparr>es_job_id = j, es_user = user, es_amount = amount, es_created_at = h, es_state = Locked\<rparr>"

definition settle_escrow :: "escrow_entry \<Rightarrow> (payment_error, amount \<times> escrow_entry) result" where
  "settle_escrow e =
     (if es_state e \<noteq> Locked then Err (EscrowNotLocked (es_job_id e) (es_state e))
      else Ok (es_amount e, e\<lparr>es_state := Settled\<rparr>))"

definition refund_escrow :: "escrow_entry \<Rightarrow> (payment_error, amount \<times> escrow_entry) result" where
  "refund_escrow e =
     (if es_state e \<noteq> Locked then Err (EscrowNotLocked (es_job_id e) (es_state e))
      else Ok (es_amount e, e\<lparr>es_state := Refunded\<rparr>))"

section \<open>The whole schedule\<close>

definition emitted :: "nat \<Rightarrow> amount" where
  "emitted year = (case annual_emission_ark year :: (chain_error, amount) result of Ok a \<Rightarrow> a | _ \<Rightarrow> 0)"

lemma halving_sum: "(\<Sum>k<m. a div 2 ^ Suc k) + a div 2 ^ m \<le> (a :: nat)"
proof (induction m)
  case (Suc m)
  have "a div 2 ^ Suc m = a div 2 ^ m div 2" by (simp only: power_Suc2 div_mult2_eq)
  then have "2 * (a div 2 ^ Suc m) \<le> a div 2 ^ m" by simp
  with Suc show ?case by simp
qed simp

lemma sum_blocks_of_4:
  fixes f :: "nat \<Rightarrow> nat" and m :: nat
  shows "(\<Sum>i<4 * m. f (i div 4)) = 4 * (\<Sum>k<m. f k)"
proof (induction m)
  case (Suc m)
  have "{..<4 * Suc m} = {..<4 * m} \<union> {4 * m, 4 * m + 1, 4 * m + 2, 4 * m + 3}" by auto
  moreover have "(4 * m + 1) div 4 = m" "(4 * m + 2) div 4 = m" "(4 * m + 3) div 4 = m" by simp_all
  ultimately show ?case using Suc by (simp add: sum.union_disjoint)
qed simp

lemma emitted_tail: "emitted (16 + i) \<le> 12500000 div 2 ^ Suc (i div 4)"
proof -
  have "(i + 4) div 4 = Suc (i div 4)" by simp
  then show ?thesis
    by (simp add: emitted_def annual_emission_ark_def ANNUAL_EMISSION_ARK_def ushr_def Let_def)
qed

lemma sum_split_at: "(\<Sum>y<a + k. f y) = (\<Sum>y<a. f y) + (\<Sum>i<k. f (a + i) :: nat)" for a k :: nat
  by (induction k) simp_all

lemma schedule_table: "(\<Sum>y<16. emitted y) = 745000000"
  by (simp add: emitted_def annual_emission_ark_def ANNUAL_EMISSION_ARK_def Let_def lessThan_nat_numeral
      lessThan_Suc)

lemma schedule_total: "(\<Sum>y<n. emitted y) \<le> 795000000"
proof -
  let ?f = "\<lambda>k. 12500000 div 2 ^ Suc k :: nat"
  have tail: "(\<Sum>i<4 * n. emitted (16 + i)) \<le> 4 * 12500000"
  proof -
    have "(\<Sum>i<4 * n. emitted (16 + i)) \<le> (\<Sum>i<4 * n. ?f (i div 4))"
      by (rule sum_mono) (rule emitted_tail)
    also have "\<dots> = 4 * (\<Sum>k<n. ?f k)" by (rule sum_blocks_of_4)
    also have "\<dots> \<le> 4 * 12500000" using halving_sum[where a = 12500000 and m = n] by linarith
    finally show ?thesis .
  qed
  have "(\<Sum>y<n. emitted y) \<le> (\<Sum>y<16 + 4 * n. emitted y)" by (rule sum_mono2) auto
  also have "\<dots> = (\<Sum>y<16. emitted y) + (\<Sum>i<4 * n. emitted (16 + i))"
    by (rule sum_split_at)
  also have "\<dots> \<le> 795000000" using tail schedule_table by simp
  finally show ?thesis .
qed

section \<open>Mints\<close>

fun mint_all :: "amount list \<Rightarrow> emission_state \<Rightarrow> amount list \<times> emission_state" where
  "mint_all [] s = ([], s)"
| "mint_all (a # as) s =
     (let (x, s1) = try_mint a s; (xs, s2) = mint_all as s1 in (x # xs, s2))"

definition emission_ok :: "emission_state \<Rightarrow> bool" where
  "emission_ok s \<longleftrightarrow> em_budget s < 2 ^ 128 \<and> em_minted s \<le> em_budget s \<and>
     em_total_minted s \<le> TOTAL_SUPPLY_CAP"

lemma cap_fits: "TOTAL_SUPPLY_CAP < 2 ^ 128"
  by (simp add: TOTAL_SUPPLY_CAP_def ATOMS_PER_ARK_def)

lemma try_mint_effect:
  assumes "emission_ok s" "try_mint a s = (x, s')"
  shows "x = min a (min (remaining s) (TOTAL_SUPPLY_CAP - em_total_minted s))"
    and "emission_ok s'" "remaining s' + x = remaining s"
    and "em_total_minted s' = em_total_minted s + x" "em_budget s' = em_budget s"
proof -
  have x: "x = min a (min (remaining s) (TOTAL_SUPPLY_CAP - em_total_minted s))"
    using assms(2) by (simp add: try_mint_def Let_def sat_sub_def min.assoc)
  then show "x = min a (min (remaining s) (TOTAL_SUPPLY_CAP - em_total_minted s))" .
  have le: "x \<le> em_budget s - em_minted s" "x \<le> TOTAL_SUPPLY_CAP - em_total_minted s"
    using x unfolding remaining_def sat_sub_def by linarith+
  have "em_minted s + x < 2 ^ 128" "em_total_minted s + x < 2 ^ 128"
    using assms(1) le cap_fits unfolding emission_ok_def by linarith+
  then have s': "s' = s\<lparr>em_minted := em_minted s + x, em_total_minted := em_total_minted s + x\<rparr>"
    using assms(2) by (auto simp: try_mint_def Let_def sat_add_exact)
  show "emission_ok s'" using assms(1) le unfolding emission_ok_def s' by (simp, intro conjI; linarith)
  show "remaining s' + x = remaining s"
    using assms(1) le by (simp add: remaining_def sat_sub_def s' emission_ok_def)
  show "em_total_minted s' = em_total_minted s + x" "em_budget s' = em_budget s" by (simp_all add: s')
qed

lemma min_chain:
  fixes a b r c x y :: nat
  assumes "x = min a (min r c)" "y = min b (min (r - x) (c - x))"
  shows "x + y = min (a + b) (min r c)"
proof (cases "a \<le> min r c")
  case True
  then have "x = a" "a \<le> r" "a \<le> c" using assms(1) by auto
  then show ?thesis using assms(2) by linarith
next
  case False
  then have "x = min r c" "min r c \<le> a" using assms(1) by auto
  then show ?thesis using assms(2) by linarith
qed

lemma mint_all_effect:
  "emission_ok s \<Longrightarrow> mint_all as s = (xs, s') \<Longrightarrow>
   sum_list xs = min (sum_list as) (min (remaining s) (TOTAL_SUPPLY_CAP - em_total_minted s)) \<and>
   em_total_minted s' = em_total_minted s + sum_list xs \<and> emission_ok s'"
proof (induction as arbitrary: s xs s')
  case (Cons a as)
  obtain x s1 where 1: "try_mint a s = (x, s1)" by (cases "try_mint a s")
  obtain ys s2 where 2: "mint_all as s1 = (ys, s2)" by (cases "mint_all as s1")
  from Cons.prems(2) 1 2 have xs: "xs = x # ys" "s' = s2" by auto
  note e = try_mint_effect[OF Cons.prems(1) 1]
  from Cons.IH[OF e(2) 2] have ih: "sum_list ys =
      min (sum_list as) (min (remaining s1) (TOTAL_SUPPLY_CAP - em_total_minted s1))"
    "em_total_minted s2 = em_total_minted s1 + sum_list ys" "emission_ok s2" by simp_all
  let ?R = "remaining s" and ?C = "TOTAL_SUPPLY_CAP - em_total_minted s"
  have r: "remaining s1 = ?R - x" "TOTAL_SUPPLY_CAP - em_total_minted s1 = ?C - x" "x \<le> ?R" "x \<le> ?C"
    "x \<le> a" using e(1,3,4) by linarith+
  have "sum_list (x # ys) = min (sum_list (a # as)) (min ?R ?C)"
    unfolding sum_list.Cons by (rule min_chain[OF e(1)]) (simp only: ih(1) r(1,2))
  with ih(2,3) e(4) show ?case unfolding xs by simp
qed simp

lemma advance_epoch_ok:
  assumes "emission_ok s" "advance_epoch h s = Ok s'"
  shows "emission_ok s' \<and> em_total_minted s' = em_total_minted s"
proof (cases "epoch_for_height h \<le> em_epoch s")
  case True
  with assms show ?thesis by (simp add: advance_epoch_def)
next
  case False
  with assms(2) obtain b where s': "s' = s\<lparr>em_epoch := epoch_for_height h,
      em_budget := sat_add 128 b (remaining s), em_minted := 0\<rparr>"
    by (auto simp: advance_epoch_def Let_def rbind_Ok_iff)
  show ?thesis using assms(1) sat_add_less[of 128 b "remaining s"] unfolding s' emission_ok_def
    by (simp del: sat_add_less)
qed

section \<open>Distribution\<close>

lemma distribute_reward_eq:
  "distribute_reward t =
     (if t * 80 < 2 ^ 128
      then Ok \<lparr>rd_compute = t * 80 div 100, rd_verifier = t * 7 div 100,
               rd_treasury = t - t * 80 div 100 - t * 7 div 100 - t * 3 div 100 - t * 5 div 100,
               rd_burned = t * 3 div 100, rd_delegators = t * 5 div 100\<rparr>
      else Panic)"
proof (cases "t * 80 < 2 ^ 128")
  case True
  have "t * 7 < 2 ^ 128" "t * 3 < 2 ^ 128" "t * 5 < 2 ^ 128" using True by linarith+
  moreover have "t * 80 div 100 \<le> t" "t * 7 div 100 \<le> t - t * 80 div 100"
    "t * 3 div 100 \<le> t - t * 80 div 100 - t * 7 div 100"
    "t * 5 div 100 \<le> t - t * 80 div 100 - t * 7 div 100 - t * 3 div 100" by linarith+
  ultimately show ?thesis using True
    by (simp add: distribute_reward_def COMPUTE_PERCENT_def VERIFIER_PERCENT_def REWARD_BURN_PERCENT_def
        DELEGATOR_PERCENT_def umul_def usub_def Let_def)
next
  case False
  then show ?thesis by (simp add: distribute_reward_def COMPUTE_PERCENT_def umul_def)
qed

lemma distribute_total: "distribute_reward t = Ok d \<Longrightarrow> rd_total d = t"
proof -
  have le: "t * 80 div 100 + t * 7 div 100 + t * 3 div 100 + t * 5 div 100 \<le> t" by linarith
  assume "distribute_reward t = Ok d"
  then show ?thesis using le by (auto simp: distribute_reward_eq rd_total_def split: if_splits)
qed

lemma latency_mult_bounds:
  assumes "latency_mult a e = Ok m"
  shows "10000 \<le> m \<and> m \<le> 12000"
proof (cases "e = 0 \<or> a \<ge> e")
  case True
  with assms show ?thesis by (simp add: latency_mult_def)
next
  case False
  define i where "i = 10000 - a * 10000 div e"
  have "m = 10000 + i * 2000 div 10000"
    using False assms unfolding i_def
    by (auto simp: latency_mult_def Let_def rbind_Ok_iff umul_Ok_iff usub_Ok_iff uadd_Ok_iff)
  moreover have "i \<le> 10000" by (simp add: i_def)
  ultimately show ?thesis by linarith
qed

text \<open>The parameters the commit path uses: no multiplier but the token rate.\<close>

lemma plain_block_reward:
  assumes "tokens * rate * 10000 < 2 ^ 128"
  shows "compute_block_reward tokens rate TextModel 7 100 100 9500 = Ok (tokens * rate)"
proof -
  have "tokens * rate < 2 ^ 128" using assms by linarith
  then show ?thesis using assms
    by (simp add: mult.commute compute_block_reward_def latency_mult_def uptime_mult_def reward_size_mult_def
        sat_mul_exact umul_def Let_def)
qed

section \<open>Properties\<close>

text \<open>Summed over any number of years the schedule emits at most 795 million ARK, below the cap
  of one billion.\<close>

theorem schedule_below_cap:
  "(\<Sum>y<n. emitted y) * ATOMS_PER_ARK \<le> 795000000 * ATOMS_PER_ARK \<and>
   795000000 * ATOMS_PER_ARK < TOTAL_SUPPLY_CAP"
  using schedule_total[of n] by (simp add: TOTAL_SUPPLY_CAP_def ATOMS_PER_ARK_def)

text \<open>A sequence of mints in one epoch pays out exactly what was asked for, or what was left of
  the epoch's budget or of the supply cap, whichever is least, and keeps the state within both.\<close>

theorem mints_stay_in_budget:
  assumes "emission_ok s" and "mint_all as s = (xs, s')"
  shows "sum_list xs = min (sum_list as) (min (remaining s) (TOTAL_SUPPLY_CAP - em_total_minted s)) \<and>
    em_total_minted s' = em_total_minted s + sum_list xs \<and> emission_ok s'"
  by (rule mint_all_effect[OF assms])

theorem mints_stay_in_budget_witness:
  "\<exists>xs s'. mint_all [3, 4, 5] \<lparr>em_epoch = 0, em_budget = 10, em_minted = 1, em_total_minted = 1\<rparr> = (xs, s') \<and>
    sum_list xs = 9"
proof -
  let ?s = "\<lparr>em_epoch = 0, em_budget = 10, em_minted = 1, em_total_minted = 1\<rparr>"
  obtain xs s' where m: "mint_all [3, 4, 5] ?s = (xs, s')" by (cases "mint_all [3, 4, 5] ?s")
  have "emission_ok ?s" by (simp add: emission_ok_def TOTAL_SUPPLY_CAP_def ATOMS_PER_ARK_def)
  from mints_stay_in_budget[OF this m] m show ?thesis
    by (simp add: remaining_def sat_sub_def TOTAL_SUPPLY_CAP_def ATOMS_PER_ARK_def)
qed

text \<open>A distributed reward adds up to the reward, and the split inlined in the chain crate
  credits exactly this distribution, with the delegators' share added to the compute address.\<close>

theorem inlined_split_is_distribution:
  assumes "distribute_reward t = Ok d"
  shows "rd_total d = t \<and>
    credit_reward_split c t ca va ra ta =
      Ok (credit_rewards c (d\<lparr>rd_compute := rd_compute d + rd_delegators d\<rparr>) ca va ta)"
proof -
  have b: "t * 80 < 2 ^ 128"
    using assms unfolding distribute_reward_eq by (rule contrapos_pp) (simp only: if_False result.simps not_False_eq_True)
  have d: "d = \<lparr>rd_compute = t * 80 div 100, rd_verifier = t * 7 div 100,
      rd_treasury = t - t * 80 div 100 - t * 7 div 100 - t * 3 div 100 - t * 5 div 100,
      rd_burned = t * 3 div 100, rd_delegators = t * 5 div 100\<rparr>"
    using assms unfolding distribute_reward_eq if_P[OF b] result.inject by (rule sym)
  show ?thesis using distribute_total[OF assms] b
    by (simp only: credit_reward_split_eq if_P split_lines_def credit_rewards_def d reward_distribution.simps
        simp_thms)
qed

theorem inlined_split_is_distribution_witness:
  "\<exists>d. distribute_reward 1000 = (Ok d :: (chain_error, _) result) \<and> rd_total d = 1000"
proof -
  obtain d where d: "distribute_reward 1000 = (Ok d :: (chain_error, _) result)"
    by (simp add: distribute_reward_eq)
  from inlined_split_is_distribution[OF d] d show ?thesis by blast
qed

end
