(* ===== verification/Pricing.thy ===== *)
theory Pricing
  imports Samples
begin

text \<open>
  The pricing oracle (\<^verbatim>\<open>crates/payments/src/pricing.rs\<close>): the integer square root by bisection, the
  raw price of a utilisation, the adaptive moving average and the epoch step. The lemmas show that the
  bisection ends with the integer square root, that the raw price grows with the utilisation and never
  exceeds the base price, and that a price never leaves the interval it starts in.
\<close>

section \<open>Constants and state\<close>

definition PRICE_SCALE :: nat where "PRICE_SCALE = 1000000000"

definition GENESIS_BASE_PRICE :: amount where "GENESIS_BASE_PRICE = 10000"

definition PRICE_FLOOR :: amount where "PRICE_FLOOR = 0"

definition PRICE_CEILING :: amount where "PRICE_CEILING = 10000000"

definition EMA_CURRENT_WEIGHT_STABLE :: nat where "EMA_CURRENT_WEIGHT_STABLE = 7000"

definition EMA_NEW_WEIGHT_STABLE :: nat where "EMA_NEW_WEIGHT_STABLE = 3000"

definition EMA_CURRENT_WEIGHT_MODERATE :: nat where "EMA_CURRENT_WEIGHT_MODERATE = 6000"

definition EMA_NEW_WEIGHT_MODERATE :: nat where "EMA_NEW_WEIGHT_MODERATE = 4000"

definition EMA_CURRENT_WEIGHT_FAST :: nat where "EMA_CURRENT_WEIGHT_FAST = 5000"

definition EMA_NEW_WEIGHT_FAST :: nat where "EMA_NEW_WEIGHT_FAST = 5000"

lemmas ema_weights = EMA_CURRENT_WEIGHT_STABLE_def EMA_NEW_WEIGHT_STABLE_def
  EMA_CURRENT_WEIGHT_MODERATE_def EMA_NEW_WEIGHT_MODERATE_def EMA_CURRENT_WEIGHT_FAST_def
  EMA_NEW_WEIGHT_FAST_def

record pricing_state =
  pr_price :: amount
  pr_epoch_jobs :: nat
  pr_epoch_capacity :: nat
  pr_epoch :: nat

definition pricing_genesis :: pricing_state where
  "pricing_genesis =
     \<lparr>pr_price = GENESIS_BASE_PRICE, pr_epoch_jobs = 0, pr_epoch_capacity = 1, pr_epoch = 0\<rparr>"

definition record_job :: "pricing_state \<Rightarrow> pricing_state" where
  "record_job s = s\<lparr>pr_epoch_jobs := sat_add 64 (pr_epoch_jobs s) 1\<rparr>"

definition utilization_scaled :: "pricing_state \<Rightarrow> nat" where
  "utilization_scaled s =
     (if pr_epoch_capacity s = 0 then 0
      else let raw = sat_mul 128 (pr_epoch_jobs s) PRICE_SCALE div pr_epoch_capacity s
      in min raw PRICE_SCALE)"

section \<open>Square root\<close>

text \<open>The loop of \<open>isqrt\<close>; \<^verbatim>\<open>div_ceil\<close> rounds up, so the middle is above \<open>lo\<close>.\<close>

function isqrt_loop :: "nat \<Rightarrow> nat \<Rightarrow> nat \<Rightarrow> nat" where
  "isqrt_loop n lo hi =
     (if lo < hi
      then let mid = lo + (hi - lo + 1) div 2
           in if mid \<le> n div mid then isqrt_loop n mid hi else isqrt_loop n lo (mid - 1)
      else lo)"
  by pat_completeness auto
termination
  by (relation "measure (\<lambda>(n, lo, hi). hi - lo)") (auto simp: Let_def)

declare isqrt_loop.simps [simp del]

definition isqrt :: "nat \<Rightarrow> nat" where
  "isqrt n = (if n \<le> 1 then n else isqrt_loop n 1 (min n (2 ^ 64)))"

section \<open>Prices\<close>

definition compute_raw_price :: "amount \<Rightarrow> nat \<Rightarrow> amount" where
  "compute_raw_price base_price util_scaled =
     (if util_scaled = 0 then 0
      else let sqrt_u = isqrt util_scaled;
               sqrt_s = isqrt PRICE_SCALE;
               numerator = sat_mul 128 (sat_mul 128 base_price util_scaled) sqrt_u;
               denominator = sat_mul 128 PRICE_SCALE sqrt_s
           in if denominator = 0 then 0 else numerator div denominator)"

definition adaptive_ema_weights :: "amount \<Rightarrow> amount \<Rightarrow> ('e, nat \<times> nat) result" where
  "adaptive_ema_weights cur new =
     (if cur = 0 then Ok (EMA_CURRENT_WEIGHT_FAST, EMA_NEW_WEIGHT_FAST)
      else rbind (if new > cur then usub new cur else usub cur new) (\<lambda>delta.
           rbind (umul 128 delta 10000) (\<lambda>scaled.
           let change_pct = scaled div cur
           in if change_pct > 5000 then Ok (EMA_CURRENT_WEIGHT_FAST, EMA_NEW_WEIGHT_FAST)
              else if change_pct > 2000 then Ok (EMA_CURRENT_WEIGHT_MODERATE, EMA_NEW_WEIGHT_MODERATE)
              else Ok (EMA_CURRENT_WEIGHT_STABLE, EMA_NEW_WEIGHT_STABLE))))"

definition ema_smooth_weighted :: "amount \<Rightarrow> amount \<Rightarrow> nat \<Rightarrow> nat \<Rightarrow> ('e, amount) result" where
  "ema_smooth_weighted cur new w_current w_new =
     rbind (umul 128 cur w_current) (\<lambda>c.
     rbind (umul 128 new w_new) (\<lambda>n.
     rbind (uadd 128 c n) (\<lambda>t. Ok (t div 10000))))"

definition pricing_advance_epoch :: "nat \<Rightarrow> nat \<Rightarrow> pricing_state \<Rightarrow> ('e, pricing_state) result" where
  "pricing_advance_epoch new_epoch new_capacity s =
     (if new_epoch \<le> pr_epoch s then Ok s
      else let util = utilization_scaled s;
               raw_price = compute_raw_price GENESIS_BASE_PRICE util
           in rbind (adaptive_ema_weights (pr_price s) raw_price) (\<lambda>(w_current, w_new).
              rbind (ema_smooth_weighted (pr_price s) raw_price w_current w_new) (\<lambda>p.
              Ok (s\<lparr>pr_price := max PRICE_FLOOR (min PRICE_CEILING p), pr_epoch := new_epoch,
                    pr_epoch_jobs := 0, pr_epoch_capacity := max new_capacity 1\<rparr>))))"

section \<open>Lemmas\<close>

lemma isqrt_loop_correct:
  "1 \<le> lo \<Longrightarrow> lo \<le> hi \<Longrightarrow> lo * lo \<le> n \<Longrightarrow> n < (hi + 1) * (hi + 1) \<Longrightarrow>
   isqrt_loop n lo hi * isqrt_loop n lo hi \<le> n \<and>
   n < (isqrt_loop n lo hi + 1) * (isqrt_loop n lo hi + 1)"
proof (induction n lo hi rule: isqrt_loop.induct)
  case (1 n lo hi)
  define mid where "mid = lo + (hi - lo + 1) div 2"
  show ?case
  proof (cases "lo < hi")
    case False
    then have "isqrt_loop n lo hi = lo" by (simp add: isqrt_loop.simps[of n lo hi])
    moreover have "lo = hi" using False "1.prems" by simp
    ultimately show ?thesis using "1.prems" by simp
  next
    case True
    then have mid: "lo < mid" "mid \<le> hi" "1 \<le> mid" "lo \<le> mid - 1" unfolding mid_def by linarith+
    have le: "mid \<le> n div mid \<longleftrightarrow> mid * mid \<le> n"
      using mid(3) by (simp add: less_eq_div_iff_mult_less_eq)
    note unfold = isqrt_loop.simps[of n lo hi, folded mid_def, unfolded Let_def]
    show ?thesis
    proof (cases "mid * mid \<le> n")
      case t: True
      with unfold True le have "isqrt_loop n lo hi = isqrt_loop n mid hi" by (simp add: mid_def)
      with "1.IH"(1)[OF True mid_def] t le mid "1.prems" show ?thesis by simp
    next
      case f: False
      with unfold True le have "isqrt_loop n lo hi = isqrt_loop n lo (mid - 1)" by (simp add: mid_def)
      with "1.IH"(2)[OF True mid_def] f le mid "1.prems" show ?thesis by simp
    qed
  qed
qed

lemma isqrt_correct:
  assumes "n < 2 ^ 128"
  shows "isqrt n * isqrt n \<le> n \<and> n < (isqrt n + 1) * (isqrt n + 1)"
proof (cases "n \<le> 1")
  case True
  then have "n = 0 \<or> n = 1" by linarith
  then show ?thesis by (auto simp: isqrt_def)
next
  case False
  define hi where "hi = min n (2 ^ 64)"
  have "n < (hi + 1) * (hi + 1)"
  proof (cases "n \<le> 2 ^ 64")
    case True
    then have "hi = n" by (simp add: hi_def)
    then show ?thesis by (simp add: algebra_simps)
  next
    case False
    then have "hi = 2 ^ 64" by (simp add: hi_def)
    then show ?thesis using assms by simp
  qed
  moreover have "1 \<le> hi" using False by (simp add: hi_def)
  ultimately show ?thesis using isqrt_loop_correct[of 1 hi n] False by (simp add: isqrt_def hi_def)
qed

lemma isqrt_mono:
  assumes "m \<le> n" "n < 2 ^ 128"
  shows "isqrt m \<le> isqrt n"
proof (rule ccontr)
  assume "\<not> isqrt m \<le> isqrt n"
  then have "isqrt n + 1 \<le> isqrt m" by simp
  then have "(isqrt n + 1) * (isqrt n + 1) \<le> isqrt m * isqrt m" by (rule mult_le_mono) fact
  moreover have "isqrt m * isqrt m \<le> m" "n < (isqrt n + 1) * (isqrt n + 1)"
    using isqrt_correct assms by simp_all
  ultimately show False using assms(1) by linarith
qed

lemma isqrt_scale: "isqrt PRICE_SCALE = 31622"
proof -
  have "isqrt PRICE_SCALE * isqrt PRICE_SCALE \<le> 1000000000 \<and>
      1000000000 < (isqrt PRICE_SCALE + 1) * (isqrt PRICE_SCALE + 1)"
    using isqrt_correct[of PRICE_SCALE] by (simp add: PRICE_SCALE_def)
  moreover have "31623 * 31623 \<le> k * k" if "31623 \<le> k" for k :: nat
    by (rule mult_le_mono[OF that that])
  moreover have "(k + 1) * (k + 1) \<le> 31622 * 31622" if "k + 1 \<le> 31622" for k :: nat
    by (rule mult_le_mono[OF that that])
  ultimately have "\<not> 31623 \<le> isqrt PRICE_SCALE" "\<not> isqrt PRICE_SCALE + 1 \<le> 31622"
    by fastforce+
  then show ?thesis by linarith
qed

lemma raw_price_eq:
  assumes "u \<le> PRICE_SCALE"
  shows "compute_raw_price GENESIS_BASE_PRICE u = 10000 * u * isqrt u div (1000000000 * 31622)"
proof -
  have "isqrt u \<le> 31622" using isqrt_mono[OF assms] unfolding isqrt_scale
    by (simp add: PRICE_SCALE_def)
  moreover have u: "u \<le> 1000000000" using assms by (simp add: PRICE_SCALE_def)
  ultimately have "10000 * u * isqrt u \<le> 10000 * 1000000000 * 31622" by (intro mult_le_mono) simp_all
  moreover have "10000 * u < 2 ^ 128" using u by simp
  ultimately show ?thesis
    by (simp add: compute_raw_price_def Let_def isqrt_scale sat_mul_exact GENESIS_BASE_PRICE_def)
       (simp add: PRICE_SCALE_def sat_mul_exact)
qed

lemma raw_price_mono:
  assumes "u \<le> v" "v \<le> PRICE_SCALE"
  shows "compute_raw_price GENESIS_BASE_PRICE u \<le> compute_raw_price GENESIS_BASE_PRICE v"
proof -
  have "isqrt u \<le> isqrt v" using isqrt_mono[OF assms(1)] assms(2) by (simp add: PRICE_SCALE_def)
  then have "10000 * u * isqrt u \<le> 10000 * v * isqrt v" using assms(1) by (intro mult_le_mono) simp_all
  then show ?thesis using assms by (simp add: raw_price_eq div_le_mono)
qed

lemma raw_price_top: "compute_raw_price GENESIS_BASE_PRICE PRICE_SCALE = GENESIS_BASE_PRICE"
  by (simp add: raw_price_eq isqrt_scale) (simp add: PRICE_SCALE_def GENESIS_BASE_PRICE_def)

lemma raw_price_le: "u \<le> PRICE_SCALE \<Longrightarrow> compute_raw_price GENESIS_BASE_PRICE u \<le> GENESIS_BASE_PRICE"
  using raw_price_mono[of u PRICE_SCALE] raw_price_top by simp

lemma utilization_le: "utilization_scaled s \<le> PRICE_SCALE"
  by (simp add: utilization_scaled_def Let_def)

text \<open>The three pairs of weights add up to 10000, so the average lies between its arguments.\<close>

lemma ema_between:
  assumes "adaptive_ema_weights cur new = Ok (wc, wn)" "ema_smooth_weighted cur new wc wn = Ok p"
  shows "min cur new \<le> p \<and> p \<le> max cur new"
proof -
  have w: "wc + wn = 10000" using assms(1)
    by (auto simp: adaptive_ema_weights_def Let_def rbind_Ok_iff ema_weights split: if_splits)
  have p: "p = (cur * wc + new * wn) div 10000"
    using assms(2) by (auto simp: ema_smooth_weighted_def rbind_Ok_iff umul_Ok_iff uadd_Ok_iff)
  let ?m = "min cur new" and ?M = "max cur new"
  have "?m * wc + ?m * wn \<le> cur * wc + new * wn" "cur * wc + new * wn \<le> ?M * wc + ?M * wn"
    by (intro add_mono mult_le_mono1; simp)+
  then have "?m * 10000 \<le> cur * wc + new * wn" "cur * wc + new * wn \<le> ?M * 10000"
    unfolding distrib_left[symmetric] w .
  then show ?thesis unfolding p by linarith
qed

section \<open>Runs of the oracle\<close>

datatype pricing_event = JobDone | EpochStarts nat nat

primrec pricing_run :: "pricing_event list \<Rightarrow> pricing_state \<Rightarrow> ('e, pricing_state) result" where
  "pricing_run [] s = Ok s"
| "pricing_run (ev # evs) s =
     (case ev of JobDone \<Rightarrow> pricing_run evs (record_job s)
      | EpochStarts e k \<Rightarrow> rbind (pricing_advance_epoch e k s) (pricing_run evs))"

lemma weights_exist:
  assumes "cur \<le> GENESIS_BASE_PRICE" "new \<le> GENESIS_BASE_PRICE"
  shows "\<exists>wc wn. adaptive_ema_weights cur new = Ok (wc, wn) \<and> wc \<le> 10000 \<and> wn \<le> 10000"
proof (cases "cur = 0")
  case True
  then show ?thesis by (simp add: adaptive_ema_weights_def ema_weights)
next
  case False
  define d where "d = (if new > cur then new - cur else cur - new)"
  have "(if new > cur then usub new cur else usub cur new) = (Ok d :: ('a, nat) result)"
    by (simp add: usub_def d_def)
  moreover have "d \<le> 10000" using assms unfolding d_def GENESIS_BASE_PRICE_def by (cases "new > cur") simp_all
  then have "umul 128 d 10000 = (Ok (d * 10000) :: ('a, nat) result)" by (simp add: umul_def)
  ultimately show ?thesis using False
    by (simp add: adaptive_ema_weights_def Let_def ema_weights)
qed

lemma advance_exists:
  assumes "pr_price s \<le> GENESIS_BASE_PRICE"
  shows "\<exists>s'. pricing_advance_epoch e k s = Ok s' \<and> pr_price s' \<le> GENESIS_BASE_PRICE"
proof (cases "e \<le> pr_epoch s")
  case True
  then show ?thesis using assms by (simp add: pricing_advance_epoch_def)
next
  case False
  define raw where "raw = compute_raw_price GENESIS_BASE_PRICE (utilization_scaled s)"
  have raw: "raw \<le> GENESIS_BASE_PRICE" unfolding raw_def by (rule raw_price_le[OF utilization_le])
  obtain wc wn where w: "adaptive_ema_weights (pr_price s) raw = (Ok (wc, wn) :: ('a, nat \<times> nat) result)"
    "wc \<le> 10000" "wn \<le> 10000" using weights_exist[OF assms raw] by blast
  have "pr_price s * wc \<le> 10000 * 10000" "raw * wn \<le> 10000 * 10000"
    using assms raw w(2,3) by (auto intro!: mult_le_mono simp: GENESIS_BASE_PRICE_def simp del: mult_numeral_left_semiring_numeral numeral_times_numeral)
  then obtain p where p: "ema_smooth_weighted (pr_price s) raw wc wn = (Ok p :: ('a, nat) result)"
    by (simp add: ema_smooth_weighted_def umul_def uadd_def)
  have "p \<le> GENESIS_BASE_PRICE" using ema_between[OF w(1) p] assms raw by linarith
  then have "max PRICE_FLOOR (min PRICE_CEILING p) \<le> GENESIS_BASE_PRICE" by (simp add: PRICE_FLOOR_def)
  then show ?thesis using False w(1) p
    by (simp add: pricing_advance_epoch_def Let_def raw_def[symmetric])
qed

lemma run_exists:
  "pr_price s \<le> GENESIS_BASE_PRICE \<Longrightarrow>
   \<exists>s'. pricing_run evs s = (Ok s' :: (chain_error, pricing_state) result) \<and> pr_price s' \<le> GENESIS_BASE_PRICE"
proof (induction evs arbitrary: s)
  case (Cons ev evs)
  show ?case
  proof (cases ev)
    case JobDone
    then show ?thesis using Cons by (simp add: record_job_def)
  next
    case (EpochStarts e k)
    obtain s1 where "pricing_advance_epoch e k s = (Ok s1 :: (chain_error, _) result)"
      "pr_price s1 \<le> GENESIS_BASE_PRICE" using advance_exists[OF Cons.prems] by blast
    then show ?thesis using Cons.IH EpochStarts by simp
  qed
qed simp

section \<open>Properties\<close>

text \<open>C29: the bisection ends for every 128-bit number, with the integer square root.\<close>

theorem isqrt_is_floor:
  assumes "n < 2 ^ 128"
  shows "isqrt n * isqrt n \<le> n \<and> n < (isqrt n + 1) * (isqrt n + 1)"
  by (rule isqrt_correct[OF assms])

theorem isqrt_is_floor_witness: "isqrt 10 * isqrt 10 \<le> 10 \<and> 10 < (isqrt 10 + 1) * (isqrt 10 + 1)"
  by (rule isqrt_is_floor) simp

text \<open>Whatever jobs and epochs follow the genesis state, the oracle never aborts and its price never
  exceeds the genesis price: the utilisation is at most one, so the documented ceiling, a thousand times
  higher, is never reached.\<close>

theorem price_never_rises:
  "\<exists>s. pricing_run evs pricing_genesis = (Ok s :: (chain_error, pricing_state) result) \<and>
     pr_price s \<le> GENESIS_BASE_PRICE \<and> GENESIS_BASE_PRICE * 1000 \<le> PRICE_CEILING"
  using run_exists[of pricing_genesis evs]
  by (simp add: pricing_genesis_def) (simp add: GENESIS_BASE_PRICE_def PRICE_CEILING_def)

text \<open>An epoch with a higher utilisation never has a lower raw price, and the smoothed price lies
  between the previous price and the raw one.\<close>

theorem smoothed_price_between:
  assumes "pricing_advance_epoch e k s = (Ok s' :: (chain_error, pricing_state) result)"
    and "pr_epoch s < e" and "pr_price s \<le> PRICE_CEILING"
  shows "(let raw = compute_raw_price GENESIS_BASE_PRICE (utilization_scaled s)
          in min (pr_price s) raw \<le> pr_price s' \<and> pr_price s' \<le> max (pr_price s) raw) \<and>
         (\<forall>u v. u \<le> v \<longrightarrow> v \<le> PRICE_SCALE \<longrightarrow>
           compute_raw_price GENESIS_BASE_PRICE u \<le> compute_raw_price GENESIS_BASE_PRICE v)"
proof -
  define raw where "raw = compute_raw_price GENESIS_BASE_PRICE (utilization_scaled s)"
  have "raw \<le> GENESIS_BASE_PRICE" unfolding raw_def by (rule raw_price_le[OF utilization_le])
  then have raw: "raw \<le> PRICE_CEILING" by (simp add: GENESIS_BASE_PRICE_def PRICE_CEILING_def)
  from assms(1,2) obtain wc wn p where
    w: "adaptive_ema_weights (pr_price s) raw = (Ok (wc, wn) :: (chain_error, _) result)" and
    p: "ema_smooth_weighted (pr_price s) raw wc wn = (Ok p :: (chain_error, _) result)" and
    s': "pr_price s' = max PRICE_FLOOR (min PRICE_CEILING p)"
    by (auto simp: pricing_advance_epoch_def Let_def raw_def rbind_Ok_iff split: prod.splits)
  note b = ema_between[OF w p]
  have "p \<le> PRICE_CEILING" using b raw assms(3) by linarith
  then have "pr_price s' = p" by (simp add: s' PRICE_FLOOR_def)
  then show ?thesis using b raw_price_mono by (simp add: raw_def Let_def)
qed

theorem smoothed_price_between_witness:
  "\<exists>s'. pricing_advance_epoch 1 5 (record_job pricing_genesis) = (Ok s' :: (chain_error, pricing_state) result) \<and>
    GENESIS_BASE_PRICE \<le> pr_price s'"
proof -
  let ?s = "record_job pricing_genesis"
  have u: "utilization_scaled ?s = PRICE_SCALE"
    by (simp add: utilization_scaled_def record_job_def pricing_genesis_def PRICE_SCALE_def Let_def sat_add_exact
        sat_mul_exact)
  have p: "pr_price ?s = GENESIS_BASE_PRICE" "pr_epoch ?s = 0"
    by (simp_all add: record_job_def pricing_genesis_def)
  obtain s' where s': "pricing_advance_epoch 1 5 ?s = (Ok s' :: (chain_error, pricing_state) result)"
    using advance_exists[of ?s] p by fastforce
  have "GENESIS_BASE_PRICE \<le> PRICE_CEILING" by (simp add: GENESIS_BASE_PRICE_def PRICE_CEILING_def)
  with smoothed_price_between[OF s'] show ?thesis using s' p u raw_price_top by (simp add: Let_def)
qed

end
