(* ===== verification/Mempool.thy ===== *)
theory Mempool
  imports Samples "HOL-Library.Sublist"
begin

text \<open>
  The transaction pool (\<^verbatim>\<open>crates/consensus/src/mempool.rs\<close>): three indices over the pending
  transactions (by hash, by priority, by sender and nonce), insertion with fee replacement and
  eviction, removal, and the drain that fills a block. The invariant says that the indices agree and
  that the pool keeps its limits; the lemmas show that every operation keeps it, that the eviction
  loop ends, and what insertion and draining choose.
\<close>

section \<open>Data\<close>

definition DEFAULT_MAX_COUNT :: nat where "DEFAULT_MAX_COUNT = 100000"

definition DEFAULT_MAX_BYTES :: nat where "DEFAULT_MAX_BYTES = 50 * 1024 * 1024"

datatype mempool_error =
  Unsupported string
| Duplicate
| MpOversize nat nat
| UnderpricedReplacement gas gas

datatype priority_key = PriorityKey (pk_fee: gas) (pk_seq: nat) (pk_hash: hash256)

text \<open>The order of the priority index: higher fee first, then earlier arrival, then the hash.\<close>

definition priority_less :: "priority_key \<Rightarrow> priority_key \<Rightarrow> bool" where
  "priority_less a b \<longleftrightarrow> pk_fee b < pk_fee a \<or>
     pk_fee a = pk_fee b \<and> (pk_seq a < pk_seq b \<or> pk_seq a = pk_seq b \<and> pk_hash a < pk_hash b)"

instantiation priority_key :: linorder
begin

definition less_priority_key :: "priority_key \<Rightarrow> priority_key \<Rightarrow> bool" where
  "less_priority_key a b \<longleftrightarrow> priority_less a b"

definition less_eq_priority_key :: "priority_key \<Rightarrow> priority_key \<Rightarrow> bool" where
  "less_eq_priority_key a b \<longleftrightarrow> a = b \<or> priority_less a b"

instance
  by standard
    (auto simp: less_priority_key_def less_eq_priority_key_def priority_less_def
      intro: priority_key.expand)

end

record mp_entry =
  me_tx :: signed_transaction
  me_sender :: address
  me_nonce :: nonce
  me_fee :: gas
  me_seq :: nat
  me_bytes :: nat

record mempool =
  mp_max_count :: nat
  mp_max_bytes :: nat
  mp_current_bytes :: nat
  mp_by_hash :: "(hash256, mp_entry) kv"
  mp_by_priority :: "(priority_key, unit) kv"
  mp_by_sender :: "(address, (nonce, hash256) kv) kv"
  mp_next_seq :: nat

definition with_limits :: "nat \<Rightarrow> nat \<Rightarrow> mempool" where
  "with_limits max_count max_bytes =
     \<lparr>mp_max_count = max_count, mp_max_bytes = max_bytes, mp_current_bytes = 0,
      mp_by_hash = kv_empty, mp_by_priority = kv_empty, mp_by_sender = kv_empty, mp_next_seq = 0\<rparr>"

definition mp_default :: mempool where
  "mp_default = with_limits DEFAULT_MAX_COUNT DEFAULT_MAX_BYTES"

definition mp_len :: "mempool \<Rightarrow> nat" where
  "mp_len p = kv_size (mp_by_hash p)"

definition mp_is_empty :: "mempool \<Rightarrow> bool" where
  "mp_is_empty p \<longleftrightarrow> mp_len p = 0"

definition mp_contains :: "hash256 \<Rightarrow> mempool \<Rightarrow> bool" where
  "mp_contains h p \<longleftrightarrow> kv_get (mp_by_hash p) h \<noteq> None"

definition entry_key :: "hash256 \<Rightarrow> mp_entry \<Rightarrow> priority_key" where
  "entry_key h e = PriorityKey (me_fee e) (me_seq e) h"

section \<open>Operations\<close>

definition without_nonce :: "address \<Rightarrow> nonce \<Rightarrow> (address, (nonce, hash256) kv) kv \<Rightarrow>
    (address, (nonce, hash256) kv) kv" where
  "without_nonce sender n by_sender =
     (case kv_get by_sender sender of
        None \<Rightarrow> by_sender
      | Some per_nonce \<Rightarrow>
          (let per_nonce' = kv_del n per_nonce
           in if kv_size per_nonce' = 0 then kv_del sender by_sender
              else kv_put sender per_nonce' by_sender))"

definition remove_by_hash :: "hash256 \<Rightarrow> mempool \<Rightarrow> mp_entry option \<times> mempool" where
  "remove_by_hash h p =
     (case kv_get (mp_by_hash p) h of
        None \<Rightarrow> (None, p)
      | Some e \<Rightarrow>
          (Some e, p\<lparr>mp_by_hash := kv_del h (mp_by_hash p),
                     mp_current_bytes := sat_sub (mp_current_bytes p) (me_bytes e),
                     mp_by_priority := kv_del (entry_key h e) (mp_by_priority p),
                     mp_by_sender := without_nonce (me_sender e) (me_nonce e) (mp_by_sender p)\<rparr>))"

definition mp_remove :: "hash256 \<Rightarrow> mempool \<Rightarrow> bool \<times> mempool" where
  "mp_remove h p = (let (e, p') = remove_by_hash h p in (e \<noteq> None, p'))"

definition remove_many :: "hash256 list \<Rightarrow> mempool \<Rightarrow> mempool" where
  "remove_many hs p = fold (\<lambda>h p. snd (remove_by_hash h p)) hs p"

fun extract_sender_nonce_fee :: "transaction \<Rightarrow> (mempool_error, address \<times> nonce \<times> gas) result" where
  "extract_sender_nonce_fee (Transfer a b x n fee) = Ok (a, n, fee)"
| "extract_sender_nonce_fee (StakeOp _) = Err (Unsupported ''StakeOp (Week 9)'')"
| "extract_sender_nonce_fee (ReceiptBatchTx _) = Err (Unsupported ''ReceiptBatch (Week 11 mempool lane)'')"
| "extract_sender_nonce_fee (DisputeTx _) = Err (Unsupported ''Dispute (Week 12 mempool lane)'')"
| "extract_sender_nonce_fee (RegisterModel m registrar d) = Ok (registrar, 0, 200000)"
| "extract_sender_nonce_fee (EscrowLock a j x n fee) = Ok (a, n, fee)"
| "extract_sender_nonce_fee (EscrowSettle _ _ _ _ _ _) = Err (Unsupported ''EscrowSettle (proposer-only)'')"
| "extract_sender_nonce_fee (RewardMint _ _ _ _ _ _ _) = Err (Unsupported ''RewardMint (proposer-only)'')"
| "extract_sender_nonce_fee (GovProposal p) = Ok (pr_proposer p, 0, 500000)"
| "extract_sender_nonce_fee (GovVote i voter v) = Ok (voter, 0, 30000)"
| "extract_sender_nonce_fee (RegisterTeeCapability n operator t) = Ok (operator, 0, 200000)"
| "extract_sender_nonce_fee (RegisterGateway n operator u s) = Ok (operator, 0, 100000)"
| "extract_sender_nonce_fee (UnregisterGateway n operator) = Ok (operator, 0, 50000)"

text \<open>The eviction loop. \<open>None\<close> stands for a loop that does not return, which the code would do if
  the priority index named a transaction the hash index lacks.\<close>

partial_function (option) evict ::
    "hash256 \<Rightarrow> gas \<Rightarrow> mempool \<Rightarrow> (mempool \<times> (mempool_error, hash256) result) option" where
  "evict h fee p =
     (if mp_len p > mp_max_count p \<or> mp_current_bytes p > mp_max_bytes p then
        (if kv_entries (mp_by_priority p) = [] then Some (p, Ok h)
         else let victim = fst (last (kv_entries (mp_by_priority p)));
                  p' = snd (remove_by_hash (pk_hash victim) p)
              in if pk_hash victim = h
                 then Some (p', Err (UnderpricedReplacement (sat_add 64 (pk_fee victim) 1) fee))
                 else evict h fee p')
      else Some (p, Ok h))"

definition pending_at :: "address \<Rightarrow> nonce \<Rightarrow> mempool \<Rightarrow> hash256 option" where
  "pending_at sender n p = Option.bind (kv_get (mp_by_sender p) sender) (\<lambda>m. kv_get m n)"

text \<open>The replacement step of \<open>insert\<close>.\<close>

definition replace_pending :: "address \<Rightarrow> nonce \<Rightarrow> gas \<Rightarrow> mempool \<Rightarrow> (mempool_error, mempool) result" where
  "replace_pending sender n fee p =
     (case pending_at sender n p of
        None \<Rightarrow> Ok p
      | Some h' \<Rightarrow>
          (case kv_get (mp_by_hash p) h' of
             None \<Rightarrow> Panic
           | Some existing \<Rightarrow>
               if fee \<le> me_fee existing then Err (UnderpricedReplacement (me_fee existing) fee)
               else Ok (snd (remove_by_hash h' p))))"

text \<open>The bookkeeping that enters one transaction into the three indices.\<close>

definition admit :: "hash256 \<Rightarrow> mp_entry \<Rightarrow> mempool \<Rightarrow> mempool" where
  "admit h e p =
     p\<lparr>mp_next_seq := mp_next_seq p + 1,
       mp_current_bytes := mp_current_bytes p + me_bytes e,
       mp_by_priority := kv_put (entry_key h e) () (mp_by_priority p),
       mp_by_sender := kv_put (me_sender e)
         (kv_put (me_nonce e) h
           (case kv_get (mp_by_sender p) (me_sender e) of None \<Rightarrow> kv_empty | Some m \<Rightarrow> m)) (mp_by_sender p),
       mp_by_hash := kv_put h e (mp_by_hash p)\<rparr>"

definition mp_insert :: "ext \<Rightarrow> signed_transaction \<Rightarrow> mempool \<Rightarrow>
    (mempool \<times> (mempool_error, hash256) result) option" where
  "mp_insert X stx p =
     (if check_signed_tx_size X stx \<noteq> Ok ()
      then Some (p, Err (MpOversize (stx_encoded_len X stx) MAX_SIGNED_TX_BYTES))
      else case extract_sender_nonce_fee (stx_tx stx) of
        Err e \<Rightarrow> Some (p, Err e)
      | Panic \<Rightarrow> Some (p, Panic)
      | Ok (sender, n, fee) \<Rightarrow>
          (let h = stx_hash X stx; encoded_bytes = stx_encoded_len X stx
           in if kv_get (mp_by_hash p) h \<noteq> None then Some (p, Err Duplicate)
              else case replace_pending sender n fee p of
                Err e \<Rightarrow> Some (p, Err e)
              | Panic \<Rightarrow> Some (p, Panic)
              | Ok p1 \<Rightarrow>
                  (let seq = mp_next_seq p1;
                       entry = \<lparr>me_tx = stx, me_sender = sender, me_nonce = n, me_fee = fee,
                                me_seq = seq, me_bytes = encoded_bytes\<rparr>
                   in if seq + 1 \<ge> 2 ^ 64 \<or> mp_current_bytes p1 + encoded_bytes \<ge> 2 ^ 64
                      then Some (p1, Panic)
                      else evict h fee (admit h entry p1))))"

text \<open>One step of the drain: a transaction is taken if it fits the two budgets.\<close>

fun drain_step :: "gas \<Rightarrow> nat \<Rightarrow> hash256 \<times> gas \<times> nat \<Rightarrow>
    signed_transaction list \<times> gas \<times> nat \<times> mempool \<Rightarrow>
    signed_transaction list \<times> gas \<times> nat \<times> mempool" where
  "drain_step max_gas max_bytes (h, fee, sz) (picked, gas_used, bytes_used, p) =
     (if sat_add 64 gas_used fee > max_gas then (picked, gas_used, bytes_used, p)
      else if sat_add 64 bytes_used sz > max_bytes then (picked, gas_used, bytes_used, p)
      else case remove_by_hash h p of
             (None, p') \<Rightarrow> (picked, gas_used, bytes_used, p')
           | (Some e, p') \<Rightarrow>
               (picked @ [me_tx e], sat_add 64 gas_used fee, sat_add 64 bytes_used sz, p'))"

definition drain_order :: "mempool \<Rightarrow> (hash256 \<times> gas \<times> nat) list" where
  "drain_order p =
     List.map_filter (\<lambda>k. map_option (\<lambda>e. (pk_hash k, me_fee e, me_bytes e))
       (kv_get (mp_by_hash p) (pk_hash k))) (map fst (kv_entries (mp_by_priority p)))"

definition drain_for_block :: "gas \<Rightarrow> nat \<Rightarrow> mempool \<Rightarrow>
    signed_transaction list \<times> gas \<times> nat \<times> mempool" where
  "drain_for_block max_gas max_bytes p =
     fold (drain_step max_gas max_bytes) (drain_order p) ([], 0, 0, p)"

text \<open>Errors of a single insertion are ignored; \<open>None\<close> is a loop that does not return, an abort is
  the second component.\<close>

fun readmit :: "ext \<Rightarrow> signed_transaction list \<Rightarrow> mempool \<Rightarrow> (mempool \<times> (mempool_error, unit) result) option" where
  "readmit X [] p = Some (p, Ok ())"
| "readmit X (t # ts) p = Option.bind (mp_insert X t p) (\<lambda>(p', r).
     if r = Panic then Some (p', Panic) else readmit X ts p')"

section \<open>Invariant\<close>

definition entry_ok :: "ext \<Rightarrow> nat \<Rightarrow> hash256 \<Rightarrow> mp_entry \<Rightarrow> bool" where
  "entry_ok X next_seq h e \<longleftrightarrow>
     h = stx_hash X (me_tx e) \<and> me_bytes e = stx_encoded_len X (me_tx e) \<and>
     extract_sender_nonce_fee (stx_tx (me_tx e)) = Ok (me_sender e, me_nonce e, me_fee e) \<and>
     me_seq e < next_seq"

definition indices_agree :: "ext \<Rightarrow> mempool \<Rightarrow> bool" where
  "indices_agree X p \<longleftrightarrow>
     mp_current_bytes p = kv_sum (\<lambda>_ e. me_bytes e) (mp_by_hash p) \<and>
     (\<forall>h e. kv_get (mp_by_hash p) h = Some e \<longrightarrow> entry_ok X (mp_next_seq p) h e) \<and>
     (\<forall>k. kv_get (mp_by_priority p) k = Some () \<longleftrightarrow>
       (\<exists>e. kv_get (mp_by_hash p) (pk_hash k) = Some e \<and> k = entry_key (pk_hash k) e)) \<and>
     (\<forall>a n h. pending_at a n p = Some h \<longleftrightarrow>
       (\<exists>e. kv_get (mp_by_hash p) h = Some e \<and> me_sender e = a \<and> me_nonce e = n)) \<and>
     (\<forall>a m. kv_get (mp_by_sender p) a = Some m \<longrightarrow> kv_size m \<noteq> 0)"

definition within_limits :: "mempool \<Rightarrow> bool" where
  "within_limits p \<longleftrightarrow> mp_len p \<le> mp_max_count p \<and> mp_current_bytes p \<le> mp_max_bytes p"

section \<open>The indices under removal and admission\<close>

lemma pending_at_upd [simp]:
  "pending_at a n (p\<lparr>mp_by_hash := x, mp_current_bytes := y, mp_by_priority := z, mp_by_sender := s\<rparr>) =
   Option.bind (kv_get s a) (\<lambda>m. kv_get m n)"
  by (simp add: pending_at_def)

lemma pending_without:
  "Option.bind (kv_get (without_nonce a' n' s) a) (\<lambda>m. kv_get m n) =
   (if a = a' \<and> n = n' then None else Option.bind (kv_get s a) (\<lambda>m. kv_get m n))"
proof (cases "kv_get s a'")
  case (Some m)
  show ?thesis
  proof (cases "kv_size (kv_del n' m) = 0")
    case True
    then have "kv_get (kv_del n' m) n = None" by (simp add: kv_size_eq_0_iff)
    then show ?thesis using Some True by (auto simp: without_nonce_def split: if_splits)
  qed (use Some in \<open>auto simp: without_nonce_def Let_def\<close>)
qed (auto simp: without_nonce_def)

lemma without_nonempty:
  assumes "\<forall>a m. kv_get s a = Some m \<longrightarrow> kv_size m \<noteq> 0"
  shows "\<forall>a m. kv_get (without_nonce a' n' s) a = Some m \<longrightarrow> kv_size m \<noteq> 0"
  using assms by (auto simp: without_nonce_def Let_def split: option.splits if_splits)

lemma remove_by_hash_None: "kv_get (mp_by_hash p) h = None \<Longrightarrow> remove_by_hash h p = (None, p)"
  by (simp add: remove_by_hash_def)

lemma remove_by_hash_fields:
  assumes "kv_get (mp_by_hash p) h = Some e"
  shows "fst (remove_by_hash h p) = Some e"
    and "mp_by_hash (snd (remove_by_hash h p)) = kv_del h (mp_by_hash p)"
    and "mp_current_bytes (snd (remove_by_hash h p)) = mp_current_bytes p - me_bytes e"
    and "mp_by_priority (snd (remove_by_hash h p)) = kv_del (entry_key h e) (mp_by_priority p)"
    and "mp_by_sender (snd (remove_by_hash h p)) = without_nonce (me_sender e) (me_nonce e) (mp_by_sender p)"
    and "mp_next_seq (snd (remove_by_hash h p)) = mp_next_seq p"
    and "mp_max_count (snd (remove_by_hash h p)) = mp_max_count p"
    and "mp_max_bytes (snd (remove_by_hash h p)) = mp_max_bytes p"
  using assms by (simp_all add: remove_by_hash_def sat_sub_def)

lemma indices_agreeD:
  assumes "indices_agree X p"
  shows "mp_current_bytes p = kv_sum (\<lambda>_ e. me_bytes e) (mp_by_hash p)"
    and "kv_get (mp_by_hash p) h = Some e \<Longrightarrow> entry_ok X (mp_next_seq p) h e"
    and "kv_get (mp_by_priority p) k = Some () \<longleftrightarrow>
       (\<exists>e. kv_get (mp_by_hash p) (pk_hash k) = Some e \<and> k = entry_key (pk_hash k) e)"
    and "pending_at a n p = Some h \<longleftrightarrow>
       (\<exists>e. kv_get (mp_by_hash p) h = Some e \<and> me_sender e = a \<and> me_nonce e = n)"
    and "kv_get (mp_by_sender p) a = Some m \<Longrightarrow> kv_size m \<noteq> 0"
  using assms unfolding indices_agree_def by blast+

lemma entry_key_hash [simp]: "pk_hash (entry_key h e) = h"
  by (simp add: entry_key_def)

lemma remove_agrees:
  assumes "indices_agree X p"
  shows "indices_agree X (snd (remove_by_hash h p))"
proof (cases "kv_get (mp_by_hash p) h")
  case None
  with assms show ?thesis by (simp add: remove_by_hash_None)
next
  case (Some e)
  note f = remove_by_hash_fields[OF Some] and d = indices_agreeD[OF assms]
  let ?p = "snd (remove_by_hash h p)"
  have pend: "pending_at a n ?p = (if a = me_sender e \<and> n = me_nonce e then None else pending_at a n p)" for a n
    unfolding pending_at_def f(5) by (rule pending_without)
  have 1: "mp_current_bytes ?p = kv_sum (\<lambda>_ e. me_bytes e) (mp_by_hash ?p)"
    using kv_sum_del[of "\<lambda>_ e. me_bytes e" h "mp_by_hash p"] Some d(1) unfolding f by simp
  have 2: "\<forall>h' e'. kv_get (mp_by_hash ?p) h' = Some e' \<longrightarrow> entry_ok X (mp_next_seq ?p) h' e'"
    using d(2) unfolding f by simp
  have 3: "kv_get (mp_by_priority ?p) k = Some () \<longleftrightarrow>
      (\<exists>e. kv_get (mp_by_hash ?p) (pk_hash k) = Some e \<and> k = entry_key (pk_hash k) e)" for k
  proof (cases "pk_hash k = h")
    case True
    then show ?thesis unfolding f using Some by (auto simp: d(3))
  next
    case False
    then have "k \<noteq> entry_key h e" by auto
    then show ?thesis unfolding f using False by (simp add: d(3))
  qed
  have 4: "pending_at a n ?p = Some h' \<longleftrightarrow>
      (\<exists>e. kv_get (mp_by_hash ?p) h' = Some e \<and> me_sender e = a \<and> me_nonce e = n)" for a n h'
  proof (cases "a = me_sender e \<and> n = me_nonce e")
    case True
    then have "pending_at a n p = Some h" using Some by (simp add: d(4))
    then have "\<nexists>e'. h' \<noteq> h \<and> kv_get (mp_by_hash p) h' = Some e' \<and> me_sender e' = a \<and> me_nonce e' = n"
      using d(4)[of a n h'] by auto
    then show ?thesis using True unfolding pend f by auto
  next
    case False
    then show ?thesis using Some unfolding pend f by (auto simp: d(4))
  qed
  have 5: "\<forall>a m. kv_get (mp_by_sender ?p) a = Some m \<longrightarrow> kv_size m \<noteq> 0"
    unfolding f by (rule without_nonempty) (use d(5) in blast)
  show ?thesis unfolding indices_agree_def using 1 2 3 4 5 by blast
qed

lemma admit_fields [simp]:
  "mp_by_hash (admit h e p) = kv_put h e (mp_by_hash p)"
  "mp_by_priority (admit h e p) = kv_put (entry_key h e) () (mp_by_priority p)"
  "mp_current_bytes (admit h e p) = mp_current_bytes p + me_bytes e"
  "mp_next_seq (admit h e p) = mp_next_seq p + 1"
  "mp_max_count (admit h e p) = mp_max_count p"
  "mp_max_bytes (admit h e p) = mp_max_bytes p"
  by (simp_all add: admit_def)

lemma pending_admit:
  "pending_at a n (admit h e p) =
   (if a = me_sender e \<and> n = me_nonce e then Some h else pending_at a n p)"
  by (auto simp: pending_at_def admit_def split: option.splits)

lemma kv_size_put_pos: "0 < kv_size (kv_put k v m)"
proof (rule ccontr)
  assume "\<not> 0 < kv_size (kv_put k v m)"
  then have "kv_get (kv_put k v m) k = None" by (simp only: kv_size_eq_0_iff kv_get_empty not_gr_zero)
  then show False by simp
qed

lemma admit_agrees:
  assumes "indices_agree X p" "kv_get (mp_by_hash p) h = None"
    and "pending_at (me_sender e) (me_nonce e) p = None" "entry_ok X (mp_next_seq p + 1) h e"
  shows "indices_agree X (admit h e p)"
proof -
  note d = indices_agreeD[OF assms(1)]
  let ?p = "admit h e p"
  have 1: "mp_current_bytes ?p = kv_sum (\<lambda>_ e. me_bytes e) (mp_by_hash ?p)"
    using kv_sum_put[of "\<lambda>_ e. me_bytes e" h e "mp_by_hash p"] assms(2) d(1) by simp
  have 2: "\<forall>h' e'. kv_get (mp_by_hash ?p) h' = Some e' \<longrightarrow> entry_ok X (mp_next_seq ?p) h' e'"
  proof (intro allI impI)
    fix h' e' assume "kv_get (mp_by_hash ?p) h' = Some e'"
    then consider "h' = h" "e' = e" | "entry_ok X (mp_next_seq p) h' e'"
      using d(2)[of h' e'] by (auto split: if_splits)
    then show "entry_ok X (mp_next_seq ?p) h' e'" using assms(4) by cases (auto simp: entry_ok_def)
  qed
  have 3: "kv_get (mp_by_priority ?p) k = Some () \<longleftrightarrow>
      (\<exists>e. kv_get (mp_by_hash ?p) (pk_hash k) = Some e \<and> k = entry_key (pk_hash k) e)" for k
    using assms(2) by (auto simp: d(3))
  have free: "\<nexists>e'. kv_get (mp_by_hash p) h' = Some e' \<and> me_sender e' = me_sender e \<and> me_nonce e' = me_nonce e"
    for h' using d(4)[of "me_sender e" "me_nonce e" h'] assms(3) by simp
  have 4: "pending_at a n ?p = Some h' \<longleftrightarrow>
      (\<exists>e. kv_get (mp_by_hash ?p) h' = Some e \<and> me_sender e = a \<and> me_nonce e = n)" for a n h'
    using assms(2) free[of h'] by (auto simp: pending_admit d(4))
  have 5: "\<forall>a m. kv_get (mp_by_sender ?p) a = Some m \<longrightarrow> kv_size m \<noteq> 0"
    using d(5) by (auto simp: admit_def kv_size_put_pos)
  show ?thesis unfolding indices_agree_def using 1 2 3 4 5 by blast
qed

section \<open>Eviction\<close>

text \<open>What is left after an eviction, and that everything evicted had lower priority.\<close>

definition evicts :: "mempool \<Rightarrow> mempool \<Rightarrow> bool" where
  "evicts p p' \<longleftrightarrow>
     (\<forall>h e. kv_get (mp_by_hash p') h = Some e \<longrightarrow> kv_get (mp_by_hash p) h = Some e) \<and>
     (\<forall>h e h' e'. kv_get (mp_by_hash p') h = Some e \<longrightarrow> kv_get (mp_by_hash p) h' = Some e' \<longrightarrow>
        kv_get (mp_by_hash p') h' = None \<longrightarrow> entry_key h e < entry_key h' e') \<and>
     mp_next_seq p' = mp_next_seq p \<and> mp_max_count p' = mp_max_count p \<and> mp_max_bytes p' = mp_max_bytes p"

lemma evicts_refl: "evicts p p"
  by (simp add: evicts_def)

lemma evicts_trans:
  assumes "evicts p q" "evicts q r"
  shows "evicts p r"
proof -
  have "entry_key h e < entry_key h' e'" if "kv_get (mp_by_hash r) h = Some e"
      "kv_get (mp_by_hash p) h' = Some e'" "kv_get (mp_by_hash r) h' = None" for h e h' e'
  proof (cases "kv_get (mp_by_hash q) h'")
    case None
    moreover have "kv_get (mp_by_hash q) h = Some e" using assms(2) that(1) by (simp add: evicts_def)
    ultimately show ?thesis using assms(1) that(2) unfolding evicts_def by blast
  next
    case (Some e'')
    then have "e'' = e'" using assms(1) that(2) by (fastforce simp: evicts_def)
    then show ?thesis using assms(2) that Some unfolding evicts_def by blast
  qed
  then show ?thesis using assms unfolding evicts_def by fastforce
qed

lemma kv_sum_submap:
  assumes "\<And>k v. kv_get m' k = Some v \<Longrightarrow> kv_get m k = Some v"
  shows "kv_sum f m' \<le> kv_sum f m"
proof -
  have "set (kv_entries m') \<subseteq> set (kv_entries m)" using assms by (auto simp: kv.set_entries)
  then show ?thesis unfolding kv_sum_def kv.entry_sum_set by (intro sum_mono2) auto
qed

lemma submap_within:
  assumes "indices_agree X p" "indices_agree X q" "within_limits p"
    and "\<And>h e. kv_get (mp_by_hash q) h = Some e \<Longrightarrow> kv_get (mp_by_hash p) h = Some e"
    and "mp_max_count q = mp_max_count p" "mp_max_bytes q = mp_max_bytes p"
  shows "within_limits q"
proof -
  have "mp_len q \<le> mp_len p" unfolding mp_len_def kv_size_sum by (rule kv_sum_submap[OF assms(4)])
  moreover have "mp_current_bytes q \<le> mp_current_bytes p"
    unfolding indices_agreeD(1)[OF assms(1)] indices_agreeD(1)[OF assms(2)]
    by (rule kv_sum_submap[OF assms(4)])
  ultimately show ?thesis using assms(3,5,6) unfolding within_limits_def by linarith
qed

lemma priority_keys:
  assumes "indices_agree X p"
  shows "k \<in> fst ` set (kv_entries (mp_by_priority p)) \<longleftrightarrow>
    (\<exists>e. kv_get (mp_by_hash p) (pk_hash k) = Some e \<and> k = entry_key (pk_hash k) e)"
proof -
  have "k \<in> fst ` set (kv_entries (mp_by_priority p)) \<longleftrightarrow> kv_get (mp_by_priority p) k = Some ()"
    using kv.mem_entries[of k "()" "mp_by_priority p"] by force
  then show ?thesis by (simp add: indices_agreeD(3)[OF assms])
qed

lemma no_priority_no_entry:
  assumes "indices_agree X p" "kv_entries (mp_by_priority p) = []"
  shows "mp_len p = 0" "mp_current_bytes p = 0"
proof -
  have "kv_get (mp_by_hash p) h = None" for h
    using priority_keys[OF assms(1), of "entry_key h (the (kv_get (mp_by_hash p) h))"] assms(2)
    by (cases "kv_get (mp_by_hash p) h") auto
  then have e: "mp_by_hash p = kv_empty" by (intro kv_eqI) simp
  then show "mp_len p = 0" by (simp add: mp_len_def kv_size_eq_0_iff)
  show "mp_current_bytes p = 0" by (simp add: indices_agreeD(1)[OF assms(1)] e)
qed

lemma sorted_wrt_last:
  fixes ks :: "'a::linorder list"
  shows "sorted_wrt (<) ks \<Longrightarrow> k \<in> set ks \<Longrightarrow> k \<le> last ks"
  by (induction ks) (auto split: if_splits dest: last_in_set intro: less_imp_le)

lemma evict_one:
  assumes "indices_agree X p" "kv_entries (mp_by_priority p) \<noteq> []"
    and v_def: "v = fst (last (kv_entries (mp_by_priority p)))"
    and p'_def: "p' = snd (remove_by_hash (pk_hash v) p)"
  shows "indices_agree X p'" "evicts p p'" "mp_len p' < mp_len p"
    "mp_contains h p' \<longleftrightarrow> mp_contains h p \<and> h \<noteq> pk_hash v" "mp_contains (pk_hash v) p"
proof -
  let ?ks = "map fst (kv_entries (mp_by_priority p))"
  have "v \<in> fst ` set (kv_entries (mp_by_priority p))" using assms(2) unfolding v_def by simp
  then obtain e where e: "kv_get (mp_by_hash p) (pk_hash v) = Some e" "v = entry_key (pk_hash v) e"
    using priority_keys[OF assms(1)] by blast
  note f = remove_by_hash_fields[OF e(1), folded p'_def]
  show "indices_agree X p'" unfolding p'_def by (rule remove_agrees[OF assms(1)])
  have top: "entry_key h e' \<le> v" if "kv_get (mp_by_hash p) h = Some e'" for h e'
  proof -
    have "entry_key h e' \<in> set ?ks" using that priority_keys[OF assms(1), of "entry_key h e'"] by simp
    from sorted_wrt_last[OF kv.entries_ordered this] show ?thesis
      using assms(2) by (simp add: v_def last_map)
  qed
  have lt: "entry_key h e' < v" if "kv_get (mp_by_hash p) h = Some e'" "h \<noteq> pk_hash v" for h e'
  proof -
    have "entry_key h e' \<noteq> v" using that(2) by auto
    then show ?thesis using top[OF that(1)] by simp
  qed
  show "evicts p p'" unfolding evicts_def f using lt e by (auto split: if_splits)
  have "kv_size (kv_del (pk_hash v) (mp_by_hash p)) + 1 = kv_size (mp_by_hash p)"
    using kv_sum_del[of "\<lambda>_ _. 1" "pk_hash v" "mp_by_hash p"] e(1) unfolding kv_size_sum by simp
  then show "mp_len p' < mp_len p" unfolding mp_len_def f by linarith
  show "mp_contains h p' \<longleftrightarrow> mp_contains h p \<and> h \<noteq> pk_hash v" unfolding mp_contains_def f by simp
  show "mp_contains (pk_hash v) p" using e(1) by (simp add: mp_contains_def)
qed

lemma evict_spec:
  "indices_agree X p \<Longrightarrow> mp_contains h p \<Longrightarrow>
   \<exists>p' r. evict h fee p = Some (p', r) \<and> indices_agree X p' \<and> evicts p p' \<and>
     (r = Ok h \<and> within_limits p' \<and> mp_contains h p' \<or>
      (\<exists>k. r = Err (UnderpricedReplacement k fee)) \<and> \<not> mp_contains h p')"
proof (induction "mp_len p" arbitrary: p rule: less_induct)
  case less
  show ?case
  proof (cases "mp_len p > mp_max_count p \<or> mp_current_bytes p > mp_max_bytes p")
    case False
    then have "evict h fee p = Some (p, Ok h)" by (subst evict.simps) simp
    moreover have "within_limits p" using False by (simp add: within_limits_def)
    ultimately show ?thesis using less.prems evicts_refl by auto
  next
    case True
    then have ne: "kv_entries (mp_by_priority p) \<noteq> []"
      using no_priority_no_entry[OF less.prems(1)] by auto
    define v where "v = fst (last (kv_entries (mp_by_priority p)))"
    define p1 where "p1 = snd (remove_by_hash (pk_hash v) p)"
    note o = evict_one[OF less.prems(1) ne v_def p1_def]
    show ?thesis
    proof (cases "pk_hash v = h")
      case t: True
      then have "evict h fee p = Some (p1, Err (UnderpricedReplacement (sat_add 64 (pk_fee v) 1) fee))"
        using True ne by (subst evict.simps) (simp add: v_def p1_def Let_def)
      then show ?thesis using o t by auto
    next
      case f: False
      then have e: "evict h fee p = evict h fee p1"
        using True ne by (subst evict.simps) (simp add: v_def p1_def Let_def)
      have "mp_contains h p1" using o(4)[of h] less.prems(2) f by simp
      from less.hyps[OF o(3) o(1) this] show ?thesis unfolding e using evicts_trans[OF o(2)] by blast
    qed
  qed
qed

section \<open>Insertion\<close>

lemma replace_cases:
  assumes "indices_agree X p"
  obtains (free) "pending_at a n p = None" "replace_pending a n fee p = Ok p"
  | (kept) h e where "kv_get (mp_by_hash p) h = Some e" "me_sender e = a" "me_nonce e = n" "fee \<le> me_fee e"
      "replace_pending a n fee p = Err (UnderpricedReplacement (me_fee e) fee)"
  | (replaced) h e where "kv_get (mp_by_hash p) h = Some e" "me_sender e = a" "me_nonce e = n"
      "me_fee e < fee" "replace_pending a n fee p = Ok (snd (remove_by_hash h p))"
proof (cases "pending_at a n p")
  case None
  then show ?thesis using free by (simp add: replace_pending_def)
next
  case (Some h)
  then obtain e where e: "kv_get (mp_by_hash p) h = Some e" "me_sender e = a" "me_nonce e = n"
    using indices_agreeD(4)[OF assms] by blast
  show ?thesis
  proof (cases "fee \<le> me_fee e")
    case True
    show ?thesis by (rule kept[OF e True]) (simp add: replace_pending_def Some e True)
  next
    case False
    show ?thesis by (rule replaced[OF e]) (use False in \<open>simp_all add: replace_pending_def Some e\<close>)
  qed
qed

lemma replace_Ok:
  assumes "indices_agree X p" "replace_pending a n fee p = Ok p1"
  shows "indices_agree X p1" "pending_at a n p1 = None"
    "mp_next_seq p1 = mp_next_seq p \<and> mp_max_count p1 = mp_max_count p \<and> mp_max_bytes p1 = mp_max_bytes p"
    "kv_get (mp_by_hash p1) h = Some e \<Longrightarrow> kv_get (mp_by_hash p) h = Some e"
    "kv_get (mp_by_hash p) h = Some e \<Longrightarrow> kv_get (mp_by_hash p1) h = Some e \<or>
       me_sender e = a \<and> me_nonce e = n \<and> me_fee e < fee"
proof -
  have "indices_agree X p1 \<and> pending_at a n p1 = None \<and>
    (mp_next_seq p1 = mp_next_seq p \<and> mp_max_count p1 = mp_max_count p \<and> mp_max_bytes p1 = mp_max_bytes p) \<and>
    (\<forall>h e. kv_get (mp_by_hash p1) h = Some e \<longrightarrow> kv_get (mp_by_hash p) h = Some e) \<and>
    (\<forall>h e. kv_get (mp_by_hash p) h = Some e \<longrightarrow> kv_get (mp_by_hash p1) h = Some e \<or>
       me_sender e = a \<and> me_nonce e = n \<and> me_fee e < fee)"
  proof (cases rule: replace_cases[OF assms(1), of a n fee, case_names free kept replaced])
    case free
    then show ?thesis using assms by simp
  next
    case (kept h e)
    then show ?thesis using assms(2) by simp
  next
    case (replaced h0 e0)
    then have p1: "p1 = snd (remove_by_hash h0 p)" using assms(2) by simp
    note f = remove_by_hash_fields[OF replaced(1), folded p1]
    have "pending_at a n p1 = None"
      unfolding pending_at_def f(5) using replaced(2,3) by (simp add: pending_without)
    moreover have "indices_agree X p1" unfolding p1 by (rule remove_agrees[OF assms(1)])
    ultimately show ?thesis using replaced unfolding f by auto
  qed
  then show "indices_agree X p1" "pending_at a n p1 = None"
    "mp_next_seq p1 = mp_next_seq p \<and> mp_max_count p1 = mp_max_count p \<and> mp_max_bytes p1 = mp_max_bytes p"
    "kv_get (mp_by_hash p1) h = Some e \<Longrightarrow> kv_get (mp_by_hash p) h = Some e"
    "kv_get (mp_by_hash p) h = Some e \<Longrightarrow> kv_get (mp_by_hash p1) h = Some e \<or>
       me_sender e = a \<and> me_nonce e = n \<and> me_fee e < fee" by blast+
qed

definition mempool_ok :: "ext \<Rightarrow> mempool \<Rightarrow> bool" where
  "mempool_ok X p \<longleftrightarrow> indices_agree X p \<and> within_limits p"

text \<open>The two machine counters are far from their width.\<close>

definition counters_fit :: "mempool \<Rightarrow> bool" where
  "counters_fit p \<longleftrightarrow> mp_next_seq p + 1 < 2 ^ 64 \<and> mp_max_bytes p + MAX_SIGNED_TX_BYTES < 2 ^ 64"

text \<open>Either the pool is returned as it was with an error, or the transaction went through
  replacement, admission and eviction.\<close>

lemma insert_cases:
  assumes ok: "mempool_ok X p" and fit: "counters_fit p"
  obtains (refused) err where "mp_insert X stx p = Some (p, Err err)"
  | (entered) a n fee e p1 p' r where "extract_sender_nonce_fee (stx_tx stx) = Ok (a, n, fee)"
      "replace_pending a n fee p = Ok p1" "kv_get (mp_by_hash p) (stx_hash X stx) = None"
      "mp_insert X stx p = Some (p', r)"
      "e = \<lparr>me_tx = stx, me_sender = a, me_nonce = n, me_fee = fee, me_seq = mp_next_seq p,
            me_bytes = stx_encoded_len X stx\<rparr>"
      "evict (stx_hash X stx) fee (admit (stx_hash X stx) e p1) = Some (p', r)"
      "indices_agree X (admit (stx_hash X stx) e p1)"
proof -
  have ag: "indices_agree X p" and lim: "within_limits p" using ok by (simp_all add: mempool_ok_def)
  let ?h = "stx_hash X stx"
  show thesis
  proof (cases "check_signed_tx_size X stx = Ok ()")
    case False
    then show ?thesis using refused by (simp add: mp_insert_def)
  next
    case size: True
    then have len: "stx_encoded_len X stx \<le> MAX_SIGNED_TX_BYTES"
      by (auto simp: check_signed_tx_size_def Let_def split: if_splits)
    show ?thesis
    proof (cases "extract_sender_nonce_fee (stx_tx stx)")
      case (Err err)
      then show ?thesis using refused size by (simp add: mp_insert_def)
    next
      case Panic
      then show ?thesis by (cases "stx_tx stx") simp_all
    next
      case (Ok y)
      obtain a n fee where y: "y = (a, n, fee)" by (cases y)
      show ?thesis
      proof (cases "kv_get (mp_by_hash p) ?h")
        case (Some e)
        then show ?thesis using refused size Ok y by (simp add: mp_insert_def)
      next
        case None
        show ?thesis
        proof (cases "replace_pending a n fee p")
          case (Err err)
          then show ?thesis using refused size Ok y None by (simp add: mp_insert_def)
        next
          case Panic
          then show ?thesis by (cases rule: replace_cases[OF ag, of a n fee]) simp_all
        next
          case r: (Ok p1)
          note q = replace_Ok[OF ag r]
          define e where "e = \<lparr>me_tx = stx, me_sender = a, me_nonce = n, me_fee = fee,
              me_seq = mp_next_seq p, me_bytes = stx_encoded_len X stx\<rparr>"
          have "within_limits p1" using submap_within[OF ag q(1) lim q(4)] q(3) by blast
          then have "\<not> (mp_next_seq p1 + 1 \<ge> 2 ^ 64 \<or> mp_current_bytes p1 + stx_encoded_len X stx \<ge> 2 ^ 64)"
            using fit len q(3) unfolding counters_fit_def within_limits_def by linarith
          then have i: "mp_insert X stx p = evict ?h fee (admit ?h e p1)"
            using size Ok y None r q(3) by (simp add: mp_insert_def e_def Let_def)
          have "kv_get (mp_by_hash p1) ?h = None"
            using q(4)[of ?h] None by (cases "kv_get (mp_by_hash p1) ?h") auto
          then have ad: "indices_agree X (admit ?h e p1)"
            using q Ok y by (intro admit_agrees) (simp_all add: e_def entry_ok_def)
          then obtain p' r where ev: "evict ?h fee (admit ?h e p1) = Some (p', r)"
            using evict_spec[OF ad, of ?h fee] by (auto simp: mp_contains_def)
          show ?thesis
            by (rule entered[of a n fee p1 p' r e]) (use Ok y r None i ev ad in \<open>simp_all add: e_def\<close>)
        qed
      qed
    qed
  qed
qed

lemma evicts_submap:
  assumes "evicts p q" "kv_get (mp_by_hash q) h = Some e"
  shows "kv_get (mp_by_hash p) h = Some e"
  using assms by (simp add: evicts_def)

lemma insert_spec:
  assumes ok: "mempool_ok X p" and fit: "counters_fit p"
  shows "\<exists>p' r. mp_insert X stx p = Some (p', r) \<and> r \<noteq> Panic \<and> mempool_ok X p' \<and>
    (\<forall>h a n fee. r = Ok h \<longrightarrow> extract_sender_nonce_fee (stx_tx stx) = Ok (a, n, fee) \<longrightarrow>
      h = stx_hash X stx \<and> (\<exists>e. kv_get (mp_by_hash p') h = Some e \<and> me_tx e = stx) \<and>
      (\<forall>h0. h0 \<noteq> h \<longrightarrow> kv_get (mp_by_hash p') h0 = None \<or> kv_get (mp_by_hash p') h0 = kv_get (mp_by_hash p) h0) \<and>
      (\<forall>h0 e0. kv_get (mp_by_hash p) h0 = Some e0 \<longrightarrow> kv_get (mp_by_hash p') h0 = None \<longrightarrow>
         me_sender e0 = a \<and> me_nonce e0 = n \<and> me_fee e0 < fee \<or>
         (\<forall>h1 e1. kv_get (mp_by_hash p') h1 = Some e1 \<longrightarrow> entry_key h1 e1 < entry_key h0 e0)))"
proof (cases rule: insert_cases[OF ok fit, of stx, case_names refused entered])
  case (refused err)
  then show ?thesis using ok by simp
next
  case (entered a n fee e p1 p' r)
  let ?h = "stx_hash X stx"
  have ag: "indices_agree X p" and lim: "within_limits p" using ok by (simp_all add: mempool_ok_def)
  note q = replace_Ok[OF ag entered(2)]
  have sp: "indices_agree X p'" "evicts (admit ?h e p1) p'"
    "r = Ok ?h \<and> within_limits p' \<and> mp_contains ?h p' \<or>
     (\<exists>k. r = Err (UnderpricedReplacement k fee)) \<and> \<not> mp_contains ?h p'"
    using evict_spec[OF entered(7), of ?h fee] entered(6) by (auto simp: mp_contains_def)
  have sub: "kv_get (mp_by_hash p) h = Some e0" if "kv_get (mp_by_hash p') h = Some e0" "h \<noteq> ?h" for h e0
    using evicts_submap[OF sp(2) that(1)] that(2) q(4) by simp
  have lims: "mp_max_count p' = mp_max_count p" "mp_max_bytes p' = mp_max_bytes p"
    using sp(2) q(3) by (simp_all add: evicts_def)
  have new: "kv_get (mp_by_hash p') ?h = Some e" if "mp_contains ?h p'"
    using that evicts_submap[OF sp(2), of ?h] by (auto simp: mp_contains_def)
  have w: "within_limits p'"
    using sp(3)
  proof (elim disjE conjE)
    assume "\<not> mp_contains ?h p'"
    then have "kv_get (mp_by_hash p) h = Some e0" if "kv_get (mp_by_hash p') h = Some e0" for h e0
      using that sub by (cases "h = ?h") (auto simp: mp_contains_def)
    then show ?thesis using submap_within[OF ag sp(1) lim] lims by blast
  qed
  have kept: "kv_get (mp_by_hash p') h0 = None \<or> kv_get (mp_by_hash p') h0 = kv_get (mp_by_hash p) h0"
    if "h0 \<noteq> ?h" for h0 using sub[OF _ that] by (cases "kv_get (mp_by_hash p') h0") simp_all
  have lost: "me_sender e0 = a \<and> me_nonce e0 = n \<and> me_fee e0 < fee \<or>
      (\<forall>h1 e1. kv_get (mp_by_hash p') h1 = Some e1 \<longrightarrow> entry_key h1 e1 < entry_key h0 e0)"
    if "kv_get (mp_by_hash p) h0 = Some e0" "kv_get (mp_by_hash p') h0 = None" for h0 e0
    using q(5)[OF that(1)]
  proof
    assume "kv_get (mp_by_hash p1) h0 = Some e0"
    moreover have "h0 \<noteq> ?h" using that(1) entered(3) by auto
    ultimately show ?thesis using sp(2) that(2) unfolding evicts_def by simp
  next
    assume "me_sender e0 = a \<and> me_nonce e0 = n \<and> me_fee e0 < fee"
    then show ?thesis using entered(1) by simp
  qed
  have "r \<noteq> Panic" "r = Ok h \<Longrightarrow> h = ?h \<and> mp_contains ?h p'" for h using sp(3) by auto
  then show ?thesis using entered(1,4,5) sp(1) w new lost kept by (auto simp: mempool_ok_def)
qed

section \<open>Draining\<close>

definition pool_order :: "mempool \<Rightarrow> (hash256 \<times> mp_entry) list" where
  "pool_order p = map (\<lambda>k. (pk_hash k, the (kv_get (mp_by_hash p) (pk_hash k))))
     (map fst (kv_entries (mp_by_priority p)))"

abbreviation drain_item :: "hash256 \<times> mp_entry \<Rightarrow> hash256 \<times> gas \<times> nat" where
  "drain_item he \<equiv> (fst he, me_fee (snd he), me_bytes (snd he))"

lemma pool_order_keys:
  assumes "indices_agree X p"
  shows "map (\<lambda>(h, e). entry_key h e) (pool_order p) = map fst (kv_entries (mp_by_priority p))"
proof -
  have "entry_key (pk_hash k) (the (kv_get (mp_by_hash p) (pk_hash k))) = k"
    if "k \<in> fst ` set (kv_entries (mp_by_priority p))" for k
    using that priority_keys[OF assms, of k] by (metis option.sel)
  then show ?thesis by (auto simp: pool_order_def)
qed

lemma pool_order_props:
  assumes "indices_agree X p"
  shows "drain_order p = map drain_item (pool_order p)"
    and "sorted_wrt (<) (map (\<lambda>(h, e). entry_key h e) (pool_order p))"
    and "(h, e) \<in> set (pool_order p) \<longleftrightarrow> kv_get (mp_by_hash p) h = Some e"
    and "distinct (map fst (pool_order p))"
proof -
  have get: "\<exists>e. kv_get (mp_by_hash p) (pk_hash k) = Some e"
    if "k \<in> fst ` set (kv_entries (mp_by_priority p))" for k
    using that priority_keys[OF assms] by blast
  show "drain_order p = map drain_item (pool_order p)"
    unfolding drain_order_def pool_order_def List.map_filter_def
    by (subst filter_True) (use get in force)+
  show s: "sorted_wrt (<) (map (\<lambda>(h, e). entry_key h e) (pool_order p))"
    unfolding pool_order_keys[OF assms] by (rule kv.entries_ordered)
  show i: "(h, e) \<in> set (pool_order p) \<longleftrightarrow> kv_get (mp_by_hash p) h = Some e" for h e
  proof
    assume "kv_get (mp_by_hash p) h = Some e"
    then have "entry_key h e \<in> fst ` set (kv_entries (mp_by_priority p))"
      using priority_keys[OF assms, of "entry_key h e"] by simp
    then show "(h, e) \<in> set (pool_order p)" using \<open>kv_get (mp_by_hash p) h = Some e\<close>
      by (force simp: pool_order_def)
  qed (use get in \<open>force simp: pool_order_def\<close>)
  have "distinct (map (\<lambda>(h, e). entry_key h e) (pool_order p))" using s strict_sorted_iff by blast
  then have "distinct (pool_order p)" by (simp add: distinct_map)
  moreover have "inj_on fst (set (pool_order p))"
    unfolding inj_on_def using i by (auto simp: i)
  ultimately show "distinct (map fst (pool_order p))" by (simp add: distinct_map)
qed

lemma subseq_sorted: "subseq S L \<Longrightarrow> set S \<subseteq> set L \<and> (sorted_wrt P L \<longrightarrow> sorted_wrt P S)"
  by (induction rule: list_emb.induct) auto

text \<open>What a drain of the listed transactions takes, from any point of the loop.\<close>

lemma drain_fold:
  assumes "max_gas < umax 64" "max_bytes < umax 64"
  shows "indices_agree X p \<Longrightarrow> \<forall>(h, e) \<in> set L. kv_get (mp_by_hash p) h = Some e \<Longrightarrow>
    distinct (map fst L) \<Longrightarrow> gu \<le> max_gas \<Longrightarrow> bu \<le> max_bytes \<Longrightarrow>
    \<exists>S p'. fold (drain_step max_gas max_bytes) (map drain_item L) (picked, gu, bu, p) =
      (picked @ map (me_tx \<circ> snd) S, gu + (\<Sum>(h, e)\<leftarrow>S. me_fee e), bu + (\<Sum>(h, e)\<leftarrow>S. me_bytes e), p') \<and>
      subseq S L \<and> gu + (\<Sum>(h, e)\<leftarrow>S. me_fee e) \<le> max_gas \<and> bu + (\<Sum>(h, e)\<leftarrow>S. me_bytes e) \<le> max_bytes \<and>
      indices_agree X p' \<and> mp_max_count p' = mp_max_count p \<and> mp_max_bytes p' = mp_max_bytes p \<and>
      (\<forall>h. kv_get (mp_by_hash p') h = (if h \<in> fst ` set S then None else kv_get (mp_by_hash p) h)) \<and>
      (\<forall>(h, e) \<in> set L. h \<notin> fst ` set S \<longrightarrow>
         max_gas < gu + (\<Sum>(h, e)\<leftarrow>S. me_fee e) + me_fee e \<or>
         max_bytes < bu + (\<Sum>(h, e)\<leftarrow>S. me_bytes e) + me_bytes e)"
proof (induction L arbitrary: p picked gu bu)
  case Nil
  then show ?case by simp
next
  case (Cons he L)
  obtain h e where he: "he = (h, e)" by (cases he)
  have g: "kv_get (mp_by_hash p) h = Some e" using Cons.prems(2) he by simp
  have sat: "sat_add 64 gu (me_fee e) > max_gas \<longleftrightarrow> gu + me_fee e > max_gas"
    "sat_add 64 bu (me_bytes e) > max_bytes \<longleftrightarrow> bu + me_bytes e > max_bytes"
    using assms by (auto simp: sat_add_def)
  show ?case
  proof (cases "gu + me_fee e > max_gas \<or> bu + me_bytes e > max_bytes")
    case True
    then have step: "drain_step max_gas max_bytes (drain_item he) (picked, gu, bu, p) = (picked, gu, bu, p)"
      using sat he by auto
    have "\<forall>(h, e) \<in> set L. kv_get (mp_by_hash p) h = Some e" "distinct (map fst L)"
      using Cons.prems(2,3) by auto
    from Cons.IH[OF Cons.prems(1) this Cons.prems(4,5), of picked] obtain S p' where
      S: "fold (drain_step max_gas max_bytes) (map drain_item L) (picked, gu, bu, p) =
      (picked @ map (me_tx \<circ> snd) S, gu + (\<Sum>(h, e)\<leftarrow>S. me_fee e), bu + (\<Sum>(h, e)\<leftarrow>S. me_bytes e), p')"
      and sub: "subseq S L" and rest: "gu + (\<Sum>(h, e)\<leftarrow>S. me_fee e) \<le> max_gas"
      "bu + (\<Sum>(h, e)\<leftarrow>S. me_bytes e) \<le> max_bytes"
      "indices_agree X p' \<and> mp_max_count p' = mp_max_count p \<and> mp_max_bytes p' = mp_max_bytes p"
      "\<forall>h. kv_get (mp_by_hash p') h = (if h \<in> fst ` set S then None else kv_get (mp_by_hash p) h)"
      and left: "\<forall>(h, e) \<in> set L. h \<notin> fst ` set S \<longrightarrow>
         max_gas < gu + (\<Sum>(h, e)\<leftarrow>S. me_fee e) + me_fee e \<or>
         max_bytes < bu + (\<Sum>(h, e)\<leftarrow>S. me_bytes e) + me_bytes e" by blast
    have "max_gas < gu + (\<Sum>(h, e)\<leftarrow>S. me_fee e) + me_fee e \<or>
         max_bytes < bu + (\<Sum>(h, e)\<leftarrow>S. me_bytes e) + me_bytes e" using True by linarith
    moreover have "fold (drain_step max_gas max_bytes) (map drain_item (he # L)) (picked, gu, bu, p) =
        fold (drain_step max_gas max_bytes) (map drain_item L) (picked, gu, bu, p)"
      by (simp only: list.map fold_simps step)
    moreover have "subseq S (he # L)" using sub by (rule list_emb_Cons)
    ultimately show ?thesis using S rest left he by (intro exI[of _ S] exI[of _ p']) simp
  next
    case False
    let ?p = "snd (remove_by_hash h p)" and ?gu = "gu + me_fee e" and ?bu = "bu + me_bytes e"
    note f = remove_by_hash_fields[OF g]
    have sx: "sat_add 64 gu (me_fee e) = ?gu" "sat_add 64 bu (me_bytes e) = ?bu"
      using False assms by (auto simp: sat_add_def)
    then have step: "drain_step max_gas max_bytes (drain_item he) (picked, gu, bu, p) =
        (picked @ [me_tx e], ?gu, ?bu, ?p)"
      using False f(1) by (cases "remove_by_hash h p") (simp add: he)
    have nin: "h \<notin> fst ` set L" using Cons.prems(3) he by simp
    have others: "kv_get (mp_by_hash ?p) h' = Some e'" if "(h', e') \<in> set L" for h' e'
    proof -
      have "h' \<noteq> h" using nin that by (metis fst_conv image_eqI)
      then show ?thesis using Cons.prems(2) that unfolding f by auto
    qed
    have "\<forall>(h, e) \<in> set L. kv_get (mp_by_hash ?p) h = Some e" "distinct (map fst L)"
      using others Cons.prems(3) by auto
    from Cons.IH[OF remove_agrees[OF Cons.prems(1)] this, of ?gu ?bu "picked @ [me_tx e]"] False
    obtain S p' where
      S: "fold (drain_step max_gas max_bytes) (map drain_item L) (picked @ [me_tx e], ?gu, ?bu, ?p) =
      ((picked @ [me_tx e]) @ map (me_tx \<circ> snd) S, ?gu + (\<Sum>(h, e)\<leftarrow>S. me_fee e), ?bu + (\<Sum>(h, e)\<leftarrow>S. me_bytes e), p')"
      and sub: "subseq S L" and rest: "?gu + (\<Sum>(h, e)\<leftarrow>S. me_fee e) \<le> max_gas"
      "?bu + (\<Sum>(h, e)\<leftarrow>S. me_bytes e) \<le> max_bytes"
      "indices_agree X p' \<and> mp_max_count p' = mp_max_count ?p \<and> mp_max_bytes p' = mp_max_bytes ?p"
      "\<forall>h. kv_get (mp_by_hash p') h = (if h \<in> fst ` set S then None else kv_get (mp_by_hash ?p) h)"
      and left: "\<forall>(h, e) \<in> set L. h \<notin> fst ` set S \<longrightarrow>
         max_gas < ?gu + (\<Sum>(h, e)\<leftarrow>S. me_fee e) + me_fee e \<or>
         max_bytes < ?bu + (\<Sum>(h, e)\<leftarrow>S. me_bytes e) + me_bytes e" by fastforce
    have "fold (drain_step max_gas max_bytes) (map drain_item (he # L)) (picked, gu, bu, p) =
        fold (drain_step max_gas max_bytes) (map drain_item L) (picked @ [me_tx e], ?gu, ?bu, ?p)"
      by (simp only: list.map fold_simps step)
    moreover have "subseq (he # S) (he # L)" using sub by simp
    moreover have "\<forall>(h', e') \<in> set L. h' \<noteq> h \<and> h' \<notin> fst ` set S \<longrightarrow>
         max_gas < ?gu + (\<Sum>(h, e)\<leftarrow>S. me_fee e) + me_fee e' \<or>
         max_bytes < ?bu + (\<Sum>(h, e)\<leftarrow>S. me_bytes e) + me_bytes e'" using left by blast
    ultimately show ?thesis using S rest he
      by (intro exI[of _ "he # S"] exI[of _ p']) (simp add: f add.assoc)
  qed
qed

section \<open>Every operation keeps the pool\<close>

lemma remove_ok:
  assumes "mempool_ok X p"
  shows "mempool_ok X (snd (remove_by_hash h p))"
proof (cases "kv_get (mp_by_hash p) h")
  case None
  then show ?thesis using assms by (simp add: remove_by_hash_None)
next
  case (Some e)
  note f = remove_by_hash_fields[OF Some]
  have ag: "indices_agree X (snd (remove_by_hash h p))"
    using assms by (simp add: mempool_ok_def remove_agrees)
  moreover have "within_limits (snd (remove_by_hash h p))"
    using assms unfolding mempool_ok_def
    by (elim conjE, intro submap_within[OF _ ag]) (auto simp: f split: if_splits)
  ultimately show ?thesis by (simp add: mempool_ok_def)
qed

lemma drain_step_ok:
  "mempool_ok X (snd (snd (snd s))) \<Longrightarrow> mempool_ok X (snd (snd (snd (drain_step g b x s))))"
proof -
  obtain h fee sz where x: "x = (h, fee, sz)" by (cases x)
  obtain picked gu bu p where s: "s = (picked, gu, bu, p)" by (cases s)
  assume "mempool_ok X (snd (snd (snd s)))"
  then have "mempool_ok X p" "mempool_ok X (snd (remove_by_hash h p))" by (simp_all add: s remove_ok)
  then show ?thesis by (auto simp: x s split: prod.splits option.splits)
qed

lemma fold_keeps: "P s \<Longrightarrow> (\<And>x s. P s \<Longrightarrow> P (f x s)) \<Longrightarrow> P (fold f xs s)"
  by (induction xs arbitrary: s) simp_all

lemma drain_ok: "mempool_ok X p \<Longrightarrow> mempool_ok X (snd (snd (snd (drain_for_block g b p))))"
  unfolding drain_for_block_def
  by (rule fold_keeps[where P = "\<lambda>s. mempool_ok X (snd (snd (snd s)))"]) (simp_all add: drain_step_ok del: drain_step.simps)

lemma remove_many_ok: "mempool_ok X p \<Longrightarrow> mempool_ok X (remove_many hs p)"
  unfolding remove_many_def by (rule fold_keeps) (simp_all add: remove_ok)

lemma with_limits_ok: "mempool_ok X (with_limits n b)"
  by (simp add: mempool_ok_def indices_agree_def within_limits_def with_limits_def mp_len_def kv_size_def
      pending_at_def)

section \<open>Sample pools\<close>

definition pool_ext :: ext where
  "pool_ext = demo_ext\<lparr>x_blake3 := (\<lambda>bs. ucast (last bs)),
     x_borsh_tx := (\<lambda>t. case t of GovVote i a v \<Rightarrow> [of_nat i] | _ \<Rightarrow> [0])\<rparr>"

definition demo_vote :: "nat \<Rightarrow> signed_transaction" where
  "demo_vote i = demo_stx (GovVote i 5 Yes)"

definition demo_pool :: mempool where
  "demo_pool = admit 3 \<lparr>me_tx = demo_vote 3, me_sender = 5, me_nonce = 0, me_fee = 30000, me_seq = 0, me_bytes = 0\<rparr>
     (with_limits 10 1000)"

lemma demo_vote_facts [simp]:
  "stx_hash pool_ext (demo_vote 3) = 3" "stx_hash pool_ext (demo_vote 4) = 4"
  "stx_encoded_len pool_ext (demo_vote i) = 0" "stx_tx (demo_vote i) = GovVote i 5 Yes"
  by (simp_all add: demo_vote_def stx_hash_def tx_hash_def stx_encoded_len_def pool_ext_def demo_ext_def)

lemma demo_pool_ok: "mempool_ok pool_ext demo_pool" "counters_fit demo_pool"
proof -
  have "indices_agree pool_ext demo_pool" unfolding demo_pool_def
    using with_limits_ok[of pool_ext 10 1000]
    by (intro admit_agrees) (simp_all add: mempool_ok_def entry_ok_def with_limits_def pending_at_def)
  moreover have "within_limits demo_pool"
    by (simp add: within_limits_def demo_pool_def mp_len_def kv_size_def with_limits_def)
  ultimately show "mempool_ok pool_ext demo_pool" by (simp add: mempool_ok_def)
  show "counters_fit demo_pool"
    by (simp add: counters_fit_def demo_pool_def with_limits_def MAX_SIGNED_TX_BYTES_def)
qed

lemma demo_vote_size: "check_signed_tx_size pool_ext (demo_vote i) = Ok ()"
  by (simp add: check_signed_tx_size_def)

lemma demo_insert: "mp_insert pool_ext (demo_vote 3) (with_limits 10 1000) = Some (demo_pool, Ok 3)"
proof -
  let ?e = "\<lparr>me_tx = demo_vote 3, me_sender = 5, me_nonce = 0, me_fee = 30000, me_seq = 0, me_bytes = 0\<rparr>"
  have "replace_pending 5 0 30000 (with_limits 10 1000) = Ok (with_limits 10 1000)"
    by (simp add: replace_pending_def pending_at_def with_limits_def)
  then have "mp_insert pool_ext (demo_vote 3) (with_limits 10 1000) = evict 3 30000 demo_pool"
    by (simp add: mp_insert_def demo_vote_size demo_pool_def) (simp add: with_limits_def Let_def)
  also have "\<dots> = Some (demo_pool, Ok 3)"
    using demo_pool_ok(1) by (subst evict.simps) (simp add: mempool_ok_def within_limits_def)
  finally show ?thesis .
qed

section \<open>Properties\<close>

text \<open>C10: from a consistent pool within its limits every insertion returns, and insertion, removal,
  bulk removal and draining leave a consistent pool within its limits.\<close>

theorem pool_stays_consistent:
  assumes "mempool_ok X p" and "counters_fit p"
  shows "(\<exists>p' r. mp_insert X stx p = Some (p', r) \<and> r \<noteq> Panic \<and> mempool_ok X p') \<and>
    mempool_ok X (snd (mp_remove h p)) \<and> mempool_ok X (remove_many hs p) \<and>
    mempool_ok X (snd (snd (snd (drain_for_block g b p))))"
  using insert_spec[OF assms, of stx] remove_ok[OF assms(1), of h] remove_many_ok[OF assms(1), of hs]
    drain_ok[OF assms(1), of g b]
  by (auto simp: mp_remove_def case_prod_unfold Let_def)

theorem pool_stays_consistent_witness:
  "mempool_ok pool_ext (snd (mp_remove 3 demo_pool)) \<and>
   mempool_ok pool_ext (snd (snd (snd (drain_for_block 30000 100 demo_pool))))"
  using pool_stays_consistent[OF demo_pool_ok] by blast

text \<open>An accepted transaction is in the pool, no other transaction is added or changed, and every
  transaction that left the pool was either replaced by a higher fee for its sender and nonce, or has
  lower priority than everything that stayed.\<close>

theorem insert_evicts_lowest:
  assumes "mempool_ok X p" and "counters_fit p" and "mp_insert X stx p = Some (p', Ok h)"
    and "extract_sender_nonce_fee (stx_tx stx) = Ok (a, n, fee)"
  shows "h = stx_hash X stx \<and> (\<exists>e. kv_get (mp_by_hash p') h = Some e \<and> me_tx e = stx) \<and>
    (\<forall>h0. h0 \<noteq> h \<longrightarrow>
       kv_get (mp_by_hash p') h0 = None \<or> kv_get (mp_by_hash p') h0 = kv_get (mp_by_hash p) h0) \<and>
    (\<forall>h0 e0. kv_get (mp_by_hash p) h0 = Some e0 \<longrightarrow> kv_get (mp_by_hash p') h0 = None \<longrightarrow>
       me_sender e0 = a \<and> me_nonce e0 = n \<and> me_fee e0 < fee \<or>
       (\<forall>h1 e1. kv_get (mp_by_hash p') h1 = Some e1 \<longrightarrow> entry_key h1 e1 < entry_key h0 e0))"
proof -
  obtain q r where q: "mp_insert X stx p = Some (q, r)" and
    spec: "\<forall>h a n fee. r = Ok h \<longrightarrow> extract_sender_nonce_fee (stx_tx stx) = Ok (a, n, fee) \<longrightarrow>
      h = stx_hash X stx \<and> (\<exists>e. kv_get (mp_by_hash q) h = Some e \<and> me_tx e = stx) \<and>
      (\<forall>h0. h0 \<noteq> h \<longrightarrow> kv_get (mp_by_hash q) h0 = None \<or> kv_get (mp_by_hash q) h0 = kv_get (mp_by_hash p) h0) \<and>
      (\<forall>h0 e0. kv_get (mp_by_hash p) h0 = Some e0 \<longrightarrow> kv_get (mp_by_hash q) h0 = None \<longrightarrow>
         me_sender e0 = a \<and> me_nonce e0 = n \<and> me_fee e0 < fee \<or>
         (\<forall>h1 e1. kv_get (mp_by_hash q) h1 = Some e1 \<longrightarrow> entry_key h1 e1 < entry_key h0 e0))"
    using insert_spec[OF assms(1,2), of stx] by blast
  from q assms(3) have "q = p'" "r = Ok h" by simp_all
  then show ?thesis using spec assms(4) by blast
qed

theorem insert_evicts_lowest_witness: "\<exists>e. kv_get (mp_by_hash demo_pool) 3 = Some e \<and> me_tx e = demo_vote 3"
proof -
  have "counters_fit (with_limits 10 1000)"
    by (simp add: counters_fit_def with_limits_def MAX_SIGNED_TX_BYTES_def)
  moreover have "extract_sender_nonce_fee (stx_tx (demo_vote 3)) = Ok (5, 0, 30000)" by simp
  ultimately show ?thesis using insert_evicts_lowest[OF with_limits_ok _ demo_insert] by blast
qed

text \<open>A drain takes transactions in priority order within both budgets, reports their exact total
  fee and size, removes these and nothing else, and leaves none that would still fit.\<close>

theorem drain_takes_best:
  assumes "mempool_ok X p" and "max_gas < umax 64" and "max_bytes < umax 64"
    and "drain_for_block max_gas max_bytes p = (picked, gas_used, bytes_used, p')"
  shows "\<exists>S. picked = map (me_tx \<circ> snd) S \<and> sorted_wrt (\<lambda>(h, e) (h', e'). entry_key h e < entry_key h' e') S \<and>
    (\<forall>(h, e) \<in> set S. kv_get (mp_by_hash p) h = Some e) \<and>
    gas_used = (\<Sum>(h, e)\<leftarrow>S. me_fee e) \<and> gas_used \<le> max_gas \<and>
    bytes_used = (\<Sum>(h, e)\<leftarrow>S. me_bytes e) \<and> bytes_used \<le> max_bytes \<and>
    (\<forall>h. kv_get (mp_by_hash p') h = (if h \<in> fst ` set S then None else kv_get (mp_by_hash p) h)) \<and>
    (\<forall>h e. kv_get (mp_by_hash p') h = Some e \<longrightarrow>
       max_gas < gas_used + me_fee e \<or> max_bytes < bytes_used + me_bytes e)"
proof -
  have ag: "indices_agree X p" using assms(1) by (simp add: mempool_ok_def)
  note o = pool_order_props[OF ag]
  have all: "\<forall>(h, e) \<in> set (pool_order p). kv_get (mp_by_hash p) h = Some e" using o(3) by blast
  obtain S where S: "picked = map (me_tx \<circ> snd) S" "gas_used = (\<Sum>(h, e)\<leftarrow>S. me_fee e)"
    "bytes_used = (\<Sum>(h, e)\<leftarrow>S. me_bytes e)" "subseq S (pool_order p)" "gas_used \<le> max_gas" "bytes_used \<le> max_bytes"
    "\<forall>h. kv_get (mp_by_hash p') h = (if h \<in> fst ` set S then None else kv_get (mp_by_hash p) h)"
    "\<forall>(h, e) \<in> set (pool_order p). h \<notin> fst ` set S \<longrightarrow>
       max_gas < gas_used + me_fee e \<or> max_bytes < bytes_used + me_bytes e"
    using drain_fold[OF assms(2,3) ag all o(4), of 0 0 "[]"] assms(4)
    unfolding drain_for_block_def o(1) by auto
  have left: "max_gas < gas_used + me_fee e \<or> max_bytes < bytes_used + me_bytes e"
    if "kv_get (mp_by_hash p') h = Some e" for h e
  proof -
    have "h \<notin> fst ` set S" "kv_get (mp_by_hash p) h = Some e" using S(7) that by (auto split: if_splits)
    then show ?thesis using S(8) o(3)[of h e] by blast
  qed
  have "sorted_wrt (\<lambda>(h, e) (h', e'). entry_key h e < entry_key h' e') (pool_order p)"
    using o(2) by (simp add: sorted_wrt_map case_prod_unfold)
  then have "sorted_wrt (\<lambda>(h, e) (h', e'). entry_key h e < entry_key h' e') S"
    using subseq_sorted[OF S(4)] by blast
  moreover have "\<forall>(h, e) \<in> set S. kv_get (mp_by_hash p) h = Some e"
    using all subseq_sorted[OF S(4)] by blast
  ultimately show ?thesis using S(1,2,3,5,6,7) left by (intro exI[of _ S]) blast
qed

text \<open>The pool holds one vote of a voter at a time: while any transaction of the voter with nonce 0
  and at least a vote's fee is pending, a vote on another proposal is refused as underpriced.\<close>

theorem one_vote_at_a_time:
  assumes "mempool_ok X p" and "kv_get (mp_by_hash p) h = Some e" and "me_sender e = voter"
    and "me_nonce e = 0" and "30000 \<le> me_fee e" and "stx_tx stx = GovVote j voter w"
    and "check_signed_tx_size X stx = Ok ()" and "kv_get (mp_by_hash p) (stx_hash X stx) = None"
  shows "mp_insert X stx p = Some (p, Err (UnderpricedReplacement (me_fee e) 30000))"
proof -
  have "pending_at voter 0 p = Some h"
    using indices_agreeD(4)[of X p voter 0 h] assms(1-4) by (auto simp: mempool_ok_def)
  then show ?thesis using assms(2,5-8) by (simp add: mp_insert_def replace_pending_def)
qed

theorem one_vote_at_a_time_witness:
  "mp_insert pool_ext (demo_vote 4) demo_pool = Some (demo_pool, Err (UnderpricedReplacement 30000 30000))"
proof -
  have "kv_get (mp_by_hash demo_pool) 3 =
      Some \<lparr>me_tx = demo_vote 3, me_sender = 5, me_nonce = 0, me_fee = 30000, me_seq = 0, me_bytes = 0\<rparr>"
    "kv_get (mp_by_hash demo_pool) (stx_hash pool_ext (demo_vote 4)) = None"
    by (simp_all add: demo_pool_def with_limits_def)
  from one_vote_at_a_time[OF demo_pool_ok(1) this(1) _ _ _ _ demo_vote_size this(2), where voter = 5 and j = 4 and w = Yes]
  show ?thesis by simp
qed

theorem drain_takes_best_witness:
  "\<exists>picked gas_used bytes_used p'. drain_for_block 1000 1000 demo_pool = (picked, gas_used, bytes_used, p') \<and>
     gas_used \<le> 1000 \<and> bytes_used \<le> 1000"
proof -
  obtain picked g b p' where d: "drain_for_block 1000 1000 demo_pool = (picked, g, b, p')"
    by (metis prod_cases4)
  have "(1000 :: nat) < umax 64" by (simp add: umax_def)
  from drain_takes_best[OF demo_pool_ok(1) this this d] d show ?thesis by blast
qed

end
