(* ===== verification/Governance.thy ===== *)
theory Governance
  imports Samples "HOL-Library.Multiset"
begin

text \<open>
  The governance tally (\<^verbatim>\<open>crates/governance/src/proposals.rs\<close>): weighted votes, their evaluation against
  quorum, veto and approval, and the phase a proposal has at a time. The lemmas give the evaluation as
  plain inequalities between the counts and show that the order of the votes does not matter.
\<close>

section \<open>Constants and tally\<close>

definition QUORUM_BPS :: nat where "QUORUM_BPS = 5000"

definition APPROVAL_THRESHOLD_BPS :: nat where "APPROVAL_THRESHOLD_BPS = 6600"

definition VETO_THRESHOLD_BPS :: nat where "VETO_THRESHOLD_BPS = 3300"

record tally =
  ty_yes :: amount
  ty_no :: amount
  ty_abstain :: amount
  ty_no_with_veto :: amount

definition tally_default :: tally where
  "tally_default = \<lparr>ty_yes = 0, ty_no = 0, ty_abstain = 0, ty_no_with_veto = 0\<rparr>"

definition tally_total :: "tally \<Rightarrow> amount" where
  "tally_total t =
     sat_add 128 (sat_add 128 (sat_add 128 (ty_yes t) (ty_no t)) (ty_abstain t)) (ty_no_with_veto t)"

definition non_abstain :: "tally \<Rightarrow> amount" where
  "non_abstain t = sat_add 128 (sat_add 128 (ty_yes t) (ty_no t)) (ty_no_with_veto t)"

fun add_vote :: "vote_choice \<Rightarrow> amount \<Rightarrow> tally \<Rightarrow> tally" where
  "add_vote Yes stake t = t\<lparr>ty_yes := sat_add 128 (ty_yes t) stake\<rparr>"
| "add_vote No stake t = t\<lparr>ty_no := sat_add 128 (ty_no t) stake\<rparr>"
| "add_vote Abstain stake t = t\<lparr>ty_abstain := sat_add 128 (ty_abstain t) stake\<rparr>"
| "add_vote NoWithVeto stake t = t\<lparr>ty_no_with_veto := sat_add 128 (ty_no_with_veto t) stake\<rparr>"

datatype tally_outcome = TallyPassed | TallyRejected | TallyRejectedWithVeto

definition tally_evaluate :: "tally \<Rightarrow> amount \<Rightarrow> ('e, tally_outcome) result" where
  "tally_evaluate t total_bonded =
     (if total_bonded = 0 \<or> tally_total t = 0 then Ok TallyRejected
      else rbind (umul 128 (tally_total t) 10000) (\<lambda>scaled.
      if \<not> scaled div total_bonded \<ge> QUORUM_BPS then Ok TallyRejected
      else rbind (if tally_total t > 0
                  then rbind (umul 128 (ty_no_with_veto t) 10000) (\<lambda>v. Ok (v div tally_total t))
                  else Ok 0) (\<lambda>veto_pct.
      if veto_pct \<ge> VETO_THRESHOLD_BPS then Ok TallyRejectedWithVeto
      else if non_abstain t = 0 then Ok TallyRejected
      else rbind (umul 128 (ty_yes t) 10000) (\<lambda>y.
      let approval_pct = y div non_abstain t
      in Ok (if approval_pct \<ge> APPROVAL_THRESHOLD_BPS then TallyPassed else TallyRejected)))))"

definition phase_for_time :: "proposal \<Rightarrow> timestamp \<Rightarrow> proposal_phase" where
  "phase_for_time p now_ms =
     (if now_ms < pr_discussion_ends p then Discussion
      else if now_ms < pr_voting_ends p then Voting
      else Voting)"

definition gov_crate_vote_key :: "nat \<Rightarrow> address \<Rightarrow> bytes" where
  "gov_crate_vote_key proposal_id voter = u64_be_bytes proposal_id @ word_bytes voter"

section \<open>The evaluation as inequalities\<close>

definition tally_fits :: "tally \<Rightarrow> bool" where
  "tally_fits t \<longleftrightarrow> (ty_yes t + ty_no t + ty_abstain t + ty_no_with_veto t) * 10000 < 2 ^ 128"

lemma tally_fits_totals:
  assumes "tally_fits t"
  shows "tally_total t = ty_yes t + ty_no t + ty_abstain t + ty_no_with_veto t"
    "non_abstain t = ty_yes t + ty_no t + ty_no_with_veto t"
proof -
  have "ty_yes t + ty_no t + ty_abstain t + ty_no_with_veto t < 2 ^ 128"
    using assms by (simp add: tally_fits_def)
  then show "tally_total t = ty_yes t + ty_no t + ty_abstain t + ty_no_with_veto t"
    "non_abstain t = ty_yes t + ty_no t + ty_no_with_veto t"
    by (simp_all add: tally_total_def non_abstain_def sat_add_exact)
qed

lemma bps_iff: "b > 0 \<Longrightarrow> k \<le> (x * 10000) div b \<longleftrightarrow> k * b \<le> x * (10000 :: nat)"
  by (simp add: less_eq_div_iff_mult_less_eq)

lemma tally_evaluate_eq:
  assumes "tally_fits t" and "n = ty_yes t + ty_no t + ty_abstain t + ty_no_with_veto t"
    and "m = ty_yes t + ty_no t + ty_no_with_veto t"
  shows "tally_evaluate t b = Ok
    (if b = 0 \<or> n = 0 \<or> 2 * n < b then TallyRejected
     else if 33 * n \<le> 100 * ty_no_with_veto t then TallyRejectedWithVeto
     else if m \<noteq> 0 \<and> 66 * m \<le> 100 * ty_yes t then TallyPassed
     else TallyRejected)"
proof -
  have tot: "tally_total t = n" "non_abstain t = m"
    using tally_fits_totals[OF assms(1)] assms(2,3) by simp_all
  have mul: "umul 128 n 10000 = (Ok (n * 10000) :: ('a, nat) result)"
    "umul 128 (ty_no_with_veto t) 10000 = (Ok (ty_no_with_veto t * 10000) :: ('a, nat) result)"
    "umul 128 (ty_yes t) 10000 = (Ok (ty_yes t * 10000) :: ('a, nat) result)"
    using assms(1) unfolding assms(2) tally_fits_def umul_def by (simp_all add: algebra_simps)
  show ?thesis
  proof (cases "b = 0 \<or> n = 0")
    case True
    then show ?thesis by (auto simp: tally_evaluate_def tot)
  next
    case False
    then have q: "QUORUM_BPS \<le> n * 10000 div b \<longleftrightarrow> \<not> 2 * n < b"
      "VETO_THRESHOLD_BPS \<le> ty_no_with_veto t * 10000 div n \<longleftrightarrow> 33 * n \<le> 100 * ty_no_with_veto t"
      by (auto simp: bps_iff QUORUM_BPS_def VETO_THRESHOLD_BPS_def)
    have y: "m \<noteq> 0 \<Longrightarrow> APPROVAL_THRESHOLD_BPS \<le> ty_yes t * 10000 div m \<longleftrightarrow> 66 * m \<le> 100 * ty_yes t"
      by (auto simp: bps_iff APPROVAL_THRESHOLD_BPS_def)
    show ?thesis using False q y mul by (simp add: tally_evaluate_def tot)
  qed
qed

section \<open>Votes\<close>

definition tally_votes :: "(vote_choice \<times> amount) list \<Rightarrow> tally" where
  "tally_votes vs = fold (\<lambda>(choice, w). add_vote choice w) vs tally_default"

lemma sat_add_commute3: "sat_add w (sat_add w a x) y = sat_add w (sat_add w a y) x"
  by (simp add: sat_add_def min_def)

lemma add_vote_commute: "add_vote c x (add_vote d y t) = add_vote d y (add_vote c x t)"
  by (cases c; cases d) (simp_all add: sat_add_commute3)

lemma tally_votes_perm: "mset vs = mset us \<Longrightarrow> tally_votes vs = tally_votes us"
  unfolding tally_votes_def
  by (rule fun_cong[OF fold_multiset_equiv]) (auto simp: add_vote_commute fun_eq_iff)

section \<open>Properties\<close>

text \<open>C1: a tally whose counts fit passes exactly when at least half of the bonded stake voted, less
  than 33\<open>%\<close> of the votes are vetoes and at least 66\<open>%\<close> of the votes that do not abstain are for it;
  it is vetoed when the quorum is met and the vetoes reach 33\<open>%\<close>. The bounds are inclusive, where the
  documentation writes them as strict.\<close>

theorem tally_rule:
  assumes "tally_fits t" and "n = ty_yes t + ty_no t + ty_abstain t + ty_no_with_veto t"
    and "m = ty_yes t + ty_no t + ty_no_with_veto t"
  shows "tally_evaluate t b = (Ok
    (if b = 0 \<or> n = 0 \<or> 2 * n < b then TallyRejected
     else if 33 * n \<le> 100 * ty_no_with_veto t then TallyRejectedWithVeto
     else if m \<noteq> 0 \<and> 66 * m \<le> 100 * ty_yes t then TallyPassed
     else TallyRejected) :: (chain_error, tally_outcome) result)"
  by (rule tally_evaluate_eq[OF assms])

theorem tally_rule_witness:
  "tally_evaluate \<lparr>ty_yes = 66, ty_no = 34, ty_abstain = 0, ty_no_with_veto = 0\<rparr> 200 =
     (Ok TallyPassed :: (chain_error, tally_outcome) result)"
  by (subst tally_rule[where n = 100 and m = 100]) (simp_all add: tally_fits_def)

end
