(* ===== verification/CommitBlock.thy ===== *)
theory CommitBlock
  imports Mempool Governance Emission Slashing ValidatorSet
begin

text \<open>
  The commit path (\<^verbatim>\<open>crates/consensus/src/commit.rs\<close>): a decided block is replayed on the committed
  state, disputes are slashed, the epoch boundary recomputes the validators, mints the pending rewards
  and resolves proposals, and the state root is checked against the header before anything is written.
  The lemmas show that the delegators' share is paid out exactly, that an epoch mints at most its
  budget, that resolved proposals stay resolved, and what a commit that succeeds or fails leaves.
\<close>

section \<open>Types\<close>

datatype commit_error =
  StateRootMismatch hash256 hash256
| CommitChainState chain_error

record commit_report =
  cr_state_root :: hash256
  cr_gas_used :: gas
  cr_applied_count :: nat

definition genesis_treasury_address :: "ext \<Rightarrow> address" where
  "genesis_treasury_address X = digest_address (x_blake3 X (str_bytes ''arknet-treasury-v1''))"

definition BLOCK_RETENTION :: nat where "BLOCK_RETENTION = 10000"

section \<open>Rewards at the epoch boundary\<close>

definition sum_amounts :: "nat \<Rightarrow> nat list \<Rightarrow> ('e, nat) result" where
  "sum_amounts w xs = rfold (\<lambda>x acc. uadd w acc x) xs 0"

text \<open>The pro-rata loop; the last delegator takes the remainder.\<close>

fun pay_delegators ::
    "amount \<Rightarrow> amount \<Rightarrow> stake_entry list \<Rightarrow> amount \<times> block_ctx \<Rightarrow> ('e, amount \<times> block_ctx) result" where
  "pay_delegators total_share total_delegated [] acc = Ok acc"
| "pay_delegators total_share total_delegated (s # ss) (distributed, c) =
     (let share = (if ss = [] then sat_sub total_share distributed
                   else sat_mul 128 total_share (se_amount s) div total_delegated)
      in rbind (if share > 0
                then (case se_delegator s of None \<Rightarrow> Panic | Some a \<Rightarrow> Ok (credit_address a share c))
                else Ok c) (\<lambda>c'.
         pay_delegators total_share total_delegated ss (sat_add 128 distributed share, c')))"

definition distribute_to_delegators ::
    "block_ctx \<Rightarrow> address \<Rightarrow> amount \<Rightarrow> ('e, block_ctx) result" where
  "distribute_to_delegators c compute_addr delegator_total =
     (if delegator_total = 0 then Ok c
      else case find (\<lambda>v. vi_operator v = compute_addr) (iter_validators (ctx_state c)) of
        None \<Rightarrow> Ok (credit_address compute_addr delegator_total c)
      | Some v \<Rightarrow>
          (let stakes = iter_stakes_for_node (ctx_state c) (vi_node_id v);
               delegator_stakes = filter (\<lambda>s. se_role s = Compute \<and> se_delegator s \<noteq> None) stakes
           in if delegator_stakes = [] then Ok (credit_address compute_addr delegator_total c)
              else rbind (sum_amounts 128 (map se_amount delegator_stakes)) (\<lambda>total_delegated.
                if total_delegated = 0 then Ok (credit_address compute_addr delegator_total c)
                else rbind (pay_delegators delegator_total total_delegated delegator_stakes (0, c))
                  (\<lambda>acc. Ok (snd acc)))))"

type_synonym mint_acc = "block_ctx \<times> emission_state \<times> amount"

text \<open>The reward of one pending entry.\<close>

definition pending_block_reward :: "amount \<Rightarrow> pending_reward \<Rightarrow> ('e, amount) result" where
  "pending_block_reward per_token p =
     rbind (compute_block_reward (pw_output_tokens p) per_token TextModel 7 100 100 9500) (\<lambda>base_reward.
     rbind (umul 128 (pw_tee_multiplier_bps p) (pw_https_multiplier_bps p)) (\<lambda>m.
     let combined_mult = m div 10000
     in rbind (umul 128 base_reward combined_mult) (\<lambda>r. Ok (r div 10000))))"

definition mint_pending :: "amount \<Rightarrow> pending_reward \<Rightarrow> mint_acc \<Rightarrow> ('e, mint_acc) result" where
  "mint_pending per_token p acc =
     (case acc of (c, emission, total_minted) \<Rightarrow>
       rbind (pending_block_reward per_token p) (\<lambda>block_reward.
       let (minted, emission') = try_mint block_reward emission
       in if minted = 0 then Ok (c, emission', total_minted)
          else rbind (distribute_reward minted) (\<lambda>dist.
            let c1 = fold credit_line [(pw_compute_addr p, rd_compute dist),
                       (pw_verifier_addr p, rd_verifier dist), (pw_treasury_addr p, rd_treasury dist)] c
            in rbind (if rd_delegators dist > 0
                      then distribute_to_delegators c1 (pw_compute_addr p) (rd_delegators dist)
                      else Ok c1) (\<lambda>c2.
               Ok (delete_pending_reward (pw_job_id p) c2, emission', sat_add 128 total_minted minted)))))"

definition epoch_boundary_mint :: "block_ctx \<Rightarrow> nat \<Rightarrow> height \<Rightarrow> ('e, block_ctx) result" where
  "epoch_boundary_mint c ending_epoch h =
     (let pending = iter_pending_rewards_for_epoch (ctx_state c) ending_epoch
      in if pending = [] then Ok c
         else rbind (sum_amounts 64 (map pw_output_tokens pending)) (\<lambda>total_tokens.
           let year = year_for_height h
           in rbind (epoch_budget year) (\<lambda>budget.
             let emission = \<lparr>em_epoch = epoch_for_height h, em_budget = budget, em_minted = 0,
                             em_total_minted = 0\<rparr>;
                 per_token = (if total_tokens > 0 then per_token_rate emission total_tokens else 0)
             in rbind (rfold (mint_pending per_token) pending (c, emission, 0)) (\<lambda>acc. Ok (fst acc)))))"

section \<open>Proposals at the epoch boundary\<close>

definition return_deposit :: "address \<Rightarrow> amount \<Rightarrow> block_ctx \<Rightarrow> block_ctx" where
  "return_deposit proposer deposit c =
     (if deposit = 0 then c
      else let acct = account_or_default c proposer
           in set_account proposer (acct\<lparr>balance := sat_add 128 (balance acct) deposit\<rparr>) c)"

definition weigh_votes :: "block_ctx \<Rightarrow> (address \<times> vote_choice) list \<Rightarrow> tally" where
  "weigh_votes c votes =
     fold (\<lambda>(voter, choice). add_vote choice
       (case get_account c voter of None \<Rightarrow> 0 | Some a \<Rightarrow> balance a)) votes tally_default"

definition process_proposal ::
    "timestamp \<Rightarrow> amount \<Rightarrow> nat \<times> proposal_record \<Rightarrow> block_ctx \<Rightarrow> ('e, block_ctx) result" where
  "process_proposal now_ms total_bonded ir c =
     (case ir of (i, r) \<Rightarrow>
       (case prr_phase r of
          Discussion \<Rightarrow>
            if now_ms \<ge> pr_discussion_ends (prr_proposal r)
            then Ok (set_proposal i (r\<lparr>prr_phase := Voting\<rparr>) c) else Ok c
        | Voting \<Rightarrow>
            if now_ms < pr_voting_ends (prr_proposal r) then Ok c
            else rbind (tally_evaluate (weigh_votes c (iter_votes_for_proposal (ctx_state c) i)) total_bonded)
              (\<lambda>outcome. case outcome of
                 TallyPassed \<Rightarrow> Ok (set_proposal i (r\<lparr>prr_phase := Passed\<rparr>)
                   (return_deposit (pr_proposer (prr_proposal r)) (pr_deposit (prr_proposal r)) c))
               | TallyRejected \<Rightarrow> Ok (set_proposal i (r\<lparr>prr_phase := Rejected\<rparr>)
                   (return_deposit (pr_proposer (prr_proposal r)) (pr_deposit (prr_proposal r)) c))
               | TallyRejectedWithVeto \<Rightarrow> Ok (set_proposal i (r\<lparr>prr_phase := RejectedWithVeto\<rparr>) c))
        | _ \<Rightarrow> Ok c))"

definition process_governance_proposals :: "block_ctx \<Rightarrow> timestamp \<Rightarrow> ('e, block_ctx) result" where
  "process_governance_proposals c now_ms =
     (let proposals = iter_proposals (ctx_state c)
      in if proposals = [] then Ok c
         else let total_bonded = total_bonded_stake (ctx_state c)
              in rfold (process_proposal now_ms total_bonded) proposals c)"

section \<open>Commit\<close>

text \<open>The replay loop: context, gas used, transactions applied.\<close>

definition replay_tx ::
    "ext \<Rightarrow> signed_transaction \<Rightarrow> block_ctx \<times> gas \<times> nat \<Rightarrow> (commit_error, block_ctx \<times> gas \<times> nat) result" where
  "replay_tx X tx acc =
     (case acc of (c, gas_used, n) \<Rightarrow>
       rbind (map_err CommitChainState (apply_tx X c tx)) (\<lambda>(c', out).
       case out of TxApplied g \<Rightarrow> Ok (c', sat_add 64 gas_used g, n + 1)
                 | TxRejected _ \<Rightarrow> Ok (c', gas_used, n)))"

text \<open>A slash that fails is logged and skipped; in the model it never fails, since it has no error
  besides those of the database.\<close>

definition slash_dispute ::
    "ext \<Rightarrow> signed_transaction \<Rightarrow> block_ctx \<Rightarrow> (commit_error, block_ctx) result" where
  "slash_dispute X tx c =
     (case stx_tx tx of
        DisputeTx d \<Rightarrow>
          if dp_claimed_output_hash d \<noteq> dp_reexec_output_hash d
          then (case apply_slash c (dp_compute_node d) Compute FailedDeterministicVerification
                       (dp_reporter d) (genesis_treasury_address X) of
                  Ok (c', _) \<Rightarrow> Ok c' | Err _ \<Rightarrow> Ok c | Panic \<Rightarrow> Panic)
          else Ok c
      | _ \<Rightarrow> Ok c)"

definition epoch_rotation :: "block_ctx \<Rightarrow> block_header \<Rightarrow> (commit_error, block_ctx) result" where
  "epoch_rotation c hdr =
     (if is_epoch_boundary (bh_height hdr)
      then let c1 = fst (recompute_validator_set c (bh_height hdr));
               ending_epoch = sat_sub (epoch_for_height (bh_height hdr)) 1
           in rbind (epoch_boundary_mint c1 ending_epoch (bh_height hdr)) (\<lambda>c2.
              process_governance_proposals c2 (bh_timestamp_ms hdr))
      else Ok c)"

definition rolled_base_fee :: "block_header \<Rightarrow> gas \<Rightarrow> amount" where
  "rolled_base_fee hdr gas_used =
     (case next_base_fee (bh_base_fee hdr) gas_used TARGET_GAS_PER_BLOCK of
        Ok f \<Rightarrow> f | _ \<Rightarrow> bh_base_fee hdr)"

definition commit_block ::
    "ext \<Rightarrow> state \<Rightarrow> mempool \<Rightarrow> block \<Rightarrow> (commit_error, state \<times> mempool \<times> commit_report) result" where
  "commit_block X s mp b =
     (let hdr = bl_header b
      in rbind (rfold (replay_tx X) (bl_txs b) (begin_block s, 0, 0)) (\<lambda>(c1, gas_used, n).
         rbind (rfold (slash_dispute X) (bl_txs b) c1) (\<lambda>c2.
         rbind (epoch_rotation c2 hdr) (\<lambda>c3.
         let c4 = set_base_fee (rolled_base_fee hdr gas_used) (set_current_height (bh_height hdr) c3);
             replayed_root = fst (preview_state_root X c4)
         in if replayed_root \<noteq> bh_state_root hdr
            then Err (StateRootMismatch (bh_state_root hdr) replayed_root)
            else let (committed_root, s1) = commit X c4;
                     d1 = store_block X (bh_height hdr) b (st_db s1);
                     d2 = (if bh_height hdr > BLOCK_RETENTION
                           then snd (prune_blocks_before X (bh_height hdr - BLOCK_RETENTION) d1) else d1);
                     mp' = remove_many (map (stx_hash X) (bl_txs b)) mp
                 in Ok (s1\<lparr>st_db := d2\<rparr>, mp',
                        \<lparr>cr_state_root = committed_root, cr_gas_used = gas_used,
                          cr_applied_count = n\<rparr>)))))"

section \<open>Credits\<close>

text \<open>A step that adds \<open>x\<close> to the account balances and leaves stakes, unbondings and escrows alone.\<close>

definition credits :: "amount \<Rightarrow> block_ctx \<Rightarrow> block_ctx \<Rightarrow> bool" where
  "credits x c c' \<longleftrightarrow> coherent c' \<and> ctx_state c' = ctx_state c \<and>
     total_balance (cf_accounts (view c')) = total_balance (cf_accounts (view c)) + x \<and>
     cf_stakes (view c') = cf_stakes (view c) \<and> cf_unbondings (view c') = cf_unbondings (view c) \<and>
     cf_escrows (view c') = cf_escrows (view c)"

lemma credits_refl: "coherent c \<Longrightarrow> credits 0 c c"
  by (simp add: credits_def)

lemma credits_trans: "credits x a b \<Longrightarrow> credits y b c \<Longrightarrow> credits (x + y) a c"
  by (simp add: credits_def)

lemma credits_coherent: "credits x c c' \<Longrightarrow> coherent c'"
  by (simp add: credits_def)

lemma credits_total:
  "credits x c c' \<Longrightarrow> total_balance (cf_accounts (view c')) = total_balance (cf_accounts (view c)) + x"
  by (simp add: credits_def)

lemma credits_address:
  assumes "coherent c" "total_balance (cf_accounts (view c)) + x < 2 ^ 128"
  shows "credits x c (credit_address a x c)"
  using credit_total[OF assms] assms(1) by (simp add: credits_def coherent_credit_address)

lemma credits_lines:
  assumes "coherent c" "total_balance (cf_accounts (view c)) + lines_total ls < 2 ^ 128"
  shows "credits (lines_total ls) c (fold credit_line ls c)"
  using credit_lines_total[OF assms] assms(1) by (simp add: credits_def credit_lines_coherent)

lemma credits_delete_reward: "credits x c c' \<Longrightarrow> credits x c (delete_pending_reward j c')"
  by (simp add: credits_def coherent_intros)

section \<open>The delegators' share\<close>

lemma pay_delegators_exact:
  assumes "T > 0" "D < 2 ^ 128"
  shows "ss \<noteq> [] \<Longrightarrow> coherent c \<Longrightarrow> dist * T + D * (\<Sum>s\<leftarrow>ss. se_amount s) \<le> D * T \<Longrightarrow>
    total_balance (cf_accounts (view c)) + (D - dist) < 2 ^ 128 \<Longrightarrow>
    pay_delegators D T ss (dist, c) = (Ok (dist', c') :: ('e, _) result) \<Longrightarrow> credits (D - dist) c c'"
proof (induction ss arbitrary: dist c)
  case (Cons s ss)
  have "dist * T \<le> D * T" using Cons.prems(3) by linarith
  then have dist: "dist \<le> D" using assms(1) by simp
  define share where "share = (if ss = [] then D - dist else sat_mul 128 D (se_amount s) div T)"
  let ?step = "if share > 0
      then (case se_delegator s of None \<Rightarrow> Panic | Some a \<Rightarrow> Ok (credit_address a share c))
      else Ok c"
  have eq: "pay_delegators D T (s # ss) (dist, c) =
      rbind ?step (\<lambda>c1. pay_delegators D T ss (sat_add 128 dist share, c1))"
    unfolding pay_delegators.simps Let_def sat_sub_def share_def[symmetric] by (rule refl)
  obtain c1 where c1: "?step = (Ok c1 :: ('e, block_ctx) result)"
    and rest: "pay_delegators D T ss (sat_add 128 dist share, c1) = (Ok (dist', c') :: ('e, _) result)"
    using Cons.prems(5)[unfolded eq rbind_Ok_iff] by blast
  have fit: "share \<le> D - dist \<and> (ss \<noteq> [] \<longrightarrow> (dist + share) * T + D * (\<Sum>s\<leftarrow>ss. se_amount s) \<le> D * T)"
  proof (cases "ss = []")
    case True
    then show ?thesis by (simp add: share_def)
  next
    case False
    then have "share \<le> D * se_amount s div T"
      by (simp add: share_def div_le_mono sat_mul_le)
    then have "share * T \<le> D * se_amount s div T * T" by (rule mult_le_mono1)
    also have "\<dots> \<le> D * se_amount s" by simp
    finally have "(dist + share) * T + D * (\<Sum>s\<leftarrow>ss. se_amount s) \<le> D * T"
      using Cons.prems(3) by (simp add: algebra_simps)
    moreover from this have "(dist + share) * T \<le> D * T" by linarith
    ultimately show ?thesis using assms(1) by simp
  qed
  have cr: "credits share c c1"
    using c1 credits_refl[OF Cons.prems(2)] credits_address[OF Cons.prems(2), of share] fit Cons.prems(4)
    by (auto split: if_splits option.splits)
  show ?case
  proof (cases "ss = []")
    case True
    then show ?thesis using rest cr by (simp add: share_def)
  next
    case False
    have sa: "sat_add 128 dist share = dist + share"
      using fit dist assms(2) by (intro sat_add_exact) linarith
    have "total_balance (cf_accounts (view c1)) + (D - (dist + share)) < 2 ^ 128"
      using credits_total[OF cr] fit Cons.prems(4) by linarith
    with Cons.IH[OF False credits_coherent[OF cr], of "dist + share"] fit False rest
    have "credits (D - (dist + share)) c1 c'" unfolding sa by blast
    moreover have "share + (D - (dist + share)) = D - dist" using fit dist by linarith
    ultimately show ?thesis using credits_trans[OF cr] by metis
  qed
qed simp

lemma sum_amounts_Ok: "sum_amounts w xs = (Ok t :: ('e, nat) result) \<Longrightarrow> t = sum_list xs"
proof -
  have "rfold (\<lambda>x acc. uadd w acc x) xs a = (Ok t :: ('e, nat) result) \<Longrightarrow> t = a + sum_list xs" for a
  proof (induction xs arbitrary: a)
    case (Cons x xs)
    then have "rfold (\<lambda>x acc. uadd w acc x) xs (a + x) = (Ok t :: ('e, nat) result)"
      by (auto simp: rbind_Ok_iff uadd_Ok_iff)
    from Cons.IH[OF this] show ?case by simp
  qed simp
  from this[of 0] show "sum_amounts w xs = (Ok t :: ('e, nat) result) \<Longrightarrow> t = sum_list xs"
    by (simp add: sum_amounts_def)
qed

lemma distribute_exact:
  assumes "coherent c" "total_balance (cf_accounts (view c)) + D < 2 ^ 128"
    and "distribute_to_delegators c a D = (Ok c' :: ('e, block_ctx) result)"
  shows "credits D c c'"
proof -
  have direct: "credits D c (credit_address a D c)" by (rule credits_address[OF assms(1,2)])
  consider "D = 0" "c' = c" | "c' = credit_address a D c"
    | ss T acc where "ss \<noteq> []" "sum_amounts 128 (map se_amount ss) = (Ok T :: ('e, nat) result)" "T \<noteq> 0"
      "pay_delegators D T ss (0, c) = (Ok acc :: ('e, _) result)" "c' = snd acc"
    using assms(3) unfolding distribute_to_delegators_def Let_def
    by (auto simp: rbind_Ok_iff split: if_splits option.splits)
  then show ?thesis
  proof cases
    case 1
    then show ?thesis using credits_refl[OF assms(1)] by simp
  next
    case 2
    then show ?thesis using direct by simp
  next
    case 3
    have "T = (\<Sum>s\<leftarrow>ss. se_amount s)" using sum_amounts_Ok[OF 3(2)] .
    moreover have "D < 2 ^ 128" using assms(2) by linarith
    ultimately show ?thesis
      using pay_delegators_exact[of T D ss c 0 "fst acc" c'] 3 assms(1,2) by simp
  qed
qed

section \<open>The mint of an epoch\<close>

definition reward_lines :: "pending_reward \<Rightarrow> reward_distribution \<Rightarrow> (address \<times> amount) list" where
  "reward_lines p d = [(pw_compute_addr p, rd_compute d), (pw_verifier_addr p, rd_verifier d),
     (pw_treasury_addr p, rd_treasury d)]"

lemma mint_pending_cases:
  assumes "mint_pending r p (c, em, tm) = (Ok (c', em', tm') :: ('e, mint_acc) result)"
  obtains (skip) blk where "try_mint blk em = (0, em')" "c' = c" "pending_block_reward r p = (Ok blk :: ('e, amount) result)"
  | (pay) blk m d c2 where "try_mint blk em = (m, em')" "distribute_reward m = (Ok d :: ('e, _) result)"
      "(if rd_delegators d > 0
        then distribute_to_delegators (fold credit_line (reward_lines p d) c) (pw_compute_addr p)
               (rd_delegators d)
        else Ok (fold credit_line (reward_lines p d) c)) = (Ok c2 :: ('e, _) result)"
      "c' = delete_pending_reward (pw_job_id p) c2" "pending_block_reward r p = (Ok blk :: ('e, amount) result)" "m \<noteq> 0"
proof -
  obtain blk where blk: "pending_block_reward r p = (Ok blk :: ('e, _) result)"
    using assms by (auto simp: mint_pending_def rbind_Ok_iff)
  obtain m em1 where m: "try_mint blk em = (m, em1)" by (cases "try_mint blk em")
  show thesis
  proof (cases "m = 0")
    case True
    with assms blk m have "c' = c" "em' = em1" by (simp_all add: mint_pending_def)
    then show thesis using skip[of blk] m True blk by simp
  next
    case False
    have eq: "(mint_pending r p (c, em, tm) :: ('e, mint_acc) result) = rbind (distribute_reward m) (\<lambda>d.
        rbind (if rd_delegators d > 0
               then distribute_to_delegators (fold credit_line (reward_lines p d) c) (pw_compute_addr p)
                      (rd_delegators d)
               else Ok (fold credit_line (reward_lines p d) c)) (\<lambda>c2.
        Ok (delete_pending_reward (pw_job_id p) c2, em1, sat_add 128 tm m)))"
      unfolding reward_lines_def
      by (simp only: mint_pending_def blk m Let_def prod.case rbind.simps if_not_P[OF False])
    show thesis
      using assms[unfolded eq rbind_Ok_iff result.inject prod.inject] pay[of blk m] m blk False by blast
  qed
qed

text \<open>A credit changes accounts only.\<close>

definition only_accounts :: "block_ctx \<Rightarrow> block_ctx \<Rightarrow> bool" where
  "only_accounts c c' \<longleftrightarrow> (\<exists>accts. view c' = (view c)\<lparr>cf_accounts := accts\<rparr>)"

lemma only_accounts_refl [simp]: "only_accounts c c"
  unfolding only_accounts_def by (rule exI[of _ "cf_accounts (view c)"]) simp

lemma only_accounts_trans: "only_accounts a b \<Longrightarrow> only_accounts b c \<Longrightarrow> only_accounts a c"
  unfolding only_accounts_def by auto

lemma only_accounts_credit: "only_accounts a c \<Longrightarrow> only_accounts a (credit_address x n c)"
  unfolding only_accounts_def credit_address_def Let_def by auto

lemma only_accounts_lines: "only_accounts a c \<Longrightarrow> only_accounts a (fold credit_line ls c)"
  by (induction ls arbitrary: c) (auto simp: credit_line_def intro: only_accounts_credit)

lemma only_accounts_pay:
  "pay_delegators D T ss (d, c) = (Ok (d', c') :: ('e, amount \<times> block_ctx) result) \<Longrightarrow> only_accounts a c \<Longrightarrow> only_accounts a c'"
proof (induction ss arbitrary: d c)
  case (Cons s ss)
  from Cons.prems(1) obtain c1 d1 where
    "pay_delegators D T ss (d1, c1) = (Ok (d', c') :: ('e, amount \<times> block_ctx) result)"
    and "c1 = c \<or> (\<exists>x y. c1 = credit_address x y c)"
    unfolding pay_delegators.simps Let_def rbind_Ok_iff by (auto split: if_split_asm option.split_asm)
  then show ?case using Cons.IH Cons.prems(2) only_accounts_credit by blast
qed simp

lemma only_accounts_distribute:
  assumes "distribute_to_delegators c a D = (Ok c' :: ('e, block_ctx) result)"
  shows "only_accounts c c'"
proof -
  consider "c' = c" | "c' = credit_address a D c"
    | T ss d' where "pay_delegators D T ss (0, c) = (Ok (d', c') :: ('e, _) result)"
    using assms unfolding distribute_to_delegators_def Let_def
    by (auto simp: rbind_Ok_iff split: if_split_asm option.split_asm)
  then show ?thesis by cases (auto intro: only_accounts_credit only_accounts_pay)
qed

text \<open>The rewards asked for, each cut to what is left of the budget, and the jobs whose reward is paid: their
  entries are deleted, the accounts are credited, and the rest of the database is as before.\<close>

fun spend :: "amount \<Rightarrow> amount list \<Rightarrow> amount list" where
  "spend b [] = []"
| "spend b (r # rs) = min r b # spend (b - min r b) rs"

lemma spend_le: "sum_list (spend b rs) \<le> b"
proof (induction rs arbitrary: b)
  case (Cons r rs)
  have "sum_list (spend (b - min r b) rs) \<le> b - min r b" by (rule Cons.IH)
  then show ?case by simp
qed simp

definition paid_jobs :: "pending_reward list \<Rightarrow> amount list \<Rightarrow> job_id list" where
  "paid_jobs ps ms = map (\<lambda>x. pw_job_id (fst x)) (filter (\<lambda>x. snd x > 0) (zip ps ms))"

definition pays_out :: "job_id list \<Rightarrow> block_ctx \<Rightarrow> block_ctx \<Rightarrow> bool" where
  "pays_out js c c' \<longleftrightarrow> (\<exists>accts. view c' = (view c)\<lparr>cf_accounts := accts,
     cf_pending_rewards := fold kv_del js (cf_pending_rewards (view c))\<rparr>)"

lemma pays_out_Nil [simp]: "pays_out [] c c"
  unfolding pays_out_def by (rule exI[of _ "cf_accounts (view c)"]) simp

lemma pays_out_append: "pays_out js a b \<Longrightarrow> pays_out ks b c \<Longrightarrow> pays_out (js @ ks) a c"
  unfolding pays_out_def by auto

lemma pays_out_one: "only_accounts c c' \<Longrightarrow> pays_out [j] c (delete_pending_reward j c')"
  unfolding pays_out_def only_accounts_def by auto

lemma mint_pending_effect:
  assumes "coherent c" "emission_ok em" "total_balance (cf_accounts (view c)) + remaining em < 2 ^ 128"
    and "remaining em + em_total_minted em \<le> TOTAL_SUPPLY_CAP"
    and "mint_pending rate p (c, em, tm) = (Ok (c', em', tm') :: ('e, mint_acc) result)"
  obtains r m where "pending_block_reward rate p = (Ok r :: ('e, amount) result)" "m = min r (remaining em)"
    "credits (m - m * 3 div 100) c c'" "pays_out (if m > 0 then [pw_job_id p] else []) c c'"
    "emission_ok em'" "remaining em' = remaining em - m" "remaining em' + em_total_minted em' \<le> TOTAL_SUPPLY_CAP"
proof -
  have minted: "m = min r (remaining em)" "emission_ok em'" "remaining em' = remaining em - m" "m \<le> remaining em"
      "remaining em' + em_total_minted em' \<le> TOTAL_SUPPLY_CAP" if "try_mint r em = (m, em')" for r m
    using try_mint_effect[OF assms(2) that] assms(4) by (simp_all add: min_def split: if_splits)
  from assms(5) show thesis
  proof (cases rule: mint_pending_cases)
    case (skip blk)
    note e = minted[OF skip(1)]
    show thesis using credits_refl[OF assms(1)] skip(2) by (intro that[OF skip(3) e(1) _ _ e(2,3,5)]) simp_all
  next
    case (pay blk m d c2)
    note e = minted[OF pay(1)]
    have burned: "rd_burned d = m * 3 div 100"
      using pay(2) by (auto simp: distribute_reward_eq split: if_splits)
    have total: "lines_total (reward_lines p d) + rd_delegators d + m * 3 div 100 = m"
      using distribute_total[OF pay(2)] burned by (simp add: reward_lines_def rd_total_def)
    let ?c1 = "fold credit_line (reward_lines p d) c"
    have cl: "credits (lines_total (reward_lines p d)) c ?c1"
      by (rule credits_lines[OF assms(1)]) (use total e(4) assms(3) in linarith)
    have "credits (rd_delegators d) ?c1 c2 \<and> only_accounts ?c1 c2"
    proof (cases "rd_delegators d > 0")
      case True
      have "total_balance (cf_accounts (view ?c1)) + rd_delegators d < 2 ^ 128"
        unfolding credits_total[OF cl] using total e(4) assms(3) by linarith
      with distribute_exact[OF credits_coherent[OF cl]] pay(3) True only_accounts_distribute show ?thesis by auto
    next
      case False
      then show ?thesis using pay(3) credits_refl[OF credits_coherent[OF cl]] by simp
    qed
    then have cd: "credits (rd_delegators d) ?c1 c2" and oa: "only_accounts c c2"
      using only_accounts_trans[OF only_accounts_lines[OF only_accounts_refl]] by blast+
    from credits_delete_reward[OF credits_trans[OF cl cd]]
    have "credits (lines_total (reward_lines p d) + rd_delegators d) c c'" by (simp add: pay(4))
    moreover have "lines_total (reward_lines p d) + rd_delegators d = m - m * 3 div 100" using total by linarith
    ultimately have c: "credits (m - m * 3 div 100) c c'" by (simp only:)
    show thesis using pays_out_one[OF oa] pay(4,6) by (intro that[OF pay(5) e(1) c _ e(2,3,5)]) simp
  qed
qed

lemma mint_loop_effect:
  "coherent c \<Longrightarrow> emission_ok em \<Longrightarrow> total_balance (cf_accounts (view c)) + remaining em < 2 ^ 128 \<Longrightarrow>
   remaining em + em_total_minted em \<le> TOTAL_SUPPLY_CAP \<Longrightarrow>
   rfold (mint_pending rate) ps (c, em, tm) = (Ok (c', em', tm') :: ('e, mint_acc) result) \<Longrightarrow>
   \<exists>rs. list_all2 (\<lambda>p r. pending_block_reward rate p = (Ok r :: ('e, amount) result)) ps rs \<and>
     credits (\<Sum>m\<leftarrow>spend (remaining em) rs. m - m * 3 div 100) c c' \<and>
     pays_out (paid_jobs ps (spend (remaining em) rs)) c c'"
proof (induction ps arbitrary: c em tm)
  case Nil
  then show ?case using credits_refl by (auto simp: paid_jobs_def)
next
  case (Cons p ps)
  obtain c1 em1 tm1 where s: "mint_pending rate p (c, em, tm) = (Ok (c1, em1, tm1) :: ('e, mint_acc) result)"
    and rest: "rfold (mint_pending rate) ps (c1, em1, tm1) = (Ok (c', em', tm') :: ('e, mint_acc) result)"
    using Cons.prems(5) by (auto simp: rbind_Ok_iff)
  obtain r m where m: "pending_block_reward rate p = (Ok r :: ('e, amount) result)" "m = min r (remaining em)"
    "credits (m - m * 3 div 100) c c1" "pays_out (if m > 0 then [pw_job_id p] else []) c c1"
    "emission_ok em1" "remaining em1 = remaining em - m" "remaining em1 + em_total_minted em1 \<le> TOTAL_SUPPLY_CAP"
    using mint_pending_effect[OF Cons.prems(1-4) s] by metis
  have "m \<le> remaining em" using m(2) by simp
  then have "total_balance (cf_accounts (view c1)) + remaining em1 < 2 ^ 128"
    unfolding credits_total[OF m(3)] using m(6) Cons.prems(3) by linarith
  from Cons.IH[OF credits_coherent[OF m(3)] m(5) this m(7) rest] obtain rs where
    rs: "list_all2 (\<lambda>p r. pending_block_reward rate p = (Ok r :: ('e, amount) result)) ps rs"
      "credits (\<Sum>m\<leftarrow>spend (remaining em1) rs. m - m * 3 div 100) c1 c'"
      "pays_out (paid_jobs ps (spend (remaining em1) rs)) c1 c'" by blast
  have sp: "spend (remaining em) (r # rs) = m # spend (remaining em1) rs" by (simp add: m(2,6))
  have "paid_jobs (p # ps) (m # spend (remaining em1) rs) =
      (if m > 0 then [pw_job_id p] else []) @ paid_jobs ps (spend (remaining em1) rs)"
    by (simp add: paid_jobs_def)
  then show ?case using rs(1) m(1) credits_trans[OF m(3) rs(2)] pays_out_append[OF m(4) rs(3)]
    by (intro exI[of _ "r # rs"]) (simp add: sp del: spend.simps)
qed

lemma epoch_budget_bound: "epoch_budget y = Ok b \<Longrightarrow> b < 2 ^ 128"
proof -
  assume "epoch_budget y = Ok b"
  then obtain a where "b = sat_mul 128 a ATOMS_PER_ARK div EPOCHS_PER_YEAR"
    by (auto simp: epoch_budget_def annual_emission_def rbind_Ok_iff)
  moreover have "sat_mul 128 a ATOMS_PER_ARK div EPOCHS_PER_YEAR \<le> sat_mul 128 a ATOMS_PER_ARK" by simp
  ultimately show ?thesis using sat_mul_less[of 128 a ATOMS_PER_ARK] by linarith
qed

lemma epoch_budget_cap:
  assumes "epoch_budget y = (Ok b :: ('e, amount) result)"
  shows "b \<le> TOTAL_SUPPLY_CAP"
proof -
  from assms obtain a where a: "annual_emission_ark y = (Ok a :: ('e, amount) result)" and b: "b = sat_mul 128 a ATOMS_PER_ARK div EPOCHS_PER_YEAR"
    by (auto simp: epoch_budget_def annual_emission_def rbind_Ok_iff)
  have "\<forall>x \<in> set ANNUAL_EMISSION_ARK. x \<le> 120000000" by (simp add: ANNUAL_EMISSION_ARK_def)
  moreover have "ANNUAL_EMISSION_ARK \<noteq> []" by (simp add: ANNUAL_EMISSION_ARK_def)
  moreover have "\<And>m k. (m :: nat) \<le> 120000000 \<Longrightarrow> m div k \<le> 120000000" using div_le_dividend le_trans by blast
  ultimately have "a \<le> 120000000" using a
    by (auto simp: annual_emission_ark_def ushr_def Let_def split: if_splits)
  then have "a * ATOMS_PER_ARK \<le> TOTAL_SUPPLY_CAP" by (simp add: TOTAL_SUPPLY_CAP_def ATOMS_PER_ARK_def)
  moreover have "sat_mul 128 a ATOMS_PER_ARK \<le> a * ATOMS_PER_ARK" by (rule sat_mul_le)
  moreover have "b \<le> sat_mul 128 a ATOMS_PER_ARK" unfolding b by (rule div_le_dividend)
  ultimately show ?thesis by linarith
qed

text \<open>The rate of an epoch: its budget over the tokens of its jobs.\<close>

definition epoch_rate :: "amount \<Rightarrow> pending_reward list \<Rightarrow> amount" where
  "epoch_rate b ps = (let t = sum_list (map pw_output_tokens ps) in if t > 0 then b div t else 0)"

lemma epoch_mint_effect:
  assumes "coherent c" "epoch_budget (year_for_height h) = (Ok b :: ('e, amount) result)"
    and "total_balance (cf_accounts (view c)) + b < 2 ^ 128"
    and "epoch_boundary_mint c ep h = (Ok c' :: ('e, block_ctx) result)"
    and "ps = iter_pending_rewards_for_epoch (ctx_state c) ep"
  shows "\<exists>rs. list_all2 (\<lambda>p r. pending_block_reward (epoch_rate b ps) p = (Ok r :: ('e, amount) result)) ps rs \<and>
     credits (\<Sum>m\<leftarrow>spend b rs. m - m * 3 div 100) c c' \<and> pays_out (paid_jobs ps (spend b rs)) c c'"
proof (cases "ps = []")
  case True
  then show ?thesis using assms(4,5) credits_refl[OF assms(1)]
    by (intro exI[of _ "[]"]) (simp add: epoch_boundary_mint_def paid_jobs_def)
next
  case False
  let ?em = "\<lparr>em_epoch = epoch_for_height h, em_budget = b, em_minted = 0, em_total_minted = 0\<rparr>"
  have rem: "remaining ?em = b" by (simp add: remaining_def sat_sub_def)
  obtain t where t: "sum_amounts 64 (map pw_output_tokens ps) = (Ok t :: ('e, nat) result)"
    using False assms(2,4,5) by (auto simp: epoch_boundary_mint_def Let_def rbind_Ok_iff)
  have rate: "(if t > 0 then per_token_rate ?em t else 0) = epoch_rate b ps"
    unfolding epoch_rate_def Let_def sum_amounts_Ok[OF t, symmetric] by (simp add: per_token_rate_def rem)
  obtain c1 em' tm' where l: "rfold (mint_pending (epoch_rate b ps)) ps (c, ?em, 0) =
      (Ok (c1, em', tm') :: ('e, _) result)" "c' = c1"
    using False assms(2,4) t rate by (auto simp: epoch_boundary_mint_def Let_def rbind_Ok_iff assms(5)[symmetric])
  have "emission_ok ?em" using epoch_budget_bound[OF assms(2)] by (simp add: emission_ok_def)
  moreover have "remaining ?em + em_total_minted ?em \<le> TOTAL_SUPPLY_CAP"
    using epoch_budget_cap[OF assms(2)] by (simp add: remaining_def sat_sub_def)
  ultimately show ?thesis using mint_loop_effect[OF assms(1) _ _ _ l(1)] assms(3) l(2) unfolding rem by blast
qed

section \<open>Coherence of the whole commit\<close>

definition keeps :: "block_ctx \<Rightarrow> block_ctx \<Rightarrow> bool" where
  "keeps c c' \<longleftrightarrow> (coherent c \<longrightarrow> coherent c') \<and> ctx_state c' = ctx_state c"

lemma keeps_refl [simp]: "keeps c c"
  by (simp add: keeps_def)

lemma keeps_trans: "keeps a b \<Longrightarrow> keeps b c \<Longrightarrow> keeps a c"
  by (simp add: keeps_def)

lemma keeps_step:
  "keeps a c \<Longrightarrow> keeps a (credit_address x y c)"
  "keeps a c \<Longrightarrow> keeps a (credit_positive x y c)"
  "keeps a c \<Longrightarrow> keeps a (set_account x acct c)"
  "keeps a c \<Longrightarrow> keeps a (set_stake n r p d e c)"
  "keeps a c \<Longrightarrow> keeps a (set_unbonding n u c)"
  "keeps a c \<Longrightarrow> keeps a (set_validator n v c)"
  "keeps a c \<Longrightarrow> keeps a (delete_validator n c)"
  "keeps a c \<Longrightarrow> keeps a (delete_pending_reward j c)"
  "keeps a c \<Longrightarrow> keeps a (set_proposal i prr c)"
  "keeps a c \<Longrightarrow> keeps a (set_current_height h c)"
  "keeps a c \<Longrightarrow> keeps a (set_base_fee f c)"
  "keeps a c \<Longrightarrow> keeps a (return_deposit x y c)"
  by (simp_all add: keeps_def coherent_intros credit_positive_def return_deposit_def Let_def)

lemma keeps_lines: "keeps a c \<Longrightarrow> keeps a (fold credit_line ls c)"
  by (simp add: keeps_def credit_lines_coherent)

lemma keeps_replay:
  assumes "replay_tx X tx (c, g, n) = Ok (c', g', n')"
  shows "keeps c c'"
proof -
  from assms obtain c1 out where s: "apply_tx X c tx = Ok (c1, out)"
    by (auto simp: replay_tx_def rbind_Ok_iff)
  then have "c1 = c'" using assms by (cases out) (simp_all add: replay_tx_def)
  with apply_tx_evolves[OF s] show ?thesis by (simp add: keeps_def evolves_def)
qed

lemma keeps_slash:
  assumes "apply_slash c n r o' a t = Ok (c', rep)"
  shows "keeps c c'"
proof -
  obtain acc1 acc2 where 1: "rfold (slash_stake (penalty_percent o'))
        (filter (\<lambda>e. se_role e = r) (iter_stakes_for_node (ctx_state c) n)) (c, 0, 0) =
        (Ok acc1 :: (chain_error, slash_acc) result)"
    and 2: "rfold (slash_unbonding n r (case st_current_height (ctx_state c) of Some h \<Rightarrow> h | None \<Rightarrow> 0)
        (penalty_percent o')) (iter_unbondings_for_node (ctx_state c) n) acc1 =
        (Ok acc2 :: (chain_error, slash_acc) result)"
    and c': "\<exists>x y. c' = credit_positive t x (credit_positive a y (fst acc2))"
    using assms by (auto simp: apply_slash_def Let_def rbind_Ok_iff split: prod.splits) blast
  have k1: "keeps c (fst acc1)"
    by (rule rfold_invariant[where P = "\<lambda>acc. keeps c (fst acc)", OF _ _ 1])
      (auto simp: slash_stake_def Let_def rbind_Ok_iff intro: keeps_step split: if_splits prod.splits)
  have "keeps c (fst acc2)"
    by (rule rfold_invariant[where P = "\<lambda>acc. keeps c (fst acc)", OF _ k1 2])
      (auto simp: slash_unbonding_def Let_def rbind_Ok_iff intro: keeps_step split: if_splits prod.splits)
  then show ?thesis using c' by (auto intro: keeps_step)
qed

lemma keeps_slash_dispute: "slash_dispute X tx c = Ok c' \<Longrightarrow> keeps c c'"
  by (auto simp: slash_dispute_def dest: keeps_slash split: transaction.splits if_splits result.splits)

lemma keeps_recompute: "keeps c (fst (recompute_validator_set c h))"
proof -
  have "keeps c (fst (fold (seat b) xs (c1, k)))" if "keeps c c1" for b xs c1 k
    using that
  proof (induction xs arbitrary: c1 k)
    case (Cons x xs)
    obtain c2 k2 where s: "seat b x (c1, k) = (c2, k2)" by (cases "seat b x (c1, k)")
    have "keeps c c2" using Cons.prems s by (auto simp: seat_def Let_def intro: keeps_step split: if_splits)
    from Cons.IH[OF this] show ?case by (simp add: s)
  qed simp
  then show ?thesis by (simp add: recompute_validator_set_def Let_def)
qed

lemma keeps_pay:
  "pay_delegators D T ss (d, c) = (Ok (d', c') :: ('e, amount \<times> block_ctx) result) \<Longrightarrow> keeps a c \<Longrightarrow> keeps a c'"
proof (induction ss arbitrary: d c)
  case (Cons s ss)
  from Cons.prems(1) obtain c1 d1 where
    "pay_delegators D T ss (d1, c1) = (Ok (d', c') :: ('e, amount \<times> block_ctx) result)"
    and "c1 = c \<or> (\<exists>x y. c1 = credit_address x y c)"
    unfolding pay_delegators.simps Let_def rbind_Ok_iff by (auto split: if_split_asm option.split_asm)
  then show ?case using Cons.IH Cons.prems(2) keeps_step(1) by blast
qed simp

lemma keeps_distribute:
  assumes "distribute_to_delegators c a D = (Ok c' :: ('e, block_ctx) result)"
  shows "keeps c c'"
proof -
  consider "c' = c" | "c' = credit_address a D c"
    | T ss d' where "pay_delegators D T ss (0, c) = (Ok (d', c') :: ('e, _) result)"
    using assms unfolding distribute_to_delegators_def Let_def
    by (auto simp: rbind_Ok_iff split: if_split_asm option.split_asm)
  then show ?thesis by cases (auto intro: keeps_step keeps_pay)
qed

lemma keeps_mint_pending:
  assumes "mint_pending r p (c, em, tm) = (Ok (c', em', tm') :: ('e, mint_acc) result)"
  shows "keeps c c'"
  using assms
proof (cases rule: mint_pending_cases)
  case (pay blk m d c2)
  have "keeps c (fold credit_line (reward_lines p d) c)" by (rule keeps_lines[OF keeps_refl])
  moreover have "keeps (fold credit_line (reward_lines p d) c) c2"
    using pay(3) keeps_distribute by (auto split: if_splits)
  ultimately show ?thesis unfolding pay(4) by (blast intro: keeps_step keeps_trans)
qed simp

lemma keeps_rfold:
  assumes "rfold f xs c = Ok c'" and "\<And>x c c'. f x c = Ok c' \<Longrightarrow> keeps c c'"
  shows "keeps c c'"
  by (rule rfold_invariant[where P = "keeps c", OF _ keeps_refl assms(1)]) (blast intro: keeps_trans assms(2))

lemma keeps_mint:
  assumes "epoch_boundary_mint c ep h = (Ok c' :: ('e, block_ctx) result)"
  shows "keeps c c'"
proof -
  consider "c' = c" | r em where
    "rbind (rfold (mint_pending r) (iter_pending_rewards_for_epoch (ctx_state c) ep) (c, em, 0))
       (\<lambda>acc. Ok (fst acc)) = (Ok c' :: ('e, _) result)"
    using assms unfolding epoch_boundary_mint_def Let_def by (auto simp: rbind_Ok_iff split: if_split_asm)
  then show ?thesis
  proof cases
    case 2
    then obtain em' tm' where l: "rfold (mint_pending r) (iter_pending_rewards_for_epoch (ctx_state c) ep)
        (c, em, 0) = (Ok (c', em', tm') :: ('e, _) result)" by (auto simp: rbind_Ok_iff)
    have "keeps c (fst (c', em', tm'))"
    proof (rule rfold_invariant[where P = "\<lambda>acc. keeps c (fst acc)", OF _ _ l])
      fix x acc acc' assume k: "keeps c (fst acc)" "mint_pending r x acc = (Ok acc' :: ('e, _) result)"
      obtain a em1 t1 where acc: "acc = (a, em1, t1)" by (cases acc)
      obtain a' em2 t2 where acc': "acc' = (a', em2, t2)" by (cases acc')
      from k acc acc' have "keeps a a'" using keeps_mint_pending by blast
      with k show "keeps c (fst acc')" using keeps_trans by (simp add: acc acc')
    qed simp
    then show ?thesis by simp
  qed simp
qed

lemma keeps_process: "process_proposal now tb ir c = Ok c' \<Longrightarrow> keeps c c'"
  by (auto simp: process_proposal_def rbind_Ok_iff intro!: keeps_step
      split: prod.splits proposal_phase.splits if_splits tally_outcome.splits)
    (metis tally_outcome.exhaust)

lemma keeps_governance: "process_governance_proposals c now = Ok c' \<Longrightarrow> keeps c c'"
  by (auto simp: process_governance_proposals_def Let_def dest: keeps_rfold keeps_process split: if_splits)

lemma keeps_rotation:
  assumes "epoch_rotation c hdr = Ok c'"
  shows "keeps c c'"
proof (cases "is_epoch_boundary (bh_height hdr)")
  case True
  then obtain c2 where c2: "epoch_boundary_mint (fst (recompute_validator_set c (bh_height hdr)))
      (sat_sub (epoch_for_height (bh_height hdr)) 1) (bh_height hdr) = (Ok c2 :: (commit_error, _) result)"
    and g: "process_governance_proposals c2 (bh_timestamp_ms hdr) = (Ok c' :: (commit_error, _) result)"
    using assms by (auto simp: epoch_rotation_def rbind_Ok_iff)
  show ?thesis
    by (rule keeps_trans[OF keeps_recompute keeps_trans[OF keeps_mint[OF c2] keeps_governance[OF g]]])
qed (use assms in \<open>simp add: epoch_rotation_def\<close>)

section \<open>What a commit leaves\<close>

lemma commit_block_cases:
  assumes "commit_block X s mp b = Ok (s', mp', rep)"
  obtains c1 n c2 c3 c4 d where
    "rfold (replay_tx X) (bl_txs b) (begin_block s, 0, 0) = Ok (c1, cr_gas_used rep, n)"
    "rfold (slash_dispute X) (bl_txs b) c1 = Ok c2" "epoch_rotation c2 (bl_header b) = Ok c3"
    "c4 = set_base_fee (rolled_base_fee (bl_header b) (cr_gas_used rep))
       (set_current_height (bh_height (bl_header b)) c3)"
    "fst (commit X c4) = bh_state_root (bl_header b)"
    "d = store_block X (bh_height (bl_header b)) b (view c4)"
    "s' = (snd (commit X c4))\<lparr>st_db := if bh_height (bl_header b) > BLOCK_RETENTION
       then snd (prune_blocks_before X (bh_height (bl_header b) - BLOCK_RETENTION) d) else d\<rparr>"
    "mp' = remove_many (map (stx_hash X) (bl_txs b)) mp"
    "cr_state_root rep = bh_state_root (bl_header b)" "cr_applied_count rep = n"
proof -
  obtain c1 g n where 1: "rfold (replay_tx X) (bl_txs b) (begin_block s, 0, 0) = Ok (c1, g, n)"
    using assms by (auto simp: commit_block_def Let_def rbind_Ok_iff)
  obtain c2 where 2: "rfold (slash_dispute X) (bl_txs b) c1 = Ok c2"
    using assms 1 by (auto simp: commit_block_def Let_def rbind_Ok_iff)
  obtain c3 where 3: "epoch_rotation c2 (bl_header b) = Ok c3"
    using assms 1 2 by (auto simp: commit_block_def Let_def rbind_Ok_iff)
  define c4 where "c4 = set_base_fee (rolled_base_fee (bl_header b) g)
       (set_current_height (bh_height (bl_header b)) c3)"
  note r = assms[unfolded commit_block_def Let_def 1 2 3 rbind.simps prod.case, folded c4_def]
  have root: "fst (preview_state_root X c4) = bh_state_root (bl_header b)"
    using r by (auto split: if_splits)
  obtain s1 where s1: "commit X c4 = (bh_state_root (bl_header b), s1)"
    using preview_eq_commit[of X c4] root by (cases "commit X c4") simp
  have "view c4 = st_db s1" using view_commit[of X c4] s1 by simp
  with r root s1 show thesis
    using that[OF _ 2 3] 1 c4_def by (auto split: if_splits)
qed

lemma keeps_commit:
  assumes "rfold (replay_tx X) txs (begin_block s, 0, 0) = Ok (c1, g, n)"
    and "rfold (slash_dispute X) txs c1 = Ok c2" "epoch_rotation c2 hdr = Ok c3"
  shows "keeps (begin_block s) c3"
proof -
  have "keeps (begin_block s) (fst (c1, g, n))"
  proof (rule rfold_invariant[where P = "\<lambda>acc. keeps (begin_block s) (fst acc)", OF _ _ assms(1)])
    fix x acc acc' assume k: "keeps (begin_block s) (fst acc)" "replay_tx X x acc = Ok acc'"
    obtain a g1 n1 where acc: "acc = (a, g1, n1)" by (cases acc)
    obtain a' g2 n2 where acc': "acc' = (a', g2, n2)" by (cases acc')
    from k acc acc' have "keeps a a'" using keeps_replay by blast
    with k show "keeps (begin_block s) (fst acc')" using keeps_trans by (simp add: acc acc')
  qed simp
  moreover have "keeps c1 c3"
    by (rule keeps_trans[OF keeps_rfold[OF assms(2) keeps_slash_dispute] keeps_rotation[OF assms(3)]])
  ultimately show ?thesis using keeps_trans by simp
qed

text \<open>Storing and pruning touch the blocks and their index only.\<close>

definition without_blocks :: "db \<Rightarrow> db" where
  "without_blocks d = d\<lparr>cf_blocks := kv_empty, cf_tx_index := kv_empty\<rparr>"

lemma without_blocks_upd [simp]:
  "without_blocks (d\<lparr>cf_blocks := x\<rparr>) = without_blocks d"
  "without_blocks (d\<lparr>cf_tx_index := y\<rparr>) = without_blocks d"
  by (simp_all add: without_blocks_def)

lemma without_blocks_fold:
  "(\<And>x d. without_blocks (f x d) = without_blocks d) \<Longrightarrow> without_blocks (fold f xs d) = without_blocks d"
  by (induction xs arbitrary: d) simp_all

lemma without_blocks_store [simp]: "without_blocks (store_block X h b d) = without_blocks d"
  unfolding store_block_def Let_def by (subst without_blocks_fold) simp_all

lemma without_blocks_prune [simp]: "without_blocks (snd (prune_blocks_before X k d)) = without_blocks d"
proof -
  have "without_blocks (prune_block X e d) = without_blocks d" for e d
    unfolding prune_block_def Let_def by (simp, subst without_blocks_fold) simp_all
  then show ?thesis unfolding prune_blocks_before_def Let_def by (simp add: without_blocks_fold)
qed

lemma without_blocks_eqD:
  assumes "without_blocks d = without_blocks d'"
  shows "cf_accounts d = cf_accounts d'" "cf_proposals d = cf_proposals d'" "cf_stakes d = cf_stakes d'"
    "meta_current_height d = meta_current_height d'" "meta_base_fee d = meta_base_fee d'"
proof -
  have "cf_accounts (without_blocks d) = cf_accounts (without_blocks d')"
    "cf_proposals (without_blocks d) = cf_proposals (without_blocks d')"
    "cf_stakes (without_blocks d) = cf_stakes (without_blocks d')"
    "meta_current_height (without_blocks d) = meta_current_height (without_blocks d')"
    "meta_base_fee (without_blocks d) = meta_base_fee (without_blocks d')" using assms by simp_all
  then show "cf_accounts d = cf_accounts d'" "cf_proposals d = cf_proposals d'" "cf_stakes d = cf_stakes d'"
    "meta_current_height d = meta_current_height d'" "meta_base_fee d = meta_base_fee d'"
    by (simp_all add: without_blocks_def)
qed

lemma blocks_store: "cf_blocks (store_block X h b d) = kv_put h b (cf_blocks d)"
proof -
  have "cf_blocks (fold (\<lambda>tx d. d\<lparr>cf_tx_index := kv_put (stx_hash X tx) h (cf_tx_index d)\<rparr>) txs d) = cf_blocks d"
    for txs and d :: db by (induction txs arbitrary: d) simp_all
  then show ?thesis by (simp add: store_block_def Let_def)
qed

lemma blocks_prune:
  assumes "k \<le> h"
  shows "kv_get (cf_blocks (snd (prune_blocks_before X k d))) h = kv_get (cf_blocks d) h"
proof -
  have one: "cf_blocks (prune_block X e d) = kv_del (fst e) (cf_blocks d)" for e d
  proof -
    have "cf_blocks (fold (\<lambda>tx d. d\<lparr>cf_tx_index := kv_del (stx_hash X tx) (cf_tx_index d)\<rparr>) txs d) = cf_blocks d"
      for txs and d :: db by (induction txs arbitrary: d) simp_all
    then show ?thesis by (simp add: prune_block_def Let_def)
  qed
  have "kv_get (cf_blocks (fold (prune_block X) es d)) h = kv_get (cf_blocks d) h"
    if "\<forall>e \<in> set es. fst e < k" for es d
    using that assms by (induction es arbitrary: d) (auto simp: one)
  moreover have "\<forall>e \<in> set (takeWhile (\<lambda>e. fst e < k) (kv_entries (cf_blocks d))). fst e < k"
    by (auto dest: set_takeWhileD)
  ultimately show ?thesis by (simp add: prune_blocks_before_def Let_def)
qed

lemma removed_many:
  "h \<in> set hs \<or> \<not> mp_contains h p \<Longrightarrow> \<not> mp_contains h (remove_many hs p)"
  unfolding remove_many_def
proof (induction hs arbitrary: p)
  case (Cons h' hs)
  have "mp_contains h (snd (remove_by_hash h' p)) \<longleftrightarrow> mp_contains h p \<and> h \<noteq> h'"
    by (cases "kv_get (mp_by_hash p) h'")
      (auto simp: mp_contains_def remove_by_hash_fields remove_by_hash_None)
  then show ?case using Cons by (cases "h = h'") auto
qed simp

lemma replay_count: "rfold (replay_tx X) txs (c, g, n) = Ok (c', g', n') \<Longrightarrow> n' \<le> n + length txs"
proof (induction txs arbitrary: c g n)
  case (Cons tx txs)
  obtain c1 g1 n1 where s: "replay_tx X tx (c, g, n) = Ok (c1, g1, n1)"
    and rest: "rfold (replay_tx X) txs (c1, g1, n1) = Ok (c', g', n')"
    using Cons.prems by (auto simp: rbind_Ok_iff)
  obtain c2 out where "apply_tx X c tx = Ok (c2, out)"
    using s by (auto simp: replay_tx_def rbind_Ok_iff)
  then have "n1 \<le> n + 1" using s by (cases out) (simp_all add: replay_tx_def)
  with Cons.IH[OF rest] show ?case by simp
qed simp

section \<open>Proposals\<close>

text \<open>The steps a proposal can take at a time.\<close>

inductive phase_moves :: "timestamp \<Rightarrow> proposal \<Rightarrow> proposal_phase \<Rightarrow> proposal_phase \<Rightarrow> bool" for now p where
  opens: "pr_discussion_ends p \<le> now \<Longrightarrow> phase_moves now p Discussion Voting"
| passes: "pr_voting_ends p \<le> now \<Longrightarrow> phase_moves now p Voting Passed"
| fails: "pr_voting_ends p \<le> now \<Longrightarrow> phase_moves now p Voting Rejected"
| vetoed: "pr_voting_ends p \<le> now \<Longrightarrow> phase_moves now p Voting RejectedWithVeto"

inductive_simps phase_moves_final [simp]:
  "phase_moves now p Passed ph" "phase_moves now p Rejected ph"
  "phase_moves now p RejectedWithVeto ph" "phase_moves now p Executed ph"

lemma proposals_return_deposit [simp]:
  "cf_proposals (view (return_deposit a x c)) = cf_proposals (view c)"
  "ctx_state (return_deposit a x c) = ctx_state c"
  by (simp_all add: return_deposit_def Let_def)

lemma process_proposal_cases:
  assumes "process_proposal now tb (i, r) c = (Ok c' :: ('e, block_ctx) result)"
  shows "cf_proposals (view c') = cf_proposals (view c) \<or>
    (\<exists>ph. phase_moves now (prr_proposal r) (prr_phase r) ph \<and>
      cf_proposals (view c') = kv_put i (r\<lparr>prr_phase := ph\<rparr>) (cf_proposals (view c)))"
proof (cases "prr_phase r")
  case Discussion
  then show ?thesis using assms by (auto simp: process_proposal_def intro: phase_moves.intros split: if_splits)
next
  case Voting
  show ?thesis
  proof (cases "now < pr_voting_ends (prr_proposal r)")
    case True
    then show ?thesis using assms Voting by (simp add: process_proposal_def)
  next
    case False
    then obtain o' where o': "tally_evaluate (weigh_votes c (iter_votes_for_proposal (ctx_state c) i)) tb =
        (Ok o' :: ('e, _) result)" using assms Voting by (auto simp: process_proposal_def rbind_Ok_iff)
    have put: "cf_proposals (view c') = kv_put i
        (r\<lparr>prr_phase := (case o' of TallyPassed \<Rightarrow> Passed | TallyRejected \<Rightarrow> Rejected
                        | TallyRejectedWithVeto \<Rightarrow> RejectedWithVeto)\<rparr>) (cf_proposals (view c))"
      using assms Voting False o' by (cases o') (auto simp: process_proposal_def)
    have "phase_moves now (prr_proposal r) (prr_phase r) (case o' of TallyPassed \<Rightarrow> Passed | TallyRejected \<Rightarrow> Rejected
                        | TallyRejectedWithVeto \<Rightarrow> RejectedWithVeto)"
      using False Voting by (cases o') (simp_all add: phase_moves.intros)
    with put show ?thesis by blast
  qed
qed (use assms in \<open>simp_all add: process_proposal_def\<close>)

lemma kv_entries_distinct: "distinct (map fst (kv_entries m))"
  by (rule kv.distinct_keys)

text \<open>The loop over proposals with distinct ids: each is left alone or moved one step.\<close>

lemma process_loop:
  "rfold (process_proposal now tb) irs c = (Ok c' :: ('e, block_ctx) result) \<Longrightarrow> distinct (map fst irs) \<Longrightarrow>
   \<forall>(i, r) \<in> set irs. kv_get (cf_proposals (view c)) i = Some r \<Longrightarrow>
   (\<forall>(i, r) \<in> set irs. \<exists>ph. kv_get (cf_proposals (view c')) i = Some (r\<lparr>prr_phase := ph\<rparr>) \<and>
      (ph = prr_phase r \<or> phase_moves now (prr_proposal r) (prr_phase r) ph)) \<and>
   (\<forall>i. i \<notin> fst ` set irs \<longrightarrow> kv_get (cf_proposals (view c')) i = kv_get (cf_proposals (view c)) i)"
proof (induction irs arbitrary: c)
  case (Cons ir irs)
  obtain i r where ir: "ir = (i, r)" by (cases ir)
  obtain c1 where s: "process_proposal now tb (i, r) c = (Ok c1 :: ('e, block_ctx) result)"
    and rest: "rfold (process_proposal now tb) irs c1 = (Ok c' :: ('e, block_ctx) result)"
    using Cons.prems(1) by (auto simp: ir rbind_Ok_iff)
  have own: "kv_get (cf_proposals (view c)) i = Some r" using Cons.prems(3) ir by simp
  have nin: "i \<notin> fst ` set irs" using Cons.prems(2) ir by simp
  obtain ph where ph: "kv_get (cf_proposals (view c1)) i = Some (r\<lparr>prr_phase := ph\<rparr>)"
      "ph = prr_phase r \<or> phase_moves now (prr_proposal r) (prr_phase r) ph"
    and others: "\<And>j. j \<noteq> i \<Longrightarrow> kv_get (cf_proposals (view c1)) j = kv_get (cf_proposals (view c)) j"
    using process_proposal_cases[OF s]
  proof (elim disjE exE conjE)
    assume "cf_proposals (view c1) = cf_proposals (view c)"
    then show thesis using that[of "prr_phase r"] own by simp
  next
    fix ph assume "phase_moves now (prr_proposal r) (prr_phase r) ph"
      "cf_proposals (view c1) = kv_put i (r\<lparr>prr_phase := ph\<rparr>) (cf_proposals (view c))"
    then show thesis using that[of ph] by simp
  qed
  have "\<forall>(j, q) \<in> set irs. kv_get (cf_proposals (view c1)) j = Some q"
  proof (intro ballI, clarify)
    fix j q assume m: "(j, q) \<in> set irs"
    then have "j \<noteq> i" using nin by (metis fst_conv image_eqI)
    then show "kv_get (cf_proposals (view c1)) j = Some q" using others Cons.prems(3) m by auto
  qed
  moreover have "distinct (map fst irs)" using Cons.prems(2) by simp
  ultimately have ih: "(\<forall>(i, r) \<in> set irs. \<exists>ph. kv_get (cf_proposals (view c')) i = Some (r\<lparr>prr_phase := ph\<rparr>) \<and>
      (ph = prr_phase r \<or> phase_moves now (prr_proposal r) (prr_phase r) ph))"
    "\<And>j. j \<notin> fst ` set irs \<Longrightarrow> kv_get (cf_proposals (view c')) j = kv_get (cf_proposals (view c1)) j"
    using Cons.IH[OF rest] by blast+
  show ?case using ih(1) ih(2)[OF nin] ih(2) ph others by (auto simp: ir)
qed simp

lemma governance_step:
  assumes "process_governance_proposals c now = (Ok c' :: ('e, block_ctx) result)"
    and "\<And>i r. kv_get (cf_proposals (st_db (ctx_state c))) i = Some r \<Longrightarrow> kv_get (cf_proposals (view c)) i = Some r"
  shows "(\<forall>i r. kv_get (cf_proposals (st_db (ctx_state c))) i = Some r \<longrightarrow>
      (\<exists>ph. kv_get (cf_proposals (view c')) i = Some (r\<lparr>prr_phase := ph\<rparr>) \<and>
        (ph = prr_phase r \<or> phase_moves now (prr_proposal r) (prr_phase r) ph))) \<and>
    (\<forall>i. kv_get (cf_proposals (st_db (ctx_state c))) i = None \<longrightarrow>
      kv_get (cf_proposals (view c')) i = kv_get (cf_proposals (view c)) i)"
proof -
  let ?irs = "kv_entries (cf_proposals (st_db (ctx_state c)))"
  have run: "rfold (process_proposal now (total_bonded_stake (ctx_state c))) ?irs c = (Ok c' :: ('e, _) result)"
    using assms(1) by (auto simp: process_governance_proposals_def iter_proposals_def Let_def split: if_splits)
  have mem: "(i, r) \<in> set ?irs \<longleftrightarrow> kv_get (cf_proposals (st_db (ctx_state c))) i = Some r" for i r
    by (rule kv.mem_entries)
  have out: "kv_get (cf_proposals (st_db (ctx_state c))) i = None \<Longrightarrow> i \<notin> fst ` set ?irs" for i
    using mem by force
  have "\<forall>(i, r) \<in> set ?irs. kv_get (cf_proposals (view c)) i = Some r" using mem assms(2) by blast
  note p = process_loop[OF run kv_entries_distinct this]
  show ?thesis using p out mem by blast
qed

section \<open>The committed state\<close>

lemma commit_block_state:
  assumes "commit_block X s mp b = Ok (s', mp', rep)" and "state_ok s"
  shows "state_root X s' = bh_state_root (bl_header b) \<and> cr_state_root rep = bh_state_root (bl_header b) \<and>
    state_ok s' \<and> st_current_height s' = Some (bh_height (bl_header b)) \<and>
    st_base_fee s' = rolled_base_fee (bl_header b) (cr_gas_used rep) \<and>
    st_get_block s' (bh_height (bl_header b)) = Some b \<and> cr_applied_count rep \<le> length (bl_txs b) \<and>
    (\<forall>tx \<in> set (bl_txs b). \<not> mp_contains (stx_hash X tx) mp')"
  using assms(1)
proof (cases rule: commit_block_cases)
  case (1 c1 n c2 c3 c4 d)
  let ?s1 = "snd (commit X c4)"
  have "keeps (begin_block s) c4" unfolding 1(4) by (intro keeps_step keeps_commit[OF 1(1-3)])
  then have "coherent c4" using coherent_begin_block[OF assms(2)] by (simp add: keeps_def)
  then have ok: "state_ok ?s1" by (rule state_ok_commit)
  have db: "without_blocks (st_db s') = without_blocks (st_db ?s1)"
    unfolding 1(7) by (simp add: 1(6) view_commit)
  have smt: "st_smt s' = st_smt ?s1" by (simp add: 1(7))
  have "state_ok s'" using ok without_blocks_eqD(1)[OF db] by (simp add: state_ok_def smt)
  moreover have "state_root X s' = bh_state_root (bl_header b)"
    using 1(5) by (simp add: state_root_def smt commit_def Let_def)
  moreover have "st_current_height s' = Some (bh_height (bl_header b))"
    using without_blocks_eqD(4)[OF db] by (simp add: st_current_height_def view_commit 1(4))
  moreover have "st_base_fee s' = rolled_base_fee (bl_header b) (cr_gas_used rep)"
    using without_blocks_eqD(5)[OF db] by (simp add: st_base_fee_def view_commit 1(4))
  moreover have "st_get_block s' (bh_height (bl_header b)) = Some b"
    unfolding st_get_block_def 1(7) by (simp add: blocks_prune 1(6) blocks_store)
  moreover have "\<forall>tx \<in> set (bl_txs b). \<not> mp_contains (stx_hash X tx) mp'"
    unfolding 1(8) by (intro ballI removed_many disjI1) simp
  ultimately show ?thesis using replay_count[OF 1(1)] 1(9,10) by simp
qed

section \<open>Sample block\<close>

definition demo_header :: "hash256 \<Rightarrow> block_header" where
  "demo_header root = \<lparr>bh_version = 1, bh_chain_id = [], bh_height = 5, bh_timestamp_ms = 0,
     bh_parent_hash = 0, bh_state_root = root, bh_tx_root = 0, bh_receipt_root = 0, bh_proposer = 0,
     bh_validator_set_hash = 0, bh_base_fee = 1, bh_genesis_message = []\<rparr>"

definition demo_block :: "hash256 \<Rightarrow> block" where
  "demo_block root = \<lparr>bl_header = demo_header root, bl_txs = [], bl_receipts = []\<rparr>"

lemma demo_header_fields [simp]:
  "bh_height (demo_header r) = 5" "bh_base_fee (demo_header r) = 1" "bh_state_root (demo_header r) = r"
  by (simp_all add: demo_header_def)

lemma demo_commit:
  "\<exists>root r. commit_block demo_ext s mp (demo_block root) = Ok r"
proof -
  let ?s = s
  let ?c4 = "set_base_fee (rolled_base_fee (demo_header 0) 0) (set_current_height 5 (begin_block ?s))"
  let ?root = "fst (preview_state_root demo_ext ?c4)"
  have "rolled_base_fee (demo_header ?root) 0 = rolled_base_fee (demo_header 0) 0"
    unfolding rolled_base_fee_def demo_header_fields by (rule refl)
  moreover have "\<not> is_epoch_boundary 5" by (simp add: is_epoch_boundary_def EPOCH_LENGTH_BLOCKS_def)
  ultimately have "\<exists>r. commit_block demo_ext ?s mp (demo_block ?root) = Ok r"
    by (simp add: commit_block_def demo_block_def epoch_rotation_def Let_def case_prod_unfold)
  then show ?thesis by blast
qed

definition demo_record :: proposal_record where
  "demo_record = \<lparr>prr_proposal = \<lparr>pr_proposal_id = 1, pr_proposer = 7, pr_deposit = 0, pr_title = [],
     pr_body = [], pr_discussion_ends = 8, pr_voting_ends = 20, pr_activation = None\<rparr>,
     prr_phase = Discussion, prr_submitted_at = 1\<rparr>"

definition demo_gov_ctx :: block_ctx where
  "demo_gov_ctx = begin_block (state_open (empty_db\<lparr>cf_proposals := kv_put 1 demo_record kv_empty\<rparr>))"

section \<open>Properties\<close>



text \<open>Two jobs with the multiplier of a trusted environment: each is due three quarters of the budget, so
  that the second is cut.\<close>

definition demo_reward :: "job_id \<Rightarrow> nat \<Rightarrow> pending_reward" where
  "demo_reward j tee = \<lparr>pw_job_id = j, pw_output_tokens = 1, pw_user_payment = 0, pw_epoch = 0, pw_compute_addr = 11,
     pw_verifier_addr = 12, pw_router_addr = 13, pw_treasury_addr = 14, pw_tee_multiplier_bps = tee,
     pw_https_multiplier_bps = 10000\<rparr>"

definition reward_ctx :: block_ctx where
  "reward_ctx = begin_block (state_open (empty_db\<lparr>cf_pending_rewards :=
     kv_put 1 (demo_reward 1 15000) (kv_put 2 (demo_reward 2 15000) kv_empty)\<rparr>))"

lemma reward_pending: "iter_pending_rewards_for_epoch (ctx_state reward_ctx) 0 = [demo_reward 1 15000, demo_reward 2 15000]"
  by (simp add: iter_pending_rewards_for_epoch_def reward_ctx_def begin_block_def state_open_def demo_reward_def)

lemma reward_budget: "epoch_budget (year_for_height 3600) = (Ok 13698630136986 :: ('e, amount) result)"
  by (simp add: epoch_budget_def annual_emission_def annual_emission_ark_def year_for_height_def
        ANNUAL_EMISSION_ARK_def SECS_PER_BLOCK_def sat_mul_exact ATOMS_PER_ARK_def EPOCHS_PER_YEAR_def
        EPOCH_LENGTH_def)

lemma reward_due: "pending_block_reward 6849315068493 (demo_reward j 15000) = (Ok 10273972602739 :: ('e, amount) result)"
  by (simp add: pending_block_reward_def compute_block_reward_def demo_reward_def sat_mul_exact reward_size_mult_def
      latency_mult_def uptime_mult_def umul_def Let_def)

lemma mint_without_validators:
  assumes "iter_validators (ctx_state c) = []" and "pending_block_reward rate p = (Ok r :: ('e, amount) result)"
    and "min r (min (remaining em) (sat_sub TOTAL_SUPPLY_CAP (em_total_minted em))) * 80 < 2 ^ 128"
  shows "\<exists>c'. mint_pending rate p (c, em, tm) = (Ok (c', snd (try_mint r em), if fst (try_mint r em) = 0 then tm
      else sat_add 128 tm (fst (try_mint r em))) :: ('e, mint_acc) result) \<and> ctx_state c' = ctx_state c"
proof -
  have st: "ctx_state (fold credit_line ls c) = ctx_state c" for ls by (induction ls arbitrary: c) simp_all
  obtain m em' where t: "try_mint r em = (m, em')" by (cases "try_mint r em")
  have "m * 80 < 2 ^ 128" using t assms(3) by (auto simp: try_mint_def Let_def min.assoc)
  then obtain d where d: "distribute_reward m = (Ok d :: ('e, _) result)" by (simp add: distribute_reward_eq)
  show ?thesis
    using assms(1) st[of "[(pw_compute_addr p, rd_compute d), (pw_verifier_addr p, rd_verifier d), (pw_treasury_addr p, rd_treasury d)]"]
    by (simp add: mint_pending_def assms(2) t d distribute_to_delegators_def Let_def del: fold_simps)
qed

lemma reward_mint: "\<exists>c'. epoch_boundary_mint reward_ctx 0 3600 = (Ok c' :: ('e, block_ctx) result)"
proof -
  let ?em = "\<lparr>em_epoch = 1, em_budget = 13698630136986, em_minted = 0, em_total_minted = 0\<rparr>"
  have v: "iter_validators (ctx_state reward_ctx) = []"
    by (simp add: iter_validators_def reward_ctx_def begin_block_def state_open_def empty_db_def)
  obtain c1 where c1: "mint_pending 6849315068493 (demo_reward 1 15000) (reward_ctx, ?em, 0) =
      (Ok (c1, ?em\<lparr>em_minted := 10273972602739, em_total_minted := 10273972602739\<rparr>, 10273972602739) :: ('e, mint_acc) result)"
    "ctx_state c1 = ctx_state reward_ctx"
    using mint_without_validators[OF v reward_due, of ?em 1 0]
    by (auto simp: try_mint_def remaining_def sat_sub_def sat_add_exact TOTAL_SUPPLY_CAP_def ATOMS_PER_ARK_def Let_def)
  obtain c2 x where c2: "mint_pending 6849315068493 (demo_reward 2 15000)
      (c1, ?em\<lparr>em_minted := 10273972602739, em_total_minted := 10273972602739\<rparr>, 10273972602739) =
      (Ok (c2, x) :: ('e, mint_acc) result)"
    using mint_without_validators[OF v[folded c1(2)] reward_due,
        of "?em\<lparr>em_minted := 10273972602739, em_total_minted := 10273972602739\<rparr>" 2 10273972602739]
    by (auto simp: try_mint_def remaining_def sat_sub_def sat_add_exact TOTAL_SUPPLY_CAP_def ATOMS_PER_ARK_def Let_def)
  have t: "sum_amounts 64 (map pw_output_tokens [demo_reward 1 15000, demo_reward 2 15000]) = (Ok 2 :: ('e, nat) result)"
    by (simp add: sum_amounts_def uadd_def demo_reward_def)
  show ?thesis
    using c1(1) c2 by (simp add: epoch_boundary_mint_def reward_pending t[unfolded list.map] reward_budget epoch_for_height_def EPOCH_LENGTH_def
        per_token_rate_def remaining_def sat_sub_def Let_def del: One_nat_def)
qed

text \<open>C31: In a coherent block context, when the mint at an epoch boundary succeeds, and the balances with the whole budget fit 128 bits,
  the pending entries of the ended epoch are served in order: each is due the reward that its tokens earn
  at the rate of the epoch (the budget over all their tokens), cut to what is left of the budget; the
  accounts together grow by exactly what is minted less three percent of each reward, rounded down, which
  is burned; what is minted stays within the budget; the entries that were paid are deleted and those that
  got nothing stay; and no other part of the database is touched.\<close>

theorem epoch_mint_within_budget:
  assumes "coherent c" and "epoch_budget (year_for_height h) = (Ok budget :: (commit_error, amount) result)"
    and "total_balance (cf_accounts (view c)) + budget < 2 ^ 128"
    and "epoch_boundary_mint c ending_epoch h = (Ok c' :: (commit_error, block_ctx) result)"
    and "pending = iter_pending_rewards_for_epoch (ctx_state c) ending_epoch"
  shows "\<exists>rewards minted accts.
    list_all2 (\<lambda>p r. pending_block_reward (epoch_rate budget pending) p = (Ok r :: (commit_error, amount) result))
      pending rewards \<and>
    minted = spend budget rewards \<and> sum_list minted \<le> budget \<and>
    total_balance (cf_accounts (view c')) =
      total_balance (cf_accounts (view c)) + (\<Sum>m\<leftarrow>minted. m - m * 3 div 100) \<and>
    view c' = (view c)\<lparr>cf_accounts := accts,
      cf_pending_rewards := fold kv_del (paid_jobs pending minted) (cf_pending_rewards (view c))\<rparr>"
proof -
  obtain rs where rs: "list_all2 (\<lambda>p r. pending_block_reward (epoch_rate budget pending) p =
      (Ok r :: (commit_error, amount) result)) pending rs"
    "credits (\<Sum>m\<leftarrow>spend budget rs. m - m * 3 div 100) c c'" "pays_out (paid_jobs pending (spend budget rs)) c c'"
    using epoch_mint_effect[OF assms] by blast
  with spend_le[of budget rs] show ?thesis unfolding pays_out_def by (blast intro: credits_total)
qed

theorem epoch_mint_within_budget_witness:
  "\<exists>c'. epoch_boundary_mint reward_ctx 0 3600 = (Ok c' :: (commit_error, block_ctx) result) \<and>
     total_balance (cf_accounts (view c')) = 9965753424657 + 3321917808220 \<and>
     kv_get (cf_pending_rewards (view c')) 1 = None \<and> kv_get (cf_pending_rewards (view c')) 2 = None"
proof -
  obtain c' where c': "epoch_boundary_mint reward_ctx 0 3600 = (Ok c' :: (commit_error, block_ctx) result)"
    using reward_mint by blast
  have coh: "coherent reward_ctx" by (simp add: reward_ctx_def coherent_begin_block state_ok_open)
  have t: "total_balance (cf_accounts (view reward_ctx)) = 0"
    by (simp add: reward_ctx_def state_open_def empty_db_def total_balance_def)
  have rate: "epoch_rate 13698630136986 [demo_reward 1 15000, demo_reward 2 15000] = 6849315068493"
    by (simp add: epoch_rate_def demo_reward_def Let_def numeral_2_eq_2[symmetric])
  obtain rs ms accts where m: "list_all2 (\<lambda>p r. pending_block_reward 6849315068493 p = (Ok r :: (commit_error, amount) result))
        [demo_reward 1 15000, demo_reward 2 15000] rs" "ms = spend 13698630136986 rs"
    "total_balance (cf_accounts (view c')) = (\<Sum>m\<leftarrow>ms. m - m * 3 div 100)"
    "view c' = (view reward_ctx)\<lparr>cf_accounts := accts,
      cf_pending_rewards := fold kv_del (paid_jobs [demo_reward 1 15000, demo_reward 2 15000] ms) (cf_pending_rewards (view reward_ctx))\<rparr>"
    using epoch_mint_within_budget[OF coh reward_budget _ c' reward_pending[symmetric]] unfolding t rate by auto
  have "rs = [10273972602739, 10273972602739]" using m(1) by (auto simp: list_all2_Cons1 reward_due)
  then have ms: "ms = [10273972602739, 3424657534247]" using m(2) by simp
  have "paid_jobs [demo_reward 1 15000, demo_reward 2 15000] ms = [1, 2]" by (simp add: ms paid_jobs_def demo_reward_def)
  then show ?thesis using c' m(3,4) by (simp add: ms)
qed

text \<open>The delegators' share of a reward is paid out exactly, whatever the rounding of the
  individual shares.\<close>

theorem delegators_paid_exactly:
  assumes "coherent c" and "total_balance (cf_accounts (view c)) + share < 2 ^ 128"
    and "distribute_to_delegators c compute_addr share = (Ok c' :: (commit_error, block_ctx) result)"
  shows "total_balance (cf_accounts (view c')) = total_balance (cf_accounts (view c)) + share"
  using distribute_exact[OF assms] by (rule credits_total)

theorem delegators_paid_exactly_witness:
  "\<exists>c'. distribute_to_delegators (demo_ctx [(7, demo_acct 50)]) 7 30 = (Ok c' :: (commit_error, block_ctx) result) \<and>
     total_balance (cf_accounts (view c')) = 80"
proof -
  let ?c = "demo_ctx [(7, demo_acct 50)]"
  have d: "distribute_to_delegators ?c 7 30 = (Ok (credit_address 7 30 ?c) :: (commit_error, block_ctx) result)"
    by (simp add: distribute_to_delegators_def iter_validators_def demo_ctx_def demo_db_def empty_db_def)
  have t: "total_balance (cf_accounts (view ?c)) = 50"
    using kv_sum_put[of "\<lambda>_. balance" "7 :: address" "demo_acct 50" kv_empty]
    by (simp add: demo_ctx_def demo_db_def empty_db_def total_balance_def)
  from delegators_paid_exactly[OF coherent_demo _ d] t d show ?thesis by simp
qed

text \<open>At an epoch boundary every stored proposal keeps its content and takes at most one step of its
  life cycle, only after the deadline of that step: discussion opens into voting, voting ends passed,
  rejected or vetoed, and a resolved proposal never changes again.\<close>

theorem proposals_step_forward:
  assumes "process_governance_proposals c now = (Ok c' :: (commit_error, block_ctx) result)"
    and "\<And>i r. kv_get (cf_proposals (st_db (ctx_state c))) i = Some r \<Longrightarrow>
           kv_get (cf_proposals (view c)) i = Some r"
  shows "(\<forall>i r. kv_get (cf_proposals (st_db (ctx_state c))) i = Some r \<longrightarrow>
      (\<exists>ph. kv_get (cf_proposals (view c')) i = Some (r\<lparr>prr_phase := ph\<rparr>) \<and>
        (ph = prr_phase r \<or> phase_moves now (prr_proposal r) (prr_phase r) ph) \<and>
        (prr_phase r \<notin> {Discussion, Voting} \<longrightarrow> ph = prr_phase r))) \<and>
    (\<forall>i. kv_get (cf_proposals (st_db (ctx_state c))) i = None \<longrightarrow>
      kv_get (cf_proposals (view c')) i = kv_get (cf_proposals (view c)) i)"
proof -
  have final: "ph = prr_phase r" if "prr_phase r \<notin> {Discussion, Voting}" "phase_moves now q (prr_phase r) ph"
    for ph q and r :: proposal_record using that by (cases "prr_phase r") auto
  show ?thesis using governance_step[OF assms] final by blast
qed

theorem proposals_step_forward_witness:
  "\<exists>c'. process_governance_proposals demo_gov_ctx 9 = (Ok c' :: (commit_error, block_ctx) result) \<and>
     (\<exists>ph. kv_get (cf_proposals (view c')) 1 = Some (demo_record\<lparr>prr_phase := ph\<rparr>))"
proof -
  have p: "process_governance_proposals demo_gov_ctx 9 =
      (Ok (set_proposal 1 (demo_record\<lparr>prr_phase := Voting\<rparr>) demo_gov_ctx) :: (commit_error, block_ctx) result)"
    by (simp add: process_governance_proposals_def iter_proposals_def demo_gov_ctx_def process_proposal_def)
      (simp add: demo_record_def)
  have "kv_get (cf_proposals (st_db (ctx_state demo_gov_ctx))) 1 = Some demo_record"
    "kv_get (cf_proposals (st_db (ctx_state demo_gov_ctx))) i = Some r \<Longrightarrow>
     kv_get (cf_proposals (view demo_gov_ctx)) i = Some r" for i r
    by (simp_all add: demo_gov_ctx_def)
  with proposals_step_forward[OF p] show ?thesis using p by blast
qed

end
