(* ===== verification/BlockBuilder.thy ===== *)
theory BlockBuilder
  imports CommitBlock
begin

text \<open>
  The proposer's side (\<^verbatim>\<open>crates/consensus/src/block_builder.rs\<close>): transactions are drained from the
  mempool and applied to a context that is thrown away, expired escrows are refunded, and the header
  carries the previewed state root. The lemmas relate a built block to the commit that replays it: it
  commits to the same root as long as nothing but its transactions touched the accounts, and a refund
  that moves value makes every replica reject the block.
\<close>

section \<open>Building\<close>

definition DEFAULT_BLOCK_GAS_LIMIT :: gas where "DEFAULT_BLOCK_GAS_LIMIT = 30000000"

definition DEFAULT_BLOCK_BYTES_BUDGET :: nat where "DEFAULT_BLOCK_BYTES_BUDGET = 8 * 1024 * 1024"

record built_block =
  bb_block :: block
  bb_drained :: "signed_transaction list"

record build_params =
  bp_chain_id :: string
  bp_version :: nat
  bp_parent_hash :: hash256
  bp_validator_set_hash :: hash256
  bp_proposer :: node_id
  bp_base_fee :: amount
  bp_gas_limit :: gas
  bp_bytes_budget :: nat
  bp_genesis_message :: string

type_synonym build_acc = "block_ctx \<times> signed_transaction list \<times> hash256 list \<times> gas"

definition build_step :: "ext \<Rightarrow> signed_transaction \<Rightarrow> build_acc \<Rightarrow> (chain_error, build_acc) result" where
  "build_step X tx acc =
     (case acc of (c, included, hashes, gas_used) \<Rightarrow>
       rbind (apply_tx X c tx) (\<lambda>(c', out).
       case out of
         TxApplied g \<Rightarrow> Ok (c', included @ [tx], hashes @ [stx_hash X tx], sat_add 64 gas_used g)
       | TxRejected _ \<Rightarrow> Ok (c', included, hashes, gas_used)))"

definition refund_escrow_entry :: "height \<Rightarrow> job_id \<times> escrow_entry \<Rightarrow> block_ctx \<Rightarrow> block_ctx" where
  "refund_escrow_entry h je c =
     (case je of (j, e) \<Rightarrow>
       if es_state e \<noteq> Locked then c
       else if sat_add 64 (es_created_at e) ESCROW_TIMEOUT_BLOCKS > h then c
       else let acct = account_or_default c (es_user e);
                c1 = set_account (es_user e) (acct\<lparr>balance := sat_add 128 (balance acct) (es_amount e)\<rparr>) c
            in delete_escrow j c1)"

definition refund_expired_escrows :: "height \<Rightarrow> block_ctx \<Rightarrow> block_ctx" where
  "refund_expired_escrows h c = fold (refund_escrow_entry h) (iter_escrows (ctx_state c)) c"

definition build_block ::
    "ext \<Rightarrow> state \<Rightarrow> mempool \<Rightarrow> height \<Rightarrow> build_params \<Rightarrow> timestamp \<Rightarrow>
     (chain_error, built_block \<times> mempool) result" where
  "build_block X s mp h params now_ms =
     (let (taken, _, _, mp') = drain_for_block (bp_gas_limit params) (bp_bytes_budget params) mp
      in rbind (rfold (build_step X) taken (begin_block s, [], [], 0)) (\<lambda>(c, included, hashes, gas_used).
         let c' = refund_expired_escrows h c;
             state_root = fst (preview_state_root X c');
             header = \<lparr>bh_version = bp_version params, bh_chain_id = bp_chain_id params, bh_height = h,
               bh_timestamp_ms = now_ms, bh_parent_hash = bp_parent_hash params,
               bh_state_root = state_root, bh_tx_root = tx_root X hashes,
               bh_receipt_root = receipt_root X [], bh_proposer = bp_proposer params,
               bh_validator_set_hash = bp_validator_set_hash params, bh_base_fee = bp_base_fee params,
               bh_genesis_message = bp_genesis_message params\<rparr>
         in Ok (\<lparr>bb_block = \<lparr>bl_header = header, bl_txs = included, bl_receipts = []\<rparr>,
                  bb_drained = taken\<rparr>, mp')))"

section \<open>Replay of a built block\<close>

definition poolable :: "signed_transaction \<Rightarrow> bool" where
  "poolable tx \<longleftrightarrow> (\<exists>y. extract_sender_nonce_fee (stx_tx tx) = Ok y)"

lemma poolable_not:
  "poolable tx \<Longrightarrow> (\<nexists>b. stx_tx tx = ReceiptBatchTx b) \<and> (\<nexists>d. stx_tx tx = DisputeTx d)"
  by (auto simp: poolable_def)

lemma build_step_cases:
  assumes "build_step X tx (c, inc, hs, g) = Ok acc" "poolable tx"
  obtains (kept) c' u where "apply_tx X c tx = Ok (c', TxApplied u)"
      "acc = (c', inc @ [tx], hs @ [stx_hash X tx], sat_add 64 g u)"
  | (dropped) "acc = (c, inc, hs, g)"
proof -
  obtain c' out where a: "apply_tx X c tx = Ok (c', out)" using assms(1) by (auto simp: build_step_def rbind_Ok_iff)
  show thesis
  proof (cases out)
    case (TxApplied u)
    then show thesis using assms(1) a kept by (simp add: build_step_def)
  next
    case (TxRejected w)
    then have "c' = c" using apply_tx_rejected[of X c tx c' w] a poolable_not[OF assms(2)] by simp
    then show thesis using assms(1) a TxRejected dropped by (simp add: build_step_def)
  qed
qed

text \<open>The transactions the builder kept, replayed from the same state, end in the same context, and
  every one of them is applied.\<close>

lemma replay_append:
  "rfold (replay_tx X) xs a = Ok b \<Longrightarrow> replay_tx X x b = Ok b' \<Longrightarrow> rfold (replay_tx X) (xs @ [x]) a = Ok b'"
  by (simp add: rfold_append)

lemma build_replay:
  "rfold (build_step X) txs (c, inc, hs, g) = Ok (c', inc', hs', g') \<Longrightarrow> \<forall>tx \<in> set txs. poolable tx \<Longrightarrow>
   rfold (replay_tx X) inc a = Ok (c, g, length inc) \<Longrightarrow>
   rfold (replay_tx X) inc' a = Ok (c', g', length inc') \<and> set inc' \<subseteq> set inc \<union> set txs"
proof (induction txs arbitrary: c inc hs g)
  case (Cons tx txs)
  obtain acc where s: "build_step X tx (c, inc, hs, g) = Ok acc"
    and rest: "rfold (build_step X) txs acc = Ok (c', inc', hs', g')"
    using Cons.prems(1) by (auto simp: rbind_Ok_iff)
  have p: "poolable tx" "\<forall>tx \<in> set txs. poolable tx" using Cons.prems(2) by simp_all
  show ?case
    using s p(1)
  proof (cases rule: build_step_cases)
    case (kept c1 u)
    have "replay_tx X tx (c, g, length inc) = Ok (c1, sat_add 64 g u, length (inc @ [tx]))"
      by (simp add: replay_tx_def kept(1))
    from Cons.IH[OF rest[unfolded kept(2)] p(2) replay_append[OF Cons.prems(3) this]]
    show ?thesis by auto
  next
    case dropped
    from Cons.IH[OF rest[unfolded dropped] p(2) Cons.prems(3)] show ?thesis by auto
  qed
qed simp

lemma no_slash: "\<forall>tx \<in> set txs. poolable tx \<Longrightarrow> rfold (slash_dispute X) txs c = Ok c"
proof (induction txs)
  case (Cons tx txs)
  have "slash_dispute X tx c = Ok c"
    using poolable_not[of tx] Cons.prems by (simp add: slash_dispute_def split: transaction.splits)
  then show ?case using Cons by simp
qed simp

lemma drained_poolable:
  assumes "mempool_ok X mp" "drain_for_block g b mp = (taken, gu, bu, mp')"
  shows "\<forall>tx \<in> set taken. poolable tx"
proof -
  have ag: "indices_agree X mp" using assms(1) by (simp add: mempool_ok_def)
  have "\<forall>tx \<in> set (fst (fold (drain_step g b) L (picked, gu, bu, p))). poolable tx"
    if "indices_agree X p" "\<forall>tx \<in> set picked. poolable tx" for L picked gu bu p
    using that
  proof (induction L arbitrary: picked gu bu p)
    case (Cons x L)
    obtain h fee sz where x: "x = (h, fee, sz)" by (cases x)
    obtain picked' gu' bu' p' where s: "drain_step g b x (picked, gu, bu, p) = (picked', gu', bu', p')"
      by (cases "drain_step g b x (picked, gu, bu, p)")
    have "(p' = p \<and> picked' = picked) \<or> (\<exists>e. kv_get (mp_by_hash p) h = Some e \<and>
        p' = snd (remove_by_hash h p) \<and> picked' = picked @ [me_tx e])"
      using s by (cases "kv_get (mp_by_hash p) h")
        (auto simp: x remove_by_hash_def split: if_splits)
    then have "indices_agree X p' \<and> (\<forall>tx \<in> set picked'. poolable tx)"
    proof (elim disjE exE conjE)
      fix e assume e: "kv_get (mp_by_hash p) h = Some e" "p' = snd (remove_by_hash h p)" "picked' = picked @ [me_tx e]"
      have "poolable (me_tx e)"
        using indices_agreeD(2)[OF Cons.prems(1) e(1)] by (auto simp: entry_ok_def poolable_def)
      then show ?thesis using remove_agrees[OF Cons.prems(1)] Cons.prems(2) e(2,3) by simp
    qed (use Cons.prems in simp)
    then show ?case using Cons.IH[of p' picked' gu' bu'] by (simp add: s)
  qed simp
  from this[OF ag, of "[]" "drain_order mp" 0 0] assms(2) show ?thesis
    by (simp add: drain_for_block_def)
qed

text \<open>What a build went through.\<close>

lemma build_block_cases:
  assumes "build_block X s mp h params now = Ok (built, mp1)" "mempool_ok X mp"
  obtains c g where
    "rfold (replay_tx X) (bl_txs (bb_block built)) (begin_block s, 0, 0) =
       Ok (c, g, length (bl_txs (bb_block built)))"
    "\<forall>tx \<in> set (bl_txs (bb_block built)). poolable tx"
    "bh_height (bl_header (bb_block built)) = h"
    "bh_state_root (bl_header (bb_block built)) = fst (preview_state_root X (refund_expired_escrows h c))"
    "keeps (begin_block s) c"
proof -
  obtain taken gu bu mp' where d: "drain_for_block (bp_gas_limit params) (bp_bytes_budget params) mp =
      (taken, gu, bu, mp')" by (metis prod_cases4)
  obtain c inc hs g where b: "rfold (build_step X) taken (begin_block s, [], [], 0) = Ok (c, inc, hs, g)"
    using assms(1) d by (auto simp: build_block_def rbind_Ok_iff)
  note p = drained_poolable[OF assms(2) d]
  have r: "rfold (replay_tx X) inc (begin_block s, 0, 0) = Ok (c, g, length inc) \<and> set inc \<subseteq> set taken"
    using build_replay[OF b p, of "(begin_block s, 0, 0)"] by simp
  have "keeps (begin_block s) c"
    using keeps_commit[of X inc s c g "length inc" c "\<lparr>bh_version = 0, bh_chain_id = [], bh_height = 0,
      bh_timestamp_ms = 0, bh_parent_hash = 0, bh_state_root = 0, bh_tx_root = 0, bh_receipt_root = 0,
      bh_proposer = 0, bh_validator_set_hash = 0, bh_base_fee = 0, bh_genesis_message = []\<rparr>" c]
      r p no_slash[of inc X c] by (auto simp: epoch_rotation_def is_epoch_boundary_def)
  moreover have "\<forall>tx \<in> set inc. poolable tx" using r p by blast
  ultimately show thesis
    using that[of c g] r assms(1) d b by (auto simp: build_block_def Let_def)
qed

lemma preview_header_writes [simp]:
  "fst (preview_state_root X (set_base_fee f c)) = fst (preview_state_root X c)"
  "fst (preview_state_root X (set_current_height h c)) = fst (preview_state_root X c)"
  by (simp_all add: preview_state_root_def setter_defs Let_def)

text \<open>The replay of a built block away from an epoch boundary: the header's root is compared with the
  root of the context without the refunds.\<close>

lemma commit_built:
  assumes "rfold (replay_tx X) (bl_txs b) (begin_block s, 0, 0) = Ok (c, g, n)"
    and "\<forall>tx \<in> set (bl_txs b). poolable tx" and "\<not> is_epoch_boundary (bh_height (bl_header b))"
  shows "(fst (preview_state_root X c) = bh_state_root (bl_header b) \<longrightarrow>
      (\<exists>s' mp' rep. commit_block X s mp b = Ok (s', mp', rep) \<and> cr_applied_count rep = n)) \<and>
    (fst (preview_state_root X c) \<noteq> bh_state_root (bl_header b) \<longrightarrow>
      commit_block X s mp b = Err (StateRootMismatch (bh_state_root (bl_header b)) (fst (preview_state_root X c))))"
  using assms by (auto simp: commit_block_def Let_def no_slash epoch_rotation_def case_prod_unfold)

section \<open>Refunds\<close>

definition expired :: "height \<Rightarrow> escrow_entry \<Rightarrow> bool" where
  "expired h e \<longleftrightarrow> es_state e = Locked \<and> sat_add 64 (es_created_at e) ESCROW_TIMEOUT_BLOCKS \<le> h"

lemma refund_entry_eq:
  "refund_escrow_entry h (j, e) c =
     (if expired h e then delete_escrow j (credit_address (es_user e) (es_amount e) c) else c)"
  by (simp add: refund_escrow_entry_def expired_def credit_address_def Let_def)

lemma no_refunds:
  "\<forall>(j, e) \<in> set (iter_escrows (ctx_state c)). \<not> expired h e \<Longrightarrow> refund_expired_escrows h c = c"
proof -
  have "fold (refund_escrow_entry h) es c = c" if "\<forall>(j, e) \<in> set es. \<not> expired h e" for es c
    using that by (induction es arbitrary: c) (auto simp: refund_entry_eq)
  then show "\<forall>(j, e) \<in> set (iter_escrows (ctx_state c)). \<not> expired h e \<Longrightarrow> refund_expired_escrows h c = c"
    unfolding refund_expired_escrows_def by blast
qed

lemma keeps_refunds: "keeps c (refund_expired_escrows h c)"
proof -
  have "keeps a (fold (refund_escrow_entry h) es c)" if "keeps a c" for a es c
    using that
  proof (induction es arbitrary: c)
    case (Cons je es)
    obtain j e where "je = (j, e)" by (cases je)
    then have "keeps a (refund_escrow_entry h je c)"
      using Cons.prems by (simp add: refund_entry_eq keeps_def coherent_intros)
    then show ?case using Cons.IH by simp
  qed simp
  then show ?thesis by (simp add: refund_expired_escrows_def)
qed

lemma refund_balance:
  "balance (account_or_default (refund_escrow_entry h (j, e) c) b) =
     (if expired h e \<and> b = es_user e then sat_add 128 (balance (account_or_default c b)) (es_amount e)
      else balance (account_or_default c b))"
proof -
  have "account_or_default (delete_escrow j d) a = account_or_default d a" for a and d :: block_ctx
    by (simp add: account_or_default_def)
  then show ?thesis by (simp add: refund_entry_eq)
qed

lemma refund_balance_le:
  assumes "\<And>b. balance (account_or_default c b) < 2 ^ 128"
  shows "balance (account_or_default c a) \<le> balance (account_or_default (fold (refund_escrow_entry h) es c) a) \<and>
    (\<forall>b. balance (account_or_default (fold (refund_escrow_entry h) es c) b) < 2 ^ 128)"
  using assms
proof (induction es arbitrary: c)
  case (Cons je es)
  obtain j e where je: "je = (j, e)" by (cases je)
  let ?c = "refund_escrow_entry h je c"
  have "balance (account_or_default ?c b) < 2 ^ 128" for b
    using Cons.prems[of b] sat_add_less[of 128 "balance (account_or_default c b)" "es_amount e"]
    unfolding je refund_balance by (cases "b = es_user e") (simp_all del: sat_add_less)
  moreover have "balance (account_or_default c a) \<le> balance (account_or_default ?c a)"
    using Cons.prems[of a] sat_add_ge[of "balance (account_or_default c a)" 128 "es_amount e"]
    unfolding je refund_balance by (cases "a = es_user e") simp_all
  ultimately show ?case using Cons.IH[of ?c] by (auto intro: le_trans)
qed simp

lemma refund_moves:
  assumes "\<And>b. balance (account_or_default c b) < 2 ^ 128" "(j, e) \<in> set es" "expired h e" "es_amount e > 0"
    and "balance (account_or_default c (es_user e)) + (\<Sum>(j, e)\<leftarrow>es. es_amount e) < 2 ^ 128"
  shows "balance (account_or_default c (es_user e)) <
    balance (account_or_default (fold (refund_escrow_entry h) es c) (es_user e))"
proof -
  obtain xs ys where es: "es = xs @ (j, e) # ys" using assms(2) by (meson split_list)
  let ?c1 = "fold (refund_escrow_entry h) xs c" and ?u = "es_user e"
  let ?c2 = "refund_escrow_entry h (j, e) ?c1"
  note b1 = refund_balance_le[OF assms(1), of ?u h xs]
  have "balance (account_or_default (fold (refund_escrow_entry h) zs d) ?u) \<le>
      balance (account_or_default d ?u) + (\<Sum>(j, e)\<leftarrow>zs. es_amount e)" for zs d
  proof (induction zs arbitrary: d)
    case (Cons z zs)
    obtain i f where z: "z = (i, f)" by (cases z)
    have "balance (account_or_default (refund_escrow_entry h z d) ?u) \<le>
        balance (account_or_default d ?u) + es_amount f"
      unfolding z refund_balance by (simp add: sat_add_def)
    with Cons.IH[of "refund_escrow_entry h z d"] show ?case by (simp add: z)
  qed simp
  from this[of xs c] have up: "balance (account_or_default ?c1 ?u) + es_amount e < 2 ^ 128"
    using assms(5) by (simp add: es)
  have "balance (account_or_default ?c2 ?u) = balance (account_or_default ?c1 ?u) + es_amount e"
    using assms(3) up unfolding refund_balance by (simp add: sat_add_exact)
  moreover have "balance (account_or_default c ?u) \<le> balance (account_or_default ?c1 ?u)" using b1 by blast
  moreover have "balance (account_or_default ?c2 b) < 2 ^ 128" for b
    using b1 refund_balance_le[of ?c1 b h "[(j, e)]"] by (metis fold_simps)
  then have "balance (account_or_default ?c2 ?u) \<le> balance (account_or_default (fold (refund_escrow_entry h) ys ?c2) ?u)"
    using refund_balance_le[of ?c2 ?u h ys] by blast
  ultimately show ?thesis using assms(4) by (simp add: es)
qed

section \<open>The account tree\<close>

definition acct_tree :: "block_ctx \<Rightarrow> smt" where
  "acct_tree c = smt_apply (pending_smt_updates c) (st_smt (ctx_state c))"

lemma preview_acct_tree: "fst (preview_state_root X c) = smt_root X (acct_tree c)"
  by (simp add: preview_state_root_def acct_tree_def Let_def)

lemma acct_tree_leaf:
  assumes "coherent c"
  shows "acct_tree c (smt_key_for_account a) = account_or_default c a"
  using coherent_mirrors[OF assms] coherent_account[OF assms, of a]
  by (simp add: acct_tree_def mirrors_def account_or_default_def or_zero_def split: option.splits)

section \<open>Sample builds\<close>

definition demo_params :: build_params where
  "demo_params = \<lparr>bp_chain_id = [], bp_version = 1, bp_parent_hash = 0, bp_validator_set_hash = 0,
     bp_proposer = 0, bp_base_fee = 1, bp_gas_limit = 30000000, bp_bytes_budget = 1000,
     bp_genesis_message = []\<rparr>"

definition refund_ext :: ext where
  "refund_ext = demo_ext\<lparr>x_blake3 := (\<lambda>bs. 1)\<rparr>"

definition refund_state :: state where
  "refund_state = state_open (empty_db\<lparr>cf_escrows := kv_put 9
     \<lparr>es_job_id = 9, es_user = 0, es_amount = 5, es_created_at = 0, es_state = Locked\<rparr> kv_empty\<rparr>)"

lemma empty_drain: "drain_for_block g b (with_limits n m) = ([], 0, 0, with_limits n m)"
  by (simp add: drain_for_block_def drain_order_def with_limits_def List.map_filter_def)

lemma empty_build:
  "\<exists>built. build_block X s (with_limits n m) h params now = Ok (built, with_limits n m) \<and>
     bl_txs (bb_block built) = [] \<and> bh_height (bl_header (bb_block built)) = h"
  by (simp add: build_block_def empty_drain Let_def)

section \<open>Properties\<close>

text \<open>C4: a block built from a consistent pool commits on every replica with the same state: away from an
  epoch boundary and with no expired escrow, the replay applies every transaction of the block and ends
  in the root of the header.\<close>

theorem built_block_commits:
  assumes "mempool_ok X mp" and "build_block X s mp h params now = Ok (built, mp1)"
    and "\<forall>(j, e) \<in> set (iter_escrows s). \<not> expired h e" and "\<not> is_epoch_boundary h"
  shows "\<exists>s' mp' rep. commit_block X s replica_pool (bb_block built) = Ok (s', mp', rep) \<and>
    cr_state_root rep = bh_state_root (bl_header (bb_block built)) \<and>
    cr_applied_count rep = length (bl_txs (bb_block built))"
  using assms(2,1)
proof (cases rule: build_block_cases)
  case (1 c g)
  have "ctx_state c = s" using 1(5) by (simp add: keeps_def)
  then have "refund_expired_escrows h c = c" using no_refunds[of c h] assms(3) by simp
  then obtain s' mp' rep where r: "commit_block X s replica_pool (bb_block built) = Ok (s', mp', rep)"
    "cr_applied_count rep = length (bl_txs (bb_block built))"
    using commit_built[OF 1(1,2), of replica_pool] 1(3,4) assms(4) by auto
  moreover have "cr_state_root rep = bh_state_root (bl_header (bb_block built))"
    using r(1) by (cases rule: commit_block_cases)
  ultimately show ?thesis by blast
qed

theorem built_block_commits_witness:
  "\<exists>built s' mp' rep. build_block demo_ext (state_open (demo_db [(7, demo_acct 50)])) (with_limits 10 1000) 5 demo_params 0 =
      Ok (built, with_limits 10 1000) \<and>
    commit_block demo_ext (state_open (demo_db [(7, demo_acct 50)])) mp_default (bb_block built) = Ok (s', mp', rep)"
proof -
  let ?s = "state_open (demo_db [(7, demo_acct 50)])"
  obtain built where b: "build_block demo_ext ?s (with_limits 10 1000) 5 demo_params 0 = Ok (built, with_limits 10 1000)"
    using empty_build by blast
  have "\<forall>(j, e) \<in> set (iter_escrows ?s). \<not> expired 5 e"
    by (simp add: iter_escrows_def demo_db_def empty_db_def)
  moreover have "\<not> is_epoch_boundary 5" by (simp add: is_epoch_boundary_def EPOCH_LENGTH_BLOCKS_def)
  ultimately show ?thesis using built_block_commits[OF with_limits_ok b] b by blast
qed

text \<open>C11: The builder refunds expired escrows before it computes the root, the replay does not. In a
  chain state whose account tree mirrors its accounts (\<open>state_ok\<close>), let an escrow
  of a positive amount have expired at the height of a built block that is no epoch boundary (there the
  replay changes the accounts in other ways as well), let the balances after the replay of the
  block's transactions, with all the escrows, fit 128 bits, and let the root function not map the account
  trees with and without the refunds to one value. Then every replica rejects the block with a state root
  mismatch.\<close>

theorem expired_escrow_stops_chain:
  assumes "mempool_ok X mp" and "build_block X s mp h params now = Ok (built, mp1)"
    and "state_ok s" and "\<not> is_epoch_boundary h"
    and "(j, e) \<in> set (iter_escrows s)" and "expired h e" and "es_amount e > 0"
    and "rfold (replay_tx X) (bl_txs (bb_block built)) (begin_block s, 0, 0) = Ok (c, g, n)"
    and "\<And>b. balance (account_or_default c b) < 2 ^ 128"
    and "balance (account_or_default c (es_user e)) + (\<Sum>(j, e)\<leftarrow>iter_escrows s. es_amount e) < 2 ^ 128"
    and "acct_tree (refund_expired_escrows h c) \<noteq> acct_tree c \<Longrightarrow>
      smt_root X (acct_tree (refund_expired_escrows h c)) \<noteq> smt_root X (acct_tree c)"
  shows "\<exists>root. commit_block X s replica_pool (bb_block built) =
    Err (StateRootMismatch (bh_state_root (bl_header (bb_block built))) root)"
  using assms(2,1)
proof (cases rule: build_block_cases)
  case (1 c1 g1)
  have c: "c1 = c" using 1(1) assms(8) by simp
  have st: "ctx_state c = s" and coh: "coherent c"
    using 1(5) coherent_begin_block[OF assms(3)] by (simp_all add: keeps_def c)
  let ?r = "refund_expired_escrows h c"
  have "coherent ?r" using keeps_refunds[of c h] coh by (simp add: keeps_def)
  moreover have "account_or_default ?r (es_user e) \<noteq> account_or_default c (es_user e)"
    using refund_moves[OF assms(9,5,6,7,10)] by (auto simp: refund_expired_escrows_def st)
  ultimately have "acct_tree ?r \<noteq> acct_tree c" using coh by (metis acct_tree_leaf)
  then have "fst (preview_state_root X c) \<noteq> bh_state_root (bl_header (bb_block built))"
    using assms(11) 1(4) unfolding c preview_acct_tree by simp
  then show ?thesis using commit_built[OF 1(1,2), of replica_pool] 1(3) assms(4) by (simp add: c)
qed

theorem expired_escrow_stops_chain_witness:
  "\<exists>built r. build_block refund_ext refund_state (with_limits 10 1000) 8000 demo_params 0 =
      Ok (built, with_limits 10 1000) \<and>
    commit_block refund_ext refund_state mp_default (bb_block built) = Err r"
proof -
  let ?e = "\<lparr>es_job_id = 9, es_user = 0, es_amount = 5, es_created_at = 0, es_state = Locked\<rparr>"
  obtain built where b: "build_block refund_ext refund_state (with_limits 10 1000) 8000 demo_params 0 =
      Ok (built, with_limits 10 1000)" and t: "bl_txs (bb_block built) = []"
    using empty_build by blast
  have es: "iter_escrows refund_state = [(9, ?e)]" by (simp add: iter_escrows_def refund_state_def)
  have ex: "expired 8000 ?e" by (simp add: expired_def ESCROW_TIMEOUT_BLOCKS_def sat_add_exact)
  have nb: "\<not> is_epoch_boundary 8000" by (simp add: is_epoch_boundary_def EPOCH_LENGTH_BLOCKS_def)
  let ?c = "begin_block refund_state"
  have bal: "account_or_default ?c a = ACCOUNT_ZERO" for a
    by (simp add: account_or_default_def refund_state_def empty_db_def)
  have run: "rfold (replay_tx refund_ext) (bl_txs (bb_block built)) (?c, 0, 0) = Ok (?c, 0, 0)" by (simp add: t)
  have coh: "coherent ?c" by (simp add: refund_state_def coherent_begin_block state_ok_open)
  let ?r = "refund_expired_escrows 8000 ?c"
  have key: "smt_key_for_account 0 = 0" by (simp add: smt_key_for_account_def)
  have leaf: "acct_tree ?c 0 = ACCOUNT_ZERO" using acct_tree_leaf[OF coh, of 0] by (simp add: key bal)
  have "balance (account_or_default ?c 0) < balance (account_or_default ?r 0)"
    using refund_moves[of ?c 9 ?e "[(9, ?e)]" 8000] ex by (simp add: bal refund_expired_escrows_def es)
  then have "acct_tree ?r 0 \<noteq> ACCOUNT_ZERO"
    using acct_tree_leaf[of ?r 0] keeps_refunds[of ?c 8000] coh by (auto simp: key bal keeps_def)
  then have diff: "smt_root refund_ext (acct_tree ?r) \<noteq> smt_root refund_ext (acct_tree ?c)"
    using leaf by (simp add: smt_root_def refund_ext_def demo_ext_def leaf_to_h256_def)
  have ok: "state_ok refund_state" by (simp add: refund_state_def state_ok_open)
  have mem: "(9, ?e) \<in> set (iter_escrows refund_state)" by (simp add: es)
  have pos: "es_amount ?e > 0" by simp
  have bounds: "balance (account_or_default ?c b) < 2 ^ 128" for b by (simp add: bal)
  have fits: "balance (account_or_default ?c (es_user ?e)) + (\<Sum>(j, e)\<leftarrow>iter_escrows refund_state. es_amount e) < 2 ^ 128"
    by (simp add: es bal)
  from expired_escrow_stops_chain[OF with_limits_ok b ok nb mem ex pos run bounds fits diff] b
  show ?thesis by blast
qed

end
