(* ===== verification/CircuitBreaker.thy ===== *)
theory CircuitBreaker
  imports Prelude
begin

text \<open>
  The circuit breaker of inference intake (\<^verbatim>\<open>crates/chain/src/circuit_breaker.rs\<close>): its state, the
  operations of the guardian, of governance and of the epoch boundary, as functions on the state and
  as a step relation between states. Rule induction over the reachable states gives the limits of the
  guardian; the functional lemmas say when the breaker trips, reopens and pauses again.
\<close>

section \<open>State and operations\<close>

definition VERIFICATION_FAILURE_THRESHOLD_BPS :: nat where
  "VERIFICATION_FAILURE_THRESHOLD_BPS = 5000"

definition BOOTSTRAP_VERIFICATION_FAILURE_THRESHOLD_BPS :: nat where
  "BOOTSTRAP_VERIFICATION_FAILURE_THRESHOLD_BPS = 2000"

definition CONSECUTIVE_MISS_THRESHOLD :: nat where
  "CONSECUTIVE_MISS_THRESHOLD = 10"

definition MISSING_VALIDATORS_THRESHOLD :: nat where
  "MISSING_VALIDATORS_THRESHOLD = 3"

definition SLASH_THRESHOLD_BPS :: nat where
  "SLASH_THRESHOLD_BPS = 2000"

lemmas breaker_thresholds = VERIFICATION_FAILURE_THRESHOLD_BPS_def
  BOOTSTRAP_VERIFICATION_FAILURE_THRESHOLD_BPS_def MISSING_VALIDATORS_THRESHOLD_def
  SLASH_THRESHOLD_BPS_def

record breaker =
  cb_tripped :: bool
  cb_tripped_at :: nat
  cb_reset_at :: nat
  cb_override :: bool
  cb_verified :: nat
  cb_failed :: nat
  cb_bonded_supply :: nat
  cb_slashed :: nat
  cb_in_bootstrap :: bool
  cb_guardian_halted :: bool

definition breaker_genesis :: breaker where
  "breaker_genesis =
     \<lparr>cb_tripped = False, cb_tripped_at = 0, cb_reset_at = 0, cb_override = False, cb_verified = 0,
      cb_failed = 0, cb_bonded_supply = 0, cb_slashed = 0, cb_in_bootstrap = True,
      cb_guardian_halted = False\<rparr>"

definition is_paused :: "breaker \<Rightarrow> bool" where
  "is_paused s \<longleftrightarrow> cb_guardian_halted s \<or> (cb_tripped s \<and> \<not> cb_override s)"

definition guardian_halt :: "breaker \<Rightarrow> breaker" where
  "guardian_halt s = (if cb_in_bootstrap s then s\<lparr>cb_guardian_halted := True\<rparr> else s)"

definition guardian_resume :: "breaker \<Rightarrow> breaker" where
  "guardian_resume s = s\<lparr>cb_guardian_halted := False\<rparr>"

definition end_bootstrap :: "breaker \<Rightarrow> breaker" where
  "end_bootstrap s = s\<lparr>cb_in_bootstrap := False, cb_guardian_halted := False\<rparr>"

definition record_verified :: "breaker \<Rightarrow> breaker" where
  "record_verified s = s\<lparr>cb_verified := sat_add 64 (cb_verified s) 1\<rparr>"

definition record_failed :: "breaker \<Rightarrow> breaker" where
  "record_failed s = s\<lparr>cb_failed := sat_add 64 (cb_failed s) 1\<rparr>"

definition record_slash :: "nat \<Rightarrow> breaker \<Rightarrow> breaker" where
  "record_slash amount s = s\<lparr>cb_slashed := sat_add 128 (cb_slashed s) amount\<rparr>"

text \<open>The three triggers. The products are plain \<^verbatim>\<open>u64\<close> and \<^verbatim>\<open>u128\<close> multiplications, and the
  bonded supply is cast to \<^verbatim>\<open>u64\<close> before it divides.\<close>

definition failure_trigger :: "breaker \<Rightarrow> ('e, bool) result" where
  "failure_trigger s =
     (let total_receipts = sat_add 64 (cb_verified s) (cb_failed s);
          vf_threshold = (if cb_in_bootstrap s then BOOTSTRAP_VERIFICATION_FAILURE_THRESHOLD_BPS
                          else VERIFICATION_FAILURE_THRESHOLD_BPS)
      in if total_receipts > 0
         then rbind (umul 64 (cb_failed s) 10000) (\<lambda>x.
              rbind (udiv x total_receipts) (\<lambda>q. Ok (q > vf_threshold)))
         else Ok False)"

definition slash_trigger :: "breaker \<Rightarrow> ('e, bool) result" where
  "slash_trigger s =
     (if cb_bonded_supply s > 0
      then rbind (umul 128 (cb_slashed s) 10000) (\<lambda>x.
           rbind (udiv x (ucastn 64 (cb_bonded_supply s))) (\<lambda>q. Ok (q > SLASH_THRESHOLD_BPS)))
      else Ok False)"

definition breaker_evaluate :: "nat \<Rightarrow> nat \<Rightarrow> breaker \<Rightarrow> ('e, breaker) result" where
  "breaker_evaluate current_epoch missing_validators s =
     rbind (failure_trigger s) (\<lambda>trigger1.
     let trigger2 = missing_validators > MISSING_VALIDATORS_THRESHOLD in
     rbind (slash_trigger s) (\<lambda>trigger3.
       if trigger1 \<or> trigger2 \<or> trigger3
       then Ok (s\<lparr>cb_tripped := True, cb_tripped_at := current_epoch\<rparr>)
       else if cb_tripped s \<and> \<not> cb_override s
       then Ok (s\<lparr>cb_tripped := False, cb_reset_at := current_epoch\<rparr>)
       else Ok s))"

definition breaker_advance_epoch :: "nat \<Rightarrow> breaker \<Rightarrow> breaker" where
  "breaker_advance_epoch bonded_supply s =
     s\<lparr>cb_verified := 0, cb_failed := 0, cb_slashed := 0, cb_bonded_supply := bonded_supply,
       cb_override := False\<rparr>"

definition governance_force_resume :: "breaker \<Rightarrow> breaker" where
  "governance_force_resume s = s\<lparr>cb_override := True\<rparr>"

lemmas breaker_ops = guardian_halt_def guardian_resume_def end_bootstrap_def record_verified_def
  record_failed_def record_slash_def breaker_advance_epoch_def governance_force_resume_def

section \<open>The breaker as a state machine\<close>

text \<open>One step per public operation; an evaluation that aborts has no successor.\<close>

inductive breaker_step :: "breaker \<Rightarrow> breaker \<Rightarrow> bool" where
  halt: "breaker_step s (guardian_halt s)"
| resume: "breaker_step s (guardian_resume s)"
| leave_bootstrap: "breaker_step s (end_bootstrap s)"
| verified: "breaker_step s (record_verified s)"
| failed: "breaker_step s (record_failed s)"
| slashed: "breaker_step s (record_slash amount s)"
| evaluated: "breaker_evaluate epoch missing s = (Ok s' :: (unit, breaker) result) \<Longrightarrow> breaker_step s s'"
| advanced: "bonded < 2 ^ 128 \<Longrightarrow> breaker_step s (breaker_advance_epoch bonded s)"
| forced: "breaker_step s (governance_force_resume s)"

inductive_cases breaker_stepE: "breaker_step s s'"

inductive breaker_reachable :: "breaker \<Rightarrow> bool" where
  start: "breaker_reachable breaker_genesis"
| step: "breaker_reachable s \<Longrightarrow> breaker_step s s' \<Longrightarrow> breaker_reachable s'"

text \<open>An evaluation changes the trip flag and its two epochs only.\<close>

lemma evaluate_frame:
  assumes "breaker_evaluate e m s = (Ok s' :: ('e, breaker) result)"
  shows "s' = s\<lparr>cb_tripped := cb_tripped s', cb_tripped_at := cb_tripped_at s', cb_reset_at := cb_reset_at s'\<rparr>"
proof -
  from assms obtain b1 b3 where
    "(if b1 \<or> m > MISSING_VALIDATORS_THRESHOLD \<or> b3
      then Ok (s\<lparr>cb_tripped := True, cb_tripped_at := e\<rparr>)
      else if cb_tripped s \<and> \<not> cb_override s then Ok (s\<lparr>cb_tripped := False, cb_reset_at := e\<rparr>)
      else Ok s) = (Ok s' :: ('e, breaker) result)"
    unfolding breaker_evaluate_def Let_def rbind_Ok_iff by blast
  then show ?thesis by (auto split: if_splits)
qed

definition breaker_inv :: "breaker \<Rightarrow> bool" where
  "breaker_inv s \<longleftrightarrow> (cb_guardian_halted s \<longrightarrow> cb_in_bootstrap s) \<and>
     cb_verified s < 2 ^ 64 \<and> cb_failed s < 2 ^ 64 \<and> cb_slashed s < 2 ^ 128 \<and> cb_bonded_supply s < 2 ^ 128"

lemma breaker_step_inv: "breaker_step s s' \<Longrightarrow> breaker_inv s \<Longrightarrow> breaker_inv s'"
proof (induction rule: breaker_step.induct)
  case (evaluated epoch missing s s')
  show ?case using evaluate_frame[OF evaluated(1)] evaluated(2)
    by (cases s; cases s') (simp add: breaker_inv_def)
next
  case (verified s)
  then show ?case using sat_add_less[of 64 "cb_verified s" 1]
    by (simp add: breaker_inv_def record_verified_def)
next
  case (failed s)
  then show ?case using sat_add_less[of 64 "cb_failed s" 1]
    by (simp add: breaker_inv_def record_failed_def)
next
  case (slashed s amount)
  then show ?case using sat_add_less[of 128 "cb_slashed s" amount]
    by (simp add: breaker_inv_def record_slash_def)
qed (auto simp: breaker_inv_def breaker_ops)

lemma reachable_inv: "breaker_reachable s \<Longrightarrow> breaker_inv s"
proof (induction rule: breaker_reachable.induct)
  case start
  show ?case by (simp add: breaker_inv_def breaker_genesis_def)
qed (rule breaker_step_inv)

text \<open>Bootstrap never comes back: once it has ended no sequence of operations gives the guardian a
  halt again.\<close>

lemma breaker_step_bootstrap: "breaker_step s s' \<Longrightarrow> \<not> cb_in_bootstrap s \<Longrightarrow> \<not> cb_in_bootstrap s'"
proof (induction rule: breaker_step.induct)
  case (evaluated epoch missing s s')
  show ?case using evaluate_frame[OF evaluated(1)] evaluated(2) by (cases s; cases s') simp
qed (auto simp: breaker_ops)

lemma no_bootstrap_no_halt:
  assumes "breaker_step\<^sup>*\<^sup>* s s'" "breaker_reachable s" "\<not> cb_in_bootstrap s"
  shows "breaker_reachable s' \<and> \<not> cb_in_bootstrap s' \<and> \<not> cb_guardian_halted s'"
  using assms
proof (induction rule: rtranclp_induct)
  case base
  then show ?case using reachable_inv by (auto simp: breaker_inv_def)
next
  case (step t u)
  then have "breaker_reachable u" "\<not> cb_in_bootstrap u"
    using breaker_reachable.step breaker_step_bootstrap by blast+
  then show ?case using reachable_inv by (auto simp: breaker_inv_def)
qed

section \<open>When the breaker trips\<close>

lemma failure_trigger_clean: "cb_failed s = 0 \<Longrightarrow> failure_trigger s = Ok False"
  by (auto simp: failure_trigger_def umul_def udiv_def Let_def)

lemma slash_trigger_clean:
  "cb_slashed s = 0 \<Longrightarrow> cb_bonded_supply s = 0 \<or> cb_bonded_supply s mod 2 ^ 64 \<noteq> 0 \<Longrightarrow>
   slash_trigger s = Ok False"
  by (auto simp: slash_trigger_def umul_def udiv_def breaker_thresholds ucastn_def)

text \<open>The triggers without the divisions: more than \<open>t\<close> basis points.\<close>

lemma exceeds_bps: "0 < n \<Longrightarrow> t < (x::nat) div n \<longleftrightarrow> Suc t * n \<le> x"
  by (simp add: less_eq_div_iff_mult_less_eq Suc_le_eq[symmetric] del: mult_Suc)

lemma failure_trigger_exact:
  assumes "cb_failed s * 10000 < 2 ^ 64" "cb_verified s + cb_failed s < 2 ^ 64"
  shows "failure_trigger s =
    (Ok (cb_failed s > 0 \<and>
         (if cb_in_bootstrap s then 2001 else 5001) * (cb_verified s + cb_failed s) \<le> cb_failed s * 10000)
       :: ('e, bool) result)"
proof (cases "cb_failed s = 0")
  case False
  define n where "n = cb_verified s + cb_failed s"
  have n: "0 < n" "sat_add 64 (cb_verified s) (cb_failed s) = n"
    using False sat_add_exact[OF assms(2)] by (auto simp: n_def)
  have "failure_trigger s = (Ok ((if cb_in_bootstrap s then 2000 else 5000) < cb_failed s * 10000 div n)
      :: ('e, bool) result)"
    using n assms(1) by (simp add: failure_trigger_def umul_def udiv_def breaker_thresholds Let_def)
  then show ?thesis using False n(1) by (auto simp: exceeds_bps n_def[symmetric])
qed (simp add: failure_trigger_clean)

lemma slash_trigger_exact:
  assumes "cb_slashed s * 10000 < 2 ^ 128" "cb_bonded_supply s < 2 ^ 64"
  shows "slash_trigger s =
    (Ok (cb_bonded_supply s > 0 \<and> 2001 * cb_bonded_supply s \<le> cb_slashed s * 10000) :: ('e, bool) result)"
proof (cases "cb_bonded_supply s = 0")
  case False
  then have "slash_trigger s = (Ok (2000 < cb_slashed s * 10000 div cb_bonded_supply s) :: ('e, bool) result)"
    using assms by (simp add: slash_trigger_def umul_def udiv_def breaker_thresholds ucastn_def)
  then show ?thesis using False by (simp add: exceeds_bps)
qed (simp add: slash_trigger_def)

section \<open>Properties\<close>

text \<open>C30: once bootstrap has ended, no sequence of operations lets the guardian halt intake: from then on
  the breaker pauses jobs exactly while it is tripped and not overridden. During bootstrap and after,
  the counters stay in the range of their types.\<close>

theorem guardian_power_ends:
  assumes "breaker_reachable s" and "\<not> cb_in_bootstrap s" and "breaker_step\<^sup>*\<^sup>* s s'"
  shows "\<not> cb_in_bootstrap s' \<and> \<not> cb_guardian_halted s' \<and> guardian_halt s' = s' \<and>
    (is_paused s' \<longleftrightarrow> cb_tripped s' \<and> \<not> cb_override s') \<and>
    cb_failed s' < 2 ^ 64 \<and> cb_slashed s' < 2 ^ 128"
  using no_bootstrap_no_halt[OF assms(3,1,2)] reachable_inv[of s']
  by (auto simp: breaker_inv_def is_paused_def guardian_halt_def)

lemma guardian_power_ends_witness:
  "\<not> is_paused (guardian_halt (end_bootstrap (guardian_halt breaker_genesis)))"
proof -
  let ?s = "end_bootstrap (guardian_halt breaker_genesis)"
  have r: "breaker_reachable ?s"
    by (rule breaker_reachable.step[OF _ leave_bootstrap], rule breaker_reachable.step[OF _ halt],
        rule breaker_reachable.start)
  have b: "\<not> cb_in_bootstrap ?s" by (simp add: end_bootstrap_def)
  have "breaker_step\<^sup>*\<^sup>* ?s (guardian_halt ?s)" by (rule r_into_rtranclp) (rule halt)
  from guardian_power_ends[OF r b this] show ?thesis
    by (simp add: breaker_genesis_def guardian_halt_def end_bootstrap_def)
qed

text \<open>What an evaluation decides, as inequalities between the counters: the breaker trips when more than
  half of the receipts (a fifth in bootstrap) fail verification, more than three validators are missing
  or more than a fifth of the bonded supply is slashed, each from one basis point above; otherwise a
  tripped breaker without override reopens.\<close>

theorem breaker_decision:
  assumes "cb_failed s * 10000 < 2 ^ 64" and "cb_verified s + cb_failed s < 2 ^ 64"
    and "cb_slashed s * 10000 < 2 ^ 128" and "cb_bonded_supply s < 2 ^ 64"
  shows "breaker_evaluate e m s = (Ok
    (if (cb_failed s > 0 \<and>
           (if cb_in_bootstrap s then 2001 else 5001) * (cb_verified s + cb_failed s) \<le> cb_failed s * 10000) \<or>
        m > 3 \<or>
        (cb_bonded_supply s > 0 \<and> 2001 * cb_bonded_supply s \<le> cb_slashed s * 10000)
     then s\<lparr>cb_tripped := True, cb_tripped_at := e\<rparr>
     else if cb_tripped s \<and> \<not> cb_override s then s\<lparr>cb_tripped := False, cb_reset_at := e\<rparr>
     else s) :: (unit, breaker) result)"
  unfolding breaker_evaluate_def failure_trigger_exact[OF assms(1,2)] slash_trigger_exact[OF assms(3,4)]
  by (simp add: breaker_thresholds)

lemma breaker_decision_witness:
  "breaker_evaluate 7 0 (record_failed (breaker_genesis\<lparr>cb_verified := 3\<rparr>)) =
   (Ok ((record_failed (breaker_genesis\<lparr>cb_verified := 3\<rparr>))\<lparr>cb_tripped := True, cb_tripped_at := 7\<rparr>)
      :: (unit, breaker) result)"
  using breaker_decision[of "record_failed (breaker_genesis\<lparr>cb_verified := 3\<rparr>)" 7 0]
  by (simp add: record_failed_def breaker_genesis_def sat_add_def umax_def)

text \<open>C1: an epoch boundary run in the documented order, \<open>advance_epoch\<close> before \<open>evaluate\<close>, never looks at
  the epoch that ended: whatever was recorded, only missing validators can trip the breaker, a breaker
  tripped before reopens, and a bonded supply that is a positive multiple of \<open>2 ^ 64\<close> aborts the
  process.\<close>

theorem documented_order_forgets_failures:
  "breaker_evaluate e m (breaker_advance_epoch bonded s) =
   (if bonded > 0 \<and> bonded mod 2 ^ 64 = 0 then Panic
    else let t = breaker_advance_epoch bonded s
         in Ok (if m > 3 then t\<lparr>cb_tripped := True, cb_tripped_at := e\<rparr>
                else if cb_tripped s then t\<lparr>cb_tripped := False, cb_reset_at := e\<rparr> else t)
    :: (unit, breaker) result)"
proof -
  let ?t = "breaker_advance_epoch bonded s"
  have f: "failure_trigger ?t = (Ok False :: (unit, bool) result)" by (simp add: failure_trigger_clean breaker_advance_epoch_def)
  show ?thesis
  proof (cases "bonded > 0 \<and> bonded mod 2 ^ 64 = 0")
    case True
    then have "slash_trigger ?t = (Panic :: (unit, bool) result)"
      by (auto simp: slash_trigger_def breaker_advance_epoch_def umul_def udiv_def ucastn_def)
    with f True show ?thesis by (simp add: breaker_evaluate_def)
  next
    case False
    then have "slash_trigger ?t = (Ok False :: (unit, bool) result)"
      by (intro slash_trigger_clean) (auto simp: breaker_advance_epoch_def)
    with f False show ?thesis
      by (auto simp: breaker_evaluate_def breaker_thresholds breaker_advance_epoch_def Let_def)
  qed
qed

end
