(* ===== verification/ConsensusSet.thy ===== *)
theory ConsensusSet
  imports ValidatorSet
begin

text \<open>
  The consensus view of the validators (\<^verbatim>\<open>crates/consensus/src/validators.rs\<close>), heights
  (\<^verbatim>\<open>height.rs\<close>) and the choice of the proposer (\<^verbatim>\<open>select_proposer\<close> of
  \<^verbatim>\<open>context.rs\<close>). The lemmas show that the set is canonical, that two quorums of it always share
  voting power, and that every validator gets to propose.

  The key type of the consensus engine is not part of the repository; \<open>key_ok\<close> tells whether the
  32 bytes are a point of its curve (its constructor panics otherwise).
\<close>

section \<open>Heights and rounds\<close>

datatype round = NilRound | Round nat

fun as_i64 :: "round \<Rightarrow> int" where
  "as_i64 NilRound = -1"
| "as_i64 (Round r) = int r"

definition height_increment_by :: "nat \<Rightarrow> height \<Rightarrow> height" where
  "height_increment_by n h = sat_add 64 h n"

definition height_decrement_by :: "nat \<Rightarrow> height \<Rightarrow> height option" where
  "height_decrement_by n h = (if n \<le> h then Some (h - n) else None)"

lemma height_roundtrip: "h + n < 2 ^ 64 \<Longrightarrow> height_decrement_by n (height_increment_by n h) = Some h"
  by (simp add: height_decrement_by_def height_increment_by_def sat_add_exact)

section \<open>The set\<close>

record chain_validator =
  cv_address :: address
  cv_public_key :: bytes
  cv_voting_power :: nat

datatype set_error = BadKeyLength node_id nat | EmptySet | NoActiveValidators

definition validator_from_info ::
    "(bytes \<Rightarrow> bool) \<Rightarrow> validator_info \<Rightarrow> (set_error, chain_validator) result" where
  "validator_from_info key_ok info =
     (let pk_bytes = pk_bytes (vi_consensus_key info)
      in if length pk_bytes \<noteq> 32 then Err (BadKeyLength (vi_node_id info) (length pk_bytes))
         else if \<not> key_ok pk_bytes then Panic
         else Ok \<lparr>cv_address = vi_operator info, cv_public_key = pk_bytes,
                  cv_voting_power = vi_voting_power info\<rparr>)"

text \<open>Voting power descending, then address ascending.\<close>

definition validator_le :: "chain_validator \<Rightarrow> chain_validator \<Rightarrow> bool" where
  "validator_le a b \<longleftrightarrow> cv_voting_power b < cv_voting_power a \<or>
     (cv_voting_power a = cv_voting_power b \<and> cv_address a \<le> cv_address b)"

definition push_validator ::
    "(bytes \<Rightarrow> bool) \<Rightarrow> validator_info \<Rightarrow> chain_validator list \<Rightarrow>
     (set_error, chain_validator list) result" where
  "push_validator key_ok info vs =
     (if vi_jailed info \<or> \<not> validator_is_active info then Ok vs
      else rbind (validator_from_info key_ok info) (\<lambda>v. Ok (vs @ [v])))"

definition from_infos ::
    "(bytes \<Rightarrow> bool) \<Rightarrow> validator_info list \<Rightarrow> (set_error, chain_validator list) result" where
  "from_infos key_ok infos =
     (if infos = [] then Err EmptySet
      else rbind (rfold (push_validator key_ok) infos []) (\<lambda>vs.
           if vs = [] then Err NoActiveValidators else Ok (sort_by validator_le vs)))"

definition validator_count :: "chain_validator list \<Rightarrow> nat" where
  "validator_count vs = length vs"

definition total_voting_power :: "chain_validator list \<Rightarrow> nat" where
  "total_voting_power vs = foldl (\<lambda>acc p. sat_add 64 acc p) 0 (map cv_voting_power vs)"

definition get_by_address :: "address \<Rightarrow> chain_validator list \<Rightarrow> chain_validator option" where
  "get_by_address a vs = find (\<lambda>v. cv_address v = a) vs"

definition get_by_index :: "nat \<Rightarrow> chain_validator list \<Rightarrow> chain_validator option" where
  "get_by_index i vs = (if i < length vs then Some (vs ! i) else None)"

text \<open>\<^verbatim>\<open>expect\<close> on the index lookup: an empty set aborts. The height is not looked at.\<close>

definition select_proposer ::
    "chain_validator list \<Rightarrow> height \<Rightarrow> round \<Rightarrow> ('e, chain_validator) result" where
  "select_proposer vs h r =
     (let n = nat (max (as_i64 r) 0); idx = n mod max (validator_count vs) 1
      in case get_by_index idx vs of Some v \<Rightarrow> Ok v | None \<Rightarrow> Panic)"

section \<open>Lemmas\<close>

interpretation seats: comparison validator_le
  by unfold_locales (auto simp: validator_le_def)

text \<open>A comparison that is antisymmetric on the elements determines the sorted list.\<close>

context comparison begin

lemma sorted_unique:
  assumes "sorted_wrt le xs" "sorted_wrt le ys" "mset xs = mset ys"
    and "\<And>a b. a \<in> set xs \<Longrightarrow> b \<in> set xs \<Longrightarrow> le a b \<Longrightarrow> le b a \<Longrightarrow> a = b"
  shows "xs = ys"
  using assms
proof (induction xs arbitrary: ys)
  case Nil
  then show ?case by simp
next
  case (Cons x xs)
  then obtain y ys' where ys: "ys = y # ys'" by (cases ys) auto
  have sets: "set (x # xs) = set ys" using Cons.prems(3) mset_eq_setD by blast
  have refl: "le a a" for a using total by blast
  have "y \<in> set (x # xs)" using sets ys by simp
  then have "le x y" using Cons.prems(1) refl by (metis set_ConsD sorted_wrt.simps(2))
  moreover have "le y x" using Cons.prems(2) sets ys refl by (metis list.set_intros(1) set_ConsD sorted_wrt.simps(2))
  ultimately have "x = y" using Cons.prems(4)[of x y] \<open>y \<in> set (x # xs)\<close> by simp
  moreover have "xs = ys'"
    using Cons.IH[of ys'] Cons.prems \<open>x = y\<close> ys by auto
  ultimately show ?case using ys by simp
qed

end

definition active_infos :: "validator_info list \<Rightarrow> validator_info list" where
  "active_infos infos = filter validator_is_active infos"

definition to_chain_validator :: "validator_info \<Rightarrow> chain_validator" where
  "to_chain_validator info =
     \<lparr>cv_address = vi_operator info, cv_public_key = pk_bytes (vi_consensus_key info),
      cv_voting_power = vi_voting_power info\<rparr>"

definition key_usable :: "(bytes \<Rightarrow> bool) \<Rightarrow> validator_info \<Rightarrow> bool" where
  "key_usable key_ok info \<longleftrightarrow>
     length (pk_bytes (vi_consensus_key info)) = 32 \<and> key_ok (pk_bytes (vi_consensus_key info))"

lemma validator_from_info_Ok:
  "validator_from_info key_ok info = Ok v \<longleftrightarrow> key_usable key_ok info \<and> v = to_chain_validator info"
  by (auto simp: validator_from_info_def key_usable_def to_chain_validator_def Let_def)

lemma push_validator_Ok:
  "push_validator key_ok info vs = Ok vs' \<longleftrightarrow>
   (if validator_is_active info then key_usable key_ok info \<and> vs' = vs @ [to_chain_validator info]
    else vs' = vs)"
  by (auto simp: push_validator_def validator_is_active_def rbind_Ok_iff validator_from_info_Ok)

lemma push_all:
  "rfold (push_validator key_ok) infos acc = Ok vs \<longleftrightarrow>
   (\<forall>i \<in> set (active_infos infos). key_usable key_ok i) \<and>
   vs = acc @ map to_chain_validator (active_infos infos)"
proof (induction infos arbitrary: acc)
  case (Cons i infos)
  show ?case
  proof (cases "validator_is_active i")
    case True
    then show ?thesis
      by (auto simp: rbind_Ok_iff push_validator_Ok Cons.IH active_infos_def)
  next
    case False
    then have "push_validator key_ok i acc = Ok acc" by (simp add: push_validator_Ok)
    then show ?thesis using False by (simp add: Cons.IH active_infos_def)
  qed
qed (auto simp: active_infos_def)

lemma from_infos_Ok:
  "from_infos key_ok infos = Ok vs \<longleftrightarrow>
   active_infos infos \<noteq> [] \<and> (\<forall>i \<in> set (active_infos infos). key_usable key_ok i) \<and>
   vs = sort_by validator_le (map to_chain_validator (active_infos infos))"
proof (cases "infos = []")
  case True
  then show ?thesis by (simp add: from_infos_def active_infos_def)
next
  case False
  then have "from_infos key_ok infos = Ok vs \<longleftrightarrow>
      (\<exists>us. rfold (push_validator key_ok) infos [] = Ok us \<and> us \<noteq> [] \<and> vs = sort_by validator_le us)"
    by (auto simp: from_infos_def rbind_Ok_iff)
  then show ?thesis by (auto simp: push_all)
qed

text \<open>The saturating sum is the least of the true sum and the maximum.\<close>

lemma sat_sum:
  "acc < 2 ^ w \<Longrightarrow> foldl (\<lambda>acc p. sat_add w acc p) acc ps = min (acc + sum_list ps) (umax w)"
proof (induction ps arbitrary: acc)
  case Nil
  then show ?case by (simp add: min_def le_umax_iff)
next
  case (Cons p ps)
  have "foldl (\<lambda>acc p. sat_add w acc p) acc (p # ps) = min (sat_add w acc p + sum_list ps) (umax w)"
    using Cons.IH[of "sat_add w acc p"] by simp
  then show ?case by (simp add: sat_add_def min_def)
qed

lemma total_voting_power_sum:
  "total_voting_power vs = min (sum_list (map cv_voting_power vs)) (umax 64)"
  using sat_sum[of 0 64] by (simp add: total_voting_power_def)

lemma select_proposer_Round:
  "vs \<noteq> [] \<Longrightarrow> select_proposer vs h (Round r) = Ok (vs ! (r mod length vs))"
  by (cases vs) (simp_all add: select_proposer_def get_by_index_def validator_count_def Let_def)

section \<open>Properties\<close>

text \<open>Validators without their keys, which the order does not look at.\<close>

definition seat_of :: "chain_validator \<Rightarrow> chain_validator" where
  "seat_of v = v\<lparr>cv_public_key := []\<rparr>"

lemma same_seats:
  assumes "sorted_wrt validator_le vs" and "sorted_wrt validator_le vs'" and "mset vs = mset vs'"
  shows "map seat_of vs = map seat_of vs'"
proof (rule seats.sorted_unique)
  show "sorted_wrt validator_le (map seat_of vs)" "sorted_wrt validator_le (map seat_of vs')"
    using assms(1,2) by (simp_all add: sorted_wrt_map validator_le_def[abs_def] seat_of_def)
  show "mset (map seat_of vs) = mset (map seat_of vs')" using assms(3) by simp
  fix a b assume "a \<in> set (map seat_of vs)" "b \<in> set (map seat_of vs)" "validator_le a b" "validator_le b a"
  then show "a = b" by (auto simp: validator_le_def seat_of_def)
qed

lemma active_mset: "mset infos' = mset infos \<Longrightarrow> mset (active_infos infos') = mset (active_infos infos)"
  by (simp add: active_infos_def)

lemma from_infos_perm:
  assumes "from_infos key_ok infos = Ok vs" and "mset infos' = mset infos"
  shows "\<exists>vs'. from_infos key_ok infos' = Ok vs' \<and> mset vs' = mset vs \<and> sorted_wrt validator_le vs' \<and>
    map seat_of vs' = map seat_of vs"
proof -
  have vs: "active_infos infos \<noteq> []" "\<forall>i \<in> set (active_infos infos). key_usable key_ok i"
    "vs = sort_by validator_le (map to_chain_validator (active_infos infos))" using assms(1) by (auto simp: from_infos_Ok)
  define vs' where "vs' = sort_by validator_le (map to_chain_validator (active_infos infos'))"
  note ms = active_mset[OF assms(2)]
  have "active_infos infos' \<noteq> []" using ms vs(1) by auto
  moreover have "\<forall>i \<in> set (active_infos infos'). key_usable key_ok i" using vs(2) mset_eq_setD[OF ms] by simp
  ultimately have "from_infos key_ok infos' = Ok vs'" by (simp add: from_infos_Ok vs'_def)
  moreover have m: "mset vs' = mset vs" using ms by (simp add: vs'_def vs(3))
  moreover have s: "sorted_wrt validator_le vs'" "sorted_wrt validator_le vs"
    unfolding vs'_def vs(3) by (rule seats.sort_by_sorted)+
  ultimately show ?thesis using same_seats[OF s m] by blast
qed

lemma get_by_address_distinct:
  assumes "inj_on cv_address (set vs)" and "v \<in> set vs"
  shows "get_by_address (cv_address v) vs = Some v"
proof -
  have "get_by_address (cv_address v) vs \<noteq> None"
    using assms(2) by (auto simp: get_by_address_def find_None_iff)
  then obtain u where u: "get_by_address (cv_address v) vs = Some u" by blast
  then have "u \<in> set vs" "cv_address u = cv_address v"
    by (auto simp: get_by_address_def find_Some_iff)
  then show ?thesis using assms u by (auto dest: inj_onD)
qed

definition demo_info :: "node_id \<Rightarrow> nat \<Rightarrow> bool \<Rightarrow> validator_info" where
  "demo_info n p jailed =
     \<lparr>vi_node_id = n, vi_consensus_key = \<lparr>pk_scheme = Ed25519, pk_bytes = replicate 32 7\<rparr>,
      vi_operator = ucast n, vi_bonded_stake = 0, vi_voting_power = p, vi_is_genesis = True,
      vi_jailed = jailed\<rparr>"



text \<open>Two sets of validators that each hold more than two thirds of the total voting power share
  more than one third of it, as long as the saturating total has not saturated.\<close>

theorem quorums_share_power:
  assumes "A \<subseteq> {..<validator_count vs}" and "B \<subseteq> {..<validator_count vs}"
    and "2 * total_voting_power vs < 3 * (\<Sum>i \<in> A. cv_voting_power (vs ! i))"
    and "2 * total_voting_power vs < 3 * (\<Sum>i \<in> B. cv_voting_power (vs ! i))"
    and "total_voting_power vs < umax 64"
  shows "total_voting_power vs < 3 * (\<Sum>i \<in> A \<inter> B. cv_voting_power (vs ! i))"
proof -
  let ?p = "\<lambda>S. \<Sum>i \<in> S. cv_voting_power (vs ! i)"
  have fin: "finite A" "finite B" using assms(1,2) finite_subset by blast+
  have "total_voting_power vs = sum_list (map cv_voting_power vs)"
    using assms(5) by (simp add: total_voting_power_sum min_def split: if_splits)
  also have "\<dots> = ?p {..<validator_count vs}"
    by (simp add: validator_count_def sum_list_sum_nth lessThan_atLeast0)
  finally have t: "?p (A \<union> B) \<le> total_voting_power vs"
    using assms(1,2) by (simp add: sum_mono2)
  have "?p A + ?p B = ?p (A \<union> B) + ?p (A \<inter> B)" using fin by (rule sum.union_inter[symmetric])
  with t assms(3,4) show ?thesis by linarith
qed

definition demo_validators :: "nat list \<Rightarrow> chain_validator list" where
  "demo_validators ps = map (\<lambda>p. to_chain_validator (demo_info (of_nat p) p False)) ps"

lemma quorums_share_power_witness:
  "(10::nat) < 3 * (\<Sum>i \<in> {0, 1} \<inter> {0, 2 :: nat}. cv_voting_power (demo_validators [4, 3, 3] ! i))"
  using quorums_share_power[of "{0, 1}" "demo_validators [4, 3, 3]" "{0, 2}"]
  by (simp add: demo_validators_def demo_info_def to_chain_validator_def validator_count_def
      total_voting_power_def sat_add_def umax_def)

text \<open>The proposer depends on the round only, and in any run of as many rounds as there are validators
  every validator is the proposer of exactly one; the first round of every height belongs to the
  first validator of the set.\<close>

theorem every_validator_proposes:
  assumes "i < validator_count vs"
  shows "(\<exists>!r. first \<le> r \<and> r < first + validator_count vs \<and>
      r mod validator_count vs = i) \<and>
    (\<forall>r h. r mod validator_count vs = i \<longrightarrow> select_proposer vs h (Round r) = (Ok (vs ! i) :: ('e, _) result)) \<and>
    (\<forall>h. select_proposer vs h (Round 0) = (Ok (hd vs) :: ('e, _) result)) \<and>
    (\<forall>h. select_proposer vs h NilRound = (Ok (hd vs) :: ('e, _) result))"
proof -
  define n where "n = validator_count vs"
  have ne: "vs \<noteq> []" and n: "0 < n" "n = length vs" "i < n" using assms by (auto simp: n_def validator_count_def)
  let ?r = "first + (i + (n - first mod n)) mod n"
  have m: "?r mod n = i"
  proof -
    have le: "first mod n \<le> n" using n(1) by (simp add: less_imp_le)
    have "?r mod n = (first mod n + (i + (n - first mod n))) mod n" by (simp add: mod_simps)
    also have "first mod n + (i + (n - first mod n)) = i + n" using le by simp
    finally show ?thesis using n(3) by simp
  qed
  have below: "r = r'" if "first \<le> r" "r \<le> r'" "r' < first + n" "r mod n = r' mod n" for r r'
  proof -
    have "n dvd r' - r" using that by (metis mod_eq_dvd_iff_nat)
    then show ?thesis using that by (auto dest: dvd_imp_le)
  qed
  have uniq: "r = r'" if "first \<le> r" "r < first + n" "first \<le> r'" "r' < first + n" "r mod n = r' mod n" for r r'
    using below[of r r'] below[of r' r] that by (cases "r \<le> r'") auto
  have "\<exists>!r. first \<le> r \<and> r < first + n \<and> r mod n = i"
    by (rule ex1I[of _ ?r]) (use m n(1) uniq in auto)
  moreover have "select_proposer vs h NilRound = (Ok (hd vs) :: ('e, _) result)" for h
    using ne by (cases vs) (simp_all add: select_proposer_def get_by_index_def validator_count_def Let_def)
  ultimately show ?thesis using ne n by (simp add: select_proposer_Round n_def[symmetric] hd_conv_nth)
qed

lemma every_validator_proposes_witness:
  "\<exists>r. 7 \<le> r \<and> r < 10 \<and>
     select_proposer (demo_validators [4, 3, 2]) 5 (Round r) = (Ok (demo_validators [4, 3, 2] ! 1) :: (unit, _) result)"
  using every_validator_proposes[of 1 "demo_validators [4, 3, 2]" 7, where 'e = unit]
  by (auto simp: validator_count_def demo_validators_def)

end
