(* ===== verification/ConsensusMessages.thy ===== *)
theory ConsensusMessages
  imports ConsensusSet
begin

text \<open>
  The messages of consensus: values, votes and proposals (\<^verbatim>\<open>crates/consensus/src/value.rs\<close>,
  \<^verbatim>\<open>vote.rs\<close>, \<^verbatim>\<open>proposal.rs\<close>), the bytes that are signed (\<^verbatim>\<open>signing.rs\<close>) and
  the gossip format (\<^verbatim>\<open>network_bridge.rs\<close>). The lemmas show that the signed bytes of a vote
  determine it, that the three kinds of message are separated, that gossip loses nothing, and what a
  proposal signature covers.

  Ed25519, borsh and the conversion of a round from \<^verbatim>\<open>i64\<close> belong to other crates: they are the
  fields of \<open>wire_ext\<close>. A signature is its 64 bytes.
\<close>

section \<open>Values, votes, proposals\<close>

datatype vote_type = Prevote | Precommit

datatype 'a nil_or_val = NoValue | Val 'a

record chain_vote =
  vt_height :: height
  vt_round :: round
  vt_value :: "hash256 nil_or_val"
  vt_type :: vote_type
  vt_address :: address

record chain_proposal =
  cp_height :: height
  cp_round :: round
  cp_block :: block
  cp_pol_round :: round
  cp_address :: address

text \<open>The identifier of a value is the hash of the header.\<close>

definition value_id :: "ext \<Rightarrow> block \<Rightarrow> hash256" where
  "value_id X b = header_hash X (bl_header b)"

definition value_less :: "ext \<Rightarrow> block \<Rightarrow> block \<Rightarrow> bool" where
  "value_less X a b \<longleftrightarrow> value_id X a < value_id X b"

definition new_prevote :: "height \<Rightarrow> round \<Rightarrow> hash256 nil_or_val \<Rightarrow> address \<Rightarrow> chain_vote" where
  "new_prevote h r v a =
     \<lparr>vt_height = h, vt_round = r, vt_value = v, vt_type = Prevote, vt_address = a\<rparr>"

definition new_precommit :: "height \<Rightarrow> round \<Rightarrow> hash256 nil_or_val \<Rightarrow> address \<Rightarrow> chain_vote" where
  "new_precommit h r v a =
     \<lparr>vt_height = h, vt_round = r, vt_value = v, vt_type = Precommit, vt_address = a\<rparr>"

definition new_proposal :: "height \<Rightarrow> round \<Rightarrow> block \<Rightarrow> round \<Rightarrow> address \<Rightarrow> chain_proposal" where
  "new_proposal h r b pol a =
     \<lparr>cp_height = h, cp_round = r, cp_block = b, cp_pol_round = pol, cp_address = a\<rparr>"

section \<open>Signed bytes\<close>

definition DOMAIN_VOTE :: bytes where "DOMAIN_VOTE = str_bytes ''arknet-consensus-vote-v1''"

definition DOMAIN_PROPOSAL :: bytes where
  "DOMAIN_PROPOSAL = str_bytes ''arknet-consensus-proposal-v1''"

definition DOMAIN_PROPOSAL_PART :: bytes where
  "DOMAIN_PROPOSAL_PART = str_bytes ''arknet-consensus-proposal-part-v1''"

text \<open>\<^verbatim>\<open>i64::to_be_bytes\<close>.\<close>

definition i64_be_bytes :: "int \<Rightarrow> bytes" where
  "i64_be_bytes n = word_bytes (of_int n :: 64 word)"

fun vote_type_byte :: "vote_type \<Rightarrow> byte" where
  "vote_type_byte Prevote = 1"
| "vote_type_byte Precommit = 2"

definition encode_vote :: "chain_vote \<Rightarrow> bytes" where
  "encode_vote v =
     u64_be_bytes (vt_height v) @ i64_be_bytes (as_i64 (vt_round v)) @ [vote_type_byte (vt_type v)] @
     (case vt_value v of NoValue \<Rightarrow> [0] | Val i \<Rightarrow> 1 # word_bytes i) @ word_bytes (vt_address v)"

definition encode_proposal :: "ext \<Rightarrow> chain_proposal \<Rightarrow> bytes" where
  "encode_proposal X p =
     u64_be_bytes (cp_height p) @ i64_be_bytes (as_i64 (cp_round p)) @
     i64_be_bytes (as_i64 (cp_pol_round p)) @ word_bytes (value_id X (cp_block p)) @
     word_bytes (cp_address p)"

definition encode_proposal_part :: "unit \<Rightarrow> bytes" where
  "encode_proposal_part part = []"

definition digest_raw :: "ext \<Rightarrow> bytes \<Rightarrow> bytes \<Rightarrow> hash256" where
  "digest_raw X domain body = x_blake3 X (domain @ body)"

section \<open>Gossip format\<close>

record wire_vote =
  wv_height :: nat
  wv_round :: int
  wv_vote_type :: byte
  wv_value_tag :: byte
  wv_value :: hash256
  wv_address :: address
  wv_signature :: "512 word"

record wire_proposal =
  wp_height :: nat
  wp_round :: int
  wp_pol_round :: int
  wp_address :: address
  wp_block :: bytes
  wp_signature :: "512 word"

record wire_ext =
  wx_sign :: "hash256 \<Rightarrow> 512 word"
  wx_verify :: "bytes \<Rightarrow> hash256 \<Rightarrow> 512 word \<Rightarrow> bool"
  wx_round :: "int \<Rightarrow> round"
  wx_borsh_vote :: "wire_vote \<Rightarrow> bytes"
  wx_unborsh_vote :: "bytes \<Rightarrow> wire_vote option"
  wx_borsh_proposal :: "wire_proposal \<Rightarrow> bytes"
  wx_unborsh_proposal :: "bytes \<Rightarrow> wire_proposal option"
  wx_unborsh_block :: "bytes \<Rightarrow> block option"

datatype wire_error = Decode | Invariant | BadValueTag byte | BadVoteType byte

definition sign_vote :: "ext \<Rightarrow> wire_ext \<Rightarrow> chain_vote \<Rightarrow> chain_vote \<times> 512 word" where
  "sign_vote X W v = (v, wx_sign W (digest_raw X DOMAIN_VOTE (encode_vote v)))"

definition verify_signed_vote ::
    "ext \<Rightarrow> wire_ext \<Rightarrow> chain_vote \<Rightarrow> 512 word \<Rightarrow> bytes \<Rightarrow> bool" where
  "verify_signed_vote X W v s pk = wx_verify W pk (digest_raw X DOMAIN_VOTE (encode_vote v)) s"

definition sign_proposal :: "ext \<Rightarrow> wire_ext \<Rightarrow> chain_proposal \<Rightarrow> chain_proposal \<times> 512 word" where
  "sign_proposal X W p = (p, wx_sign W (digest_raw X DOMAIN_PROPOSAL (encode_proposal X p)))"

definition verify_signed_proposal ::
    "ext \<Rightarrow> wire_ext \<Rightarrow> chain_proposal \<Rightarrow> 512 word \<Rightarrow> bytes \<Rightarrow> bool" where
  "verify_signed_proposal X W p s pk =
     wx_verify W pk (digest_raw X DOMAIN_PROPOSAL (encode_proposal X p)) s"

definition wire_of_vote :: "chain_vote \<times> 512 word \<Rightarrow> wire_vote" where
  "wire_of_vote sv = (case sv of (v, s) \<Rightarrow>
     \<lparr>wv_height = vt_height v, wv_round = as_i64 (vt_round v),
      wv_vote_type = vote_type_byte (vt_type v),
      wv_value_tag = (case vt_value v of NoValue \<Rightarrow> 0 | Val _ \<Rightarrow> 1),
      wv_value = (case vt_value v of NoValue \<Rightarrow> 0 | Val i \<Rightarrow> i),
      wv_address = vt_address v, wv_signature = s\<rparr>)"

definition encode_signed_vote :: "wire_ext \<Rightarrow> chain_vote \<times> 512 word \<Rightarrow> bytes" where
  "encode_signed_vote W sv = wx_borsh_vote W (wire_of_vote sv)"

definition wire_of_proposal :: "ext \<Rightarrow> chain_proposal \<times> 512 word \<Rightarrow> wire_proposal" where
  "wire_of_proposal X sp = (case sp of (p, s) \<Rightarrow>
     \<lparr>wp_height = cp_height p, wp_round = as_i64 (cp_round p), wp_pol_round = as_i64 (cp_pol_round p),
      wp_address = cp_address p, wp_block = x_borsh_block X (cp_block p), wp_signature = s\<rparr>)"

definition encode_signed_proposal :: "ext \<Rightarrow> wire_ext \<Rightarrow> chain_proposal \<times> 512 word \<Rightarrow> bytes" where
  "encode_signed_proposal X W sp = wx_borsh_proposal W (wire_of_proposal X sp)"

definition decode_signed_vote ::
    "wire_ext \<Rightarrow> bytes \<Rightarrow> (wire_error, chain_vote \<times> 512 word) result" where
  "decode_signed_vote W bs =
     (case wx_unborsh_vote W bs of None \<Rightarrow> Err Decode | Some wire \<Rightarrow>
        rbind (if wv_vote_type wire = 1 then Ok Prevote
               else if wv_vote_type wire = 2 then Ok Precommit
               else Err (BadVoteType (wv_vote_type wire))) (\<lambda>vote_type.
        rbind (if wv_value_tag wire = 0
               then (if wv_value wire \<noteq> 0 then Err Invariant else Ok NoValue)
               else if wv_value_tag wire = 1 then Ok (Val (wv_value wire))
               else Err (BadValueTag (wv_value_tag wire))) (\<lambda>v.
        Ok (\<lparr>vt_height = wv_height wire, vt_round = wx_round W (wv_round wire), vt_value = v,
             vt_type = vote_type, vt_address = wv_address wire\<rparr>, wv_signature wire))))"

definition decode_signed_proposal ::
    "wire_ext \<Rightarrow> bytes \<Rightarrow> (wire_error, chain_proposal \<times> 512 word) result" where
  "decode_signed_proposal W bs =
     (case wx_unborsh_proposal W bs of None \<Rightarrow> Err Decode | Some wire \<Rightarrow>
      (case wx_unborsh_block W (wp_block wire) of None \<Rightarrow> Err Decode | Some b \<Rightarrow>
        Ok (\<lparr>cp_height = wp_height wire, cp_round = wx_round W (wp_round wire), cp_block = b,
             cp_pol_round = wx_round W (wp_pol_round wire), cp_address = wp_address wire\<rparr>,
            wp_signature wire)))"

definition TOPIC_CONSENSUS_VOTE :: string where
  "TOPIC_CONSENSUS_VOTE = ''arknet/consensus/vote/1''"

definition TOPIC_BLOCK_PROP :: string where
  "TOPIC_BLOCK_PROP = ''arknet/block/prop/1''"

datatype consensus_msg =
    MsgVote "chain_vote \<times> 512 word"
  | MsgProposal "chain_proposal \<times> 512 word"

definition outbound_message :: "ext \<Rightarrow> wire_ext \<Rightarrow> consensus_msg \<Rightarrow> string \<times> bytes" where
  "outbound_message X W m = (case m of
      MsgVote sv \<Rightarrow> (TOPIC_CONSENSUS_VOTE, encode_signed_vote W sv)
    | MsgProposal sp \<Rightarrow> (TOPIC_BLOCK_PROP, encode_signed_proposal X W sp))"

definition classify_inbound ::
    "wire_ext \<Rightarrow> string \<Rightarrow> bytes \<Rightarrow> (wire_error, consensus_msg) result option" where
  "classify_inbound W topic bs =
     (if topic = TOPIC_CONSENSUS_VOTE
      then Some (rbind (decode_signed_vote W bs) (\<lambda>sv. Ok (MsgVote sv)))
      else if topic = TOPIC_BLOCK_PROP
      then Some (rbind (decode_signed_proposal W bs) (\<lambda>sp. Ok (MsgProposal sp)))
      else None)"

definition pubkey_for_address :: "chain_validator list \<Rightarrow> address \<Rightarrow> bytes option" where
  "pubkey_for_address vs a = map_option cv_public_key (get_by_address a vs)"

section \<open>Lemmas\<close>

definition round_ok :: "round \<Rightarrow> bool" where
  "round_ok r = (case r of NilRound \<Rightarrow> True | Round n \<Rightarrow> n < 2 ^ 32)"

definition vote_ok :: "chain_vote \<Rightarrow> bool" where
  "vote_ok v \<longleftrightarrow> vt_height v < 2 ^ 64 \<and> round_ok (vt_round v)"

lemma length_i64_be_bytes [simp]: "length (i64_be_bytes n) = 8"
  by (simp add: i64_be_bytes_def)

lemma as_i64_inj: "as_i64 r = as_i64 r' \<longleftrightarrow> r = r'"
  by (cases r; cases r') auto

lemma i64_be_bytes_round:
  assumes "round_ok r" "round_ok r'" "i64_be_bytes (as_i64 r) = i64_be_bytes (as_i64 r')"
  shows "r = r'"
proof -
  have "(of_int (as_i64 r) :: 64 word) = of_int (as_i64 r')"
    using assms(3) word_bytes_inj[of "of_int (as_i64 r) :: 64 word" "of_int (as_i64 r')"]
    by (simp add: i64_be_bytes_def)
  then have "sint (of_int (as_i64 r) :: 64 word) = sint (of_int (as_i64 r') :: 64 word)" by simp
  moreover have "sint (of_int (as_i64 q) :: 64 word) = as_i64 q" if "round_ok q" for q
  proof -
    have "- (2 ^ 63) \<le> as_i64 q \<and> as_i64 q < 2 ^ 63" using that by (cases q) (simp_all add: round_ok_def)
    then show ?thesis by (simp add: sint_sbintrunc' signed_take_bit_int_eq_self)
  qed
  ultimately show ?thesis using assms(1,2) by (simp add: as_i64_inj)
qed

lemma vote_type_byte_inj: "vote_type_byte a = vote_type_byte b \<longleftrightarrow> a = b"
  by (cases a; cases b) auto

lemma encode_vote_inj:
  assumes "vote_ok v" "vote_ok w" "encode_vote v = encode_vote w"
  shows "v = w"
proof -
  let ?val = "\<lambda>v. (case vt_value v of NoValue \<Rightarrow> [0] | Val i \<Rightarrow> 1 # word_bytes i) @ word_bytes (vt_address v)"
  have 1: "u64_be_bytes (vt_height v) = u64_be_bytes (vt_height w)"
    "i64_be_bytes (as_i64 (vt_round v)) = i64_be_bytes (as_i64 (vt_round w))"
    "vote_type_byte (vt_type v) = vote_type_byte (vt_type w)" "?val v = ?val w"
    using assms(3) by (auto simp: encode_vote_def)
  have "vt_value v = vt_value w \<and> word_bytes (vt_address v) = word_bytes (vt_address w)"
    using 1(4) by (cases "vt_value v"; cases "vt_value w") (auto dest!: word_bytes_inj[rotated])
  moreover have "vt_address v = vt_address w"
    using calculation word_bytes_inj[of "vt_address v" "vt_address w"] by simp
  moreover have "vt_height v = vt_height w" using 1(1) assms(1,2) u64_be_bytes_inj by (auto simp: vote_ok_def)
  moreover have "vt_round v = vt_round w" using 1(2) assms(1,2) i64_be_bytes_round by (auto simp: vote_ok_def)
  ultimately show ?thesis using 1(3) by (simp add: vote_type_byte_inj)
qed

lemma domains_separate:
  "DOMAIN_VOTE @ a \<noteq> DOMAIN_PROPOSAL @ b" "DOMAIN_VOTE @ a \<noteq> DOMAIN_PROPOSAL_PART @ b"
  "DOMAIN_PROPOSAL @ a \<noteq> DOMAIN_PROPOSAL_PART @ b"
  by (simp_all add: DOMAIN_VOTE_def DOMAIN_PROPOSAL_def DOMAIN_PROPOSAL_PART_def str_bytes_def)

section \<open>Properties\<close>

text \<open>Two votes whose signed bytes agree are the same vote, and the bytes that are hashed for a vote,
  a proposal and a proposal part never agree, so a signature on one kind of message is not one on
  another.\<close>

theorem signed_bytes_identify_vote:
  assumes "vote_ok v" and "vote_ok w"
  shows "(DOMAIN_VOTE @ encode_vote v = DOMAIN_VOTE @ encode_vote w \<longleftrightarrow> v = w) \<and>
    DOMAIN_VOTE @ encode_vote v \<noteq> DOMAIN_PROPOSAL @ encode_proposal X p \<and>
    DOMAIN_VOTE @ encode_vote v \<noteq> DOMAIN_PROPOSAL_PART @ encode_proposal_part u \<and>
    DOMAIN_PROPOSAL @ encode_proposal X p \<noteq> DOMAIN_PROPOSAL_PART @ encode_proposal_part u"
  using encode_vote_inj[OF assms] by (auto simp: domains_separate)

definition sample_vote :: "hash256 nil_or_val \<Rightarrow> chain_vote" where
  "sample_vote v = new_prevote 7 (Round 2) v 9"

lemma sample_vote_ok: "vote_ok (sample_vote v)"
  by (simp add: vote_ok_def sample_vote_def new_prevote_def round_ok_def)

lemma signed_bytes_identify_vote_witness:
  "DOMAIN_VOTE @ encode_vote (sample_vote NoValue) \<noteq> DOMAIN_VOTE @ encode_vote (sample_vote (Val 0))"
proof -
  have "sample_vote NoValue \<noteq> sample_vote (Val 0)" by (simp add: sample_vote_def new_prevote_def)
  with signed_bytes_identify_vote[OF sample_vote_ok sample_vote_ok] show ?thesis by blast
qed

text \<open>C1: a signed vote sent by one node and received by another, through the wire format and the topics, is
  the same vote with the same signature, and verifies exactly when it did before. This needs of the
  libraries that borsh decodes what it encoded and that a round is restored from its \<^verbatim>\<open>i64\<close>.\<close>

theorem vote_survives_gossip:
  assumes "outbound_message X W (MsgVote (v, s)) = (topic, bs)"
    and "wx_unborsh_vote W (wx_borsh_vote W (wire_of_vote (v, s))) = Some (wire_of_vote (v, s))"
    and "wx_round W (as_i64 (vt_round v)) = vt_round v"
  shows "classify_inbound W topic bs = Some (Ok (MsgVote (v, s)))"
proof -
  have b: "topic = TOPIC_CONSENSUS_VOTE" "bs = wx_borsh_vote W (wire_of_vote (v, s))"
    using assms(1) by (auto simp: outbound_message_def encode_signed_vote_def)
  have "decode_signed_vote W bs = Ok (v, s)"
    using assms(2,3) by (cases "vt_type v"; cases "vt_value v")
      (simp_all add: decode_signed_vote_def b(2) wire_of_vote_def)
  then show ?thesis by (simp add: classify_inbound_def b(1))
qed

definition demo_wire :: "wire_vote \<Rightarrow> wire_ext" where
  "demo_wire w =
     \<lparr>wx_sign = (\<lambda>h. ucast h), wx_verify = (\<lambda>pk h s. s = ucast h),
      wx_round = (\<lambda>i. if i < 0 then NilRound else Round (nat i)),
      wx_borsh_vote = (\<lambda>w. word_bytes (wv_value w)), wx_unborsh_vote = (\<lambda>bs. Some w),
      wx_borsh_proposal = (\<lambda>w. wp_block w), wx_unborsh_proposal = (\<lambda>bs. None),
      wx_unborsh_block = (\<lambda>bs. None)\<rparr>"

lemma vote_survives_gossip_witness:
  "\<exists>topic bs. classify_inbound (demo_wire (wire_of_vote (sample_vote (Val 3), 5))) topic bs =
     Some (Ok (MsgVote (sample_vote (Val 3), 5)))"
proof -
  let ?W = "demo_wire (wire_of_vote (sample_vote (Val 3), 5))"
  obtain topic bs where o: "outbound_message X ?W (MsgVote (sample_vote (Val 3), 5)) = (topic, bs)" for X
    by (simp add: outbound_message_def)
  from vote_survives_gossip[OF o] show ?thesis by (auto simp: demo_wire_def sample_vote_def new_prevote_def)
qed

text \<open>The signature of a proposal covers the header of its block and nothing of its transactions: with
  any other body under the same header it verifies all the same, and its value has the same
  identifier.\<close>

lemma proposal_signature_ignores_body:
  "verify_signed_proposal X W (p\<lparr>cp_block := (cp_block p)\<lparr>bl_txs := txs, bl_receipts := rs\<rparr>\<rparr>) s pk =
     verify_signed_proposal X W p s pk \<and>
   value_id X ((cp_block p)\<lparr>bl_txs := txs, bl_receipts := rs\<rparr>) = value_id X (cp_block p)"
  by (simp add: verify_signed_proposal_def encode_proposal_def value_id_def)

end
