(* ===== verification/Engine.thy ===== *)
theory Engine
  imports BlockBuilder ConsensusMessages
begin

text \<open>
  The consensus engine (\<^verbatim>\<open>crates/consensus/src/engine.rs\<close>): the state its task owns, the effects
  it performs for the consensus library, the commit of a decided block, and the reactions to gossip,
  transactions and the clock. The consensus library (malachite) is not part of the repository; which
  effects it asks for, and when, is left open: \<open>engine_step\<close> allows any effect at any time, so an
  invariant of the steps holds whatever the library does. Instants and durations are nanoseconds.
  The lemmas show what a decision may change, and what can keep a decided block from being committed.
\<close>

section \<open>Timeouts\<close>

datatype timeout_kind = TimeoutPropose | TimeoutPrevote | TimeoutPrecommit | TimeoutRebroadcast

record timeout =
  to_kind :: timeout_kind
  to_round :: round

record timeout_config =
  tc_propose :: nat
  tc_prevote :: nat
  tc_precommit :: nat
  tc_rebroadcast :: nat
  tc_per_round_delta :: nat
  tc_block_interval :: nat

definition from_millis :: "nat \<Rightarrow> nat" where
  "from_millis ms = ms * 1000000"

definition timeout_config_default :: timeout_config where
  "timeout_config_default =
     \<lparr>tc_propose = from_millis 3000, tc_prevote = from_millis 1000, tc_precommit = from_millis 1000,
      tc_rebroadcast = from_millis 2000, tc_per_round_delta = from_millis 500,
      tc_block_interval = from_millis 500\<rparr>"

text \<open>\<^verbatim>\<open>Duration::MAX\<close>: the seconds are \<^verbatim>\<open>u64\<close>. Multiplication saturates, addition panics.\<close>

definition DURATION_MAX :: nat where
  "DURATION_MAX = 2 ^ 64 * 1000000000 - 1"

definition duration_for :: "timeout_config \<Rightarrow> timeout \<Rightarrow> ('e, nat) result" where
  "duration_for tc t =
     (let r = ucastn 32 (nat (max (as_i64 (to_round t)) 0));
          base = (case to_kind t of
              TimeoutPropose \<Rightarrow> tc_propose tc | TimeoutPrevote \<Rightarrow> tc_prevote tc
            | TimeoutPrecommit \<Rightarrow> tc_precommit tc | TimeoutRebroadcast \<Rightarrow> tc_rebroadcast tc);
          d = base + min (tc_per_round_delta tc * r) DURATION_MAX
      in if d \<le> DURATION_MAX then Ok d else Panic)"

section \<open>State\<close>

record engine_config =
  ec_chain_id :: string
  ec_version :: nat
  ec_initial_height :: height
  ec_validators :: "chain_validator list"
  ec_base_fee :: amount
  ec_gas_limit :: gas
  ec_gas_target :: gas
  ec_local_address :: address
  ec_local_node_id :: node_id
  ec_timeouts :: timeout_config
  ec_genesis_message :: string

record proposed_value =
  pv_height :: height
  pv_round :: round
  pv_valid_round :: round
  pv_proposer :: address
  pv_block :: block

text \<open>Inputs queued for the consensus library. A received value is always marked valid.\<close>

datatype engine_input =
    InStartHeight height "chain_validator list"
  | InVote "chain_vote \<times> 512 word"
  | InProposal "chain_proposal \<times> 512 word"
  | InProposedValue proposed_value
  | InPropose height round block
  | InTimeoutElapsed timeout

record engine =
  en_timeouts :: "(timeout \<times> nat) list"
  en_inputs :: "engine_input list"
  en_height :: height
  en_base_fee :: amount
  en_parent_hash :: hash256
  en_vset_hash :: hash256
  en_drain :: "(height \<times> signed_transaction list) option"
  en_cache :: "block option"
  en_waiting :: bool
  en_heartbeat :: nat
  en_chain :: state
  en_pool :: mempool
  en_sent :: "(string \<times> bytes) list"
  en_events :: "block list"

definition engine_start :: "ext \<Rightarrow> engine_config \<Rightarrow> state \<Rightarrow> nat \<Rightarrow> engine" where
  "engine_start X cfg s now =
     \<lparr>en_timeouts = [], en_inputs = [InStartHeight (ec_initial_height cfg) (ec_validators cfg)],
      en_height = ec_initial_height cfg, en_base_fee = ec_base_fee cfg, en_parent_hash = 0,
      en_vset_hash = x_blake3 X (str_bytes ''genesis-vset''), en_drain = None, en_cache = None,
      en_waiting = False, en_heartbeat = now + from_millis 60000, en_chain = s, en_pool = mp_default,
      en_sent = [], en_events = []\<rparr>"

section \<open>Effects\<close>

record certificate =
  cc_height :: height
  cc_round :: round
  cc_value_id :: hash256

datatype effect =
    ResetTimeouts
  | CancelAllTimeouts
  | CancelTimeout timeout
  | ScheduleTimeout timeout
  | StartRound height round
  | GetValidatorSet height
  | PublishConsensusMsg consensus_msg
  | PublishLivenessMsg
  | RepublishVote "chain_vote \<times> 512 word"
  | RepublishRoundCertificate
  | GetValue height round
  | RestreamProposal
  | SyncValue
  | Decide certificate
  | SignVote chain_vote
  | SignProposal chain_proposal
  | VerifySignature consensus_msg bytes
  | VerifyCommitCertificate
  | VerifyPolkaCertificate
  | VerifyRoundCertificate
  | WalAppend
  | ExtendVote
  | VerifyVoteExtension

datatype resume =
    ResumeUnit
  | ResumeValidatorSet "chain_validator list"
  | ResumeVote "chain_vote \<times> 512 word"
  | ResumeProposal "chain_proposal \<times> 512 word"
  | ResumeVerdict bool
  | ResumeVerified
  | ResumeNoExtension

text \<open>The readings of the clocks an effect may take: the instant, the wall clock of a new header, and
  the instant after the pause of a decision.\<close>

record clock =
  ck_now :: nat
  ck_wall_ms :: timestamp
  ck_after :: nat

definition build_params_for :: "engine_config \<Rightarrow> engine \<Rightarrow> height \<Rightarrow> build_params" where
  "build_params_for cfg e h =
     \<lparr>bp_chain_id = ec_chain_id cfg, bp_version = ec_version cfg, bp_parent_hash = en_parent_hash e,
      bp_validator_set_hash = en_vset_hash e, bp_proposer = ec_local_node_id cfg,
      bp_base_fee = en_base_fee e, bp_gas_limit = ec_gas_limit cfg,
      bp_bytes_budget = DEFAULT_BLOCK_BYTES_BUDGET,
      bp_genesis_message = (if h = 1 then ec_genesis_message cfg else [])\<rparr>"

text \<open>The builder drains the pool before it can fail, so a failed build leaves the drained pool.\<close>

definition on_get_value ::
    "ext \<Rightarrow> engine_config \<Rightarrow> clock \<Rightarrow> height \<Rightarrow> round \<Rightarrow> engine \<Rightarrow>
     (unit, engine \<times> engine_input list) result" where
  "on_get_value X cfg ck h r e =
     (let params = build_params_for cfg e h
      in case build_block X (en_chain e) (en_pool e) h params (ck_wall_ms ck) of
        Ok (built, mp) \<Rightarrow>
          Ok (e\<lparr>en_pool := mp, en_drain := Some (h, bb_drained built),
                en_cache := Some (bb_block built)\<rparr>, [InPropose h r (bb_block built)])
      | Err _ \<Rightarrow>
          Ok (e\<lparr>en_pool := snd (snd (snd (drain_for_block (bp_gas_limit params) (bp_bytes_budget params)
                                            (en_pool e))))\<rparr>, [])
      | Panic \<Rightarrow> Panic)"

definition apply_commit ::
    "ext \<Rightarrow> engine_config \<Rightarrow> block \<Rightarrow> engine \<Rightarrow> (commit_error, engine) result" where
  "apply_commit X cfg b e =
     rbind (commit_block X (en_chain e) (en_pool e) b) (\<lambda>(s', mp', rep).
       Ok (e\<lparr>en_chain := s', en_pool := mp', en_height := bh_height (bl_header b),
             en_parent_hash := header_hash X (bl_header b),
             en_base_fee := (case next_base_fee (bh_base_fee (bl_header b)) (cr_gas_used rep)
                                    (ec_gas_target cfg) of
                               Ok f \<Rightarrow> f | _ \<Rightarrow> bh_base_fee (bl_header b)),
             en_events := en_events e @ [b]\<rparr>))"

definition commit_decided ::
    "ext \<Rightarrow> engine_config \<Rightarrow> certificate \<Rightarrow> engine \<Rightarrow> (unit, engine) result" where
  "commit_decided X cfg cert e =
     (case en_cache e of
        Some b \<Rightarrow>
          let e0 = e\<lparr>en_cache := None\<rparr>
          in if bh_height (bl_header b) = cc_height cert \<and> header_hash X (bl_header b) = cc_value_id cert
             then (case apply_commit X cfg b e0 of Ok e1 \<Rightarrow> Ok e1 | Err _ \<Rightarrow> Ok e0 | Panic \<Rightarrow> Panic)
             else Ok e0
      | None \<Rightarrow> Ok e)"

definition on_decide ::
    "ext \<Rightarrow> engine_config \<Rightarrow> clock \<Rightarrow> certificate \<Rightarrow> engine \<Rightarrow>
     (unit, engine \<times> engine_input list) result" where
  "on_decide X cfg ck cert e =
     rbind (commit_decided X cfg cert e) (\<lambda>e1.
     let e2 = (case en_drain e1 of
                 Some (h, _) \<Rightarrow> if h = cc_height cert then e1\<lparr>en_drain := None\<rparr> else e1
               | None \<Rightarrow> e1);
         single_validator = validator_count (ec_validators cfg) \<le> 1
     in if \<not> mp_is_empty (en_pool e2) \<or> \<not> single_validator
        then rbind (uadd 64 (cc_height cert) 1) (\<lambda>next_h.
             Ok (e2\<lparr>en_waiting := False\<rparr>, [InStartHeight next_h (ec_validators cfg)]))
        else Ok (e2\<lparr>en_waiting := True, en_heartbeat := ck_after ck + from_millis 60000\<rparr>, []))"

definition publish :: "string \<times> bytes \<Rightarrow> engine \<Rightarrow> engine" where
  "publish m e = e\<lparr>en_sent := en_sent e @ [m]\<rparr>"

definition cancel_timeout :: "timeout \<Rightarrow> engine \<Rightarrow> engine" where
  "cancel_timeout t e = e\<lparr>en_timeouts := filter (\<lambda>p. fst p \<noteq> t) (en_timeouts e)\<rparr>"

definition schedule_timeout :: "engine_config \<Rightarrow> clock \<Rightarrow> timeout \<Rightarrow> engine \<Rightarrow> (unit, engine) result" where
  "schedule_timeout cfg ck t e =
     rbind (duration_for (ec_timeouts cfg) t) (\<lambda>d.
     let e1 = cancel_timeout t e
     in Ok (e1\<lparr>en_timeouts := en_timeouts e1 @ [(t, ck_now ck + d)]\<rparr>))"

definition verify_msg :: "ext \<Rightarrow> wire_ext \<Rightarrow> consensus_msg \<Rightarrow> bytes \<Rightarrow> bool" where
  "verify_msg X W m pk = (case m of
      MsgVote (v, s) \<Rightarrow> verify_signed_vote X W v s pk
    | MsgProposal (p, s) \<Rightarrow> verify_signed_proposal X W p s pk)"

fun handle_effect ::
    "ext \<Rightarrow> wire_ext \<Rightarrow> engine_config \<Rightarrow> clock \<Rightarrow> effect \<Rightarrow> engine \<Rightarrow>
     (unit, engine \<times> resume \<times> engine_input list) result" where
  "handle_effect X W cfg ck ResetTimeouts e = Ok (e\<lparr>en_timeouts := []\<rparr>, ResumeUnit, [])"
| "handle_effect X W cfg ck CancelAllTimeouts e = Ok (e\<lparr>en_timeouts := []\<rparr>, ResumeUnit, [])"
| "handle_effect X W cfg ck (CancelTimeout t) e = Ok (cancel_timeout t e, ResumeUnit, [])"
| "handle_effect X W cfg ck (ScheduleTimeout t) e =
     rbind (schedule_timeout cfg ck t e) (\<lambda>e'. Ok (e', ResumeUnit, []))"
| "handle_effect X W cfg ck (StartRound h r) e = Ok (e, ResumeUnit, [])"
| "handle_effect X W cfg ck (GetValidatorSet h) e = Ok (e, ResumeValidatorSet (ec_validators cfg), [])"
| "handle_effect X W cfg ck (PublishConsensusMsg m) e =
     Ok (publish (outbound_message X W m) e, ResumeUnit, [])"
| "handle_effect X W cfg ck PublishLivenessMsg e = Ok (e, ResumeUnit, [])"
| "handle_effect X W cfg ck (RepublishVote sv) e =
     Ok (publish (TOPIC_CONSENSUS_VOTE, encode_signed_vote W sv) e, ResumeUnit, [])"
| "handle_effect X W cfg ck RepublishRoundCertificate e = Ok (e, ResumeUnit, [])"
| "handle_effect X W cfg ck (GetValue h r) e =
     rbind (on_get_value X cfg ck h r e) (\<lambda>(e', fs). Ok (e', ResumeUnit, fs))"
| "handle_effect X W cfg ck RestreamProposal e = Ok (e, ResumeUnit, [])"
| "handle_effect X W cfg ck SyncValue e = Ok (e, ResumeUnit, [])"
| "handle_effect X W cfg ck (Decide cert) e =
     rbind (on_decide X cfg ck cert e) (\<lambda>(e', fs). Ok (e', ResumeUnit, fs))"
| "handle_effect X W cfg ck (SignVote v) e = Ok (e, ResumeVote (sign_vote X W v), [])"
| "handle_effect X W cfg ck (SignProposal p) e = Ok (e, ResumeProposal (sign_proposal X W p), [])"
| "handle_effect X W cfg ck (VerifySignature m pk) e = Ok (e, ResumeVerdict (verify_msg X W m pk), [])"
| "handle_effect X W cfg ck VerifyCommitCertificate e = Ok (e, ResumeVerified, [])"
| "handle_effect X W cfg ck VerifyPolkaCertificate e = Ok (e, ResumeVerified, [])"
| "handle_effect X W cfg ck VerifyRoundCertificate e = Ok (e, ResumeVerified, [])"
| "handle_effect X W cfg ck WalAppend e = Ok (e, ResumeUnit, [])"
| "handle_effect X W cfg ck ExtendVote e = Ok (e, ResumeNoExtension, [])"
| "handle_effect X W cfg ck VerifyVoteExtension e = Ok (e, ResumeVerified, [])"

section \<open>The event loop\<close>

definition push_input :: "engine_input \<Rightarrow> engine \<Rightarrow> engine" where
  "push_input i e = e\<lparr>en_inputs := en_inputs e @ [i]\<rparr>"

text \<open>A gossiped proposal for the current or the next height replaces the cached block, before any
  signature is looked at.\<close>

definition on_proposal :: "chain_proposal \<times> 512 word \<Rightarrow> engine \<Rightarrow> (unit, engine) result" where
  "on_proposal sp e =
     (let p = fst sp;
          pv = \<lparr>pv_height = cp_height p, pv_round = cp_round p, pv_valid_round = cp_pol_round p,
                pv_proposer = cp_address p, pv_block = cp_block p\<rparr>
      in rbind (if cp_height p = en_height e then Ok True
                else rbind (uadd 64 (en_height e) 1) (\<lambda>n. Ok (cp_height p = n))) (\<lambda>current.
         let e1 = (if current then e\<lparr>en_cache := Some (cp_block p)\<rparr> else e)
         in Ok (push_input (InProposedValue pv) (push_input (InProposal sp) e1))))"

definition on_gossip :: "wire_ext \<Rightarrow> string \<Rightarrow> bytes \<Rightarrow> engine \<Rightarrow> (unit, engine) result" where
  "on_gossip W topic bs e =
     (case classify_inbound W topic bs of
        Some (Ok (MsgVote sv)) \<Rightarrow> Ok (push_input (InVote sv) e)
      | Some (Ok (MsgProposal sp)) \<Rightarrow> on_proposal sp e
      | _ \<Rightarrow> Ok e)"

definition on_submit_tx ::
    "ext \<Rightarrow> signed_transaction \<Rightarrow> engine \<Rightarrow> (engine \<times> (mempool_error, hash256) result) option" where
  "on_submit_tx X stx e =
     map_option (\<lambda>(mp, r). (e\<lparr>en_pool := mp\<rparr>, r)) (mp_insert X stx (en_pool e))"

definition on_timer :: "nat \<Rightarrow> engine \<Rightarrow> engine" where
  "on_timer now e =
     (let (expired, still_pending) = List.partition (\<lambda>p. snd p \<le> now) (en_timeouts e)
      in fold (\<lambda>p. push_input (InTimeoutElapsed (fst p))) expired (e\<lparr>en_timeouts := still_pending\<rparr>))"

definition idle_check :: "engine_config \<Rightarrow> nat \<Rightarrow> engine \<Rightarrow> (unit, engine) result" where
  "idle_check cfg now e =
     (if en_waiting e \<and> (\<not> mp_is_empty (en_pool e) \<or> en_heartbeat e \<le> now)
      then rbind (uadd 64 (en_height e) 1) (\<lambda>next_h.
           Ok (push_input (InStartHeight next_h (ec_validators cfg)) (e\<lparr>en_waiting := False\<rparr>)))
      else Ok e)"

definition next_deadline :: "nat \<Rightarrow> engine \<Rightarrow> nat" where
  "next_deadline now e =
     (if en_waiting e then now + from_millis 100
      else if en_timeouts e = [] then now + from_millis 3600000
      else Min (set (map snd (en_timeouts e))))"

section \<open>Steps\<close>

text \<open>\<open>P\<close> says which transactions are submitted.\<close>

inductive engine_step ::
    "ext \<Rightarrow> wire_ext \<Rightarrow> engine_config \<Rightarrow> (signed_transaction \<Rightarrow> bool) \<Rightarrow> engine \<Rightarrow> engine \<Rightarrow> bool"
  for X W cfg P where
  effect: "handle_effect X W cfg ck eff e = Ok (e', r, fs) \<Longrightarrow>
     engine_step X W cfg P e (e'\<lparr>en_inputs := en_inputs e' @ fs\<rparr>)"
| feed: "en_inputs e = i # rest \<Longrightarrow> engine_step X W cfg P e (e\<lparr>en_inputs := rest\<rparr>)"
| gossip: "on_gossip W topic bs e = Ok e' \<Longrightarrow> engine_step X W cfg P e e'"
| timer: "engine_step X W cfg P e (on_timer now e)"
| idle: "idle_check cfg now e = Ok e' \<Longrightarrow> engine_step X W cfg P e e'"
| submit: "P stx \<Longrightarrow> on_submit_tx X stx e = Some (e', r) \<Longrightarrow> engine_step X W cfg P e e'"

text \<open>What a step leaves alone: only an effect touches the chain, only an effect or a submission the
  pool.\<close>

lemma push_input_fields [simp]:
  "en_timeouts (push_input i e) = en_timeouts e" "en_chain (push_input i e) = en_chain e"
  "en_pool (push_input i e) = en_pool e" "en_height (push_input i e) = en_height e"
  "en_parent_hash (push_input i e) = en_parent_hash e" "en_events (push_input i e) = en_events e"
  "en_drain (push_input i e) = en_drain e" "en_cache (push_input i e) = en_cache e"
  "en_inputs (push_input i e) = en_inputs e @ [i]"
  by (simp_all add: push_input_def)

text \<open>The part of the state that mirrors the chain.\<close>

definition chain_part :: "engine \<Rightarrow> state \<times> height \<times> hash256 \<times> block list" where
  "chain_part e = (en_chain e, en_height e, en_parent_hash e, en_events e)"

lemma push_expired_fields [simp]:
  fixes ps :: "(timeout \<times> nat) list"
  defines "push \<equiv> fold (\<lambda>p. push_input (InTimeoutElapsed (fst p))) ps"
  shows "en_chain (push d) = en_chain d" "en_height (push d) = en_height d"
    "en_parent_hash (push d) = en_parent_hash d" "en_events (push d) = en_events d"
    "en_pool (push d) = en_pool d" "en_timeouts (push d) = en_timeouts d"
  unfolding push_def by (induction ps arbitrary: d) auto

lemma on_timer_fields:
  "chain_part (on_timer now e) = chain_part e" "en_pool (on_timer now e) = en_pool e"
  "en_timeouts (on_timer now e) = filter (\<lambda>p. now < snd p) (en_timeouts e)"
  by (simp_all add: on_timer_def chain_part_def o_def not_le)

lemma on_gossip_fields:
  assumes "on_gossip W topic bs e = Ok e'"
  shows "chain_part e' = chain_part e \<and> en_pool e' = en_pool e \<and> en_timeouts e' = en_timeouts e"
  using assms
  by (auto simp: on_gossip_def on_proposal_def Let_def rbind_Ok_iff chain_part_def
      split: option.splits result.splits consensus_msg.splits if_splits)

lemma idle_check_fields:
  assumes "idle_check cfg now e = Ok e'"
  shows "chain_part e' = chain_part e \<and> en_pool e' = en_pool e \<and> en_timeouts e' = en_timeouts e"
  using assms by (auto simp: idle_check_def rbind_Ok_iff chain_part_def split: if_splits)

lemma on_submit_fields:
  assumes "on_submit_tx X stx e = Some (e', r)"
  shows "chain_part e' = chain_part e \<and> en_timeouts e' = en_timeouts e \<and>
    mp_insert X stx (en_pool e) = Some (en_pool e', r)"
  using assms by (auto simp: on_submit_tx_def chain_part_def)

text \<open>The outcome of a decision: nothing but the cache changes, or the cached block is committed.\<close>

lemma commit_decided_cases:
  assumes "commit_decided X cfg cert e = Ok e1"
  obtains (kept) "e1 = e\<lparr>en_cache := None\<rparr>"
  | (committed) b s' mp' rep where "en_cache e = Some b" "bh_height (bl_header b) = cc_height cert"
      "header_hash X (bl_header b) = cc_value_id cert"
      "commit_block X (en_chain e) (en_pool e) b = Ok (s', mp', rep)"
      "apply_commit X cfg b (e\<lparr>en_cache := None\<rparr>) = Ok e1"
      "chain_part e1 = (s', cc_height cert, cc_value_id cert, en_events e @ [b])"
      "en_pool e1 = mp'" "en_cache e1 = None" "en_drain e1 = en_drain e" "en_timeouts e1 = en_timeouts e"
proof (cases "en_cache e")
  case None
  then have "e1 = e" "en_cache e = None" using assms by (auto simp: commit_decided_def)
  then show ?thesis using kept by (cases e) simp
next
  case (Some b)
  show ?thesis
  proof (cases "bh_height (bl_header b) = cc_height cert \<and> header_hash X (bl_header b) = cc_value_id cert")
    case False
    then show ?thesis using assms Some kept by (auto simp: commit_decided_def Let_def)
  next
    case True
    show ?thesis
    proof (cases "apply_commit X cfg b (e\<lparr>en_cache := None\<rparr>)")
      case (Err x)
      then show ?thesis using assms Some True kept by (simp add: commit_decided_def Let_def)
    next
      case Panic
      then show ?thesis using assms Some True by (simp add: commit_decided_def Let_def)
    next
      case (Ok e2)
      then have e: "e1 = e2" using assms Some True by (simp add: commit_decided_def Let_def)
      obtain s' mp' rep where c: "commit_block X (en_chain e) (en_pool e) b = Ok (s', mp', rep)"
        using Ok by (auto simp: apply_commit_def rbind_Ok_iff)
      show ?thesis
        by (rule committed[OF Some _ _ c]) (use Ok c True e in \<open>auto simp: apply_commit_def chain_part_def\<close>)
    qed
  qed
qed

lemma on_decide_cases:
  assumes "on_decide X cfg ck cert e = Ok (e', fs)"
  obtains e1 where "commit_decided X cfg cert e = Ok e1" "chain_part e' = chain_part e1"
    "en_pool e' = en_pool e1" "en_cache e' = en_cache e1" "en_timeouts e' = en_timeouts e1"
    "validator_count (ec_validators cfg) > 1 \<Longrightarrow>
       fs = [InStartHeight (cc_height cert + 1) (ec_validators cfg)]"
    "\<And>h txs. en_drain e' = Some (h, txs) \<Longrightarrow> h \<noteq> cc_height cert"
proof -
  obtain e1 where c: "commit_decided X cfg cert e = Ok e1"
    using assms by (auto simp: on_decide_def rbind_Ok_iff)
  define e2 where "e2 = (case en_drain e1 of Some (h, _) \<Rightarrow> if h = cc_height cert then e1\<lparr>en_drain := None\<rparr> else e1
       | None \<Rightarrow> e1)"
  have e2: "chain_part e2 = chain_part e1 \<and> en_pool e2 = en_pool e1 \<and> en_cache e2 = en_cache e1 \<and>
      en_timeouts e2 = en_timeouts e1 \<and> (\<forall>h txs. en_drain e2 = Some (h, txs) \<longrightarrow> h \<noteq> cc_height cert)"
    by (auto simp: e2_def chain_part_def split: option.splits)
  have r: "(if \<not> mp_is_empty (en_pool e2) \<or> \<not> validator_count (ec_validators cfg) \<le> 1
        then rbind (uadd 64 (cc_height cert) 1) (\<lambda>next_h.
             Ok (e2\<lparr>en_waiting := False\<rparr>, [InStartHeight next_h (ec_validators cfg)]))
        else Ok (e2\<lparr>en_waiting := True, en_heartbeat := ck_after ck + from_millis 60000\<rparr>, [])) =
      (Ok (e', fs) :: (unit, _) result)"
    using assms unfolding on_decide_def Let_def c rbind.simps e2_def[symmetric] .
  show thesis
    by (rule that[OF c]) (use r e2 in \<open>auto simp: chain_part_def rbind_Ok_iff uadd_def split: if_splits\<close>)
qed

end
