(* ===== verification/EngineSafety.thy ===== *)
theory EngineSafety
  imports Engine
begin

text \<open>
  Invariants and safety of the consensus engine (theory \<open>Engine\<close>): its view of the chain follows the
  last committed block, a decision commits nothing but the certified header, and three ways in which a
  decision or a transaction gets lost: a gossiped proposal can take the place of the decided block, its
  body can be exchanged, and transactions drained for a proposal do not come back.
\<close>

section \<open>The view of the chain\<close>

definition view_ok :: "ext \<Rightarrow> state \<Rightarrow> height \<Rightarrow> state \<times> height \<times> hash256 \<times> block list \<Rightarrow> bool" where
  "view_ok X s0 h0 v = (case v of (s, h, parent, events) \<Rightarrow> state_ok s \<and>
     (if events = [] then s = s0 \<and> h = h0 \<and> parent = 0
      else let b = last events
           in h = bh_height (bl_header b) \<and> parent = header_hash X (bl_header b) \<and>
              state_root X s = bh_state_root (bl_header b) \<and> st_current_height s = Some h \<and>
              st_get_block s h = Some b))"

definition engine_inv :: "ext \<Rightarrow> state \<Rightarrow> height \<Rightarrow> engine \<Rightarrow> bool" where
  "engine_inv X s0 h0 e \<longleftrightarrow> view_ok X s0 h0 (chain_part e) \<and> distinct (map fst (en_timeouts e))"

lemma inputs_irrelevant [simp]:
  "engine_inv X s0 h0 (e\<lparr>en_inputs := is\<rparr>) = engine_inv X s0 h0 e"
  "chain_part (e\<lparr>en_inputs := is\<rparr>) = chain_part e"
  by (simp_all add: engine_inv_def chain_part_def)

lemma decide_view:
  assumes "on_decide X cfg ck cert e = Ok (e', fs)" "view_ok X s0 h0 (chain_part e)"
  shows "view_ok X s0 h0 (chain_part e') \<and> en_timeouts e' = en_timeouts e"
proof -
  obtain e1 where d: "commit_decided X cfg cert e = Ok e1" "chain_part e' = chain_part e1"
    "en_timeouts e' = en_timeouts e1" using on_decide_cases[OF assms(1)] by metis
  from d(1) show ?thesis
  proof (cases rule: commit_decided_cases)
    case kept
    then show ?thesis using assms(2) d by (simp add: chain_part_def)
  next
    case (committed b s' mp' rep)
    have "state_ok (en_chain e)" using assms(2) by (simp add: view_ok_def chain_part_def)
    note c = commit_block_state[OF committed(4) this]
    show ?thesis using c committed(2,3,6,10) d by (simp add: view_ok_def)
  qed
qed

lemma handle_effect_inv:
  assumes "handle_effect X W cfg ck eff e = Ok (e', r, fs)" "engine_inv X s0 h0 e"
  shows "engine_inv X s0 h0 e'"
proof (cases eff)
  case (Decide cert)
  then show ?thesis using assms decide_view by (auto simp: engine_inv_def rbind_Ok_iff)
next
  case (GetValue h r)
  then show ?thesis using assms
    by (auto simp: engine_inv_def rbind_Ok_iff on_get_value_def Let_def chain_part_def split: result.splits)
next
  case (ScheduleTimeout t)
  then obtain d where "en_timeouts e' = filter (\<lambda>p. fst p \<noteq> t) (en_timeouts e) @ [(t, d)]"
    "chain_part e' = chain_part e"
    using assms(1) by (auto simp: rbind_Ok_iff schedule_timeout_def cancel_timeout_def chain_part_def Let_def)
  moreover have "distinct (map fst (filter (\<lambda>p. fst p \<noteq> t) (en_timeouts e)))"
    using assms(2) by (simp add: engine_inv_def distinct_map_filter)
  ultimately show ?thesis using assms(2) by (auto simp: engine_inv_def)
next
  case (CancelTimeout t)
  then show ?thesis using assms
    by (auto simp: engine_inv_def cancel_timeout_def chain_part_def distinct_map_filter)
qed (use assms in \<open>auto simp: engine_inv_def publish_def chain_part_def\<close>)

lemma engine_step_inv:
  "engine_step X W cfg P e e' \<Longrightarrow> engine_inv X s0 h0 e \<Longrightarrow> engine_inv X s0 h0 e'"
proof (induction rule: engine_step.induct)
  case (effect ck eff e e' r fs)
  then show ?case using handle_effect_inv by simp
next
  case (timer e now)
  then show ?case by (simp add: engine_inv_def on_timer_fields distinct_map_filter)
qed (auto simp: engine_inv_def dest: on_gossip_fields idle_check_fields on_submit_fields)

lemma engine_start_inv: "state_ok s \<Longrightarrow> engine_inv X s (ec_initial_height cfg) (engine_start X cfg s now)"
  by (simp add: engine_inv_def view_ok_def chain_part_def engine_start_def)

section \<open>Transactions leave the pool\<close>

lemma contains_remove: "mp_contains h (snd (remove_by_hash h' p)) \<longleftrightarrow> mp_contains h p \<and> h \<noteq> h'"
  by (cases "kv_get (mp_by_hash p) h'")
    (auto simp: mp_contains_def remove_by_hash_fields remove_by_hash_None)

lemma contains_remove_many: "mp_contains h (remove_many hs p) \<Longrightarrow> mp_contains h p"
  unfolding remove_many_def
proof (induction hs arbitrary: p)
  case (Cons h' hs)
  have "mp_contains h (snd (remove_by_hash h' p))" using Cons.IH[of "snd (remove_by_hash h' p)"] Cons.prems by simp
  then show ?case by (simp add: contains_remove)
qed simp

lemma contains_evict:
  assumes "evict h0 fee p = Some y" "mp_contains h (fst y)"
  shows "mp_contains h p"
proof -
  have "\<forall>h. mp_contains h (fst y) \<longrightarrow> mp_contains h p"
  proof (rule evict.raw_induct[where P = "\<lambda>_ _ p y. \<forall>h. mp_contains h (fst y) \<longrightarrow> mp_contains h p", OF _ assms(1)])
    fix ev h1 fee1 and q :: mempool and z
    let ?victim = "fst (last (kv_entries (mp_by_priority q)))"
    let ?q = "snd (remove_by_hash (pk_hash ?victim) q)"
    assume IH: "\<And>h fee p y. ev h fee p = Some y \<Longrightarrow> \<forall>h. mp_contains h (fst y) \<longrightarrow> mp_contains h p"
      and body: "(if mp_len q > mp_max_count q \<or> mp_current_bytes q > mp_max_bytes q then
        (if kv_entries (mp_by_priority q) = [] then Some (q, Ok h1)
         else let victim = ?victim; p' = snd (remove_by_hash (pk_hash victim) q)
              in if pk_hash victim = h1
                 then Some (p', Err (UnderpricedReplacement (sat_add 64 (pk_fee victim) 1) fee1))
                 else ev h1 fee1 p')
      else Some (q, Ok h1)) = Some z"
    have "fst z = q \<or> fst z = ?q \<or> ev h1 fee1 ?q = Some z"
      using body by (auto simp: Let_def split: if_splits)
    then show "\<forall>h. mp_contains h (fst z) \<longrightarrow> mp_contains h q"
      using IH[of h1 fee1 ?q z] by (auto simp: contains_remove)
  qed
  with assms(2) show ?thesis by blast
qed

lemma contains_insert:
  assumes "mp_insert X stx p = Some (p', r)" "mp_contains h p'" "h \<noteq> stx_hash X stx"
  shows "mp_contains h p"
proof -
  have repl: "mp_contains h p1 \<Longrightarrow> mp_contains h p" if "replace_pending a n fee p = Ok p1" for a n fee p1
    using that by (auto simp: replace_pending_def contains_remove split: option.splits if_splits)
  have adm: "mp_contains h (admit (stx_hash X stx) entry p1) \<longleftrightarrow> mp_contains h p1" for entry p1
    using assms(3) by (simp add: mp_contains_def admit_def)
  show ?thesis using assms repl adm
    by (auto simp: mp_insert_def Let_def split: if_splits result.splits prod.splits dest!: contains_evict)
qed

lemma contains_drain: "mp_contains h (snd (snd (snd (drain_for_block g b p)))) \<Longrightarrow> mp_contains h p"
proof (rule ccontr)
  assume a: "mp_contains h (snd (snd (snd (drain_for_block g b p))))" and "\<not> mp_contains h p"
  then have "\<not> mp_contains h (snd (snd (snd (([] :: signed_transaction list), 0 :: nat, 0 :: nat, p))))" by simp
  then have "\<not> mp_contains h (snd (snd (snd (drain_for_block g b p))))"
    unfolding drain_for_block_def
  proof (rule fold_keeps)
    fix x :: "hash256 \<times> nat \<times> nat" and s :: "signed_transaction list \<times> nat \<times> nat \<times> mempool"
    assume n: "\<not> mp_contains h (snd (snd (snd s)))"
    obtain h' :: hash256 and fee sz where x: "x = (h', fee, sz)" by (cases x)
    obtain picked gu bu q where s: "s = (picked, gu, bu, q)" by (cases s)
    have "\<not> mp_contains h (snd (remove_by_hash h' q))" using n by (simp add: contains_remove s)
    then show "\<not> mp_contains h (snd (snd (snd (drain_step g b x s))))"
      using n by (auto simp: x s split: prod.splits option.splits)
  qed
  with a show False by simp
qed

text \<open>What a drain hands out is gone from the pool.\<close>

lemma drained_gone:
  assumes "mempool_ok X mp" "drain_for_block g b mp = (taken, gu, bu, mp')" "tx \<in> set taken"
  shows "\<not> mp_contains (stx_hash X tx) mp'"
proof -
  have "\<forall>tx \<in> set picked'. \<not> mp_contains (stx_hash X tx) p'"
    if "indices_agree X p" "\<forall>tx \<in> set picked. \<not> mp_contains (stx_hash X tx) p"
      "fold (drain_step g b) L (picked, gu, bu, p) = (picked', gu', bu', p')"
    for L picked gu bu p picked' gu' bu' p'
    using that
  proof (induction L arbitrary: picked gu bu p)
    case (Cons x L)
    obtain h fee sz where x: "x = (h, fee, sz)" by (cases x)
    obtain pk gu1 bu1 p1 where s: "drain_step g b x (picked, gu, bu, p) = (pk, gu1, bu1, p1)"
      by (cases "drain_step g b x (picked, gu, bu, p)")
    have "(p1 = p \<and> pk = picked) \<or> (\<exists>e. kv_get (mp_by_hash p) h = Some e \<and>
        p1 = snd (remove_by_hash h p) \<and> pk = picked @ [me_tx e])"
      using s by (cases "kv_get (mp_by_hash p) h")
        (auto simp: x remove_by_hash_def split: if_splits)
    then have "indices_agree X p1 \<and> (\<forall>tx \<in> set pk. \<not> mp_contains (stx_hash X tx) p1)"
    proof (elim disjE exE conjE)
      fix e assume e: "kv_get (mp_by_hash p) h = Some e" "p1 = snd (remove_by_hash h p)" "pk = picked @ [me_tx e]"
      have "h = stx_hash X (me_tx e)" using indices_agreeD(2)[OF Cons.prems(1) e(1)] by (simp add: entry_ok_def)
      then show ?thesis using e Cons.prems(2) remove_agrees[OF Cons.prems(1), of h] by (auto simp: contains_remove)
    qed (use Cons.prems in simp)
    then show ?case using Cons.IH[of p1 pk gu1 bu1] Cons.prems(3) s by simp
  qed simp
  from this[of mp "[]"] show ?thesis using assms by (auto simp: drain_for_block_def mempool_ok_def)
qed

text \<open>A step brings no transaction into the pool but the submitted ones.\<close>

lemma decide_pool:
  assumes "on_decide X cfg ck cert e = Ok (e', fs)" "mp_contains h (en_pool e')"
  shows "mp_contains h (en_pool e)"
proof -
  obtain e1 where d: "commit_decided X cfg cert e = Ok e1" "en_pool e' = en_pool e1"
    using on_decide_cases[OF assms(1)] by metis
  from d(1) show ?thesis
  proof (cases rule: commit_decided_cases)
    case kept
    then show ?thesis using assms(2) d(2) by simp
  next
    case (committed b s' mp' rep)
    from committed(4) have "mp' = remove_many (map (stx_hash X) (bl_txs b)) (en_pool e)"
      by (cases rule: commit_block_cases)
    then show ?thesis using assms(2) d(2) committed(7) contains_remove_many by metis
  qed
qed

lemma build_block_drains:
  assumes "build_block X s mp h params now = Ok (built, mp1)"
  shows "\<exists>gu bu. drain_for_block (bp_gas_limit params) (bp_bytes_budget params) mp =
    (bb_drained built, gu, bu, mp1)"
proof -
  obtain taken gu bu mp' where d: "drain_for_block (bp_gas_limit params) (bp_bytes_budget params) mp =
      (taken, gu, bu, mp')" by (metis prod_cases4)
  with assms have "bb_drained built = taken" "mp1 = mp'"
    by (auto simp: build_block_def rbind_Ok_iff Let_def)
  with d show ?thesis by blast
qed

lemma get_value_pool:
  assumes "on_get_value X cfg ck h r e = Ok (e', fs)"
  shows "en_pool e' = snd (snd (snd (drain_for_block (ec_gas_limit cfg) DEFAULT_BLOCK_BYTES_BUDGET (en_pool e))))"
proof -
  let ?params = "build_params_for cfg e h"
  have lim: "bp_gas_limit ?params = ec_gas_limit cfg" "bp_bytes_budget ?params = DEFAULT_BLOCK_BYTES_BUDGET"
    by (simp_all add: build_params_for_def)
  show ?thesis
  proof (cases "build_block X (en_chain e) (en_pool e) h ?params (ck_wall_ms ck)")
    case (Ok y)
    obtain built mp where y: "y = (built, mp)" by (cases y)
    with Ok assms have "en_pool e' = mp" by (auto simp: on_get_value_def Let_def)
    with build_block_drains[OF Ok[unfolded y]] lim show ?thesis by auto
  qed (use assms lim in \<open>auto simp: on_get_value_def Let_def\<close>)
qed

lemma step_pool:
  assumes "engine_step X W cfg P e e'" "mp_contains h (en_pool e')" "\<forall>stx. P stx \<longrightarrow> stx_hash X stx \<noteq> h"
  shows "mp_contains h (en_pool e)"
  using assms(1,2)
proof (induction rule: engine_step.induct)
  case (effect ck eff e e' r fs)
  show ?case
  proof (cases eff)
    case (Decide cert)
    then show ?thesis using effect decide_pool by (auto simp: rbind_Ok_iff)
  next
    case (GetValue h' r')
    then show ?thesis using effect get_value_pool contains_drain by (fastforce simp: rbind_Ok_iff)
  qed (use effect in \<open>auto simp: rbind_Ok_iff publish_def cancel_timeout_def schedule_timeout_def Let_def\<close>)
next
  case (gossip topic bs e e')
  then show ?case using on_gossip_fields by metis
next
  case (idle now e e')
  then show ?case using idle_check_fields by metis
next
  case (submit stx e e' r)
  then show ?case using on_submit_fields contains_insert assms(3) by metis
qed (simp_all add: on_timer_fields)

lemma run_pool:
  assumes "(engine_step X W cfg P)\<^sup>*\<^sup>* e e'" "mp_contains h (en_pool e')" "\<forall>stx. P stx \<longrightarrow> stx_hash X stx \<noteq> h"
  shows "mp_contains h (en_pool e)"
  using assms by (induction rule: rtranclp_induct) (auto dest: step_pool)

section \<open>A gossiped block is cached\<close>

lemma on_proposal_caches:
  assumes "on_proposal (p, s) e = Ok e1" and "cp_height p = en_height e \<or> cp_height p = en_height e + 1"
  shows "en_cache e1 = Some (cp_block p)" "chain_part e1 = chain_part e" "en_pool e1 = en_pool e"
proof -
  have "(if cp_height p = en_height e then Ok True
      else rbind (uadd 64 (en_height e) 1) (\<lambda>n. Ok (cp_height p = n))) = (Ok True :: (unit, bool) result)"
    using assms by (cases "cp_height p = en_height e") (auto simp: on_proposal_def uadd_def Let_def split: if_splits)
  from assms(1)[unfolded on_proposal_def Let_def fst_conv this]
  have e1: "e1 = push_input (InProposedValue \<lparr>pv_height = cp_height p, pv_round = cp_round p,
      pv_valid_round = cp_pol_round p, pv_proposer = cp_address p, pv_block = cp_block p\<rparr>)
      (push_input (InProposal (p, s)) (e\<lparr>en_cache := Some (cp_block p)\<rparr>))"
    by simp
  show "en_cache e1 = Some (cp_block p)" "chain_part e1 = chain_part e" "en_pool e1 = en_pool e"
    unfolding e1 by (simp_all add: chain_part_def)
qed

text \<open>A decision returns when the commit of the cached block does.\<close>

lemma on_decide_returns:
  assumes "commit_block X (en_chain e) (en_pool e) b = Ok y" "en_cache e = Some b" "cc_height cert + 1 < 2 ^ 64"
  shows "\<exists>e2 fs. on_decide X cfg ck cert e = Ok (e2, fs)"
proof -
  obtain s' mp' rep where y: "y = (s', mp', rep)" by (cases y)
  have "\<exists>e1. commit_decided X cfg cert e = Ok e1"
    using assms(1,2) by (simp add: commit_decided_def apply_commit_def Let_def y)
  then obtain e1 where e1: "commit_decided X cfg cert e = Ok e1" by blast
  have u: "uadd 64 (cc_height cert) 1 = (Ok (cc_height cert + 1) :: (unit, nat) result)"
    using assms(3) by (simp add: uadd_def)
  show ?thesis unfolding on_decide_def e1 rbind.simps Let_def u by simp
qed

section \<open>A transaction added to a decided block\<close>

lemma acct_tree_meta [simp]:
  "acct_tree (set_base_fee f c) = acct_tree c" "acct_tree (set_current_height h c) = acct_tree c"
  "acct_tree (set_vote k v c) = acct_tree c"
  by (simp_all add: acct_tree_def set_base_fee_def set_current_height_def set_vote_def buffer_def)

lemma no_dispute_no_slash:
  "\<forall>tx \<in> set txs. \<nexists>d. stx_tx tx = DisputeTx d \<Longrightarrow> rfold (slash_dispute X) txs c = Ok c"
proof (induction txs)
  case (Cons tx txs)
  have "slash_dispute X tx c = Ok c"
    using Cons.prems by (cases "stx_tx tx") (simp_all add: slash_dispute_def)
  then show ?case using Cons by simp
qed simp

text \<open>The root covers the accounts only, so a transaction that leaves them alone can be appended to the
  body of a block without the replay noticing.\<close>

lemma commit_appended:
  assumes "commit_block X s mp b = Ok (s', mp', rep)" "state_ok s" "\<not> is_epoch_boundary (bh_height (bl_header b))"
    and "rfold (replay_tx X) (bl_txs b) (begin_block s, 0, 0) = Ok (c, g, n)"
    and "apply_tx X c tx = Ok (c', out)" "acct_tree c' = acct_tree c"
    and "\<forall>t \<in> set (tx # bl_txs b). \<nexists>d. stx_tx t = DisputeTx d"
  defines "b' \<equiv> b\<lparr>bl_txs := bl_txs b @ [tx]\<rparr>"
  shows "\<exists>s2 mp2 rep2. commit_block X s mp b' = Ok (s2, mp2, rep2) \<and>
    st_get_block s2 (bh_height (bl_header b)) = Some b' \<and> cf_votes (st_db s2) = cf_votes (view c')"
proof -
  have hdr [simp]: "bl_header b' = bl_header b" by (simp add: b'_def)
  obtain g' n' where "replay_tx X tx (c, g, n) = Ok (c', g', n')"
    using assms(5) by (cases out) (simp_all add: replay_tx_def)
  then have replay: "rfold (replay_tx X) (bl_txs b') (begin_block s, 0, 0) = Ok (c', g', n')"
    using assms(4) by (simp add: b'_def rfold_append)
  have slash: "rfold (slash_dispute X) (bl_txs b) c0 = Ok c0" "rfold (slash_dispute X) (bl_txs b') c0 = Ok c0" for c0
    using no_dispute_no_slash[of "bl_txs b" X c0] no_dispute_no_slash[of "bl_txs b'" X c0] assms(7)
    by (auto simp: b'_def)
  have rot: "epoch_rotation c0 (bl_header b) = Ok c0" for c0
    using assms(3) by (simp add: epoch_rotation_def)
  note run = assms(1)[unfolded commit_block_def Let_def assms(4) slash rot rbind.simps prod.case]
  have "smt_root X (acct_tree c) = bh_state_root (bl_header b)"
    using run by (auto simp: preview_acct_tree split: if_splits)
  then have "\<exists>r. commit_block X s mp b' = Ok r"
    unfolding commit_block_def Let_def replay slash hdr rot rbind.simps prod.case
    using assms(6) by (simp add: preview_acct_tree case_prod_unfold)
  then obtain s2 mp2 rep2 where c2: "commit_block X s mp b' = Ok (s2, mp2, rep2)" by fastforce
  have "cf_votes (st_db s2) = cf_votes (view c')"
    using c2
  proof (cases rule: commit_block_cases)
    case (1 c1 n c2 c3 c4 d)
    have "c3 = c'" using 1(1-3) replay slash rot by simp
    then have "cf_votes (view c4) = cf_votes (view c')" by (simp add: 1(4))
    moreover have "without_blocks (st_db s2) = without_blocks (view c4)" unfolding 1(7) by (simp add: 1(6))
    then have "cf_votes (without_blocks (st_db s2)) = cf_votes (without_blocks (view c4))" by simp
    ultimately show ?thesis by (simp add: without_blocks_def)
  qed
  then show ?thesis using c2 commit_block_state[OF c2 assms(2)] by simp
qed

section \<open>Samples\<close>

definition demo_config :: engine_config where
  "demo_config =
     \<lparr>ec_chain_id = [], ec_version = 1, ec_initial_height = 5, ec_validators = demo_validators [4, 3],
      ec_base_fee = 1, ec_gas_limit = 1000000, ec_gas_target = 500000, ec_local_address = 0,
      ec_local_node_id = 0, ec_timeouts = timeout_config_default, ec_genesis_message = []\<rparr>"

definition demo_engine :: "block option \<Rightarrow> engine" where
  "demo_engine cache = (engine_start demo_ext demo_config (state_open (demo_db [(7, demo_acct 50)])) 0)
     \<lparr>en_cache := cache\<rparr>"

definition demo_cert :: "block \<Rightarrow> certificate" where
  "demo_cert b = \<lparr>cc_height = bh_height (bl_header b), cc_round = Round 0,
     cc_value_id = header_hash demo_ext (bl_header b)\<rparr>"

definition demo_clock :: clock where
  "demo_clock = \<lparr>ck_now = 0, ck_wall_ms = 0, ck_after = 1\<rparr>"

lemma demo_engine_facts [simp]:
  "en_height (demo_engine c) = 5" "en_chain (demo_engine c) = state_open (demo_db [(7, demo_acct 50)])"
  "en_pool (demo_engine c) = mp_default" "en_cache (demo_engine c) = c" "en_drain (demo_engine c) = None"
  "ec_validators demo_config = demo_validators [4, 3]" "ec_initial_height demo_config = 5"
  "ec_gas_limit demo_config = 1000000" "validator_count (demo_validators ps) = length ps"
  by (simp_all add: demo_engine_def engine_start_def demo_config_def validator_count_def demo_validators_def)

section \<open>Properties\<close>

text \<open>C2: in every state the engine reaches, whatever the consensus library asks for and the network
  sends, its height, parent hash and chain are those of the last block it committed, or those it
  started with; the committed state has that block's root and no timeout is pending twice.\<close>

theorem engine_follows_chain:
  assumes "state_ok s" and "(engine_step X W cfg P)\<^sup>*\<^sup>* (engine_start X cfg s now) e"
  shows "state_ok (en_chain e) \<and> distinct (map fst (en_timeouts e)) \<and>
    (if en_events e = [] then en_chain e = s \<and> en_height e = ec_initial_height cfg \<and> en_parent_hash e = 0
     else let b = last (en_events e)
          in en_height e = bh_height (bl_header b) \<and> en_parent_hash e = header_hash X (bl_header b) \<and>
             state_root X (en_chain e) = bh_state_root (bl_header b) \<and>
             st_current_height (en_chain e) = Some (bh_height (bl_header b)) \<and>
             st_get_block (en_chain e) (bh_height (bl_header b)) = Some b)"
proof -
  from assms(2) have "engine_inv X s (ec_initial_height cfg) e"
    by (induction rule: rtranclp_induct) (auto simp: engine_start_inv[OF assms(1)] dest: engine_step_inv)
  then show ?thesis by (auto simp: engine_inv_def view_ok_def chain_part_def Let_def)
qed

lemma engine_follows_chain_witness:
  "state_ok (en_chain (on_timer 9 (engine_start demo_ext demo_config (state_open (demo_db [])) 0)))"
proof -
  let ?e = "engine_start demo_ext demo_config (state_open (demo_db [])) 0"
  have "(engine_step demo_ext (demo_wire w) demo_config (\<lambda>_. True))\<^sup>*\<^sup>* ?e (on_timer 9 ?e)" for w
    by (intro r_into_rtranclp engine_step.timer)
  from engine_follows_chain[OF state_ok_open this] show ?thesis by blast
qed

text \<open>Whether a decision finds the block it certifies, and that block commits.\<close>

definition decision_commits :: "ext \<Rightarrow> certificate \<Rightarrow> engine \<Rightarrow> bool" where
  "decision_commits X cert e \<longleftrightarrow> (\<exists>b r. en_cache e = Some b \<and> bh_height (bl_header b) = cc_height cert \<and>
     header_hash X (bl_header b) = cc_value_id cert \<and> commit_block X (en_chain e) (en_pool e) b = Ok r)"

lemma commit_decided_exact:
  assumes "commit_decided X cfg cert e = Ok e1"
  shows "if decision_commits X cert e
    then \<exists>b s' mp' rep. en_cache e = Some b \<and> bh_height (bl_header b) = cc_height cert \<and>
        header_hash X (bl_header b) = cc_value_id cert \<and> commit_block X (en_chain e) (en_pool e) b = Ok (s', mp', rep) \<and>
        e1 = e\<lparr>en_cache := None, en_chain := s', en_pool := mp', en_height := cc_height cert,
          en_parent_hash := cc_value_id cert, en_base_fee := (case next_base_fee (bh_base_fee (bl_header b))
            (cr_gas_used rep) (ec_gas_target cfg) of Ok f \<Rightarrow> f | _ \<Rightarrow> bh_base_fee (bl_header b)),
          en_events := en_events e @ [b]\<rparr>
    else e1 = e\<lparr>en_cache := None\<rparr>"
proof (cases "en_cache e")
  case None
  then show ?thesis using assms by (simp add: commit_decided_def decision_commits_def)
next
  case (Some b)
  show ?thesis
  proof (cases "bh_height (bl_header b) = cc_height cert \<and> header_hash X (bl_header b) = cc_value_id cert")
    case True
    show ?thesis
    proof (cases "commit_block X (en_chain e) (en_pool e) b")
      case (Ok r)
      obtain s' mp' rep where r: "r = (s', mp', rep)" by (cases r)
      have "decision_commits X cert e" using Some True Ok unfolding r decision_commits_def by blast
      then show ?thesis using assms Some True Ok unfolding r
        by (auto simp: commit_decided_def apply_commit_def Let_def)
    qed (use assms Some True in \<open>auto simp: commit_decided_def apply_commit_def decision_commits_def Let_def\<close>)
  next
    case False
    then show ?thesis using assms Some by (auto simp: commit_decided_def decision_commits_def Let_def split: if_splits)
  qed
qed

lemma on_decide_exact:
  assumes "on_decide X cfg ck cert e = Ok (e', fs)"
  obtains e1 where "commit_decided X cfg cert e = Ok e1"
    "let more = (\<not> mp_is_empty (en_pool e1) \<or> validator_count (ec_validators cfg) > 1)
     in e' = e1\<lparr>en_drain := if map_option fst (en_drain e1) = Some (cc_height cert) then None else en_drain e1,
          en_waiting := \<not> more,
          en_heartbeat := if more then en_heartbeat e1 else ck_after ck + from_millis 60000\<rparr> \<and>
        fs = (if more then [InStartHeight (cc_height cert + 1) (ec_validators cfg)] else [])"
proof -
  obtain e1 where e1: "commit_decided X cfg cert e = Ok e1" using assms by (auto simp: on_decide_def rbind_Ok_iff)
  let ?d = "if map_option fst (en_drain e1) = Some (cc_height cert) then None else en_drain e1"
  define e2 where "e2 = e1\<lparr>en_drain := ?d\<rparr>"
  have e2: "(case en_drain e1 of Some (h, _) \<Rightarrow> if h = cc_height cert then e1\<lparr>en_drain := None\<rparr> else e1 | None \<Rightarrow> e1) = e2"
    by (cases "en_drain e1") (auto simp: e2_def)
  note r = assms[unfolded on_decide_def e1 rbind.simps Let_def e2]
  show thesis
    using r by (intro that[OF e1]) (auto simp: e2_def Let_def rbind_Ok_iff uadd_Ok_iff not_le split: if_splits)
qed

text \<open>C3: Over a chain state whose account tree mirrors its accounts (\<open>state_ok\<close>, which every commit keeps), a
  decision commits the cached block exactly when that block has the certified height and hash and
  the replay accepts it. Then the engine stands at the certified height with the certified hash as parent,
  the rolled base fee and the state of the block's root, which holds the block. Otherwise chain, pool,
  height, parent hash, base fee and events stay as they are. In both cases the cache is emptied, the
  stash of transactions drained for this height is dropped, and the next height is started, unless the pool
  is empty and the node is the only validator: then the engine waits and its heartbeat restarts. Nothing
  else of the engine changes.\<close>

theorem decision_commits_certified:
  assumes "on_decide X cfg ck cert e = Ok (e', fs)" and "state_ok (en_chain e)"
  shows "\<exists>e1. (if decision_commits X cert e
      then \<exists>b s' mp' rep. en_cache e = Some b \<and> bh_height (bl_header b) = cc_height cert \<and>
        header_hash X (bl_header b) = cc_value_id cert \<and> commit_block X (en_chain e) (en_pool e) b = Ok (s', mp', rep) \<and>
        e1 = e\<lparr>en_cache := None, en_chain := s', en_pool := mp', en_height := cc_height cert,
          en_parent_hash := cc_value_id cert, en_base_fee := (case next_base_fee (bh_base_fee (bl_header b))
            (cr_gas_used rep) (ec_gas_target cfg) of Ok f \<Rightarrow> f | _ \<Rightarrow> bh_base_fee (bl_header b)),
          en_events := en_events e @ [b]\<rparr> \<and>
        state_ok s' \<and> state_root X s' = bh_state_root (bl_header b) \<and>
        st_current_height s' = Some (cc_height cert) \<and> st_get_block s' (cc_height cert) = Some b
      else e1 = e\<lparr>en_cache := None\<rparr>) \<and>
    (let more = (\<not> mp_is_empty (en_pool e1) \<or> validator_count (ec_validators cfg) > 1)
     in e' = e1\<lparr>en_drain := if map_option fst (en_drain e) = Some (cc_height cert) then None else en_drain e,
          en_waiting := \<not> more,
          en_heartbeat := if more then en_heartbeat e else ck_after ck + from_millis 60000\<rparr> \<and>
        fs = (if more then [InStartHeight (cc_height cert + 1) (ec_validators cfg)] else []))"
proof -
  obtain e1 where d: "commit_decided X cfg cert e = Ok e1"
    "let more = (\<not> mp_is_empty (en_pool e1) \<or> validator_count (ec_validators cfg) > 1)
     in e' = e1\<lparr>en_drain := if map_option fst (en_drain e1) = Some (cc_height cert) then None else en_drain e1,
          en_waiting := \<not> more,
          en_heartbeat := if more then en_heartbeat e1 else ck_after ck + from_millis 60000\<rparr> \<and>
        fs = (if more then [InStartHeight (cc_height cert + 1) (ec_validators cfg)] else [])"
    using on_decide_exact[OF assms(1)] by blast
  note c = commit_decided_exact[OF d(1)]
  have same: "en_drain e1 = en_drain e" "en_heartbeat e1 = en_heartbeat e" using c by (auto split: if_splits)
  show ?thesis
  proof (cases "decision_commits X cert e")
    case True
    with c obtain b s' mp' rep where b: "en_cache e = Some b" "bh_height (bl_header b) = cc_height cert"
      "header_hash X (bl_header b) = cc_value_id cert" "commit_block X (en_chain e) (en_pool e) b = Ok (s', mp', rep)"
      "e1 = e\<lparr>en_cache := None, en_chain := s', en_pool := mp', en_height := cc_height cert,
          en_parent_hash := cc_value_id cert, en_base_fee := (case next_base_fee (bh_base_fee (bl_header b))
            (cr_gas_used rep) (ec_gas_target cfg) of Ok f \<Rightarrow> f | _ \<Rightarrow> bh_base_fee (bl_header b)),
          en_events := en_events e @ [b]\<rparr>" by auto
    note s = commit_block_state[OF b(4) assms(2)]
    show ?thesis using True b s d(2) unfolding same by (intro exI[of _ e1]) (simp only: if_True, auto)
  next
    case False
    with c d(2) show ?thesis unfolding same by (intro exI[of _ e1]) simp
  qed
qed

theorem decision_commits_certified_witness:
  "\<exists>b e' fs. on_decide demo_ext demo_config demo_clock (demo_cert b) (demo_engine (Some b)) = Ok (e', fs) \<and>
     en_cache e' = None \<and> en_height e' = 5 \<and> en_events e' = [b] \<and>
     en_parent_hash e' = header_hash demo_ext (bl_header b)"
proof -
  obtain root r where c: "commit_block demo_ext (state_open (demo_db [(7, demo_acct 50)])) mp_default
      (demo_block root) = Ok r"
    using demo_commit[of "state_open (demo_db [(7, demo_acct 50)])" mp_default] by auto
  obtain s' mp' rep where r: "r = (s', mp', rep)" by (cases r)
  let ?b = "demo_block root"
  let ?e = "demo_engine (Some ?b)"
  have "\<exists>e' fs. on_decide demo_ext demo_config demo_clock (demo_cert ?b) ?e = Ok (e', fs)"
    using c by (simp add: on_decide_def commit_decided_def demo_cert_def apply_commit_def r Let_def
        demo_block_def demo_engine_def engine_start_def uadd_def)
  then obtain e' fs where d: "on_decide demo_ext demo_config demo_clock (demo_cert ?b) ?e = Ok (e', fs)" by blast
  have dc: "decision_commits demo_ext (demo_cert ?b) ?e"
    using c unfolding r decision_commits_def by (intro exI[of _ ?b] exI) (simp add: demo_cert_def)
  have ok: "state_ok (en_chain ?e)" by (simp add: state_ok_open)
  have h: "cc_height (demo_cert ?b) = 5" "cc_value_id (demo_cert ?b) = header_hash demo_ext (bl_header ?b)"
    "en_events ?e = []"
    by (simp_all add: demo_cert_def demo_block_def demo_header_def demo_engine_def engine_start_def)
  have "en_cache e' = None \<and> en_height e' = 5 \<and> en_events e' = en_events ?e @ [?b] \<and>
      en_parent_hash e' = cc_value_id (demo_cert ?b)"
    using decision_commits_certified[OF d ok] dc h(1) by (auto simp: Let_def)
  then show ?thesis using d h by auto
qed

text \<open>A gossiped proposal for the current or the next height takes the place of the block the engine
  holds, with any signature and from anyone; the decision of another block then commits nothing, and
  the engine still starts the height after it.\<close>

theorem gossip_unseats_decided_block:
  assumes "on_proposal (p, s) e = Ok e1" and "cp_height p = en_height e \<or> cp_height p = en_height e + 1"
    and "header_hash X (bl_header (cp_block p)) \<noteq> cc_value_id cert"
    and "on_decide X cfg ck cert e1 = Ok (e2, fs)" and "validator_count (ec_validators cfg) > 1"
  shows "chain_part e2 = chain_part e \<and> en_pool e2 = en_pool e \<and> en_cache e2 = None \<and>
    fs = [InStartHeight (cc_height cert + 1) (ec_validators cfg)]"
proof -
  note e1 = on_proposal_caches[OF assms(1,2)]
  obtain e0 where d: "commit_decided X cfg cert e1 = Ok e0" "chain_part e2 = chain_part e0"
    "en_pool e2 = en_pool e0" "en_cache e2 = en_cache e0"
    "fs = [InStartHeight (cc_height cert + 1) (ec_validators cfg)]"
    using on_decide_cases[OF assms(4)] assms(5) by metis
  have "e0 = e1\<lparr>en_cache := None\<rparr>"
    using d(1) assms(3) e1(1) by (simp add: commit_decided_def Let_def split: if_splits)
  then show ?thesis using d e1 by (simp add: chain_part_def)
qed

definition demo_proposal :: "block \<Rightarrow> chain_proposal" where
  "demo_proposal b = new_proposal 5 (Round 0) b NilRound 1"

lemma gossip_unseats_decided_block_witness:
  "\<exists>cert e1 e2 fs. on_proposal (demo_proposal (demo_block 0), 0) (demo_engine None) = Ok e1 \<and>
     on_decide demo_ext demo_config demo_clock cert e1 = Ok (e2, fs) \<and>
     chain_part e2 = chain_part (demo_engine None)"
proof -
  let ?cert = "\<lparr>cc_height = 5, cc_round = Round 0, cc_value_id = header_hash demo_ext (demo_header 0) + 1\<rparr>"
  obtain e1 where e1: "on_proposal (demo_proposal (demo_block 0), 0) (demo_engine None) = Ok e1"
    "en_cache e1 = Some (demo_block 0)" "en_drain e1 = None"
    by (simp add: on_proposal_def demo_proposal_def new_proposal_def)
  obtain e2 fs where e2: "on_decide demo_ext demo_config demo_clock ?cert e1 = Ok (e2, fs)"
    using e1 by (simp add: on_decide_def commit_decided_def demo_block_def uadd_def)
  have "header_hash demo_ext (bl_header (cp_block (demo_proposal (demo_block 0)))) \<noteq> cc_value_id ?cert"
    by (simp add: demo_proposal_def new_proposal_def demo_block_def)
  from gossip_unseats_decided_block[OF e1(1) _ this e2] e1(1) e2 show ?thesis
    by (auto simp: demo_proposal_def new_proposal_def)
qed

text \<open>Nothing binds the body of a decided block. Anyone can gossip it again with one more transaction:
  the signature and the certified hash still fit, and if the transaction leaves the accounts alone (a
  vote, say, or one that is rejected) the engine commits the longer block with its effects.\<close>

theorem gossiped_body_is_committed:
  assumes "state_ok (en_chain e)" and "commit_block X (en_chain e) (en_pool e) b = Ok (s', mp', rep)"
    and "\<not> is_epoch_boundary (bh_height (bl_header b))"
    and "rfold (replay_tx X) (bl_txs b) (begin_block (en_chain e), 0, 0) = Ok (c, g, n)"
    and "apply_tx X c tx = Ok (c', out)" and "acct_tree c' = acct_tree c"
    and "\<forall>t \<in> set (tx # bl_txs b). \<nexists>d. stx_tx t = DisputeTx d"
    and "cc_height cert = bh_height (bl_header b)" and "cc_value_id cert = header_hash X (bl_header b)"
    and "cp_block p = b\<lparr>bl_txs := bl_txs b @ [tx]\<rparr>"
    and "cp_height p = en_height e \<or> cp_height p = en_height e + 1"
    and "on_proposal (p, sg) e = Ok e1" and "on_decide X cfg ck cert e1 = Ok (e2, fs)"
  shows "st_get_block (en_chain e2) (cc_height cert) = Some (cp_block p) \<and>
    cf_votes (st_db (en_chain e2)) = cf_votes (view c') \<and> en_events e2 = en_events e @ [cp_block p] \<and>
    (\<forall>pk. verify_signed_proposal X W p sg pk = verify_signed_proposal X W (p\<lparr>cp_block := b\<rparr>) sg pk)"
proof -
  note e1 = on_proposal_caches[OF assms(12,11)]
  have same: "en_chain e1 = en_chain e" "en_events e1 = en_events e" using e1(2) by (auto simp: chain_part_def)
  obtain s2 mp2 rep2 where c2: "commit_block X (en_chain e) (en_pool e) (cp_block p) = Ok (s2, mp2, rep2)"
    "st_get_block s2 (bh_height (bl_header b)) = Some (cp_block p)" "cf_votes (st_db s2) = cf_votes (view c')"
    using commit_appended[OF assms(2,1,3-7)] unfolding assms(10) by blast
  have hdr: "bl_header (cp_block p) = bl_header b" by (simp add: assms(10))
  obtain e0 where d: "commit_decided X cfg cert e1 = Ok e0" "chain_part e2 = chain_part e0"
    using on_decide_cases[OF assms(13)] by metis
  have "chain_part e0 = (s2, cc_height cert, cc_value_id cert, en_events e @ [cp_block p])"
    using d(1) e1(1,3) same c2(1) hdr assms(8,9)
    by (auto simp: commit_decided_def apply_commit_def chain_part_def)
  then show ?thesis using c2(2,3) d(2) assms(8) hdr
    by (simp add: chain_part_def verify_signed_proposal_def encode_proposal_def value_id_def)
qed

definition voting_db :: db where
  "voting_db = empty_db\<lparr>cf_proposals := kv_put 1 (demo_record\<lparr>prr_phase := Voting\<rparr>) kv_empty\<rparr>"

lemma voting_apply:
  "apply_tx demo_ext (begin_block (state_open voting_db)) (demo_stx (GovVote 1 5 Yes)) =
     Ok (set_vote (gov_vote_key 1 5) [vote_byte Yes] (begin_block (state_open voting_db)), TxApplied GOV_VOTE_GAS)"
  by (simp add: apply_tx_def apply_gov_vote_def get_proposal_def get_vote_def voting_db_def empty_db_def demo_record_def Let_def)

lemma gossiped_body_is_committed_witness:
  "\<exists>b e1 e2 fs. on_proposal (demo_proposal (b\<lparr>bl_txs := [demo_stx (GovVote 1 5 Yes)]\<rparr>), 0)
       ((demo_engine (Some b))\<lparr>en_chain := state_open voting_db\<rparr>) = Ok e1 \<and>
     on_decide demo_ext demo_config demo_clock (demo_cert b) e1 = Ok (e2, fs) \<and> bl_txs b = [] \<and>
     kv_get (cf_votes (st_db (en_chain e2))) (gov_vote_key 1 5) \<noteq> None"
proof -
  let ?s = "state_open voting_db" and ?tx = "demo_stx (GovVote 1 5 Yes)"
  obtain root r where r0: "commit_block demo_ext ?s mp_default (demo_block root) = Ok r"
    using demo_commit[of ?s mp_default] by auto
  obtain s' mp' rep where r: "commit_block demo_ext ?s mp_default (demo_block root) = Ok (s', mp', rep)"
    using r0 by (cases r) simp
  let ?b = "demo_block root"
  let ?e = "(demo_engine (Some ?b))\<lparr>en_chain := ?s\<rparr>"
  let ?p = "demo_proposal (?b\<lparr>bl_txs := [?tx]\<rparr>)"
  obtain e1 where e1: "on_proposal (?p, 0) ?e = Ok e1" "en_drain e1 = None"
    by (simp add: on_proposal_def demo_proposal_def new_proposal_def)
  have h: "cp_height ?p = en_height ?e \<or> cp_height ?p = en_height ?e + 1"
    by (simp add: demo_proposal_def new_proposal_def)
  note cached = on_proposal_caches[OF e1(1) h]
  have c: "commit_block demo_ext (en_chain ?e) (en_pool ?e) ?b = Ok (s', mp', rep)" using r by simp
  let ?c = "begin_block ?s" and ?v = "set_vote (gov_vote_key 1 5) [vote_byte Yes] (begin_block ?s)"
  have replay: "rfold (replay_tx demo_ext) (bl_txs ?b) (begin_block (en_chain ?e), 0, 0) =
      (Ok (?c, 0, 0) :: (commit_error, _) result)" by (simp add: demo_block_def)
  have nb: "\<not> is_epoch_boundary (bh_height (bl_header ?b))"
    by (simp add: demo_block_def is_epoch_boundary_def EPOCH_LENGTH_BLOCKS_def)
  have nd: "\<forall>t \<in> set (?tx # bl_txs ?b). \<nexists>d. stx_tx t = DisputeTx d" by (simp add: demo_block_def)
  have acct: "acct_tree ?v = acct_tree ?c" by simp
  have ok: "state_ok (en_chain ?e)" by (simp add: state_ok_open)
  have body: "cp_block ?p = ?b\<lparr>bl_txs := bl_txs ?b @ [?tx]\<rparr>"
    by (simp add: demo_proposal_def new_proposal_def demo_block_def)
  have cert: "cc_height (demo_cert ?b) = bh_height (bl_header ?b)"
    "cc_value_id (demo_cert ?b) = header_hash demo_ext (bl_header ?b)" by (simp_all add: demo_cert_def)
  have "commit_block demo_ext (en_chain e1) (en_pool e1) (cp_block ?p) \<noteq> Panic \<and>
      (\<exists>y. commit_block demo_ext (en_chain e1) (en_pool e1) (cp_block ?p) = Ok y)"
    using commit_appended[OF c ok nb replay voting_apply acct nd] cached(2,3) body
    by (auto simp: chain_part_def)
  then obtain e2 fs where e2: "on_decide demo_ext demo_config demo_clock (demo_cert ?b) e1 = Ok (e2, fs)"
    using on_decide_returns[OF _ cached(1)] cert(1) by (fastforce simp: demo_block_def)
  note g = gossiped_body_is_committed[OF ok c nb replay voting_apply acct nd cert body h e1(1) e2]
  have "kv_get (cf_votes (view ?v)) (gov_vote_key 1 5) \<noteq> None" by simp
  then have "kv_get (cf_votes (st_db (en_chain e2))) (gov_vote_key 1 5) \<noteq> None" using g by simp
  then show ?thesis using e1(1) e2 by (intro exI[of _ ?b]) (auto simp: demo_block_def)
qed

text \<open>Transactions the engine drained for a proposal of its own do not come back to the pool, whatever
  happens to the proposal: unless someone submits them again, they stay out of it for good.\<close>

theorem drained_never_readmitted:
  assumes "mempool_ok X (en_pool e)" and "on_get_value X cfg ck h r e = Ok (e1, [InPropose h r b])"
    and "en_drain e1 = Some (h, txs)" and "tx \<in> set txs"
    and "(engine_step X W cfg (\<lambda>stx. stx_hash X stx \<noteq> stx_hash X tx))\<^sup>*\<^sup>* e1 e2"
  shows "\<not> mp_contains (stx_hash X tx) (en_pool e2)"
proof -
  obtain built mp where b: "build_block X (en_chain e) (en_pool e) h (build_params_for cfg e h) (ck_wall_ms ck) = Ok (built, mp)"
    using assms(2) by (auto simp: on_get_value_def Let_def split: result.splits)
  then have "bb_drained built = txs" "en_pool e1 = mp" using assms(2,3) by (auto simp: on_get_value_def Let_def)
  then have "\<not> mp_contains (stx_hash X tx) (en_pool e1)"
    using build_block_drains[OF b] drained_gone[OF assms(1)] assms(4) by blast
  then show ?thesis using run_pool[OF assms(5)] by blast
qed

lemma drained_never_readmitted_witness:
  "\<exists>e1. on_get_value pool_ext demo_config demo_clock 5 (Round 0) ((demo_engine None)\<lparr>en_pool := demo_pool\<rparr>) =
     Ok e1 \<and> \<not> mp_contains 3 (en_pool (fst e1))"
proof -
  let ?e = "(demo_engine None)\<lparr>en_pool := demo_pool\<rparr>"
  let ?ps = "build_params_for demo_config ?e 5"
  have lim: "bp_gas_limit ?ps = 1000000" "bp_bytes_budget ?ps = DEFAULT_BLOCK_BYTES_BUDGET"
    by (simp_all add: build_params_for_def)
  have "\<exists>mp. drain_for_block 1000000 DEFAULT_BLOCK_BYTES_BUDGET demo_pool = ([demo_vote 3], 30000, 0, mp)"
    by (simp add: drain_for_block_def drain_order_def demo_pool_def admit_def with_limits_def
        List.map_filter_def entry_key_def remove_by_hash_def sat_add_def umax_def DEFAULT_BLOCK_BYTES_BUDGET_def)
  then obtain mp where d: "drain_for_block 1000000 DEFAULT_BLOCK_BYTES_BUDGET demo_pool = ([demo_vote 3], 30000, 0, mp)"
    by blast
  have "apply_tx pool_ext (begin_block (state_open (demo_db [(7, demo_acct 50)]))) (demo_vote 3) =
      Ok (begin_block (state_open (demo_db [(7, demo_acct 50)])), TxRejected (NotYetImplemented ''proposal not found''))"
    by (simp add: apply_tx_def apply_gov_vote_def get_proposal_def demo_db_def empty_db_def Let_def)
  then obtain b where b: "on_get_value pool_ext demo_config demo_clock 5 (Round 0) ?e =
      Ok (?e\<lparr>en_pool := mp, en_drain := Some (5, [demo_vote 3]), en_cache := Some b\<rparr>, [InPropose 5 (Round 0) b])"
    by (simp add: on_get_value_def build_block_def lim d build_step_def Let_def)
  have "mempool_ok pool_ext (en_pool ?e)" using demo_pool_ok(1) by simp
  from drained_never_readmitted[OF this b _ _ rtranclp.rtrancl_refl, of "[demo_vote 3]" "demo_vote 3"] b
  show ?thesis by simp
qed

end
