(* ===== verification/Genesis.thy ===== *)
theory Genesis
  imports EngineSafety
begin

text \<open>
  Genesis (\<^verbatim>\<open>crates/chain/src/genesis.rs\<close>) and the boot of a validator from it
  (\<^verbatim>\<open>start_validator\<close> of \<^verbatim>\<open>crates/node/src/validator.rs\<close>): the checks of the parsed file, the
  conversion of its validators, the seeding of models and the configuration handed to the engine.
  Reading and parsing the file is outside the model; the hex decoder is the parameter \<open>hexd\<close>. The
  lemmas show what a validated genesis guarantees, and which rows of the state come from it.
\<close>

section \<open>The document\<close>

record genesis_validator =
  gv_name :: string
  gv_pubkey_hex :: string
  gv_operator_hex :: string
  gv_voting_power :: nat

record genesis_params =
  gp_base_fee :: nat
  gp_gas_target :: nat
  gp_gas_limit :: nat

record genesis_model =
  gm_model_id :: string
  gm_sha256_hex :: string
  gm_size_bytes :: nat
  gm_mirrors :: "string list"
  gm_license :: string

record initial_account =
  ia_address_hex :: string
  ia_balance :: nat

record genesis_config =
  gc_chain_id :: string
  gc_initial_height :: height
  gc_initial_timestamp_ms :: timestamp
  gc_validators :: "genesis_validator list"
  gc_initial_accounts :: "initial_account list"
  gc_params :: genesis_params
  gc_message :: string
  gc_models :: "genesis_model list"

definition default_voting_power :: nat where
  "default_voting_power = 1"

definition genesis_params_default :: genesis_params where
  "genesis_params_default =
     \<lparr>gp_base_fee = 1000000000, gp_gas_target = 15000000, gp_gas_limit = 30000000\<rparr>"

definition base_fee_amount :: "genesis_params \<Rightarrow> amount" where
  "base_fee_amount p = gp_base_fee p"

datatype genesis_error =
    EmptyChainId
  | NoGenesisValidators
  | FairLaunchViolated nat
  | NonZeroHeight nat
  | ZeroGasTarget
  | GasLimitBelowTarget
  | BadPubkeyHex
  | BadPubkeyLength nat
  | BadAddressHex
  | BadAddressLength nat
  | BadModelHash
  | BadValidatorSet set_error
  | KeyNotInGenesis

section \<open>Decoding\<close>

definition strip_0x :: "string \<Rightarrow> string" where
  "strip_0x s = (if starts_with ''0x'' s then drop 2 s else s)"

definition address_from_hex ::
    "(string \<Rightarrow> bytes option) \<Rightarrow> string \<Rightarrow> (genesis_error, address) result" where
  "address_from_hex hexd s =
     (case hexd (strip_0x s) of None \<Rightarrow> Err BadAddressHex | Some bs \<Rightarrow>
        if length bs \<noteq> 20 then Err (BadAddressLength (length bs)) else Ok (word_rcat bs))"

definition decode_address ::
    "(string \<Rightarrow> bytes option) \<Rightarrow> string \<Rightarrow> (genesis_error, address) result" where
  "decode_address hexd s = address_from_hex hexd s"

definition decode_pubkey ::
    "(string \<Rightarrow> bytes option) \<Rightarrow> string \<Rightarrow> (genesis_error, pubkey) result" where
  "decode_pubkey hexd s =
     (case hexd (strip_0x s) of None \<Rightarrow> Err BadPubkeyHex | Some bs \<Rightarrow>
        if length bs \<noteq> pubkey_len Ed25519 then Err (BadPubkeyLength (length bs))
        else map_err (\<lambda>_. BadPubkeyLength (length bs)) (pubkey_new Ed25519 bs))"

section \<open>Validation and conversion\<close>

definition check_validator_keys ::
    "(string \<Rightarrow> bytes option) \<Rightarrow> genesis_validator \<Rightarrow> unit \<Rightarrow> (genesis_error, unit) result" where
  "check_validator_keys hexd v u =
     rbind (decode_pubkey hexd (gv_pubkey_hex v)) (\<lambda>_.
     rbind (decode_address hexd (gv_operator_hex v)) (\<lambda>_. Ok ()))"

definition validate_genesis ::
    "(string \<Rightarrow> bytes option) \<Rightarrow> genesis_config \<Rightarrow> (genesis_error, unit) result" where
  "validate_genesis hexd g =
     (if gc_chain_id g = [] then Err EmptyChainId
      else if gc_validators g = [] then Err NoGenesisValidators
      else if gc_initial_accounts g \<noteq> [] then Err (FairLaunchViolated (length (gc_initial_accounts g)))
      else if gc_initial_height g \<noteq> 0 then Err (NonZeroHeight (gc_initial_height g))
      else if gp_gas_target (gc_params g) = 0 then Err ZeroGasTarget
      else if gp_gas_limit (gc_params g) < gp_gas_target (gc_params g) then Err GasLimitBelowTarget
      else rfold (check_validator_keys hexd) (gc_validators g) ())"

definition genesis_to_validator_info ::
    "ext \<Rightarrow> (string \<Rightarrow> bytes option) \<Rightarrow> genesis_validator \<Rightarrow> (genesis_error, validator_info) result" where
  "genesis_to_validator_info X hexd gv =
     rbind (decode_pubkey hexd (gv_pubkey_hex gv)) (\<lambda>pk.
     rbind (decode_address hexd (gv_operator_hex gv)) (\<lambda>operator.
     Ok \<lparr>vi_node_id = x_blake3 X (pk_bytes pk), vi_consensus_key = pk, vi_operator = operator,
         vi_bonded_stake = 0, vi_voting_power = gv_voting_power gv, vi_is_genesis = True,
         vi_jailed = False\<rparr>))"

definition seed_model ::
    "(string \<Rightarrow> bytes option) \<Rightarrow> genesis_model \<Rightarrow> block_ctx \<Rightarrow> (genesis_error, block_ctx) result" where
  "seed_model hexd gm c =
     (case hexd (strip_0x (gm_sha256_hex gm)) of None \<Rightarrow> Err BadModelHash | Some bs \<Rightarrow>
        if length bs \<noteq> 32 then Err BadModelHash
        else Ok (set_model (gm_model_id gm)
               \<lparr>mm_model_id = gm_model_id gm, mm_sha256 = word_rcat bs, mm_size_bytes = gm_size_bytes gm,
                mm_mirrors = gm_mirrors gm, mm_license = gm_license gm\<rparr> c))"

definition seed_genesis_models ::
    "(string \<Rightarrow> bytes option) \<Rightarrow> block_ctx \<Rightarrow> genesis_model list \<Rightarrow> (genesis_error, block_ctx) result" where
  "seed_genesis_models hexd c models = rfold (seed_model hexd) models c"

section \<open>Boot\<close>

definition push_info ::
    "ext \<Rightarrow> (string \<Rightarrow> bytes option) \<Rightarrow> genesis_validator \<Rightarrow> validator_info list \<Rightarrow>
     (genesis_error, validator_info list) result" where
  "push_info X hexd gv is = rbind (genesis_to_validator_info X hexd gv) (\<lambda>i. Ok (is @ [i]))"

definition genesis_infos ::
    "ext \<Rightarrow> (string \<Rightarrow> bytes option) \<Rightarrow> genesis_config \<Rightarrow> (genesis_error, validator_info list) result" where
  "genesis_infos X hexd g = rfold (push_info X hexd) (gc_validators g) []"

text \<open>The models are seeded once, while no height has been committed.\<close>

definition seed_state ::
    "ext \<Rightarrow> (string \<Rightarrow> bytes option) \<Rightarrow> genesis_config \<Rightarrow> state \<Rightarrow> (genesis_error, state) result" where
  "seed_state X hexd g s =
     (if gc_models g \<noteq> [] \<and> st_current_height s = None
      then rbind (seed_genesis_models hexd (begin_block s) (gc_models g)) (\<lambda>c. Ok (snd (commit X c)))
      else Ok s)"

definition engine_config_of ::
    "ext \<Rightarrow> genesis_config \<Rightarrow> chain_validator list \<Rightarrow> bytes \<Rightarrow> engine_config" where
  "engine_config_of X g vs local_pk =
     \<lparr>ec_chain_id = gc_chain_id g, ec_version = 1, ec_initial_height = gc_initial_height g + 1,
      ec_validators = vs, ec_base_fee = base_fee_amount (gc_params g),
      ec_gas_limit = gp_gas_limit (gc_params g), ec_gas_target = gp_gas_target (gc_params g),
      ec_local_address = digest_address (x_blake3 X local_pk), ec_local_node_id = x_blake3 X local_pk,
      ec_timeouts = timeout_config_default, ec_genesis_message = gc_message g\<rparr>"

definition start_validator ::
    "ext \<Rightarrow> (string \<Rightarrow> bytes option) \<Rightarrow> (bytes \<Rightarrow> bool) \<Rightarrow> genesis_config \<Rightarrow> bytes \<Rightarrow> nat \<Rightarrow> state \<Rightarrow>
     (genesis_error, engine_config \<times> engine) result" where
  "start_validator X hexd key_ok g local_pk now s =
     rbind (validate_genesis hexd g) (\<lambda>_.
     rbind (genesis_infos X hexd g) (\<lambda>infos.
     rbind (map_err BadValidatorSet (from_infos key_ok infos)) (\<lambda>vs.
     rbind (seed_state X hexd g s) (\<lambda>s1.
       if local_pk \<notin> set (map (\<lambda>i. pk_bytes (vi_consensus_key i)) infos) then Err KeyNotInGenesis
       else let cfg = engine_config_of X g vs local_pk
            in Ok (cfg, engine_start X cfg s1 now)))))"

section \<open>No validator rows\<close>

text \<open>A state without rows in the validators column, and a context opened on one that has written
  none.\<close>

definition no_rows :: "block_ctx \<Rightarrow> bool" where
  "no_rows c \<longleftrightarrow> cf_validators (view c) = kv_empty \<and> cf_validators (st_db (ctx_state c)) = kv_empty"

lemma no_rows_setters [simp]:
  "no_rows (set_account a acct c) = no_rows c"
  "no_rows (set_stake n r p d e c) = no_rows c"
  "no_rows (set_unbonding n u c) = no_rows c"
  "no_rows (delete_unbonding n i c) = no_rows c"
  "no_rows (set_next_unbond_id i c) = no_rows c"
  "no_rows (set_current_height h c) = no_rows c"
  "no_rows (set_base_fee f c) = no_rows c"
  "no_rows (mark_receipt_seen j h c) = no_rows c"
  "no_rows (set_escrow j es c) = no_rows c"
  "no_rows (delete_escrow j c) = no_rows c"
  "no_rows (set_pending_reward j pw c) = no_rows c"
  "no_rows (delete_pending_reward j c) = no_rows c"
  "no_rows (set_proposal k prr c) = no_rows c"
  "no_rows (set_vote vk v c) = no_rows c"
  "no_rows (set_next_proposal_id k c) = no_rows c"
  "no_rows (set_tee_capability n t c) = no_rows c"
  "no_rows (set_gateway n ge c) = no_rows c"
  "no_rows (delete_gateway n c) = no_rows c"
  "no_rows (set_model m mm c) = no_rows c"
  by (simp_all add: no_rows_def)

lemma no_rows_credit [simp]:
  "no_rows (credit_address a x c) = no_rows c" "no_rows (credit_line l c) = no_rows c"
  "no_rows (credit_positive a x c) = no_rows c" "no_rows (return_deposit a x c) = no_rows c"
  by (simp_all add: credit_address_def credit_line_def credit_positive_def return_deposit_def Let_def)

lemma no_rows_lines [simp]: "no_rows (fold credit_line ls c) = no_rows c"
  by (induction ls arbitrary: c) simp_all

lemma no_rows_queue [simp]: "no_rows (queue_rewards X h rs c) = no_rows c"
  by (induction rs arbitrary: c) simp_all

lemma no_rows_mark: "mark_receipts h rs c = (c', j) \<Longrightarrow> no_rows c' = no_rows c"
  by (induction h rs c arbitrary: c' rule: mark_receipts.induct) (auto split: if_splits)

lemma no_rows_stake_op:
  assumes "apply_stake_op c op sender h = Ok (c', out)"
  shows "no_rows c' = no_rows c"
proof (cases op)
  case (Deposit n r p amount d)
  with assms apply_deposit_cases[of c sender n r p amount d h c' out] show ?thesis by auto
next
  case (Withdraw n r p amount)
  with assms apply_withdraw_cases[of c sender n r p amount h c' out] show ?thesis by auto
next
  case (Complete n r p i)
  with assms apply_complete_cases[of c sender n i h c' out] show ?thesis by auto
next
  case (Redelegate src dst r amount)
  with assms apply_redelegate_cases[of c sender src dst r amount h c' out] show ?thesis by auto
qed

lemma no_rows_batch: "apply_receipt_batch X c b h = Ok (c', out) \<Longrightarrow> no_rows c' = no_rows c"
  using apply_receipt_batch_cases[of X c b h c' out] no_rows_mark by (auto split: if_splits)

lemma no_rows_value:
  "apply_transfer c from to amount n fee = Ok (c', out) \<Longrightarrow> no_rows c' = no_rows c"
  "apply_escrow_lock X c s j amount n fee h = Ok (c', out) \<Longrightarrow> no_rows c' = no_rows c"
  "apply_escrow_settle c j ca va ra ta h = Ok (c', out) \<Longrightarrow> no_rows c' = no_rows c"
  "apply_reward_mint c j t ca va ra ta = Ok (c', out) \<Longrightarrow> no_rows c' = no_rows c"
  using apply_transfer_cases[of c "from" to amount n fee c' out]
    apply_escrow_lock_cases[of X c s j amount n fee h c' out]
    apply_escrow_settle_cases[of c j ca va ra ta h c' out]
    apply_reward_mint_cases[of c j t ca va ra ta c' out]
  by (auto simp del: fold_simps)

lemma no_rows_registries:
  "apply_dispute c d h = Ok (c', out) \<Longrightarrow> no_rows c' = no_rows c"
  "apply_register_model c m rg dep = Ok (c', out) \<Longrightarrow> no_rows c' = no_rows c"
  "apply_register_tee c n op cap = Ok (c', out) \<Longrightarrow> no_rows c' = no_rows c"
  "apply_register_gateway c n op url https h = Ok (c', out) \<Longrightarrow> no_rows c' = no_rows c"
  "apply_unregister_gateway c n = Ok (c', out) \<Longrightarrow> no_rows c' = no_rows c"
  "apply_gov_proposal X c pk p h = Ok (c', out) \<Longrightarrow> no_rows c' = no_rows c"
  "apply_gov_vote c pid voter choice = Ok (c', out) \<Longrightarrow> no_rows c' = no_rows c"
  using apply_dispute_cases[of c d h c' out] apply_register_model_cases[of c m rg dep c' out]
    apply_register_tee_cases[of c n op cap c' out]
    apply_register_gateway_cases[of c n op url https h c' out]
    apply_gov_proposal_cases[of X c pk p h c' out] apply_gov_vote_cases[of c pid voter choice c' out]
  by (auto simp: apply_unregister_gateway_def)

lemma no_rows_apply: "apply_tx X c stx = Ok (c', out) \<Longrightarrow> no_rows c' = no_rows c"
  unfolding apply_tx_def Let_def
  by (cases "stx_tx stx") (auto dest: no_rows_stake_op no_rows_batch no_rows_value no_rows_registries)

lemma no_rows_slash:
  assumes "apply_slash c n r off a t = Ok (c', rep)"
  shows "no_rows c' = no_rows c"
  using assms
proof (cases rule: apply_slash_cases)
  case (1 c1 t1 k1 c2 t2 k2)
  have s1: "no_rows (fst (c1, t1, k1)) = no_rows c"
    by (rule rfold_invariant[where P = "\<lambda>acc. no_rows (fst acc) = no_rows c", OF _ _ 1(1)])
      (auto simp: slash_stake_def Let_def rbind_Ok_iff split: if_splits prod.splits)
  have "no_rows (fst (c2, t2, k2)) = no_rows c"
    by (rule rfold_invariant[where P = "\<lambda>acc. no_rows (fst acc) = no_rows c", OF _ s1 1(2)])
      (auto simp: slash_unbonding_def Let_def rbind_Ok_iff split: if_splits prod.splits)
  then show ?thesis using 1(7) by simp
qed

lemma no_rows_slash_dispute: "slash_dispute X tx c = Ok c' \<Longrightarrow> no_rows c' = no_rows c"
  by (auto simp: slash_dispute_def dest: no_rows_slash split: transaction.splits if_splits result.splits)

lemma no_rows_pay:
  "pay_delegators D T ss (d, c) = (Ok (d', c') :: ('e, amount \<times> block_ctx) result) \<Longrightarrow> no_rows c' = no_rows c"
proof (induction ss arbitrary: d c)
  case (Cons s ss)
  from Cons.prems obtain c1 d1 where
    "pay_delegators D T ss (d1, c1) = (Ok (d', c') :: ('e, amount \<times> block_ctx) result)"
    and "c1 = c \<or> (\<exists>x y. c1 = credit_address x y c)"
    unfolding pay_delegators.simps Let_def rbind_Ok_iff by (auto split: if_split_asm option.split_asm)
  then show ?case using Cons.IH by auto
qed simp

lemma no_rows_distribute:
  assumes "distribute_to_delegators c a D = (Ok c' :: ('e, block_ctx) result)"
  shows "no_rows c' = no_rows c"
proof -
  consider "c' = c" | "c' = credit_address a D c"
    | T ss d' where "pay_delegators D T ss (0, c) = (Ok (d', c') :: ('e, _) result)"
    using assms unfolding distribute_to_delegators_def Let_def
    by (auto simp: rbind_Ok_iff split: if_split_asm option.split_asm)
  then show ?thesis by cases (auto dest: no_rows_pay)
qed

lemma no_rows_rfold:
  assumes "rfold f xs c = Ok c'" and "\<And>x c c'. f x c = Ok c' \<Longrightarrow> no_rows c' = no_rows c"
  shows "no_rows c' = no_rows c"
  by (rule rfold_invariant[where P = "\<lambda>d. no_rows d = no_rows c", OF _ refl assms(1)]) (simp add: assms(2))

lemma no_rows_mint_pending:
  assumes "mint_pending r p (c, em, tm) = (Ok (c', em', tm') :: ('e, mint_acc) result)"
  shows "no_rows c' = no_rows c"
  using assms
proof (cases rule: mint_pending_cases)
  case (pay blk m d c2)
  let ?c1 = "fold credit_line (reward_lines p d) c"
  have "no_rows c2 = no_rows ?c1"
  proof (cases "rd_delegators d > 0")
    case True
    then have "distribute_to_delegators ?c1 (pw_compute_addr p) (rd_delegators d) =
        (Ok c2 :: ('e, block_ctx) result)" using pay(3) by simp
    then show ?thesis by (rule no_rows_distribute)
  qed (use pay(3) in simp)
  then show ?thesis unfolding pay(4) by simp
qed simp

lemma no_rows_mint:
  assumes "epoch_boundary_mint c ep h = (Ok c' :: ('e, block_ctx) result)"
  shows "no_rows c' = no_rows c"
proof -
  consider "c' = c" | r em where
    "rbind (rfold (mint_pending r) (iter_pending_rewards_for_epoch (ctx_state c) ep) (c, em, 0))
       (\<lambda>acc. Ok (fst acc)) = (Ok c' :: ('e, _) result)"
    using assms unfolding epoch_boundary_mint_def Let_def by (auto simp: rbind_Ok_iff split: if_split_asm)
  then show ?thesis
  proof cases
    case 2
    then obtain em' tm' where l: "rfold (mint_pending r) (iter_pending_rewards_for_epoch (ctx_state c) ep)
        (c, em, 0) = (Ok (c', em', tm') :: ('e, _) result)" by (auto simp: rbind_Ok_iff)
    have "no_rows (fst (c', em', tm')) = no_rows c"
    proof (rule rfold_invariant[where P = "\<lambda>acc. no_rows (fst acc) = no_rows c", OF _ _ l])
      fix x acc acc' assume k: "no_rows (fst acc) = no_rows c"
        "mint_pending r x acc = (Ok acc' :: ('e, _) result)"
      obtain a em1 t1 where acc: "acc = (a, em1, t1)" by (cases acc)
      obtain a' em2 t2 where acc': "acc' = (a', em2, t2)" by (cases acc')
      from k acc acc' show "no_rows (fst acc') = no_rows c" using no_rows_mint_pending by fastforce
    qed simp
    then show ?thesis by simp
  qed simp
qed

lemma no_rows_process: "process_proposal now tb ir c = Ok c' \<Longrightarrow> no_rows c' = no_rows c"
  by (auto simp: process_proposal_def rbind_Ok_iff
      split: prod.splits proposal_phase.splits if_splits tally_outcome.splits)
    (metis tally_outcome.exhaust)+

lemma no_rows_governance: "process_governance_proposals c now = Ok c' \<Longrightarrow> no_rows c' = no_rows c"
  by (auto simp: process_governance_proposals_def Let_def dest: no_rows_rfold no_rows_process split: if_splits)

text \<open>With no rows nobody is ranked, so the recomputation writes nothing.\<close>

lemma no_rows_recompute:
  assumes "no_rows c"
  shows "recompute_validator_set c h = (c, 0)"
proof -
  have "iter_validators (ctx_state c) = []" using assms by (simp add: no_rows_def iter_validators_def)
  then have "rank_candidates c = []"
    by (simp add: rank_candidates_def all_candidates_def sort_by_def)
  then show ?thesis by (simp add: recompute_validator_set_def)
qed

lemma no_rows_rotation:
  assumes "epoch_rotation c hdr = Ok c'" "no_rows c"
  shows "no_rows c'"
proof (cases "is_epoch_boundary (bh_height hdr)")
  case True
  then obtain c2 where c2: "epoch_boundary_mint c (sat_sub (epoch_for_height (bh_height hdr)) 1)
      (bh_height hdr) = (Ok c2 :: (commit_error, _) result)"
    and g: "process_governance_proposals c2 (bh_timestamp_ms hdr) = (Ok c' :: (commit_error, _) result)"
    using assms no_rows_recompute[OF assms(2)] by (auto simp: epoch_rotation_def rbind_Ok_iff)
  show ?thesis using no_rows_mint[OF c2] no_rows_governance[OF g] assms(2) by simp
qed (use assms in \<open>simp add: epoch_rotation_def\<close>)

lemma no_rows_begin: "no_rows (begin_block s) \<longleftrightarrow> cf_validators (st_db s) = kv_empty"
  by (simp add: no_rows_def)

lemma no_rows_commit:
  assumes "commit_block X s mp b = Ok (s', mp', rep)" "cf_validators (st_db s) = kv_empty"
  shows "cf_validators (st_db s') = kv_empty"
  using assms(1)
proof (cases rule: commit_block_cases)
  case (1 c1 n c2 c3 c4 d)
  have "no_rows (fst (c1, cr_gas_used rep, n))"
  proof (rule rfold_invariant[where P = "\<lambda>acc. no_rows (fst acc)", OF _ _ 1(1)])
    fix tx acc acc' assume k: "no_rows (fst acc)" "replay_tx X tx acc = Ok acc'"
    obtain a g m where acc: "acc = (a, g, m)" by (cases acc)
    obtain a' out where a: "apply_tx X a tx = Ok (a', out)"
      using k(2) by (auto simp: acc replay_tx_def rbind_Ok_iff)
    then have "fst acc' = a'" using k(2) by (cases out) (auto simp: acc replay_tx_def)
    then show "no_rows (fst acc')" using k(1) no_rows_apply[OF a] by (simp add: acc)
  qed (simp add: no_rows_begin assms(2))
  then have "no_rows c2" using no_rows_rfold[OF 1(2) no_rows_slash_dispute] by simp
  then have "no_rows c4" using no_rows_rotation[OF 1(3)] by (simp add: 1(4))
  moreover have "without_blocks (st_db s') = without_blocks (view c4)" unfolding 1(7) by (simp add: 1(6))
  then have "cf_validators (without_blocks (st_db s')) = cf_validators (without_blocks (view c4))" by simp
  ultimately show ?thesis by (simp add: without_blocks_def no_rows_def)
qed

lemma no_rows_step:
  assumes "engine_step X W cfg P e e'" "cf_validators (st_db (en_chain e)) = kv_empty"
  shows "cf_validators (st_db (en_chain e')) = kv_empty"
  using assms
proof (induction rule: engine_step.induct)
  case (effect ck eff e e' r fs)
  show ?case
  proof (cases eff)
    case (Decide cert)
    then have "on_decide X cfg ck cert e = Ok (e', fs)" using effect(1) by (auto simp: rbind_Ok_iff)
    then obtain e1 where d: "commit_decided X cfg cert e = Ok e1" "chain_part e' = chain_part e1"
      using on_decide_cases by metis
    from d(1) have "cf_validators (st_db (en_chain e1)) = kv_empty"
    proof (cases rule: commit_decided_cases)
      case (committed b s' mp' rep)
      then show ?thesis using no_rows_commit[OF committed(4)] effect(2) by (simp add: chain_part_def)
    qed (use effect(2) in simp)
    then show ?thesis using d(2) by (simp add: chain_part_def)
  next
    case (GetValue h r')
    then show ?thesis using effect
      by (auto simp: rbind_Ok_iff on_get_value_def Let_def split: result.splits)
  qed (use effect in \<open>auto simp: rbind_Ok_iff publish_def cancel_timeout_def schedule_timeout_def Let_def\<close>)
next
  case (gossip topic bs e e')
  then show ?case using on_gossip_fields by (fastforce simp: chain_part_def)
next
  case (timer e now)
  then show ?case using on_timer_fields(1)[of now e] by (simp add: chain_part_def)
next
  case (idle now e e')
  then show ?case using idle_check_fields by (fastforce simp: chain_part_def)
next
  case (submit stx e e' r)
  then show ?case using on_submit_fields by (fastforce simp: chain_part_def)
qed simp

lemma no_rows_seed:
  assumes "seed_state X hexd g s = Ok s'" "cf_validators (st_db s) = kv_empty"
  shows "cf_validators (st_db s') = kv_empty"
proof (cases "gc_models g \<noteq> [] \<and> st_current_height s = None")
  case True
  then obtain c where c: "rfold (seed_model hexd) (gc_models g) (begin_block s) = Ok c" "s' = snd (commit X c)"
    using assms(1) by (auto simp: seed_state_def seed_genesis_models_def rbind_Ok_iff)
  have "no_rows c = no_rows (begin_block s)"
    by (rule no_rows_rfold[OF c(1)]) (auto simp: seed_model_def split: option.splits if_splits)
  then have "no_rows c" using assms(2) by (simp add: no_rows_begin)
  then show ?thesis by (simp add: c(2) view_commit no_rows_def)
qed (use assms in \<open>auto simp: seed_state_def\<close>)

section \<open>A validated genesis\<close>

lemma decode_pubkey_Ok:
  "decode_pubkey hexd s = Ok pk \<longleftrightarrow>
   (\<exists>bs. hexd (strip_0x s) = Some bs \<and> length bs = 32 \<and> pk = \<lparr>pk_scheme = Ed25519, pk_bytes = bs\<rparr>)"
  by (auto simp: decode_pubkey_def pubkey_new_def split: option.splits)

lemma rfold_unit_Ok:
  "rfold f xs () = Ok u \<longleftrightarrow> (\<forall>x \<in> set xs. f x () = (Ok () :: ('e, unit) result))"
  by (induction xs) (auto simp: rbind_Ok_iff)

lemma check_keys_Ok:
  "check_validator_keys hexd v () = Ok () \<longleftrightarrow>
   (\<exists>pk a. decode_pubkey hexd (gv_pubkey_hex v) = Ok pk \<and> decode_address hexd (gv_operator_hex v) = Ok a)"
  by (auto simp: check_validator_keys_def rbind_Ok_iff)

definition info_from :: "genesis_validator \<Rightarrow> validator_info \<Rightarrow> bool" where
  "info_from gv i \<longleftrightarrow> pk_scheme (vi_consensus_key i) = Ed25519 \<and> length (pk_bytes (vi_consensus_key i)) = 32 \<and>
     vi_bonded_stake i = 0 \<and> vi_voting_power i = gv_voting_power gv \<and> vi_is_genesis i \<and> \<not> vi_jailed i"

lemma genesis_infos_Ok:
  assumes "\<forall>v \<in> set vs. check_validator_keys hexd v () = Ok ()"
  shows "\<exists>is. rfold (push_info X hexd) vs acc = Ok (acc @ is) \<and> list_all2 info_from vs is"
  using assms
proof (induction vs arbitrary: acc)
  case (Cons v vs)
  then obtain pk a where k: "decode_pubkey hexd (gv_pubkey_hex v) = Ok pk"
    "decode_address hexd (gv_operator_hex v) = Ok a" by (auto simp: check_keys_Ok)
  let ?i = "\<lparr>vi_node_id = x_blake3 X (pk_bytes pk), vi_consensus_key = pk, vi_operator = a,
         vi_bonded_stake = 0, vi_voting_power = gv_voting_power v, vi_is_genesis = True, vi_jailed = False\<rparr>"
  have p: "push_info X hexd v acc = Ok (acc @ [?i])"
    by (simp add: push_info_def genesis_to_validator_info_def k)
  have "info_from v ?i" using k(1) by (auto simp: info_from_def decode_pubkey_Ok)
  moreover obtain is' where "rfold (push_info X hexd) vs (acc @ [?i]) = Ok ((acc @ [?i]) @ is')"
    "list_all2 info_from vs is'" using Cons by (metis list.set_intros(2))
  ultimately show ?case by (intro exI[of _ "?i # is'"]) (simp add: p)
qed simp

section \<open>Properties\<close>

text \<open>A genesis that passes validation gives nobody a balance, has a usable gas target, and every one
  of its validators converts to an unstaked record with a 32-byte key; the consensus set exists as
  soon as one validator has voting power and the keys are points of the curve.\<close>

theorem validated_genesis_boots:
  assumes "validate_genesis hexd g = Ok ()"
  shows "gc_initial_accounts g = [] \<and> 0 < gp_gas_target (gc_params g) \<and>
    gp_gas_target (gc_params g) \<le> gp_gas_limit (gc_params g) \<and>
    (\<exists>is. genesis_infos X hexd g = Ok is \<and> list_all2 info_from (gc_validators g) is \<and>
       ((\<exists>v \<in> set (gc_validators g). 0 < gv_voting_power v) \<longrightarrow>
        (\<forall>i \<in> set is. key_ok (pk_bytes (vi_consensus_key i))) \<longrightarrow>
        (\<exists>vs. from_infos key_ok is = Ok vs \<and> vs \<noteq> [])))"
proof -
  have v: "gc_initial_accounts g = []" "gp_gas_target (gc_params g) \<noteq> 0"
    "\<not> gp_gas_limit (gc_params g) < gp_gas_target (gc_params g)"
    "\<forall>v \<in> set (gc_validators g). check_validator_keys hexd v () = Ok ()"
    using assms by (auto simp: validate_genesis_def rfold_unit_Ok split: if_splits)
  obtain is' where i: "genesis_infos X hexd g = Ok is'" "list_all2 info_from (gc_validators g) is'"
    using genesis_infos_Ok[OF v(4), of X "[]"] by (auto simp: genesis_infos_def)
  have "\<exists>vs. from_infos key_ok is' = Ok vs \<and> vs \<noteq> []"
    if p: "\<exists>v \<in> set (gc_validators g). 0 < gv_voting_power v"
      and k: "\<forall>i \<in> set is'. key_ok (pk_bytes (vi_consensus_key i))"
  proof -
    have each: "\<exists>v. info_from v i" if "i \<in> set is'" for i
      using i(2) that by (auto simp: list_all2_conv_all_nth in_set_conv_nth)
    obtain n where n: "n < length (gc_validators g)" "0 < gv_voting_power (gc_validators g ! n)"
      using p by (auto simp: in_set_conv_nth)
    then have "info_from (gc_validators g ! n) (is' ! n)" "is' ! n \<in> set is'"
      using i(2) by (auto simp: list_all2_conv_all_nth)
    then have a: "is' ! n \<in> set (active_infos is')" using n(2)
      by (auto simp: active_infos_def validator_is_active_def info_from_def)
    let ?vs = "sort_by validator_le (map to_chain_validator (active_infos is'))"
    have "\<forall>i \<in> set (active_infos is'). key_usable key_ok i"
      using k each by (auto simp: active_infos_def key_usable_def info_from_def)
    moreover have "active_infos is' \<noteq> []" using a by auto
    ultimately have "from_infos key_ok is' = Ok ?vs" unfolding from_infos_Ok by blast
    moreover have "set ?vs \<noteq> {}" using a by auto
    then have "?vs \<noteq> []" by (metis set_empty)
    ultimately show ?thesis by blast
  qed
  with v i show ?thesis by (intro conjI exI[of _ is']) auto
qed

definition demo_hexd :: "string \<Rightarrow> bytes option" where
  "demo_hexd s = (if s = ''k'' then Some (replicate 32 1) else if s = ''a'' then Some (replicate 20 2) else None)"

definition demo_genesis :: genesis_config where
  "demo_genesis =
     \<lparr>gc_chain_id = ''dev'', gc_initial_height = 0, gc_initial_timestamp_ms = 0,
      gc_validators = [\<lparr>gv_name = [], gv_pubkey_hex = ''k'', gv_operator_hex = ''0xa'', gv_voting_power = 1\<rparr>],
      gc_initial_accounts = [], gc_params = genesis_params_default, gc_message = [], gc_models = []\<rparr>"

lemma demo_genesis_valid: "validate_genesis demo_hexd demo_genesis = Ok ()"
  by (simp add: validate_genesis_def demo_genesis_def genesis_params_default_def check_validator_keys_def
      decode_pubkey_def decode_address_def address_from_hex_def pubkey_new_def strip_0x_def starts_with_def
      demo_hexd_def)

lemma validated_genesis_boots_witness:
  "\<exists>is vs. genesis_infos demo_ext demo_hexd demo_genesis = Ok is \<and> from_infos (\<lambda>_. True) is = Ok vs"
  using validated_genesis_boots[OF demo_genesis_valid, of demo_ext "\<lambda>_. True"]
  by (auto simp: demo_genesis_def)

text \<open>The genesis validators never reach the chain state: a node that boots on a state without validator
  rows has none in any later state of its engine, so no epoch boundary ever ranks, seats or removes
  anyone, and the set the consensus library is given stays the one of the genesis file.\<close>

theorem genesis_validators_never_stored:
  assumes "start_validator X hexd key_ok g local_pk now s = Ok (cfg, e)"
    and "cf_validators (st_db s) = kv_empty" and "(engine_step X W cfg P)\<^sup>*\<^sup>* e e'"
  shows "iter_validators (en_chain e') = [] \<and>
    (\<forall>h. recompute_validator_set (begin_block (en_chain e')) h = (begin_block (en_chain e'), 0)) \<and>
    (\<forall>h. handle_effect X W cfg ck (GetValidatorSet h) e' =
       Ok (e', ResumeValidatorSet (ec_validators cfg), []))"
proof -
  obtain s1 where s1: "seed_state X hexd g s = Ok s1" "e = engine_start X cfg s1 now"
    using assms(1) by (auto simp: start_validator_def rbind_Ok_iff Let_def split: if_splits)
  have "cf_validators (st_db (en_chain e)) = kv_empty"
    using no_rows_seed[OF s1(1) assms(2)] by (simp add: s1(2) engine_start_def)
  with assms(3) have "cf_validators (st_db (en_chain e')) = kv_empty"
    by (induction rule: rtranclp_induct) (auto dest: no_rows_step)
  then show ?thesis using no_rows_recompute[of "begin_block (en_chain e')"]
    by (simp add: iter_validators_def no_rows_begin)
qed

lemma genesis_validators_never_stored_witness:
  "\<exists>cfg e. start_validator demo_ext demo_hexd (\<lambda>_. True) demo_genesis (replicate 32 1) 0
       (state_open (demo_db [])) = Ok (cfg, e) \<and> iter_validators (en_chain e) = []"
proof -
  let ?i = "\<lparr>vi_node_id = x_blake3 demo_ext (replicate 32 1),
     vi_consensus_key = \<lparr>pk_scheme = Ed25519, pk_bytes = replicate 32 1\<rparr>,
     vi_operator = word_rcat (replicate 20 2 :: bytes), vi_bonded_stake = 0, vi_voting_power = 1,
     vi_is_genesis = True, vi_jailed = False\<rparr>"
  have i: "genesis_infos demo_ext demo_hexd demo_genesis = Ok [?i]"
    by (simp add: genesis_infos_def demo_genesis_def push_info_def genesis_to_validator_info_def
        decode_pubkey_def decode_address_def address_from_hex_def pubkey_new_def strip_0x_def starts_with_def
        demo_hexd_def)
  have v: "from_infos (\<lambda>_. True) [?i] = Ok (sort_by validator_le [to_chain_validator ?i])"
    unfolding from_infos_Ok by (simp add: active_infos_def validator_is_active_def key_usable_def)
  have sd: "seed_state demo_ext demo_hexd demo_genesis (state_open (demo_db [])) = Ok (state_open (demo_db []))"
    by (simp add: seed_state_def demo_genesis_def)
  have "\<exists>cfg e. start_validator demo_ext demo_hexd (\<lambda>_. True) demo_genesis (replicate 32 1) 0
      (state_open (demo_db [])) = Ok (cfg, e)"
    unfolding start_validator_def demo_genesis_valid i v sd rbind.simps map_err.simps Let_def by simp
  then obtain cfg e where s: "start_validator demo_ext demo_hexd (\<lambda>_. True) demo_genesis (replicate 32 1) 0
      (state_open (demo_db [])) = Ok (cfg, e)" by blast
  have "cf_validators (st_db (state_open (demo_db []))) = kv_empty" by (simp add: demo_db_def empty_db_def)
  from genesis_validators_never_stored[OF s this rtranclp.rtrancl_refl] s show ?thesis by blast
qed

end
