(* ===== verification/FreeTier.thy ===== *)
theory FreeTier
  imports ChainTypes "HOL-Library.Product_Lexorder"
begin

text \<open>
  The free-tier quota of a wallet (\<^verbatim>\<open>crates/compute/src/free_tier.rs\<close>) and the gossip that
  spreads its consumption between routers (\<^verbatim>\<open>crates/router/src/quota_gossip.rs\<close>): counters per
  wallet and UTC hour or day, the check and its reservation, the pending consumption of a router, the
  ticks it publishes and the replay cache of the receiver. The lemmas show that a router whose clock
  does not run backwards never grants more than the limits, and what the gossip does to the counts.

  A \<^verbatim>\<open>HashMap\<close> is a \<open>kv\<close>; where its iteration order is visible, in \<open>drain\<close>, the order is an
  argument.
\<close>

section \<open>Counters\<close>

definition MS_PER_HOUR :: nat where "MS_PER_HOUR = 3600 * 1000"

definition MS_PER_DAY :: nat where "MS_PER_DAY = 24 * MS_PER_HOUR"

definition DEFAULT_HOURLY_LIMIT :: nat where "DEFAULT_HOURLY_LIMIT = 10"

definition DEFAULT_DAILY_LIMIT :: nat where "DEFAULT_DAILY_LIMIT = 100"

record free_tier_config =
  fc_hourly_limit :: nat
  fc_daily_limit :: nat

definition free_tier_default :: free_tier_config where
  "free_tier_default = \<lparr>fc_hourly_limit = DEFAULT_HOURLY_LIMIT, fc_daily_limit = DEFAULT_DAILY_LIMIT\<rparr>"

datatype quota_outcome = Allowed nat nat | HourlyExceeded nat | DailyExceeded nat

fun is_allowed :: "quota_outcome \<Rightarrow> bool" where
  "is_allowed (Allowed h d) = True"
| "is_allowed _ = False"

type_synonym bucket_store = "(address \<times> nat, nat) kv"

lift_definition kv_retain :: "('k::linorder \<Rightarrow> bool) \<Rightarrow> ('k, 'v) kv \<Rightarrow> ('k, 'v) kv" is
  "\<lambda>P es. filter (P \<circ> fst) es"
  by (simp add: filter_map [symmetric] sorted_wrt_filter)

lemma kv_get_retain [simp]: "kv_get (kv_retain P m) k = (if P k then kv_get m k else None)"
proof (transfer, goal_cases)
  case (1 P es k)
  then show ?case
  proof (induction es)
    case (Cons e es)
    then have "map_of (filter (\<lambda>x. P (fst x)) es) k = (if P k then map_of es k else None)"
      by (simp add: comp_def)
    then show ?case by (cases e) (auto simp: comp_def)
  qed simp
qed

definition bucket_get :: "bucket_store \<Rightarrow> address \<Rightarrow> nat \<Rightarrow> nat" where
  "bucket_get s w idx = (case kv_get s (w, idx) of Some n \<Rightarrow> n | None \<Rightarrow> 0)"

definition bucket_add :: "address \<Rightarrow> nat \<Rightarrow> nat \<Rightarrow> bucket_store \<Rightarrow> bucket_store" where
  "bucket_add w idx delta s = kv_put (w, idx) (sat_add 32 (bucket_get s w idx) delta) s"

definition bucket_prune :: "nat \<Rightarrow> bucket_store \<Rightarrow> bucket_store" where
  "bucket_prune cutoff s = kv_retain (\<lambda>(_, idx). idx \<ge> cutoff) s"

lemma bucket_get_empty [simp]: "bucket_get kv_empty w i = 0"
  by (simp add: bucket_get_def)

lemma bucket_get_add [simp]:
  "bucket_get (bucket_add w i d s) w' i' =
     (if w' = w \<and> i' = i then sat_add 32 (bucket_get s w i) d else bucket_get s w' i')"
  by (simp add: bucket_get_def bucket_add_def)

lemma bucket_get_prune [simp]:
  "bucket_get (bucket_prune c s) w i = (if i \<ge> c then bucket_get s w i else 0)"
  by (simp add: bucket_get_def bucket_prune_def)

section \<open>The tracker\<close>

record quota_tracker =
  qt_cfg :: free_tier_config
  qt_hourly :: bucket_store
  qt_daily :: bucket_store

definition tracker_new :: "free_tier_config \<Rightarrow> quota_tracker" where
  "tracker_new cfg = \<lparr>qt_cfg = cfg, qt_hourly = kv_empty, qt_daily = kv_empty\<rparr>"

definition bucket_indices :: "timestamp \<Rightarrow> nat \<times> nat" where
  "bucket_indices now_ms = (now_ms div MS_PER_HOUR, now_ms div MS_PER_DAY)"

definition quota_check :: "quota_tracker \<Rightarrow> address \<Rightarrow> timestamp \<Rightarrow> ('e, quota_outcome) result" where
  "quota_check t w now_ms =
     (let (h_idx, d_idx) = bucket_indices now_ms;
          h_used = bucket_get (qt_hourly t) w h_idx;
          d_used = bucket_get (qt_daily t) w d_idx
      in if h_used \<ge> fc_hourly_limit (qt_cfg t)
         then rbind (uadd 64 h_idx 1) (\<lambda>i. rbind (umul 64 i MS_PER_HOUR) (\<lambda>r. Ok (HourlyExceeded r)))
         else if d_used \<ge> fc_daily_limit (qt_cfg t)
         then rbind (uadd 64 d_idx 1) (\<lambda>i. rbind (umul 64 i MS_PER_DAY) (\<lambda>r. Ok (DailyExceeded r)))
         else Ok (Allowed (fc_hourly_limit (qt_cfg t) - h_used) (fc_daily_limit (qt_cfg t) - d_used)))"

definition quota_consume ::
    "quota_tracker \<Rightarrow> address \<Rightarrow> timestamp \<Rightarrow> ('e, quota_tracker \<times> quota_outcome) result" where
  "quota_consume t w now_ms =
     rbind (quota_check t w now_ms) (\<lambda>outcome.
       let (h_idx, d_idx) = bucket_indices now_ms
       in Ok (if is_allowed outcome
              then t\<lparr>qt_hourly := bucket_add w h_idx 1 (qt_hourly t),
                     qt_daily := bucket_add w d_idx 1 (qt_daily t)\<rparr>
              else t, outcome))"

record quota_tick =
  qk_wallet :: address
  qk_hour_bucket :: nat
  qk_day_bucket :: nat
  qk_hourly_count :: nat
  qk_daily_count :: nat
  qk_nonce :: nat
  qk_emitted_at :: timestamp

definition absorb_tick :: "quota_tick \<Rightarrow> quota_tracker \<Rightarrow> quota_tracker" where
  "absorb_tick k t =
     (let t1 = (if qk_hourly_count k > 0
                then t\<lparr>qt_hourly := bucket_add (qk_wallet k) (qk_hour_bucket k) (qk_hourly_count k) (qt_hourly t)\<rparr>
                else t)
      in if qk_daily_count k > 0
         then t1\<lparr>qt_daily := bucket_add (qk_wallet k) (qk_day_bucket k) (qk_daily_count k) (qt_daily t1)\<rparr>
         else t1)"

definition tracker_prune :: "timestamp \<Rightarrow> quota_tracker \<Rightarrow> quota_tracker" where
  "tracker_prune now_ms t =
     (let (h_idx, d_idx) = bucket_indices now_ms
      in t\<lparr>qt_hourly := bucket_prune (sat_sub h_idx 1) (qt_hourly t),
           qt_daily := bucket_prune (sat_sub d_idx 1) (qt_daily t)\<rparr>)"

definition quota_counts :: "quota_tracker \<Rightarrow> address \<Rightarrow> timestamp \<Rightarrow> nat \<times> nat" where
  "quota_counts t w now_ms =
     (let (h_idx, d_idx) = bucket_indices now_ms
      in (bucket_get (qt_hourly t) w h_idx, bucket_get (qt_daily t) w d_idx))"

text \<open>When a job is granted, and what the grant writes.\<close>

lemma quota_check_allowed:
  assumes "quota_check t w now = (Ok out :: ('e, quota_outcome) result)"
  shows "is_allowed out \<longleftrightarrow>
    bucket_get (qt_hourly t) w (now div MS_PER_HOUR) < fc_hourly_limit (qt_cfg t) \<and>
    bucket_get (qt_daily t) w (now div MS_PER_DAY) < fc_daily_limit (qt_cfg t)"
  using assms
  by (auto simp: quota_check_def bucket_indices_def Let_def rbind_Ok_iff split: if_splits)

lemma quota_consume_cases:
  assumes "quota_consume t w now = (Ok (t', out) :: ('e, _) result)"
  obtains "is_allowed out"
      "t' = t\<lparr>qt_hourly := bucket_add w (now div MS_PER_HOUR) 1 (qt_hourly t),
              qt_daily := bucket_add w (now div MS_PER_DAY) 1 (qt_daily t)\<rparr>"
      "bucket_get (qt_hourly t) w (now div MS_PER_HOUR) < fc_hourly_limit (qt_cfg t)"
      "bucket_get (qt_daily t) w (now div MS_PER_DAY) < fc_daily_limit (qt_cfg t)"
    | "\<not> is_allowed out" "t' = t"
proof -
  from assms obtain o' where c: "quota_check t w now = (Ok o' :: ('e, _) result)" "out = o'"
    and t': "t' = (if is_allowed o'
              then t\<lparr>qt_hourly := bucket_add w (now div MS_PER_HOUR) 1 (qt_hourly t),
                     qt_daily := bucket_add w (now div MS_PER_DAY) 1 (qt_daily t)\<rparr>
              else t)"
    by (auto simp: quota_consume_def bucket_indices_def rbind_Ok_iff Let_def)
  from quota_check_allowed[OF c(1)] show thesis
    using that t' c(2) by (cases "is_allowed out") auto
qed

section \<open>Runs of a tracker\<close>

text \<open>A run of calls and the log of the jobs it granted. A run in which an addition or product
  overflows has no result.\<close>

datatype quota_call = Consume address timestamp | Absorb quota_tick | PruneAt timestamp

fun quota_step ::
    "quota_call \<Rightarrow> quota_tracker \<times> (address \<times> timestamp) list \<Rightarrow>
     ('e, quota_tracker \<times> (address \<times> timestamp) list) result" where
  "quota_step (Consume w now) (t, log) =
     rbind (quota_consume t w now) (\<lambda>(t', out). Ok (t', if is_allowed out then (w, now) # log else log))"
| "quota_step (Absorb k) (t, log) = Ok (absorb_tick k t, log)"
| "quota_step (PruneAt now) (t, log) = Ok (tracker_prune now t, log)"

fun call_time :: "quota_call \<Rightarrow> timestamp option" where
  "call_time (Consume w now) = Some now"
| "call_time (Absorb k) = None"
| "call_time (PruneAt now) = Some now"

definition granted :: "nat \<Rightarrow> address \<Rightarrow> nat \<Rightarrow> (address \<times> timestamp) list \<Rightarrow> nat" where
  "granted width w idx log = length (filter (\<lambda>(v, n). v = w \<and> n div width = idx) log)"

lemma granted_simps [simp]:
  "granted width w idx [] = 0"
  "granted width w idx ((v, n) # log) =
     (if v = w \<and> n div width = idx then Suc (granted width w idx log) else granted width w idx log)"
  by (simp_all add: granted_def)

text \<open>What the counters of one width guarantee at time \<open>now\<close>: no wallet was granted more than the
  limit in any bucket, and the buckets that can still be read count every grant.\<close>

definition counted :: "nat \<Rightarrow> nat \<Rightarrow> timestamp \<Rightarrow> bucket_store \<Rightarrow> (address \<times> timestamp) list \<Rightarrow> bool" where
  "counted width limit now s log \<longleftrightarrow>
     (\<forall>w i. granted width w i log \<le> limit \<and>
            (now div width \<le> Suc i \<longrightarrow> granted width w i log \<le> bucket_get s w i))"

lemma counted_later: "counted width limit now s log \<Longrightarrow> now \<le> now' \<Longrightarrow> counted width limit now' s log"
  unfolding counted_def by (meson div_le_mono le_trans)

lemma counted_add:
  assumes "counted width limit now s log" and "limit \<le> umax 32"
  shows "counted width limit now (bucket_add w i d s) log"
proof -
  have "granted width w i log \<le> umax 32" using assms by (auto simp: counted_def intro: le_trans)
  then show ?thesis using assms(1) by (auto simp: counted_def sat_add_def intro: trans_le_add1)
qed

lemma counted_grant:
  assumes "counted width limit now s log" and "limit \<le> umax 32"
    and "bucket_get s w (now div width) < limit"
  shows "counted width limit now (bucket_add w (now div width) 1 s) ((w, now) # log)"
proof -
  have g: "granted width w (now div width) log \<le> bucket_get s w (now div width)"
    using assms(1) by (simp add: counted_def)
  have "sat_add 32 (bucket_get s w (now div width)) 1 = bucket_get s w (now div width) + 1"
    using assms(2,3) by (intro sat_add_exact) (simp add: le_umax_iff)
  moreover have "Suc (granted width w (now div width) log) \<le> limit" using g assms(3) by linarith
  ultimately show ?thesis using assms(1) g by (auto simp: counted_def)
qed

lemma counted_prune:
  assumes "counted width limit now s log"
  shows "counted width limit now (bucket_prune (sat_sub (now div width) 1) s) log"
  using assms by (auto simp: counted_def sat_sub_def)

definition quota_inv :: "free_tier_config \<Rightarrow> timestamp \<Rightarrow> quota_tracker \<times> (address \<times> timestamp) list \<Rightarrow> bool" where
  "quota_inv cfg now s \<longleftrightarrow> (case s of (t, log) \<Rightarrow>
     qt_cfg t = cfg \<and> counted MS_PER_HOUR (fc_hourly_limit cfg) now (qt_hourly t) log \<and>
     counted MS_PER_DAY (fc_daily_limit cfg) now (qt_daily t) log)"

lemma quota_inv_later: "quota_inv cfg now s \<Longrightarrow> now \<le> now' \<Longrightarrow> quota_inv cfg now' s"
  by (auto simp: quota_inv_def intro: counted_later)

lemma quota_step_inv:
  assumes inv: "quota_inv cfg now (t, log)" and step: "quota_step c (t, log) = (Ok (t', log') :: ('e, _) result)"
    and lim: "fc_hourly_limit cfg \<le> umax 32" "fc_daily_limit cfg \<le> umax 32"
    and time: "\<And>n. call_time c = Some n \<Longrightarrow> n = now"
  shows "quota_inv cfg now (t', log')"
proof (cases c)
  case (Consume w n)
  with time have n: "n = now" by simp
  from Consume step obtain out where
    q: "quota_consume t w now = (Ok (t', out) :: ('e, _) result)"
    and log': "log' = (if is_allowed out then (w, now) # log else log)"
    by (auto simp: n rbind_Ok_iff)
  from q show ?thesis
  proof (cases rule: quota_consume_cases)
    case 1
    with inv lim log' show ?thesis by (auto simp: quota_inv_def intro!: counted_grant[unfolded One_nat_def])
  next
    case 2
    with inv log' show ?thesis by simp
  qed
next
  case (Absorb k)
  with inv step lim show ?thesis
    by (auto simp: quota_inv_def absorb_tick_def Let_def intro: counted_add)
next
  case (PruneAt n)
  with inv step time show ?thesis
    by (auto simp: quota_inv_def tracker_prune_def bucket_indices_def intro: counted_prune[unfolded One_nat_def])
qed

definition run_quota :: "quota_call list \<Rightarrow> free_tier_config \<Rightarrow>
     ('e, quota_tracker \<times> (address \<times> timestamp) list) result" where
  "run_quota calls cfg = rfold quota_step calls (tracker_new cfg, [])"

lemma rfold_quota_inv:
  assumes "quota_inv cfg now s" and "rfold quota_step calls s = (Ok s' :: ('e, _) result)"
    and "sorted (now # List.map_filter call_time calls)"
    and lim: "fc_hourly_limit cfg \<le> umax 32" "fc_daily_limit cfg \<le> umax 32"
  shows "\<exists>now'. quota_inv cfg now' s'"
  using assms(1-3)
proof (induction calls arbitrary: now s)
  case Nil
  then show ?case by auto
next
  case (Cons c calls)
  from Cons.prems(2) obtain s1 where
    s1: "quota_step c s = (Ok s1 :: ('e, _) result)" "rfold quota_step calls s1 = (Ok s' :: ('e, _) result)"
    by (auto simp: rbind_Ok_iff)
  obtain t log t1 log1 where pair: "s = (t, log)" "s1 = (t1, log1)" by (cases s, cases s1)
  define now1 where "now1 = (case call_time c of Some n \<Rightarrow> n | None \<Rightarrow> now)"
  have le: "now \<le> now1" and srt: "sorted (now1 # List.map_filter call_time calls)"
    using Cons.prems(3) by (auto simp: now1_def map_filter_simps split: option.splits)
  have "quota_inv cfg now1 (t, log)" using quota_inv_later Cons.prems(1) le pair by blast
  then have "quota_inv cfg now1 s1"
    using s1(1) unfolding pair
    by (rule quota_step_inv[OF _ _ lim]) (auto simp: now1_def)
  from Cons.IH[OF this s1(2) srt] show ?case .
qed

text \<open>C22: A router whose clock does not run backwards grants a wallet at most the hourly limit of jobs
  in every UTC hour and at most the daily limit in every UTC day, whatever ticks it absorbs and
  whenever it prunes its counters.\<close>

theorem quota_never_exceeded:
  assumes "run_quota calls cfg = (Ok (t, log) :: (unit, _) result)"
    and "sorted (List.map_filter call_time calls)"
    and "fc_hourly_limit cfg < 2 ^ 32" and "fc_daily_limit cfg < 2 ^ 32"
  shows "granted MS_PER_HOUR w i log \<le> fc_hourly_limit cfg \<and>
         granted MS_PER_DAY w j log \<le> fc_daily_limit cfg"
proof -
  have "quota_inv cfg 0 (tracker_new cfg, [])"
    by (simp add: quota_inv_def counted_def tracker_new_def)
  from rfold_quota_inv[OF this, of calls "(t, log)"] assms obtain now' where "quota_inv cfg now' (t, log)"
    by (auto simp: run_quota_def le_umax_iff)
  then show ?thesis by (auto simp: quota_inv_def counted_def)
qed

text \<open>Two jobs granted and a third refused, in one hour.\<close>

definition demo_quota :: free_tier_config where
  "demo_quota = \<lparr>fc_hourly_limit = 2, fc_daily_limit = 100\<rparr>"

lemmas quota_run_simps = run_quota_def tracker_new_def quota_consume_def quota_check_def
  bucket_indices_def MS_PER_HOUR_def MS_PER_DAY_def demo_quota_def Let_def bucket_get_def
  bucket_add_def sat_add_def umax_def uadd_def umul_def map_filter_simps

theorem quota_never_exceeded_witness:
  "\<exists>t log. run_quota [Consume 7 1000, Consume 7 1000, Consume 7 2000] demo_quota =
       (Ok (t, log) :: (unit, _) result) \<and> length log = 2 \<and> granted MS_PER_HOUR 7 0 log \<le> 2"
proof -
  define calls :: "quota_call list" where "calls = [Consume 7 1000, Consume 7 1000, Consume 7 2000]"
  obtain t log where run: "run_quota calls demo_quota = (Ok (t, log) :: (unit, _) result)" and len: "length log = 2"
    by (simp add: calls_def quota_run_simps)
  have "granted MS_PER_HOUR 7 0 log \<le> fc_hourly_limit demo_quota \<and>
        granted MS_PER_DAY 7 0 log \<le> fc_daily_limit demo_quota"
    by (rule quota_never_exceeded[OF run]) (simp_all add: calls_def demo_quota_def map_filter_simps)
  with run len show ?thesis by (auto simp: calls_def demo_quota_def)
qed

section \<open>Replay caches\<close>

text \<open>
  The bounded first-in-first-out memory of keys that were seen, which the receiver of ticks and the
  compute node (theory \<open>ComputeNode\<close>) keep. The locale is the contract of its insertion; its
  lemmas say for how long a key is remembered.
\<close>

locale replay_cache =
  fixes cap :: nat
    and ins :: "'k \<Rightarrow> 'k list \<Rightarrow> bool \<times> 'k list"
  assumes ins_seen: "k \<in> set s \<Longrightarrow> ins k s = (False, s)"
    and ins_fresh: "k \<notin> set s \<Longrightarrow> ins k s = (True, (if length s \<ge> cap then tl s else s) @ [k])"
begin

definition ins_all :: "'k list \<Rightarrow> 'k list \<Rightarrow> 'k list" where
  "ins_all ks s = fold (\<lambda>k s. snd (ins k s)) ks s"

lemma fresh_iff: "fst (ins k s) \<longleftrightarrow> k \<notin> set s"
  by (cases "k \<in> set s") (simp_all add: ins_seen ins_fresh)

lemma length_ins: "length s \<le> cap \<Longrightarrow> 0 < cap \<Longrightarrow> length (snd (ins k s)) \<le> cap"
  by (cases "k \<in> set s") (auto simp: ins_seen ins_fresh)

text \<open>A key keeps its place while fewer than \<open>cap\<close> keys come after it.\<close>

lemma kept:
  assumes "k \<in> set s" and "s = a @ k # b" and "length b + length ks < cap"
  shows "k \<in> set (ins_all ks s)"
  using assms
proof (induction ks arbitrary: s a b)
  case Nil
  then show ?case by (simp add: ins_all_def)
next
  case (Cons x ks)
  show ?case
  proof (cases "x \<in> set s")
    case True
    then show ?thesis using Cons.IH[of s a b] Cons.prems by (simp add: ins_all_def ins_seen)
  next
    case False
    let ?s = "(if length s \<ge> cap then tl s else s) @ [x]"
    have "\<exists>a'. ?s = a' @ k # (b @ [x])"
      using Cons.prems by (cases a) (auto split: if_splits)
    then obtain a' where a': "?s = a' @ k # (b @ [x])" ..
    have "k \<in> set (ins_all ks ?s)"
      by (rule Cons.IH[of _ a' "b @ [x]", OF _ a']) (use a' Cons.prems(3) in \<open>simp_all add: a'\<close>)
    then show ?thesis using False by (simp add: ins_all_def ins_fresh)
  qed
qed

lemma remembered:
  assumes "fst (ins k s)" and "length ks < cap"
  shows "\<not> fst (ins k (ins_all ks (snd (ins k s))))"
proof -
  from assms(1) have "snd (ins k s) = (if length s \<ge> cap then tl s else s) @ k # []"
    by (simp add: fresh_iff ins_fresh)
  from kept[OF _ this, of ks] assms(2) show ?thesis by (simp add: fresh_iff \<open>snd (ins k s) = _\<close>)
qed

text \<open>As many fresh keys as the cache holds push every older key out.\<close>

lemma ins_all_fresh:
  assumes "distinct ks" and "set ks \<inter> set s = {}" and "length s \<le> cap" and "0 < cap"
  shows "ins_all ks s = drop (length s + length ks - cap) (s @ ks)"
  using assms
proof (induction ks arbitrary: s)
  case Nil
  then show ?case by (simp add: ins_all_def)
next
  case (Cons x ks)
  let ?s = "(if length s \<ge> cap then tl s else s) @ [x]"
  have sub: "set ?s \<subseteq> insert x (set s)" by (cases s) auto
  have "ins_all (x # ks) s = ins_all ks ?s"
    using Cons.prems by (simp add: ins_all_def ins_fresh)
  also have "\<dots> = drop (length ?s + length ks - cap) (?s @ ks)"
    by (rule Cons.IH) (use Cons.prems sub in auto)
  also have "\<dots> = drop (length s + length (x # ks) - cap) (s @ x # ks)"
  proof (cases "length s \<ge> cap")
    case True
    then obtain a l where "s = a # l" using Cons.prems(4) by (cases s) auto
    with True Cons.prems(3) show ?thesis by (simp add: Suc_diff_le del: drop_append)
  qed simp
  finally show ?case .
qed

lemma forgotten:
  assumes "distinct ks" and "length ks = cap" and "0 < cap" and "set ks \<inter> set s = {}" and "length s \<le> cap"
    and "k \<notin> set ks"
  shows "fst (ins k (ins_all ks s))"
  using ins_all_fresh[OF assms(1,4,5,3)] assms(2,6) by (simp add: fresh_iff)

end

definition recent_insert :: "nat \<Rightarrow> address \<times> nat \<Rightarrow> (address \<times> nat) list \<Rightarrow> bool \<times> (address \<times> nat) list" where
  "recent_insert cap k seen =
     (if k \<in> set seen then (False, seen)
      else (True, (if length seen \<ge> cap then tl seen else seen) @ [k]))"

interpretation recent: replay_cache cap "recent_insert cap" for cap
  by unfold_locales (auto simp: recent_insert_def)

section \<open>Gossip of consumption\<close>

text \<open>What a router has granted and not yet published: per wallet the hour, the day and two counts.\<close>

type_synonym pending = "(address, nat \<times> nat \<times> nat \<times> nat) kv"

definition pending_record :: "address \<Rightarrow> timestamp \<Rightarrow> pending \<Rightarrow> pending" where
  "pending_record w now_ms p =
     (let (h, d) = bucket_indices now_ms;
          (h0, d0, hc, dc) = (case kv_get p w of Some e \<Rightarrow> e | None \<Rightarrow> (h, d, 0, 0))
      in kv_put w (h, d, sat_add 32 hc 1, sat_add 32 dc 1) p)"

fun drain_entries :: "(address \<times> nat \<times> nat \<times> nat \<times> nat) list \<Rightarrow> nat \<Rightarrow> timestamp \<Rightarrow> quota_tick list \<times> nat" where
  "drain_entries [] n now_ms = ([], n)"
| "drain_entries ((w, h, d, hc, dc) # es) n now_ms =
     (let (ticks, n') = drain_entries es (sat_add 64 n 1) now_ms
      in (\<lparr>qk_wallet = w, qk_hour_bucket = h, qk_day_bucket = d, qk_hourly_count = hc,
           qk_daily_count = dc, qk_nonce = n, qk_emitted_at = now_ms\<rparr> # ticks, n'))"

text \<open>\<open>drain\<close> empties the map; \<open>order\<close> is the order in which the hash map is walked.\<close>

definition pending_drain ::
    "((address \<times> nat \<times> nat \<times> nat \<times> nat) list \<Rightarrow> (address \<times> nat \<times> nat \<times> nat \<times> nat) list) \<Rightarrow>
     pending \<Rightarrow> nat \<Rightarrow> timestamp \<Rightarrow> quota_tick list \<times> nat \<times> pending" where
  "pending_drain order p next_nonce now_ms =
     (let (ticks, n) = drain_entries (order (kv_entries p)) next_nonce now_ms in (ticks, n, kv_empty))"

text \<open>One turn of the emitter: the drained ticks are encoded and handed to the transport, one by one;
  the pending map is empty afterwards whether or not the transport took them.\<close>

record emitter =
  em_pending :: pending
  em_nonce :: nat

definition emitter_start :: "pending \<Rightarrow> emitter" where
  "emitter_start p = \<lparr>em_pending = p, em_nonce = 0\<rparr>"

definition emitter_tick ::
    "((address \<times> nat \<times> nat \<times> nat \<times> nat) list \<Rightarrow> (address \<times> nat \<times> nat \<times> nat \<times> nat) list) \<Rightarrow>
     (quota_tick \<Rightarrow> bytes) \<Rightarrow> timestamp \<Rightarrow> emitter \<Rightarrow> bytes list \<times> emitter" where
  "emitter_tick order borsh now_ms e =
     (let (ticks, n, p) = pending_drain order (em_pending e) (em_nonce e) now_ms
      in (map borsh ticks, \<lparr>em_pending = p, em_nonce = n\<rparr>))"

datatype quota_error = BadTick | DuplicateTick

definition absorb_tick_bytes ::
    "(bytes \<Rightarrow> quota_tick option) \<Rightarrow> nat \<Rightarrow> bytes \<Rightarrow> quota_tracker \<Rightarrow> (address \<times> nat) list \<Rightarrow>
     quota_tracker \<times> (address \<times> nat) list \<times> (quota_error, unit) result" where
  "absorb_tick_bytes unborsh cap bs t seen =
     (case unborsh bs of
        None \<Rightarrow> (t, seen, Err BadTick)
      | Some k \<Rightarrow>
          (case recent_insert cap (qk_wallet k, qk_nonce k) seen of
             (False, seen') \<Rightarrow> (t, seen', Err DuplicateTick)
           | (True, seen') \<Rightarrow> (absorb_tick k t, seen', Ok ())))"

text \<open>A wallet's jobs recorded at the times \<open>ts\<close>.\<close>

definition record_all :: "address \<Rightarrow> timestamp list \<Rightarrow> pending \<Rightarrow> pending" where
  "record_all w ts p = fold (pending_record w) ts p"

lemma record_all_get:
  assumes "length ts < 2 ^ 32" and "kv_get p w = None" and "ts \<noteq> []"
  shows "record_all w ts p =
    kv_put w (last ts div MS_PER_HOUR, last ts div MS_PER_DAY, length ts, length ts) p"
  using assms(1,3)
proof (induction ts rule: rev_induct)
  case (snoc x ts)
  show ?case
  proof (cases "ts = []")
    case True
    with assms(2) show ?thesis
      by (simp add: record_all_def pending_record_def bucket_indices_def sat_add_def umax_def)
  next
    case False
    have "sat_add 32 (length ts) 1 = length ts + 1"
      using snoc.prems by (intro sat_add_exact) simp
    with snoc False show ?thesis
      by (simp add: record_all_def pending_record_def bucket_indices_def)
  qed
qed simp

lemma kv_entries_single [simp]: "kv_entries (kv_put k v kv_empty) = [(k, v)]"
  by simp

definition one_tick :: "address \<Rightarrow> timestamp list \<Rightarrow> nat \<Rightarrow> timestamp \<Rightarrow> quota_tick" where
  "one_tick w ts n now =
     \<lparr>qk_wallet = w, qk_hour_bucket = last ts div MS_PER_HOUR, qk_day_bucket = last ts div MS_PER_DAY,
      qk_hourly_count = length ts, qk_daily_count = length ts, qk_nonce = n, qk_emitted_at = now\<rparr>"

lemma drain_one_wallet:
  assumes "length ts < 2 ^ 32" and "ts \<noteq> []" and "\<And>x. order [x] = [x]"
  shows "pending_drain order (record_all w ts kv_empty) n now =
    ([one_tick w ts n now], sat_add 64 n 1, kv_empty)"
  using record_all_get[OF assms(1) kv_get_empty assms(2)] assms(3)
  by (simp add: pending_drain_def one_tick_def)

text \<open>A tick carries all jobs of a wallet in the hour of the last one. A router that granted jobs in
  two hours before its emitter ran makes a peer count them all in the later hour, so the peer refuses
  the wallet there once the total reaches the limit, however few jobs that hour had; and of the
  first ticks of two routers for one wallet the receiver drops the second as a replay.\<close>

theorem tick_charges_last_hour:
  assumes "length ts < 2 ^ 32" and "ts \<noteq> []" and "\<And>x. order [x] = [x]"
    and "us \<noteq> []" and "length us < 2 ^ 32" 
    and codec: "\<And>k. k \<in> {one_tick w ts 0 now1, one_tick w us 0 now2} \<Longrightarrow> unborsh (borsh k) = Some k"
    and "(pubs1, e1) = emitter_tick order borsh now1 (emitter_start (record_all w ts kv_empty))"
    and "(pubs2, e2) = emitter_tick order borsh now2 (emitter_start (record_all w us kv_empty))"
  shows "\<exists>b1 b2 t seen. pubs1 = [b1] \<and> pubs2 = [b2] \<and>
    absorb_tick_bytes unborsh cap b1 (tracker_new cfg) [] = (t, seen, Ok ()) \<and>
    (\<forall>h. bucket_get (qt_hourly t) w h = (if h = last ts div MS_PER_HOUR then length ts else 0)) \<and>
    (length ts \<ge> fc_hourly_limit cfg \<longrightarrow>
       \<not> (\<exists>o'. quota_check t w (last ts) = (Ok o' :: (unit, _) result) \<and> is_allowed o')) \<and>
    absorb_tick_bytes unborsh cap b2 t seen = (t, seen, Err DuplicateTick)"
proof -
  from assms(3,7,8) drain_one_wallet[OF assms(1-3)] drain_one_wallet[OF assms(5,4,3)]
  have pubs: "pubs1 = [borsh (one_tick w ts 0 now1)]" "pubs2 = [borsh (one_tick w us 0 now2)]"
    by (auto simp: emitter_tick_def emitter_start_def)
  define t where "t = absorb_tick (one_tick w ts 0 now1) (tracker_new cfg)"
  have new: "absorb_tick_bytes unborsh cap (borsh (one_tick w ts 0 now1)) (tracker_new cfg) [] =
      (t, [(w, 0)], Ok ())"
    by (simp add: absorb_tick_bytes_def recent_insert_def codec t_def) (simp add: one_tick_def)
  have dup: "absorb_tick_bytes unborsh cap (borsh (one_tick w us 0 now2)) t [(w, 0)] =
      (t, [(w, 0)], Err DuplicateTick)"
    by (simp add: absorb_tick_bytes_def recent_insert_def codec) (simp add: one_tick_def)
  have count: "bucket_get (qt_hourly t) w h = (if h = last ts div MS_PER_HOUR then length ts else 0)" for h
    using assms(1,2)
    by (simp add: t_def absorb_tick_def one_tick_def tracker_new_def Let_def sat_add_exact)
  have "qt_cfg t = cfg" by (simp add: t_def absorb_tick_def tracker_new_def Let_def)
  then have "\<not> is_allowed o'" if "quota_check t w (last ts) = (Ok o' :: (unit, _) result)"
    "length ts \<ge> fc_hourly_limit cfg" for o'
    using quota_check_allowed[OF that(1)] that(2) count by simp
  with pubs new dup count show ?thesis by blast
qed

text \<open>Two jobs at the end of the first hour and one in the second, under a limit of two jobs.\<close>

definition demo_unborsh :: "quota_tick list \<Rightarrow> bytes \<Rightarrow> quota_tick option" where
  "demo_unborsh ks bs = List.find (\<lambda>k. u64_be_bytes (qk_emitted_at k) = bs) ks"

theorem tick_charges_last_hour_witness:
  "\<exists>b1 b2 t seen.
    absorb_tick_bytes (demo_unborsh [one_tick 7 [3599998, 3599999, 3600000] 0 1, one_tick 7 [5] 0 2]) 16 b1
      (tracker_new demo_quota) [] = (t, seen, Ok ()) \<and>
    bucket_get (qt_hourly t) 7 1 = 3 \<and> bucket_get (qt_hourly t) 7 0 = 0 \<and>
    absorb_tick_bytes (demo_unborsh [one_tick 7 [3599998, 3599999, 3600000] 0 1, one_tick 7 [5] 0 2]) 16 b2
      t seen = (t, seen, Err DuplicateTick)"
proof -
  let ?borsh = "\<lambda>k. u64_be_bytes (qk_emitted_at k)"
  let ?ts = "[3599998, 3599999, 3600000] :: nat list"
  let ?un = "demo_unborsh [one_tick 7 ?ts 0 1, one_tick 7 [5] 0 2]"
  obtain p1 e1 where 1: "(p1, e1) = emitter_tick (\<lambda>x. x) ?borsh 1 (emitter_start (record_all 7 ?ts kv_empty))"
    by (metis surj_pair)
  obtain p2 e2 where 2: "(p2, e2) = emitter_tick (\<lambda>x. x) ?borsh 2 (emitter_start (record_all 7 [5] kv_empty))"
    by (metis surj_pair)
  have "u64_be_bytes 1 \<noteq> u64_be_bytes 2" using u64_be_bytes_inj[of 1 2] by fastforce
  moreover have "qk_emitted_at (one_tick w ts n now) = now" for w ts n now by (simp add: one_tick_def)
  ultimately have codec: "?un (?borsh k) = Some k" if "k \<in> {one_tick 7 ?ts 0 1, one_tick 7 [5] 0 2}" for k
    using that by (elim insertE emptyE) (simp_all only: demo_unborsh_def List.find.simps if_True if_False simp_thms)
  have "\<exists>b1 b2 t seen. p1 = [b1] \<and> p2 = [b2] \<and>
      absorb_tick_bytes ?un 16 b1 (tracker_new demo_quota) [] = (t, seen, Ok ()) \<and>
      (\<forall>h. bucket_get (qt_hourly t) 7 h = (if h = last ?ts div MS_PER_HOUR then length ?ts else 0)) \<and>
      (length ?ts \<ge> fc_hourly_limit demo_quota \<longrightarrow>
         \<not> (\<exists>o'. quota_check t 7 (last ?ts) = (Ok o' :: (unit, _) result) \<and> is_allowed o')) \<and>
      absorb_tick_bytes ?un 16 b2 t seen = (t, seen, Err DuplicateTick)"
    by (rule tick_charges_last_hour[OF _ _ _ _ _ codec 1 2]) simp_all
  then obtain b1 b2 t seen where
    r: "absorb_tick_bytes ?un 16 b1 (tracker_new demo_quota) [] = (t, seen, Ok ())"
      "\<forall>h. bucket_get (qt_hourly t) 7 h = (if h = last ?ts div MS_PER_HOUR then length ?ts else 0)"
      "absorb_tick_bytes ?un 16 b2 t seen = (t, seen, Err DuplicateTick)" by blast
  have "bucket_get (qt_hourly t) 7 1 = 3" "bucket_get (qt_hourly t) 7 0 = 0"
    by (simp_all add: r(2)[rule_format] MS_PER_HOUR_def)
  with r(1,3) show ?thesis by blast
qed

end
