(* ===== verification/InferenceWire.thy ===== *)
theory InferenceWire
  imports ChainTypes
begin

text \<open>
  Signatures (\<^verbatim>\<open>crates/crypto/src/signatures.rs\<close>, \<^verbatim>\<open>keys.rs\<close>, \<^verbatim>\<open>vrf.rs\<close>) and
  the messages between users, routers and compute nodes (\<^verbatim>\<open>crates/compute/src/wire.rs\<close>,
  \<^verbatim>\<open>crates/network/src/gossip.rs\<close>, \<^verbatim>\<open>inference_proto.rs\<close>): requests, the bytes that are signed,
  events, delegation certificates and pool offers.

  The Ed25519 primitives are the fields of \<open>crypto_ext\<close>, the borsh encodings those of
  \<open>infer_ext\<close>; the public key and the signature of a scheme-tagged value are byte strings, as in
  the code.
\<close>

section \<open>Signatures\<close>

record crypto_ext =
  kx_key_ok :: "bytes \<Rightarrow> bool"
  kx_verify :: "bytes \<Rightarrow> bytes \<Rightarrow> bytes \<Rightarrow> bool"
  kx_verify_batch :: "(bytes \<times> bytes \<times> bytes) list \<Rightarrow> bool"
  kx_sign :: "256 word \<Rightarrow> bytes \<Rightarrow> 512 word"
  kx_public :: "256 word \<Rightarrow> 256 word"

datatype sig_error = SignatureInvalid | InvalidKey | SchemeNotSupported

definition ed25519_pubkey :: "256 word \<Rightarrow> pubkey" where
  "ed25519_pubkey k = \<lparr>pk_scheme = Ed25519, pk_bytes = word_bytes k\<rparr>"

definition ed25519_sig :: "512 word \<Rightarrow> sig" where
  "ed25519_sig s = \<lparr>sig_scheme = Ed25519, sig_bytes = word_bytes s\<rparr>"

definition to_pubkey :: "crypto_ext \<Rightarrow> 256 word \<Rightarrow> pubkey" where
  "to_pubkey K sk = ed25519_pubkey (kx_public K sk)"

definition from_pubkey :: "crypto_ext \<Rightarrow> pubkey \<Rightarrow> (sig_error, bytes) result" where
  "from_pubkey K pk =
     (if pk_scheme pk \<noteq> Ed25519 then Err SchemeNotSupported
      else if length (pk_bytes pk) \<noteq> 32 then Err InvalidKey
      else if kx_key_ok K (pk_bytes pk) then Ok (pk_bytes pk) else Err InvalidKey)"

definition sign_bytes :: "crypto_ext \<Rightarrow> 256 word \<Rightarrow> bytes \<Rightarrow> sig" where
  "sign_bytes K sk msg = ed25519_sig (kx_sign K sk msg)"

definition verify_ed25519 :: "crypto_ext \<Rightarrow> pubkey \<Rightarrow> bytes \<Rightarrow> sig \<Rightarrow> (sig_error, unit) result" where
  "verify_ed25519 K pk msg sg =
     rbind (from_pubkey K pk) (\<lambda>vk.
       if length (sig_bytes sg) \<noteq> 64 then Err SignatureInvalid
       else if kx_verify K vk msg (sig_bytes sg) then Ok () else Err SignatureInvalid)"

definition verify_sig :: "crypto_ext \<Rightarrow> pubkey \<Rightarrow> bytes \<Rightarrow> sig \<Rightarrow> (sig_error, unit) result" where
  "verify_sig K pk msg sg =
     (if pk_scheme pk \<noteq> sig_scheme sg then Err SignatureInvalid
      else case pk_scheme pk of
        Ed25519 \<Rightarrow> verify_ed25519 K pk msg sg
      | _ \<Rightarrow> Err SchemeNotSupported)"

definition collect_batch ::
    "crypto_ext \<Rightarrow> pubkey \<times> bytes \<times> sig \<Rightarrow> (bytes \<times> bytes \<times> bytes) list \<Rightarrow>
     (sig_error, (bytes \<times> bytes \<times> bytes) list) result" where
  "collect_batch K item acc = (case item of (pk, msg, sg) \<Rightarrow>
     if pk_scheme pk \<noteq> Ed25519 \<or> sig_scheme sg \<noteq> Ed25519 then Err SchemeNotSupported
     else rbind (from_pubkey K pk) (\<lambda>vk.
       if length (sig_bytes sg) \<noteq> 64 then Err SignatureInvalid
       else Ok (acc @ [(vk, msg, sig_bytes sg)])))"

definition verify_batch ::
    "crypto_ext \<Rightarrow> (pubkey \<times> bytes \<times> sig) list \<Rightarrow> (sig_error, unit) result" where
  "verify_batch K items =
     rbind (rfold (collect_batch K) items []) (\<lambda>triples.
       if kx_verify_batch K triples then Ok () else Err SignatureInvalid)"

definition vrf_prove :: "ext \<Rightarrow> crypto_ext \<Rightarrow> 256 word \<Rightarrow> bytes \<Rightarrow> sig \<times> hash256" where
  "vrf_prove X K sk input =
     (let msg = x_sha256 X input; sg = sign_bytes K sk (word_bytes msg)
      in (sg, x_sha256 X (sig_bytes sg)))"

definition vrf_verify_proof ::
    "ext \<Rightarrow> crypto_ext \<Rightarrow> pubkey \<Rightarrow> bytes \<Rightarrow> sig \<Rightarrow> (sig_error, hash256) result" where
  "vrf_verify_proof X K pk input proof =
     rbind (verify_sig K pk (word_bytes (x_sha256 X input)) proof) (\<lambda>_.
       Ok (x_sha256 X (sig_bytes proof)))"

text \<open>What a verified signature guarantees, and what signing gives when the primitives are correct.\<close>

lemma verify_sig_Ok_iff:
  "verify_sig K pk msg sg = Ok () \<longleftrightarrow>
     pk_scheme pk = Ed25519 \<and> sig_scheme sg = Ed25519 \<and> length (pk_bytes pk) = 32 \<and>
     kx_key_ok K (pk_bytes pk) \<and> length (sig_bytes sg) = 64 \<and> kx_verify K (pk_bytes pk) msg (sig_bytes sg)"
  by (auto simp: verify_sig_def verify_ed25519_def from_pubkey_def rbind_Ok_iff
      split: signature_scheme.splits if_splits)

definition sound_keys :: "crypto_ext \<Rightarrow> bool" where
  "sound_keys K \<longleftrightarrow> (\<forall>sk. kx_key_ok K (word_bytes (kx_public K sk)) \<and>
     (\<forall>msg. kx_verify K (word_bytes (kx_public K sk)) msg (word_bytes (kx_sign K sk msg))))"

lemma signed_verifies: "sound_keys K \<Longrightarrow> verify_sig K (to_pubkey K sk) msg (sign_bytes K sk msg) = Ok ()"
  by (simp add: verify_sig_Ok_iff sound_keys_def to_pubkey_def ed25519_pubkey_def sign_bytes_def
      ed25519_sig_def)

lemma collect_batch_Ok:
  assumes "rfold (collect_batch K) items acc = Ok triples"
  shows "triples = acc @ map (\<lambda>(pk, msg, sg). (pk_bytes pk, msg, sig_bytes sg)) items \<and>
    (\<forall>(pk, msg, sg) \<in> set items. pk_scheme pk = Ed25519 \<and> sig_scheme sg = Ed25519 \<and>
       length (pk_bytes pk) = 32 \<and> kx_key_ok K (pk_bytes pk) \<and> length (sig_bytes sg) = 64)"
  using assms
proof (induction items arbitrary: acc)
  case (Cons it items)
  from Cons.prems obtain acc' where a: "collect_batch K it acc = Ok acc'"
    "rfold (collect_batch K) items acc' = Ok triples" by (auto simp: rbind_Ok_iff)
  from Cons.IH[OF a(2)] a(1) show ?case
    by (auto simp: collect_batch_def from_pubkey_def rbind_Ok_iff split: if_splits prod.splits)
qed simp

text \<open>Where the batch primitive is the conjunction of the single one, so is the batch check.\<close>

lemma verify_batch_sound:
  assumes "\<And>ts. kx_verify_batch K ts \<longleftrightarrow> (\<forall>(vk, msg, sg) \<in> set ts. kx_verify K vk msg sg)"
    and "verify_batch K items = Ok ()" and "(pk, msg, sg) \<in> set items"
  shows "verify_sig K pk msg sg = Ok ()"
proof -
  from assms(2) obtain triples where t: "rfold (collect_batch K) items [] = Ok triples"
    and v: "kx_verify_batch K triples"
    by (auto simp: verify_batch_def rbind_Ok_iff split: if_splits)
  note c = collect_batch_Ok[OF t]
  have "(pk_bytes pk, msg, sig_bytes sg) \<in> set triples" using c assms(3) by force
  with v assms(1) have "kx_verify K (pk_bytes pk) msg (sig_bytes sg)" by blast
  moreover from c assms(3) have "pk_scheme pk = Ed25519 \<and> sig_scheme sg = Ed25519 \<and>
      length (pk_bytes pk) = 32 \<and> kx_key_ok K (pk_bytes pk) \<and> length (sig_bytes sg) = 64" by blast
  ultimately show ?thesis by (simp add: verify_sig_Ok_iff)
qed

section \<open>Messages\<close>

record encrypted_envelope =
  ee_ephemeral :: bytes
  ee_nonce :: bytes
  ee_ciphertext :: bytes

record delegation_cert =
  dc_session_pubkey :: pubkey
  dc_spending_limit :: amount
  dc_expiry_ms :: timestamp
  dc_main_address :: address
  dc_main_pubkey :: pubkey
  dc_main_signature :: sig

record infer_request =
  rq_model_ref :: string
  rq_model_hash :: hash256
  rq_prompt :: bytes
  rq_max_tokens :: nat
  rq_seed :: nat
  rq_deterministic :: bool
  rq_stop_strings :: "bytes list"
  rq_nonce :: nat
  rq_timestamp_ms :: timestamp
  rq_user_pubkey :: pubkey
  rq_signature :: sig
  rq_prefer_tee :: bool
  rq_encrypted_prompt :: "encrypted_envelope option"
  rq_delegation :: "delegation_cert option"

definition derive_user_address :: "ext \<Rightarrow> pubkey \<Rightarrow> address" where
  "derive_user_address X pk = digest_address (x_blake3 X (pk_bytes pk))"

definition REQUEST_MAX_SKEW_MS :: nat where "REQUEST_MAX_SKEW_MS = 30000"

datatype stop_kind = MaxTokens | EndOfStream | StopString bytes | Cancelled

datatype job_event =
  Token job_id nat bytes
| Stop job_id stop_kind
| ErrorEvent job_id string
| Busy job_id

record request_body =
  bd_domain :: bytes
  bd_model_ref :: string
  bd_model_hash :: hash256
  bd_prompt :: bytes
  bd_max_tokens :: nat
  bd_seed :: nat
  bd_deterministic :: bool
  bd_stop_strings :: "bytes list"
  bd_nonce :: nat
  bd_timestamp_ms :: timestamp
  bd_user_pubkey :: pubkey
  bd_prefer_tee :: bool
  bd_encrypted_prompt :: "encrypted_envelope option"
  bd_delegation :: "delegation_cert option"

record delegation_body =
  db_domain :: bytes
  db_session_pubkey :: pubkey
  db_spending_limit :: amount
  db_expiry_ms :: timestamp
  db_main_address :: address

record pool_offer =
  po_peer_id :: bytes
  po_model_refs :: "string list"
  po_operator :: address
  po_total_stake :: amount
  po_supports_tee :: bool
  po_timestamp_ms :: timestamp
  po_available_slots :: nat

record infer_ext =
  ix_borsh_body :: "request_body \<Rightarrow> bytes"
  ix_borsh_delegation :: "delegation_body \<Rightarrow> bytes"
  ix_borsh_request :: "infer_request \<Rightarrow> bytes"
  ix_unborsh_request :: "bytes \<Rightarrow> infer_request option"
  ix_borsh_event :: "job_event \<Rightarrow> bytes"
  ix_unborsh_event :: "bytes \<Rightarrow> job_event option"
  ix_borsh_response :: "bytes list \<Rightarrow> bytes"
  ix_unborsh_response :: "bytes \<Rightarrow> bytes list option"

definition INFERENCE_REQUEST_DOMAIN :: bytes where
  "INFERENCE_REQUEST_DOMAIN = str_bytes ''arknet-inference-req-v1''"

definition signing_bytes :: "infer_ext \<Rightarrow> infer_request \<Rightarrow> bytes" where
  "signing_bytes I r = ix_borsh_body I
     \<lparr>bd_domain = INFERENCE_REQUEST_DOMAIN, bd_model_ref = rq_model_ref r, bd_model_hash = rq_model_hash r,
      bd_prompt = rq_prompt r, bd_max_tokens = rq_max_tokens r, bd_seed = rq_seed r,
      bd_deterministic = rq_deterministic r, bd_stop_strings = rq_stop_strings r, bd_nonce = rq_nonce r,
      bd_timestamp_ms = rq_timestamp_ms r, bd_user_pubkey = rq_user_pubkey r,
      bd_prefer_tee = rq_prefer_tee r, bd_encrypted_prompt = rq_encrypted_prompt r,
      bd_delegation = rq_delegation r\<rparr>"

definition billing_address :: "ext \<Rightarrow> infer_request \<Rightarrow> address" where
  "billing_address X r =
     (case rq_delegation r of
        Some cert \<Rightarrow> dc_main_address cert
      | None \<Rightarrow> derive_user_address X (rq_user_pubkey r))"

definition DELEGATION_DOMAIN :: bytes where
  "DELEGATION_DOMAIN = str_bytes ''arknet-session-delegation-v1''"

definition delegation_signing_bytes :: "infer_ext \<Rightarrow> delegation_cert \<Rightarrow> bytes" where
  "delegation_signing_bytes I cert = ix_borsh_delegation I
     \<lparr>db_domain = DELEGATION_DOMAIN, db_session_pubkey = dc_session_pubkey cert,
      db_spending_limit = dc_spending_limit cert, db_expiry_ms = dc_expiry_ms cert,
      db_main_address = dc_main_address cert\<rparr>"

datatype delegation_error = DelegationExpired | AddressMismatch | DelegationSignature sig_error

definition verify_delegation ::
    "ext \<Rightarrow> crypto_ext \<Rightarrow> infer_ext \<Rightarrow> delegation_cert \<Rightarrow> timestamp \<Rightarrow> (delegation_error, unit) result" where
  "verify_delegation X K I cert now_ms =
     (if now_ms > dc_expiry_ms cert then Err DelegationExpired
      else if derive_user_address X (dc_main_pubkey cert) \<noteq> dc_main_address cert then Err AddressMismatch
      else map_err DelegationSignature
             (verify_sig K (dc_main_pubkey cert) (delegation_signing_bytes I cert) (dc_main_signature cert)))"

lemma verify_delegation_Ok_iff:
  "verify_delegation X K I cert now = Ok () \<longleftrightarrow>
     now \<le> dc_expiry_ms cert \<and> derive_user_address X (dc_main_pubkey cert) = dc_main_address cert \<and>
     verify_sig K (dc_main_pubkey cert) (delegation_signing_bytes I cert) (dc_main_signature cert) = Ok ()"
  by (auto simp: verify_delegation_def)

section \<open>Topics and frames\<close>

definition gossip_topic :: "string \<Rightarrow> string \<Rightarrow> string" where
  "gossip_topic domain name = ''arknet/'' @ domain @ ''/'' @ name @ ''/1''"

definition topic_tx_mempool :: string where "topic_tx_mempool = gossip_topic ''tx'' ''mempool''"
definition topic_block_prop :: string where "topic_block_prop = gossip_topic ''block'' ''prop''"
definition topic_consensus_vote :: string where "topic_consensus_vote = gossip_topic ''consensus'' ''vote''"
definition topic_pool_offer :: string where "topic_pool_offer = gossip_topic ''pool'' ''offer''"
definition topic_receipt_attest :: string where "topic_receipt_attest = gossip_topic ''receipt'' ''attest''"
definition topic_gov_prop :: string where "topic_gov_prop = gossip_topic ''gov'' ''prop''"
definition topic_quota_tick :: string where "topic_quota_tick = gossip_topic ''quota'' ''tick''"

definition all_topics :: "string list" where
  "all_topics = [topic_tx_mempool, topic_block_prop, topic_consensus_vote, topic_pool_offer,
     topic_receipt_attest, topic_gov_prop, topic_quota_tick]"

lemmas topic_defs = topic_tx_mempool_def topic_block_prop_def topic_consensus_vote_def
  topic_pool_offer_def topic_receipt_attest_def topic_gov_prop_def topic_quota_tick_def gossip_topic_def

lemma topics_distinct: "distinct all_topics"
  by (simp add: all_topics_def topic_defs)

definition MAX_REQUEST_BYTES :: nat where "MAX_REQUEST_BYTES = 1024 * 1024"

definition MAX_RESPONSE_BYTES :: nat where "MAX_RESPONSE_BYTES = 4 * 1024 * 1024"

text \<open>A frame is four length bytes, most significant first, and the body. Reading from a byte string
  gives the body and what is left; too few bytes are an error of the transport.\<close>

datatype frame_error = FrameTooLong nat nat | UnexpectedEof

definition u32_be_bytes :: "nat \<Rightarrow> bytes" where
  "u32_be_bytes n = word_bytes (of_nat n :: 32 word)"

definition u32_of_be_bytes :: "bytes \<Rightarrow> nat" where
  "u32_of_be_bytes bs = foldl (\<lambda>n b. 256 * n + unat b) 0 bs"

definition write_framed :: "bytes \<Rightarrow> nat \<Rightarrow> (frame_error, bytes) result" where
  "write_framed body cap =
     (if length body > cap then Err (FrameTooLong (length body) cap)
      else Ok (u32_be_bytes (ucastn 32 (length body)) @ body))"

definition read_framed :: "bytes \<Rightarrow> nat \<Rightarrow> (frame_error, bytes \<times> bytes) result" where
  "read_framed io cap =
     (if length io < 4 then Err UnexpectedEof
      else let len = u32_of_be_bytes (take 4 io); rest = drop 4 io
           in if len > cap then Err (FrameTooLong len cap)
              else if length rest < len then Err UnexpectedEof
              else Ok (take len rest, drop len rest))"

lemma u32_of_be_bytes_inverse:
  assumes "n < 2 ^ 32"
  shows "u32_of_be_bytes (u32_be_bytes n) = n"
proof -
  let ?w = "of_nat n :: 32 word"
  have w: "unat ?w = n" using assms by (simp add: unat_of_nat)
  have "unat (drop_bit k ?w) = n div 2 ^ k" for k
    by (simp only: unat_drop_bit_eq w) (simp only: drop_bit_eq_div)
  then have byte: "unat (ucast (drop_bit k ?w) :: byte) = (n div 2 ^ k) mod 256" for k
    by (simp add: unsigned_ucast_eq take_bit_eq_mod)
  have "u32_be_bytes n = [ucast (drop_bit 24 ?w), ucast (drop_bit 16 ?w), ucast (drop_bit 8 ?w), ucast ?w]"
    by (simp add: u32_be_bytes_def word_bytes_def upt_rec)
  then have "u32_of_be_bytes (u32_be_bytes n) =
      256 * (256 * (256 * ((n div 2 ^ 24) mod 256) + (n div 2 ^ 16) mod 256) + (n div 2 ^ 8) mod 256) + n mod 256"
    using byte[of 24] byte[of 16] byte[of 8] byte[of 0] by (simp add: u32_of_be_bytes_def)
  also have "\<dots> = n"
  proof -
    define a b c where "a = n div 256" and "b = a div 256" and "c = b div 256"
    have d: "n div 2 ^ 8 = a" "n div 2 ^ 16 = b" "n div 2 ^ 24 = c"
      by (simp_all add: a_def b_def c_def div_mult2_eq [symmetric])
    have "c < 256" using assms by (simp add: c_def b_def a_def div_mult2_eq [symmetric] div_less_iff_less_mult)
    moreover have "n = 256 * a + n mod 256" "a = 256 * b + a mod 256" "b = 256 * c + b mod 256"
      by (simp_all only: a_def b_def c_def mult_div_mod_eq)
    ultimately show ?thesis by (simp only: d mod_less)
  qed
  finally show ?thesis .
qed

text \<open>A frame within the cap is read back, and the reader stops exactly at its end.\<close>

lemma frame_roundtrip:
  assumes "write_framed body cap = Ok fr" and "cap < 2 ^ 32"
  shows "read_framed (fr @ rest) cap = Ok (body, rest)"
proof -
  from assms(1) have le: "length body \<le> cap" and fr: "fr = u32_be_bytes (length body) @ body"
    using assms(2) by (auto simp: write_framed_def ucastn_def split: if_splits)
  have "length (u32_be_bytes n) = 4" for n by (simp add: u32_be_bytes_def)
  moreover have "u32_of_be_bytes (u32_be_bytes (length body)) = length body"
    using le assms(2) by (intro u32_of_be_bytes_inverse) linarith
  ultimately show ?thesis using le by (simp add: read_framed_def fr)
qed

end
