(* ===== verification/Router.thy ===== *)
theory Router
  imports FreeTier InferenceWire CircuitBreaker SortBy
begin

text \<open>
  The router (\<^verbatim>\<open>crates/router/src\<close>): the registry of compute candidates
  (\<^verbatim>\<open>candidate.rs\<close>), their ranking (\<^verbatim>\<open>selection.rs\<close>), the failover over the ranking
  (\<^verbatim>\<open>failover.rs\<close>) and the intake of requests (\<^verbatim>\<open>intake.rs\<close>), with the quota of theory
  \<open>FreeTier\<close> and the breaker of theory \<open>CircuitBreaker\<close>.

  A dispatcher is a function of the request and of a state \<open>'w\<close> outside the router (the compute nodes
  and the network); it may not return (\<open>None\<close>), fail, or give a stream. A stream is the list of the
  events that will arrive, whether the first item (or the end) comes before the router stops waiting
  for it, and whether the sender closes the stream after them.
\<close>

section \<open>Streams and candidates\<close>

datatype bad_request =
  EmptyPrompt | TeeWithoutEnvelope | ZeroMaxTokens | StaleRequest | UnsupportedScheme signature_scheme
| BadSignature | MissingDomain | SessionKeyMismatch | BadDelegation delegation_error

datatype router_error =
  NoCandidate
| NoTeeCandidate
| FreeTierExhausted string
| BadRequest bad_request
| ComputeFailed string
| Dispatch string
| Internal string

fun error_from_event :: "job_event \<Rightarrow> router_error option" where
  "error_from_event (ErrorEvent j msg) = Some (ComputeFailed msg)"
| "error_from_event _ = None"

record job_stream =
  js_events :: "job_event list"
  js_in_time :: bool
  js_closes :: bool

record 'w candidate =
  ca_node_id :: node_id
  ca_operator :: address
  ca_total_stake :: amount
  ca_model_refs :: "string list"
  ca_last_seen_ms :: timestamp
  ca_dispatcher :: "infer_request \<Rightarrow> 'w \<Rightarrow> ((router_error, job_stream) result \<times> 'w) option"
  ca_supports_tee :: bool

definition CANDIDATE_TTL_MS :: nat where "CANDIDATE_TTL_MS = 5 * 60 * 1000"

definition is_fresh :: "'w candidate \<Rightarrow> timestamp \<Rightarrow> bool" where
  "is_fresh c now_ms \<longleftrightarrow> sat_sub now_ms (ca_last_seen_ms c) \<le> CANDIDATE_TTL_MS"

definition serves :: "'w candidate \<Rightarrow> string \<Rightarrow> bool" where
  "serves c model_ref \<longleftrightarrow> list_ex (\<lambda>r. r = model_ref) (ca_model_refs c)"

type_synonym 'w registry = "(node_id, 'w candidate) kv"

definition registry_upsert :: "'w candidate \<Rightarrow> 'w registry \<Rightarrow> 'w registry" where
  "registry_upsert c r = kv_put (ca_node_id c) c r"

definition registry_remove :: "node_id \<Rightarrow> 'w registry \<Rightarrow> 'w candidate option \<times> 'w registry" where
  "registry_remove n r = (kv_get r n, kv_del n r)"

definition node_id_le :: "'w candidate \<Rightarrow> 'w candidate \<Rightarrow> bool" where
  "node_id_le a b \<longleftrightarrow> ca_node_id a \<le> ca_node_id b"

definition registry_snapshot :: "'w registry \<Rightarrow> 'w candidate list" where
  "registry_snapshot r = sort_by node_id_le (map snd (kv_entries r))"

definition registry_eligible :: "'w registry \<Rightarrow> string \<Rightarrow> timestamp \<Rightarrow> 'w candidate list" where
  "registry_eligible r model_ref now_ms =
     filter (\<lambda>c. serves c model_ref \<and> is_fresh c now_ms) (registry_snapshot r)"

section \<open>Ranking\<close>

definition rank_le :: "'w candidate \<Rightarrow> 'w candidate \<Rightarrow> bool" where
  "rank_le a b \<longleftrightarrow> ca_total_stake b < ca_total_stake a \<or>
     (ca_total_stake b = ca_total_stake a \<and> ca_node_id a \<le> ca_node_id b)"

interpretation ranking: comparison rank_le
  by unfold_locales (auto simp: rank_le_def)

definition rank_for :: "'w registry \<Rightarrow> string \<Rightarrow> timestamp \<Rightarrow> 'w candidate list" where
  "rank_for r model_ref now_ms = sort_by rank_le (registry_eligible r model_ref now_ms)"

definition pick :: "'w registry \<Rightarrow> string \<Rightarrow> timestamp \<Rightarrow> (router_error, 'w candidate) result" where
  "pick r model_ref now_ms =
     (case rank_for r model_ref now_ms of [] \<Rightarrow> Err NoCandidate | c # _ \<Rightarrow> Ok c)"

definition rank_for_tee :: "'w registry \<Rightarrow> string \<Rightarrow> timestamp \<Rightarrow> 'w candidate list" where
  "rank_for_tee r model_ref now_ms = filter ca_supports_tee (rank_for r model_ref now_ms)"

definition pick_tee :: "'w registry \<Rightarrow> string \<Rightarrow> timestamp \<Rightarrow> (router_error, 'w candidate) result" where
  "pick_tee r model_ref now_ms =
     (case rank_for_tee r model_ref now_ms of [] \<Rightarrow> Err NoTeeCandidate | c # _ \<Rightarrow> Ok c)"

text \<open>A registry is built by \<open>upsert\<close> and \<open>remove\<close>, so every entry sits under its own node id.\<close>

datatype 'w registry_op = Upsert "'w candidate" | Remove node_id

fun registry_step :: "'w registry_op \<Rightarrow> 'w registry \<Rightarrow> 'w registry" where
  "registry_step (Upsert c) r = registry_upsert c r"
| "registry_step (Remove n) r = snd (registry_remove n r)"

definition registry_run :: "'w registry_op list \<Rightarrow> 'w registry" where
  "registry_run ops = fold registry_step ops kv_empty"

definition registry_wf :: "'w registry \<Rightarrow> bool" where
  "registry_wf r \<longleftrightarrow> (\<forall>n c. kv_get r n = Some c \<longrightarrow> ca_node_id c = n)"

lemma registry_wfD: "registry_wf r \<Longrightarrow> kv_get r n = Some c \<Longrightarrow> ca_node_id c = n"
  unfolding registry_wf_def by blast

lemma registry_wfI: "(\<And>n c. kv_get r n = Some c \<Longrightarrow> ca_node_id c = n) \<Longrightarrow> registry_wf r"
  unfolding registry_wf_def by blast

lemma registry_step_wf:
  assumes wf: "registry_wf r"
  shows "registry_wf (registry_step op r)"
proof (rule registry_wfI)
  fix n c
  assume get: "kv_get (registry_step op r) n = Some c"
  show "ca_node_id c = n"
  proof (cases op)
    case (Upsert c')
    then have eq: "registry_step op r = kv_put (ca_node_id c') c' r" by (simp add: registry_upsert_def)
    show ?thesis
    proof (cases "n = ca_node_id c'")
      case True
      with get have "c = c'" by (simp add: eq)
      with True show ?thesis by (simp only:)
    next
      case False
      with get have "kv_get r n = Some c" by (simp add: eq)
      with wf show ?thesis by (rule registry_wfD)
    qed
  next
    case (Remove n')
    with get have "kv_get r n = Some c" by (simp add: registry_remove_def split: if_splits)
    with wf show ?thesis by (rule registry_wfD)
  qed
qed

lemma registry_run_wf [simp]: "registry_wf (registry_run ops)"
proof -
  have "registry_wf r \<Longrightarrow> registry_wf (fold registry_step ops r)" for r
    by (induction ops arbitrary: r) (auto intro: registry_step_wf)
  moreover have "registry_wf kv_empty" by (rule registry_wfI) simp
  ultimately show ?thesis unfolding registry_run_def .
qed

lemma registry_snapshot_set:
  assumes "registry_wf r"
  shows "c \<in> set (registry_snapshot r) \<longleftrightarrow> kv_get r (ca_node_id c) = Some c"
proof -
  have "set (registry_snapshot r) = {c. \<exists>n. kv_get r n = Some c}"
    by (auto simp: registry_snapshot_def kv.set_entries image_iff)
  with assms show ?thesis unfolding registry_wf_def by blast
qed

lemma rank_for_set:
  "registry_wf r \<Longrightarrow> c \<in> set (rank_for r m now) \<longleftrightarrow>
     kv_get r (ca_node_id c) = Some c \<and> serves c m \<and> is_fresh c now"
  using registry_snapshot_set[of r c] unfolding rank_for_def registry_eligible_def by simp

lemma rank_for_sorted: "sorted_wrt rank_le (rank_for r m now)"
  unfolding rank_for_def by (rule ranking.sort_by_sorted)

text \<open>No two candidates of a registry tie.\<close>

lemma rank_strict:
  assumes "registry_wf r" and "c \<in> set (rank_for r m now)" and "d \<in> set (rank_for r m now)"
    and "c \<noteq> d" and "rank_le c d"
  shows "ca_total_stake d < ca_total_stake c \<or>
    (ca_total_stake d = ca_total_stake c \<and> ca_node_id c < ca_node_id d)"
proof -
  have "ca_node_id c \<noteq> ca_node_id d"
    using assms(2-4) rank_for_set[OF assms(1)] by (metis option.inject)
  with assms(5) show ?thesis by (auto simp: rank_le_def)
qed

lemma pick_Ok_iff:
  assumes wf: "registry_wf r"
  shows "pick r m now = Ok c \<longleftrightarrow> c \<in> set (rank_for r m now) \<and>
    (\<forall>d \<in> set (rank_for r m now). d \<noteq> c \<longrightarrow> ca_total_stake d < ca_total_stake c \<or>
       (ca_total_stake d = ca_total_stake c \<and> ca_node_id c < ca_node_id d))"
proof (cases "rank_for r m now")
  case (Cons e es)
  have le: "rank_le e d" if "d \<in> set (e # es)" for d
    using rank_for_sorted[of r m now] that by (auto simp: Cons rank_le_def)
  have strict: "ca_total_stake d < ca_total_stake e \<or>
      (ca_total_stake d = ca_total_stake e \<and> ca_node_id e < ca_node_id d)"
    if "d \<in> set (e # es)" "d \<noteq> e" for d
    using rank_strict[OF wf, of e m now d] le that by (auto simp: Cons)
  show ?thesis
  proof
    assume "pick r m now = Ok c"
    then have "c = e" by (simp add: pick_def Cons)
    with strict show "c \<in> set (rank_for r m now) \<and> (\<forall>d \<in> set (rank_for r m now). d \<noteq> c \<longrightarrow>
        ca_total_stake d < ca_total_stake c \<or>
        (ca_total_stake d = ca_total_stake c \<and> ca_node_id c < ca_node_id d))"
      by (simp add: Cons)
  next
    assume c: "c \<in> set (rank_for r m now) \<and> (\<forall>d \<in> set (rank_for r m now). d \<noteq> c \<longrightarrow>
        ca_total_stake d < ca_total_stake c \<or>
        (ca_total_stake d = ca_total_stake c \<and> ca_node_id c < ca_node_id d))"
    have "c = e"
    proof (rule ccontr)
      assume "c \<noteq> e"
      with c strict[of c] have "ca_total_stake c < ca_total_stake e \<or>
          (ca_total_stake c = ca_total_stake e \<and> ca_node_id e < ca_node_id c)"
        using c by (auto simp only: Cons)
      moreover from c \<open>c \<noteq> e\<close> have "ca_total_stake e < ca_total_stake c \<or>
          (ca_total_stake e = ca_total_stake c \<and> ca_node_id c < ca_node_id e)"
        unfolding Cons by simp
      ultimately show False by auto
    qed
    then show "pick r m now = Ok c" by (simp add: pick_def Cons)
  qed
qed (simp add: pick_def)

section \<open>Failover\<close>

fun is_terminal :: "job_event \<Rightarrow> bool" where
  "is_terminal (Stop j r) = True"
| "is_terminal (ErrorEvent j m) = True"
| "is_terminal _ = False"

text \<open>The forwarding task after the first event: it stops at a terminal event; when the inner stream
  ends without one it adds a \<^verbatim>\<open>Cancelled\<close>.\<close>

fun forward_rest :: "job_id \<Rightarrow> bool \<Rightarrow> job_event list \<Rightarrow> job_event list \<times> bool" where
  "forward_rest job closes [] = (if closes then ([Stop job Cancelled], True) else ([], False))"
| "forward_rest job closes (ev # evs) =
     (if is_terminal ev then ([ev], True)
      else let (out, ends) = forward_rest job closes evs in (ev # out, ends))"

definition dispatch_one ::
    "'w candidate \<Rightarrow> infer_request \<Rightarrow> job_id \<Rightarrow> 'w \<Rightarrow> ((router_error, job_stream) result \<times> 'w) option" where
  "dispatch_one c req job w =
     (case ca_dispatcher c req w of
        None \<Rightarrow> None
      | Some (r, w') \<Rightarrow> Some (rbind r (\<lambda>inner.
          if \<not> js_in_time inner then Err (Dispatch ''first-token timeout'')
          else case js_events inner of
            [] \<Rightarrow> Err (Dispatch ''empty stream'')
          | first # rest \<Rightarrow>
              (case first of
                 ErrorEvent j message \<Rightarrow> Err (ComputeFailed message)
               | _ \<Rightarrow> let (out, ends) = forward_rest job (js_closes inner) rest
                      in Ok \<lparr>js_events = first # out, js_in_time = True, js_closes = ends\<rparr>)), w'))"

fun try_candidates ::
    "'w candidate list \<Rightarrow> infer_request \<Rightarrow> job_id \<Rightarrow> router_error option \<Rightarrow> 'w \<Rightarrow>
     ((router_error, job_stream) result \<times> 'w) option" where
  "try_candidates [] req job last_err w =
     Some (Err (case last_err of Some e \<Rightarrow> e | None \<Rightarrow> NoCandidate), w)"
| "try_candidates (c # cs) req job last_err w =
     (case dispatch_one c req job w of
        None \<Rightarrow> None
      | Some (Err e, w') \<Rightarrow> try_candidates cs req job (Some e) w'
      | Some (r, w') \<Rightarrow> Some (r, w'))"

definition dispatch_with_failover ::
    "'w candidate list \<Rightarrow> infer_request \<Rightarrow> job_id \<Rightarrow> 'w \<Rightarrow>
     ((router_error, job_stream) result \<times> 'w) option" where
  "dispatch_with_failover ranked req job w =
     (if ranked = [] then Some (Err NoCandidate, w) else try_candidates ranked req job None w)"

definition error_stream :: "job_id \<Rightarrow> string \<Rightarrow> job_stream" where
  "error_stream job message =
     \<lparr>js_events = [ErrorEvent job message], js_in_time = True, js_closes = True\<rparr>"

text \<open>The candidates \<open>cs\<close>, tried from the outside state \<open>w\<close>, all fail and leave \<open>w'\<close>; \<open>es\<close> are
  their errors.\<close>

inductive all_fail ::
    "infer_request \<Rightarrow> job_id \<Rightarrow> 'w candidate list \<Rightarrow> 'w \<Rightarrow> router_error list \<Rightarrow> 'w \<Rightarrow> bool"
  for req job where
  none: "all_fail req job [] w [] w"
| more: "dispatch_one c req job w = Some (Err e, w1) \<Longrightarrow> all_fail req job cs w1 es w2 \<Longrightarrow>
    all_fail req job (c # cs) w (e # es) w2"

inductive_cases all_fail_ConsE: "all_fail req job (c # cs) w es w'"
inductive_cases all_fail_NilE: "all_fail req job [] w es w'"

lemma try_candidates_Ok_iff:
  "try_candidates cs req job le w = Some (Ok s, w') \<longleftrightarrow>
     (\<exists>pre c post es w1. cs = pre @ c # post \<and> all_fail req job pre w es w1 \<and>
        dispatch_one c req job w1 = Some (Ok s, w'))"
proof (induction cs arbitrary: le w)
  case Nil
  then show ?case by simp
next
  case (Cons c cs)
  show ?case
  proof
    assume L: "try_candidates (c # cs) req job le w = Some (Ok s, w')"
    show "\<exists>pre c' post es w1. c # cs = pre @ c' # post \<and> all_fail req job pre w es w1 \<and>
        dispatch_one c' req job w1 = Some (Ok s, w')"
    proof (cases "dispatch_one c req job w = Some (Ok s, w')")
      case True
      then show ?thesis using all_fail.none[of req job w] by fastforce
    next
      case False
      with L obtain e w1 where d: "dispatch_one c req job w = Some (Err e, w1)"
        "try_candidates cs req job (Some e) w1 = Some (Ok s, w')"
        by (auto split: option.splits result.splits prod.splits)
      from d(2) Cons.IH obtain pre c' post es w2 where
        "cs = pre @ c' # post" "all_fail req job pre w1 es w2" "dispatch_one c' req job w2 = Some (Ok s, w')"
        by blast
      with all_fail.more[OF d(1)] show ?thesis by (metis append_Cons)
    qed
  next
    assume "\<exists>pre c' post es w1. c # cs = pre @ c' # post \<and> all_fail req job pre w es w1 \<and>
        dispatch_one c' req job w1 = Some (Ok s, w')"
    then obtain pre c' post es w1 where R: "c # cs = pre @ c' # post" "all_fail req job pre w es w1"
      "dispatch_one c' req job w1 = Some (Ok s, w')" by blast
    show "try_candidates (c # cs) req job le w = Some (Ok s, w')"
    proof (cases pre)
      case Nil
      with R show ?thesis by (auto elim: all_fail_NilE)
    next
      case (Cons a pre')
      with R(1,2) obtain e w2 es' where "dispatch_one c req job w = Some (Err e, w2)"
        "all_fail req job pre' w2 es' w1" "cs = pre' @ c' # post"
        by (auto elim: all_fail_ConsE)
      with Cons.IH R(3) show ?thesis by auto
    qed
  qed
qed

lemma try_candidates_Err_iff:
  "try_candidates cs req job le w = Some (Err e, w') \<longleftrightarrow>
     (\<exists>es. all_fail req job cs w es w' \<and> e = last ((case le of Some e0 \<Rightarrow> e0 | None \<Rightarrow> NoCandidate) # es))"
proof (induction cs arbitrary: le w)
  case Nil
  then show ?case by (auto elim: all_fail_NilE intro: all_fail.none)
next
  case (Cons c cs)
  show ?case
  proof (cases "dispatch_one c req job w")
    case None
    then show ?thesis by (auto elim: all_fail_ConsE)
  next
    case (Some p)
    obtain r w1 where p: "p = (r, w1)" by (cases p)
    show ?thesis
    proof (cases r)
      case (Err e1)
      have "(\<exists>es. all_fail req job (c # cs) w es w' \<and> e = last ((case le of Some e0 \<Rightarrow> e0 | None \<Rightarrow> NoCandidate) # es)) \<longleftrightarrow>
          (\<exists>es. all_fail req job cs w1 es w' \<and> e = last (e1 # es))"
        using Some p Err by (fastforce elim: all_fail_ConsE intro: all_fail.more)
      with Cons.IH[of "Some e1" w1] Some p Err show ?thesis by simp
    qed (use Some p in \<open>auto elim: all_fail_ConsE\<close>)
  qed
qed

end
