(* ===== verification/Intake.thy ===== *)
theory Intake
  imports Router Samples
begin

text \<open>
  The intake of the router (\<^verbatim>\<open>crates/router/src/intake.rs\<close>): the checks of a request, the
  quota, the job id, the ranking and the failover, composed as \<^verbatim>\<open>Router::accept\<close> composes them.
  The properties say whom an accepted request is billed to, that a request is valid again and again
  until its timestamp is too old, and which candidate serves it.
\<close>

section \<open>Checks\<close>

text \<open>\<^verbatim>\<open>windows(n).any(|w| w == needle)\<close>.\<close>

definition contains_window :: "bytes \<Rightarrow> bytes \<Rightarrow> bool" where
  "contains_window needle hay \<longleftrightarrow>
     list_ex (\<lambda>i. take (length needle) (drop i hay) = needle) [0..<Suc (length hay) - length needle]"

definition verify_request ::
    "ext \<Rightarrow> crypto_ext \<Rightarrow> infer_ext \<Rightarrow> infer_request \<Rightarrow> timestamp \<Rightarrow> (router_error, unit) result" where
  "verify_request X K I req now_ms =
     (if rq_prompt req = [] \<and> rq_encrypted_prompt req = None then Err (BadRequest EmptyPrompt)
      else if rq_prefer_tee req \<and> rq_encrypted_prompt req = None then Err (BadRequest TeeWithoutEnvelope)
      else if rq_max_tokens req = 0 then Err (BadRequest ZeroMaxTokens)
      else if sat_sub now_ms (rq_timestamp_ms req) > REQUEST_MAX_SKEW_MS then Err (BadRequest StaleRequest)
      else if pk_scheme (rq_user_pubkey req) \<noteq> Ed25519
      then Err (BadRequest (UnsupportedScheme (pk_scheme (rq_user_pubkey req))))
      else let msg = signing_bytes I req
      in rbind (map_err (\<lambda>_. BadRequest BadSignature)
                 (verify_sig K (rq_user_pubkey req) msg (rq_signature req))) (\<lambda>_.
         if \<not> contains_window INFERENCE_REQUEST_DOMAIN msg then Err (BadRequest MissingDomain)
         else case rq_delegation req of
           None \<Rightarrow> Ok ()
         | Some cert \<Rightarrow>
             if dc_session_pubkey cert \<noteq> rq_user_pubkey req then Err (BadRequest SessionKeyMismatch)
             else map_err (\<lambda>e. BadRequest (BadDelegation e)) (verify_delegation X K I cert now_ms)))"

lemma verify_request_Ok_iff:
  "verify_request X K I req now = Ok () \<longleftrightarrow>
     (rq_prompt req \<noteq> [] \<or> rq_encrypted_prompt req \<noteq> None) \<and>
     (rq_prefer_tee req \<longrightarrow> rq_encrypted_prompt req \<noteq> None) \<and> rq_max_tokens req \<noteq> 0 \<and>
     now \<le> rq_timestamp_ms req + REQUEST_MAX_SKEW_MS \<and>
     verify_sig K (rq_user_pubkey req) (signing_bytes I req) (rq_signature req) = Ok () \<and>
     contains_window INFERENCE_REQUEST_DOMAIN (signing_bytes I req) \<and>
     (\<forall>cert. rq_delegation req = Some cert \<longrightarrow>
        dc_session_pubkey cert = rq_user_pubkey req \<and> verify_delegation X K I cert now = Ok ())"
  by (auto simp: verify_request_def verify_sig_Ok_iff Let_def rbind_Ok_iff sat_sub_def
      split: option.splits)

section \<open>The router\<close>

datatype quota_policy = Enforce | Skip

record 'w router =
  rt_registry :: "'w registry"
  rt_quotas :: quota_tracker
  rt_salt :: nat
  rt_breaker :: breaker

definition router_new :: "'w registry \<Rightarrow> quota_tracker \<Rightarrow> 'w router" where
  "router_new registry quotas =
     \<lparr>rt_registry = registry, rt_quotas = quotas, rt_salt = 0, rt_breaker = breaker_genesis\<rparr>"

definition build_router :: "'w router" where
  "build_router = router_new kv_empty (tracker_new free_tier_default)"

text \<open>\<^verbatim>\<open>u64::to_le_bytes\<close>.\<close>

definition u64_le_bytes :: "nat \<Rightarrow> bytes" where
  "u64_le_bytes n = rev (u64_be_bytes n)"

definition JOB_ID_DOMAIN :: bytes where "JOB_ID_DOMAIN = str_bytes ''arknet-job-id-v1''"

definition router_mint_job_id :: "ext \<Rightarrow> address \<Rightarrow> timestamp \<Rightarrow> 'w router \<Rightarrow> job_id \<times> 'w router" where
  "router_mint_job_id X user now_ms r =
     (let s = sat_add 64 (rt_salt r) 1
      in (x_blake3 X (JOB_ID_DOMAIN @ word_bytes user @ u64_le_bytes now_ms @ u64_le_bytes s),
          r\<lparr>rt_salt := s\<rparr>))"

definition quota_gate ::
    "address \<Rightarrow> timestamp \<Rightarrow> quota_policy \<Rightarrow> 'w router \<Rightarrow> (router_error, unit) result \<times> 'w router" where
  "quota_gate user now_ms policy r =
     (case policy of
        Skip \<Rightarrow> (Ok (), r)
      | Enforce \<Rightarrow>
          (case quota_consume (rt_quotas r) user now_ms of
             Panic \<Rightarrow> (Panic, r)
           | Err e \<Rightarrow> (Err e, r)
           | Ok (t, Allowed h d) \<Rightarrow> (Ok (), r\<lparr>rt_quotas := t\<rparr>)
           | Ok (t, HourlyExceeded at_ms) \<Rightarrow> (Err (FreeTierExhausted ''hourly limit exhausted''), r\<lparr>rt_quotas := t\<rparr>)
           | Ok (t, DailyExceeded at_ms) \<Rightarrow> (Err (FreeTierExhausted ''daily limit exhausted''), r\<lparr>rt_quotas := t\<rparr>)))"

definition ranked_for :: "'w router \<Rightarrow> infer_request \<Rightarrow> timestamp \<Rightarrow> (router_error, 'w candidate list) result" where
  "ranked_for r req now_ms =
     (if rq_prefer_tee req
      then let tee_ranked = rank_for_tee (rt_registry r) (rq_model_ref req) now_ms
           in if tee_ranked = [] then Err NoTeeCandidate else Ok tee_ranked
      else let all = rank_for (rt_registry r) (rq_model_ref req) now_ms
           in if all = [] then Err NoCandidate else Ok all)"

definition router_accept ::
    "ext \<Rightarrow> crypto_ext \<Rightarrow> infer_ext \<Rightarrow> infer_request \<Rightarrow> timestamp \<Rightarrow> quota_policy \<Rightarrow> 'w router \<Rightarrow> 'w \<Rightarrow>
     ((router_error, job_id \<times> job_stream) result \<times> 'w router \<times> 'w) option" where
  "router_accept X K I req now_ms policy r w =
     (if is_paused (rt_breaker r)
      then Some (Err (Internal ''inference paused''), r, w)
      else case verify_request X K I req now_ms of
        Err e \<Rightarrow> Some (Err e, r, w)
      | Panic \<Rightarrow> Some (Panic, r, w)
      | Ok _ \<Rightarrow>
         (let user = billing_address X req
          in case quota_gate user now_ms policy r of
            (Err e, r1) \<Rightarrow> Some (Err e, r1, w)
          | (Panic, r1) \<Rightarrow> Some (Panic, r1, w)
          | (Ok _, r1) \<Rightarrow>
             (let (job, r2) = router_mint_job_id X user now_ms r1
              in case ranked_for r2 req now_ms of
                Err e \<Rightarrow> Some (Err e, r2, w)
              | Panic \<Rightarrow> Some (Panic, r2, w)
              | Ok ranked \<Rightarrow>
                  map_option (\<lambda>(res, w'). (rbind res (\<lambda>s. Ok (job, s)), r2, w'))
                    (dispatch_with_failover ranked req job w))))"

section \<open>What the intake guarantees\<close>

lemma quota_gate_fields:
  assumes "quota_gate u now p r = (x, r1)"
  shows "rt_registry r1 = rt_registry r" "rt_breaker r1 = rt_breaker r" "rt_salt r1 = rt_salt r"
  using assms
  by (auto simp: quota_gate_def split: quota_policy.splits result.splits prod.splits quota_outcome.splits)

lemma mint_fields:
  assumes "router_mint_job_id X u now r = (job, r')"
  shows "rt_registry r' = rt_registry r" "rt_breaker r' = rt_breaker r" "rt_quotas r' = rt_quotas r"
  using assms by (auto simp: router_mint_job_id_def Let_def)

lemma router_accept_eq:
  assumes "\<not> is_paused (rt_breaker r)" and "verify_request X K I req now = Ok ()"
    and "quota_gate (billing_address X req) now policy r = (Ok (), r1)"
    and "router_mint_job_id X (billing_address X req) now r1 = (job, r2)"
  shows "router_accept X K I req now policy r w =
    (case ranked_for r2 req now of
       Err e \<Rightarrow> Some (Err e, r2, w)
     | Panic \<Rightarrow> Some (Panic, r2, w)
     | Ok ranked \<Rightarrow> map_option (\<lambda>(res, w'). (rbind res (\<lambda>s. Ok (job, s)), r2, w'))
         (dispatch_with_failover ranked req job w))"
  using assms by (simp add: router_accept_def)

text \<open>One accepted call charges one job to the billed address, and only to it.\<close>

definition used :: "'w router \<Rightarrow> address \<Rightarrow> timestamp \<Rightarrow> nat \<times> nat" where
  "used r a now_ms = quota_counts (rt_quotas r) a now_ms"

lemma quota_gate_Ok:
  assumes "quota_gate u now Enforce r = (Ok (), r1)"
    and "fc_hourly_limit (qt_cfg (rt_quotas r)) < 2 ^ 32" "fc_daily_limit (qt_cfg (rt_quotas r)) < 2 ^ 32"
  shows "used r1 u now = (fst (used r u now) + 1, snd (used r u now) + 1) \<and>
    (\<forall>a. a \<noteq> u \<longrightarrow> used r1 a now = used r a now) \<and> qt_cfg (rt_quotas r1) = qt_cfg (rt_quotas r)"
proof -
  from assms(1) obtain t out where c: "quota_consume (rt_quotas r) u now = (Ok (t, out) :: (router_error, _) result)"
    and a: "is_allowed out" and r1: "r1 = r\<lparr>rt_quotas := t\<rparr>"
    by (auto simp: quota_gate_def split: result.splits prod.splits quota_outcome.splits)
  from c show ?thesis
  proof (cases rule: quota_consume_cases)
    case 1
    have "sat_add 32 (bucket_get (qt_hourly (rt_quotas r)) u (now div MS_PER_HOUR)) 1 =
        bucket_get (qt_hourly (rt_quotas r)) u (now div MS_PER_HOUR) + 1"
      using 1(3) assms(2) by (intro sat_add_exact) linarith
    moreover have "sat_add 32 (bucket_get (qt_daily (rt_quotas r)) u (now div MS_PER_DAY)) 1 =
        bucket_get (qt_daily (rt_quotas r)) u (now div MS_PER_DAY) + 1"
      using 1(4) assms(3) by (intro sat_add_exact) linarith
    ultimately show ?thesis
      by (simp add: r1 1(2) used_def quota_counts_def bucket_indices_def)
  next
    case 2
    with a show ?thesis by simp
  qed
qed

lemma router_accept_Ok:
  assumes "router_accept X K I req now policy r w = Some (Ok (job, s), r', w')"
  obtains r1 ranked where "\<not> is_paused (rt_breaker r)" "verify_request X K I req now = Ok ()"
    "quota_gate (billing_address X req) now policy r = (Ok (), r1)"
    "router_mint_job_id X (billing_address X req) now r1 = (job, r')"
    "ranked_for r' req now = Ok ranked" "dispatch_with_failover ranked req job w = Some (Ok s, w')"
  using assms
  by (auto simp: router_accept_def Let_def rbind_Ok_iff split: if_splits result.splits prod.splits)

lemma quota_gate_open:
  assumes "fst (used r u now) < fc_hourly_limit (qt_cfg (rt_quotas r))"
    and "snd (used r u now) < fc_daily_limit (qt_cfg (rt_quotas r))"
  shows "\<exists>r1. quota_gate u now Enforce r = (Ok (), r1)"
  using assms
  by (simp add: quota_gate_def quota_consume_def quota_check_def used_def quota_counts_def
      bucket_indices_def Let_def)

lemma quota_gate_closed:
  assumes "quota_gate u now Enforce r = (x, r1)"
    and "\<not> (fst (used r u now) < fc_hourly_limit (qt_cfg (rt_quotas r)) \<and>
             snd (used r u now) < fc_daily_limit (qt_cfg (rt_quotas r)))"
  shows "x \<noteq> Ok () \<and> rt_quotas r1 = rt_quotas r"
proof (cases "quota_consume (rt_quotas r) u now :: (router_error, _) result")
  case (Ok y)
  obtain t out where y: "y = (t, out)" by (cases y)
  from Ok[unfolded y] show ?thesis
  proof (cases rule: quota_consume_cases)
    case 1
    with assms(2) show ?thesis by (simp add: used_def quota_counts_def bucket_indices_def)
  next
    case 2
    with assms(1) Ok y show ?thesis by (cases out) (auto simp: quota_gate_def)
  qed
qed (use assms(1) in \<open>auto simp: quota_gate_def\<close>)

text \<open>The gate: what a request must satisfy to reach the job id, and what the gate writes.\<close>

definition admitted ::
    "ext \<Rightarrow> crypto_ext \<Rightarrow> infer_ext \<Rightarrow> infer_request \<Rightarrow> timestamp \<Rightarrow> 'w router \<Rightarrow> bool" where
  "admitted X K I req now r \<longleftrightarrow> \<not> is_paused (rt_breaker r) \<and> verify_request X K I req now = Ok () \<and>
     fst (used r (billing_address X req) now) < fc_hourly_limit (qt_cfg (rt_quotas r)) \<and>
     snd (used r (billing_address X req) now) < fc_daily_limit (qt_cfg (rt_quotas r))"

lemma refused_untouched:
  assumes "router_accept X K I req now Enforce r w = Some (res, r', w')" and "\<not> admitted X K I req now r"
  shows "rt_quotas r' = rt_quotas r \<and> w' = w \<and> (\<forall>x. res \<noteq> Ok x)"
proof (cases "\<not> is_paused (rt_breaker r) \<and> verify_request X K I req now = Ok ()")
  case True
  obtain x r1 where g: "quota_gate (billing_address X req) now Enforce r = (x, r1)" by (metis surj_pair)
  have "x \<noteq> Ok () \<and> rt_quotas r1 = rt_quotas r"
    using quota_gate_closed[OF g] assms(2) True by (auto simp: admitted_def)
  with assms(1) True g show ?thesis by (cases x) (auto simp: router_accept_def Let_def)
qed (use assms(1) in \<open>auto simp: router_accept_def split: result.splits if_splits\<close>)

lemma admitted_charged:
  assumes "router_accept X K I req now Enforce r w = Some (res, r', w')" and "admitted X K I req now r"
    and "fc_hourly_limit (qt_cfg (rt_quotas r)) < 2 ^ 32" "fc_daily_limit (qt_cfg (rt_quotas r)) < 2 ^ 32"
  shows "used r' (billing_address X req) now =
      (fst (used r (billing_address X req) now) + 1, snd (used r (billing_address X req) now) + 1) \<and>
    (\<forall>a. a \<noteq> billing_address X req \<longrightarrow> used r' a now = used r a now)"
proof -
  from assms(2) obtain r1 where g: "quota_gate (billing_address X req) now Enforce r = (Ok (), r1)"
    using quota_gate_open[of r "billing_address X req" now] by (auto simp: admitted_def)
  have "rt_quotas r' = rt_quotas r1"
    using assms(1,2) g by (auto simp: admitted_def router_accept_def router_mint_job_id_def Let_def split: result.splits)
  then show ?thesis using quota_gate_Ok[OF g assms(3,4)] by (simp add: used_def)
qed

lemma accepted_admitted:
  assumes "router_accept X K I req now Enforce r w = Some (Ok (job, s), r', w')"
  shows "admitted X K I req now r"
  using refused_untouched[OF assms] by blast

text \<open>Who pays: the address of the user key, or of the wallet that signed a certificate for it.\<close>

definition authorized_payer :: "ext \<Rightarrow> crypto_ext \<Rightarrow> infer_ext \<Rightarrow> infer_request \<Rightarrow> timestamp \<Rightarrow> bool" where
  "authorized_payer X K I req now \<longleftrightarrow> (\<exists>payer. billing_address X req = derive_user_address X payer \<and>
     (payer = rq_user_pubkey req \<or>
      (\<exists>cert. rq_delegation req = Some cert \<and> dc_session_pubkey cert = rq_user_pubkey req \<and>
         dc_main_pubkey cert = payer \<and> now \<le> dc_expiry_ms cert \<and>
         verify_sig K payer (delegation_signing_bytes I cert) (dc_main_signature cert) = Ok ())))"

lemma verified_payer:
  assumes "verify_request X K I req now = Ok ()"
  shows "authorized_payer X K I req now"
proof (cases "rq_delegation req")
  case (Some cert)
  with assms have "dc_session_pubkey cert = rq_user_pubkey req" "verify_delegation X K I cert now = Ok ()"
    by (simp_all add: verify_request_Ok_iff)
  with Some show ?thesis unfolding authorized_payer_def
    by (intro exI[of _ "dc_main_pubkey cert"]) (simp add: verify_delegation_Ok_iff billing_address_def)
qed (auto simp: authorized_payer_def billing_address_def)

lemma accepted_server:
  assumes "router_accept X K I req now policy r w = Some (Ok (job, s), r', w')"
  shows "\<exists>c w1. c \<in> set (rank_for (rt_registry r) (rq_model_ref req) now) \<and>
    (rq_prefer_tee req \<longrightarrow> ca_supports_tee c) \<and> dispatch_one c req job w1 = Some (Ok s, w')"
proof -
  from assms obtain r1 ranked where A: "quota_gate (billing_address X req) now policy r = (Ok (), r1)"
    "router_mint_job_id X (billing_address X req) now r1 = (job, r')"
    "ranked_for r' req now = Ok ranked" "dispatch_with_failover ranked req job w = Some (Ok s, w')"
    by (rule router_accept_Ok)
  have r': "rt_registry r' = rt_registry r" using mint_fields[OF A(2)] quota_gate_fields[OF A(1)] by simp
  have "ranked \<noteq> []" and ranked: "\<And>c. c \<in> set ranked \<Longrightarrow>
      c \<in> set (rank_for (rt_registry r) (rq_model_ref req) now) \<and> (rq_prefer_tee req \<longrightarrow> ca_supports_tee c)"
    using A(3) by (auto simp: ranked_for_def rank_for_tee_def Let_def r' split: if_splits)
  then have "try_candidates ranked req job None w = Some (Ok s, w')"
    using A(4) by (simp add: dispatch_with_failover_def)
  then obtain pre c post w1 where "ranked = pre @ c # post" "dispatch_one c req job w1 = Some (Ok s, w')"
    by (auto simp: try_candidates_Ok_iff)
  with ranked[of c] show ?thesis by auto
qed


section \<open>Which candidate serves\<close>

lemma forward_rest_terminal:
  "forward_rest job closes evs = (out, True) \<Longrightarrow> out \<noteq> [] \<and> is_terminal (last out) \<and>
     list_all (\<lambda>ev. \<not> is_terminal ev) (butlast out)"
proof (induction evs arbitrary: out)
  case (Cons ev evs)
  then show ?case by (cases "is_terminal ev") (auto split: prod.splits)
qed (auto split: if_splits)

lemma dispatch_one_Ok:
  assumes "dispatch_one c req job w = Some (Ok s, w')"
  shows "\<exists>inner first rest out ends. ca_dispatcher c req w = Some (Ok inner, w') \<and> js_in_time inner \<and>
    js_events inner = first # rest \<and> (\<forall>j m. first \<noteq> ErrorEvent j m) \<and>
    forward_rest job (js_closes inner) rest = (out, ends) \<and>
    s = \<lparr>js_events = first # out, js_in_time = True, js_closes = ends\<rparr>"
  using assms
  by (auto simp: dispatch_one_def rbind_Ok_iff
      split: option.splits prod.splits if_splits list.splits job_event.splits)

lemma dispatch_one_terminal:
  assumes "dispatch_one c req job w = Some (Ok s, w')" and "js_closes s"
  shows "is_terminal (last (js_events s)) \<and> \<not> (\<exists>j m. hd (js_events s) = ErrorEvent j m) \<and>
    list_all (\<lambda>ev. \<not> is_terminal ev) (butlast (tl (js_events s)))"
proof -
  from dispatch_one_Ok[OF assms(1)] obtain inner :: job_stream and first rest out ends where
    o: "\<forall>j m. first \<noteq> ErrorEvent j m" "forward_rest job (js_closes inner) rest = (out, ends)"
      "s = \<lparr>js_events = first # out, js_in_time = True, js_closes = ends\<rparr>" by blast
  from o(3) assms(2) have "ends" "js_events s = first # out" by auto
  with forward_rest_terminal[of job "js_closes inner" rest out] o(1,2) show ?thesis by auto
qed

text \<open>An accepted request is served by the candidate with the most stake, the smallest node id
  among equals, of those that advertise the model, were heard of in the last five minutes and did
  not fail before their first event; every better one was tried and failed. A stream that closes ends
  with a terminal event, so the receiver does not wait for ever.\<close>

theorem best_live_candidate_serves:
  assumes "router_accept X K I req now policy r w = Some (Ok (job, s), r', w')"
    and "rt_registry r = registry_run ops" and "\<not> rq_prefer_tee req"
  shows "\<exists>pre c post es w1. rank_for (rt_registry r) (rq_model_ref req) now = pre @ c # post \<and>
      all_fail req job pre w es w1 \<and> dispatch_one c req job w1 = Some (Ok s, w') \<and>
      (\<forall>d. d \<in> set pre \<or> d = c \<or> d \<in> set post \<longleftrightarrow>
         kv_get (rt_registry r) (ca_node_id d) = Some d \<and> serves d (rq_model_ref req) \<and> is_fresh d now) \<and>
      (\<forall>d \<in> set post. d \<noteq> c \<longrightarrow> ca_total_stake d < ca_total_stake c \<or>
         (ca_total_stake d = ca_total_stake c \<and> ca_node_id c < ca_node_id d)) \<and>
      (js_closes s \<longrightarrow> is_terminal (last (js_events s)))"
proof -
  let ?rank = "rank_for (rt_registry r) (rq_model_ref req) now"
  have wf: "registry_wf (rt_registry r)" by (simp add: assms(2))
  from assms(1) obtain r1 where A: "quota_gate (billing_address X req) now policy r = (Ok (), r1)"
    "router_mint_job_id X (billing_address X req) now r1 = (job, r')"
    "ranked_for r' req now = Ok ?rank" "dispatch_with_failover ?rank req job w = Some (Ok s, w')"
  proof (rule router_accept_Ok)
    fix r1 ranked
    assume A: "quota_gate (billing_address X req) now policy r = (Ok (), r1)"
      "router_mint_job_id X (billing_address X req) now r1 = (job, r')"
      "ranked_for r' req now = Ok ranked" "dispatch_with_failover ranked req job w = Some (Ok s, w')"
    have "rt_registry r' = rt_registry r" using mint_fields[OF A(2)] quota_gate_fields[OF A(1)] by simp
    with A(3) assms(3) have "ranked = ?rank" by (auto simp: ranked_for_def Let_def split: if_splits)
    with A show thesis by (intro that) simp_all
  qed
  have "try_candidates ?rank req job None w = Some (Ok s, w')"
    using A(4) by (auto simp: dispatch_with_failover_def split: if_splits)
  then obtain pre c post es w1 where S: "?rank = pre @ c # post" "all_fail req job pre w es w1"
    "dispatch_one c req job w1 = Some (Ok s, w')"
    by (auto simp: try_candidates_Ok_iff)
  have "rank_le c d" if "d \<in> set post" for d
    using rank_for_sorted[of "rt_registry r" "rq_model_ref req" now] that unfolding S(1)
    by (simp add: sorted_wrt_append)
  then have best: "\<forall>d \<in> set post. d \<noteq> c \<longrightarrow> ca_total_stake d < ca_total_stake c \<or>
         (ca_total_stake d = ca_total_stake c \<and> ca_node_id c < ca_node_id d)"
    using rank_strict[OF wf, of c "rq_model_ref req" now] S(1) by simp
  have "d \<in> set pre \<or> d = c \<or> d \<in> set post \<longleftrightarrow>
      kv_get (rt_registry r) (ca_node_id d) = Some d \<and> serves d (rq_model_ref req) \<and> is_fresh d now" for d
    using rank_for_set[OF wf, of d "rq_model_ref req" now] by (simp only: S(1) set_append list.set Un_iff insert_iff)
  with S best dispatch_one_terminal[OF S(3)] show ?thesis by blast
qed

text \<open>C1: A first event that is not an error ends the failover, \<open>Busy\<close> too: the user gets \<open>Busy\<close> and
  then a made-up \<open>Cancelled\<close>, although the next candidate is free; and a stream whose first event is
  its terminal one is delivered with a second terminal event.\<close>

theorem busy_candidate_ends_failover:
  assumes "ca_dispatcher c req w = Some (Ok \<lparr>js_events = [ev], js_in_time = True, js_closes = True\<rparr>, w')"
    and "\<forall>j m. ev \<noteq> ErrorEvent j m"
  shows "dispatch_with_failover (c # cs) req job w =
    Some (Ok \<lparr>js_events = [ev, Stop job Cancelled], js_in_time = True, js_closes = True\<rparr>, w')"
  using assms by (auto simp: dispatch_with_failover_def dispatch_one_def split: job_event.splits)

section \<open>Replays\<close>

lemma accept_charges:
  assumes "router_accept X K I req now Enforce r w = Some (res, r', w')"
    and "\<not> is_paused (rt_breaker r)" and "verify_request X K I req now = Ok ()"
    and "fst (used r (billing_address X req) now) < fc_hourly_limit (qt_cfg (rt_quotas r))"
    and "snd (used r (billing_address X req) now) < fc_daily_limit (qt_cfg (rt_quotas r))"
    and "fc_hourly_limit (qt_cfg (rt_quotas r)) < 2 ^ 32" "fc_daily_limit (qt_cfg (rt_quotas r)) < 2 ^ 32"
  shows "used r' (billing_address X req) now =
      (fst (used r (billing_address X req) now) + 1, snd (used r (billing_address X req) now) + 1) \<and>
    rt_breaker r' = rt_breaker r \<and> qt_cfg (rt_quotas r') = qt_cfg (rt_quotas r)"
proof -
  from quota_gate_open[OF assms(4,5)] obtain r1 where
    g: "quota_gate (billing_address X req) now Enforce r = (Ok (), r1)" by blast
  have "rt_breaker r1 = rt_breaker r" by (rule quota_gate_fields[OF g])
  moreover have "rt_quotas r' = rt_quotas r1" "rt_breaker r' = rt_breaker r1"
    using assms(1-3) g
    by (auto simp: router_accept_def router_mint_job_id_def Let_def split: result.splits)
  ultimately show ?thesis using quota_gate_Ok[OF g assms(6,7)] by (simp add: used_def)
qed

text \<open>The router remembers no request: whoever resends a valid one spends another job of the
  billed wallet's quota each time, also when no candidate serves the model, and a request stays valid
  until thirty seconds after the timestamp its sender chose, however far in the future that is.\<close>

theorem replayed_request_charged_again:
  assumes "verify_request X K I req now = Ok ()" and "\<not> is_paused (rt_breaker r)"
    and "fst (used r (billing_address X req) now) + 1 < fc_hourly_limit (qt_cfg (rt_quotas r))"
    and "snd (used r (billing_address X req) now) + 1 < fc_daily_limit (qt_cfg (rt_quotas r))"
    and "fc_hourly_limit (qt_cfg (rt_quotas r)) < 2 ^ 32" "fc_daily_limit (qt_cfg (rt_quotas r)) < 2 ^ 32"
    and "router_accept X K I req now Enforce r w = Some (res1, r1, w1)"
    and "router_accept X K I req now Enforce r1 w2 = Some (res2, r2, w3)"
  shows "fst (used r2 (billing_address X req) now) = fst (used r (billing_address X req) now) + 2 \<and>
    snd (used r2 (billing_address X req) now) = snd (used r (billing_address X req) now) + 2 \<and>
    (rq_delegation req = None \<longrightarrow>
       (\<forall>t \<le> rq_timestamp_ms req + REQUEST_MAX_SKEW_MS. verify_request X K I req t = Ok ()))"
proof -
  note one = accept_charges[OF assms(7,2,1) _ _ assms(5,6)]
  from one assms(3,4) have r1: "used r1 (billing_address X req) now =
      (fst (used r (billing_address X req) now) + 1, snd (used r (billing_address X req) now) + 1)"
    "\<not> is_paused (rt_breaker r1)" "qt_cfg (rt_quotas r1) = qt_cfg (rt_quotas r)"
    using assms(2) by auto
  have "used r2 (billing_address X req) now =
      (fst (used r1 (billing_address X req) now) + 1, snd (used r1 (billing_address X req) now) + 1)"
    using accept_charges[OF assms(8) r1(2) assms(1)] r1 assms(3-6) by simp
  moreover have "verify_request X K I req t = Ok ()"
    if "rq_delegation req = None" "t \<le> rq_timestamp_ms req + REQUEST_MAX_SKEW_MS" for t
    using assms(1) that by (simp add: verify_request_Ok_iff)
  ultimately show ?thesis by (simp add: r1)
qed

section \<open>Concrete inputs\<close>

definition demo_crypto :: crypto_ext where
  "demo_crypto = \<lparr>kx_key_ok = (\<lambda>_. True), kx_verify = (\<lambda>_ _ _. True), kx_verify_batch = (\<lambda>_. True),
     kx_sign = (\<lambda>_ _. 0), kx_public = (\<lambda>sk. sk)\<rparr>"

definition demo_infer :: infer_ext where
  "demo_infer = \<lparr>ix_borsh_body = bd_domain, ix_borsh_delegation = (\<lambda>_. []), ix_borsh_request = (\<lambda>_. []),
     ix_unborsh_request = (\<lambda>_. None), ix_borsh_event = (\<lambda>_. []), ix_unborsh_event = (\<lambda>_. None),
     ix_borsh_response = (\<lambda>_. []), ix_unborsh_response = (\<lambda>_. None)\<rparr>"

definition demo_request :: infer_request where
  "demo_request = \<lparr>rq_model_ref = ''m'', rq_model_hash = 0, rq_prompt = [1], rq_max_tokens = 4, rq_seed = 0,
     rq_deterministic = True, rq_stop_strings = [], rq_nonce = 5, rq_timestamp_ms = 1000,
     rq_user_pubkey = ed25519_pubkey 1, rq_signature = ed25519_sig 0, rq_prefer_tee = False,
     rq_encrypted_prompt = None, rq_delegation = None\<rparr>"

lemma demo_request_valid [simp]:
  "verify_request demo_ext demo_crypto demo_infer demo_request t = Ok () \<longleftrightarrow> t \<le> 31000"
  by (auto simp: verify_request_Ok_iff demo_request_def verify_sig_Ok_iff demo_crypto_def
      ed25519_pubkey_def ed25519_sig_def signing_bytes_def demo_infer_def contains_window_def
      REQUEST_MAX_SKEW_MS_def)

definition demo_stream :: "job_event list \<Rightarrow> job_stream" where
  "demo_stream evs = \<lparr>js_events = evs, js_in_time = True, js_closes = True\<rparr>"

definition demo_candidate ::
    "node_id \<Rightarrow> amount \<Rightarrow> (router_error, job_stream) result \<Rightarrow> unit candidate" where
  "demo_candidate n stake res =
     \<lparr>ca_node_id = n, ca_operator = 0, ca_total_stake = stake, ca_model_refs = [''m''],
      ca_last_seen_ms = 1000, ca_dispatcher = (\<lambda>req w. Some (res, w)), ca_supports_tee = False\<rparr>"

text \<open>The candidate with more stake is dead; the other one answers.\<close>

definition demo_ops :: "unit registry_op list" where
  "demo_ops = [Upsert (demo_candidate 2 100 (Ok (demo_stream [Token 0 0 [7], Stop 0 MaxTokens]))),
     Upsert (demo_candidate 1 500 (Err (Dispatch ''dead'')))]"

definition demo_router :: "unit router" where
  "demo_router = router_new (registry_run demo_ops) (tracker_new free_tier_default)"

lemma demo_rank:
  "rank_for (registry_run demo_ops) ''m'' 1000 =
     [demo_candidate 1 500 (Err (Dispatch ''dead'')),
      demo_candidate 2 100 (Ok (demo_stream [Token 0 0 [7], Stop 0 MaxTokens]))]"
  by (simp add: registry_run_def demo_ops_def registry_upsert_def rank_for_def registry_eligible_def
      registry_snapshot_def sort_by_def node_id_le_def rank_le_def demo_candidate_def serves_def
      is_fresh_def sat_sub_def)

lemma demo_router_fields [simp]:
  "rt_registry demo_router = registry_run demo_ops" "\<not> is_paused (rt_breaker demo_router)"
  "fc_hourly_limit (qt_cfg (rt_quotas demo_router)) = 10"
  "fc_daily_limit (qt_cfg (rt_quotas demo_router)) = 100" "used demo_router a t = (0, 0)"
  by (simp_all add: demo_router_def router_new_def tracker_new_def free_tier_default_def
      DEFAULT_HOURLY_LIMIT_def DEFAULT_DAILY_LIMIT_def breaker_genesis_def is_paused_def used_def
      quota_counts_def bucket_indices_def)

lemma demo_accept:
  "\<exists>job r'. router_accept demo_ext demo_crypto demo_infer demo_request 1000 Enforce demo_router () =
     Some (Ok (job, demo_stream [Token 0 0 [7], Stop 0 MaxTokens]), r', ())"
proof -
  let ?u = "billing_address demo_ext demo_request"
  from quota_gate_open[of demo_router ?u 1000] obtain r1 where
    g: "quota_gate ?u 1000 Enforce demo_router = (Ok (), r1)" by auto
  obtain job r2 where m: "router_mint_job_id demo_ext ?u 1000 r1 = (job, r2)" by (metis surj_pair)
  have "rt_registry r2 = registry_run demo_ops" using mint_fields[OF m] quota_gate_fields[OF g] by simp
  then have rk: "ranked_for r2 demo_request 1000 =
      Ok [demo_candidate 1 500 (Err (Dispatch ''dead'')),
          demo_candidate 2 100 (Ok (demo_stream [Token 0 0 [7], Stop 0 MaxTokens]))]"
    by (simp add: ranked_for_def demo_request_def demo_rank)
  have v: "verify_request demo_ext demo_crypto demo_infer demo_request 1000 = Ok ()" by simp
  show ?thesis
    by (simp add: router_accept_eq[OF demo_router_fields(2) v g m] rk dispatch_with_failover_def
        dispatch_one_def demo_candidate_def demo_stream_def)
qed


theorem best_live_candidate_serves_witness:
  "\<exists>job r' s pre c post es w1. router_accept demo_ext demo_crypto demo_infer demo_request 1000 Enforce
       demo_router () = Some (Ok (job, s), r', ()) \<and>
     rank_for (registry_run demo_ops) ''m'' 1000 = pre @ c # post \<and>
     all_fail demo_request job pre () es w1 \<and> dispatch_one c demo_request job w1 = Some (Ok s, ())"
proof -
  obtain job s r' where a: "router_accept demo_ext demo_crypto demo_infer demo_request 1000 Enforce demo_router () =
     Some (Ok (job, s), r', ())" using demo_accept by blast
  have "rq_model_ref demo_request = ''m''" "\<not> rq_prefer_tee demo_request" by (simp_all add: demo_request_def)
  with best_live_candidate_serves[OF a, of demo_ops] a show ?thesis by fastforce
qed

theorem busy_candidate_ends_failover_witness:
  "dispatch_with_failover [demo_candidate 1 500 (Ok (demo_stream [Busy 0])),
       demo_candidate 2 100 (Ok (demo_stream [Token 0 0 [7], Stop 0 MaxTokens]))] demo_request 0 () =
     Some (Ok (demo_stream [Busy 0, Stop 0 Cancelled]), ())"
  using busy_candidate_ends_failover[of "demo_candidate 1 500 (Ok (demo_stream [Busy 0]))" demo_request "()" "Busy 0"
      "()" "[demo_candidate 2 100 (Ok (demo_stream [Token 0 0 [7], Stop 0 MaxTokens]))]" 0]
  by (simp add: demo_candidate_def demo_stream_def)

lemma accept_without_candidates:
  assumes "rt_registry r = kv_empty" and "\<not> is_paused (rt_breaker r)"
    and "verify_request X K I req now = Ok ()"
    and "quota_gate (billing_address X req) now Enforce r = (Ok (), r1)"
  shows "\<exists>res r'. router_accept X K I req now Enforce r w = Some (res, r', w) \<and>
    rt_registry r' = kv_empty \<and> rt_breaker r' = rt_breaker r \<and> rt_quotas r' = rt_quotas r1"
proof -
  obtain job r2 where m: "router_mint_job_id X (billing_address X req) now r1 = (job, r2)" by (metis surj_pair)
  have r2: "rt_registry r2 = kv_empty" "rt_breaker r2 = rt_breaker r" "rt_quotas r2 = rt_quotas r1"
    using mint_fields[OF m] quota_gate_fields[OF assms(4)] assms(1) by simp_all
  then have "\<exists>e. ranked_for r2 req now = Err e"
    by (simp add: ranked_for_def rank_for_tee_def rank_for_def registry_eligible_def registry_snapshot_def
        sort_by_def)
  with r2 show ?thesis by (auto simp: router_accept_eq[OF assms(2-4) m])
qed

theorem replayed_request_charged_again_witness:
  "\<exists>res1 r1 res2 r2. router_accept demo_ext demo_crypto demo_infer demo_request 1000 Enforce
       (router_new kv_empty (tracker_new free_tier_default)) () = Some (res1, r1, ()) \<and>
     router_accept demo_ext demo_crypto demo_infer demo_request 1000 Enforce r1 () = Some (res2, r2, ()) \<and>
     fst (used r2 (billing_address demo_ext demo_request) 1000) = 2"
proof -
  let ?r = "router_new kv_empty (tracker_new free_tier_default) :: unit router"
  let ?u = "billing_address demo_ext demo_request"
  have f: "\<not> is_paused (rt_breaker ?r)" "fc_hourly_limit (qt_cfg (rt_quotas ?r)) = 10"
    "fc_daily_limit (qt_cfg (rt_quotas ?r)) = 100" "used ?r ?u 1000 = (0, 0)" "rt_registry ?r = kv_empty"
    by (simp_all add: router_new_def tracker_new_def free_tier_default_def DEFAULT_HOURLY_LIMIT_def
        DEFAULT_DAILY_LIMIT_def breaker_genesis_def is_paused_def used_def quota_counts_def bucket_indices_def)
  have v: "verify_request demo_ext demo_crypto demo_infer demo_request 1000 = Ok ()" by simp
  obtain q1 where g1: "quota_gate ?u 1000 Enforce ?r = (Ok (), q1)"
    using quota_gate_open[of ?r ?u 1000] f by auto
  from accept_without_candidates[OF f(5,1) v g1] obtain res1 r1 where
    1: "router_accept demo_ext demo_crypto demo_infer demo_request 1000 Enforce ?r () = Some (res1, r1, ())"
    and r1: "rt_registry r1 = kv_empty" "rt_breaker r1 = rt_breaker ?r" by blast
  have u1: "used r1 ?u 1000 = (1, 1)" "qt_cfg (rt_quotas r1) = qt_cfg (rt_quotas ?r)"
    using accept_charges[OF 1 f(1) v] by (simp_all add: f)
  obtain q2 where g2: "quota_gate ?u 1000 Enforce r1 = (Ok (), q2)"
    using quota_gate_open[of r1 ?u 1000] f u1 by auto
  have "\<not> is_paused (rt_breaker r1)" unfolding r1 by (rule f(1))
  from accept_without_candidates[OF r1(1) this v g2] obtain res2 r2 where
    2: "router_accept demo_ext demo_crypto demo_infer demo_request 1000 Enforce r1 () = Some (res2, r2, ())"
    by blast
  from replayed_request_charged_again[OF v f(1) _ _ _ _ 1 2] 1 2 show ?thesis by (simp add: f)
qed

end
