(* ===== verification/ModelRef.thy ===== *)
theory ModelRef
  imports Prelude "HOL-Library.Char_ord"
begin

text \<open>
  References to models (\<^verbatim>\<open>crates/model-manager/src/types.rs\<close>): the quantization tags, parsing and
  display of \<^verbatim>\<open>org/name-QUANT\<close>. Strings are over ASCII; \<^verbatim>\<open>to_uppercase\<close> changes its lower-case
  letters. The lemmas show that what a reference displays as is parsed back to it.
\<close>

datatype gguf_quant = QF32 | QF16 | Q4KM | Q4KS | Q5KM | QQ8_0

record model_ref =
  mr_org :: string
  mr_name :: string
  mr_quant :: gguf_quant

fun quant_str :: "gguf_quant \<Rightarrow> string" where
  "quant_str QF32 = ''F32''"
| "quant_str QF16 = ''F16''"
| "quant_str Q4KM = ''Q4_K_M''"
| "quant_str Q4KS = ''Q4_K_S''"
| "quant_str Q5KM = ''Q5_K_M''"
| "quant_str QQ8_0 = ''Q8_0''"

definition upper_char :: "char \<Rightarrow> char" where
  "upper_char c = (if CHR ''a'' \<le> c \<and> c \<le> CHR ''z'' then char_of (of_char c - 32 :: nat) else c)"

definition to_uppercase :: "string \<Rightarrow> string" where
  "to_uppercase s = map upper_char s"

definition quant_parse :: "string \<Rightarrow> gguf_quant option" where
  "quant_parse s =
     (let u = to_uppercase s
      in if u = ''F32'' then Some QF32
         else if u = ''F16'' then Some QF16
         else if u = ''Q4_K_M'' then Some Q4KM
         else if u = ''Q4_K_S'' then Some Q4KS
         else if u = ''Q5_K_M'' then Some Q5KM
         else if u = ''Q8_0'' then Some QQ8_0
         else None)"

fun gguf_file_type :: "gguf_quant \<Rightarrow> nat" where
  "gguf_file_type QF32 = 0"
| "gguf_file_type QF16 = 1"
| "gguf_file_type Q4KS = 14"
| "gguf_file_type Q4KM = 15"
| "gguf_file_type Q5KM = 17"
| "gguf_file_type QQ8_0 = 7"

text \<open>\<^verbatim>\<open>split_once\<close> and \<^verbatim>\<open>rsplit_once\<close>.\<close>

fun split_once :: "char \<Rightarrow> string \<Rightarrow> (string \<times> string) option" where
  "split_once d [] = None"
| "split_once d (c # cs) =
     (if c = d then Some ([], cs) else map_option (\<lambda>(a, b). (c # a, b)) (split_once d cs))"

definition rsplit_once :: "char \<Rightarrow> string \<Rightarrow> (string \<times> string) option" where
  "rsplit_once d s = map_option (\<lambda>(a, b). (rev b, rev a)) (split_once d (rev s))"

datatype model_ref_error = MissingSlash string | MissingQuant string | UnknownQuant string

definition model_ref_parse :: "string \<Rightarrow> (model_ref_error, model_ref) result" where
  "model_ref_parse s =
     (case split_once CHR ''/'' s of
        None \<Rightarrow> Err (MissingSlash s)
      | Some (org, rest) \<Rightarrow>
          (case rsplit_once CHR ''-'' rest of
             None \<Rightarrow> Err (MissingQuant s)
           | Some (name, q) \<Rightarrow>
               (case quant_parse q of
                  None \<Rightarrow> Err (UnknownQuant q)
                | Some quant \<Rightarrow> Ok \<lparr>mr_org = org, mr_name = name, mr_quant = quant\<rparr>)))"

definition model_ref_display :: "model_ref \<Rightarrow> string" where
  "model_ref_display r = mr_org r @ ''/'' @ mr_name r @ ''-'' @ quant_str (mr_quant r)"

section \<open>Round trip\<close>

lemma split_once_Some_iff: "split_once d s = Some (a, b) \<longleftrightarrow> s = a @ d # b \<and> d \<notin> set a"
proof (induction s arbitrary: a)
  case (Cons c cs)
  show ?case
  proof (cases "c = d")
    case True
    then show ?thesis by (cases a) auto
  next
    case False
    with Cons.IH show ?thesis by (cases a) auto
  qed
qed simp

lemma rsplit_once_Some_iff: "rsplit_once d s = Some (a, b) \<longleftrightarrow> s = a @ d # b \<and> d \<notin> set b"
proof -
  have "rsplit_once d s = Some (a, b) \<longleftrightarrow> split_once d (rev s) = Some (rev b, rev a)"
    by (auto simp: rsplit_once_def rev_swap)
  also have "\<dots> \<longleftrightarrow> rev s = rev b @ d # rev a \<and> d \<notin> set b"
    by (simp add: split_once_Some_iff)
  also have "rev s = rev b @ d # rev a \<longleftrightarrow> s = a @ d # b"
    by (metis append.assoc append_Cons append_Nil rev.simps(2) rev_append rev_rev_ident)
  finally show ?thesis .
qed

lemma upper_char_simps [simp]:
  "upper_char CHR ''F'' = CHR ''F''" "upper_char CHR ''Q'' = CHR ''Q''" "upper_char CHR ''K'' = CHR ''K''"
  "upper_char CHR ''M'' = CHR ''M''" "upper_char CHR ''S'' = CHR ''S''" "upper_char CHR ''_'' = CHR ''_''"
  "upper_char CHR ''0'' = CHR ''0''" "upper_char CHR ''1'' = CHR ''1''" "upper_char CHR ''2'' = CHR ''2''"
  "upper_char CHR ''3'' = CHR ''3''" "upper_char CHR ''4'' = CHR ''4''" "upper_char CHR ''5'' = CHR ''5''"
  "upper_char CHR ''6'' = CHR ''6''" "upper_char CHR ''8'' = CHR ''8''"
  by (simp_all add: upper_char_def less_eq_char_def)

lemma quant_parse_str [simp]: "quant_parse (quant_str q) = Some q"
  by (cases q) (simp_all add: quant_parse_def to_uppercase_def)

lemma quant_str_no_dash: "CHR ''-'' \<notin> set (quant_str q)"
  by (cases q) simp_all

lemma quant_parse_Some: "quant_parse s = Some q \<longleftrightarrow> to_uppercase s = quant_str q"
proof
  assume "quant_parse s = Some q"
  then show "to_uppercase s = quant_str q"
    by (auto simp: quant_parse_def Let_def split: if_splits)
next
  assume "to_uppercase s = quant_str q"
  then show "quant_parse s = Some q" by (cases q) (simp_all add: quant_parse_def)
qed

lemma parse_display:
  assumes "CHR ''/'' \<notin> set (mr_org r)"
  shows "model_ref_parse (model_ref_display r) = Ok r"
proof -
  have 1: "split_once CHR ''/'' (model_ref_display r) =
      Some (mr_org r, mr_name r @ ''-'' @ quant_str (mr_quant r))"
    using assms by (simp add: split_once_Some_iff model_ref_display_def)
  have 2: "rsplit_once CHR ''-'' (mr_name r @ ''-'' @ quant_str (mr_quant r)) =
      Some (mr_name r, quant_str (mr_quant r))"
    by (simp add: rsplit_once_Some_iff quant_str_no_dash)
  show ?thesis unfolding model_ref_parse_def 1 by (simp add: 2[simplified])
qed

lemma parse_Ok:
  assumes "model_ref_parse s = Ok r"
  shows "CHR ''/'' \<notin> set (mr_org r) \<and>
    (\<exists>q. s = mr_org r @ ''/'' @ mr_name r @ ''-'' @ q \<and> to_uppercase q = quant_str (mr_quant r))"
  using assms
  by (auto simp: model_ref_parse_def split_once_Some_iff rsplit_once_Some_iff quant_parse_Some
      split: option.splits)

text \<open>A reference whose organization has no slash displays as a string that parses back to it; and
  every string that parses is, up to the case of its quantization tag, the display of the reference
  it parses to, so the registry that is keyed by displays finds it.\<close>

theorem model_ref_roundtrip:
  "(CHR ''/'' \<notin> set (mr_org r) \<longleftrightarrow> model_ref_parse (model_ref_display r) = Ok r) \<and>
   (\<forall>s r'. model_ref_parse s = Ok r' \<longrightarrow>
      model_ref_parse (model_ref_display r') = Ok r' \<and>
      to_uppercase s = to_uppercase (model_ref_display r'))"
proof (intro conjI allI impI)
  show "CHR ''/'' \<notin> set (mr_org r) \<longleftrightarrow> model_ref_parse (model_ref_display r) = Ok r"
    using parse_display parse_Ok by blast
  fix s r'
  assume a: "model_ref_parse s = Ok r'"
  from parse_Ok[OF a] show "model_ref_parse (model_ref_display r') = Ok r'" by (simp add: parse_display)
  have idem: "to_uppercase (quant_str q) = quant_str q" for q
    by (cases q) (simp_all add: to_uppercase_def)
  from parse_Ok[OF a] show "to_uppercase s = to_uppercase (model_ref_display r')"
    using idem by (auto simp: model_ref_display_def to_uppercase_def)
qed

theorem model_ref_roundtrip_witness:
  "model_ref_parse ''Qwen/Qwen3-0.6B-q8_0'' =
     Ok \<lparr>mr_org = ''Qwen'', mr_name = ''Qwen3-0.6B'', mr_quant = QQ8_0\<rparr> \<and>
   model_ref_parse (model_ref_display \<lparr>mr_org = ''Qwen'', mr_name = ''Qwen3-0.6B'', mr_quant = QQ8_0\<rparr>) =
     Ok \<lparr>mr_org = ''Qwen'', mr_name = ''Qwen3-0.6B'', mr_quant = QQ8_0\<rparr>"
proof -
  have "model_ref_parse ''Qwen/Qwen3-0.6B-q8_0'' =
     Ok \<lparr>mr_org = ''Qwen'', mr_name = ''Qwen3-0.6B'', mr_quant = QQ8_0\<rparr>"
    by code_simp
  with model_ref_roundtrip show ?thesis by blast
qed

end
