(* ===== verification/ComputeJob.thy ===== *)
theory ComputeJob
  imports Intake ModelRef
begin

text \<open>
  A job on a compute node: the encrypted prompt (\<^verbatim>\<open>crates/crypto/src/aead.rs\<close>), the hash chain over
  the tokens (\<^verbatim>\<open>crates/compute/src/attestation.rs\<close>), the runner with its replay cache
  (\<^verbatim>\<open>crates/compute/src/job.rs\<close>) and the two dispatchers that connect a router to it
  (\<^verbatim>\<open>crates/node/src/l2_dispatch.rs\<close>). The inference engine, the ciphers and the network are
  parameters.
\<close>

section \<open>UTF-8\<close>

definition byte_in :: "byte \<Rightarrow> byte \<Rightarrow> byte \<Rightarrow> bool" where
  "byte_in lo hi b \<longleftrightarrow> lo \<le> b \<and> b \<le> hi"

abbreviation "cont \<equiv> byte_in 0x80 0xBF"

text \<open>What \<^verbatim>\<open>from_utf8\<close> accepts: the well-formed byte sequences of the Unicode standard.\<close>

fun is_utf8 :: "bytes \<Rightarrow> bool" where
  "is_utf8 [] = True"
| "is_utf8 (a # bs) =
     (if a < 0x80 then is_utf8 bs
      else case bs of
        [] \<Rightarrow> False
      | b # cs \<Rightarrow>
          if byte_in 0xC2 0xDF a then cont b \<and> is_utf8 cs
          else case cs of
            [] \<Rightarrow> False
          | c # ds \<Rightarrow>
              if a = 0xE0 then byte_in 0xA0 0xBF b \<and> cont c \<and> is_utf8 ds
              else if a = 0xED then byte_in 0x80 0x9F b \<and> cont c \<and> is_utf8 ds
              else if byte_in 0xE1 0xEF a then cont b \<and> cont c \<and> is_utf8 ds
              else case ds of
                [] \<Rightarrow> False
              | d # es \<Rightarrow>
                  if a = 0xF0 then byte_in 0x90 0xBF b \<and> cont c \<and> cont d \<and> is_utf8 es
                  else if byte_in 0xF1 0xF3 a then cont b \<and> cont c \<and> cont d \<and> is_utf8 es
                  else if a = 0xF4 then byte_in 0x80 0x8F b \<and> cont c \<and> cont d \<and> is_utf8 es
                  else False)"

lemma is_utf8_ascii: "list_all (\<lambda>b. b < 0x80) bs \<Longrightarrow> is_utf8 bs"
  by (induction bs) simp_all

section \<open>Encrypted prompts\<close>

record aead_ext =
  ae_public :: "256 word \<Rightarrow> 256 word"
  ae_dh :: "256 word \<Rightarrow> 256 word \<Rightarrow> 256 word"
  ae_hkdf :: "bytes \<Rightarrow> 256 word \<Rightarrow> 256 word"
  ae_encrypt :: "256 word \<Rightarrow> 96 word \<Rightarrow> bytes \<Rightarrow> bytes option"
  ae_decrypt :: "256 word \<Rightarrow> 96 word \<Rightarrow> bytes \<Rightarrow> bytes option"

record sealed_prompt =
  sp_ephemeral :: "256 word"
  sp_nonce :: "96 word"
  sp_ciphertext :: bytes

datatype aead_error = EmptyPlaintext | EncryptFailed | DecryptFailed

definition HKDF_INFO :: bytes where "HKDF_INFO = str_bytes ''arknet-tee-prompt-v1''"

definition derive_symmetric_key :: "aead_ext \<Rightarrow> 256 word \<Rightarrow> 256 word" where
  "derive_symmetric_key A shared = ae_hkdf A HKDF_INFO shared"

text \<open>The ephemeral secret and the nonce come from the random generator.\<close>

definition seal_prompt ::
    "aead_ext \<Rightarrow> 256 word \<Rightarrow> 96 word \<Rightarrow> bytes \<Rightarrow> 256 word \<Rightarrow> (aead_error, sealed_prompt) result" where
  "seal_prompt A ephemeral nonce_bytes plaintext enclave_pubkey =
     (if plaintext = [] then Err EmptyPlaintext
      else let shared = ae_dh A ephemeral enclave_pubkey; sym_key = derive_symmetric_key A shared
           in case ae_encrypt A sym_key nonce_bytes plaintext of
                None \<Rightarrow> Err EncryptFailed
              | Some ciphertext \<Rightarrow>
                  Ok \<lparr>sp_ephemeral = ae_public A ephemeral, sp_nonce = nonce_bytes,
                      sp_ciphertext = ciphertext\<rparr>)"

definition open_prompt :: "aead_ext \<Rightarrow> sealed_prompt \<Rightarrow> 256 word \<Rightarrow> (aead_error, bytes) result" where
  "open_prompt A sealed enclave_secret =
     (let shared = ae_dh A enclave_secret (sp_ephemeral sealed); sym_key = derive_symmetric_key A shared
      in case ae_decrypt A sym_key (sp_nonce sealed) (sp_ciphertext sealed) of
           None \<Rightarrow> Err DecryptFailed
         | Some plaintext \<Rightarrow> Ok plaintext)"

lemma open_sealed:
  assumes "\<And>a b. ae_dh A a (ae_public A b) = ae_dh A b (ae_public A a)"
    and "\<And>k n p c. ae_encrypt A k n p = Some c \<Longrightarrow> ae_decrypt A k n c = Some p"
    and "seal_prompt A e n p (ae_public A s) = Ok sealed"
  shows "open_prompt A sealed s = Ok p"
proof -
  from assms(3) obtain c where
    "ae_encrypt A (derive_symmetric_key A (ae_dh A e (ae_public A s))) n p = Some c"
    and s: "sealed = \<lparr>sp_ephemeral = ae_public A e, sp_nonce = n, sp_ciphertext = c\<rparr>"
    by (auto simp: seal_prompt_def Let_def split: if_splits option.splits)
  with assms(2) have "ae_decrypt A (derive_symmetric_key A (ae_dh A s (ae_public A e))) n c = Some p"
    using assms(1) by metis
  then show ?thesis by (simp add: open_prompt_def s)
qed

section \<open>The hash chain\<close>

definition DOMAIN_HASHCHAIN :: bytes where "DOMAIN_HASHCHAIN = str_bytes ''arknet-hashchain-v1''"

record hash_chain =
  hc_chain :: "hash256 list"
  hc_current :: hash256

definition chain_new :: "ext \<Rightarrow> hash_chain" where
  "chain_new X = (let h0 = x_blake3 X DOMAIN_HASHCHAIN in \<lparr>hc_chain = [h0], hc_current = h0\<rparr>)"

definition chain_for_job :: "ext \<Rightarrow> job_id \<Rightarrow> hash_chain" where
  "chain_for_job X job =
     (let h0 = x_blake3 X (DOMAIN_HASHCHAIN @ word_bytes job) in \<lparr>hc_chain = [h0], hc_current = h0\<rparr>)"

definition absorb_bytes :: "ext \<Rightarrow> bytes \<Rightarrow> hash_chain \<Rightarrow> hash_chain" where
  "absorb_bytes X bs c =
     (let h = x_blake3 X (DOMAIN_HASHCHAIN @ word_bytes (hc_current c) @ bs)
      in \<lparr>hc_chain = hc_chain c @ [h], hc_current = h\<rparr>)"

definition chain_finish :: "hash_chain \<Rightarrow> compute_proof" where
  "chain_finish c = HashChain (hc_chain c)"

definition chain_len :: "hash_chain \<Rightarrow> nat" where "chain_len c = length (hc_chain c)"

definition chain_is_empty :: "hash_chain \<Rightarrow> bool" where "chain_is_empty c \<longleftrightarrow> length (hc_chain c) \<le> 1"

definition chain_of :: "ext \<Rightarrow> job_id \<Rightarrow> bytes list \<Rightarrow> hash_chain" where
  "chain_of X job tokens = fold (absorb_bytes X) tokens (chain_for_job X job)"

text \<open>The strings that are hashed along a chain.\<close>

fun steps_from :: "ext \<Rightarrow> hash256 \<Rightarrow> bytes list \<Rightarrow> bytes list" where
  "steps_from X h [] = []"
| "steps_from X h (t # ts) =
     (let input = DOMAIN_HASHCHAIN @ word_bytes h @ t in input # steps_from X (x_blake3 X input) ts)"

definition chain_inputs :: "ext \<Rightarrow> job_id \<Rightarrow> bytes list \<Rightarrow> bytes list" where
  "chain_inputs X job tokens =
     (let input = DOMAIN_HASHCHAIN @ word_bytes job in input # steps_from X (x_blake3 X input) tokens)"

lemma absorb_all_chain:
  "hc_chain (fold (absorb_bytes X) ts c) = hc_chain c @ map (x_blake3 X) (steps_from X (hc_current c) ts)"
proof (induction ts arbitrary: c)
  case (Cons t ts)
  show ?case using Cons.IH[of "absorb_bytes X t c"] by (simp add: absorb_bytes_def Let_def)
qed simp

lemma chain_of_inputs: "hc_chain (chain_of X job ts) = map (x_blake3 X) (chain_inputs X job ts)"
  by (simp add: chain_of_def absorb_all_chain chain_for_job_def chain_inputs_def Let_def)

lemma steps_from_inj: "steps_from X h ts = steps_from X h ts' \<Longrightarrow> ts = ts'"
proof (induction ts arbitrary: h ts')
  case Nil
  then show ?case by (cases ts') (simp_all add: Let_def)
next
  case (Cons t ts)
  then obtain u us where ts': "ts' = u # us" by (cases ts') (auto simp: Let_def)
  with Cons.prems have "t = u" by (simp add: Let_def)
  with Cons.prems Cons.IH ts' show ?case by (auto simp: Let_def)
qed

lemma chain_inputs_inj:
  assumes "chain_inputs X j ts = chain_inputs X j' ts'"
  shows "j = j' \<and> ts = ts'"
proof -
  from assms have "word_bytes j = word_bytes j'" by (simp add: chain_inputs_def Let_def)
  then have "j = j'" by (rule word_bytes_inj[rotated]) simp
  with assms steps_from_inj show ?thesis by (auto simp: chain_inputs_def Let_def)
qed

text \<open>The hash chain of a job determines the job and every token of its output, in their order and
  with their boundaries, as long as no two of the strings hashed for the two chains collide.\<close>

theorem hash_chain_binds_output:
  assumes "inj_on (x_blake3 X) (set (chain_inputs X j ts) \<union> set (chain_inputs X j' ts'))"
  shows "chain_finish (chain_of X j ts) = chain_finish (chain_of X j' ts') \<longleftrightarrow> j = j' \<and> ts = ts'"
proof
  assume "chain_finish (chain_of X j ts) = chain_finish (chain_of X j' ts')"
  then have "map (x_blake3 X) (chain_inputs X j ts) = map (x_blake3 X) (chain_inputs X j' ts')"
    by (simp add: chain_finish_def chain_of_inputs)
  then have "chain_inputs X j ts = chain_inputs X j' ts'"
    using assms by (simp add: inj_on_map_eq_map)
  then show "j = j' \<and> ts = ts'" by (rule chain_inputs_inj)
qed simp

text \<open>Two outputs with the same text and other boundaries, under a hash that tells lengths apart.\<close>

definition length_ext :: ext where
  "length_ext = demo_ext\<lparr>x_blake3 := (\<lambda>bs. of_nat (length bs))\<rparr>"

theorem hash_chain_binds_output_witness:
  "chain_finish (chain_of length_ext 0 [[1, 2]]) \<noteq> chain_finish (chain_of length_ext 0 [[1]])"
proof -
  have "inj_on (x_blake3 length_ext)
      (set (chain_inputs length_ext 0 [[1, 2]]) \<union> set (chain_inputs length_ext 0 [[1]]))"
    by (auto simp: inj_on_def chain_inputs_def Let_def length_ext_def DOMAIN_HASHCHAIN_def str_bytes_def)
  from hash_chain_binds_output[OF this] show ?thesis by simp
qed

section \<open>The runner\<close>

datatype stop_reason = RMaxTokens | REndOfStream | RStopString bytes | RCancelled

fun stop_kind_of :: "stop_reason \<Rightarrow> stop_kind" where
  "stop_kind_of RMaxTokens = MaxTokens"
| "stop_kind_of REndOfStream = EndOfStream"
| "stop_kind_of (RStopString s) = StopString s"
| "stop_kind_of RCancelled = Cancelled"

text \<open>\<^verbatim>\<open>SamplingParams::GREEDY\<close>, or the default with the seed of the request.\<close>

datatype sampling = Greedy | Seeded nat

record llm_request =
  lr_prompt :: bytes
  lr_max_tokens :: nat
  lr_deterministic :: bool
  lr_sampling :: sampling
  lr_stop :: "bytes list"

datatype llm_item = TokenItem bytes | StopItem stop_reason | FailItem string

text \<open>The inference engine: a loaded model is known by the digest of its file; a run yields its items
  and ends.\<close>

record llm_ext =
  lx_load :: "model_ref \<Rightarrow> (string, hash256) result"
  lx_infer :: "hash256 \<Rightarrow> llm_request \<Rightarrow> (string, llm_item list) result"

definition NONCE_CACHE_CAP :: nat where "NONCE_CACHE_CAP = 8192"

definition nonce_insert ::
    "nat \<Rightarrow> address \<times> nat \<Rightarrow> (address \<times> nat) list \<Rightarrow> bool \<times> (address \<times> nat) list" where
  "nonce_insert cap k seen =
     (if k \<in> set seen then (False, seen)
      else (True, (if length seen \<ge> cap then tl seen else seen) @ [k]))"

interpretation nonces: replay_cache cap "nonce_insert cap" for cap
  by unfold_locales (auto simp: nonce_insert_def)

record runner =
  rn_nonces :: "(address \<times> nat) list"
  rn_enclave :: "256 word option"

definition runner_new :: runner where
  "runner_new = \<lparr>rn_nonces = [], rn_enclave = None\<rparr>"

definition runner_with_key :: "256 word \<Rightarrow> runner" where
  "runner_with_key key = \<lparr>rn_nonces = [], rn_enclave = Some key\<rparr>"

datatype job_reject =
  NoEnclaveKey | BadEphemeralLength | BadNonceLength | DecryptionFailed aead_error | NotUtf8
| JobEmptyPrompt | JobZeroTokens | JobStale | ReplayedNonce

datatype compute_error = Inference string | BadJob job_reject

definition decrypt_prompt :: "aead_ext \<Rightarrow> runner \<Rightarrow> infer_request \<Rightarrow> (compute_error, bytes) result" where
  "decrypt_prompt A r req =
     (case rq_encrypted_prompt req of
        None \<Rightarrow> Ok (rq_prompt req)
      | Some envelope \<Rightarrow>
          (case rn_enclave r of
             None \<Rightarrow> Err (BadJob NoEnclaveKey)
           | Some key \<Rightarrow>
               if length (ee_ephemeral envelope) \<noteq> 32 then Err (BadJob BadEphemeralLength)
               else if length (ee_nonce envelope) \<noteq> 12 then Err (BadJob BadNonceLength)
               else rbind (map_err (\<lambda>e. BadJob (DecryptionFailed e))
                      (open_prompt A \<lparr>sp_ephemeral = word_rcat (ee_ephemeral envelope),
                         sp_nonce = word_rcat (ee_nonce envelope),
                         sp_ciphertext = ee_ciphertext envelope\<rparr> key)) (\<lambda>plaintext.
                    if is_utf8 plaintext then Ok plaintext else Err (BadJob NotUtf8))))"

fun bridge_events ::
    "ext \<Rightarrow> job_id \<Rightarrow> llm_item list \<Rightarrow> hash_chain \<Rightarrow> nat \<Rightarrow> job_event list \<times> hash_chain" where
  "bridge_events X job [] chain index = ([], chain)"
| "bridge_events X job (TokenItem text # items) chain index =
     (let (evs, c) = bridge_events X job items (absorb_bytes X text chain) (sat_add 32 index 1)
      in (Token job index text # evs, c))"
| "bridge_events X job (StopItem reason # items) chain index =
     (let (evs, c) = bridge_events X job items chain index in (Stop job (stop_kind_of reason) # evs, c))"
| "bridge_events X job (FailItem message # items) chain index =
     (let (evs, c) = bridge_events X job items chain index in (ErrorEvent job message # evs, c))"

definition inference_request_of :: "infer_request \<Rightarrow> bytes \<Rightarrow> llm_request" where
  "inference_request_of req prompt =
     \<lparr>lr_prompt = prompt, lr_max_tokens = rq_max_tokens req, lr_deterministic = rq_deterministic req,
      lr_sampling = (if rq_deterministic req then Greedy else Seeded (rq_seed req)),
      lr_stop = rq_stop_strings req\<rparr>"

text \<open>The chain of the bridge is dropped when the stream ends.\<close>

definition run_job ::
    "ext \<Rightarrow> aead_ext \<Rightarrow> llm_ext \<Rightarrow> infer_request \<Rightarrow> model_ref \<Rightarrow> job_id \<Rightarrow> timestamp \<Rightarrow> runner \<Rightarrow>
     (compute_error, job_event list) result \<times> runner" where
  "run_job X A L req m job now_ms r =
     (case decrypt_prompt A r req of
        Err e \<Rightarrow> (Err e, r)
      | Panic \<Rightarrow> (Panic, r)
      | Ok prompt \<Rightarrow>
          if prompt = [] then (Err (BadJob JobEmptyPrompt), r)
          else if rq_max_tokens req = 0 then (Err (BadJob JobZeroTokens), r)
          else if sat_sub now_ms (rq_timestamp_ms req) > REQUEST_MAX_SKEW_MS then (Err (BadJob JobStale), r)
          else let (fresh, seen) = nonce_insert NONCE_CACHE_CAP (billing_address X req, rq_nonce req) (rn_nonces r);
                   r1 = r\<lparr>rn_nonces := seen\<rparr>
               in if \<not> fresh then (Err (BadJob ReplayedNonce), r1)
                  else (rbind (map_err Inference (lx_load L m)) (\<lambda>handle.
                        rbind (map_err Inference (lx_infer L handle (inference_request_of req prompt))) (\<lambda>items.
                        Ok (fst (bridge_events X job items (chain_new X) 0)))), r1))"

text \<open>Whether a request gets as far as the replay cache.\<close>

definition reaches_cache :: "aead_ext \<Rightarrow> runner \<Rightarrow> infer_request \<Rightarrow> timestamp \<Rightarrow> bool" where
  "reaches_cache A r req now_ms \<longleftrightarrow>
     (\<exists>prompt. decrypt_prompt A r req = Ok prompt \<and> prompt \<noteq> []) \<and> rq_max_tokens req \<noteq> 0 \<and>
     now_ms \<le> rq_timestamp_ms req + REQUEST_MAX_SKEW_MS"

abbreviation job_key :: "ext \<Rightarrow> infer_request \<Rightarrow> address \<times> nat" where
  "job_key X req \<equiv> (billing_address X req, rq_nonce req)"

lemma map_err_Inference [simp]: "map_err Inference r \<noteq> Err (BadJob x)"
  by (cases r) simp_all

lemma run_job_cache:
  assumes "reaches_cache A r req now"
  shows "snd (run_job X A L req m job now r) =
      r\<lparr>rn_nonces := snd (nonce_insert NONCE_CACHE_CAP (job_key X req) (rn_nonces r))\<rparr>"
    and "fst (run_job X A L req m job now r) = Err (BadJob ReplayedNonce) \<longleftrightarrow>
      \<not> fst (nonce_insert NONCE_CACHE_CAP (job_key X req) (rn_nonces r))"
  using assms
proof -
  from assms obtain prompt where p: "decrypt_prompt A r req = Ok prompt" "prompt \<noteq> []"
    "rq_max_tokens req \<noteq> 0" "\<not> sat_sub now (rq_timestamp_ms req) > REQUEST_MAX_SKEW_MS"
    by (auto simp: reaches_cache_def sat_sub_def)
  with p show "snd (run_job X A L req m job now r) =
      r\<lparr>rn_nonces := snd (nonce_insert NONCE_CACHE_CAP (job_key X req) (rn_nonces r))\<rparr>"
    and "fst (run_job X A L req m job now r) = Err (BadJob ReplayedNonce) \<longleftrightarrow>
      \<not> fst (nonce_insert NONCE_CACHE_CAP (job_key X req) (rn_nonces r))"
    by (simp_all add: run_job_def Let_def rbind_Err_iff split: prod.splits)
qed

text \<open>The requests \<open>reqs\<close>, each with its model, job id and clock, run one after the other.\<close>

definition run_jobs ::
    "ext \<Rightarrow> aead_ext \<Rightarrow> llm_ext \<Rightarrow> (infer_request \<times> model_ref \<times> job_id \<times> timestamp) list \<Rightarrow> runner \<Rightarrow> runner" where
  "run_jobs X A L jobs r = fold (\<lambda>(req, m, job, now) r. snd (run_job X A L req m job now r)) jobs r"

lemma runner_enclave_const: "rn_enclave (snd (run_job X A L req m job now r)) = rn_enclave r"
  by (auto simp: run_job_def Let_def split: result.splits prod.splits)

lemma reaches_cache_cong:
  assumes "rn_enclave r = rn_enclave r'"
  shows "reaches_cache A r req now = reaches_cache A r' req now"
proof -
  have "decrypt_prompt A r req = decrypt_prompt A r' req" unfolding decrypt_prompt_def assms ..
  then show ?thesis by (simp add: reaches_cache_def)
qed

lemma run_jobs_cache:
  assumes "\<forall>(req, m, job, now) \<in> set jobs. reaches_cache A r req now"
  shows "rn_nonces (run_jobs X A L jobs r) =
      nonces.ins_all NONCE_CACHE_CAP (map (\<lambda>(req, m, job, now). job_key X req) jobs) (rn_nonces r) \<and>
    rn_enclave (run_jobs X A L jobs r) = rn_enclave r"
  using assms
proof (induction jobs arbitrary: r)
  case Nil
  then show ?case by (simp add: run_jobs_def nonces.ins_all_def)
next
  case (Cons j jobs)
  obtain req m job now where j: "j = (req, m, job, now)" by (cases j)
  let ?r = "snd (run_job X A L req m job now r)"
  have r: "?r = r\<lparr>rn_nonces := snd (nonce_insert NONCE_CACHE_CAP (job_key X req) (rn_nonces r))\<rparr>"
    using Cons.prems j by (intro run_job_cache) auto
  have "\<forall>(req, m, job, now) \<in> set jobs. reaches_cache A ?r req now"
    using Cons.prems reaches_cache_cong[of ?r r A] by (auto simp: runner_enclave_const)
  from Cons.IH[OF this] show ?case by (simp add: run_jobs_def nonces.ins_all_def j r)
qed

text \<open>A compute node refuses a job that it ran before while fewer than 8192 other jobs came in
  between, and runs it again after 8192 jobs with other nonces, whoever sent them: the memory is
  shared by all users, and a request stays acceptable for as long as its own timestamp is ahead.\<close>

theorem nonce_memory_is_shared:
  fixes jobs :: "(infer_request \<times> model_ref \<times> job_id \<times> timestamp) list"
  assumes "reaches_cache A r req now" and "fst (run_job X A L req m job now r) \<noteq> Err (BadJob ReplayedNonce)"
    and "r1 = snd (run_job X A L req m job now r)"
    and "\<forall>(req, m, job, now) \<in> set jobs. reaches_cache A r req now"
    and "reaches_cache A r req now'" and "length (rn_nonces r) \<le> NONCE_CACHE_CAP"
    and "keys = map (\<lambda>(req, m, job, now). job_key X req) jobs"
  shows "(length jobs < NONCE_CACHE_CAP \<longrightarrow>
       fst (run_job X A L req m job' now' (run_jobs X A L jobs r1)) = Err (BadJob ReplayedNonce)) \<and>
    (length jobs = NONCE_CACHE_CAP \<and> distinct keys \<and> set keys \<inter> set (rn_nonces r1) = {} \<longrightarrow>
       fst (run_job X A L req m job' now' (run_jobs X A L jobs r1)) \<noteq> Err (BadJob ReplayedNonce))"
proof -
  let ?k = "job_key X req"
  have r1: "r1 = r\<lparr>rn_nonces := snd (nonce_insert NONCE_CACHE_CAP ?k (rn_nonces r))\<rparr>"
    and fresh: "fst (nonce_insert NONCE_CACHE_CAP ?k (rn_nonces r))"
    using run_job_cache[OF assms(1)] assms(2,3) by auto
  have same: "reaches_cache A r1 q t = reaches_cache A r q t" for q t
    by (rule reaches_cache_cong) (simp add: r1)
  let ?r2 = "run_jobs X A L jobs r1"
  have r2: "rn_nonces ?r2 = nonces.ins_all NONCE_CACHE_CAP keys (rn_nonces r1)" "rn_enclave ?r2 = rn_enclave r1"
    using run_jobs_cache[of jobs A r1 X L] assms(4,7) by (simp_all add: same)
  have "reaches_cache A ?r2 req now'" using reaches_cache_cong[OF r2(2)] assms(5) by (simp add: same)
  note again = run_job_cache(2)[OF this, of X L m job']
  have cap: "0 < NONCE_CACHE_CAP" by (simp add: NONCE_CACHE_CAP_def)
  have r1n: "rn_nonces r1 = snd (nonce_insert NONCE_CACHE_CAP ?k (rn_nonces r))" by (simp add: r1)
  have k_in: "?k \<in> set (rn_nonces r1)" by (simp add: r1 nonce_insert_def)
  show ?thesis
  proof (intro conjI impI)
    assume "length jobs < NONCE_CACHE_CAP"
    then show "fst (run_job X A L req m job' now' ?r2) = Err (BadJob ReplayedNonce)"
      using nonces.remembered[OF fresh, of keys] assms(7) by (simp add: again r2 r1n)
  next
    assume F: "length jobs = NONCE_CACHE_CAP \<and> distinct keys \<and> set keys \<inter> set (rn_nonces r1) = {}"
    have "length (rn_nonces r1) \<le> NONCE_CACHE_CAP"
      unfolding r1n by (rule nonces.length_ins[OF assms(6) cap])
    with F k_in cap assms(7) have "fst (nonce_insert NONCE_CACHE_CAP ?k (nonces.ins_all NONCE_CACHE_CAP keys (rn_nonces r1)))"
      by (intro nonces.forgotten) auto
    then show "fst (run_job X A L req m job' now' ?r2) \<noteq> Err (BadJob ReplayedNonce)"
      by (simp add: again r2)
  qed
qed

definition demo_llm :: "llm_item list \<Rightarrow> llm_ext" where
  "demo_llm items = \<lparr>lx_load = (\<lambda>m. Ok 0), lx_infer = (\<lambda>h req. Ok items)\<rparr>"

definition demo_aead :: aead_ext where
  "demo_aead = \<lparr>ae_public = (\<lambda>s. s), ae_dh = (\<lambda>a b. 0), ae_hkdf = (\<lambda>i s. s),
     ae_encrypt = (\<lambda>k n p. Some p), ae_decrypt = (\<lambda>k n c. Some c)\<rparr>"

definition demo_model :: model_ref where
  "demo_model = \<lparr>mr_org = ''o'', mr_name = ''m'', mr_quant = QF16\<rparr>"

lemma demo_reaches_cache [simp]: "reaches_cache demo_aead runner_new (demo_request\<lparr>rq_nonce := n\<rparr>) 1000"
  by (simp add: reaches_cache_def decrypt_prompt_def demo_request_def REQUEST_MAX_SKEW_MS_def)

text \<open>A job, 8192 jobs with the nonces 6, 7, ..., and the first job again.\<close>

lemma nonce_memory_demo:
  fixes ns :: "nat list"
  assumes "length ns = NONCE_CACHE_CAP" and "distinct ns" and "5 \<notin> set ns"
  defines "jobs \<equiv> map (\<lambda>n. (demo_request\<lparr>rq_nonce := n\<rparr>, demo_model, 0 :: job_id, 1000 :: nat)) ns"
    and "req \<equiv> demo_request\<lparr>rq_nonce := 5\<rparr>"
    and "r1 \<equiv> snd (run_job demo_ext demo_aead (demo_llm []) (demo_request\<lparr>rq_nonce := 5\<rparr>) demo_model 0 1000 runner_new)"
  shows "fst (run_job demo_ext demo_aead (demo_llm []) req demo_model 0 1000 runner_new) \<noteq> Err (BadJob ReplayedNonce)"
    and "\<forall>(req, m, job, now) \<in> set jobs. reaches_cache demo_aead runner_new req now"
    and "length jobs = NONCE_CACHE_CAP"
    and "distinct (map (\<lambda>(req, m, job, now). job_key demo_ext req) jobs)"
    and "set (map (\<lambda>(req, m, job, now). job_key demo_ext req) jobs) \<inter> set (rn_nonces r1) = {}"
    and "length (rn_nonces runner_new) \<le> NONCE_CACHE_CAP"
proof -
  have key: "job_key demo_ext (demo_request\<lparr>rq_nonce := n\<rparr>) = (billing_address demo_ext demo_request, n)" for n
    by (simp add: billing_address_def demo_request_def)
  have r1: "rn_nonces r1 = [(billing_address demo_ext demo_request, 5)]"
    unfolding r1_def run_job_cache(1)[OF demo_reaches_cache] key
    by (simp add: nonce_insert_def runner_new_def NONCE_CACHE_CAP_def)
  have keys: "map (\<lambda>(req, m, job, now). job_key demo_ext req) jobs =
      map (\<lambda>n. (billing_address demo_ext demo_request, n)) ns"
    by (simp add: jobs_def billing_address_def demo_request_def)
  show "fst (run_job demo_ext demo_aead (demo_llm []) req demo_model 0 1000 runner_new) \<noteq> Err (BadJob ReplayedNonce)"
    unfolding req_def run_job_cache(2)[OF demo_reaches_cache] by (simp add: nonce_insert_def runner_new_def)
  show "\<forall>(req, m, job, now) \<in> set jobs. reaches_cache demo_aead runner_new req now"
    by (auto simp: jobs_def)
  show "length jobs = NONCE_CACHE_CAP" by (simp add: jobs_def assms(1))
  show "distinct (map (\<lambda>(req, m, job, now). job_key demo_ext req) jobs)"
    using assms(2) by (simp add: keys distinct_map inj_on_def)
  show "set (map (\<lambda>(req, m, job, now). job_key demo_ext req) jobs) \<inter> set (rn_nonces r1) = {}"
    using assms(3) unfolding keys r1 by auto
  show "length (rn_nonces runner_new) \<le> NONCE_CACHE_CAP" by (simp add: runner_new_def)
qed

theorem nonce_memory_is_shared_witness:
  "\<exists>ns r. length ns = 8192 \<and>
     r = run_jobs demo_ext demo_aead (demo_llm [])
       (map (\<lambda>n. (demo_request\<lparr>rq_nonce := n\<rparr>, demo_model, 0, 1000)) ns)
       (snd (run_job demo_ext demo_aead (demo_llm []) (demo_request\<lparr>rq_nonce := 5\<rparr>) demo_model 0 1000 runner_new)) \<and>
     fst (run_job demo_ext demo_aead (demo_llm []) (demo_request\<lparr>rq_nonce := 5\<rparr>) demo_model 0 1000 r)
       \<noteq> Err (BadJob ReplayedNonce)"
proof -
  define ns where "ns = map (\<lambda>i. i + 6) [0 ..< NONCE_CACHE_CAP]"
  have ns: "length ns = NONCE_CACHE_CAP" "distinct ns" "5 \<notin> set ns"
    by (auto simp: ns_def distinct_map inj_on_def)
  note demo = nonce_memory_demo[OF ns]
  have "fst (run_job demo_ext demo_aead (demo_llm []) (demo_request\<lparr>rq_nonce := 5\<rparr>) demo_model 0 1000
      (run_jobs demo_ext demo_aead (demo_llm [])
        (map (\<lambda>n. (demo_request\<lparr>rq_nonce := n\<rparr>, demo_model, 0, 1000)) ns)
        (snd (run_job demo_ext demo_aead (demo_llm []) (demo_request\<lparr>rq_nonce := 5\<rparr>) demo_model 0 1000 runner_new))))
      \<noteq> Err (BadJob ReplayedNonce)"
    using nonce_memory_is_shared[OF demo_reaches_cache demo(1) refl demo(2) demo_reaches_cache demo(6) refl, of 0]
      demo(3-5) by blast
  moreover have "length ns = 8192" using ns(1) by (simp add: NONCE_CACHE_CAP_def)
  ultimately show ?thesis by blast
qed

end
