(* ===== verification/Dispatchers.thy ===== *)
theory Dispatchers
  imports ComputeJob
begin

text \<open>
  The dispatchers between router and compute node (\<^verbatim>\<open>crates/node/src/l2_dispatch.rs\<close>): the local
  one calls the runner of theory \<open>ComputeJob\<close>, the remote one sends the request through the mesh and
  waits on the receiver of answers that all dispatchers share. Sending is a parameter; the answers that
  will arrive are a list, each within the waiting time of its predecessor, after which the channel is
  closed or silent.
\<close>

section \<open>The local dispatcher\<close>

definition mint_job_id :: "ext \<Rightarrow> infer_request \<Rightarrow> timestamp \<Rightarrow> job_id" where
  "mint_job_id X req now =
     x_blake3 X (JOB_ID_DOMAIN @ word_bytes (billing_address X req) @ u64_le_bytes (rq_nonce req) @
       u64_le_bytes now)"

definition compute_error_text :: "compute_error \<Rightarrow> string" where
  "compute_error_text e = (case e of Inference msg \<Rightarrow> msg | BadJob _ \<Rightarrow> ''invalid request'')"

definition local_dispatch ::
    "ext \<Rightarrow> aead_ext \<Rightarrow> llm_ext \<Rightarrow> model_ref \<Rightarrow> timestamp \<Rightarrow> bool \<Rightarrow> infer_request \<Rightarrow> runner \<Rightarrow>
     ((router_error, job_stream) result \<times> runner) option" where
  "local_dispatch X A L m now in_time req r =
     (let job = mint_job_id X req now;
          (res, r') = run_job X A L req m job now r
      in Some (rbind (map_err (\<lambda>e. Dispatch (compute_error_text e)) res) (\<lambda>inner.
           Ok \<lparr>js_events = fst (forward_rest job True inner), js_in_time = in_time, js_closes = True\<rparr>), r'))"

section \<open>The remote dispatcher\<close>

record response_event =
  re_request_id :: nat
  re_result :: "(string, bytes) result"

datatype channel_end = ChannelClosed | Silent

record mesh =
  ms_answers :: "response_event list"
  ms_end :: channel_end

text \<open>The loop on the receiver: an answer to another request is thrown away.\<close>

fun await_response ::
    "nat \<Rightarrow> response_event list \<Rightarrow> channel_end \<Rightarrow> (router_error, response_event) result \<times> response_event list" where
  "await_response outbound_id [] ChannelClosed = (Err (Dispatch ''response channel closed''), [])"
| "await_response outbound_id [] Silent = (Err (Dispatch ''inference request timed out''), [])"
| "await_response outbound_id (ev # evs) fin =
     (if re_request_id ev = outbound_id then (Ok ev, evs) else await_response outbound_id evs fin)"

text \<open>The decoded events are sent into a bounded channel before its receiver is handed out; a send
  into a full channel waits for ever (\<open>None\<close>).\<close>

fun fill_channel ::
    "infer_ext \<Rightarrow> nat \<Rightarrow> job_event list \<Rightarrow> bytes list \<Rightarrow> (router_error, job_event list) result option" where
  "fill_channel I cap queue [] = Some (Ok queue)"
| "fill_channel I cap queue (raw # raws) =
     (case ix_unborsh_event I raw of
        None \<Rightarrow> Some (Err (Dispatch ''decode event''))
      | Some ev \<Rightarrow>
          if length queue < cap then fill_channel I cap (queue @ [ev]) raws else None)"

definition REMOTE_CHANNEL_CAP :: nat where "REMOTE_CHANNEL_CAP = 64"

definition remote_dispatch ::
    "infer_ext \<Rightarrow> (bytes \<Rightarrow> (string, nat) result) \<Rightarrow> infer_request \<Rightarrow> mesh \<Rightarrow>
     ((router_error, job_stream) result \<times> mesh) option" where
  "remote_dispatch I send req n =
     (case send (ix_borsh_request I req) of
        Err e \<Rightarrow> Some (Err (Dispatch e), n)
      | Panic \<Rightarrow> Some (Panic, n)
      | Ok outbound_id \<Rightarrow>
         (case await_response outbound_id (ms_answers n) (ms_end n) of
            (Err e, rest) \<Rightarrow> Some (Err e, n\<lparr>ms_answers := rest\<rparr>)
          | (Panic, rest) \<Rightarrow> Some (Panic, n\<lparr>ms_answers := rest\<rparr>)
          | (Ok resp, rest) \<Rightarrow>
             (case re_result resp of
                Err e \<Rightarrow> Some (Err (Dispatch e), n\<lparr>ms_answers := rest\<rparr>)
              | Panic \<Rightarrow> Some (Panic, n\<lparr>ms_answers := rest\<rparr>)
              | Ok wire_resp \<Rightarrow>
                 (case ix_unborsh_response I wire_resp of
                    None \<Rightarrow> Some (Err (Dispatch ''decode response''), n\<lparr>ms_answers := rest\<rparr>)
                  | Some raws \<Rightarrow>
                      map_option (\<lambda>res. (rbind res (\<lambda>evs.
                          Ok \<lparr>js_events = evs, js_in_time = True, js_closes = True\<rparr>), n\<lparr>ms_answers := rest\<rparr>))
                        (fill_channel I REMOTE_CHANNEL_CAP [] raws)))))"

section \<open>Answers that do not arrive\<close>

lemma fill_channel_decodes:
  assumes "list_all2 (\<lambda>raw ev. ix_unborsh_event I raw = Some ev) raws evs" and "length queue \<le> cap"
  shows "fill_channel I cap queue raws =
    (if length queue + length evs \<le> cap then Some (Ok (queue @ evs)) else None)"
  using assms
proof (induction raws evs arbitrary: queue rule: list_all2_induct)
  case (Cons raw raws ev evs)
  show ?case
  proof (cases "length queue < cap")
    case True
    with Cons.IH[of "queue @ [ev]"] Cons.hyps show ?thesis by simp
  qed (use Cons in simp)
qed simp

lemma await_skips:
  "list_all (\<lambda>ev. re_request_id ev \<noteq> i) evs \<Longrightarrow>
   await_response i (evs @ ev # rest) fin = (if re_request_id ev = i then (Ok ev, rest) else await_response i rest fin)"
  by (induction evs) simp_all

lemma await_missing:
  "list_all (\<lambda>ev. re_request_id ev \<noteq> i) evs \<Longrightarrow> \<exists>e. await_response i evs fin = (Err e, [])"
  by (induction evs; cases fin) simp_all

text \<open>The remote dispatcher delivers an answer of at most 64 events as it was sent, and never
  returns for a longer one: the channel it fills has no reader yet. The failover, whose five seconds
  start only when the dispatcher has returned, then waits with it, though the next candidate is free.\<close>

theorem long_answer_blocks_router:
  assumes "ca_dispatcher c = remote_dispatch I send" and "send (ix_borsh_request I req) = Ok i"
    and "ms_answers n = others @ \<lparr>re_request_id = i, re_result = Ok wire\<rparr> # rest"
    and "list_all (\<lambda>ev. re_request_id ev \<noteq> i) others"
    and "ix_unborsh_response I wire = Some raws"
    and "list_all2 (\<lambda>raw ev. ix_unborsh_event I raw = Some ev) raws evs"
  shows "ca_dispatcher c req n =
      (if length evs \<le> 64
       then Some (Ok \<lparr>js_events = evs, js_in_time = True, js_closes = True\<rparr>, n\<lparr>ms_answers := rest\<rparr>) else None) \<and>
    (length evs > 64 \<longrightarrow> dispatch_with_failover (c # cs) req job n = None)"
proof -
  have "ca_dispatcher c req n =
      (if length evs \<le> 64
       then Some (Ok \<lparr>js_events = evs, js_in_time = True, js_closes = True\<rparr>, n\<lparr>ms_answers := rest\<rparr>) else None)"
    using assms(2,5) fill_channel_decodes[OF assms(6), of "[]" REMOTE_CHANNEL_CAP]
    by (simp add: assms(1) remote_dispatch_def assms(3) await_skips[OF assms(4)] REMOTE_CHANNEL_CAP_def)
  then show ?thesis by (simp add: dispatch_with_failover_def dispatch_one_def)
qed

definition demo_wire_infer :: infer_ext where
  "demo_wire_infer = demo_infer\<lparr>ix_unborsh_response := (\<lambda>bs. Some (replicate 65 bs)),
     ix_unborsh_event := (\<lambda>bs. Some (Token 0 0 bs))\<rparr>"

definition remote_candidate :: "node_id \<Rightarrow> infer_ext \<Rightarrow> nat \<Rightarrow> mesh candidate" where
  "remote_candidate n I i =
     \<lparr>ca_node_id = n, ca_operator = 0, ca_total_stake = 1000000, ca_model_refs = [''m''],
      ca_last_seen_ms = 1000, ca_dispatcher = remote_dispatch I (\<lambda>bs. Ok i), ca_supports_tee = False\<rparr>"

theorem long_answer_blocks_router_witness:
  "dispatch_with_failover [remote_candidate 1 demo_wire_infer 3, remote_candidate 2 demo_wire_infer 4]
     demo_request 0
     \<lparr>ms_answers = [\<lparr>re_request_id = 3, re_result = Ok [7]\<rparr>, \<lparr>re_request_id = 4, re_result = Ok [8]\<rparr>],
      ms_end = Silent\<rparr> = None"
proof -
  let ?n = "\<lparr>ms_answers = [\<lparr>re_request_id = 3, re_result = Ok [7]\<rparr>, \<lparr>re_request_id = 4, re_result = Ok [8]\<rparr>],
      ms_end = Silent\<rparr>"
  have "list_all2 (\<lambda>raw ev. ix_unborsh_event demo_wire_infer raw = Some ev) (replicate k [7])
      (replicate k (Token 0 0 [7]))" for k
    by (induction k) (simp_all add: demo_wire_infer_def)
  from this[of 65] have d: "list_all2 (\<lambda>raw ev. ix_unborsh_event demo_wire_infer raw = Some ev)
      (replicate 65 [7]) (replicate 65 (Token 0 0 [7]))" .
  have "length (replicate 65 (Token 0 0 [7])) > 64" by (simp only: length_replicate)
  with long_answer_blocks_router[of "remote_candidate 1 demo_wire_infer 3" demo_wire_infer "\<lambda>bs. Ok 3"
      demo_request 3 ?n "[]" "[7]" _ "replicate 65 [7]" "replicate 65 (Token 0 0 [7])", OF _ _ _ _ _ d,
      of _ "[remote_candidate 2 demo_wire_infer 4]" 0]
  show ?thesis by (simp add: remote_candidate_def demo_wire_infer_def)
qed

text \<open>C1: Two dispatchers wait for the answers \<open>i\<close> and \<open>j\<close> on the one receiver. When \<open>j\<close>'s answer
  comes first, the first dispatcher throws it away, and the second one reports a failure although its
  job was done, answered and not asked for again.\<close>

theorem concurrent_answer_lost:
  assumes "i \<noteq> j" and "ms_answers n =
      [\<lparr>re_request_id = j, re_result = Ok wire_j\<rparr>, \<lparr>re_request_id = i, re_result = Ok wire_i\<rparr>]"
    and "send req_i = Ok i" and "send req_j = Ok j"
    and "ix_borsh_request I ri = req_i" and "ix_borsh_request I rj = req_j"
    and "ix_unborsh_response I wire_i = Some raws"
    and "list_all2 (\<lambda>raw ev. ix_unborsh_event I raw = Some ev) raws evs" and "length evs \<le> 64"
  shows "\<exists>n' e. remote_dispatch I send ri n =
      Some (Ok \<lparr>js_events = evs, js_in_time = True, js_closes = True\<rparr>, n') \<and>
    ms_answers n' = [] \<and> remote_dispatch I send rj n' = Some (Err (Dispatch e), n')"
proof -
  have "remote_dispatch I send ri n =
      Some (Ok \<lparr>js_events = evs, js_in_time = True, js_closes = True\<rparr>, n\<lparr>ms_answers := []\<rparr>)"
    using assms fill_channel_decodes[OF assms(8), of "[]" REMOTE_CHANNEL_CAP]
    by (simp add: remote_dispatch_def REMOTE_CHANNEL_CAP_def)
  moreover have "\<exists>e. remote_dispatch I send rj (n\<lparr>ms_answers := []\<rparr>) = Some (Err (Dispatch e), n\<lparr>ms_answers := []\<rparr>)"
    using assms(4,6) by (cases "ms_end n") (simp_all add: remote_dispatch_def)
  ultimately show ?thesis by fastforce
qed

theorem concurrent_answer_lost_witness:
  "\<exists>n' e. remote_dispatch (demo_infer\<lparr>ix_unborsh_response := (\<lambda>bs. Some [bs]),
        ix_unborsh_event := (\<lambda>bs. Some (Token 0 0 bs)), ix_borsh_request := (\<lambda>r. [of_nat (rq_nonce r)])\<rparr>)
       (\<lambda>bs. Ok (unat (hd bs))) (demo_request\<lparr>rq_nonce := 3\<rparr>)
       \<lparr>ms_answers = [\<lparr>re_request_id = 4, re_result = Ok [8]\<rparr>, \<lparr>re_request_id = 3, re_result = Ok [7]\<rparr>],
        ms_end = Silent\<rparr> = Some (Ok (demo_stream [Token 0 0 [7]]), n') \<and>
     remote_dispatch (demo_infer\<lparr>ix_unborsh_response := (\<lambda>bs. Some [bs]),
        ix_unborsh_event := (\<lambda>bs. Some (Token 0 0 bs)), ix_borsh_request := (\<lambda>r. [of_nat (rq_nonce r)])\<rparr>)
       (\<lambda>bs. Ok (unat (hd bs))) (demo_request\<lparr>rq_nonce := 4\<rparr>) n' = Some (Err (Dispatch e), n')"
proof -
  let ?I = "demo_infer\<lparr>ix_unborsh_response := (\<lambda>bs. Some [bs]), ix_unborsh_event := (\<lambda>bs. Some (Token 0 0 bs)),
        ix_borsh_request := (\<lambda>r. [of_nat (rq_nonce r)])\<rparr>"
  let ?n = "\<lparr>ms_answers = [\<lparr>re_request_id = 4, re_result = Ok [8]\<rparr>, \<lparr>re_request_id = 3, re_result = Ok [7]\<rparr>],
        ms_end = Silent\<rparr>"
  from concurrent_answer_lost[of 3 4 ?n "[8]" "[7]" "\<lambda>bs. Ok (unat (hd bs))" "[3]" "[4]" ?I
      "demo_request\<lparr>rq_nonce := 3\<rparr>" "demo_request\<lparr>rq_nonce := 4\<rparr>" "[[7]]" "[Token 0 0 [7]]"]
  show ?thesis by (auto simp: demo_stream_def)
qed

end
