(* ===== verification/ReceiptBatch.thy ===== *)
theory ReceiptBatch
  imports Mempool LedgerProperties
begin

text \<open>
  Receipt batches as routers build them (\<^verbatim>\<open>crates/receipts/src/batch.rs\<close>, \<open>anchor.rs\<close>): the builder
  with its limits, the root and the id of a batch, the digest the aggregator signs and the transaction
  that anchors the batch; and how the chain takes such a batch. The borsh encoding of a batch is the
  argument \<open>borsh_batch\<close>, the signing function of \<open>build_anchor_tx\<close> the argument \<open>sign_hash\<close>.
\<close>

section \<open>The builder\<close>

definition RECEIPT_BATCH_MAX :: nat where "RECEIPT_BATCH_MAX = 1000"

definition MAX_RECEIPT_BATCH_BYTES :: nat where "MAX_RECEIPT_BATCH_BYTES = 16 * 1024 * 1024"

datatype receipt_error =
  EmptyBatch
| TooManyReceipts nat nat
| BatchOversize nat nat
| BatchMerkle crypto_error

definition DOMAIN_RECEIPT_LEAF :: bytes where
  "DOMAIN_RECEIPT_LEAF = str_bytes ''arknet-receipt-leaf-v1''"

definition DOMAIN_RECEIPT_BATCH_SIG :: bytes where
  "DOMAIN_RECEIPT_BATCH_SIG = str_bytes ''arknet-receipt-batch-sig-v1''"

definition hash_receipt :: "ext \<Rightarrow> inference_receipt \<Rightarrow> hash256" where
  "hash_receipt X r = x_sha256 X (DOMAIN_RECEIPT_LEAF @ x_borsh_receipt X r)"

definition compute_merkle_root :: "ext \<Rightarrow> inference_receipt list \<Rightarrow> (receipt_error, hash256) result" where
  "compute_merkle_root X receipts =
     (if receipts = [] then Err EmptyBatch
      else rbind (map_err BatchMerkle
             (merkle_new (x_sha256 X) (map (\<lambda>r. word_bytes (hash_receipt X r)) receipts))) (\<lambda>tree.
           Ok (merkle_root tree)))"

definition compute_batch_id :: "ext \<Rightarrow> inference_receipt list \<Rightarrow> hash256" where
  "compute_batch_id X receipts =
     x_blake3 X (str_bytes ''arknet-receipt-batch-id-v1'' @ concat (map (x_borsh_receipt X) receipts))"

record batch_builder =
  bb_aggregator :: node_id
  bb_receipts :: "inference_receipt list"

definition builder_new :: "node_id \<Rightarrow> batch_builder" where
  "builder_new aggregator = \<lparr>bb_aggregator = aggregator, bb_receipts = []\<rparr>"

definition builder_push :: "inference_receipt \<Rightarrow> batch_builder \<Rightarrow> (receipt_error, batch_builder) result" where
  "builder_push receipt b =
     (if length (bb_receipts b) \<ge> RECEIPT_BATCH_MAX
      then Err (TooManyReceipts (length (bb_receipts b) + 1) RECEIPT_BATCH_MAX)
      else Ok (b\<lparr>bb_receipts := bb_receipts b @ [receipt]\<rparr>))"

definition builder_seal ::
    "ext \<Rightarrow> (receipt_batch \<Rightarrow> bytes) \<Rightarrow> sig \<Rightarrow> batch_builder \<Rightarrow> (receipt_error, receipt_batch) result" where
  "builder_seal X borsh_batch sg b =
     (if bb_receipts b = [] then Err EmptyBatch
      else rbind (compute_merkle_root X (bb_receipts b)) (\<lambda>root.
      let batch = \<lparr>rb_batch_id = compute_batch_id X (bb_receipts b), rb_receipts = bb_receipts b,
                   rb_merkle_root = root, rb_aggregator = bb_aggregator b, rb_signature = sg\<rparr>;
          len = length (borsh_batch batch)
      in if len > MAX_RECEIPT_BATCH_BYTES then Err (BatchOversize len MAX_RECEIPT_BATCH_BYTES)
         else Ok batch))"

definition aggregator_signing_digest :: "ext \<Rightarrow> hash256 \<Rightarrow> hash256 \<Rightarrow> hash256" where
  "aggregator_signing_digest X batch_id root =
     x_sha256 X (DOMAIN_RECEIPT_BATCH_SIG @ word_bytes batch_id @ word_bytes root)"

definition build_anchor_tx ::
    "ext \<Rightarrow> (receipt_batch \<Rightarrow> bytes) \<Rightarrow> receipt_batch \<Rightarrow> pubkey \<Rightarrow> (hash256 \<Rightarrow> sig) \<Rightarrow>
     (receipt_error, signed_transaction) result" where
  "build_anchor_tx X borsh_batch batch signer_pubkey sign_hash =
     (let len = length (borsh_batch batch)
      in if len > MAX_RECEIPT_BATCH_BYTES then Err (BatchOversize len MAX_RECEIPT_BATCH_BYTES)
         else let tx = ReceiptBatchTx batch
              in Ok \<lparr>stx_tx = tx, stx_signer = signer_pubkey, stx_signature = sign_hash (tx_hash X tx)\<rparr>)"

section \<open>The chain and the builder agree on the root\<close>

lemma leaf_is_receipt_leaf: "word_bytes (hash_receipt X r) = receipt_leaf X r"
  by (simp add: hash_receipt_def receipt_leaf_def DOMAIN_RECEIPT_LEAF_def)

lemma compute_merkle_root_Ok:
  "compute_merkle_root X rs = Ok root \<longleftrightarrow>
     rs \<noteq> [] \<and> (\<exists>tree. merkle_new (x_sha256 X) (map (receipt_leaf X) rs) = Ok tree \<and> root = merkle_root tree)"
  by (auto simp: compute_merkle_root_def leaf_is_receipt_leaf rbind_Ok_iff)

lemma compute_merkle_root_exists: "rs \<noteq> [] \<Longrightarrow> \<exists>root. compute_merkle_root X rs = Ok root"
  by (simp add: compute_merkle_root_Ok merkle_new_def)

lemma merkle_root_of_one:
  "compute_merkle_root X [r] = Ok (hash_leaf (x_sha256 X) (receipt_leaf X r))"
  by (simp add: compute_merkle_root_Ok merkle_new_def build_layers.simps merkle_root_def)

lemma push_receipts:
  assumes "length (bb_receipts b) \<le> RECEIPT_BATCH_MAX"
  shows "rfold builder_push rs b =
    (if length (bb_receipts b) + length rs \<le> RECEIPT_BATCH_MAX
     then Ok (b\<lparr>bb_receipts := bb_receipts b @ rs\<rparr>)
     else Err (TooManyReceipts (RECEIPT_BATCH_MAX + 1) RECEIPT_BATCH_MAX))"
  using assms
proof (induction rs arbitrary: b)
  case (Cons r rs)
  show ?case
  proof (cases "length (bb_receipts b) < RECEIPT_BATCH_MAX")
    case True
    then show ?thesis using Cons.IH[of "b\<lparr>bb_receipts := bb_receipts b @ [r]\<rparr>"]
      by (simp add: builder_push_def)
  qed (use Cons.prems in \<open>simp add: builder_push_def\<close>)
qed simp

lemma mark_receipts_iff:
  "snd (mark_receipts h rs c) = None \<longleftrightarrow>
     distinct (map ir_job_id rs) \<and> (\<forall>r \<in> set rs. \<not> is_receipt_seen c (ir_job_id r))"
proof (induction h rs c rule: mark_receipts.induct)
  case (2 h r rs c)
  have "(\<forall>x \<in> set rs. \<not> is_receipt_seen (mark_receipt_seen (ir_job_id r) h c) (ir_job_id x)) \<longleftrightarrow>
      ir_job_id r \<notin> ir_job_id ` set rs \<and> (\<forall>x \<in> set rs. \<not> is_receipt_seen c (ir_job_id x))"
    unfolding is_receipt_seen_after image_iff by metis
  with 2 show ?case by (cases "is_receipt_seen c (ir_job_id r)") (simp_all, blast)
qed simp

text \<open>Whatever its length, a batch with the right root is applied exactly when its jobs are distinct
  and fresh.\<close>

lemma rooted_batch_applied:
  assumes "compute_merkle_root X (rb_receipts batch) = Ok (rb_merkle_root batch)"
  shows "\<exists>c' out. apply_receipt_batch X c batch h = Ok (c', out) \<and>
    (out = TxApplied (sat_mul 64 RECEIPT_ANCHOR_GAS_PER_RECEIPT (length (rb_receipts batch))) \<longleftrightarrow>
       distinct (map ir_job_id (rb_receipts batch)) \<and>
       (\<forall>r \<in> set (rb_receipts batch). \<not> is_receipt_seen c (ir_job_id r)))"
proof -
  obtain tree where t: "merkle_new (x_sha256 X) (map (receipt_leaf X) (rb_receipts batch)) = Ok tree"
    "merkle_root tree = rb_merkle_root batch" "rb_receipts batch \<noteq> []"
    using assms by (auto simp: compute_merkle_root_Ok)
  obtain c1 j where m: "mark_receipts h (rb_receipts batch) c = (c1, j)" by (cases "mark_receipts h (rb_receipts batch) c")
  have "j = None \<longleftrightarrow> distinct (map ir_job_id (rb_receipts batch)) \<and>
      (\<forall>r \<in> set (rb_receipts batch). \<not> is_receipt_seen c (ir_job_id r))"
    using mark_receipts_iff[of h "rb_receipts batch" c] m by simp
  then show ?thesis using t m
    by (cases j) (auto simp: apply_receipt_batch_def Let_def)
qed

text \<open>C27: A batch that the builder seals has at most a thousand receipts, the ones pushed, in order, and
  its root is the one that the chain recomputes: the chain applies it exactly when its jobs are
  distinct and none was anchored before. (The chain itself does not bound the number of receipts.)\<close>

theorem sealed_batch_is_anchored:
  assumes "rfold builder_push rs (builder_new aggregator) = Ok b"
    and "builder_seal X borsh_batch sg b = Ok batch"
  shows "rb_receipts batch = rs \<and> length rs \<le> RECEIPT_BATCH_MAX \<and> rs \<noteq> [] \<and>
    (\<exists>c' out. apply_receipt_batch X c batch h = Ok (c', out) \<and>
      (out = TxApplied (RECEIPT_ANCHOR_GAS_PER_RECEIPT * length rs) \<longleftrightarrow>
         distinct (map ir_job_id rs) \<and> (\<forall>r \<in> set rs. \<not> is_receipt_seen c (ir_job_id r))))"
proof -
  have b: "b = \<lparr>bb_aggregator = aggregator, bb_receipts = rs\<rparr>" "length rs \<le> RECEIPT_BATCH_MAX"
    using assms(1) push_receipts[of "builder_new aggregator" rs]
    by (auto simp: builder_new_def RECEIPT_BATCH_MAX_def split: if_splits)
  from assms(2) b(1) have batch: "rb_receipts batch = rs" "rs \<noteq> []"
    "compute_merkle_root X rs = Ok (rb_merkle_root batch)"
    by (auto simp: builder_seal_def rbind_Ok_iff Let_def split: if_splits)
  have "sat_mul 64 RECEIPT_ANCHOR_GAS_PER_RECEIPT (length rs) = RECEIPT_ANCHOR_GAS_PER_RECEIPT * length rs"
    using b(2) by (intro sat_mul_exact) (simp add: RECEIPT_ANCHOR_GAS_PER_RECEIPT_def RECEIPT_BATCH_MAX_def)
  with rooted_batch_applied[of X batch c h] batch b(2) show ?thesis by auto
qed

text \<open>An anchor transaction of more than a mebibyte, which the builder allows, enters no pool.\<close>

lemma large_batch_never_pooled:
  assumes "build_anchor_tx X borsh_batch batch pk sign_hash = Ok stx"
    and "length (borsh_batch batch) \<le> length (x_borsh_stx X stx)"
    and "length (borsh_batch batch) > MAX_SIGNED_TX_BYTES"
  shows "mp_insert X stx p = Some (p, Err (MpOversize (stx_encoded_len X stx) MAX_SIGNED_TX_BYTES))"
  using assms(2,3) by (simp add: mp_insert_def check_signed_tx_size_def stx_encoded_len_def Let_def)

lemma anchored_tx_is_the_batch:
  assumes "build_anchor_tx X borsh_batch batch pk sign_hash = Ok stx"
  shows "stx_tx stx = ReceiptBatchTx batch" "stx_signer stx = pk"
    "stx_signature stx = sign_hash (tx_hash X (ReceiptBatchTx batch))"
  using assms by (auto simp: build_anchor_tx_def Let_def split: if_splits)

theorem sealed_batch_is_anchored_witness:
  "\<exists>b batch c' . rfold builder_push [demo_receipt 3, demo_receipt 4] (builder_new 9) = Ok b \<and>
     builder_seal demo_ext (\<lambda>b. []) demo_sig b = Ok batch \<and>
     apply_receipt_batch demo_ext (demo_ctx []) batch 7 =
       Ok (c', TxApplied (RECEIPT_ANCHOR_GAS_PER_RECEIPT * 2))"
proof -
  let ?rs = "[demo_receipt 3, demo_receipt 4]" and ?c = "demo_ctx []"
  have b: "rfold builder_push ?rs (builder_new 9) = Ok \<lparr>bb_aggregator = 9, bb_receipts = ?rs\<rparr>"
    by (simp add: builder_push_def builder_new_def RECEIPT_BATCH_MAX_def)
  obtain root where "compute_merkle_root demo_ext ?rs = Ok root"
    using compute_merkle_root_exists[of ?rs demo_ext] by auto
  then obtain batch where s: "builder_seal demo_ext (\<lambda>b. []) demo_sig \<lparr>bb_aggregator = 9, bb_receipts = ?rs\<rparr> = Ok batch"
    by (simp add: builder_seal_def MAX_RECEIPT_BATCH_BYTES_def)
  have fresh: "distinct (map ir_job_id ?rs) \<and> (\<forall>r \<in> set ?rs. \<not> is_receipt_seen ?c (ir_job_id r))"
    by (simp add: demo_ctx_def demo_db_def empty_db_def)
  have "\<exists>c'. apply_receipt_batch demo_ext ?c batch 7 = Ok (c', TxApplied (RECEIPT_ANCHOR_GAS_PER_RECEIPT * length ?rs))"
    using sealed_batch_is_anchored[OF b s, of ?c 7] fresh by blast
  with b s show ?thesis by auto
qed

end
