(* ===== verification/ComputeNode.thy ===== *)
theory ComputeNode
  imports Dispatchers ReceiptBatch Engine
begin

text \<open>
  The compute role of a node (\<^verbatim>\<open>crates/node/src/compute_role.rs\<close>): the placeholder identities,
  registration with the router of the same process, the answer to a request that a remote router sent
  over the mesh, the offers it gossips and the receipt it publishes for each job. The network handle
  is a parameter: the bytes of the local peer id, and whether an answer could be handed to the mesh;
  what the node publishes is part of the result. The three readings of the clock are arguments.
\<close>

section \<open>Identities\<close>

definition digest_pool :: "hash256 \<Rightarrow> pool_id" where
  "digest_pool d = ucast (drop_bit 128 d)"

definition local_pool_id :: "ext \<Rightarrow> pool_id" where
  "local_pool_id X = digest_pool (x_blake3 X (str_bytes ''arknet-local-pool''))"

text \<open>The data directory is given by its encoded bytes.\<close>

definition local_operator :: "ext \<Rightarrow> bytes \<Rightarrow> address" where
  "local_operator X data_dir = digest_address (x_blake3 X data_dir)"

definition local_node_id :: "ext \<Rightarrow> bytes \<Rightarrow> node_id" where
  "local_node_id X data_dir = x_blake3 X data_dir"

definition u32_le_bytes :: "nat \<Rightarrow> bytes" where
  "u32_le_bytes n = rev (word_bytes (of_nat n :: 32 word))"

section \<open>Registration with the local router\<close>

definition LOCAL_STAKE :: amount where "LOCAL_STAKE = 1000000"

definition register_self_as_candidate ::
    "ext \<Rightarrow> aead_ext \<Rightarrow> llm_ext \<Rightarrow> bytes \<Rightarrow> bool \<Rightarrow> string list \<Rightarrow> timestamp \<Rightarrow> (infer_request \<Rightarrow> timestamp) \<Rightarrow>
     (infer_request \<Rightarrow> bool) \<Rightarrow> runner router option \<Rightarrow> runner router option" where
  "register_self_as_candidate X A L data_dir tee model_refs now clock in_time router =
     (case router of
        None \<Rightarrow> None
      | Some rt \<Rightarrow>
         (case model_refs of
            [] \<Rightarrow> Some rt
          | first_model # _ \<Rightarrow>
             (case model_ref_parse first_model of
                Ok m \<Rightarrow>
                  Some (rt\<lparr>rt_registry := registry_upsert
                    \<lparr>ca_node_id = local_node_id X data_dir, ca_operator = local_operator X data_dir,
                     ca_total_stake = LOCAL_STAKE, ca_model_refs = model_refs, ca_last_seen_ms = now,
                     ca_dispatcher = (\<lambda>req. local_dispatch X A L m (clock req) (in_time req) req),
                     ca_supports_tee = tee\<rparr> (rt_registry rt)\<rparr>)
              | _ \<Rightarrow> Some rt)))"

section \<open>Offers\<close>

record node_net =
  nn_peer_id :: bytes
  nn_respond :: "bytes \<Rightarrow> bool"

definition announce_models ::
    "(pool_offer \<Rightarrow> bytes) \<Rightarrow> node_net \<Rightarrow> string list \<Rightarrow> address \<Rightarrow> bool \<Rightarrow> timestamp \<Rightarrow> (string \<times> bytes) list" where
  "announce_models borsh_offer net model_refs operator supports_tee now =
     [(topic_pool_offer, borsh_offer
        \<lparr>po_peer_id = nn_peer_id net, po_model_refs = model_refs, po_operator = operator,
         po_total_stake = LOCAL_STAKE, po_supports_tee = supports_tee, po_timestamp_ms = now,
         po_available_slots = 1\<rparr>)]"

text \<open>One tick of the heartbeat.\<close>

definition heartbeat ::
    "ext \<Rightarrow> (pool_offer \<Rightarrow> bytes) \<Rightarrow> node_net option \<Rightarrow> bytes \<Rightarrow> bool \<Rightarrow> string list \<Rightarrow> timestamp \<Rightarrow> (string \<times> bytes) list" where
  "heartbeat X borsh_offer network data_dir tee models now =
     (if models = [] then []
      else case network of
        None \<Rightarrow> []
      | Some net \<Rightarrow> announce_models borsh_offer net models (local_operator X data_dir) tee now)"

section \<open>The receipt of a job\<close>

text \<open>The seven arguments of \<^verbatim>\<open>submit_receipt\<close> besides the job, the pool and the clock.\<close>

definition zero_sig :: sig where "zero_sig = ed25519_sig 0"

definition compute_receipt ::
    "ext \<Rightarrow> bytes \<Rightarrow> job_id \<Rightarrow> pool_id \<Rightarrow> address \<Rightarrow> hash256 \<Rightarrow> model_ref \<Rightarrow> nat \<Rightarrow> nat \<Rightarrow> nat \<Rightarrow> timestamp \<Rightarrow> timestamp \<Rightarrow>
     inference_receipt" where
  "compute_receipt X peer_id job pool billing model_hash m prompt_len seed output_tokens start_ms end_ms =
     (let compute_node = x_blake3 X peer_id
      in \<lparr>ir_job_id = job, ir_pool_id = pool, ir_model_id = model_ref_display m, ir_model_hash = model_hash,
          ir_quantization = Q8_0, ir_user_address = billing, ir_router_node = compute_node,
          ir_compute_node = compute_node, ir_backup_node = None,
          ir_input_hash = x_blake3 X (u64_le_bytes prompt_len),
          ir_output_hash = x_blake3 X (u32_le_bytes output_tokens), ir_da_reference = None,
          ir_input_token_count = ucastn 32 (prompt_len div 4), ir_output_token_count = output_tokens,
          ir_latency_ms = ucastn 32 (sat_sub end_ms start_ms),
          ir_total_time_ms = ucastn 32 (sat_sub end_ms start_ms), ir_seed = seed,
          ir_compute_proof = HashChain [], ir_tee_attestation = None,
          ir_verification_tier = Optimistic, ir_prompt_encrypted = False, ir_timestamp_start = start_ms,
          ir_timestamp_end = end_ms, ir_compute_signature = zero_sig, ir_user_signature = zero_sig\<rparr>)"

definition receipt_tx :: "ext \<Rightarrow> inference_receipt \<Rightarrow> signed_transaction" where
  "receipt_tx X r =
     (let batch_id = x_blake3 X (x_borsh_receipt X r)
      in \<lparr>stx_tx = ReceiptBatchTx
            \<lparr>rb_batch_id = batch_id, rb_receipts = [r], rb_merkle_root = batch_id,
             rb_aggregator = ir_compute_node r, rb_signature = zero_sig\<rparr>,
          stx_signer = ed25519_pubkey 0, stx_signature = zero_sig\<rparr>)"

definition submit_receipt :: "ext \<Rightarrow> inference_receipt \<Rightarrow> (string \<times> bytes) list" where
  "submit_receipt X r = [(topic_tx_mempool, x_borsh_stx X (receipt_tx X r))]"

section \<open>A request from the mesh\<close>

record node_out =
  no_reply :: "bytes option"
  no_gossip :: "(string \<times> bytes) list"

definition no_answer :: node_out where "no_answer = \<lparr>no_reply = None, no_gossip = []\<rparr>"

fun count_token :: "infer_ext \<Rightarrow> bytes \<Rightarrow> nat \<Rightarrow> (unit, nat) result" where
  "count_token I raw n =
     (case ix_unborsh_event I raw of Some (Token j i t) \<Rightarrow> uadd 32 n 1 | _ \<Rightarrow> Ok n)"

definition handle_inference_request ::
    "ext \<Rightarrow> crypto_ext \<Rightarrow> infer_ext \<Rightarrow> aead_ext \<Rightarrow> llm_ext \<Rightarrow> node_net option \<Rightarrow> bytes \<Rightarrow>
     timestamp \<Rightarrow> timestamp \<Rightarrow> timestamp \<Rightarrow> runner \<Rightarrow> (unit, node_out \<times> runner) result" where
  "handle_inference_request X K I A L network data now_ms now end_ms r =
     (case network of
        None \<Rightarrow> Ok (no_answer, r)
      | Some net \<Rightarrow>
     (case ix_unborsh_request I data of
        None \<Rightarrow> Ok (no_answer, r)
      | Some req \<Rightarrow>
     (case verify_request X K I req now_ms of
        Err e \<Rightarrow> Ok (no_answer, r)
      | Panic \<Rightarrow> Panic
      | Ok _ \<Rightarrow>
     (case model_ref_parse (rq_model_ref req) of
        Err e \<Rightarrow> Ok (no_answer, r)
      | Panic \<Rightarrow> Panic
      | Ok m \<Rightarrow>
     (let job = mint_job_id X req now
      in case run_job X A L req m job now r of
        (Err e, r') \<Rightarrow> Ok (no_answer, r')
      | (Panic, r') \<Rightarrow> Panic
      | (Ok events, r') \<Rightarrow>
          let raws = map (ix_borsh_event I) events; wire = ix_borsh_response I raws
          in if \<not> nn_respond net wire then Ok (no_answer, r')
             else rbind (rfold (count_token I) raws 0) (\<lambda>output_tokens.
               Ok (\<lparr>no_reply = Some wire,
                    no_gossip = submit_receipt X (compute_receipt X (nn_peer_id net) job (local_pool_id X)
                      (billing_address X req) (rq_model_hash req) m (length (rq_prompt req)) (rq_seed req)
                      output_tokens now end_ms)\<rparr>, r')))))))"

section \<open>What becomes of a receipt\<close>

lemma on_gossip_tx_mempool: "on_gossip W topic_tx_mempool data e = Ok e"
  by (simp add: on_gossip_def classify_inbound_def topic_tx_mempool_def gossip_topic_def
      TOPIC_CONSENSUS_VOTE_def TOPIC_BLOCK_PROP_def)

lemma receipt_tx_rejected:
  assumes "x_blake3 X (x_borsh_receipt X r) \<noteq> hash_leaf (x_sha256 X) (receipt_leaf X r)"
  shows "apply_tx X c (receipt_tx X r) = rejected ReceiptMerkleMismatch c"
  using assms
  by (simp add: apply_tx_def receipt_tx_def apply_receipt_batch_def merkle_new_def merkle_root_def
      build_layers.simps Let_def)

lemma handle_cases:
  assumes "handle_inference_request X K I A L network data now_ms now end_ms r = Ok (out, r')"
  obtains "out = no_answer"
  | net req m events raws n where "network = Some net" "ix_unborsh_request I data = Some req"
      "verify_request X K I req now_ms = Ok ()" "model_ref_parse (rq_model_ref req) = Ok m"
      "run_job X A L req m (mint_job_id X req now) now r = (Ok events, r')"
      "raws = map (ix_borsh_event I) events" "nn_respond net (ix_borsh_response I raws)"
      "rfold (count_token I) raws 0 = Ok n" "no_reply out = Some (ix_borsh_response I raws)"
      "no_gossip out = submit_receipt X (compute_receipt X (nn_peer_id net) (mint_job_id X req now)
         (local_pool_id X) (billing_address X req) (rq_model_hash req) m (length (rq_prompt req))
         (rq_seed req) n now end_ms)"
proof (cases "out = no_answer")
  case False
  with assms show ?thesis
    by (auto simp: handle_inference_request_def Let_def rbind_Ok_iff intro: that(2)
        split: option.splits result.splits prod.splits if_splits)
qed (use that in blast)

text \<open>C16: Whatever a compute node publishes after a job is a receipt transaction on the mempool topic:
  no validator takes anything from that topic, and if the transaction were in a block it would be
  rejected, because its root is the BLAKE3 hash of the receipt and not the SHA-256 tree over the
  receipt's leaf (unless the two hashes agree). So no work served over the mesh is ever paid.\<close>

theorem mesh_work_is_never_paid:
  assumes "handle_inference_request X K I A L network data now_ms now end_ms r = Ok (out, r')"
    and "(topic, payload) \<in> set (no_gossip out)"
  shows "(\<forall>W e. on_gossip W topic payload e = Ok e) \<and>
    (\<exists>rc. payload = x_borsh_stx X (receipt_tx X rc) \<and>
       (x_blake3 X (x_borsh_receipt X rc) \<noteq> hash_leaf (x_sha256 X) (receipt_leaf X rc) \<longrightarrow>
          (\<forall>c. apply_tx X c (receipt_tx X rc) = rejected ReceiptMerkleMismatch c)))"
  using assms(1)
proof (cases rule: handle_cases)
  case 1
  with assms(2) show ?thesis by (simp add: no_answer_def)
next
  case (2 net req m events raws n)
  with assms(2) on_gossip_tx_mempool receipt_tx_rejected show ?thesis
    by (auto simp: submit_receipt_def)
qed

text \<open>A compute node answers a remote router only when it could decode and verify the request,
  parse the model and run the job; every refusal, of a replayed, a stale or a badly signed request, of
  an unknown model, of a failed load, is silence, with nothing published. The router that sent it has
  then nothing to read: its dispatcher fails only when the waiting time of five minutes is over.\<close>

theorem refusal_is_silence:
  assumes "handle_inference_request X K I A L network data now_ms now end_ms r = Ok (out, r')"
  shows "(no_reply out = Some wire \<longrightarrow>
       (\<exists>req m events. ix_unborsh_request I data = Some req \<and> verify_request X K I req now_ms = Ok () \<and>
          model_ref_parse (rq_model_ref req) = Ok m \<and>
          run_job X A L req m (mint_job_id X req now) now r = (Ok events, r') \<and>
          wire = ix_borsh_response I (map (ix_borsh_event I) events))) \<and>
    (no_reply out = None \<longrightarrow> no_gossip out = [] \<and>
       (\<forall>send req2 n i. send (ix_borsh_request I req2) = Ok i \<and> ms_end n = Silent \<and>
          list_all (\<lambda>ev. re_request_id ev \<noteq> i) (ms_answers n) \<longrightarrow>
          remote_dispatch I send req2 n =
            Some (Err (Dispatch ''inference request timed out''), n\<lparr>ms_answers := []\<rparr>)))"
  using assms
proof (cases rule: handle_cases)
  case 1
  have "await_response i evs Silent = (Err (Dispatch ''inference request timed out''), [])"
    if "list_all (\<lambda>ev. re_request_id ev \<noteq> i) evs" for i evs
    using that by (induction evs) simp_all
  with 1 show ?thesis by (simp add: no_answer_def remote_dispatch_def)
next
  case (2 net req m events raws n)
  then show ?thesis by auto
qed

section \<open>A job served over the mesh\<close>

definition mesh_infer :: infer_ext where
  "mesh_infer = demo_infer
     \<lparr>ix_unborsh_request := (\<lambda>_. Some (demo_request\<lparr>rq_model_ref := ''o/m-F16''\<rparr>)),
      ix_borsh_event := (\<lambda>e. case e of Token j i t \<Rightarrow> t | _ \<Rightarrow> []),
      ix_unborsh_event := (\<lambda>bs. if bs = [] then Some (Stop 0 MaxTokens) else Some (Token 0 0 bs)),
      ix_borsh_response := concat\<rparr>"

definition mesh_net :: node_net where
  "mesh_net = \<lparr>nn_peer_id = [1], nn_respond = (\<lambda>_. True)\<rparr>"

text \<open>The two hashes of the model must differ on the receipt.\<close>

definition split_ext :: ext where
  "split_ext = demo_ext\<lparr>x_sha256 := (\<lambda>bs. 0), x_blake3 := (\<lambda>bs. 1)\<rparr>"

lemma mesh_request_valid:
  "verify_request split_ext demo_crypto mesh_infer (demo_request\<lparr>rq_model_ref := ''o/m-F16''\<rparr>) 1000 = Ok ()"
  by (simp add: verify_request_Ok_iff demo_request_def verify_sig_Ok_iff demo_crypto_def
      ed25519_pubkey_def ed25519_sig_def signing_bytes_def mesh_infer_def demo_infer_def contains_window_def
      REQUEST_MAX_SKEW_MS_def)

lemma demo_model_parses: "model_ref_parse ''o/m-F16'' = Ok demo_model"
  by code_simp

lemma mesh_job_runs:
  "\<exists>out r'. handle_inference_request split_ext demo_crypto mesh_infer demo_aead
     (demo_llm [TokenItem [7], TokenItem [8], StopItem REndOfStream]) (Some mesh_net) [] 1000 1000 1500 runner_new =
     Ok (out, r') \<and> no_reply out = Some [7, 8] \<and> length (no_gossip out) = 1"
  using mesh_request_valid
  by (simp add: handle_inference_request_def mesh_infer_def demo_infer_def demo_model_parses run_job_def
      decrypt_prompt_def demo_request_def REQUEST_MAX_SKEW_MS_def sat_sub_def nonce_insert_def runner_new_def
      demo_llm_def Let_def mesh_net_def submit_receipt_def uadd_def)

theorem mesh_work_is_never_paid_witness:
  "\<exists>out r' payload rc. handle_inference_request split_ext demo_crypto mesh_infer demo_aead
     (demo_llm [TokenItem [7], TokenItem [8], StopItem REndOfStream]) (Some mesh_net) [] 1000 1000 1500 runner_new =
     Ok (out, r') \<and> no_gossip out = [(topic_tx_mempool, payload)] \<and>
     payload = x_borsh_stx split_ext (receipt_tx split_ext rc) \<and>
     apply_tx split_ext (demo_ctx []) (receipt_tx split_ext rc) = rejected ReceiptMerkleMismatch (demo_ctx [])"
proof -
  obtain out r' where h: "handle_inference_request split_ext demo_crypto mesh_infer demo_aead
     (demo_llm [TokenItem [7], TokenItem [8], StopItem REndOfStream]) (Some mesh_net) [] 1000 1000 1500 runner_new =
     Ok (out, r')" and l: "length (no_gossip out) = 1" "no_reply out = Some [7, 8]"
    using mesh_job_runs by blast
  from h have "\<exists>payload. no_gossip out = [(topic_tx_mempool, payload)]"
    by (cases rule: handle_cases) (use l in \<open>auto simp: submit_receipt_def no_answer_def\<close>)
  then obtain payload where g: "no_gossip out = [(topic_tx_mempool, payload)]" by blast
  have "x_blake3 split_ext bs \<noteq> hash_leaf (x_sha256 split_ext) l" for bs l
    by (simp add: split_ext_def hash_leaf_def)
  with mesh_work_is_never_paid[OF h, of topic_tx_mempool payload] g h show ?thesis by auto
qed

theorem refusal_is_silence_witness:
  "\<exists>out r'. handle_inference_request split_ext demo_crypto mesh_infer demo_aead (demo_llm []) (Some mesh_net)
     [] 40000 40000 40000 runner_new = Ok (out, r') \<and> no_reply out = None \<and> no_gossip out = [] \<and>
     remote_dispatch mesh_infer (\<lambda>bs. Ok 3) demo_request \<lparr>ms_answers = [], ms_end = Silent\<rparr> =
       Some (Err (Dispatch ''inference request timed out''), \<lparr>ms_answers = [], ms_end = Silent\<rparr>)"
proof -
  have h: "handle_inference_request split_ext demo_crypto mesh_infer demo_aead (demo_llm []) (Some mesh_net)
     [] 40000 40000 40000 runner_new = Ok (no_answer, runner_new)"
    by (simp add: handle_inference_request_def mesh_infer_def verify_request_def demo_request_def
        sat_sub_def REQUEST_MAX_SKEW_MS_def)
  have "no_reply no_answer = None" by (simp add: no_answer_def)
  with refusal_is_silence[OF h] h show ?thesis by fastforce
qed

end
