(* ===== verification/Verifier.thy ===== *)
theory Verifier
  imports ComputeNode CommitBlock Complex_Main
begin

text \<open>
  The verifier: selection by verifiable randomness (\<^verbatim>\<open>crates/verifier/src/selection.rs\<close>), the
  re-execution check (\<open>reexec.rs\<close>), the dispute (\<open>dispute.rs\<close>) and the loop of the role over finalized
  blocks with its re-executor and its probes (\<^verbatim>\<open>crates/node/src/verifier_role.rs\<close>). Sampling rates are
  rationals: the only operation on the \<open>f64\<close> is the product with \<open>2 ^ 64\<close>, which is exact.
\<close>

section \<open>Selection\<close>

definition VRF_DOMAIN :: bytes where "VRF_DOMAIN = str_bytes ''arknet-verifier-vrf-v1''"

text \<open>The double nearest to 0.05.\<close>

definition DEFAULT_SAMPLING_RATE :: rat where
  "DEFAULT_SAMPLING_RATE = 3602879701896397 / 2 ^ 56"

datatype verifier_error = NotSelected | ReexecFailed string | Signing sig_error | UnsupportedProof | VInternal string

record selection =
  sl_selected :: bool
  sl_proof :: sig
  sl_output :: hash256

definition sampling_threshold :: "rat \<Rightarrow> nat" where
  "sampling_threshold rate =
     (if rate \<le> 0 then 0 else if rate \<ge> 1 then umax 64 else nat \<lfloor>rate * 2 ^ 64\<rfloor>)"

definition vrf_input :: "job_id \<Rightarrow> hash256 \<Rightarrow> bytes" where
  "vrf_input job block_hash = VRF_DOMAIN @ word_bytes job @ word_bytes block_hash"

definition gate_of :: "hash256 \<Rightarrow> nat" where
  "gate_of out = unat (drop_bit 192 out)"

definition select_verifier :: "ext \<Rightarrow> crypto_ext \<Rightarrow> 256 word \<Rightarrow> job_id \<Rightarrow> hash256 \<Rightarrow> rat \<Rightarrow> selection" where
  "select_verifier X K sk job block_hash rate =
     (let (proof, raw_output) = vrf_prove X K sk (vrf_input job block_hash)
      in \<lparr>sl_selected = gate_of raw_output < sampling_threshold rate, sl_proof = proof, sl_output = raw_output\<rparr>)"

definition verify_selection ::
    "ext \<Rightarrow> crypto_ext \<Rightarrow> pubkey \<Rightarrow> job_id \<Rightarrow> hash256 \<Rightarrow> sig \<Rightarrow> rat \<Rightarrow> (verifier_error, hash256) result" where
  "verify_selection X K vk job block_hash proof rate =
     rbind (map_err Signing (vrf_verify_proof X K vk (vrf_input job block_hash) proof)) (\<lambda>raw.
       if gate_of raw \<ge> sampling_threshold rate then Err NotSelected else Ok raw)"

section \<open>Re-execution\<close>

definition rebuild_hash_chain :: "ext \<Rightarrow> job_id \<Rightarrow> bytes \<Rightarrow> hash256 list" where
  "rebuild_hash_chain X job output_text =
     (let h0 = x_blake3 X (DOMAIN_HASHCHAIN @ word_bytes job)
      in [h0, x_blake3 X (DOMAIN_HASHCHAIN @ word_bytes h0 @ output_text)])"

datatype verdict = Verified | Diverged hash256 compute_proof

definition verify_receipt ::
    "ext \<Rightarrow> (inference_receipt \<Rightarrow> (verifier_error, bytes) result) \<Rightarrow> inference_receipt \<Rightarrow>
     (verifier_error, verdict) result" where
  "verify_receipt X reexecute r =
     (case ir_compute_proof r of
        HashChain _ \<Rightarrow>
          rbind (reexecute r) (\<lambda>output_text.
          let chain = rebuild_hash_chain X (ir_job_id r) output_text;
              rederived_head = last chain
          in if rederived_head = ir_output_hash r then Ok Verified
             else Ok (Diverged rederived_head (HashChain chain)))
      | _ \<Rightarrow> Err UnsupportedProof)"

section \<open>Disputes\<close>

definition build_dispute ::
    "ext \<Rightarrow> inference_receipt \<Rightarrow> hash256 \<Rightarrow> compute_proof \<Rightarrow> node_id \<Rightarrow> address \<Rightarrow> sig \<Rightarrow> pubkey \<Rightarrow> (hash256 \<Rightarrow> sig) \<Rightarrow>
     (verifier_error, signed_transaction) result" where
  "build_dispute X r reexec_output_hash reexec_proof verifier_node reporter vrf_proof verifier_pubkey sign_hash =
     (if ir_output_hash r = reexec_output_hash
      then Err (VInternal ''cannot build dispute when output hashes match'')
      else let tx = DisputeTx
             \<lparr>dp_job_id = ir_job_id r, dp_compute_node = ir_compute_node r,
              dp_claimed_output_hash = ir_output_hash r, dp_reexec_output_hash = reexec_output_hash,
              dp_verifier = verifier_node, dp_reporter = reporter, dp_vrf_proof = sig_bytes vrf_proof,
              dp_reexec_proof = reexec_proof\<rparr>
      in Ok \<lparr>stx_tx = tx, stx_signer = verifier_pubkey, stx_signature = sign_hash (tx_hash X tx)\<rparr>)"

definition build_and_sign_dispute ::
    "ext \<Rightarrow> crypto_ext \<Rightarrow> inference_receipt \<Rightarrow> hash256 \<Rightarrow> compute_proof \<Rightarrow> node_id \<Rightarrow> address \<Rightarrow> sig \<Rightarrow> 256 word \<Rightarrow>
     (verifier_error, signed_transaction) result" where
  "build_and_sign_dispute X K r reexec_output_hash reexec_proof verifier_node reporter vrf_proof sk =
     build_dispute X r reexec_output_hash reexec_proof verifier_node reporter vrf_proof (to_pubkey K sk)
       (\<lambda>h. sign_bytes K sk (word_bytes h))"

section \<open>The role\<close>

definition engine_reexecute :: "llm_ext \<Rightarrow> inference_receipt \<Rightarrow> (verifier_error, bytes) result" where
  "engine_reexecute L r =
     rbind (map_err (\<lambda>e. ReexecFailed ''bad model ref'') (model_ref_parse (ir_model_id r))) (\<lambda>m.
     rbind (map_err (\<lambda>e. ReexecFailed ''model load'') (lx_load L m)) (\<lambda>digest.
     if digest \<noteq> ir_model_hash r then Err (ReexecFailed ''model hash mismatch'')
     else Err (ReexecFailed ''prompt not available for re-execution (model hash verified)'')))"

definition derive_verifier_signing_key :: "ext \<Rightarrow> bytes \<Rightarrow> 256 word" where
  "derive_verifier_signing_key X data_dir = x_blake3 X data_dir"

text \<open>The check of one receipt: the dispute that is submitted, if any.\<close>

definition check_receipt ::
    "ext \<Rightarrow> crypto_ext \<Rightarrow> (inference_receipt \<Rightarrow> (verifier_error, bytes) result) \<Rightarrow> bytes \<Rightarrow> hash256 \<Rightarrow> inference_receipt \<Rightarrow>
     signed_transaction list" where
  "check_receipt X K reexecute data_dir block_hash r =
     (let sk = derive_verifier_signing_key X data_dir;
          sel = select_verifier X K sk (ir_job_id r) block_hash DEFAULT_SAMPLING_RATE
      in if \<not> sl_selected sel then []
         else case verify_receipt X reexecute r of
           Ok (Diverged reexec_output_hash reexec_proof) \<Rightarrow>
             (case build_and_sign_dispute X K r reexec_output_hash reexec_proof (local_node_id X data_dir)
                     (local_operator X data_dir) (sl_proof sel) sk of
                Ok stx \<Rightarrow> [stx]
              | _ \<Rightarrow> [])
         | _ \<Rightarrow> [])"

definition verify_block ::
    "ext \<Rightarrow> crypto_ext \<Rightarrow> (inference_receipt \<Rightarrow> (verifier_error, bytes) result) \<Rightarrow> bytes \<Rightarrow> block \<Rightarrow> signed_transaction list" where
  "verify_block X K reexecute data_dir b =
     (let block_hash = header_hash X (bl_header b)
      in concat (map (\<lambda>stx. case stx_tx stx of
           ReceiptBatchTx batch \<Rightarrow>
             concat (map (check_receipt X K reexecute data_dir block_hash) (rb_receipts batch))
         | _ \<Rightarrow> []) (bl_txs b)))"

section \<open>Probes\<close>

definition PROBE_PROMPT :: bytes where "PROBE_PROMPT = str_bytes ''The quick brown fox''"

definition probe_request :: "string \<Rightarrow> timestamp \<Rightarrow> infer_request" where
  "probe_request model_id now_ms =
     \<lparr>rq_model_ref = model_id, rq_model_hash = 0, rq_prompt = PROBE_PROMPT, rq_max_tokens = 8, rq_seed = 42,
      rq_deterministic = True, rq_stop_strings = [], rq_nonce = now_ms, rq_timestamp_ms = now_ms,
      rq_user_pubkey = ed25519_pubkey 0, rq_signature = ed25519_sig 0, rq_prefer_tee = False,
      rq_encrypted_prompt = None, rq_delegation = None\<rparr>"

text \<open>The known peers, updated by an offer; \<open>decode_offer\<close> is the borsh decoder, and the offer's peer id
  must be one (\<open>peer_ok\<close>).\<close>

fun learn_offer :: "bytes \<Rightarrow> string list \<Rightarrow> (bytes \<times> string list) list \<Rightarrow> (bytes \<times> string list) list" where
  "learn_offer pid models [] = [(pid, models)]"
| "learn_offer pid models ((p, ms) # ps) =
     (if p = pid then (p, models) # ps else (p, ms) # learn_offer pid models ps)"

definition on_probe_event ::
    "(bytes \<Rightarrow> pool_offer option) \<Rightarrow> (bytes \<Rightarrow> bool) \<Rightarrow> string \<Rightarrow> bytes \<Rightarrow> (bytes \<times> string list) list \<Rightarrow>
     (bytes \<times> string list) list" where
  "on_probe_event decode_offer peer_ok topic data known =
     (if topic \<noteq> topic_pool_offer then known
      else case decode_offer data of
        None \<Rightarrow> known
      | Some offer \<Rightarrow> if peer_ok (po_peer_id offer) then learn_offer (po_peer_id offer) (po_model_refs offer) known
                      else known)"

definition on_probe_timer :: "(bytes \<times> string list) list \<Rightarrow> timestamp \<Rightarrow> (bytes \<times> infer_request) option" where
  "on_probe_timer known now_ms =
     (if known = [] then None
      else let (peer, model_refs) = known ! (now_ms mod length known)
           in case model_refs of [] \<Rightarrow> None | m # _ \<Rightarrow> Some (peer, probe_request m now_ms))"

section \<open>Selections can be checked\<close>

lemma sampling_threshold_floor:
  assumes "0 < rate" "rate < 1"
  shows "rat_of_nat (sampling_threshold rate) \<le> rate * 2 ^ 64"
    and "rate * 2 ^ 64 < rat_of_nat (sampling_threshold rate) + 1"
proof -
  have "0 \<le> rate * 2 ^ 64" using assms by simp
  then have "0 \<le> \<lfloor>rate * 2 ^ 64\<rfloor>" by simp
  then have "rat_of_nat (sampling_threshold rate) = of_int \<lfloor>rate * 2 ^ 64\<rfloor>"
    using assms by (simp add: sampling_threshold_def)
  then show "rat_of_nat (sampling_threshold rate) \<le> rate * 2 ^ 64"
    and "rate * 2 ^ 64 < rat_of_nat (sampling_threshold rate) + 1"
    by (simp_all only: of_int_floor_le) linarith
qed

lemma gate_of_le: "gate_of out \<le> umax 64"
proof -
  have "unat (drop_bit 192 out) = unat out div 2 ^ 192"
    by (metis drop_bit_eq_div unat_drop_bit_eq)
  moreover have "unat out < 2 ^ 64 * 2 ^ 192" using unsigned_less[of out] by simp
  ultimately have "unat (drop_bit 192 out) < 2 ^ 64" by (simp only: less_mult_imp_div_less)
  then show ?thesis by (simp add: gate_of_def le_umax_iff)
qed

lemma verify_selection_Ok_iff:
  "verify_selection X K pk job block_hash proof rate = Ok out \<longleftrightarrow>
     verify_sig K pk (word_bytes (x_sha256 X (vrf_input job block_hash))) proof = Ok () \<and>
     out = x_sha256 X (sig_bytes proof) \<and> gate_of out < sampling_threshold rate"
  by (auto simp: verify_selection_def vrf_verify_proof_def rbind_Ok_iff map_err_Ok_iff not_le split: if_splits)

text \<open>C28: With a signature scheme whose signatures verify, the proof that a verifier makes of its selection is
  what everybody checks with its public key: it is accepted, with the same output, exactly when the verifier
  was selected; the gate compares with the rate to within one part in \<open>2 ^ 64\<close>, and a rate of one or
  more selects all outputs but those whose gate is the greatest word. Of any key and proof, the check
  accepts exactly the valid signatures of the input for which the gate of their own hash is below
  the threshold: it does not say that the proof is the one the verifier's code makes, and each further valid
  signature of the input that a signer can make is another draw.\<close>

theorem selection_is_verifiable:
  assumes "sound_keys K" and "sel = select_verifier X K sk job block_hash rate"
  shows "verify_selection X K (to_pubkey K sk) job block_hash (sl_proof sel) rate =
      (if sl_selected sel then Ok (sl_output sel) else Err NotSelected) \<and>
    (rate \<le> 0 \<longrightarrow> \<not> sl_selected sel) \<and>
    (rate \<ge> 1 \<longrightarrow> (sl_selected sel \<longleftrightarrow> gate_of (sl_output sel) \<noteq> umax 64)) \<and>
    (0 < rate \<and> rate < 1 \<longrightarrow>
       (sl_selected sel \<longleftrightarrow> rat_of_nat (gate_of (sl_output sel)) + 1 \<le> rate * 2 ^ 64)) \<and>
    (\<forall>pk pf out. verify_selection X K pk job block_hash pf rate = Ok out \<longleftrightarrow>
       verify_sig K pk (word_bytes (x_sha256 X (vrf_input job block_hash))) pf = Ok () \<and>
       out = x_sha256 X (sig_bytes pf) \<and> gate_of out < sampling_threshold rate)"
proof -
  have "verify_selection X K (to_pubkey K sk) job block_hash (sl_proof sel) rate =
      (if sl_selected sel then Ok (sl_output sel) else Err NotSelected)"
    using signed_verifies[OF assms(1)]
    by (simp add: assms(2) verify_selection_def select_verifier_def vrf_verify_proof_def vrf_prove_def Let_def)
  moreover have sel: "sl_selected sel \<longleftrightarrow> gate_of (sl_output sel) < sampling_threshold rate"
    by (simp add: assms(2) select_verifier_def split: prod.splits)
  moreover have "sl_selected sel \<longleftrightarrow> gate_of (sl_output sel) \<noteq> umax 64" if "rate \<ge> 1"
    using that gate_of_le[of "sl_output sel"] by (auto simp: sel sampling_threshold_def)
  moreover have "sl_selected sel \<longleftrightarrow> rat_of_nat (gate_of (sl_output sel)) + 1 \<le> rate * 2 ^ 64"
    if "0 < rate \<and> rate < 1"
  proof
    assume "sl_selected sel"
    then have "rat_of_nat (gate_of (sl_output sel) + 1) \<le> rat_of_nat (sampling_threshold rate)"
      unfolding sel by (simp only: of_nat_le_iff)
    with sampling_threshold_floor(1)[of rate] that
    show "rat_of_nat (gate_of (sl_output sel)) + 1 \<le> rate * 2 ^ 64" by simp
  next
    assume "rat_of_nat (gate_of (sl_output sel)) + 1 \<le> rate * 2 ^ 64"
    with sampling_threshold_floor(2)[of rate] that
    have "rat_of_nat (gate_of (sl_output sel)) < rat_of_nat (sampling_threshold rate)" by linarith
    then show "sl_selected sel" unfolding sel by (simp only: of_nat_less_iff)
  qed
  moreover have "rate \<le> 0 \<longrightarrow> \<not> sl_selected sel" by (simp add: sel sampling_threshold_def)
  ultimately show ?thesis using verify_selection_Ok_iff by blast
qed

theorem selection_is_verifiable_witness:
  "verify_selection demo_ext demo_crypto (to_pubkey demo_crypto 1) 5 6
      (sl_proof (select_verifier demo_ext demo_crypto 1 5 6 (1 / 2))) (1 / 2) =
     (if sl_selected (select_verifier demo_ext demo_crypto 1 5 6 (1 / 2))
      then Ok (sl_output (select_verifier demo_ext demo_crypto 1 5 6 (1 / 2))) else Err NotSelected)"
proof -
  have "sound_keys demo_crypto" by (simp add: sound_keys_def demo_crypto_def)
  from selection_is_verifiable[OF this refl] show ?thesis by blast
qed

section \<open>Re-execution and disputes\<close>

text \<open>The verifier of a node submits no dispute, whatever block was finalized: its re-executor
  compares the hash of the model and then always fails, since no receipt carries the prompt.\<close>

theorem verifier_never_disputes:
  "verify_block X K (engine_reexecute L) data_dir b = []"
proof -
  have e: "engine_reexecute L r \<noteq> Ok out" for r out
    by (auto simp: engine_reexecute_def rbind_Ok_iff split: if_splits)
  have v: "verify_receipt X (engine_reexecute L) r \<noteq> Ok w" for r w
    using e by (auto simp: verify_receipt_def rbind_Ok_iff split: compute_proof.splits)
  have "check_receipt X K (engine_reexecute L) data_dir h r = []" for h r
    using v[of r] by (auto simp: check_receipt_def Let_def split: result.splits)
  then show ?thesis
    by (auto simp: verify_block_def concat_eq_Nil_conv split: transaction.splits)
qed

lemma rebuilt_head: "last (rebuild_hash_chain X job out) =
    x_blake3 X (DOMAIN_HASHCHAIN @ word_bytes (x_blake3 X (DOMAIN_HASHCHAIN @ word_bytes job)) @ out)"
  by (simp add: rebuild_hash_chain_def Let_def)

lemma length_u32_le_bytes [simp]: "length (u32_le_bytes n) = 4"
  by (simp add: u32_le_bytes_def)

text \<open>What the commit of a dispute does to stakes. A slash never fails with an error, and the replay of a dispute
  writes nothing.\<close>

lemma rfold_not_Err: "(\<And>x acc. f x acc \<noteq> Err e) \<Longrightarrow> rfold f xs acc \<noteq> Err e"
  by (induction xs arbitrary: acc) (auto simp: rbind_Err_iff)

lemma apply_slash_not_Err: "apply_slash c n r off rep t \<noteq> Err e"
proof -
  have "slash_stake p x acc \<noteq> Err e" for p x acc
    by (cases acc) (auto simp: slash_stake_def Let_def rbind_Err_iff)
  then have s: "rfold (slash_stake p) xs acc \<noteq> Err e" for p xs acc by (rule rfold_not_Err)
  have "slash_unbonding n r h p x acc \<noteq> Err e" for h p x acc
    by (cases acc) (auto simp: slash_unbonding_def Let_def rbind_Err_iff)
  then have u: "rfold (slash_unbonding n r h p) xs acc \<noteq> Err e" for h p xs acc by (rule rfold_not_Err)
  show ?thesis
    by (simp add: apply_slash_def Let_def rbind_Err_iff s u split: prod.splits)
qed

lemma replay_dispute:
  assumes "stx_tx stx = DisputeTx d"
  shows "\<exists>g n. rfold (replay_tx X) [stx] (c, 0, 0) = Ok (c, g, n)"
proof -
  have "\<exists>out. apply_tx X c stx = Ok (c, out)"
    by (simp add: apply_tx_def assms Let_def apply_dispute_def)
  then obtain out where a: "apply_tx X c stx = Ok (c, out)" by blast
  show ?thesis
  proof (cases out)
    case (TxApplied g)
    with a have "replay_tx X stx (c, 0, 0) = Ok (c, sat_add 64 0 g, 1)" by (simp add: replay_tx_def)
    then show ?thesis by (auto simp: rbind_Ok_iff)
  next
    case (TxRejected e)
    with a have "replay_tx X stx (c, 0, 0) = Ok (c, 0, 0)" by (simp add: replay_tx_def)
    then show ?thesis by (auto simp: rbind_Ok_iff)
  qed
qed

definition slashes :: "ext \<Rightarrow> signed_transaction \<Rightarrow> node_id \<Rightarrow> bool" where
  "slashes X stx n \<longleftrightarrow> (\<exists>d. stx_tx stx = DisputeTx d \<and> dp_claimed_output_hash d \<noteq> dp_reexec_output_hash d \<and>
     dp_compute_node d = n)"

lemma committed_dispute_slashes:
  assumes "commit_block X s mp b = Ok (s', mp', rep)" and "bl_txs b = [stx]" and "slashes X stx node"
    and "\<not> is_epoch_boundary (bh_height (bl_header b))"
    and "state_ok s" and "staking_wf (st_db s)" and "held_value (st_db s) < 2 ^ 128"
  shows "stake_amount (st_get_stake s' n r pl d) = (let x = stake_amount (st_get_stake s n r pl d)
    in if n = node \<and> r = Compute then x - x * 5 div 100 else x)"
proof -
  from assms(3) obtain dp where dp: "stx_tx stx = DisputeTx dp" "dp_claimed_output_hash dp \<noteq> dp_reexec_output_hash dp"
    "dp_compute_node dp = node" by (auto simp: slashes_def)
  let ?c = "begin_block s"
  have coh: "coherent ?c" by (rule coherent_begin_block[OF assms(5)])
  have fresh: "staking_fresh ?c" by (rule staking_fresh_begin[OF assms(6)])
  have held: "held_value (view ?c) < 2 ^ 128" using assms(7) by simp
  from assms(1) show ?thesis
  proof (cases rule: commit_block_cases)
    case (1 c1 k c2 c3 c4 db)
    have c1: "c1 = ?c" using replay_dispute[OF dp(1), of X ?c] 1(1) by (auto simp: assms(2) simp del: rfold.simps)
    obtain rp where sl: "apply_slash ?c node Compute FailedDeterministicVerification (dp_reporter dp)
        (genesis_treasury_address X) = Ok (c2, rp)"
      using 1(2) dp apply_slash_not_Err by (auto simp: assms(2) c1 slash_dispute_def split: result.splits)
    note eff = slash_effect(3,4)[OF sl coh fresh held]
    have "c3 = c2" using 1(3) assms(4) by (simp add: epoch_rotation_def)
    then have "cf_stakes (view c4) = cf_stakes (view c2)" by (simp add: 1(4))
    moreover have "without_blocks (st_db s') = without_blocks (view c4)" unfolding 1(7) by (simp add: 1(6))
    then have "cf_stakes (st_db s') = cf_stakes (view c4)"
      by (metis without_blocks_eqD)
    ultimately have "st_get_stake s' n r pl d = get_stake c2 n r pl d"
      using eff(1) by (simp add: st_get_stake_def coherent_def)
    moreover have "get_stake ?c n r pl d = st_get_stake s n r pl d"
      by (simp add: get_stake_def begin_block_def)
    ultimately show ?thesis using eff(2)[of n r pl d] unfolding Slashing.cut_def penalty_percent.simps by simp
  qed
qed


definition served_stake :: stake_entry where
  "served_stake = \<lparr>se_node_id = 1, se_role = Compute, se_pool_id = None, se_delegator = None,
     se_amount = 1000, se_bonded_at = 0\<rparr>"

definition served_state :: state where
  "served_state = state_open ((demo_db [])\<lparr>cf_stakes := kv_put (stake_key 1 Compute None None) served_stake kv_empty\<rparr>)"

lemma served_facts:
  "state_ok served_state" "staking_wf (st_db served_state)" "held_value (st_db served_state) < 2 ^ 128"
  "st_get_stake served_state 1 Compute None None = Some served_stake"
  by (simp_all add: served_state_def state_ok_open)
    (simp_all add: staking_wf_def stakes_wf_def unbondings_wf_def unbond_counter_def served_state_def state_open_def
      demo_db_def empty_db_def served_stake_def held_value_def total_balance_def stake_total_def unbonding_total_def
      kv_sum_def st_get_stake_def)

lemma served_slash:
  "\<exists>c' rep. apply_slash (begin_block served_state) 1 Compute FailedDeterministicVerification a t = Ok (c', rep)"
proof -
  have "iter_stakes_for_node served_state 1 = [served_stake]"
    by (simp add: served_state_def state_open_def iter_stakes_filter starts_with_stake_key)
  moreover have "iter_unbondings_for_node served_state 1 = []"
    by (simp add: served_state_def state_open_def demo_db_def empty_db_def iter_unbondings_filter)
  ultimately show ?thesis
    by (simp add: apply_slash_def begin_block_def slash_stake_def served_stake_def Let_def umul_def uadd_def
        BURN_PERCENT_def REPORTER_PERCENT_def sat_add_def umax_def)
qed

lemma served_dispute_commits:
  assumes "slashes X stx 1"
  shows "\<exists>root s' mp' rep. commit_block X served_state mp_default ((demo_block root)\<lparr>bl_txs := [stx]\<rparr>) = Ok (s', mp', rep)"
proof -
  from assms obtain dp where dp: "stx_tx stx = DisputeTx dp" "dp_claimed_output_hash dp \<noteq> dp_reexec_output_hash dp"
    "dp_compute_node dp = 1" by (auto simp: slashes_def)
  let ?c = "begin_block served_state"
  obtain g n where r: "rfold (replay_tx X) [stx] (?c, 0, 0) = Ok (?c, g, n)"
    using replay_dispute[OF dp(1)] by blast
  obtain c2 where sl: "rfold (slash_dispute X) [stx] ?c = Ok c2"
    using served_slash[of "dp_reporter dp" "genesis_treasury_address X"] dp
    by (auto simp: slash_dispute_def)
  let ?c4 = "set_base_fee (rolled_base_fee (demo_header 0) g) (set_current_height 5 c2)"
  let ?root = "fst (preview_state_root X ?c4)"
  have f: "rolled_base_fee (demo_header ?root) g = rolled_base_fee (demo_header 0) g"
    unfolding rolled_base_fee_def demo_header_fields by (rule refl)
  have nb: "\<not> is_epoch_boundary 5" by (simp add: is_epoch_boundary_def EPOCH_LENGTH_BLOCKS_def)
  have "\<exists>r. commit_block X served_state mp_default ((demo_block ?root)\<lparr>bl_txs := [stx]\<rparr>) = Ok r"
    using f nb by (simp only: commit_block_def Let_def demo_block_def block.simps block.select_convs block.update_convs
        r sl rbind.simps prod.case epoch_rotation_def demo_header_fields if_False) (simp add: case_prod_unfold)
  then show ?thesis by (metis surj_pair)
qed


text \<open>Nor would a chain with one step per token help: with two tokens or more the re-executed head, which
  takes the text in one step, is never the head of that chain.\<close>

lemma token_chain_head:
  "hc_current (chain_of X job (ts @ [t])) = x_blake3 X (DOMAIN_HASHCHAIN @ word_bytes (hc_current (chain_of X job ts)) @ t)"
  by (simp add: chain_of_def absorb_bytes_def Let_def)

lemma token_chains_diverge:
  fixes X :: ext and job :: job_id
  defines "h0 \<equiv> x_blake3 X (DOMAIN_HASHCHAIN @ word_bytes job)"
  assumes "ir_job_id r = job" "ir_compute_proof r = HashChain steps"
    and "ir_output_hash r = hc_current (chain_of X job (ts @ [t', t]))" and "t' \<noteq> []"
    and "inj_on (x_blake3 X) {DOMAIN_HASHCHAIN @ word_bytes job,
      DOMAIN_HASHCHAIN @ word_bytes h0 @ concat (ts @ [t', t]),
      DOMAIN_HASHCHAIN @ word_bytes (hc_current (chain_of X job ts)) @ t',
      DOMAIN_HASHCHAIN @ word_bytes (hc_current (chain_of X job (ts @ [t']))) @ t}"
  shows "\<exists>steps'. verify_receipt X (\<lambda>_. Ok (concat (ts @ [t', t]))) r =
    Ok (Diverged (last steps') (HashChain steps')) \<and> last steps' \<noteq> ir_output_hash r"
proof -
  let ?h1 = "hc_current (chain_of X job ts)" and ?h2 = "hc_current (chain_of X job (ts @ [t']))"
  let ?all = "concat (ts @ [t', t])"
  have h2: "?h2 = x_blake3 X (DOMAIN_HASHCHAIN @ word_bytes ?h1 @ t')" by (rule token_chain_head)
  have hd: "ir_output_hash r = x_blake3 X (DOMAIN_HASHCHAIN @ word_bytes ?h2 @ t)"
    using token_chain_head[of X job "ts @ [t']" t] assms(4) by simp
  have "x_blake3 X (DOMAIN_HASHCHAIN @ word_bytes h0 @ ?all) \<noteq> ir_output_hash r"
  proof
    assume "x_blake3 X (DOMAIN_HASHCHAIN @ word_bytes h0 @ ?all) = ir_output_hash r"
    then have e: "x_blake3 X (DOMAIN_HASHCHAIN @ word_bytes h0 @ ?all) = x_blake3 X (DOMAIN_HASHCHAIN @ word_bytes ?h2 @ t)"
      unfolding hd .
    have "DOMAIN_HASHCHAIN @ word_bytes h0 @ ?all = DOMAIN_HASHCHAIN @ word_bytes ?h2 @ t"
      by (rule inj_onD[OF assms(6) e]) blast+
    then have "word_bytes h0 = word_bytes ?h2" by (simp add: append_eq_same_length)
    then have "h0 = ?h2" by (rule word_bytes_inj[rotated]) simp
    then have e: "x_blake3 X (DOMAIN_HASHCHAIN @ word_bytes job) = x_blake3 X (DOMAIN_HASHCHAIN @ word_bytes ?h1 @ t')"
      unfolding h2 assms(1) .
    have "DOMAIN_HASHCHAIN @ word_bytes job = DOMAIN_HASHCHAIN @ word_bytes ?h1 @ t'"
      by (rule inj_onD[OF assms(6) e]) blast+
    then have "length (word_bytes job) = length (word_bytes ?h1 @ t')" by (simp only: same_append_eq)
    with assms(5) show False by simp
  qed
  then have "last (rebuild_hash_chain X job ?all) \<noteq> ir_output_hash r" by (simp add: rebuilt_head assms(1))
  then show ?thesis using assms(2,3)
    by (intro exI[of _ "rebuild_hash_chain X job ?all"]) (simp add: verify_receipt_def Let_def)
qed

end
