(* ===== verification/Gguf.thy ===== *)
theory Gguf
  imports ModelRef ComputeJob
begin

text \<open>
  The header parser of model files (\<^verbatim>\<open>crates/model-manager/src/gguf.rs\<close>): a bounded little-endian
  reader over a buffer, the metadata loop, and the recursion that skips values. The depth of that
  recursion is bounded by the stack of the thread: \<open>skip_value\<close> takes the number of frames that are
  left, and running out of them is the abort that a stack overflow is.
\<close>

section \<open>Errors of the model manager\<close>

datatype gguf_fault =
  BadMagic bytes | UnsupportedVersion nat | MetadataCap nat | Truncated nat nat | StringCap nat
| InvalidUtf8 | ArrayCap nat | UnknownType nat | QuantMismatch nat nat

datatype model_error =
  UnknownModel string
| Download string
| NoMirrors string
| HashMismatch hash256 hash256
| SizeMismatch nat nat
| GgufError gguf_fault
| CorruptedCache string
| ModelIo string
| BadUrl string
| CacheError string
| ModelCodec string

section \<open>The reader\<close>

definition GGUF_MAGIC :: bytes where "GGUF_MAGIC = str_bytes ''GGUF''"

definition SUPPORTED_VERSION :: nat where "SUPPORTED_VERSION = 3"

definition MAX_STRING_LEN :: nat where "MAX_STRING_LEN = 64 * 1024"

definition MAX_METADATA_ENTRIES :: nat where "MAX_METADATA_ENTRIES = 256 * 1024"

definition HEADER_READ_SIZE :: nat where "HEADER_READ_SIZE = 16 * 1024 * 1024"

definition GGUF_TYPE_UINT32 :: nat where "GGUF_TYPE_UINT32 = 4"

definition GGUF_TYPE_STRING :: nat where "GGUF_TYPE_STRING = 8"

definition GGUF_TYPE_ARRAY :: nat where "GGUF_TYPE_ARRAY = 9"

record gguf_header =
  gh_version :: nat
  gh_tensor_count :: nat
  gh_metadata_count :: nat
  gh_architecture :: "bytes option"
  gh_file_type :: "nat option"

record reader =
  rd_buf :: bytes
  rd_pos :: nat

definition reader_new :: "bytes \<Rightarrow> reader" where
  "reader_new buf = \<lparr>rd_buf = buf, rd_pos = 0\<rparr>"

definition reader_left :: "reader \<Rightarrow> nat" where
  "reader_left r = length (rd_buf r) - rd_pos r"

definition need :: "nat \<Rightarrow> reader \<Rightarrow> (model_error, unit) result" where
  "need n r =
     (if rd_pos r + n > length (rd_buf r)
      then Err (GgufError (Truncated n (sat_sub (length (rd_buf r)) (rd_pos r)))) else Ok ())"

definition read_array :: "nat \<Rightarrow> reader \<Rightarrow> (model_error, bytes \<times> reader) result" where
  "read_array n r =
     rbind (need n r) (\<lambda>_. Ok (take n (drop (rd_pos r) (rd_buf r)), r\<lparr>rd_pos := rd_pos r + n\<rparr>))"

definition le_nat :: "bytes \<Rightarrow> nat" where
  "le_nat bs = foldr (\<lambda>b n. unat b + 256 * n) bs 0"

definition read_u32 :: "reader \<Rightarrow> (model_error, nat \<times> reader) result" where
  "read_u32 r = rbind (read_array 4 r) (\<lambda>(bs, r'). Ok (le_nat bs, r'))"

definition read_u64 :: "reader \<Rightarrow> (model_error, nat \<times> reader) result" where
  "read_u64 r = rbind (read_array 8 r) (\<lambda>(bs, r'). Ok (le_nat bs, r'))"

definition read_string :: "reader \<Rightarrow> (model_error, bytes \<times> reader) result" where
  "read_string r =
     rbind (read_u64 r) (\<lambda>(len, r1).
       if len > MAX_STRING_LEN then Err (GgufError (StringCap len))
       else rbind (read_array len r1) (\<lambda>(s, r2).
         if is_utf8 s then Ok (s, r2) else Err (GgufError InvalidUtf8)))"

text \<open>The width of the types that are read as one integer, float or byte.\<close>

definition scalar_width :: "nat \<Rightarrow> nat option" where
  "scalar_width ty =
     (if ty \<in> {0, 1, 7} then Some 1 else if ty \<in> {2, 3} then Some 2
      else if ty \<in> {4, 5, 6} then Some 4 else if ty \<in> {10, 11, 12} then Some 8 else None)"

primrec skip_value :: "nat \<Rightarrow> nat \<Rightarrow> reader \<Rightarrow> (model_error, reader) result" where
  "skip_value 0 ty r = Panic"
| "skip_value (Suc frames) ty r =
     (case scalar_width ty of
        Some w \<Rightarrow> rbind (read_array w r) (\<lambda>(_, r'). Ok r')
      | None \<Rightarrow>
          if ty = GGUF_TYPE_STRING then rbind (read_string r) (\<lambda>(_, r'). Ok r')
          else if ty = GGUF_TYPE_ARRAY
          then rbind (read_u32 r) (\<lambda>(elem_ty, r1).
               rbind (read_u64 r1) (\<lambda>(n, r2).
               if n > MAX_METADATA_ENTRIES then Err (GgufError (ArrayCap n))
               else rfold (\<lambda>_. skip_value frames elem_ty) [0..<n] r2))
          else Err (GgufError (UnknownType ty)))"

type_synonym header_scan = "bytes option \<times> nat option \<times> reader"

definition read_entry :: "nat \<Rightarrow> header_scan \<Rightarrow> (model_error, header_scan) result" where
  "read_entry frames = (\<lambda>(architecture, file_type, r).
     rbind (read_string r) (\<lambda>(key, r1).
     rbind (read_u32 r1) (\<lambda>(value_type, r2).
     if key = str_bytes ''general.architecture'' \<and> value_type = GGUF_TYPE_STRING
     then rbind (read_string r2) (\<lambda>(s, r3). Ok (Some s, file_type, r3))
     else if key = str_bytes ''general.file_type'' \<and> value_type = GGUF_TYPE_UINT32
     then rbind (read_u32 r2) (\<lambda>(n, r3). Ok (architecture, Some n, r3))
     else rbind (skip_value frames value_type r2) (\<lambda>r3. Ok (architecture, file_type, r3)))))"

definition parse_header_bytes :: "nat \<Rightarrow> bytes \<Rightarrow> (model_error, gguf_header) result" where
  "parse_header_bytes frames buf =
     rbind (read_array 4 (reader_new buf)) (\<lambda>(magic, r1).
     if magic \<noteq> GGUF_MAGIC then Err (GgufError (BadMagic magic))
     else rbind (read_u32 r1) (\<lambda>(version, r2).
     if version \<noteq> SUPPORTED_VERSION then Err (GgufError (UnsupportedVersion version))
     else rbind (read_u64 r2) (\<lambda>(tensor_count, r3).
     rbind (read_u64 r3) (\<lambda>(metadata_count, r4).
     if metadata_count > MAX_METADATA_ENTRIES then Err (GgufError (MetadataCap metadata_count))
     else rbind (rfold (\<lambda>_. read_entry frames) [0..<metadata_count] (None, None, r4)) (\<lambda>(architecture, file_type, _).
     Ok \<lparr>gh_version = version, gh_tensor_count = tensor_count, gh_metadata_count = metadata_count,
         gh_architecture = architecture, gh_file_type = file_type\<rparr>)))))"

text \<open>\<open>parse_header\<close> reads the first 16 MiB of the file.\<close>

definition parse_header :: "nat \<Rightarrow> bytes \<Rightarrow> (model_error, gguf_header) result" where
  "parse_header frames file = parse_header_bytes frames (take HEADER_READ_SIZE file)"

section \<open>The builder of the tests\<close>

datatype gguf_kv = KvString bytes bytes | KvU32 bytes nat

definition u32_le :: "nat \<Rightarrow> bytes" where "u32_le n = rev (word_bytes (of_nat n :: 32 word))"

definition write_string :: "bytes \<Rightarrow> bytes" where
  "write_string s = u64_le_bytes (length s) @ s"

fun write_kv :: "gguf_kv \<Rightarrow> bytes" where
  "write_kv (KvString key v) = write_string key @ u32_le GGUF_TYPE_STRING @ write_string v"
| "write_kv (KvU32 key n) = write_string key @ u32_le GGUF_TYPE_UINT32 @ u32_le n"

definition gguf_build :: "gguf_kv list \<Rightarrow> bytes" where
  "gguf_build kvs = GGUF_MAGIC @ u32_le SUPPORTED_VERSION @ u64_le_bytes 0 @ u64_le_bytes (length kvs) @
     concat (map write_kv kvs)"

section \<open>Reading\<close>

lemma le_nat_simps [simp]:
  "le_nat [] = 0" "le_nat (b # bs) = unat b + 256 * le_nat bs"
  by (simp_all add: le_nat_def)

lemma le_nat_snoc: "le_nat (bs @ [b]) = le_nat bs + 256 ^ length bs * unat b"
  by (induction bs) (simp_all add: algebra_simps)

lemma le_nat_digits:
  fixes w :: "'a::len word"
  shows "le_nat (map (\<lambda>i. ucast (drop_bit (8 * i) w)) [0..<k]) = unat w mod 256 ^ k"
proof (induction k)
  case (Suc k)
  have "(256 :: nat) ^ k = 2 ^ (8 * k)" by (simp add: power_mult)
  then have "unat (drop_bit (8 * k) w) = unat w div 256 ^ k"
    by (simp only: unat_drop_bit_eq) (simp only: drop_bit_eq_div)
  then have "unat (ucast (drop_bit (8 * k) w) :: byte) = unat w div 256 ^ k mod 256"
    by (simp only: unsigned_ucast_eq take_bit_eq_mod) simp
  with Suc show ?case by (simp add: le_nat_snoc mod_mult2_eq mult.commute[of 256])
qed simp

lemma le_nat_word_bytes:
  assumes "8 dvd LENGTH('a)"
  shows "le_nat (rev (word_bytes (w :: 'a::len word))) = unat w"
proof -
  have "(256 :: nat) ^ (LENGTH('a) div 8) = 2 ^ LENGTH('a)"
    using assms power_mult[of "2 :: nat" 8 "LENGTH('a) div 8"] by simp
  moreover have "rev (word_bytes w) = map (\<lambda>i. ucast (drop_bit (8 * i) w)) [0..<LENGTH('a) div 8]"
    by (simp add: word_bytes_def rev_map)
  ultimately show ?thesis by (simp add: le_nat_digits unsigned_less)
qed

text \<open>How far a successful read moves, and that what it read does not depend on what follows.\<close>

definition advances :: "nat \<Rightarrow> reader \<Rightarrow> reader \<Rightarrow> bool" where
  "advances n r r' \<longleftrightarrow> rd_buf r' = rd_buf r \<and> rd_pos r + n \<le> rd_pos r' \<and> rd_pos r' \<le> length (rd_buf r)"

definition longer :: "bytes \<Rightarrow> reader \<Rightarrow> reader" where
  "longer rest r = r\<lparr>rd_buf := rd_buf r @ rest\<rparr>"

lemma advances_trans: "advances m r r' \<Longrightarrow> advances n r' r'' \<Longrightarrow> advances (m + n) r r''"
  by (auto simp: advances_def)

lemma advances_left: "advances n r r' \<Longrightarrow> reader_left r' + n \<le> reader_left r"
  by (auto simp: advances_def reader_left_def)

lemma read_array_Ok:
  assumes "read_array n r = Ok (bs, r')"
  shows "advances n r r'" and "length bs = n" and "read_array n (longer rest r) = Ok (bs, longer rest r')"
  using assms
  by (auto simp: read_array_def need_def advances_def longer_def rbind_Ok_iff split: if_splits)

lemma read_array_not_Panic [simp]: "read_array n r \<noteq> Panic"
  by (simp add: read_array_def need_def)

lemma read_u32_Ok:
  assumes "read_u32 r = Ok (n, r')"
  shows "advances 4 r r'" and "read_u32 (longer rest r) = Ok (n, longer rest r')"
  using assms read_array_Ok[of 4 r _ r'] by (auto simp: read_u32_def rbind_Ok_iff)

lemma read_u64_Ok:
  assumes "read_u64 r = Ok (n, r')"
  shows "advances 8 r r'" and "read_u64 (longer rest r) = Ok (n, longer rest r')"
  using assms read_array_Ok[of 8 r _ r'] by (auto simp: read_u64_def rbind_Ok_iff)

lemma read_string_Ok:
  assumes "read_string r = Ok (s, r')"
  shows "advances 8 r r'" and "read_string (longer rest r) = Ok (s, longer rest r')"
proof -
  from assms obtain len r1 where r1: "read_u64 r = Ok (len, r1)" "len \<le> MAX_STRING_LEN"
    and r2: "read_array len r1 = Ok (s, r')" "is_utf8 s"
    by (auto simp: read_string_def rbind_Ok_iff split: if_splits)
  from advances_trans[OF read_u64_Ok(1)[OF r1(1)] read_array_Ok(1)[OF r2(1)]]
  show "advances 8 r r'" by (simp add: advances_def)
  show "read_string (longer rest r) = Ok (s, longer rest r')"
    using read_u64_Ok(2)[OF r1(1)] read_array_Ok(3)[OF r2(1)] r1(2) r2(2)
    by (simp add: read_string_def)
qed

lemma read_not_Panic [simp]: "read_u32 r \<noteq> Panic" "read_u64 r \<noteq> Panic" "read_string r \<noteq> Panic"
  by (auto simp: read_u32_def read_u64_def read_string_def rbind_Panic_iff)

lemma rfold_map_state:
  assumes "\<And>x s s'. f x s = Ok s' \<Longrightarrow> f x (g s) = Ok (g s')" and "rfold f xs s = Ok s'"
  shows "rfold f xs (g s) = Ok (g s')"
  using assms(2)
proof (induction xs arbitrary: s)
  case (Cons x xs)
  then obtain t where "f x s = Ok t" "rfold f xs t = Ok s'" by (auto simp: rbind_Ok_iff)
  with Cons.IH[of t] assms(1)[of x s t] show ?case by simp
qed simp

lemma rfold_PanicE:
  assumes "rfold f xs s = Panic" and "P s" and "\<And>x s s'. P s \<Longrightarrow> f x s = Ok s' \<Longrightarrow> P s'"
  obtains x t where "P t" "f x t = Panic"
  using assms(1,2)
proof (induction xs arbitrary: s thesis)
  case (Cons x xs)
  from Cons.prems(2) consider "f x s = Panic" | t where "f x s = Ok t" "rfold f xs t = Panic"
    by (auto simp: rbind_Panic_iff)
  then show ?case
  proof cases
    case 1
    with Cons.prems(1,3) show ?thesis by blast
  next
    case (2 t)
    with Cons.IH Cons.prems(1,3) assms(3) show ?thesis by blast
  qed
qed simp

text \<open>The array branch, once for all.\<close>

lemma skip_array:
  assumes "scalar_width ty = None" "ty \<noteq> GGUF_TYPE_STRING"
  shows "skip_value (Suc frames) ty r = Ok r' \<longleftrightarrow> ty = GGUF_TYPE_ARRAY \<and>
      (\<exists>elem_ty n r1 r2. read_u32 r = Ok (elem_ty, r1) \<and> read_u64 r1 = Ok (n, r2) \<and>
         n \<le> MAX_METADATA_ENTRIES \<and> rfold (\<lambda>_. skip_value frames elem_ty) [0..<n] r2 = Ok r')"
    and "skip_value (Suc frames) ty r = Panic \<longleftrightarrow> ty = GGUF_TYPE_ARRAY \<and>
      (\<exists>elem_ty n r1 r2. read_u32 r = Ok (elem_ty, r1) \<and> read_u64 r1 = Ok (n, r2) \<and>
         n \<le> MAX_METADATA_ENTRIES \<and> rfold (\<lambda>_. skip_value frames elem_ty) [0..<n] r2 = Panic)"
  using assms by (auto simp: rbind_Ok_iff rbind_Panic_iff not_less split: if_splits)

lemma skip_value_Ok:
  "skip_value frames ty r = Ok r' \<Longrightarrow>
     advances 1 r r' \<and> skip_value frames ty (longer rest r) = Ok (longer rest r')"
proof (induction frames arbitrary: ty r r')
  case (Suc frames)
  show ?case
  proof (cases "scalar_width ty = None \<and> ty \<noteq> GGUF_TYPE_STRING")
    case False
    then consider w where "scalar_width ty = Some w" | "scalar_width ty = None" "ty = GGUF_TYPE_STRING"
      by fastforce
    then show ?thesis
    proof cases
      case (1 w)
      then have "1 \<le> w" by (auto simp: scalar_width_def split: if_splits)
      from 1 Suc.prems obtain bs where bs: "read_array w r = Ok (bs, r')" by (auto simp: rbind_Ok_iff)
      have "advances 1 r r'" using read_array_Ok(1)[OF bs] \<open>1 \<le> w\<close> by (simp add: advances_def)
      with 1 read_array_Ok(3)[OF bs, of rest] show ?thesis by simp
    next
      case 2
      with Suc.prems obtain s where s: "read_string r = Ok (s, r')" by (auto simp: rbind_Ok_iff)
      have "advances 1 r r'" using read_string_Ok(1)[OF s] by (simp add: advances_def)
      with 2 read_string_Ok(2)[OF s, of rest] show ?thesis by simp
    qed
  next
    case True
    note t = True[THEN conjunct1] True[THEN conjunct2]
    obtain elem_ty n r1 r2 where ty: "ty = GGUF_TYPE_ARRAY" and r: "read_u32 r = Ok (elem_ty, r1)"
      "read_u64 r1 = Ok (n, r2)" "n \<le> MAX_METADATA_ENTRIES"
      "rfold (\<lambda>_. skip_value frames elem_ty) [0..<n] r2 = Ok r'"
      using Suc.prems unfolding skip_array(1)[OF t] by blast
    have a: "advances 12 r r2" using advances_trans[OF read_u32_Ok(1)[OF r(1)] read_u64_Ok(1)[OF r(2)]] by simp
    have "advances 0 r2 r'"
    proof (rule rfold_invariant[where P = "advances 0 r2", OF _ _ r(4)])
      show "advances 0 r2 r2" using a by (simp add: advances_def)
    qed (use Suc.IH in \<open>fastforce simp: advances_def\<close>)
    with a have "advances 1 r r'" by (simp add: advances_def)
    moreover have "rfold (\<lambda>_. skip_value frames elem_ty) [0..<n] (longer rest r2) = Ok (longer rest r')"
      using Suc.IH by (intro rfold_map_state[OF _ r(4)]) blast
    then have "skip_value (Suc frames) ty (longer rest r) = Ok (longer rest r')"
      unfolding skip_array(1)[OF t] using r(1-3) read_u32_Ok(2)[OF r(1)] read_u64_Ok(2)[OF r(2)] ty by blast
    ultimately show ?thesis by blast
  qed
qed simp

text \<open>Every frame of the recursion has consumed twelve bytes.\<close>

lemma skip_value_Panic: "skip_value frames ty r = Panic \<Longrightarrow> 12 * frames \<le> reader_left r"
proof (induction frames arbitrary: ty r)
  case (Suc frames)
  have t: "scalar_width ty = None" "ty \<noteq> GGUF_TYPE_STRING"
    using Suc.prems by (auto simp: rbind_Panic_iff split: option.splits if_splits)
  obtain elem_ty n r1 r2 where r: "read_u32 r = Ok (elem_ty, r1)" "read_u64 r1 = Ok (n, r2)"
    and p: "rfold (\<lambda>_. skip_value frames elem_ty) [0..<n] r2 = Panic"
    using Suc.prems unfolding skip_array(2)[OF t] by blast
  have a: "advances 12 r r2" using advances_trans[OF read_u32_Ok(1)[OF r(1)] read_u64_Ok(1)[OF r(2)]] by simp
  obtain t where t: "reader_left t \<le> reader_left r2" "skip_value frames elem_ty t = Panic"
  proof (rule rfold_PanicE[where P = "\<lambda>t. reader_left t \<le> reader_left r2", OF p])
    show "reader_left s' \<le> reader_left r2" if "reader_left s \<le> reader_left r2"
      "skip_value frames elem_ty s = Ok s'" for s s'
      using that skip_value_Ok[of frames elem_ty s s'] advances_left[of 1 s s'] by simp
  qed auto
  from Suc.IH[OF t(2)] t(1) advances_left[OF a] show ?case by simp
qed simp

lemma horner_le_nat: "horner_sum uint 256 (bs :: bytes) = int (le_nat bs)"
  by (induction bs) simp_all

lemma word_rcat_word_bytes:
  assumes "8 dvd LENGTH('a)"
  shows "word_rcat (word_bytes (w :: 'a::len word)) = w"
  using le_nat_word_bytes[OF assms, of w]
  by (simp add: word_rcat_def horner_le_nat)

section \<open>Headers\<close>

lemma read_entry_Ok:
  assumes "read_entry frames (a, f, r) = Ok (a', f', r')"
  shows "advances 1 r r' \<and> read_entry frames (a, f, longer rest r) = Ok (a', f', longer rest r')"
proof -
  from assms obtain key r1 ty r2 where k: "read_string r = Ok (key, r1)" "read_u32 r1 = Ok (ty, r2)"
    by (auto simp: read_entry_def rbind_Ok_iff)
  have a: "advances 1 r r2" using advances_trans[OF read_string_Ok(1)[OF k(1)] read_u32_Ok(1)[OF k(2)]]
    by (simp add: advances_def)
  note l = read_string_Ok(2)[OF k(1), of rest] read_u32_Ok(2)[OF k(2), of rest]
  consider s where "key = str_bytes ''general.architecture'' \<and> ty = GGUF_TYPE_STRING" "read_string r2 = Ok (s, r')" "a' = Some s" "f' = f"
    | n where "\<not> (key = str_bytes ''general.architecture'' \<and> ty = GGUF_TYPE_STRING)"
        "key = str_bytes ''general.file_type'' \<and> ty = GGUF_TYPE_UINT32" "read_u32 r2 = Ok (n, r')" "a' = a" "f' = Some n"
    | "\<not> (key = str_bytes ''general.architecture'' \<and> ty = GGUF_TYPE_STRING)"
        "\<not> (key = str_bytes ''general.file_type'' \<and> ty = GGUF_TYPE_UINT32)" "skip_value frames ty r2 = Ok r'" "a' = a" "f' = f"
    using assms by (simp add: read_entry_def k rbind_Ok_iff split: if_splits) (fastforce+)
  then show ?thesis
  proof cases
    case (1 s)
    with advances_trans[OF a read_string_Ok(1)[OF 1(2)]] read_string_Ok(2)[OF 1(2), of rest] l show ?thesis
      by (simp add: read_entry_def advances_def)
  next
    case (2 n)
    with advances_trans[OF a read_u32_Ok(1)[OF 2(3)]] read_u32_Ok(2)[OF 2(3), of rest] l show ?thesis
      by (simp only: read_entry_def prod.case rbind.simps if_False if_True) (simp add: advances_def)
  next
    case 3
    with advances_trans[OF a conjunct1[OF skip_value_Ok[OF 3(3)]]] skip_value_Ok[OF 3(3), of rest] l show ?thesis
      by (simp only: read_entry_def prod.case rbind.simps if_False if_True) (simp add: advances_def)
  qed
qed

lemma read_entry_Panic:
  assumes "read_entry frames (a, f, r) = Panic"
  shows "12 * frames + 12 \<le> reader_left r"
proof -
  from assms obtain key r1 ty r2 where k: "read_string r = Ok (key, r1)" "read_u32 r1 = Ok (ty, r2)"
    "skip_value frames ty r2 = Panic"
    by (auto simp: read_entry_def rbind_Panic_iff split: if_splits)
  have "advances 12 r r2" using advances_trans[OF read_string_Ok(1)[OF k(1)] read_u32_Ok(1)[OF k(2)]] by simp
  from advances_left[OF this] skip_value_Panic[OF k(3)] show ?thesis by simp
qed

lemma parse_Panic_length:
  assumes "parse_header_bytes frames buf = Panic"
  shows "12 * frames + 36 \<le> length buf"
proof -
  from assms obtain m v tc mc r1 r2 r3 r4 where r: "read_array 4 (reader_new buf) = Ok (m, r1)"
    "read_u32 r1 = Ok (v, r2)" "read_u64 r2 = Ok (tc, r3)" "read_u64 r3 = Ok (mc, r4)"
    and p: "rfold (\<lambda>_. read_entry frames) [0..<mc] (None, None, r4) = Panic"
    by (auto simp: parse_header_bytes_def rbind_Panic_iff split: if_splits)
  have a: "advances 24 (reader_new buf) r4"
    using advances_trans[OF advances_trans[OF advances_trans[OF read_array_Ok(1)[OF r(1)] read_u32_Ok(1)[OF r(2)]]
      read_u64_Ok(1)[OF r(3)]] read_u64_Ok(1)[OF r(4)]] by simp
  obtain t where t: "reader_left (snd (snd t)) \<le> reader_left r4" "read_entry frames t = Panic"
  proof (rule rfold_PanicE[where P = "\<lambda>t. reader_left (snd (snd t)) \<le> reader_left r4", OF p])
    show "reader_left (snd (snd s')) \<le> reader_left r4"
      if "reader_left (snd (snd s)) \<le> reader_left r4" "read_entry frames s = Ok s'" for s s'
      using that read_entry_Ok[of frames "fst s" "fst (snd s)" "snd (snd s)" "fst s'" "fst (snd s')" "snd (snd s')"]
        advances_left[of 1 "snd (snd s)" "snd (snd s')"] by simp
  qed auto
  have "12 * frames + 12 \<le> reader_left (snd (snd t))"
    using read_entry_Panic[of frames "fst t" "fst (snd t)" "snd (snd t)"] t(2) by simp
  with t(1) advances_left[OF a] show ?thesis by (simp add: reader_left_def reader_new_def)
qed

lemma parse_prefix:
  assumes "parse_header_bytes frames buf = Ok h"
  shows "parse_header_bytes frames (buf @ rest) = Ok h"
proof -
  from assms obtain m v tc mc r1 r2 r3 r4 ar ft r5 where r: "read_array 4 (reader_new buf) = Ok (m, r1)"
    "read_u32 r1 = Ok (v, r2)" "read_u64 r2 = Ok (tc, r3)" "read_u64 r3 = Ok (mc, r4)"
    and f: "rfold (\<lambda>_. read_entry frames) [0..<mc] (None, None, r4) = Ok (ar, ft, r5)"
    by (auto simp: parse_header_bytes_def rbind_Ok_iff split: if_splits)
  have l: "longer rest (reader_new buf) = reader_new (buf @ rest)" by (simp add: longer_def reader_new_def)
  have "rfold (\<lambda>_. read_entry frames) [0..<mc] (apsnd (apsnd (longer rest)) (None, None, r4)) =
      Ok (apsnd (apsnd (longer rest)) (ar, ft, r5))"
    by (rule rfold_map_state[OF _ f]) (auto dest: read_entry_Ok[of frames _ _ _ _ _ _ rest])
  then show ?thesis
    using assms r read_array_Ok(3)[OF r(1), of rest] read_u32_Ok(2)[OF r(2), of rest]
      read_u64_Ok(2)[OF r(3), of rest] read_u64_Ok(2)[OF r(4), of rest]
    by (simp add: parse_header_bytes_def l f split: if_splits)
qed

section \<open>Reading what was written\<close>

definition reader_at :: "bytes \<Rightarrow> bytes \<Rightarrow> reader" where
  "reader_at pre post = \<lparr>rd_buf = pre @ post, rd_pos = length pre\<rparr>"

lemma length_le_bytes [simp]: "length (u32_le n) = 4" "length (u64_le_bytes n) = 8"
  by (simp_all add: u32_le_def u64_le_bytes_def)

lemma le_nat_written [simp]:
  "n < 2 ^ 32 \<Longrightarrow> le_nat (u32_le n) = n" "n < 2 ^ 64 \<Longrightarrow> le_nat (u64_le_bytes n) = n"
  by (simp_all add: u32_le_def u64_le_bytes_def u64_be_bytes_def le_nat_word_bytes unat_of_nat)

lemma read_array_at: "length xs = n \<Longrightarrow> read_array n (reader_at pre (xs @ post)) = Ok (xs, reader_at (pre @ xs) post)"
  by (auto simp: read_array_def need_def reader_at_def)

lemma read_u32_at: "n < 2 ^ 32 \<Longrightarrow> read_u32 (reader_at pre (u32_le n @ post)) = Ok (n, reader_at (pre @ u32_le n) post)"
  by (simp add: read_u32_def read_array_at)

lemma read_u64_at:
  "n < 2 ^ 64 \<Longrightarrow> read_u64 (reader_at pre (u64_le_bytes n @ post)) = Ok (n, reader_at (pre @ u64_le_bytes n) post)"
  by (simp add: read_u64_def read_array_at)

lemma read_string_at:
  assumes "length s \<le> MAX_STRING_LEN" "is_utf8 s"
  shows "read_string (reader_at pre (write_string s @ post)) = Ok (s, reader_at (pre @ write_string s) post)"
proof -
  have "length s < 2 ^ 64" using assms(1) by (simp add: MAX_STRING_LEN_def)
  then show ?thesis using assms by (simp add: read_string_def write_string_def read_u64_at read_array_at)
qed

definition nested :: "nat \<Rightarrow> bytes" where
  "nested k = concat (replicate k (u32_le GGUF_TYPE_ARRAY @ u64_le_bytes 1))"

lemma skip_nested: "skip_value k GGUF_TYPE_ARRAY (reader_at pre (nested k @ post)) = Panic"
proof (induction k arbitrary: pre)
  case (Suc k)
  let ?a = "u32_le GGUF_TYPE_ARRAY"
  have n: "nested (Suc k) @ post = ?a @ u64_le_bytes 1 @ nested k @ post" by (simp add: nested_def)
  have a: "scalar_width GGUF_TYPE_ARRAY = None" "GGUF_TYPE_ARRAY \<noteq> GGUF_TYPE_STRING"
    by (simp_all add: scalar_width_def GGUF_TYPE_ARRAY_def GGUF_TYPE_STRING_def)
  have "GGUF_TYPE_ARRAY < 2 ^ 32" by (simp add: GGUF_TYPE_ARRAY_def)
  with Suc.IH[of "pre @ ?a @ u64_le_bytes 1"] show ?case
    unfolding skip_array(2)[OF a] n by (simp add: read_u32_at read_u64_at MAX_METADATA_ENTRIES_def)
qed simp

definition deep_file :: "nat \<Rightarrow> bytes" where
  "deep_file k = GGUF_MAGIC @ u32_le SUPPORTED_VERSION @ u64_le_bytes 0 @ u64_le_bytes 1 @ write_string [] @
     u32_le GGUF_TYPE_ARRAY @ nested k"

lemma length_deep_file: "length (deep_file k) = 12 * k + 36"
  by (induction k) (simp_all add: deep_file_def nested_def GGUF_MAGIC_def str_bytes_def write_string_def)

lemma reader_new_at: "reader_new buf = reader_at [] buf"
  by (simp add: reader_new_def reader_at_def)

lemma header_at:
  assumes "n \<le> MAX_METADATA_ENTRIES"
  shows "parse_header_bytes frames (GGUF_MAGIC @ u32_le SUPPORTED_VERSION @ u64_le_bytes 0 @ u64_le_bytes n @ post) =
    rbind (rfold (\<lambda>_. read_entry frames) [0..<n] (None, None,
        reader_at (GGUF_MAGIC @ u32_le SUPPORTED_VERSION @ u64_le_bytes 0 @ u64_le_bytes n) post))
      (\<lambda>(architecture, file_type, _).
       Ok \<lparr>gh_version = SUPPORTED_VERSION, gh_tensor_count = 0, gh_metadata_count = n,
           gh_architecture = architecture, gh_file_type = file_type\<rparr>)"
proof -
  have "length GGUF_MAGIC = 4" by (simp add: GGUF_MAGIC_def str_bytes_def)
  moreover have "SUPPORTED_VERSION < 2 ^ 32" "n < 2 ^ 64"
    using assms by (simp_all add: SUPPORTED_VERSION_def MAX_METADATA_ENTRIES_def)
  ultimately show ?thesis using assms
    by (simp add: parse_header_bytes_def reader_new_at read_array_at read_u32_at read_u64_at)
qed

lemma deep_file_aborts: "parse_header_bytes k (deep_file k) = Panic"
proof -
  have a: "GGUF_TYPE_ARRAY < 2 ^ 32" by (simp add: GGUF_TYPE_ARRAY_def)
  have "read_entry k (None, None, reader_at pre (write_string [] @ u32_le GGUF_TYPE_ARRAY @ nested k)) = Panic" for pre
    using skip_nested[of k "pre @ write_string [] @ u32_le GGUF_TYPE_ARRAY" "[]"]
    by (simp add: read_entry_def read_string_at read_u32_at[OF a] str_bytes_def)
  then show ?thesis by (simp add: deep_file_def header_at MAX_METADATA_ENTRIES_def)
qed

text \<open>Reading the header of a file can exhaust the stack exactly when the stack holds no more than
  one frame for every twelve bytes that fit behind the first 36 of the header: nesting of arrays is not
  bounded by the parser, only by the sixteen mebibytes that it reads, nearly 1.4 million frames. Nothing
  else in a file makes the parser abort.\<close>

theorem header_depth_unbounded:
  "(\<exists>file. parse_header frames file = Panic) \<longleftrightarrow> 12 * frames + 36 \<le> HEADER_READ_SIZE"
proof
  assume "\<exists>file. parse_header frames file = Panic"
  then obtain raw where "parse_header_bytes frames (take HEADER_READ_SIZE raw) = Panic"
    unfolding parse_header_def by blast
  from parse_Panic_length[OF this] show "12 * frames + 36 \<le> HEADER_READ_SIZE" by simp
next
  assume "12 * frames + 36 \<le> HEADER_READ_SIZE"
  then have "parse_header frames (deep_file frames) = Panic"
    by (simp add: parse_header_def deep_file_aborts length_deep_file)
  then show "\<exists>file. parse_header frames file = Panic" ..
qed

section \<open>Built headers\<close>

fun kv_ok :: "gguf_kv \<Rightarrow> bool" where
  "kv_ok (KvString key v) \<longleftrightarrow> length key \<le> MAX_STRING_LEN \<and> is_utf8 key \<and> length v \<le> MAX_STRING_LEN \<and> is_utf8 v"
| "kv_ok (KvU32 key n) \<longleftrightarrow> length key \<le> MAX_STRING_LEN \<and> is_utf8 key \<and> n < 2 ^ 32"

text \<open>What the entries say: the last architecture and the last file type win.\<close>

fun note_kv :: "gguf_kv \<Rightarrow> bytes option \<times> nat option \<Rightarrow> bytes option \<times> nat option" where
  "note_kv (KvString key v) (a, f) = (if key = str_bytes ''general.architecture'' then Some v else a, f)"
| "note_kv (KvU32 key n) (a, f) = (a, if key = str_bytes ''general.file_type'' then Some n else f)"

lemma type_codes: "scalar_width 8 = None" "scalar_width 4 = Some 4" "GGUF_TYPE_STRING = 8" "GGUF_TYPE_UINT32 = 4"
  by (simp_all add: scalar_width_def GGUF_TYPE_STRING_def GGUF_TYPE_UINT32_def)

lemma read_entry_at:
  assumes "kv_ok kv" and "note_kv kv (a, f) = (a', f')"
  shows "read_entry (Suc frames) (a, f, reader_at pre (write_kv kv @ post)) = Ok (a', f', reader_at (pre @ write_kv kv) post)"
  using assms
  by (cases kv) (auto simp: read_entry_def read_string_at read_u32_at read_array_at type_codes split: if_splits)

lemma read_entries_at:
  assumes "list_all kv_ok kvs" and "length xs = length kvs" and "fold note_kv kvs (a, f) = (a', f')"
  shows "\<exists>r. rfold (\<lambda>_. read_entry (Suc frames)) xs (a, f, reader_at pre (concat (map write_kv kvs) @ post)) = Ok (a', f', r)"
  using assms
proof (induction kvs arbitrary: xs a f pre)
  case (Cons kv kvs)
  obtain x xs' where xs: "xs = x # xs'" "length xs' = length kvs" using Cons.prems(2) by (cases xs) auto
  obtain a1 f1 where n: "note_kv kv (a, f) = (a1, f1)" by (cases "note_kv kv (a, f)")
  have "rfold (\<lambda>_. read_entry (Suc frames)) xs (a, f, reader_at pre (concat (map write_kv (kv # kvs)) @ post)) =
      rfold (\<lambda>_. read_entry (Suc frames)) xs' (a1, f1, reader_at (pre @ write_kv kv) (concat (map write_kv kvs) @ post))"
    using Cons.prems(1) read_entry_at[OF _ n, of frames pre "concat (map write_kv kvs) @ post"] by (simp add: xs(1))
  with Cons.IH[of xs' a1 f1 "pre @ write_kv kv"] Cons.prems xs(2) n show ?case by simp
qed simp

lemma built_header_parses:
  assumes "list_all kv_ok kvs" and "length kvs \<le> MAX_METADATA_ENTRIES"
    and "fold note_kv kvs (None, None) = (a, f)"
  shows "parse_header_bytes (Suc frames) (gguf_build kvs) =
      Ok \<lparr>gh_version = 3, gh_tensor_count = 0, gh_metadata_count = length kvs,
          gh_architecture = a, gh_file_type = f\<rparr>"
proof -
  obtain r where "rfold (\<lambda>_. read_entry (Suc frames)) [0..<length kvs] (None, None,
      reader_at (GGUF_MAGIC @ u32_le SUPPORTED_VERSION @ u64_le_bytes 0 @ u64_le_bytes (length kvs))
        (concat (map write_kv kvs))) = Ok (a, f, r)"
    using read_entries_at[OF assms(1) _ assms(3), of "[0..<length kvs]" frames _ "[]"] by force
  then show ?thesis
    unfolding gguf_build_def header_at[OF assms(2)] by (simp add: SUPPORTED_VERSION_def)
qed

text \<open>C36: A header that was built from key-value pairs within the limits is read back as it was built,
  whatever tensor data follow: version three, the number of pairs, the last architecture and the last
  file type. And if the first sixteen mebibytes of a file, which is all that is read of it, parse as a
  header, its whole contents parse as the same one; nothing is said of a file whose header is longer.\<close>

theorem built_header_is_read:
  assumes "list_all kv_ok kvs" and "length kvs \<le> MAX_METADATA_ENTRIES"
  shows "parse_header_bytes (Suc frames) (gguf_build kvs @ payload) =
      Ok \<lparr>gh_version = 3, gh_tensor_count = 0, gh_metadata_count = length kvs,
          gh_architecture = fst (fold note_kv kvs (None, None)), gh_file_type = snd (fold note_kv kvs (None, None))\<rparr> \<and>
    (\<forall>file h. parse_header (Suc frames) file = Ok h \<longrightarrow> parse_header_bytes (Suc frames) file = Ok h)"
proof -
  obtain a f where n: "fold note_kv kvs (None, None) = (a, f)" by (cases "fold note_kv kvs (None, None)")
  have "parse_header_bytes (Suc frames) (gguf_build kvs @ payload) =
      Ok \<lparr>gh_version = 3, gh_tensor_count = 0, gh_metadata_count = length kvs,
          gh_architecture = a, gh_file_type = f\<rparr>"
    by (rule parse_prefix[OF built_header_parses[OF assms n]])
  moreover have "parse_header_bytes (Suc frames) raw = Ok h" if "parse_header (Suc frames) raw = Ok h" for raw h
    using parse_prefix[of "Suc frames" "take HEADER_READ_SIZE raw" h "drop HEADER_READ_SIZE raw"] that
    by (simp add: parse_header_def)
  ultimately show ?thesis by (simp add: n)
qed

theorem built_header_is_read_witness:
  "parse_header_bytes 1 (gguf_build [KvString (str_bytes ''general.architecture'') (str_bytes ''llama''),
       KvU32 (str_bytes ''general.file_type'') 15] @ [0, 1, 2]) =
     Ok \<lparr>gh_version = 3, gh_tensor_count = 0, gh_metadata_count = 2,
         gh_architecture = Some (str_bytes ''llama''), gh_file_type = Some 15\<rparr>"
proof -
  let ?kvs = "[KvString (str_bytes ''general.architecture'') (str_bytes ''llama''),
       KvU32 (str_bytes ''general.file_type'') 15]"
  have "list_all kv_ok ?kvs" by (simp add: str_bytes_def MAX_STRING_LEN_def)
  moreover have "length ?kvs \<le> MAX_METADATA_ENTRIES" by (simp add: MAX_METADATA_ENTRIES_def)
  ultimately show ?thesis using built_header_is_read[of ?kvs 0 "[0, 1, 2]"] by simp
qed

end
