(* ===== verification/ModelStore.thy ===== *)
theory ModelStore
  imports Gguf
begin

text \<open>
  Where model files come from: the registry (\<^verbatim>\<open>crates/model-manager/src/registry.rs\<close>), the
  content-addressed cache with its eviction (\<open>cache.rs\<close>), the resumable download (\<open>puller.rs\<close>) and the
  manager that puts them together (\<open>manager.rs\<close>). The disk is a map from the three files that belong
  to a digest to their contents; what the network answers, whether a file can be deleted, the iteration
  order of the index and the clock are arguments.
\<close>

section \<open>Manifests and the registry\<close>

record model_file_manifest =
  mf_model_ref :: model_ref
  mf_mirrors :: "string list"
  mf_sha256 :: hash256
  mf_size_bytes :: nat
  mf_quant :: gguf_quant

type_synonym mock_registry = "string \<rightharpoonup> model_file_manifest"

definition registry_insert :: "string \<Rightarrow> model_file_manifest \<Rightarrow> mock_registry \<Rightarrow> mock_registry" where
  "registry_insert model_ref manifest reg = reg(model_ref \<mapsto> manifest)"

definition registry_resolve :: "mock_registry \<Rightarrow> model_ref \<Rightarrow> (model_error, model_file_manifest) result" where
  "registry_resolve reg r =
     (case reg (model_ref_display r) of Some m \<Rightarrow> Ok m | None \<Rightarrow> Err (UnknownModel (model_ref_display r)))"

section \<open>The cache\<close>

text \<open>\<open>Final d\<close> is \<^verbatim>\<open>path_for(d)\<close>, \<open>Staging d\<close> and \<open>Partial d\<close> have one and two more \<^verbatim>\<open>.partial\<close>.\<close>

datatype path = Final hash256 | Staging hash256 | Partial hash256

record cache_entry =
  ce_size_bytes :: nat
  ce_last_used :: nat

record store =
  so_files :: "path \<Rightarrow> bytes option"
  so_index :: "(hash256, cache_entry) kv"
  so_max_bytes :: nat

type_synonym 'a store_step = "(model_error, 'a) result \<times> store"

definition remove_path :: "path \<Rightarrow> store \<Rightarrow> store" where
  "remove_path p s = s\<lparr>so_files := (so_files s)(p := None)\<rparr>"

text \<open>A deletion that may fail, where the code only warns: \<open>rm_fails p\<close> says that the file at \<open>p\<close> cannot be
  removed.\<close>

definition try_remove :: "(path \<Rightarrow> bool) \<Rightarrow> path \<Rightarrow> store \<Rightarrow> store" where
  "try_remove rm_fails p s = (if rm_fails p then s else remove_path p s)"

definition index_del :: "hash256 \<Rightarrow> store \<Rightarrow> store" where
  "index_del d s = s\<lparr>so_index := kv_del d (so_index s)\<rparr>"

definition total_bytes :: "store \<Rightarrow> nat" where
  "total_bytes s = kv_sum (\<lambda>_. ce_size_bytes) (so_index s)"

definition cache_get :: "nat \<Rightarrow> hash256 \<Rightarrow> store \<Rightarrow> path option \<times> store" where
  "cache_get now d s =
     (case kv_get (so_index s) d of
        None \<Rightarrow> (None, s)
      | Some e \<Rightarrow>
          let s1 = s\<lparr>so_index := kv_put d (e\<lparr>ce_last_used := now\<rparr>) (so_index s)\<rparr>
          in if so_files s1 (Final d) \<noteq> None then (Some (Final d), s1)
             else (None, index_del d s1))"

text \<open>\<^verbatim>\<open>min_by_key\<close>: the first of the least recently used entries in the order of the iteration. The
  order of a hash map is arbitrary: it is given by a \<open>rank\<close> of the keys.\<close>

fun least_used :: "(hash256 \<times> cache_entry) list \<Rightarrow> (hash256 \<times> cache_entry) option" where
  "least_used [] = None"
| "least_used [x] = Some x"
| "least_used (x # y # es) =
     (if ce_last_used (snd x) \<le> ce_last_used (snd y) then least_used (x # es) else least_used (y # es))"

definition lru_victim :: "(hash256 \<Rightarrow> nat) \<Rightarrow> store \<Rightarrow> (hash256 \<times> cache_entry) option" where
  "lru_victim rank s = least_used (sort_key (rank \<circ> fst) (kv_entries (so_index s)))"

lemma least_used_member:
  "least_used es = Some z \<Longrightarrow> z \<in> set es \<and> (\<forall>y \<in> set es. ce_last_used (snd z) \<le> ce_last_used (snd y))"
proof (induction es rule: least_used.induct)
  case (3 x y es)
  show ?case
  proof (cases "ce_last_used (snd x) \<le> ce_last_used (snd y)")
    case True
    with 3 have "z \<in> set (x # es)" "\<forall>u \<in> set (x # es). ce_last_used (snd z) \<le> ce_last_used (snd u)" by simp_all
    moreover from this(2) True have "ce_last_used (snd z) \<le> ce_last_used (snd y)" by fastforce
    ultimately show ?thesis by auto
  next
    case False
    with 3 have "z \<in> set (y # es)" "\<forall>u \<in> set (y # es). ce_last_used (snd z) \<le> ce_last_used (snd u)" by simp_all
    moreover from this(2) False have "ce_last_used (snd z) \<le> ce_last_used (snd x)" by fastforce
    ultimately show ?thesis by auto
  qed
qed simp_all

lemma least_used_exists: "es \<noteq> [] \<Longrightarrow> least_used es \<noteq> None"
  by (induction es rule: least_used.induct) auto

lemma lru_victim_Some:
  assumes "lru_victim rank s = Some (d, e)"
  shows "kv_get (so_index s) d = Some e"
    and "kv_get (so_index s) d' = Some e' \<Longrightarrow> ce_last_used e \<le> ce_last_used e'"
proof -
  note m = least_used_member[OF assms[unfolded lru_victim_def], unfolded set_sort]
  from m have "(d, e) \<in> set (kv_entries (so_index s))" by blast
  then show "kv_get (so_index s) d = Some e" by (simp only: kv.mem_entries)
  assume "kv_get (so_index s) d' = Some e'"
  then have "(d', e') \<in> set (kv_entries (so_index s))" by (simp only: kv.mem_entries)
  with m show "ce_last_used e \<le> ce_last_used e'" by fastforce
qed

lemma kv_size_del: "kv_get m k = Some v \<Longrightarrow> kv_size (kv_del k m) < kv_size m"
  using kv_sum_del[of "\<lambda>k v. 1" k m] unfolding kv_size_sum by simp

text \<open>One round of the loop removes one entry of the index; a file that cannot be removed ends it. The sizes of the files of one disk add up to less than \<open>2 ^ 64\<close>.\<close>

function gc_loop :: "(hash256 \<Rightarrow> nat) \<Rightarrow> (path \<Rightarrow> bool) \<Rightarrow> nat \<Rightarrow> nat \<Rightarrow> store \<Rightarrow> nat store_step" where
  "gc_loop rank rm_fails incoming_bytes freed s =
     (if total_bytes s + incoming_bytes \<le> so_max_bytes s then (Ok freed, s)
      else case lru_victim rank s of
        None \<Rightarrow> (Ok freed, s)
      | Some (victim, e) \<Rightarrow>
          if so_files s (Final victim) \<noteq> None \<and> rm_fails (Final victim) then (Err (ModelIo ''remove_file''), s)
          else gc_loop rank rm_fails incoming_bytes (freed + ce_size_bytes e)
                 (index_del victim (remove_path (Final victim) s)))"
  by pat_completeness auto
termination
  by (relation "measure (\<lambda>(rank, rm, n, f, s). kv_size (so_index s))")
    (auto simp: index_del_def remove_path_def intro!: kv_size_del lru_victim_Some)

declare gc_loop.simps [simp del]

definition gc_for :: "(hash256 \<Rightarrow> nat) \<Rightarrow> (path \<Rightarrow> bool) \<Rightarrow> nat \<Rightarrow> store \<Rightarrow> nat store_step" where
  "gc_for rank rm_fails incoming_bytes s =
     (if incoming_bytes > so_max_bytes s then (Err (CacheError ''incoming exceeds cache cap''), s)
      else gc_loop rank rm_fails incoming_bytes 0 s)"

text \<open>The file at \<open>src\<close> moves into the slot of the digest.\<close>

definition cache_insert ::
    "(hash256 \<Rightarrow> nat) \<Rightarrow> (path \<Rightarrow> bool) \<Rightarrow> nat \<Rightarrow> hash256 \<Rightarrow> path \<Rightarrow> store \<Rightarrow> path store_step" where
  "cache_insert rank rm_fails now d src s =
     (case so_files s src of
        None \<Rightarrow> (Err (ModelIo ''metadata''), s)
      | Some bs \<Rightarrow>
         (case gc_for rank rm_fails (length bs) s of
            (Err e, s1) \<Rightarrow> (Err e, s1)
          | (Panic, s1) \<Rightarrow> (Panic, s1)
          | (Ok _, s1) \<Rightarrow>
              (Ok (Final d),
               s1\<lparr>so_files := (so_files s1)(src := None, Final d := so_files s1 src),
                  so_index := kv_put d \<lparr>ce_size_bytes = length bs, ce_last_used = now\<rparr> (so_index s1)\<rparr>)))"

text \<open>Removing an entry: a file that cannot be removed stays, and the entry of the index goes all the same.\<close>

definition cache_evict :: "(path \<Rightarrow> bool) \<Rightarrow> hash256 \<Rightarrow> store \<Rightarrow> store" where
  "cache_evict rm_fails d s = index_del d (try_remove rm_fails (Staging d) (try_remove rm_fails (Final d) s))"

section \<open>Downloads\<close>

text \<open>The answer of a mirror to a request from an offset: no answer, or a status with the chunks of the
  body, the stream failing at a chunk \<open>None\<close>.\<close>

datatype http_answer = NoResponse string | HttpAnswer nat "bytes option list"

fun receive_chunks :: "nat \<Rightarrow> bytes \<Rightarrow> bytes option list \<Rightarrow> (model_error, unit) result \<times> bytes" where
  "receive_chunks expected written [] = (Ok (), written)"
| "receive_chunks expected written (None # cs) = (Err (Download ''stream''), written)"
| "receive_chunks expected written (Some c # cs) =
     (let written' = written @ c
      in if length written' > expected then (Err (SizeMismatch expected (length written')), written')
         else receive_chunks expected written' cs)"

definition set_path :: "path \<Rightarrow> bytes \<Rightarrow> store \<Rightarrow> store" where
  "set_path p bs s = s\<lparr>so_files := (so_files s)(p \<mapsto> bs)\<rparr>"

definition file_len :: "path \<Rightarrow> store \<Rightarrow> nat" where
  "file_len p s = (case so_files s p of Some bs \<Rightarrow> length bs | None \<Rightarrow> 0)"

definition pull_from_mirror ::
    "ext \<Rightarrow> (path \<Rightarrow> bool) \<Rightarrow> (string \<Rightarrow> nat \<Rightarrow> http_answer) \<Rightarrow> string \<Rightarrow> model_file_manifest \<Rightarrow> store \<Rightarrow> unit store_step" where
  "pull_from_mirror X rm_fails fetch url m s =
     (let partial = Partial (mf_sha256 m); already_on_disk = file_len partial s
      in if already_on_disk \<ge> mf_size_bytes m \<and> (so_files s partial = None \<or> rm_fails partial)
      then (Err (ModelIo ''remove_file''), s)
      else
       let s1 = (if already_on_disk \<ge> mf_size_bytes m then remove_path partial s else s);
           resume_from = file_len partial s1
       in case fetch url resume_from of
         NoResponse e \<Rightarrow> (Err (Download e), s1)
       | HttpAnswer status chunks \<Rightarrow>
           if status \<noteq> 200 \<and> status \<noteq> 206 then (Err (Download ''HTTP status''), s1)
           else if status = 200 \<and> resume_from > 0 \<and> rm_fails partial then (Err (ModelIo ''remove_file''), s1)
           else
            let s2 = (if status = 200 \<and> resume_from > 0 then remove_path partial s1 else s1);
                existing = (case so_files s2 partial of Some bs \<Rightarrow> bs | None \<Rightarrow> []);
                (r, written) = receive_chunks (mf_size_bytes m) existing chunks;
                s3 = set_path partial written s2
            in case r of
                 Err e \<Rightarrow> (Err e, s3)
               | Panic \<Rightarrow> (Panic, s3)
               | Ok _ \<Rightarrow>
                   if length written \<noteq> mf_size_bytes m
                   then (Err (SizeMismatch (mf_size_bytes m) (length written)), s3)
                   else if x_sha256 X written \<noteq> mf_sha256 m
                   then (Err (HashMismatch (mf_sha256 m) (x_sha256 X written)), try_remove rm_fails partial s3)
                   else (Ok (), s3))"

text \<open>The mirrors in order; a complete partial file becomes the staging file.\<close>

fun try_mirrors ::
    "ext \<Rightarrow> (path \<Rightarrow> bool) \<Rightarrow> (string \<Rightarrow> nat \<Rightarrow> http_answer) \<Rightarrow> model_file_manifest \<Rightarrow> model_error option \<Rightarrow> string list \<Rightarrow> store \<Rightarrow> unit store_step" where
  "try_mirrors X rm_fails fetch m last_error [] s =
     (Err (case last_error of Some e \<Rightarrow> e | None \<Rightarrow> NoMirrors (model_ref_display (mf_model_ref m))), s)"
| "try_mirrors X rm_fails fetch m last_error (url # urls) s =
     (case pull_from_mirror X rm_fails fetch url m s of
        (Ok _, s1) \<Rightarrow>
          (Ok (), s1\<lparr>so_files := (so_files s1)(Partial (mf_sha256 m) := None,
                        Staging (mf_sha256 m) := so_files s1 (Partial (mf_sha256 m)))\<rparr>)
      | (Err e, s1) \<Rightarrow> try_mirrors X rm_fails fetch m (Some e) urls s1
      | (Panic, s1) \<Rightarrow> (Panic, s1))"

definition pull ::
    "ext \<Rightarrow> (path \<Rightarrow> bool) \<Rightarrow> (string \<Rightarrow> nat \<Rightarrow> http_answer) \<Rightarrow> model_file_manifest \<Rightarrow> store \<Rightarrow> unit store_step" where
  "pull X rm_fails fetch m s = try_mirrors X rm_fails fetch m None (mf_mirrors m) s"

section \<open>The manager\<close>

text \<open>The check of the header of the file at a path, with the stack of the reading thread.\<close>

definition validate_gguf :: "(path \<Rightarrow> bool) \<Rightarrow> nat \<Rightarrow> path \<Rightarrow> model_file_manifest \<Rightarrow> store \<Rightarrow> unit store_step" where
  "validate_gguf rm_fails frames p m s =
     (case so_files s p of
        None \<Rightarrow> (Err (ModelIo ''open''), cache_evict rm_fails (mf_sha256 m) s)
      | Some bs \<Rightarrow>
         (case parse_header frames bs of
            Err e \<Rightarrow> (Err e, cache_evict rm_fails (mf_sha256 m) s)
          | Panic \<Rightarrow> (Panic, s)
          | Ok h \<Rightarrow>
             (case gh_file_type h of
                Some actual \<Rightarrow>
                  if actual = gguf_file_type (mf_quant m) then (Ok (), s)
                  else (Err (GgufError (QuantMismatch (gguf_file_type (mf_quant m)) actual)), cache_evict rm_fails (mf_sha256 m) s)
              | None \<Rightarrow> (Ok (), s))))"

definition ensure_local ::
    "ext \<Rightarrow> nat \<Rightarrow> (string \<Rightarrow> nat \<Rightarrow> http_answer) \<Rightarrow> (hash256 \<Rightarrow> nat) \<Rightarrow> (path \<Rightarrow> bool) \<Rightarrow> mock_registry \<Rightarrow> nat \<Rightarrow>
     model_ref \<Rightarrow> store \<Rightarrow> path store_step" where
  "ensure_local X frames fetch rank rm_fails reg now r s =
     (case registry_resolve reg r of
        Err e \<Rightarrow> (Err e, s)
      | Panic \<Rightarrow> (Panic, s)
      | Ok m \<Rightarrow>
         (case cache_get now (mf_sha256 m) s of
            (Some p, s1) \<Rightarrow>
             (case validate_gguf rm_fails frames p m s1 of
                (Ok _, s2) \<Rightarrow> (Ok p, s2) | (Err e, s2) \<Rightarrow> (Err e, s2) | (Panic, s2) \<Rightarrow> (Panic, s2))
          | (None, s1) \<Rightarrow>
             (case pull X rm_fails fetch m s1 of
                (Err e, s2) \<Rightarrow> (Err e, s2)
              | (Panic, s2) \<Rightarrow> (Panic, s2)
              | (Ok _, s2) \<Rightarrow>
                 (case validate_gguf rm_fails frames (Staging (mf_sha256 m)) m s2 of
                    (Err e, s3) \<Rightarrow> (Err e, s3)
                  | (Panic, s3) \<Rightarrow> (Panic, s3)
                  | (Ok _, s3) \<Rightarrow> cache_insert rank rm_fails now (mf_sha256 m) (Staging (mf_sha256 m)) s3))))"

definition model_gc :: "(hash256 \<Rightarrow> nat) \<Rightarrow> (path \<Rightarrow> bool) \<Rightarrow> store \<Rightarrow> nat store_step" where
  "model_gc rank rm_fails s = gc_for rank rm_fails 0 s"

text \<open>Opening a cache: the index is rebuilt from the objects that a walk over the directories finds, with
  their times of access.\<close>

definition cache_open :: "(hash256 \<times> nat) list \<Rightarrow> nat \<Rightarrow> (path \<Rightarrow> bytes option) \<Rightarrow> store" where
  "cache_open walk max_bytes files =
     \<lparr>so_files = files,
      so_index = fold (\<lambda>(d, t) idx. case files (Final d) of
          Some bs \<Rightarrow> kv_put d \<lparr>ce_size_bytes = length bs, ce_last_used = t\<rparr> idx | None \<Rightarrow> idx) walk kv_empty,
      so_max_bytes = max_bytes\<rparr>"

section \<open>Eviction\<close>

text \<open>Entries and their files leave together; nothing else changes.\<close>

definition evicted :: "store \<Rightarrow> store \<Rightarrow> bool" where
  "evicted s s' \<longleftrightarrow> so_max_bytes s' = so_max_bytes s \<and>
     (\<forall>p. (\<forall>d. p \<noteq> Final d) \<longrightarrow> so_files s' p = so_files s p) \<and>
     (\<forall>d. (kv_get (so_index s') d = kv_get (so_index s) d \<and> so_files s' (Final d) = so_files s (Final d)) \<or>
          (kv_get (so_index s) d \<noteq> None \<and> kv_get (so_index s') d = None \<and> so_files s' (Final d) = None))"

lemma evicted_refl [simp]: "evicted s s"
  by (simp add: evicted_def)

lemma evicted_trans: "evicted s s1 \<Longrightarrow> evicted s1 s2 \<Longrightarrow> evicted s s2"
  unfolding evicted_def by metis

lemma evicted_index: "evicted s s' \<Longrightarrow> kv_get (so_index s') d = Some e \<Longrightarrow> kv_get (so_index s) d = Some e"
  unfolding evicted_def by (metis option.distinct(1))

definition lru_order :: "store \<Rightarrow> store \<Rightarrow> bool" where
  "lru_order s s' \<longleftrightarrow> (\<forall>d e d' e'. kv_get (so_index s) d = Some e \<and> kv_get (so_index s') d = None \<and>
     kv_get (so_index s') d' = Some e' \<longrightarrow> ce_last_used e \<le> ce_last_used e')"

lemma evicted_one:
  assumes "kv_get (so_index s) d = Some e"
  shows "evicted s (index_del d (remove_path (Final d) s))"
  using assms by (auto simp: evicted_def index_del_def remove_path_def)

lemma gc_loop_spec:
  assumes "gc_loop rank rm_fails n freed s = (r, s')" and "n \<le> so_max_bytes s"
  shows "evicted s s' \<and> lru_order s s' \<and>
    (\<forall>f. r = Ok f \<longrightarrow> total_bytes s' + n \<le> so_max_bytes s \<and> f + total_bytes s' = freed + total_bytes s)"
  using assms
proof (induction rank rm_fails n freed s rule: gc_loop.induct)
  case (1 rank rm_fails n freed s)
  consider "total_bytes s + n \<le> so_max_bytes s" | "\<not> total_bytes s + n \<le> so_max_bytes s" "lru_victim rank s = None"
    | d e where "\<not> total_bytes s + n \<le> so_max_bytes s" "lru_victim rank s = Some (d, e)"
    by fastforce
  then show ?case
  proof cases
    case 1
    with "1.prems" show ?thesis by (auto simp: gc_loop.simps[of _ _ _ _ s] lru_order_def)
  next
    case 2
    have "sort_key (rank \<circ> fst) (kv_entries (so_index s)) = []"
      using 2(2) least_used_exists unfolding lru_victim_def by blast
    then have "kv_entries (so_index s) = []" by (metis length_0_conv length_sort)
    then have "total_bytes s = 0" by (simp add: total_bytes_def kv_sum_def)
    with 2 "1.prems" show ?thesis by simp
  next
    case (3 d e)
    show ?thesis
    proof (cases "so_files s (Final d) \<noteq> None \<and> rm_fails (Final d)")
      case True
      with 3 "1.prems" show ?thesis by (auto simp: gc_loop.simps[of _ _ _ _ s] lru_order_def)
    next
      case False
      let ?s1 = "index_del d (remove_path (Final d) s)"
      note v = lru_victim_Some[OF 3(2)]
      have "gc_loop rank rm_fails n (freed + ce_size_bytes e) ?s1 = (r, s')"
        using 3 False "1.prems"(1) gc_loop.simps[of rank rm_fails n freed s] by auto
      then have IH: "evicted ?s1 s'" "lru_order ?s1 s'"
        "\<forall>f. r = Ok f \<longrightarrow> total_bytes s' + n \<le> so_max_bytes ?s1 \<and> f + total_bytes s' = freed + ce_size_bytes e + total_bytes ?s1"
        using "1.IH"[OF 3(1,2) refl False] "1.prems"(2) by (simp_all add: index_del_def remove_path_def)
      have "total_bytes ?s1 + ce_size_bytes e = total_bytes s"
        using kv_sum_del[of "\<lambda>_. ce_size_bytes" d "so_index s"] v(1)
        by (simp add: total_bytes_def index_del_def remove_path_def)
      moreover have "evicted s s'" using evicted_trans[OF evicted_one[OF v(1)] IH(1)] .
      moreover have "lru_order s s'"
        unfolding lru_order_def
      proof (intro allI impI, elim conjE)
        fix d1 e1 d' e'
        assume a: "kv_get (so_index s) d1 = Some e1" "kv_get (so_index s') d1 = None" "kv_get (so_index s') d' = Some e'"
        note b = evicted_index[OF IH(1) a(3)] evicted_index[OF \<open>evicted s s'\<close> a(3)]
        show "ce_last_used e1 \<le> ce_last_used e'"
        proof (cases "d1 = d")
          case True
          with a(1) v(1) v(2)[OF b(2)] show ?thesis by simp
        next
          case False
          with a have "kv_get (so_index ?s1) d1 = Some e1" by (simp add: index_del_def remove_path_def)
          with a IH(2) show ?thesis unfolding lru_order_def by blast
        qed
      qed
      ultimately show ?thesis using IH(3) by (auto simp: index_del_def remove_path_def)
    qed
  qed
qed

text \<open>An insertion returns, and when it succeeds the cache is within its cap and holds the new file;
  it evicted only what it had to, entry and file together: everything evicted was used no later than
  everything kept. A file larger than the cap is refused and nothing is evicted for it.\<close>

theorem insertion_evicts_least_used:
  assumes "cache_insert rank rm_fails now d src s = (r, s')" and "so_files s src = Some bs"
    and "\<forall>d. src \<noteq> Final d"
  shows "(length bs > so_max_bytes s \<longrightarrow> r = Err (CacheError ''incoming exceeds cache cap'') \<and> s' = s) \<and>
    (r = Ok p \<longrightarrow> p = Final d \<and> so_files s' p = Some bs \<and> total_bytes s' \<le> so_max_bytes s' \<and>
       (\<forall>d1 e1 d2 e2. kv_get (so_index s) d1 = Some e1 \<and> kv_get (so_index s') d1 = None \<and> d2 \<noteq> d \<and>
          kv_get (so_index s') d2 = Some e2 \<longrightarrow> so_files s' (Final d1) = None \<and> ce_last_used e1 \<le> ce_last_used e2))"
proof (cases "length bs > so_max_bytes s")
  case True
  with assms(1,2) show ?thesis by (auto simp: cache_insert_def gc_for_def)
next
  case False
  obtain g s1 where g: "gc_loop rank rm_fails (length bs) 0 s = (g, s1)" by (cases "gc_loop rank rm_fails (length bs) 0 s")
  note spec = gc_loop_spec[OF g]
  show ?thesis
  proof (cases "r = Ok p")
    case True
    with assms(1,2) g False obtain f where f: "g = Ok f" "p = Final d"
      and s': "s' = s1\<lparr>so_files := (so_files s1)(src := None, Final d := so_files s1 src),
                  so_index := kv_put d \<lparr>ce_size_bytes = length bs, ce_last_used = now\<rparr> (so_index s1)\<rparr>"
      by (auto simp: cache_insert_def gc_for_def split: result.splits)
    have ev: "evicted s s1" and lru: "lru_order s s1" and tot: "total_bytes s1 + length bs \<le> so_max_bytes s"
      using spec f(1) False by auto
    from ev assms(2,3) have src: "so_files s1 src = Some bs" unfolding evicted_def by metis
    have "total_bytes s' \<le> total_bytes s1 + length bs"
      using kv_sum_put[of "\<lambda>_. ce_size_bytes" d "\<lparr>ce_size_bytes = length bs, ce_last_used = now\<rparr>" "so_index s1"]
      by (simp add: total_bytes_def s')
    with tot ev have cap: "total_bytes s' \<le> so_max_bytes s'" by (simp add: s' evicted_def)
    have "so_files s' (Final d1) = None \<and> ce_last_used e1 \<le> ce_last_used e2"
      if "kv_get (so_index s) d1 = Some e1" "kv_get (so_index s') d1 = None" "d2 \<noteq> d" "kv_get (so_index s') d2 = Some e2"
      for d1 e1 d2 e2
    proof -
      from that have n: "d1 \<noteq> d" "kv_get (so_index s1) d1 = None" "kv_get (so_index s1) d2 = Some e2"
        by (auto simp: s' split: if_splits)
      with ev that(1) have "so_files s1 (Final d1) = None" unfolding evicted_def by (metis option.distinct(1))
      moreover have "ce_last_used e1 \<le> ce_last_used e2" using lru that(1) n unfolding lru_order_def by blast
      ultimately show ?thesis using n(1) by (simp add: s')
    qed
    moreover have "so_files s' (Final d) = Some bs" by (simp add: s' src)
    ultimately show ?thesis using False cap unfolding f(2) by blast
  qed (use False in simp)
qed

section \<open>What is in the store\<close>

text \<open>Every file of the cache has the digest of its name, and what the index lists is a file with its size.
  The index may miss a file: one that could not be removed when its entry was. It lists exactly the files
  (\<open>index_exact\<close>) after the cache is opened, and as long as no removal fails.\<close>

definition store_ok :: "ext \<Rightarrow> store \<Rightarrow> bool" where
  "store_ok X s \<longleftrightarrow> (\<forall>d bs. so_files s (Final d) = Some bs \<longrightarrow> x_sha256 X bs = d) \<and>
     (\<forall>d e. kv_get (so_index s) d = Some e \<longrightarrow> Some (ce_size_bytes e) = map_option length (so_files s (Final d)))"

definition index_exact :: "store \<Rightarrow> bool" where
  "index_exact s \<longleftrightarrow>
     (\<forall>d. map_option ce_size_bytes (kv_get (so_index s) d) = map_option length (so_files s (Final d)))"

lemma cache_open_ok:
  assumes "\<And>d bs. files (Final d) = Some bs \<Longrightarrow> x_sha256 X bs = d"
    and "\<And>d. files (Final d) \<noteq> None \<Longrightarrow> d \<in> fst ` set walk"
  shows "store_ok X (cache_open walk cap files) \<and> index_exact (cache_open walk cap files)"
proof -
  let ?step = "\<lambda>(d, t) idx. case files (Final d) of
      Some bs \<Rightarrow> kv_put d \<lparr>ce_size_bytes = length bs, ce_last_used = t\<rparr> idx | None \<Rightarrow> idx"
  have "map_option ce_size_bytes (kv_get (fold ?step w idx) d) =
      (if d \<in> fst ` set w \<and> files (Final d) \<noteq> None then map_option length (files (Final d))
       else map_option ce_size_bytes (kv_get idx d))" for w idx d
    by (induction w arbitrary: idx) (auto split: option.splits)
  then have i: "map_option ce_size_bytes (kv_get (so_index (cache_open walk cap files)) d) = map_option length (files (Final d))" for d
    using assms(2)[of d] by (cases "files (Final d)") (auto simp: cache_open_def)
  have f: "so_files (cache_open walk cap files) = files" by (simp add: cache_open_def)
  have "Some (ce_size_bytes e) = map_option length (files (Final d))"
    if "kv_get (so_index (cache_open walk cap files)) d = Some e" for d e using i[of d] that by simp
  with assms(1) i show ?thesis by (simp add: store_ok_def index_exact_def f)
qed

definition quiet :: "store \<Rightarrow> store \<Rightarrow> bool" where
  "quiet s s' \<longleftrightarrow> so_index s' = so_index s \<and> so_max_bytes s' = so_max_bytes s \<and>
     (\<forall>d. so_files s' (Final d) = so_files s (Final d))"

lemma quiet_refl [simp]: "quiet s s"
  by (simp add: quiet_def)

lemma quiet_trans: "quiet s s1 \<Longrightarrow> quiet s1 s2 \<Longrightarrow> quiet s s2"
  by (simp add: quiet_def)

lemma quiet_path [simp]: "quiet s (remove_path (Partial d) s)" "quiet s (set_path (Partial d) bs s)"
  by (simp_all add: quiet_def remove_path_def set_path_def)

lemma quiet_try_remove [simp]: "quiet s (try_remove rm_fails (Partial d) s)"
  by (simp add: try_remove_def)

lemma store_ok_quiet: "store_ok X s \<Longrightarrow> quiet s s' \<Longrightarrow> store_ok X s'"
  by (simp add: store_ok_def quiet_def)

lemma index_exact_quiet: "index_exact s \<Longrightarrow> quiet s s' \<Longrightarrow> index_exact s'"
  by (simp add: index_exact_def quiet_def)

lemma store_ok_evicted: "store_ok X s \<Longrightarrow> evicted s s' \<Longrightarrow> store_ok X s'"
  unfolding store_ok_def evicted_def by (metis option.distinct(1))

lemma index_exact_evicted: "index_exact s \<Longrightarrow> evicted s s' \<Longrightarrow> index_exact s'"
  unfolding index_exact_def evicted_def by (metis option.map_disc_iff)

text \<open>Whether or not the files can be removed, an eviction keeps what the cache promises of its index; the
  index stays exact when the object itself goes.\<close>

lemma store_ok_evict: "store_ok X s \<Longrightarrow> store_ok X (cache_evict rm_fails d s)"
  by (auto simp: store_ok_def cache_evict_def index_del_def remove_path_def try_remove_def)

lemma index_exact_evict: "index_exact s \<Longrightarrow> \<not> rm_fails (Final d) \<Longrightarrow> index_exact (cache_evict rm_fails d s)"
  by (simp add: index_exact_def cache_evict_def index_del_def remove_path_def try_remove_def)

lemma cache_get_exact:
  assumes "index_exact s" and "cache_get now d s = (p, s')"
  shows "index_exact s'"
proof (cases "kv_get (so_index s) d")
  case (Some e)
  from assms(1) have i: "map_option ce_size_bytes (kv_get (so_index s) d) = map_option length (so_files s (Final d))"
    by (simp add: index_exact_def)
  with Some obtain bs where "so_files s (Final d) = Some bs" "ce_size_bytes e = length bs" by (cases "so_files s (Final d)") auto
  with Some assms show ?thesis by (auto simp: cache_get_def index_exact_def Let_def)
qed (use assms in \<open>auto simp: cache_get_def\<close>)

lemma cache_get_ok:
  assumes "store_ok X s" and "cache_get now d s = (p, s')"
  shows "store_ok X s' \<and> (\<forall>q. p = Some q \<longrightarrow> q = Final d \<and> so_files s' q \<noteq> None)"
proof (cases "kv_get (so_index s) d")
  case (Some e)
  with assms(1) have "Some (ce_size_bytes e) = map_option length (so_files s (Final d))" by (simp add: store_ok_def)
  then obtain bs where "so_files s (Final d) = Some bs" "ce_size_bytes e = length bs" by (cases "so_files s (Final d)") auto
  with Some assms show ?thesis by (auto simp: cache_get_def store_ok_def Let_def split: if_splits)
qed (use assms in \<open>auto simp: cache_get_def\<close>)

lemma pull_from_mirror_spec:
  assumes "pull_from_mirror X rm_fails fetch url m s = (r, s')"
  shows "quiet s s' \<and> (r = Ok () \<longrightarrow> (\<exists>bs. so_files s' (Partial (mf_sha256 m)) = Some bs \<and>
    x_sha256 X bs = mf_sha256 m \<and> length bs = mf_size_bytes m))"
proof -
  define s1 where "s1 = (if file_len (Partial (mf_sha256 m)) s \<ge> mf_size_bytes m
      then remove_path (Partial (mf_sha256 m)) s else s)"
  have q1: "quiet s s1" by (simp add: s1_def)
  note d = assms[unfolded pull_from_mirror_def Let_def, folded s1_def]
  show ?thesis
  proof (cases "\<exists>status chunks. fetch url (file_len (Partial (mf_sha256 m)) s1) = HttpAnswer status chunks \<and>
      (status = 200 \<or> status = 206) \<and>
      \<not> (mf_size_bytes m \<le> file_len (Partial (mf_sha256 m)) s \<and>
         (so_files s (Partial (mf_sha256 m)) = None \<or> rm_fails (Partial (mf_sha256 m)))) \<and>
      \<not> (status = 200 \<and> file_len (Partial (mf_sha256 m)) s1 > 0 \<and> rm_fails (Partial (mf_sha256 m)))")
    case False
    with d q1 show ?thesis by (auto split: if_splits http_answer.splits)
  next
    case True
    then obtain status chunks where f: "fetch url (file_len (Partial (mf_sha256 m)) s1) = HttpAnswer status chunks"
      and st: "status = 200 \<or> status = 206"
        "\<not> (status = 200 \<and> file_len (Partial (mf_sha256 m)) s1 > 0 \<and> rm_fails (Partial (mf_sha256 m)))" by blast
    define s2 where "s2 = (if status = 200 \<and> file_len (Partial (mf_sha256 m)) s1 > 0
        then remove_path (Partial (mf_sha256 m)) s1 else s1)"
    have q2: "quiet s s2" using q1 by (auto simp: s2_def intro: quiet_trans)
    obtain c written where rc: "receive_chunks (mf_size_bytes m)
        (case so_files s2 (Partial (mf_sha256 m)) of Some bs \<Rightarrow> bs | None \<Rightarrow> []) chunks = (c, written)"
      by (metis surj_pair)
    let ?s3 = "set_path (Partial (mf_sha256 m)) written s2"
    have q3: "quiet s ?s3" "quiet s (try_remove rm_fails (Partial (mf_sha256 m)) ?s3)"
      using quiet_trans[OF q2] quiet_trans[OF quiet_trans[OF q2]] quiet_path quiet_try_remove by blast+
    have w: "so_files ?s3 (Partial (mf_sha256 m)) = Some written" by (simp add: set_path_def)
    show ?thesis using d True f st rc q3 w
      by (auto simp: s2_def [symmetric] split: result.splits if_splits)
  qed
qed

lemma try_mirrors_spec:
  assumes "try_mirrors X rm_fails fetch m le urls s = (r, s')"
  shows "quiet s s' \<and> (r = Ok () \<longrightarrow> (\<exists>bs. so_files s' (Staging (mf_sha256 m)) = Some bs \<and>
    x_sha256 X bs = mf_sha256 m \<and> length bs = mf_size_bytes m))"
  using assms
proof (induction urls arbitrary: s le)
  case (Cons url urls)
  obtain q s1 where p: "pull_from_mirror X rm_fails fetch url m s = (q, s1)" by (metis surj_pair)
  note spec = pull_from_mirror_spec[OF p]
  show ?case
  proof (cases q)
    case (Ok u)
    with Cons.prems p spec show ?thesis by (auto simp: quiet_def)
  next
    case (Err e)
    with Cons.IH[of "Some e" s1] Cons.prems p spec quiet_trans[of s s1 s'] show ?thesis by simp
  next
    case Panic
    with Cons.prems p spec show ?thesis by simp
  qed
qed auto

lemma validate_gguf_spec:
  assumes "validate_gguf rm_fails frames p m s = (r, s')"
  shows "(s' = s \<or> s' = cache_evict rm_fails (mf_sha256 m) s) \<and>
    (r = Ok () \<longrightarrow> s' = s \<and> (\<exists>bs h. so_files s p = Some bs \<and> parse_header frames bs = Ok h \<and>
       (gh_file_type h = None \<or> gh_file_type h = Some (gguf_file_type (mf_quant m)))))"
  using assms by (auto simp: validate_gguf_def split: option.splits result.splits if_splits)

lemma gc_for_evicted:
  assumes "gc_for rank rm_fails n s = (g, s1)"
  shows "evicted s s1"
  using assms gc_loop_spec[of rank rm_fails n 0 s g s1] by (auto simp: gc_for_def split: if_splits)

lemma cache_insert_ok:
  assumes "store_ok X s" and "so_files s (Staging d) = Some bs" and "x_sha256 X bs = d"
    and "cache_insert rank rm_fails now d (Staging d) s = (r, s')"
  shows "store_ok X s' \<and> (\<forall>p. r = Ok p \<longrightarrow> p = Final d \<and> so_files s' p = Some bs)"
proof -
  obtain g s1 where g: "gc_for rank rm_fails (length bs) s = (g, s1)" by (metis surj_pair)
  note ev = gc_for_evicted[OF g]
  have src: "so_files s1 (Staging d) = Some bs" using ev assms(2) by (simp add: evicted_def)
  have ok: "store_ok X s1" using store_ok_evicted[OF assms(1) ev] .
  show ?thesis
  proof (cases g)
    case (Ok f)
    with assms(2,4) g have r: "r = Ok (Final d)"
      and s': "s' = s1\<lparr>so_files := (so_files s1)(Staging d := None, Final d := Some bs),
          so_index := kv_put d \<lparr>ce_size_bytes = length bs, ce_last_used = now\<rparr> (so_index s1)\<rparr>"
      by (auto simp: cache_insert_def src)
    have "store_ok X s'" using ok assms(3) by (auto simp: s' store_ok_def)
    with r show ?thesis by (simp add: s')
  qed (use assms(2,4) g ok in \<open>auto simp: cache_insert_def\<close>)
qed

lemma cache_insert_exact:
  assumes "index_exact s" and "so_files s (Staging d) = Some bs"
    and "cache_insert rank rm_fails now d (Staging d) s = (r, s')"
  shows "index_exact s'"
proof -
  obtain g s1 where g: "gc_for rank rm_fails (length bs) s = (g, s1)" by (metis surj_pair)
  note ev = gc_for_evicted[OF g]
  have "so_files s1 (Staging d) = Some bs" using ev assms(2) by (simp add: evicted_def)
  with g assms(2,3) index_exact_evicted[OF assms(1) ev] show ?thesis
    by (cases g) (auto simp: cache_insert_def index_exact_def)
qed

lemma ensure_local_exact:
  assumes "index_exact s" and "\<forall>d. \<not> rm_fails (Final d)"
    and "ensure_local X frames fetch rank rm_fails reg now r s = (res, s')"
  shows "index_exact s'"
proof (cases "registry_resolve reg r")
  case (Ok m)
  note reg = this
  obtain c s1 where c: "cache_get now (mf_sha256 m) s = (c, s1)" by (metis surj_pair)
  note get = cache_get_exact[OF assms(1) c]
  have val: "index_exact t'" if "index_exact t" "validate_gguf rm_fails frames p m t = (v, t')" for p t v t'
    using validate_gguf_spec[OF that(2)] that(1) index_exact_evict assms(2) by auto
  show ?thesis
  proof (cases c)
    case (Some p)
    obtain v s2 where v: "validate_gguf rm_fails frames p m s1 = (v, s2)" by (metis surj_pair)
    with val[OF get v] assms(3) reg c Some show ?thesis by (auto simp: ensure_local_def split: result.splits)
  next
    case None
    obtain q s2 where q: "pull X rm_fails fetch m s1 = (q, s2)" by (metis surj_pair)
    note pl = try_mirrors_spec[OF q[unfolded pull_def]]
    have e2: "index_exact s2" using get pl index_exact_quiet by blast
    obtain v s3 where v: "validate_gguf rm_fails frames (Staging (mf_sha256 m)) m s2 = (v, s3)" by (metis surj_pair)
    note e3 = val[OF e2 v]
    show ?thesis
    proof (cases "q = Ok () \<and> v = Ok ()")
      case True
      with pl validate_gguf_spec[OF v] obtain bs where "so_files s3 (Staging (mf_sha256 m)) = Some bs" by auto
      moreover from True assms(3) reg c None q v
      have "cache_insert rank rm_fails now (mf_sha256 m) (Staging (mf_sha256 m)) s3 = (res, s')"
        by (simp add: ensure_local_def)
      ultimately show ?thesis using cache_insert_exact[OF e3] by blast
    qed (use assms(3) reg c None q v e2 e3 in \<open>auto simp: ensure_local_def split: result.splits\<close>)
  qed
qed (use assms in \<open>auto simp: ensure_local_def\<close>)

lemma ensure_local_spec:
  assumes "store_ok X s" and "ensure_local X frames fetch rank rm_fails reg now r s = (res, s')"
  shows "store_ok X s' \<and> (\<forall>p. res = Ok p \<longrightarrow> (\<exists>m bs h. registry_resolve reg r = Ok m \<and>
    p = Final (mf_sha256 m) \<and> so_files s' p = Some bs \<and> x_sha256 X bs = mf_sha256 m \<and>
    parse_header frames bs = Ok h \<and> (gh_file_type h = None \<or> gh_file_type h = Some (gguf_file_type (mf_quant m)))))"
proof (cases "registry_resolve reg r")
  case (Ok m)
  obtain c s1 where c: "cache_get now (mf_sha256 m) s = (c, s1)" by (metis surj_pair)
  note get = cache_get_ok[OF assms(1) c]
  show ?thesis
  proof (cases c)
    case (Some p)
    obtain v s2 where v: "validate_gguf rm_fails frames p m s1 = (v, s2)" by (metis surj_pair)
    note val = validate_gguf_spec[OF v]
    have ok2: "store_ok X s2" using get val store_ok_evict by auto
    show ?thesis
    proof (cases v)
      case (Ok u)
      with assms(2) \<open>registry_resolve reg r = Ok m\<close> c Some v have res: "res = Ok p" "s' = s2" "s2 = s1"
        using val by (auto simp: ensure_local_def)
      from val Ok obtain bs h where b: "so_files s1 p = Some bs" "parse_header frames bs = Ok h"
        "gh_file_type h = None \<or> gh_file_type h = Some (gguf_file_type (mf_quant m))" by auto
      have p: "p = Final (mf_sha256 m)" using get Some by simp
      with b(1) get have "x_sha256 X bs = mf_sha256 m" by (simp add: store_ok_def)
      with b p res get \<open>registry_resolve reg r = Ok m\<close> show ?thesis by auto
    qed (use assms(2) \<open>registry_resolve reg r = Ok m\<close> c Some v ok2 in \<open>auto simp: ensure_local_def\<close>)
  next
    case None
    obtain q s2 where q: "pull X rm_fails fetch m s1 = (q, s2)" by (metis surj_pair)
    note pl = try_mirrors_spec[OF q[unfolded pull_def]]
    have ok2: "store_ok X s2" using get pl store_ok_quiet by blast
    show ?thesis
    proof (cases q)
      case (Ok u)
      then obtain bs where b: "so_files s2 (Staging (mf_sha256 m)) = Some bs" "x_sha256 X bs = mf_sha256 m"
        using pl by auto
      obtain v s3 where v: "validate_gguf rm_fails frames (Staging (mf_sha256 m)) m s2 = (v, s3)" by (metis surj_pair)
      note val = validate_gguf_spec[OF v]
      have ok3: "store_ok X s3" using ok2 val store_ok_evict by auto
      show ?thesis
      proof (cases v)
        case (Ok w)
        with val b obtain h where h: "s3 = s2" "parse_header frames bs = Ok h"
          "gh_file_type h = None \<or> gh_file_type h = Some (gguf_file_type (mf_quant m))" by auto
        from Ok assms(2) \<open>registry_resolve reg r = Ok m\<close> c None q \<open>q = Ok u\<close> v
        have "cache_insert rank rm_fails now (mf_sha256 m) (Staging (mf_sha256 m)) s3 = (res, s')"
          by (simp add: ensure_local_def)
        from cache_insert_ok[OF ok3 _ b(2) this] b h \<open>registry_resolve reg r = Ok m\<close> show ?thesis by blast
      qed (use assms(2) \<open>registry_resolve reg r = Ok m\<close> c None q \<open>q = Ok u\<close> v ok3 in \<open>auto simp: ensure_local_def\<close>)
    qed (use assms(2) \<open>registry_resolve reg r = Ok m\<close> c None q ok2 in \<open>auto simp: ensure_local_def\<close>)
  qed
qed (use assms in \<open>auto simp: ensure_local_def\<close>)

text \<open>C14: Over a cache in which every object has the digest of its name and every entry of the index is
  a file of its size, a model that the manager hands out is the one of the registry: the file in its
  slot hashes to the digest of the manifest (of a cached file this is the name of its slot, which no
  operation breaks, and which is not checked again) and its header parses and does not contradict the
  quantisation. Whatever the mirrors answer, whichever files cannot be removed, and whether the call
  succeeds or not, the cache afterwards is again one of this kind; and if no object fails to be removed, an
  index that listed exactly the objects still does.\<close>

theorem local_model_is_the_registered_one:
  assumes "store_ok X s" and "ensure_local X frames fetch rank rm_fails reg now r s = (res, s')"
  shows "store_ok X s' \<and> (index_exact s \<and> (\<forall>d. \<not> rm_fails (Final d)) \<longrightarrow> index_exact s') \<and>
   (\<forall>p. res = Ok p \<longrightarrow> (\<exists>m bs h. registry_resolve reg r = Ok m \<and>
    p = Final (mf_sha256 m) \<and> so_files s' p = Some bs \<and> x_sha256 X bs = mf_sha256 m \<and>
    parse_header frames bs = Ok h \<and> (gh_file_type h = None \<or> gh_file_type h = Some (gguf_file_type (mf_quant m)))))"
  using ensure_local_spec[OF assms] ensure_local_exact[OF _ _ assms(2)] by blast

section \<open>Concrete stores\<close>

definition demo_store :: store where
  "demo_store = \<lparr>so_files = [Final 1 \<mapsto> replicate 6 0, Final 2 \<mapsto> replicate 3 0, Staging 9 \<mapsto> replicate 4 0],
     so_index = kv_put 1 \<lparr>ce_size_bytes = 6, ce_last_used = 5\<rparr> (kv_put 2 \<lparr>ce_size_bytes = 3, ce_last_used = 8\<rparr> kv_empty),
     so_max_bytes = 10\<rparr>"

lemma demo_cache_insert:
  "\<exists>s'. cache_insert (\<lambda>_. 0) (\<lambda>_. False) 20 9 (Staging 9) demo_store = (Ok (Final 9), s') \<and>
     kv_get (so_index s') 1 = None \<and> kv_get (so_index s') 2 = Some \<lparr>ce_size_bytes = 3, ce_last_used = 8\<rparr>"
  by (simp add: cache_insert_def demo_store_def gc_for_def gc_loop.simps lru_victim_def total_bytes_def kv_sum_def
      index_del_def remove_path_def)

theorem insertion_evicts_least_used_witness:
  "\<exists>s'. cache_insert (\<lambda>_. 0) (\<lambda>_. False) 20 9 (Staging 9) demo_store = (Ok (Final 9), s') \<and>
     so_files s' (Final 1) = None \<and> total_bytes s' \<le> 10 \<and> so_files s' (Final 9) = Some (replicate 4 0)"
proof -
  obtain s' where s': "cache_insert (\<lambda>_. 0) (\<lambda>_. False) 20 9 (Staging 9) demo_store = (Ok (Final 9), s')"
    "kv_get (so_index s') 1 = None" "kv_get (so_index s') 2 = Some \<lparr>ce_size_bytes = 3, ce_last_used = 8\<rparr>"
    using demo_cache_insert by blast
  have m: "so_max_bytes s' = 10" using s'(1) gc_loop_spec[of "\<lambda>_. 0" "\<lambda>_. False" 4 0 demo_store]
    by (auto simp: cache_insert_def demo_store_def gc_for_def evicted_def split: result.splits prod.splits)
  have d: "so_files demo_store (Staging 9) = Some (replicate 4 0)" "\<forall>d. Staging 9 \<noteq> Final d"
    "kv_get (so_index demo_store) 1 = Some \<lparr>ce_size_bytes = 6, ce_last_used = 5\<rparr>"
    by (simp_all add: demo_store_def)
  note t = insertion_evicts_least_used[OF s'(1) d(1,2), of "Final 9", THEN conjunct2, THEN mp, OF refl]
  have "so_files s' (Final 1) = None"
    using t[THEN conjunct2, THEN conjunct2, THEN conjunct2, rule_format, of 1 _ 2] d(3) s'(2,3) by simp
  with t m s'(1) show ?thesis by auto
qed

definition store_ext :: ext where
  "store_ext = demo_ext\<lparr>x_sha256 := (\<lambda>_. 7)\<rparr>"

definition demo_file_manifest :: model_file_manifest where
  "demo_file_manifest = \<lparr>mf_model_ref = demo_model, mf_mirrors = [''dead'', ''good''], mf_sha256 = 7,
     mf_size_bytes = length (gguf_build []), mf_quant = QF16\<rparr>"

definition demo_fetch :: "string \<Rightarrow> nat \<Rightarrow> http_answer" where
  "demo_fetch url offset = (if url = ''good'' then HttpAnswer 200 [Some (gguf_build [])] else NoResponse ''timeout'')"

definition empty_store :: store where
  "empty_store = \<lparr>so_files = (\<lambda>_. None), so_index = kv_empty, so_max_bytes = 1000\<rparr>"

lemma demo_pull:
  "\<exists>s'. ensure_local store_ext 1 demo_fetch (\<lambda>_. 0) (\<lambda>_. False) [model_ref_display demo_model \<mapsto> demo_file_manifest]
     3 demo_model empty_store = (Ok (Final 7), s')"
proof -
  have "length (gguf_build []) = 24" by (simp add: gguf_build_def GGUF_MAGIC_def str_bytes_def)
  moreover have "parse_header 1 (gguf_build []) = Ok \<lparr>gh_version = 3, gh_tensor_count = 0, gh_metadata_count = 0,
      gh_architecture = None, gh_file_type = None\<rparr>"
    using built_header_parses[of "[]" None None 0] calculation by (simp add: parse_header_def HEADER_READ_SIZE_def)
  ultimately show ?thesis
    by (simp add: ensure_local_def registry_resolve_def demo_file_manifest_def cache_get_def empty_store_def
        pull_def pull_from_mirror_def file_len_def demo_fetch_def set_path_def store_ext_def validate_gguf_def
        cache_insert_def gc_for_def gc_loop.simps total_bytes_def Let_def)
qed

theorem local_model_is_the_registered_one_witness:
  "\<exists>s' bs. ensure_local store_ext 1 demo_fetch (\<lambda>_. 0) (\<lambda>_. False) [model_ref_display demo_model \<mapsto> demo_file_manifest]
     3 demo_model empty_store = (Ok (Final 7), s') \<and> store_ok store_ext s' \<and>
     so_files s' (Final 7) = Some bs \<and> x_sha256 store_ext bs = 7 \<and> index_exact s'"
proof -
  obtain s' where e: "ensure_local store_ext 1 demo_fetch (\<lambda>_. 0) (\<lambda>_. False) [model_ref_display demo_model \<mapsto> demo_file_manifest]
     3 demo_model empty_store = (Ok (Final 7), s')" using demo_pull by blast
  have "store_ok store_ext empty_store" "index_exact empty_store"
    by (simp_all add: store_ok_def index_exact_def empty_store_def)
  with local_model_is_the_registered_one[OF this(1) e] e show ?thesis by auto
qed

end
