(* ===== verification/Sdk.thy ===== *)
theory Sdk
  imports Gguf ComputeNode
begin

text \<open>
  The client library (\<^verbatim>\<open>crates/sdk-rust/src\<close>): wallets and their key files (\<open>wallet.rs\<close>), session
  keys (\<open>session.rs\<close>), the candidate table filled from gossip (\<open>candidate_table.rs\<close>, \<open>discovery.rs\<close>),
  and the two operations of the client, inference and escrow (\<open>lib.rs\<close>). Sending a request to a peer
  is the argument \<open>send\<close> over a state of the mesh; the clock and fresh keys are arguments; the iteration
  order of a hash map is given by a \<open>rank\<close> of its keys.
\<close>

section \<open>Wallets\<close>

datatype sdk_error =
  SdkWallet string | NoWallet | SdkSession string | Discovery string | AllComputeNodesBusy | P2p string

record wallet =
  wa_key :: "256 word"
  wa_address :: address

definition derive_address :: "ext \<Rightarrow> crypto_ext \<Rightarrow> 256 word \<Rightarrow> address" where
  "derive_address X K sk = digest_address (x_blake3 X (pk_bytes (to_pubkey K sk)))"

definition wallet_from_seed :: "ext \<Rightarrow> crypto_ext \<Rightarrow> 256 word \<Rightarrow> wallet" where
  "wallet_from_seed X K seed = \<lparr>wa_key = seed, wa_address = derive_address X K seed\<rparr>"

definition wallet_save :: "crypto_ext \<Rightarrow> wallet \<Rightarrow> bytes" where
  "wallet_save K w = word_bytes (wa_key w) @ word_bytes (kx_public K (wa_key w))"

definition wallet_load :: "ext \<Rightarrow> crypto_ext \<Rightarrow> bytes \<Rightarrow> (sdk_error, wallet) result" where
  "wallet_load X K data =
     (if length data \<noteq> 64 then Err (SdkWallet ''wallet file must be 64 bytes'')
      else let secret = word_rcat (take 32 data) :: 256 word
      in if drop 32 data \<noteq> word_bytes (kx_public K secret)
         then Err (SdkWallet ''stored public key does not match secret key'')
         else Ok \<lparr>wa_key = secret, wa_address = derive_address X K secret\<rparr>)"

definition wallet_sign :: "crypto_ext \<Rightarrow> wallet \<Rightarrow> bytes \<Rightarrow> sig" where
  "wallet_sign K w msg = sign_bytes K (wa_key w) msg"

definition wallet_public_key :: "crypto_ext \<Rightarrow> wallet \<Rightarrow> pubkey" where
  "wallet_public_key K w = to_pubkey K (wa_key w)"

section \<open>Session keys\<close>

record session_key =
  sk_signing_key :: "256 word"
  sk_cert :: delegation_cert
  sk_spent :: amount

definition session_create ::
    "crypto_ext \<Rightarrow> infer_ext \<Rightarrow> wallet \<Rightarrow> 256 word \<Rightarrow> timestamp \<Rightarrow> amount \<Rightarrow> nat \<Rightarrow> (sdk_error, session_key) result" where
  "session_create K I w fresh_key now_ms spending_limit expiry =
     rbind (uadd 64 now_ms (ucastn 64 expiry)) (\<lambda>expiry_ms.
     let session_pubkey = to_pubkey K fresh_key;
         cert = \<lparr>dc_session_pubkey = session_pubkey, dc_spending_limit = spending_limit, dc_expiry_ms = expiry_ms,
                 dc_main_address = wa_address w, dc_main_pubkey = wallet_public_key K w,
                 dc_main_signature = wallet_sign K w (ix_borsh_delegation I
                   \<lparr>db_domain = DELEGATION_DOMAIN, db_session_pubkey = session_pubkey,
                    db_spending_limit = spending_limit, db_expiry_ms = expiry_ms,
                    db_main_address = wa_address w\<rparr>)\<rparr>
     in Ok \<lparr>sk_signing_key = fresh_key, sk_cert = cert, sk_spent = 0\<rparr>)"

definition session_sign :: "crypto_ext \<Rightarrow> session_key \<Rightarrow> bytes \<Rightarrow> sig" where
  "session_sign K s msg = sign_bytes K (sk_signing_key s) msg"

definition session_public_key :: "crypto_ext \<Rightarrow> session_key \<Rightarrow> pubkey" where
  "session_public_key K s = to_pubkey K (sk_signing_key s)"

definition session_expired :: "session_key \<Rightarrow> timestamp \<Rightarrow> bool" where
  "session_expired s now_ms \<longleftrightarrow> now_ms > dc_expiry_ms (sk_cert s)"

definition record_spend :: "amount \<Rightarrow> session_key \<Rightarrow> (sdk_error, session_key) result" where
  "record_spend amount s =
     rbind (uadd 128 (sk_spent s) amount) (\<lambda>new_total.
       if new_total > dc_spending_limit (sk_cert s) then Err (SdkSession ''spending limit exceeded'')
       else Ok (s\<lparr>sk_spent := new_total\<rparr>))"

definition remaining_limit :: "session_key \<Rightarrow> amount" where
  "remaining_limit s = sat_sub (dc_spending_limit (sk_cert s)) (sk_spent s)"

section \<open>The candidate table\<close>

record candidate_entry =
  cd_peer_id_bytes :: bytes
  cd_model_refs :: "string list"
  cd_operator :: address
  cd_total_stake :: amount
  cd_supports_tee :: bool
  cd_timestamp_ms :: timestamp
  cd_available_slots :: nat

type_synonym candidate_table = "(bytes, candidate_entry) kv"

definition table_upsert :: "candidate_entry \<Rightarrow> candidate_table \<Rightarrow> candidate_table" where
  "table_upsert e t = kv_put (cd_peer_id_bytes e) e t"

definition capacity_le :: "candidate_entry \<Rightarrow> candidate_entry \<Rightarrow> bool" where
  "capacity_le a b \<longleftrightarrow> cd_available_slots b < cd_available_slots a \<or>
     (cd_available_slots b = cd_available_slots a \<and> cd_total_stake b \<le> cd_total_stake a)"

interpretation capacity: comparison capacity_le
  by unfold_locales (auto simp: capacity_le_def)

definition table_eligible :: "(bytes \<Rightarrow> nat) \<Rightarrow> candidate_table \<Rightarrow> string \<Rightarrow> timestamp \<Rightarrow> candidate_entry list" where
  "table_eligible rank t model now_ms =
     sort_by capacity_le
       (filter (\<lambda>c. sat_sub now_ms (cd_timestamp_ms c) \<le> CANDIDATE_TTL_MS \<and>
                    list_ex (\<lambda>m. m = model) (cd_model_refs c))
         (map snd (sort_key (rank \<circ> fst) (kv_entries t))))"

text \<open>A message of the gossip mesh; \<open>decode_offer\<close> is the borsh decoder.\<close>

definition on_offer :: "(bytes \<Rightarrow> pool_offer option) \<Rightarrow> string \<Rightarrow> bytes \<Rightarrow> candidate_table \<Rightarrow> candidate_table" where
  "on_offer decode_offer topic data t =
     (if topic \<noteq> topic_pool_offer then t
      else case decode_offer data of
        None \<Rightarrow> t
      | Some o1 \<Rightarrow> table_upsert
          \<lparr>cd_peer_id_bytes = po_peer_id o1, cd_model_refs = po_model_refs o1, cd_operator = po_operator o1,
           cd_total_stake = po_total_stake o1, cd_supports_tee = po_supports_tee o1,
           cd_timestamp_ms = po_timestamp_ms o1, cd_available_slots = po_available_slots o1\<rparr> t)"

section \<open>The client\<close>

record client =
  cl_wallet :: "wallet option"
  cl_session :: "session_key option"

record user_request =
  ur_model :: string
  ur_prompt :: bytes
  ur_max_tokens :: nat
  ur_model_hash :: "hash256 option"
  ur_seed :: "nat option"
  ur_deterministic :: bool
  ur_stop_strings :: "bytes list"
  ur_prefer_tee :: bool
  ur_max_retries :: "nat option"

definition signing_identity ::
    "crypto_ext \<Rightarrow> client \<Rightarrow> timestamp \<Rightarrow> (sdk_error, pubkey \<times> delegation_cert option) result" where
  "signing_identity K cl now_ms =
     (case cl_session cl of
        Some s \<Rightarrow> if session_expired s now_ms then Err (SdkSession ''session key expired'')
                  else Ok (session_public_key K s, Some (sk_cert s))
      | None \<Rightarrow> (case cl_wallet cl of Some w \<Rightarrow> Ok (wallet_public_key K w, None) | None \<Rightarrow> Err NoWallet))"

definition client_sign :: "crypto_ext \<Rightarrow> client \<Rightarrow> bytes \<Rightarrow> (sdk_error, sig) result" where
  "client_sign K cl msg =
     (case cl_session cl of
        Some s \<Rightarrow> Ok (session_sign K s msg)
      | None \<Rightarrow> (case cl_wallet cl of Some w \<Rightarrow> Ok (wallet_sign K w msg) | None \<Rightarrow> Err NoWallet))"

definition build_request ::
    "crypto_ext \<Rightarrow> infer_ext \<Rightarrow> client \<Rightarrow> user_request \<Rightarrow> timestamp \<Rightarrow> (sdk_error, infer_request) result" where
  "build_request K I cl req now_ms =
     rbind (signing_identity K cl now_ms) (\<lambda>(pk, delegation).
     let unsigned = \<lparr>rq_model_ref = ur_model req,
           rq_model_hash = (case ur_model_hash req of Some h \<Rightarrow> h | None \<Rightarrow> 0), rq_prompt = ur_prompt req,
           rq_max_tokens = ur_max_tokens req, rq_seed = (case ur_seed req of Some s \<Rightarrow> s | None \<Rightarrow> 0),
           rq_deterministic = ur_deterministic req, rq_stop_strings = ur_stop_strings req, rq_nonce = now_ms,
           rq_timestamp_ms = now_ms, rq_user_pubkey = pk, rq_signature = zero_sig,
           rq_prefer_tee = ur_prefer_tee req, rq_encrypted_prompt = None, rq_delegation = delegation\<rparr>
     in rbind (client_sign K cl (signing_bytes I unsigned)) (\<lambda>sg. Ok (unsigned\<lparr>rq_signature := sg\<rparr>)))"

definition is_busy :: "job_event \<Rightarrow> bool" where
  "is_busy e \<longleftrightarrow> (case e of Busy j \<Rightarrow> True | _ \<Rightarrow> False)"

text \<open>The loop over the candidates; \<open>decode_events\<close> decodes an answer as a list of events.\<close>

fun try_peers ::
    "(bytes \<Rightarrow> job_event list option) \<Rightarrow> (bytes \<Rightarrow> bool) \<Rightarrow> (bytes \<Rightarrow> bytes \<Rightarrow> 'w \<Rightarrow> (sdk_error, bytes) result \<times> 'w) \<Rightarrow>
     bytes \<Rightarrow> candidate_entry list \<Rightarrow> 'w \<Rightarrow> (sdk_error, bytes) result \<times> 'w" where
  "try_peers decode_events peer_ok send data [] w = (Err AllComputeNodesBusy, w)"
| "try_peers decode_events peer_ok send data (c # cs) w =
     (if \<not> peer_ok (cd_peer_id_bytes c) then try_peers decode_events peer_ok send data cs w
      else case send (cd_peer_id_bytes c) data w of
        (Ok resp, w1) \<Rightarrow>
          (case decode_events resp of
             Some events \<Rightarrow> if list_ex is_busy events then try_peers decode_events peer_ok send data cs w1
                             else (Ok resp, w1)
           | None \<Rightarrow> (Ok resp, w1))
      | (Err e, w1) \<Rightarrow> try_peers decode_events peer_ok send data cs w1
      | (Panic, w1) \<Rightarrow> (Panic, w1))"

definition client_infer ::
    "crypto_ext \<Rightarrow> infer_ext \<Rightarrow> (bytes \<Rightarrow> job_event list option) \<Rightarrow> (bytes \<Rightarrow> bool) \<Rightarrow>
     (bytes \<Rightarrow> bytes \<Rightarrow> 'w \<Rightarrow> (sdk_error, bytes) result \<times> 'w) \<Rightarrow> (bytes \<Rightarrow> nat) \<Rightarrow> candidate_table \<Rightarrow> client \<Rightarrow>
     user_request \<Rightarrow> timestamp \<Rightarrow> 'w \<Rightarrow> (sdk_error, bytes) result \<times> 'w" where
  "client_infer K I decode_events peer_ok send rank t cl req now_ms w =
     (case build_request K I cl req now_ms of
        Err e \<Rightarrow> (Err e, w)
      | Panic \<Rightarrow> (Panic, w)
      | Ok job_req \<Rightarrow>
         (let data = ix_borsh_request I job_req; candidates = table_eligible rank t (ur_model req) now_ms
          in if candidates = [] then (Err (Discovery ''no compute nodes serving model''), w)
             else let max_retries = min (case ur_max_retries req of Some n \<Rightarrow> n | None \<Rightarrow> 3)
                                        (ucastn 32 (length candidates))
             in try_peers decode_events peer_ok send data (take max_retries candidates) w))"

definition escrow_job_id :: "ext \<Rightarrow> infer_request \<Rightarrow> job_id" where
  "escrow_job_id X r = x_blake3 X (JOB_ID_DOMAIN @ word_bytes (billing_address X r) @ u64_le_bytes (rq_nonce r) @
     u64_le_bytes (rq_timestamp_ms r))"

definition submit_escrow ::
    "ext \<Rightarrow> crypto_ext \<Rightarrow> client \<Rightarrow> infer_request \<Rightarrow> amount \<Rightarrow> (sdk_error, signed_transaction \<times> (string \<times> bytes) list) result" where
  "submit_escrow X K cl job_req amount =
     (case cl_wallet cl of
        None \<Rightarrow> Err NoWallet
      | Some w \<Rightarrow>
          let tx = EscrowLock (billing_address X job_req) (escrow_job_id X job_req) amount (rq_nonce job_req) 21000;
              stx = \<lparr>stx_tx = tx, stx_signer = wallet_public_key K w,
                     stx_signature = wallet_sign K w (x_borsh_tx X tx)\<rparr>
          in Ok (stx, [(topic_tx_mempool, x_borsh_stx X stx)]))"

section \<open>Wallet files\<close>

lemma wallet_load_Ok_iff:
  "wallet_load X K data = Ok w \<longleftrightarrow> length data = 64 \<and> drop 32 data = word_bytes (kx_public K (word_rcat (take 32 data))) \<and>
     w = wallet_from_seed X K (word_rcat (take 32 data))"
  by (auto simp: wallet_load_def wallet_from_seed_def Let_def)

lemma digit_unique:
  fixes a b m n :: nat
  assumes "a + 256 * m = b + 256 * n" "a < 256" "b < 256"
  shows "a = b \<and> m = n"
proof -
  have "a = (a + 256 * m) mod 256" "b = (b + 256 * n) mod 256" using assms(2,3) by simp_all
  with assms(1) have "a = b" by simp
  with assms(1) show ?thesis by simp
qed

lemma word_bytes_word_rcat:
  assumes "length bs = 32"
  shows "word_bytes (word_rcat bs :: 256 word) = bs"
proof -
  have "le_nat bs' < 256 ^ length bs'" for bs'
  proof (induction bs')
    case (Cons b bs')
    have "unat b < 256" using unsigned_less[of b] by simp
    with Cons show ?case by simp
  qed simp
  from this[of "rev bs"] have lt: "le_nat (rev bs) < 2 ^ 256" using assms by simp
  let ?w = "word_rcat bs :: 256 word"
  have "?w = of_nat (le_nat (rev bs))" by (simp add: word_rcat_def horner_le_nat)
  then have "unat ?w = le_nat (rev bs)" using lt by (simp add: unat_of_nat)
  then have eq: "le_nat (rev (word_bytes ?w)) = le_nat (rev bs)" using le_nat_word_bytes[of ?w] by simp
  have unique: "xs = ys" if "length xs = length ys" "le_nat xs = le_nat ys" for xs ys :: bytes
    using that
  proof (induction xs ys rule: list_induct2)
    case (Cons x xs y ys)
    have "unat x < 256" "unat y < 256" using unsigned_less[of x] unsigned_less[of y] by simp_all
    with Cons.prems digit_unique[of "unat x" "le_nat xs" "unat y" "le_nat ys"]
    have "unat x = unat y" "le_nat xs = le_nat ys" by simp_all
    with Cons.IH show ?case by (simp add: word_unat_eq_iff)
  qed simp
  have "rev (word_bytes ?w) = rev bs" by (rule unique) (use eq assms in simp_all)
  then show ?thesis by simp
qed

text \<open>What the engine of the node is asked for.\<close>

definition llm_request_of :: "user_request \<Rightarrow> llm_request" where
  "llm_request_of req =
     \<lparr>lr_prompt = ur_prompt req, lr_max_tokens = ur_max_tokens req, lr_deterministic = ur_deterministic req,
      lr_sampling = (if ur_deterministic req then Greedy
                     else Seeded (case ur_seed req of Some s \<Rightarrow> s | None \<Rightarrow> 0)),
      lr_stop = ur_stop_strings req\<rparr>"

text \<open>A saved wallet loads as the same wallet, with the address of its key; and every file that loads
  is the file that the loaded wallet saves, so a file with a public key that is not the key's, or of
  another length, is refused.\<close>

theorem wallet_file_roundtrip:
  "wallet_load X K (wallet_save K (wallet_from_seed X K seed)) = Ok (wallet_from_seed X K seed) \<and>
   (\<forall>w. wallet_load X K data = Ok w \<longleftrightarrow> length data = 64 \<and> data = wallet_save K w \<and> w = wallet_from_seed X K (wa_key w))"
proof -
  have rt: "wallet_load X K (wallet_save K (wallet_from_seed X K k)) = Ok (wallet_from_seed X K k)" for k
    by (simp add: wallet_load_Ok_iff wallet_save_def wallet_from_seed_def word_rcat_word_bytes)
  have "length data = 64 \<and> data = wallet_save K w \<and> w = wallet_from_seed X K (wa_key w)"
    if l: "wallet_load X K data = Ok w" for w
  proof -
    from l have d: "length data = 64" "drop 32 data = word_bytes (kx_public K (word_rcat (take 32 data)))"
      and w: "w = wallet_from_seed X K (word_rcat (take 32 data))"
      by (simp_all only: wallet_load_Ok_iff)
    have "word_bytes (word_rcat (take 32 data) :: 256 word) = take 32 data"
      using d(1) by (intro word_bytes_word_rcat) simp
    moreover have "wallet_save K w = word_bytes (word_rcat (take 32 data) :: 256 word) @ drop 32 data"
      by (simp only: w wallet_save_def wallet_from_seed_def wallet.simps d(2)[symmetric])
    ultimately have "data = wallet_save K w" by (simp only: append_take_drop_id)
    moreover have "wallet_from_seed X K (wa_key w) = w" by (simp only: w) (simp only: wallet_from_seed_def wallet.simps)
    ultimately show ?thesis using d(1) by (intro conjI) (assumption | rule sym)+
  qed
  with rt show ?thesis by metis
qed

section \<open>Requests as compute nodes see them\<close>

lemma signing_bytes_unsigned [simp]: "signing_bytes I (r\<lparr>rq_signature := s\<rparr>) = signing_bytes I r"
  by (simp add: signing_bytes_def)

lemma build_request_Ok:
  assumes "build_request K I cl req now = Ok r"
  obtains pk delegation sk where "signing_identity K cl now = Ok (pk, delegation)"
    "rq_user_pubkey r = pk" "pk = to_pubkey K sk" "rq_delegation r = delegation"
    "rq_signature r = sign_bytes K sk (signing_bytes I r)"
    "rq_prompt r = ur_prompt req" "rq_max_tokens r = ur_max_tokens req" "rq_timestamp_ms r = now" "rq_nonce r = now"
    "rq_prefer_tee r = ur_prefer_tee req" "rq_encrypted_prompt r = None" "rq_model_ref r = ur_model req"
    "inference_request_of r (ur_prompt req) = llm_request_of req"
proof -
  from assms obtain pk delegation where id: "signing_identity K cl now = Ok (pk, delegation)"
    by (auto simp: build_request_def rbind_Ok_iff)
  define u where "u = \<lparr>rq_model_ref = ur_model req,
           rq_model_hash = (case ur_model_hash req of Some h \<Rightarrow> h | None \<Rightarrow> 0), rq_prompt = ur_prompt req,
           rq_max_tokens = ur_max_tokens req, rq_seed = (case ur_seed req of Some s \<Rightarrow> s | None \<Rightarrow> 0),
           rq_deterministic = ur_deterministic req, rq_stop_strings = ur_stop_strings req, rq_nonce = now,
           rq_timestamp_ms = now, rq_user_pubkey = pk, rq_signature = zero_sig,
           rq_prefer_tee = ur_prefer_tee req, rq_encrypted_prompt = None, rq_delegation = delegation\<rparr>"
  from id obtain sk where sk: "pk = to_pubkey K sk" "\<And>msg. client_sign K cl msg = Ok (sign_bytes K sk msg)"
    by (auto simp: signing_identity_def client_sign_def session_public_key_def wallet_public_key_def
        session_sign_def wallet_sign_def split: option.splits if_splits)
  have r: "r = u\<lparr>rq_signature := sign_bytes K sk (signing_bytes I u)\<rparr>"
    using assms by (simp add: build_request_def id sk(2) Let_def) (simp add: u_def)
  show thesis
    by (rule that[OF id _ sk(1)]) (simp_all only: r signing_bytes_unsigned,
      simp_all add: u_def inference_request_of_def llm_request_of_def)
qed

text \<open>The signer of a client: its wallet, or a session key that a wallet authorised.\<close>

definition client_of :: "ext \<Rightarrow> crypto_ext \<Rightarrow> infer_ext \<Rightarrow> client \<Rightarrow> wallet \<Rightarrow> timestamp \<Rightarrow> bool" where
  "client_of X K I cl w t \<longleftrightarrow> w = wallet_from_seed X K (wa_key w) \<and>
     (case cl_session cl of
        None \<Rightarrow> cl_wallet cl = Some w
      | Some s \<Rightarrow> (\<exists>k created limit expiry. session_create K I w k created limit expiry = Ok s) \<and>
                  t \<le> dc_expiry_ms (sk_cert s))"

lemma session_create_Ok:
  assumes "session_create K I w k created limit expiry = Ok s"
  shows "sk_signing_key s = k" "dc_session_pubkey (sk_cert s) = to_pubkey K k"
    "dc_main_address (sk_cert s) = wa_address w" "dc_main_pubkey (sk_cert s) = wallet_public_key K w"
    "dc_expiry_ms (sk_cert s) = created + ucastn 64 expiry" "sk_spent s = 0" "dc_spending_limit (sk_cert s) = limit"
    "dc_main_signature (sk_cert s) = wallet_sign K w (delegation_signing_bytes I (sk_cert s))"
  using assms by (auto simp: session_create_def rbind_Ok_iff uadd_Ok_iff delegation_signing_bytes_def Let_def)

lemma session_cert_verifies:
  assumes "sound_keys K" "w = wallet_from_seed X K (wa_key w)"
    and "session_create K I w k created limit expiry = Ok s"
  shows "verify_delegation X K I (sk_cert s) t = Ok () \<longleftrightarrow> t \<le> dc_expiry_ms (sk_cert s)"
proof -
  note c = session_create_Ok[OF assms(3)]
  have "wa_address w = derive_address X K (wa_key w)" by (subst assms(2)) (simp add: wallet_from_seed_def)
  with c signed_verifies[OF assms(1), of "wa_key w" "delegation_signing_bytes I (sk_cert s)"] show ?thesis
    by (simp add: verify_delegation_Ok_iff wallet_public_key_def wallet_sign_def derive_address_def derive_user_address_def)
qed

lemma built_request_verifies:
  assumes "sound_keys K" and "client_of X K I cl w t" and "build_request K I cl req now = Ok r"
    and "contains_window INFERENCE_REQUEST_DOMAIN (signing_bytes I r)"
    and "ur_prompt req \<noteq> []" "ur_max_tokens req \<noteq> 0" "\<not> ur_prefer_tee req" "t \<le> now + REQUEST_MAX_SKEW_MS"
  shows "verify_request X K I r t = Ok () \<and> billing_address X r = wa_address w"
  using assms(3)
proof (rule build_request_Ok)
  fix pk delegation sk
  assume a: "signing_identity K cl now = Ok (pk, delegation)"
    "rq_user_pubkey r = pk" "pk = to_pubkey K sk" "rq_delegation r = delegation"
    "rq_signature r = sign_bytes K sk (signing_bytes I r)"
    "rq_prompt r = ur_prompt req" "rq_max_tokens r = ur_max_tokens req" "rq_timestamp_ms r = now" "rq_nonce r = now"
    "rq_prefer_tee r = ur_prefer_tee req" "rq_encrypted_prompt r = None" "rq_model_ref r = ur_model req"
    "inference_request_of r (ur_prompt req) = llm_request_of req"
  have sig: "verify_sig K (rq_user_pubkey r) (signing_bytes I r) (rq_signature r) = Ok ()"
    using signed_verifies[OF assms(1)] a(2,3,5) by simp
  have w: "w = wallet_from_seed X K (wa_key w)" using assms(2) by (simp add: client_of_def)
  have "(\<forall>cert. delegation = Some cert \<longrightarrow> dc_session_pubkey cert = pk \<and> verify_delegation X K I cert t = Ok ()) \<and>
      billing_address X r = wa_address w"
  proof (cases "cl_session cl")
    case None
    then have "cl_wallet cl = Some w" using assms(2) by (simp add: client_of_def)
    with None a(1) have d: "delegation = None" "pk = to_pubkey K (wa_key w)"
      by (auto simp: signing_identity_def wallet_public_key_def)
    have "wa_address w = derive_address X K (wa_key w)" by (subst w) (simp add: wallet_from_seed_def)
    with d a(2,4) show ?thesis
      by (simp add: billing_address_def derive_user_address_def derive_address_def)
  next
    case (Some s)
    then obtain k created limit expiry where c: "session_create K I w k created limit expiry = Ok s"
      "t \<le> dc_expiry_ms (sk_cert s)" using assms(2) by (auto simp: client_of_def)
    from Some a(1) have d: "delegation = Some (sk_cert s)" "pk = to_pubkey K (sk_signing_key s)"
      by (auto simp: signing_identity_def session_public_key_def split: if_splits)
    with c session_cert_verifies[OF assms(1) w c(1), of t] session_create_Ok[OF c(1)] a(4) show ?thesis
      by (simp add: billing_address_def)
  qed
  with sig a assms(4-8) show ?thesis by (simp add: verify_request_Ok_iff)
qed

text \<open>A request built with a session key is accepted by every node whose clock is not ahead by more
  than the skew, until the session expires, and it is billed to the wallet that created the session; the
  certificate itself is accepted at every time up to its expiry and at no later one. Nothing that a node
  or a router checks looks at the spending limit.\<close>

theorem session_request_bills_wallet:
  assumes "sound_keys K" and "session_create K I (wallet_from_seed X K seed) fresh created limit expiry = Ok s"
    and "build_request K I \<lparr>cl_wallet = None, cl_session = Some s\<rparr> req now = Ok r"
    and "contains_window INFERENCE_REQUEST_DOMAIN (signing_bytes I r)"
    and "ur_prompt req \<noteq> []" "ur_max_tokens req \<noteq> 0" "\<not> ur_prefer_tee req"
  shows "(\<forall>t. t \<le> now + REQUEST_MAX_SKEW_MS \<and> t \<le> created + ucastn 64 expiry \<longrightarrow>
       verify_request X K I r t = Ok () \<and> billing_address X r = wa_address (wallet_from_seed X K seed)) \<and>
    (\<forall>t. verify_delegation X K I (sk_cert s) t = Ok () \<longleftrightarrow> t \<le> created + ucastn 64 expiry)"
proof -
  let ?w = "wallet_from_seed X K seed"
  have w: "?w = wallet_from_seed X K (wa_key ?w)" by (simp add: wallet_from_seed_def)
  have e: "dc_expiry_ms (sk_cert s) = created + ucastn 64 expiry" using session_create_Ok[OF assms(2)] by simp
  have "client_of X K I \<lparr>cl_wallet = None, cl_session = Some s\<rparr> ?w t" if "t \<le> created + ucastn 64 expiry" for t
    using that assms(2) e w by (auto simp: client_of_def)
  with built_request_verifies[OF assms(1) _ assms(3,4,5,6,7)] session_cert_verifies[OF assms(1) w assms(2)] e
  show ?thesis by metis
qed


definition demo_user_request :: user_request where
  "demo_user_request = \<lparr>ur_model = ''o/m-F16'', ur_prompt = [1], ur_max_tokens = 4, ur_model_hash = None,
     ur_seed = None, ur_deterministic = False, ur_stop_strings = [], ur_prefer_tee = False, ur_max_retries = None\<rparr>"

theorem session_request_bills_wallet_witness:
  "\<exists>s r. session_create demo_crypto demo_infer (wallet_from_seed demo_ext demo_crypto 3) 4 1000 50 60000 = Ok s \<and>
     build_request demo_crypto demo_infer \<lparr>cl_wallet = None, cl_session = Some s\<rparr> demo_user_request 2000 = Ok r \<and>
     verify_request demo_ext demo_crypto demo_infer r 30000 = Ok () \<and>
     billing_address demo_ext r = wa_address (wallet_from_seed demo_ext demo_crypto 3) \<and>
     verify_delegation demo_ext demo_crypto demo_infer (sk_cert s) 61001 \<noteq> Ok ()"
proof -
  have k: "sound_keys demo_crypto" by (simp add: sound_keys_def demo_crypto_def)
  obtain s where s: "session_create demo_crypto demo_infer (wallet_from_seed demo_ext demo_crypto 3) 4 1000 50 60000 = Ok s"
    by (simp add: session_create_def uadd_def Let_def ucastn_def)
  have "dc_expiry_ms (sk_cert s) = 61000" using session_create_Ok(5)[OF s] by (simp add: ucastn_def)
  then obtain r where r: "build_request demo_crypto demo_infer \<lparr>cl_wallet = None, cl_session = Some s\<rparr>
      demo_user_request 2000 = Ok r"
    by (simp add: build_request_def signing_identity_def client_sign_def session_expired_def Let_def)
  have "contains_window INFERENCE_REQUEST_DOMAIN (signing_bytes demo_infer r)"
    by (simp add: signing_bytes_def demo_infer_def contains_window_def)
  from session_request_bills_wallet[OF k s r this] s r show ?thesis
    by (auto simp: demo_user_request_def REQUEST_MAX_SKEW_MS_def ucastn_def)
qed

section \<open>The client and a compute node\<close>

text \<open>A mesh whose only node is \<open>net\<close>: a request addressed to it is handled and its reply, if there is
  one, comes back; everything else ends in a failure of the transport. The state is the node's runner.\<close>

definition mesh_send ::
    "ext \<Rightarrow> crypto_ext \<Rightarrow> infer_ext \<Rightarrow> aead_ext \<Rightarrow> llm_ext \<Rightarrow> node_net \<Rightarrow> timestamp \<Rightarrow> timestamp \<Rightarrow> timestamp \<Rightarrow>
     bytes \<Rightarrow> bytes \<Rightarrow> runner \<Rightarrow> (sdk_error, bytes) result \<times> runner" where
  "mesh_send X K I A L net t now end_ms peer data r =
     (if peer \<noteq> nn_peer_id net then (Err (P2p ''unreachable''), r)
      else case handle_inference_request X K I A L (Some net) data t now end_ms r of
        Ok (out, r') \<Rightarrow>
          (case no_reply out of Some wire \<Rightarrow> (Ok wire, r') | None \<Rightarrow> (Err (P2p ''no answer''), r'))
      | _ \<Rightarrow> (Err (P2p ''no answer''), r))"

lemma rfold_count_token:
  "n + length raws < 2 ^ 32 \<Longrightarrow> \<exists>m. rfold (count_token I) raws n = Ok m"
proof (induction raws arbitrary: n)
  case (Cons raw raws)
  have "\<exists>m. count_token I raw n = Ok m \<and> m + length raws < 2 ^ 32"
    using Cons.prems by (auto simp: uadd_def split: option.splits job_event.splits)
  with Cons.IH show ?case by (auto simp: rbind_Ok_iff)
qed simp

lemma length_bridge_events: "length (fst (bridge_events X job items c n)) = length items"
  by (induction X job items c n rule: bridge_events.induct) (simp_all add: Let_def case_prod_beta)

lemma handled_request_is_answered:
  assumes "verify_request X K I req t = Ok ()" and "ix_unborsh_request I data = Some req"
    and "rq_encrypted_prompt req = None" and "now \<le> rq_timestamp_ms req + REQUEST_MAX_SKEW_MS"
    and "job_key X req \<notin> set (rn_nonces r)" and "model_ref_parse (rq_model_ref req) = Ok m"
    and "lx_load L m = Ok h" and "lx_infer L h (inference_request_of req (rq_prompt req)) = Ok items"
    and "length items < 2 ^ 32" and "\<And>wire. nn_respond net wire"
  shows "\<exists>job out r'. handle_inference_request X K I A L (Some net) data t now end_ms r = Ok (out, r') \<and>
     no_reply out = Some (ix_borsh_response I (map (ix_borsh_event I) (fst (bridge_events X job items (chain_new X) 0))))"
proof -
  let ?job = "mint_job_id X req now"
  let ?evs = "fst (bridge_events X ?job items (chain_new X) 0)"
  have "rq_prompt req \<noteq> []" "rq_max_tokens req \<noteq> 0" using assms(1,3) by (auto simp: verify_request_Ok_iff)
  then have "\<exists>r'. run_job X A L req m ?job now r = (Ok ?evs, r')"
    using assms(3-8) by (simp add: run_job_def decrypt_prompt_def sat_sub_def nonce_insert_def Let_def)
  moreover obtain k where "rfold (count_token I) (map (ix_borsh_event I) ?evs) 0 = Ok k"
    using rfold_count_token[of 0 "map (ix_borsh_event I) ?evs" I] assms(9) by (auto simp: length_bridge_events)
  ultimately show ?thesis using assms(1,2,6,10)
    by (auto simp: handle_inference_request_def Let_def)
qed

lemma client_of_mono: "client_of X K I cl w t \<Longrightarrow> t' \<le> t \<Longrightarrow> client_of X K I cl w t'"
  by (auto simp: client_of_def split: option.splits)

lemma build_request_of_client:
  assumes "client_of X K I cl w now"
  shows "\<exists>r. build_request K I cl req now = Ok r"
  using assms
  by (auto simp: client_of_def build_request_def signing_identity_def client_sign_def session_expired_def Let_def
      split: option.splits)

text \<open>What the client does with an answer: an answer that its decoder reads as a list of events with a \<open>Busy\<close>
  in it is passed over for the next candidate.\<close>

definition reads_busy :: "(bytes \<Rightarrow> job_event list option) \<Rightarrow> bytes \<Rightarrow> bool" where
  "reads_busy decode_events wire \<longleftrightarrow> (\<exists>evs. decode_events wire = Some evs \<and> list_ex is_busy evs)"

lemma try_peers_first:
  assumes "peer_ok (cd_peer_id_bytes c)" and "send (cd_peer_id_bytes c) data w = (Ok wire, w1)"
  shows "try_peers decode_events peer_ok send data (c # cs) w =
    (if reads_busy decode_events wire then try_peers decode_events peer_ok send data cs w1 else (Ok wire, w1))"
  using assms by (auto simp: reads_busy_def split: option.splits)


lemma tee_request_refused:
  assumes "build_request K I cl req now = Ok q" and "ur_prefer_tee req"
  shows "verify_request X K I q t \<noteq> Ok ()"
  using assms(1) by (rule build_request_Ok) (use assms(2) in \<open>simp add: verify_request_Ok_iff\<close>)

text \<open>A request that asks for a TEE is never served: the client never encrypts a prompt, and every
  node refuses a request that asks for a TEE without an envelope. Whatever the candidates, the client
  ends with one of its own errors, and no node has taken the request: its runner is unchanged.\<close>

theorem tee_request_never_served:
  assumes "\<And>q. build_request K I cl req now = Ok q \<Longrightarrow> ix_unborsh_request I (ix_borsh_request I q) = Some q"
    and "ur_prefer_tee req"
  shows "\<exists>e. client_infer K I decode_events peer_ok (mesh_send X K I A L net t t' end_ms) rank tab cl req now r = (Err e, r) \<and>
    e \<in> {NoWallet, SdkSession ''session key expired'', Discovery ''no compute nodes serving model'', AllComputeNodesBusy}"
proof (cases "build_request K I cl req now")
  case (Ok q)
  have "verify_request X K I q t \<noteq> Ok ()" by (rule tee_request_refused[OF Ok assms(2)])
  then have n: "mesh_send X K I A L net t t' end_ms p (ix_borsh_request I q) r = (Err e, r') \<Longrightarrow> r' = r"
    "fst (mesh_send X K I A L net t t' end_ms p (ix_borsh_request I q) r) \<noteq> Ok wire"
    "fst (mesh_send X K I A L net t t' end_ms p (ix_borsh_request I q) r) \<noteq> Panic" for p e r' wire
    by (auto simp: mesh_send_def handle_inference_request_def assms(1)[OF Ok] no_answer_def
        split: result.splits prod.splits if_splits)
  have "try_peers decode_events peer_ok (mesh_send X K I A L net t t' end_ms) (ix_borsh_request I q) cs r =
      (Err AllComputeNodesBusy, r)" for cs
  proof (induction cs)
    case (Cons c cs)
    have "\<exists>e. mesh_send X K I A L net t t' end_ms (cd_peer_id_bytes c) (ix_borsh_request I q) r = (Err e, r)"
      using n[of "cd_peer_id_bytes c"]
      by (cases "mesh_send X K I A L net t t' end_ms (cd_peer_id_bytes c) (ix_borsh_request I q) r"; cases "fst (mesh_send X K I A L net t t' end_ms (cd_peer_id_bytes c) (ix_borsh_request I q) r)") auto
    with Cons.IH show ?case by auto
  qed simp
  then show ?thesis by (simp add: client_infer_def Ok Let_def)
qed (auto simp: client_infer_def build_request_def signing_identity_def client_sign_def rbind_Err_iff rbind_Panic_iff
      split: option.splits if_splits)

definition demo_client :: client where
  "demo_client = \<lparr>cl_wallet = Some (wallet_from_seed demo_ext demo_crypto 1), cl_session = None\<rparr>"

definition demo_table :: candidate_table where
  "demo_table = table_upsert \<lparr>cd_peer_id_bytes = [1], cd_model_refs = [''o/m-F16''], cd_operator = 0,
     cd_total_stake = 5, cd_supports_tee = False, cd_timestamp_ms = 1000, cd_available_slots = 1\<rparr> kv_empty"

definition sdk_request :: "bool \<Rightarrow> infer_request" where
  "sdk_request tee = demo_request\<lparr>rq_model_ref := ''o/m-F16'', rq_deterministic := False, rq_nonce := 1000,
     rq_prefer_tee := tee\<rparr>"

definition sdk_infer :: "bool \<Rightarrow> infer_ext" where
  "sdk_infer tee = mesh_infer\<lparr>ix_unborsh_request := (\<lambda>_. Some (sdk_request tee))\<rparr>"

lemma sdk_request_built:
  "build_request demo_crypto (sdk_infer tee) demo_client (demo_user_request\<lparr>ur_prefer_tee := tee\<rparr>) 1000 =
     Ok (sdk_request tee)"
  by (simp add: build_request_def signing_identity_def client_sign_def demo_client_def Let_def demo_user_request_def
      sdk_request_def demo_request_def wallet_public_key_def to_pubkey_def wallet_from_seed_def demo_crypto_def
      wallet_sign_def sign_bytes_def)

lemma demo_table_eligible:
  "\<exists>c. table_eligible rank demo_table ''o/m-F16'' 1000 = [c] \<and> cd_peer_id_bytes c = [1]"
  by (simp add: table_eligible_def demo_table_def table_upsert_def sat_sub_def sort_by_def)

text \<open>A decoder that knows one busy answer.\<close>

definition demo_decode :: "bytes \<Rightarrow> job_event list option" where
  "demo_decode wire = (if wire = [3] then Some [Busy 0] else if wire = [] then Some [] else None)"


theorem tee_request_never_served_witness:
  "\<exists>e. client_infer demo_crypto (sdk_infer True) (\<lambda>_. None) (\<lambda>_. True)
     (mesh_send demo_ext demo_crypto (sdk_infer True) demo_aead (demo_llm [TokenItem [7]]) mesh_net 1500 1500 1700)
     (\<lambda>_. 0) demo_table demo_client (demo_user_request\<lparr>ur_prefer_tee := True\<rparr>) 1000 runner_new = (Err e, runner_new)"
proof -
  have d: "ix_unborsh_request (sdk_infer True) (ix_borsh_request (sdk_infer True) q) = Some q"
    if "build_request demo_crypto (sdk_infer True) demo_client (demo_user_request\<lparr>ur_prefer_tee := True\<rparr>) 1000 = Ok q" for q
    using that by (simp add: sdk_request_built) (simp add: sdk_infer_def)
  have "ur_prefer_tee (demo_user_request\<lparr>ur_prefer_tee := True\<rparr>)" by simp
  from tee_request_never_served[OF d this] show ?thesis by blast
qed

section \<open>Escrows\<close>

text \<open>The escrow that a client submits never locks anything unless the nonce of its account happens
  to be the time at which it made the request: published, it reaches no mempool, since validators take
  nothing from that topic; and applied in a block, it is rejected with the state unchanged.\<close>

theorem sdk_escrow_never_locks:
  assumes "submit_escrow X K cl req amount = Ok (stx, out)" and "(topic, payload) \<in> set out"
    and "nonce (account_or_default c (billing_address X req)) \<noteq> rq_nonce req"
  shows "on_gossip W topic payload e = Ok e \<and> (\<exists>reason. apply_tx X c stx = rejected reason c)"
proof -
  from assms(1,2) have "topic = topic_tx_mempool"
    "stx_tx stx = EscrowLock (billing_address X req) (escrow_job_id X req) amount (rq_nonce req) 21000"
    by (auto simp: submit_escrow_def Let_def split: option.splits)
  with assms(3) show ?thesis
    by (simp add: on_gossip_tx_mempool apply_tx_def apply_escrow_lock_def Let_def)
qed

theorem sdk_escrow_never_locks_witness:
  "\<exists>stx payload. submit_escrow demo_ext demo_crypto demo_client demo_request 7 = Ok (stx, [(topic_tx_mempool, payload)]) \<and>
     (\<exists>reason. apply_tx demo_ext (demo_ctx []) stx = rejected reason (demo_ctx []))"
proof -
  obtain stx payload where s: "submit_escrow demo_ext demo_crypto demo_client demo_request 7 = Ok (stx, [(topic_tx_mempool, payload)])"
    by (simp add: submit_escrow_def demo_client_def Let_def)
  have "nonce (account_or_default (demo_ctx []) a) \<noteq> rq_nonce demo_request" for a
    by (simp add: demo_request_def account_or_default_def get_account_def ACCOUNT_ZERO_def demo_ctx_def
        begin_block_def state_open_def st_get_account_def demo_db_def empty_db_def)
  from sdk_escrow_never_locks[OF s _ this] s show ?thesis by (metis list.set_intros(1))
qed
end
