(* ===== verification/InferenceSession.thy ===== *)
theory InferenceSession
  imports Complex_Main ModelStore ComputeNode
begin

text \<open>
  The inference engine (\<^verbatim>\<open>crates/inference/src\<close>): the decoding of token pieces into text and the
  tokenizer's buffer protocol (\<open>tokenizer.rs\<close>), the sampler chains (\<open>sampling.rs\<close>, \<open>config.rs\<close>), the decode
  loop of a request (\<open>session.rs\<close>), and the engine with its model cache and its event channel
  (\<open>engine.rs\<close>). The model itself (llama.cpp) is the parameter \<open>lm\<close>, one field per foreign function the
  code calls, over a state of the context and the sampler. A Rust string is its bytes.
\<close>

section \<open>Pieces of text\<close>

text \<open>The length of the longest prefix that is well-formed: \<^verbatim>\<open>Utf8Error::valid_up_to\<close>, or all of it.\<close>

definition valid_up_to :: "bytes \<Rightarrow> nat" where
  "valid_up_to bs = last (filter (\<lambda>n. is_utf8 (take n bs)) [0..<Suc (length bs)])"

definition feed :: "bytes \<Rightarrow> bytes \<Rightarrow> bytes \<times> bytes" where
  "feed pending bs =
     (let p = pending @ bs
      in if is_utf8 p then (p, []) else (take (valid_up_to p) p, drop (valid_up_to p) p))"

text \<open>\<^verbatim>\<open>Utf8Error::error_len\<close> of bytes that begin with no character: how many of them one replacement
  character stands for; \<open>None\<close> if the input ends inside a character.\<close>

fun utf8_error_len :: "bytes \<Rightarrow> nat option" where
  "utf8_error_len [] = None"
| "utf8_error_len (a # bs) =
     (let second = (if byte_in 0xC2 0xDF a \<or> byte_in 0xE1 0xEC a \<or> byte_in 0xEE 0xEF a \<or> byte_in 0xF1 0xF3 a
                    then Some (0x80, 0xBF)
                    else if a = 0xE0 then Some (0xA0, 0xBF) else if a = 0xED then Some (0x80, 0x9F)
                    else if a = 0xF0 then Some (0x90, 0xBF) else if a = 0xF4 then Some (0x80, 0x8F) else None)
      in case second of
        None \<Rightarrow> Some 1
      | Some (lo, hi) \<Rightarrow>
         (case bs of
            [] \<Rightarrow> None
          | b # cs \<Rightarrow> if \<not> byte_in lo hi b then Some 1
                      else (case cs of
                              [] \<Rightarrow> None
                            | c # ds \<Rightarrow> if \<not> cont c then Some 2
                                        else (case ds of [] \<Rightarrow> None | d # es \<Rightarrow> Some 3))))"

lemma utf8_error_len_pos: "utf8_error_len bs = Some k \<Longrightarrow> 0 < k"
  by (cases bs) (auto simp: Let_def split: if_splits list.splits)

definition REPLACEMENT :: bytes where "REPLACEMENT = [0xEF, 0xBF, 0xBD]"

function from_utf8_lossy :: "bytes \<Rightarrow> bytes" where
  "from_utf8_lossy bs =
     (let rest = drop (valid_up_to bs) bs
      in take (valid_up_to bs) bs @
         (if rest = [] then []
          else case utf8_error_len rest of
            None \<Rightarrow> REPLACEMENT
          | Some k \<Rightarrow> REPLACEMENT @ from_utf8_lossy (drop k rest)))"
  by pat_completeness auto
termination
  by (relation "measure length") (auto dest: utf8_error_len_pos)

declare from_utf8_lossy.simps [simp del]

text \<open>Well-formed prefixes can be cut off and put back: byte strings are read character by character.\<close>

definition char_len :: "byte \<Rightarrow> bytes \<Rightarrow> nat option" where
  "char_len a bs =
     (if a < 0x80 then Some 0
      else if byte_in 0xC2 0xDF a then (case bs of b # cs \<Rightarrow> if cont b then Some 1 else None | _ \<Rightarrow> None)
      else if byte_in 0xE0 0xEF a then
        (case bs of b # c # ds \<Rightarrow>
           if (if a = 0xE0 then byte_in 0xA0 0xBF b else if a = 0xED then byte_in 0x80 0x9F b else cont b) \<and> cont c
           then Some 2 else None | _ \<Rightarrow> None)
      else if byte_in 0xF0 0xF4 a then
        (case bs of b # c # d # es \<Rightarrow>
           if (if a = 0xF0 then byte_in 0x90 0xBF b else if a = 0xF4 then byte_in 0x80 0x8F b else cont b) \<and>
              cont c \<and> cont d
           then Some 3 else None | _ \<Rightarrow> None)
      else None)"

lemma byte_ranges:
  fixes a :: byte
  shows "byte_in 0xE0 0xEF a \<longleftrightarrow> a = 0xE0 \<or> a = 0xED \<or> byte_in 0xE1 0xEF a"
    and "byte_in 0xF0 0xF4 a \<longleftrightarrow> a = 0xF0 \<or> byte_in 0xF1 0xF3 a \<or> a = 0xF4"
  by (auto simp: byte_in_def word_le_nat_alt word_unat_eq_iff)

lemma lead_disjoint:
  fixes a :: byte
  shows "byte_in 0xC2 0xDF a \<Longrightarrow> \<not> byte_in 0xE0 0xEF a \<and> \<not> byte_in 0xF0 0xF4 a"
    and "byte_in 0xE0 0xEF a \<Longrightarrow> \<not> byte_in 0xF0 0xF4 a \<and> \<not> byte_in 0xC2 0xDF a"
    and "byte_in 0xF0 0xF4 a \<Longrightarrow> \<not> byte_in 0xE0 0xEF a \<and> \<not> byte_in 0xC2 0xDF a \<and> \<not> byte_in 0xE1 0xEF a \<and> a \<noteq> 0xE0 \<and> a \<noteq> 0xED"
    and "byte_in 0xF1 0xF3 a \<Longrightarrow> a \<noteq> 0xF0 \<and> a \<noteq> 0xF4"
  by (auto simp: byte_in_def word_le_nat_alt word_unat_eq_iff)

lemma is_utf8_Cons:
  "is_utf8 (a # bs) \<longleftrightarrow> (case char_len a bs of Some k \<Rightarrow> is_utf8 (drop k bs) | None \<Rightarrow> False)"
proof (cases "a < 0x80")
  case False
  consider "byte_in 0xC2 0xDF a" | "byte_in 0xE0 0xEF a" | "byte_in 0xF0 0xF4 a"
    | "\<not> byte_in 0xC2 0xDF a" "\<not> byte_in 0xE0 0xEF a" "\<not> byte_in 0xF0 0xF4 a" by blast
  then show ?thesis
  proof cases
    case 1
    with False show ?thesis by (simp add: char_len_def split: list.split)
  next
    case 2
    note r = lead_disjoint(2)[OF 2]
    from 2 have "a \<noteq> 0xE0 \<Longrightarrow> a \<noteq> 0xED \<Longrightarrow> byte_in 0xE1 0xEF a" by (simp add: byte_ranges)
    with False 2 r show ?thesis
      by (cases bs; cases "tl bs"; cases "a = 0xE0"; cases "a = 0xED") (simp_all add: char_len_def, auto)
  next
    case 3
    note r = lead_disjoint(3)[OF 3]
    from 3 have "a \<noteq> 0xF0 \<Longrightarrow> a \<noteq> 0xF4 \<Longrightarrow> byte_in 0xF1 0xF3 a" by (simp add: byte_ranges)
    with False 3 r lead_disjoint(4)[of a] show ?thesis
      by (cases bs; cases "tl bs"; cases "tl (tl bs)"; cases "a = 0xF0"; cases "a = 0xF4") (simp_all add: char_len_def, auto)
  next
    case 4
    with False byte_ranges[of a] show ?thesis by (simp add: char_len_def split: list.split)
  qed
qed (simp add: char_len_def)

lemma char_len_append:
  "char_len a bs = Some k \<Longrightarrow> k \<le> length bs \<and> char_len a (bs @ cs) = Some k"
  by (auto simp: char_len_def split: if_splits list.splits)

lemma char_len_prefix:
  "char_len a (bs @ cs) = Some k \<Longrightarrow> k \<le> length bs \<Longrightarrow> char_len a bs = Some k"
  by (auto simp: char_len_def Cons_eq_append_conv append_eq_Cons_conv split: if_splits list.splits)

lemma is_utf8_append: "is_utf8 a \<Longrightarrow> is_utf8 (a @ b) \<longleftrightarrow> is_utf8 b"
proof (induction "length a" arbitrary: a rule: less_induct)
  case less
  show ?case
  proof (cases a)
    case (Cons x xs)
    with less.prems obtain k where k: "char_len x xs = Some k" "is_utf8 (drop k xs)"
      by (auto simp: is_utf8_Cons simp del: is_utf8.simps(2) split: option.splits)
    note c = char_len_append[OF k(1), of b]
    from less.hyps[of "drop k xs"] k(2) Cons have "is_utf8 (drop k xs @ b) = is_utf8 b" by simp
    with c Cons show ?thesis by (simp add: is_utf8_Cons del: is_utf8.simps(2))
  qed simp
qed

lemma valid_up_to_le: "valid_up_to bs \<le> length bs"
  and valid_up_to_utf8: "is_utf8 (take (valid_up_to bs) bs)"
  and valid_up_to_greatest: "n \<le> length bs \<Longrightarrow> is_utf8 (take n bs) \<Longrightarrow> n \<le> valid_up_to bs"
proof -
  let ?ns = "filter (\<lambda>n. is_utf8 (take n bs)) [0..<Suc (length bs)]"
  have "0 \<in> set ?ns" by (simp only: set_filter mem_Collect_eq set_upt) simp
  then have ne: "?ns \<noteq> []" by (rule length_pos_if_in_set[THEN length_greater_0_conv[THEN iffD1]])
  from last_in_set[OF ne] have m: "valid_up_to bs \<in> set ?ns" unfolding valid_up_to_def .
  then have "is_utf8 (take (valid_up_to bs) bs) \<and> valid_up_to bs < Suc (length bs)"
    by (simp only: set_filter mem_Collect_eq set_upt atLeastLessThan_iff)
  then show "valid_up_to bs \<le> length bs" "is_utf8 (take (valid_up_to bs) bs)" by simp_all
  have "sorted ?ns" by (rule sorted_wrt_filter) (rule sorted_upt)
  then have "\<forall>x \<in> set ?ns. x \<le> last ?ns"
    using ne by (metis append_butlast_last_id sorted_append list.set_intros(1) Un_iff set_append order_refl empty_iff insert_iff list.set(1,2))
  moreover have "n \<in> set ?ns" if "n \<le> length bs" "is_utf8 (take n bs)"
    using that by (simp only: set_filter mem_Collect_eq set_upt) simp
  ultimately show "n \<le> valid_up_to bs" if "n \<le> length bs" "is_utf8 (take n bs)"
    using that unfolding valid_up_to_def by blast
qed

text \<open>No non-empty prefix of what stays in the buffer is well-formed.\<close>

definition stuck :: "bytes \<Rightarrow> bool" where
  "stuck p \<longleftrightarrow> (\<forall>n. 0 < n \<and> n \<le> length p \<longrightarrow> \<not> is_utf8 (take n p))"

lemma stuck_utf8: "stuck p \<Longrightarrow> is_utf8 p \<Longrightarrow> p = []"
  unfolding stuck_def by (metis length_greater_0_conv order_refl take_all)

lemma feed_spec:
  assumes "feed pending bs = (f, p)"
  shows "f @ p = pending @ bs" "is_utf8 f" "stuck p"
proof -
  let ?q = "pending @ bs"
  have "f = take (valid_up_to ?q) ?q \<and> p = drop (valid_up_to ?q) ?q"
  proof (cases "is_utf8 ?q")
    case True
    then have "valid_up_to ?q = length ?q"
      using valid_up_to_greatest[of "length ?q" ?q] valid_up_to_le[of ?q] by simp
    with True assms show ?thesis by (simp add: feed_def)
  qed (use assms in \<open>simp add: feed_def Let_def\<close>)
  then have f: "f = take (valid_up_to ?q) ?q" "p = drop (valid_up_to ?q) ?q" by simp_all
  then show "f @ p = ?q" by (simp only: append_take_drop_id)
  from f(1) show "is_utf8 f" using valid_up_to_utf8[of ?q] by (simp only:)
  show "stuck p"
    unfolding stuck_def
  proof (intro allI impI notI)
    fix n assume n: "0 < n \<and> n \<le> length p" and u: "is_utf8 (take n p)"
    have "take (valid_up_to ?q + n) ?q = f @ take n p" by (simp only: f take_add)
    with u \<open>is_utf8 f\<close> have "is_utf8 (take (valid_up_to ?q + n) ?q)" by (simp add: is_utf8_append)
    with n f(2) have "valid_up_to ?q + n \<le> valid_up_to ?q"
      by (intro valid_up_to_greatest) auto
    with n show False by simp
  qed
qed

text \<open>The buffer over a whole stream of pieces.\<close>

fun feed_all :: "bytes \<Rightarrow> bytes list \<Rightarrow> bytes list \<times> bytes" where
  "feed_all pending [] = ([], pending)"
| "feed_all pending (b # bs) =
     (let (f, p) = feed pending b; (fs, p') = feed_all p bs in (f # fs, p'))"

lemma feed_all_spec:
  assumes "feed_all pending bs = (fs, p)" and "stuck pending"
  shows "concat fs @ p = pending @ concat bs \<and> stuck p \<and> is_utf8 (concat fs) \<and> length fs = length bs \<and>
    (\<forall>f \<in> set fs. is_utf8 f)"
  using assms
proof (induction bs arbitrary: pending fs)
  case (Cons b bs)
  obtain f p1 fs1 where s: "feed pending b = (f, p1)" "feed_all p1 bs = (fs1, p)" "fs = f # fs1"
    using Cons.prems(1) by (auto simp: Let_def split: prod.splits)
  note f = feed_spec[OF s(1)]
  from Cons.IH[OF s(2) f(3)] have ih: "concat fs1 @ p = p1 @ concat bs \<and> stuck p \<and> is_utf8 (concat fs1) \<and>
      length fs1 = length bs \<and> (\<forall>f \<in> set fs1. is_utf8 f)" .
  have "concat fs @ p = f @ (p1 @ concat bs)" using ih s(3) by simp
  also have "\<dots> = pending @ concat (b # bs)" using f(1) by (metis append.assoc concat.simps(2))
  finally show ?case using ih f(2) s(3) by (simp add: is_utf8_append)
qed simp

text \<open>A first byte that begins no character keeps the buffer stuck for ever.\<close>

definition no_lead :: "byte \<Rightarrow> bool" where
  "no_lead a \<longleftrightarrow> byte_in 0x80 0xC1 a \<or> 0xF5 \<le> a"

lemma no_lead_not_utf8: "no_lead a \<Longrightarrow> \<not> is_utf8 (a # bs)"
proof -
  assume "no_lead a"
  then have "\<not> a < 0x80" "\<not> byte_in 0xC2 0xDF a" "\<not> byte_in 0xE0 0xEF a" "\<not> byte_in 0xF0 0xF4 a"
    by (auto simp: no_lead_def byte_in_def word_le_nat_alt word_less_nat_alt)
  then show ?thesis by (simp add: is_utf8_Cons char_len_def del: is_utf8.simps(2))
qed


lemma stuck_no_lead: "no_lead a \<Longrightarrow> stuck (a # p)"
  unfolding stuck_def
proof (intro allI impI)
  fix n assume l: "no_lead a" and "0 < n \<and> n \<le> length (a # p)"
  then obtain m where "n = Suc m" using gr0_implies_Suc by blast
  with no_lead_not_utf8[OF l] show "\<not> is_utf8 (take n (a # p))" by simp
qed

lemma feed_stuck: "no_lead a \<Longrightarrow> feed (a # p) bs = ([], a # p @ bs)"
proof -
  assume l: "no_lead a"
  obtain f q where f: "feed (a # p) bs = (f, q)" by (metis surj_pair)
  note s = feed_spec[OF f]
  have "f = []"
  proof (cases f)
    case (Cons x xs)
    with s(1) have "f = a # xs" by simp
    with s(2) no_lead_not_utf8[OF l] show ?thesis by simp
  qed
  with f s(1) show ?thesis by simp
qed

section \<open>The model\<close>

type_synonym token = "32 word"

text \<open>Floats as far as the code compares them; 0.8 and 0.95 are the nearest floats.\<close>

datatype f32 = F32 rat | F32Inf bool | F32NaN

fun f32_less :: "f32 \<Rightarrow> f32 \<Rightarrow> bool" where
  "f32_less (F32 x) (F32 y) = (x < y)"
| "f32_less (F32 x) (F32Inf neg) = (\<not> neg)"
| "f32_less (F32Inf neg) (F32 y) = neg"
| "f32_less (F32Inf a) (F32Inf b) = (a \<and> \<not> b)"
| "f32_less F32NaN y = False"
| "f32_less x F32NaN = False"

fun f32_le :: "f32 \<Rightarrow> f32 \<Rightarrow> bool" where
  "f32_le F32NaN y = False"
| "f32_le x F32NaN = False"
| "f32_le x y = (\<not> f32_less y x)"

record sampling_params =
  sm_temperature :: f32
  sm_top_k :: nat
  sm_top_p :: f32
  sm_seed :: nat

definition sampling_default :: sampling_params where
  "sampling_default = \<lparr>sm_temperature = F32 (13421773 / 2 ^ 24), sm_top_k = 40, sm_top_p = F32 (15938355 / 2 ^ 24), sm_seed = 0\<rparr>"

definition GREEDY_PARAMS :: sampling_params where
  "GREEDY_PARAMS = \<lparr>sm_temperature = F32 0, sm_top_k = 1, sm_top_p = F32 1, sm_seed = 0\<rparr>"

datatype inference_mode = Serving | Deterministic

datatype stage = StGreedy | StTopK "32 word" | StTopP f32 nat | StTemp f32 | StDist nat

record context_params =
  cx_n_ctx :: nat
  cx_n_batch :: nat
  cx_n_ubatch :: nat
  cx_n_threads :: "32 word"
  cx_n_threads_batch :: "32 word"
  cx_offload_kqv :: bool
  cx_embeddings :: bool

text \<open>The foreign functions: \<open>lm_tokenize\<close> gets the text, its length, the room and the flag, and gives
  the count (negative when the room is too small) and the buffer; \<open>lm_piece\<close> the count and the buffer.
  \<open>lm_context\<close> and \<open>lm_stage_ok\<close> say whether an allocation succeeded.\<close>

record 's lm =
  lm_tokenize :: "bytes \<Rightarrow> 32 word \<Rightarrow> 32 word \<Rightarrow> bool \<Rightarrow> 32 word \<times> token list"
  lm_eos :: token
  lm_piece :: "token \<Rightarrow> 32 word \<times> bytes"
  lm_context :: "context_params \<Rightarrow> 's option"
  lm_n_ctx :: "'s \<Rightarrow> nat"
  lm_stage_ok :: "stage \<Rightarrow> bool"
  lm_decode :: "token list \<Rightarrow> 's \<Rightarrow> 32 word \<times> 's"
  lm_sample :: "stage list \<Rightarrow> 's \<Rightarrow> token \<times> 's"
  lm_accept :: "token \<Rightarrow> 's \<Rightarrow> 's"

datatype tokenize_error = CannotGrow nat nat | NoTokens | TooLong nat nat nat

datatype inference_error =
  ModelLoad string | ContextInit string | Tokenize tokenize_error | Decode "32 word"
| ModelManagerError model_error

section \<open>The tokenizer\<close>

lemma encode_measure:
  fixes n :: "32 word"
  shows "\<not> nat (- sint n) \<le> c \<Longrightarrow> 2147483648 - nat (- sint n) < 2147483648 - c"
  using sint_greater_eq[of n] by (simp add: nat_le_iff)

function encode_loop ::
    "'s lm \<Rightarrow> bytes \<Rightarrow> bool \<Rightarrow> nat \<Rightarrow> (inference_error, token list) result" where
  "encode_loop M text add_special guess_cap =
     (let (n, buf) = lm_tokenize M text (of_nat (length text)) (of_nat guess_cap) add_special
      in if 0 \<le> sint n then Ok (take (nat (sint n)) buf)
         else let needed = nat (- sint n)
              in if needed \<le> guess_cap then Err (Tokenize (CannotGrow needed guess_cap))
                 else encode_loop M text add_special needed)"
  by pat_completeness auto
termination
  by (relation "measure (\<lambda>(M, text, add_special, cap). 2 ^ 31 - cap)") (auto dest: encode_measure)

declare encode_loop.simps [simp del]

definition encode :: "'s lm \<Rightarrow> bytes \<Rightarrow> bool \<Rightarrow> (inference_error, token list) result" where
  "encode M text add_special =
     (if text = [] \<and> \<not> add_special then Ok []
      else encode_loop M text add_special (length text + 16))"

definition token_to_piece :: "'s lm \<Rightarrow> token \<Rightarrow> bytes" where
  "token_to_piece M t =
     (let (written, buf) = lm_piece M t in if sint written \<le> 0 then [] else take (nat (sint written)) buf)"

section \<open>Samplers and contexts\<close>

text \<open>The stages of the chain; the first that cannot be allocated ends the construction.\<close>

definition sampler_stages :: "inference_mode \<Rightarrow> sampling_params \<Rightarrow> stage list" where
  "sampler_stages mode p =
     (case mode of
        Deterministic \<Rightarrow> [StGreedy]
      | Serving \<Rightarrow>
          if f32_le (sm_temperature p) (F32 0) \<or> sm_top_k p = 1 then [StGreedy]
          else (if sm_top_k p > 0 then [StTopK (of_nat (sm_top_k p))] else []) @
               (if f32_less (F32 0) (sm_top_p p) \<and> f32_less (sm_top_p p) (F32 1) then [StTopP (sm_top_p p) 1] else []) @
               [StTemp (sm_temperature p), StDist (ucastn 32 (sm_seed p))])"

definition sampler_new ::
    "'s lm \<Rightarrow> inference_mode \<Rightarrow> sampling_params \<Rightarrow> (inference_error, stage list) result" where
  "sampler_new M mode p =
     (let stages = sampler_stages mode p
      in if list_all (lm_stage_ok M) stages then Ok stages else Err (ContextInit ''sampler returned NULL''))"

definition params_deterministic :: "nat \<Rightarrow> context_params" where
  "params_deterministic n_ctx =
     \<lparr>cx_n_ctx = n_ctx, cx_n_batch = max n_ctx 512, cx_n_ubatch = 512, cx_n_threads = 1,
      cx_n_threads_batch = 1, cx_offload_kqv = False, cx_embeddings = False\<rparr>"

definition params_serving :: "nat \<Rightarrow> 32 word \<Rightarrow> context_params" where
  "params_serving n_ctx n_threads =
     \<lparr>cx_n_ctx = n_ctx, cx_n_batch = max n_ctx 512, cx_n_ubatch = 512, cx_n_threads = n_threads,
      cx_n_threads_batch = n_threads, cx_offload_kqv = True, cx_embeddings = False\<rparr>"

definition context_new :: "'s lm \<Rightarrow> context_params \<Rightarrow> (inference_error, 's) result" where
  "context_new M p =
     (case lm_context M p of
        None \<Rightarrow> Err (ContextInit ''llama_init_from_model returned NULL'')
      | Some s \<Rightarrow> Ok s)"

section \<open>A request\<close>

datatype inf_event = TokenEvent nat token bytes | StopEvent stop_reason

record session_request =
  sr_prompt :: bytes
  sr_max_tokens :: nat
  sr_mode :: inference_mode
  sr_stop :: "bytes list"

record session_outcome =
  so_generated :: "token list"
  so_text :: bytes
  so_reason :: stop_reason

text \<open>What the loop carries: the tokens, the piece buffer, the text, the context, and the sink.\<close>

record ('s, 'k) gen =
  ge_generated :: "token list"
  ge_pending :: bytes
  ge_text :: bytes
  ge_ctx :: 's
  ge_sink :: 'k

definition ends_with :: "bytes \<Rightarrow> bytes \<Rightarrow> bool" where
  "ends_with txt s \<longleftrightarrow> length s \<le> length txt \<and> drop (length txt - length s) txt = s"

text \<open>\<open>accept\<close> is the sink; it says whether it wants more.\<close>

fun gen_loop ::
    "'s lm \<Rightarrow> (inf_event \<Rightarrow> 'k \<Rightarrow> bool \<times> 'k) \<Rightarrow> stage list \<Rightarrow> bytes list \<Rightarrow> nat \<Rightarrow> nat \<Rightarrow> ('s, 'k) gen \<Rightarrow>
     (inference_error, stop_reason) result \<times> ('s, 'k) gen" where
  "gen_loop M accept stages stop index 0 g = (Ok RMaxTokens, g)"
| "gen_loop M accept stages stop index (Suc n) g =
     (let (token, s1) = lm_sample M stages (ge_ctx g); s2 = lm_accept M token s1
      in if 0 \<le> sint (lm_eos M) \<and> token = lm_eos M then (Ok REndOfStream, g\<lparr>ge_ctx := s2\<rparr>)
         else let (fragment, pending) = feed (ge_pending g) (token_to_piece M token);
                  full_text = ge_text g @ fragment;
                  (kept, k) = accept (TokenEvent index token fragment) (ge_sink g);
                  g1 = \<lparr>ge_generated = ge_generated g @ [token], ge_pending = pending, ge_text = full_text,
                        ge_ctx = s2, ge_sink = k\<rparr>
              in case find (ends_with full_text) stop of
                   Some s \<Rightarrow> (Ok (if kept then RStopString s else RCancelled), g1)
                 | None \<Rightarrow>
                     if \<not> kept then (Ok RCancelled, g1)
                     else let (rc, s3) = lm_decode M [token] s2
                          in if rc \<noteq> 0 then (Err (Decode rc), g1\<lparr>ge_ctx := s3\<rparr>)
                             else gen_loop M accept stages stop (Suc index) n (g1\<lparr>ge_ctx := s3\<rparr>))"

definition session_run ::
    "'s lm \<Rightarrow> (inf_event \<Rightarrow> 'k \<Rightarrow> bool \<times> 'k) \<Rightarrow> stage list \<Rightarrow> session_request \<Rightarrow> 's \<Rightarrow> 'k \<Rightarrow>
     (inference_error, session_outcome) result \<times> 'k" where
  "session_run M accept stages req s k =
     (case encode M (sr_prompt req) True of
        Err e \<Rightarrow> (Err e, k)
      | Panic \<Rightarrow> (Panic, k)
      | Ok prompt_tokens \<Rightarrow>
          if prompt_tokens = [] then (Err (Tokenize NoTokens), k)
          else (case (uadd 32 (ucastn 32 (length prompt_tokens)) (sr_max_tokens req) :: (unit, nat) result) of
             Ok wanted \<Rightarrow>
               if wanted > lm_n_ctx M s
               then (Err (Tokenize (TooLong (length prompt_tokens) (sr_max_tokens req) (lm_n_ctx M s))), k)
               else let (rc, s1) = lm_decode M prompt_tokens s
                    in if rc \<noteq> 0 then (Err (Decode rc), k)
                       else (case gen_loop M accept stages (sr_stop req) 0 (sr_max_tokens req)
                                   \<lparr>ge_generated = [], ge_pending = [], ge_text = [], ge_ctx = s1, ge_sink = k\<rparr> of
                          (Ok reason, g) \<Rightarrow>
                            (Ok \<lparr>so_generated = ge_generated g,
                                 so_text = ge_text g @ from_utf8_lossy (ge_pending g), so_reason = reason\<rparr>,
                             snd (accept (StopEvent reason) (ge_sink g)))
                        | (Err e, g) \<Rightarrow> (Err e, ge_sink g)
                        | (Panic, g) \<Rightarrow> (Panic, ge_sink g))
           | _ \<Rightarrow> (Panic, k)))"

text \<open>The sink that keeps every event.\<close>

definition vec_accept :: "inf_event \<Rightarrow> inf_event list \<Rightarrow> bool \<times> inf_event list" where
  "vec_accept e es = (True, es @ [e])"

lemma case_vec_accept [simp]: "(case vec_accept e es of (a, b) \<Rightarrow> h a b) = h True (es @ [e])"
  by (simp add: vec_accept_def)

section \<open>The engine\<close>

text \<open>The bounded channel between the decoding thread and the reader of the stream. \<open>reads i\<close> is the
  number of events the reader takes before the \<open>i\<close>-th attempt to send, \<open>None\<close> if it has gone.\<close>

definition ENGINE_BUFFER :: nat where "ENGINE_BUFFER = 64"

record 'i channel =
  ch_queue :: "'i list"
  ch_taken :: "'i list"
  ch_sends :: nat

definition channel_new :: "'i channel" where
  "channel_new = \<lparr>ch_queue = [], ch_taken = [], ch_sends = 0\<rparr>"

definition try_send :: "(nat \<Rightarrow> nat option) \<Rightarrow> 'i \<Rightarrow> 'i channel \<Rightarrow> bool \<times> 'i channel" where
  "try_send reads i c =
     (case reads (ch_sends c) of
        None \<Rightarrow> (False, c\<lparr>ch_sends := Suc (ch_sends c)\<rparr>)
      | Some n \<Rightarrow>
          (let c1 = \<lparr>ch_queue = drop n (ch_queue c), ch_taken = ch_taken c @ take n (ch_queue c),
                    ch_sends = Suc (ch_sends c)\<rparr>
           in if length (ch_queue c1) \<ge> ENGINE_BUFFER then (False, c1)
              else (True, c1\<lparr>ch_queue := ch_queue c1 @ [i]\<rparr>)))"

text \<open>Everything the reader gets once the sender is gone.\<close>

definition received :: "'i channel \<Rightarrow> 'i list" where
  "received c = ch_taken c @ ch_queue c"

record inference_config =
  ic_max_context_tokens :: nat
  ic_serving_threads :: nat

definition inference_config_default :: inference_config where
  "inference_config_default = \<lparr>ic_max_context_tokens = 8192, ic_serving_threads = 8\<rparr>"

record inference_request =
  iq_prompt :: bytes
  iq_max_tokens :: nat
  iq_mode :: inference_mode
  iq_sampling :: sampling_params
  iq_stop :: "bytes list"

definition context_params_for :: "inference_config \<Rightarrow> inference_mode \<Rightarrow> context_params" where
  "context_params_for cfg mode =
     (case mode of
        Deterministic \<Rightarrow> params_deterministic (ic_max_context_tokens cfg)
      | Serving \<Rightarrow> params_serving (ic_max_context_tokens cfg) (of_nat (ic_serving_threads cfg)))"

definition session_request_of :: "inference_request \<Rightarrow> session_request" where
  "session_request_of q =
     \<lparr>sr_prompt = iq_prompt q, sr_max_tokens = iq_max_tokens q, sr_mode = iq_mode q, sr_stop = iq_stop q\<rparr>"

definition run_sync ::
    "'s lm \<Rightarrow> inference_config \<Rightarrow> inference_request \<Rightarrow> (inf_event \<Rightarrow> 'k \<Rightarrow> bool \<times> 'k) \<Rightarrow> 'k \<Rightarrow>
     (inference_error, session_outcome) result \<times> 'k" where
  "run_sync M cfg q accept k =
     (case rbind (context_new M (context_params_for cfg (iq_mode q))) (\<lambda>s.
           rbind (sampler_new M (iq_mode q) (iq_sampling q)) (\<lambda>stages. Ok (s, stages))) of
        Err e \<Rightarrow> (Err e, k)
      | Panic \<Rightarrow> (Panic, k)
      | Ok (s, stages) \<Rightarrow> session_run M accept stages (session_request_of q) s k)"

type_synonym stream_item = "(inference_error, inf_event) result"

definition engine_infer ::
    "(nat \<Rightarrow> nat option) \<Rightarrow> 's lm \<Rightarrow> inference_config \<Rightarrow> inference_request \<Rightarrow> (unit, stream_item list) result" where
  "engine_infer reads M cfg q =
     (case run_sync M cfg q (\<lambda>e. try_send reads (Ok e)) channel_new of
        (Ok _, c) \<Rightarrow> Ok (received c)
      | (Err e, c) \<Rightarrow> Ok (received (snd (try_send reads (Err e) c)))
      | (Panic, c) \<Rightarrow> Panic)"

text \<open>Loading, with the models already loaded by the digest of their file.\<close>

definition engine_load ::
    "ext \<Rightarrow> nat \<Rightarrow> (string \<Rightarrow> nat \<Rightarrow> http_answer) \<Rightarrow> (hash256 \<Rightarrow> nat) \<Rightarrow> (path \<Rightarrow> bool) \<Rightarrow> mock_registry \<Rightarrow> nat \<Rightarrow>
     (bytes \<Rightarrow> 'm option) \<Rightarrow> model_ref \<Rightarrow> (hash256, 'm) kv \<times> store \<Rightarrow>
     (inference_error, hash256 \<times> 'm) result \<times> (hash256, 'm) kv \<times> store" where
  "engine_load X frames fetch rank rm_fails reg now llama_load r = (\<lambda>(cache, s).
     (case ensure_local X frames fetch rank rm_fails reg now r s of
        (Err e, s1) \<Rightarrow> (Err (ModelManagerError e), cache, s1)
      | (Panic, s1) \<Rightarrow> (Panic, cache, s1)
      | (Ok p, s1) \<Rightarrow>
         (case so_files s1 p of
            None \<Rightarrow> (Err (ModelManagerError (ModelIo ''open'')), cache, s1)
          | Some bs \<Rightarrow>
              let digest = x_sha256 X bs
              in case kv_get cache digest of
                   Some m \<Rightarrow> (Ok (digest, m), cache, s1)
                 | None \<Rightarrow>
                    (case llama_load bs of
                       None \<Rightarrow> (Err (ModelLoad ''llama_model_load_from_file returned NULL''), cache, s1)
                     | Some m \<Rightarrow> (Ok (digest, m), kv_put digest m cache, s1)))))"

section \<open>The text of a stream\<close>

text \<open>C32: The fragments of a stream are well-formed strings and no byte is lost between them and the
  buffer. If the pieces of the tokens together are well-formed, the fragments together are exactly the
  pieces; but from a piece that breaks at a byte which begins no character on, every fragment is empty,
  however much text follows: only the part before it reaches the reader.\<close>

theorem stream_is_text_up_to_invalid_byte:
  "(\<forall>fs p. feed_all [] pieces = (fs, p) \<longrightarrow> concat fs @ p = concat pieces \<and> list_all is_utf8 fs) \<and>
   (is_utf8 (concat pieces) \<longrightarrow> (\<exists>fs. feed_all [] pieces = (fs, []) \<and> concat fs = concat pieces)) \<and>
   (\<forall>a rest post. is_utf8 (concat pieces) \<and> no_lead a \<longrightarrow>
      (\<exists>fs. feed_all [] (pieces @ (a # rest) # post) = (fs @ replicate (Suc (length post)) [], a # rest @ concat post) \<and>
         concat fs = concat pieces))"
  (is "?A \<and> ?B \<and> ?C")
proof -
  have st: "stuck []" unfolding stuck_def by auto
  have app: "feed_all p (xs @ ys) = (let (fs, q) = feed_all p xs; (gs, r) = feed_all q ys in (fs @ gs, r))" for p xs ys
    by (induction xs arbitrary: p) (simp_all add: Let_def case_prod_beta)
  have dead: "feed_all (a # p) post = (replicate (length post) [], a # p @ concat post)" if "no_lead a" for a p post
    using that by (induction post arbitrary: p) (simp_all add: feed_stuck)
  have B: ?B
  proof
    assume u: "is_utf8 (concat pieces)"
    obtain fs p where f: "feed_all [] pieces = (fs, p)" by (metis surj_pair)
    note s = feed_all_spec[OF f st]
    then have "is_utf8 p" using u is_utf8_append[of "concat fs" p] by simp
    with s have "p = []" by (blast intro: stuck_utf8)
    with f s show "\<exists>fs. feed_all [] pieces = (fs, []) \<and> concat fs = concat pieces" by auto
  qed
  have C: ?C
  proof (intro allI impI)
    fix a rest post assume a: "is_utf8 (concat pieces) \<and> no_lead a"
    from B a obtain fs where f: "feed_all [] pieces = (fs, [])" "concat fs = concat pieces" by blast
    have "feed [] (a # rest) = ([], a # rest)"
    proof -
      obtain g q where g: "feed [] (a # rest) = (g, q)" by (metis surj_pair)
      note s = feed_spec[OF g]
      have "g = []"
        using s(1,2) no_lead_not_utf8[of a] a by (cases g) auto
      with g s(1) show ?thesis by simp
    qed
    with f dead[of a rest post] a show "\<exists>fs. feed_all [] (pieces @ (a # rest) # post) =
        (fs @ replicate (Suc (length post)) [], a # rest @ concat post) \<and> concat fs = concat pieces"
      by (auto simp: app)
  qed
  from B C feed_all_spec[OF _ st] show ?thesis by (auto simp: list_all_iff)
qed

theorem stream_is_text_up_to_invalid_byte_witness:
  "\<exists>fs. feed_all [] ([[0xC3], [0xA9, 0x41]] @ [0xFF, 0x42] # [[0x43], [0x44]]) =
     (fs @ [[], [], []], [0xFF, 0x42, 0x43, 0x44]) \<and> concat fs = [0xC3, 0xA9, 0x41]"
proof -
  have u: "is_utf8 (concat [[0xC3], [0xA9, 0x41]])" and l: "no_lead 0xFF" by code_simp+
  from stream_is_text_up_to_invalid_byte[of "[[0xC3], [0xA9, 0x41]]", THEN conjunct2, THEN conjunct2, rule_format, of "0xFF" "[0x42]" "[[0x43], [0x44]]"]
    u l
  obtain fs where "feed_all [] ([[0xC3], [0xA9, 0x41]] @ [0xFF, 0x42] # [[0x43], [0x44]]) =
      (fs @ replicate (Suc (length [[0x43 :: byte], [0x44]])) [], 0xFF # [0x42] @ concat [[0x43], [0x44]]) \<and>
      concat fs = concat [[0xC3], [0xA9, 0x41]]" by blast
  then show ?thesis by (intro exI[of _ fs]) simp
qed

section \<open>What a run sends\<close>

fun token_events :: "nat \<Rightarrow> token list \<Rightarrow> bytes list \<Rightarrow> inf_event list" where
  "token_events i (t # ts) (f # fs) = TokenEvent i t f # token_events (Suc i) ts fs"
| "token_events i _ _ = []"

lemma length_token_events: "length ts = length fs \<Longrightarrow> length (token_events i ts fs) = length ts"
  by (induction i ts fs rule: token_events.induct) simp_all

text \<open>No stop string ends the text after a token before the last one, nor after the last one unless the
  run ended with it.\<close>

definition stops_at_end :: "bytes list \<Rightarrow> bytes \<Rightarrow> bytes list \<Rightarrow> stop_reason \<Rightarrow> bool" where
  "stops_at_end stop txt fs reason \<longleftrightarrow>
     (\<forall>k. 0 < k \<and> k \<le> length fs \<and> find (ends_with (txt @ concat (take k fs))) stop \<noteq> None \<longrightarrow>
        k = length fs \<and> (\<exists>st. reason = RStopString st \<and> find (ends_with (txt @ concat fs)) stop = Some st)) \<and>
     (\<forall>st. reason = RStopString st \<longrightarrow> fs \<noteq> [] \<and> find (ends_with (txt @ concat fs)) stop = Some st)"

lemma stops_at_end_Nil [simp]: "stops_at_end stop txt [] reason \<longleftrightarrow> (\<forall>st. reason \<noteq> RStopString st)"
  by (auto simp: stops_at_end_def)

lemma stops_at_end_stop: "find (ends_with (txt @ f)) stop = Some st \<Longrightarrow> stops_at_end stop txt [f] (RStopString st)"
  by (auto simp: stops_at_end_def le_Suc_eq)

lemma stops_at_end_Cons:
  assumes "find (ends_with (txt @ f)) stop = None" and "stops_at_end stop (txt @ f) fs reason"
  shows "stops_at_end stop txt (f # fs) reason"
  unfolding stops_at_end_def
proof (intro conjI allI impI)
  fix k assume k: "0 < k \<and> k \<le> length (f # fs) \<and> find (ends_with (txt @ concat (take k (f # fs)))) stop \<noteq> None"
  then obtain j where j: "k = Suc j" using gr0_implies_Suc by blast
  with k assms(1) have "0 < j" by (cases j) auto
  with k j assms(2) show "k = length (f # fs)"
    and "\<exists>st. reason = RStopString st \<and> find (ends_with (txt @ concat (f # fs))) stop = Some st"
    by (auto simp: stops_at_end_def)
next
  fix st assume "reason = RStopString st"
  with assms(2) show "f # fs \<noteq> []" and "find (ends_with (txt @ concat (f # fs))) stop = Some st"
    by (auto simp: stops_at_end_def)
qed

lemma gen_loop_vec:
  assumes "gen_loop M vec_accept stages stop index n g = (Ok reason, g')"
  shows "\<exists>ts fs. ge_generated g' = ge_generated g @ ts \<and>
    feed_all (ge_pending g) (map (token_to_piece M) ts) = (fs, ge_pending g') \<and>
    ge_text g' = ge_text g @ concat fs \<and> ge_sink g' = ge_sink g @ token_events index ts fs \<and>
    length fs = length ts \<and> length ts \<le> n \<and> (reason = RMaxTokens \<longrightarrow> length ts = n) \<and> reason \<noteq> RCancelled \<and>
    stops_at_end stop (ge_text g) fs reason"
  using assms
proof (induction n arbitrary: index g)
  case 0
  then show ?case by (auto intro!: exI[of _ "[]"])
next
  case (Suc n)
  obtain t s1 where t: "lm_sample M stages (ge_ctx g) = (t, s1)" by (metis surj_pair)
  let ?s2 = "lm_accept M t s1"
  obtain f p where f: "feed (ge_pending g) (token_to_piece M t) = (f, p)" by (metis surj_pair)
  obtain rc s3 where d: "lm_decode M [t] ?s2 = (rc, s3)" by (metis surj_pair)
  let ?g1 = "\<lparr>ge_generated = ge_generated g @ [t], ge_pending = p, ge_text = ge_text g @ f, ge_ctx = ?s2,
              ge_sink = ge_sink g @ [TokenEvent index t f]\<rparr>"
  show ?case
  proof (cases "0 \<le> sint (lm_eos M) \<and> t = lm_eos M")
    case True
    with Suc.prems t show ?thesis by (auto intro!: exI[of _ "[]"])
  next
    case no_eos: False
    show ?thesis
    proof (cases "find (ends_with (ge_text g @ f)) stop")
      case (Some st)
      with Suc.prems t f no_eos have "reason = RStopString st" "g' = ?g1"
        by (auto simp: Let_def)
      with f stops_at_end_stop[OF Some] show ?thesis
        by (intro exI[of _ "[t]"] exI[of _ "[f]"]) simp
    next
      case None
      with Suc.prems t f d no_eos have "rc = 0" and l: "gen_loop M vec_accept stages stop (Suc index) n (?g1\<lparr>ge_ctx := s3\<rparr>) = (Ok reason, g')"
        by (auto simp: Let_def split: if_splits)
      from Suc.IH[OF l] obtain ts fs where h: "ge_generated g' = (ge_generated g @ [t]) @ ts"
        "feed_all p (map (token_to_piece M) ts) = (fs, ge_pending g')"
        "ge_text g' = (ge_text g @ f) @ concat fs" "ge_sink g' = (ge_sink g @ [TokenEvent index t f]) @ token_events (Suc index) ts fs"
        "length fs = length ts" "length ts \<le> n" "reason = RMaxTokens \<longrightarrow> length ts = n" "reason \<noteq> RCancelled"
        "stops_at_end stop (ge_text g @ f) fs reason" by auto
      from h f stops_at_end_Cons[OF None h(9)] show ?thesis
        by (intro exI[of _ "t # ts"] exI[of _ "f # fs"]) simp
    qed
  qed
qed

lemma session_run_Ok:
  assumes "session_run M accept stages req s k = (Ok out, k')"
  obtains toks s1 reason g where "encode M (sr_prompt req) True = Ok toks" "toks \<noteq> []"
    "ucastn 32 (length toks) + sr_max_tokens req \<le> lm_n_ctx M s"
    "gen_loop M accept stages (sr_stop req) 0 (sr_max_tokens req)
       \<lparr>ge_generated = [], ge_pending = [], ge_text = [], ge_ctx = s1, ge_sink = k\<rparr> = (Ok reason, g)"
    "out = \<lparr>so_generated = ge_generated g, so_text = ge_text g @ from_utf8_lossy (ge_pending g), so_reason = reason\<rparr>"
    "k' = snd (accept (StopEvent reason) (ge_sink g))"
  using assms
  by (auto simp: session_run_def uadd_def split: result.splits if_splits prod.splits)

text \<open>C1: A run that ends properly sends, to a reader that takes everything, one event per generated
  token, numbered from zero, with the fragments of the piece buffer, and then one stop event. There are
  at most \<open>max_tokens\<close> tokens, exactly as many if that is the reason. The run ends with a stop string
  at the first token after which the text ends with one; a stop string that a token passes over, ending
  beyond it, does not end the run and is part of the answer, like the stop string that does.\<close>

theorem run_streams_its_tokens:
  assumes "session_run M vec_accept stages req s [] = (Ok out, events)"
  shows "\<exists>fs p. feed_all [] (map (token_to_piece M) (so_generated out)) = (fs, p) \<and>
    events = token_events 0 (so_generated out) fs @ [StopEvent (so_reason out)] \<and>
    so_text out = concat fs @ from_utf8_lossy p \<and>
    length (so_generated out) \<le> sr_max_tokens req \<and>
    (so_reason out = RMaxTokens \<longrightarrow> length (so_generated out) = sr_max_tokens req) \<and>
    so_reason out \<noteq> RCancelled \<and> stops_at_end (sr_stop req) [] fs (so_reason out)"
  using assms
proof (rule session_run_Ok)
  fix toks s1 reason g
  assume "gen_loop M vec_accept stages (sr_stop req) 0 (sr_max_tokens req)
       \<lparr>ge_generated = [], ge_pending = [], ge_text = [], ge_ctx = s1, ge_sink = []\<rparr> = (Ok reason, g)"
    and o1: "out = \<lparr>so_generated = ge_generated g, so_text = ge_text g @ from_utf8_lossy (ge_pending g), so_reason = reason\<rparr>"
    and k: "events = snd (vec_accept (StopEvent reason) (ge_sink g))"
  from gen_loop_vec[OF this(1)] obtain ts fs where "ge_generated g = ts"
    "feed_all [] (map (token_to_piece M) ts) = (fs, ge_pending g)" "ge_text g = concat fs"
    "ge_sink g = token_events 0 ts fs" "length ts \<le> sr_max_tokens req"
    "reason = RMaxTokens \<longrightarrow> length ts = sr_max_tokens req" "reason \<noteq> RCancelled"
    "stops_at_end (sr_stop req) [] fs reason" by auto
  with o1 k show ?thesis by (simp add: vec_accept_def)
qed

section \<open>Readers that lag\<close>

fun offer :: "('e \<Rightarrow> 'k \<Rightarrow> bool \<times> 'k) \<Rightarrow> 'e list \<Rightarrow> 'k \<Rightarrow> bool \<times> 'k" where
  "offer accept [] k = (True, k)"
| "offer accept (e # es) k =
     (let (kept, k1) = accept e k in if kept then offer accept es k1 else (False, k1))"

lemma offer_append:
  "offer accept (xs @ ys) k = (let (kept, k1) = offer accept xs k in if kept then offer accept ys k1 else (False, k1))"
  by (induction xs arbitrary: k) (auto simp: Let_def split: prod.splits)

definition with_sink :: "'k \<Rightarrow> ('s, 'j) gen \<Rightarrow> ('s, 'k) gen" where
  "with_sink k g = \<lparr>ge_generated = ge_generated g, ge_pending = ge_pending g, ge_text = ge_text g,
     ge_ctx = ge_ctx g, ge_sink = k\<rparr>"

lemma with_sink_simps [simp]:
  "ge_generated (with_sink k g) = ge_generated g" "ge_pending (with_sink k g) = ge_pending g"
  "ge_text (with_sink k g) = ge_text g" "ge_ctx (with_sink k g) = ge_ctx g" "ge_sink (with_sink k g) = k"
  "with_sink k (with_sink l g) = with_sink k g" "with_sink k (g\<lparr>ge_ctx := c\<rparr>) = (with_sink k g)\<lparr>ge_ctx := c\<rparr>"
  by (simp_all add: with_sink_def)

text \<open>A run with any sink is the run with the patient one, cut off at the first event the sink refuses.\<close>

lemma gen_loop_sink:
  assumes "gen_loop M vec_accept stages stop index n g = (res, g')"
  shows "\<exists>es. ge_sink g' = ge_sink g @ es \<and>
    (\<forall>k. case offer accept es k of
       (True, k') \<Rightarrow> gen_loop M accept stages stop index n (with_sink k g) = (res, with_sink k' g')
     | (False, k') \<Rightarrow> \<exists>g2. gen_loop M accept stages stop index n (with_sink k g) = (Ok RCancelled, g2) \<and> ge_sink g2 = k')"
  using assms
proof (induction n arbitrary: index g)
  case 0
  then show ?case by (auto intro!: exI[of _ "[]"])
next
  case (Suc n)
  obtain t s1 where t: "lm_sample M stages (ge_ctx g) = (t, s1)" by (metis surj_pair)
  let ?s2 = "lm_accept M t s1"
  obtain f p where f: "feed (ge_pending g) (token_to_piece M t) = (f, p)" by (metis surj_pair)
  obtain rc s3 where d: "lm_decode M [t] ?s2 = (rc, s3)" by (metis surj_pair)
  let ?e = "TokenEvent index t f"
  let ?g1 = "\<lparr>ge_generated = ge_generated g @ [t], ge_pending = p, ge_text = ge_text g @ f, ge_ctx = ?s2,
              ge_sink = ge_sink g @ [?e]\<rparr>"
  show ?case
  proof (cases "0 \<le> sint (lm_eos M) \<and> t = lm_eos M")
    case True
    with Suc.prems t show ?thesis by (auto intro!: exI[of _ "[]"])
  next
    case no_eos: False
    show ?thesis
    proof (cases "\<exists>st. find (ends_with (ge_text g @ f)) stop = Some st \<or> rc \<noteq> 0 \<and> find (ends_with (ge_text g @ f)) stop = None")
      case True
      with Suc.prems t f d no_eos have "ge_sink g' = ge_sink g @ [?e]" by (auto simp: Let_def)
      moreover have "case offer accept [?e] k of
         (True, k') \<Rightarrow> gen_loop M accept stages stop index (Suc n) (with_sink k g) = (res, with_sink k' g')
       | (False, k') \<Rightarrow> \<exists>g2. gen_loop M accept stages stop index (Suc n) (with_sink k g) = (Ok RCancelled, g2) \<and> ge_sink g2 = k'" for k
        using True Suc.prems t f d no_eos
        by (cases "accept ?e k"; cases "fst (accept ?e k)") (auto simp: Let_def with_sink_def split: bool.split)
      ultimately show ?thesis by blast
    next
      case False
      then have None: "find (ends_with (ge_text g @ f)) stop = None" and "rc = 0" by auto
      with Suc.prems t f d no_eos have l: "gen_loop M vec_accept stages stop (Suc index) n (?g1\<lparr>ge_ctx := s3\<rparr>) = (res, g')"
        by (auto simp: Let_def)
      from Suc.IH[OF l] obtain es where es: "ge_sink g' = ge_sink g @ ?e # es"
        "\<And>k. case offer accept es k of
          (True, k') \<Rightarrow> gen_loop M accept stages stop (Suc index) n (with_sink k (?g1\<lparr>ge_ctx := s3\<rparr>)) = (res, with_sink k' g')
        | (False, k') \<Rightarrow> \<exists>g2. gen_loop M accept stages stop (Suc index) n (with_sink k (?g1\<lparr>ge_ctx := s3\<rparr>)) = (Ok RCancelled, g2) \<and> ge_sink g2 = k'"
        by auto
      have "case offer accept (?e # es) k of
         (True, k') \<Rightarrow> gen_loop M accept stages stop index (Suc n) (with_sink k g) = (res, with_sink k' g')
       | (False, k') \<Rightarrow> \<exists>g2. gen_loop M accept stages stop index (Suc n) (with_sink k g) = (Ok RCancelled, g2) \<and> ge_sink g2 = k'" for k
        using None \<open>rc = 0\<close> t f d no_eos es(2)[of "snd (accept ?e k)"]
        by (cases "accept ?e k"; cases "fst (accept ?e k)") (auto simp: Let_def with_sink_def split: bool.split)
      with es(1) show ?thesis by blast
    qed
  qed
qed

lemma gen_loop_no_panic: "fst (gen_loop M accept stages stop index n g) \<noteq> Panic"
  by (induction n arbitrary: index g) (auto simp: Let_def split: prod.splits option.splits)

lemma gen_loop_panic [simp]: "gen_loop M accept stages stop index n g \<noteq> (Panic, g')"
  using gen_loop_no_panic[of M accept stages stop index n g] by auto

lemma session_run_sink:
  assumes "session_run M vec_accept stages req s [] = (res, es)"
  shows "(case res of
      Panic \<Rightarrow> es = [] \<and> (\<forall>k. session_run M accept stages req s k = (Panic, k))
    | Ok out \<Rightarrow> (\<exists>ts r. es = ts @ [StopEvent r] \<and> (\<forall>k. case offer accept ts k of
        (True, k') \<Rightarrow> \<exists>out2. session_run M accept stages req s k = (Ok out2, snd (accept (StopEvent r) k'))
      | (False, k') \<Rightarrow> \<exists>out2. session_run M accept stages req s k = (Ok out2, snd (accept (StopEvent RCancelled) k'))))
    | Err e \<Rightarrow> (\<forall>k. case offer accept es k of
        (True, k') \<Rightarrow> session_run M accept stages req s k = (Err e, k')
      | (False, k') \<Rightarrow> \<exists>out2. session_run M accept stages req s k = (Ok out2, snd (accept (StopEvent RCancelled) k'))))"
proof -
  let ?g = "\<lambda>s1 k. \<lparr>ge_generated = [], ge_pending = [], ge_text = [], ge_ctx = s1, ge_sink = k\<rparr>"
  have ws: "with_sink k (?g s1 l) = ?g s1 k" for s1 k l by (simp add: with_sink_def)
  show ?thesis
  proof (cases "\<exists>toks wanted s1. encode M (sr_prompt req) True = Ok toks \<and> toks \<noteq> [] \<and>
      (uadd 32 (ucastn 32 (length toks)) (sr_max_tokens req) :: (unit, nat) result) = Ok wanted \<and> wanted \<le> lm_n_ctx M s \<and>
      lm_decode M toks s = (0, s1)")
    case True
    then obtain toks wanted s1 where p: "encode M (sr_prompt req) True = Ok toks" "toks \<noteq> []"
      "(uadd 32 (ucastn 32 (length toks)) (sr_max_tokens req) :: (unit, nat) result) = Ok wanted"
      "\<not> wanted > lm_n_ctx M s" "lm_decode M toks s = (0, s1)" by auto
    obtain lr g' where l: "gen_loop M vec_accept stages (sr_stop req) 0 (sr_max_tokens req) (?g s1 []) = (lr, g')"
      by (metis surj_pair)
    from gen_loop_sink[OF l, where accept = accept, unfolded ws gen.simps append_Nil] obtain ts where ts: "ge_sink g' = ts"
      "\<And>k. case offer accept ts k of
        (True, k') \<Rightarrow> gen_loop M accept stages (sr_stop req) 0 (sr_max_tokens req) (?g s1 k) = (lr, with_sink k' g')
      | (False, k') \<Rightarrow> \<exists>g2. gen_loop M accept stages (sr_stop req) 0 (sr_max_tokens req) (?g s1 k) = (Ok RCancelled, g2) \<and> ge_sink g2 = k'"
      by blast
    show ?thesis
    proof (cases lr)
      case (Ok r)
      with assms p l ts(1) have res: "\<exists>out. res = Ok out" "es = ts @ [StopEvent r]"
        by (auto simp: session_run_def vec_accept_def)
      have "case offer accept ts k of
        (True, k') \<Rightarrow> \<exists>out2. session_run M accept stages req s k = (Ok out2, snd (accept (StopEvent r) k'))
      | (False, k') \<Rightarrow> \<exists>out2. session_run M accept stages req s k = (Ok out2, snd (accept (StopEvent RCancelled) k'))" for k
        using ts(2)[of k] p Ok
        by (cases "offer accept ts k"; cases "fst (offer accept ts k)") (auto simp: session_run_def)
      with res show ?thesis by auto
    next
      case (Err e)
      with assms p l ts(1) have res: "res = Err e" "es = ts" by (auto simp: session_run_def)
      have "case offer accept ts k of
        (True, k') \<Rightarrow> session_run M accept stages req s k = (Err e, k')
      | (False, k') \<Rightarrow> \<exists>out2. session_run M accept stages req s k = (Ok out2, snd (accept (StopEvent RCancelled) k'))" for k
        using ts(2)[of k] p Err
        by (cases "offer accept ts k"; cases "fst (offer accept ts k)") (auto simp: session_run_def)
      with res show ?thesis by simp
    qed (use l in simp)
  next
    case False
    then show ?thesis using assms
      by (auto simp: session_run_def split: result.splits if_splits prod.splits)
  qed
qed

text \<open>The stream for a reader that never lags: every event, and the error that ended the run.\<close>

definition engine_items :: "'s lm \<Rightarrow> inference_config \<Rightarrow> inference_request \<Rightarrow> (unit, stream_item list) result" where
  "engine_items M cfg q =
     (case run_sync M cfg q vec_accept [] of
        (Ok _, es) \<Rightarrow> Ok (map Ok es)
      | (Err e, es) \<Rightarrow> Ok (map Ok es @ [Err e])
      | (Panic, es) \<Rightarrow> Panic)"

text \<open>A reader that keeps up, and one that reads nothing before the run is over.\<close>

lemma prompt_offer:
  assumes "\<forall>i. \<exists>n. reads i = Some (Suc n)" and "length (ch_queue c) \<le> 1"
  shows "\<exists>c'. offer (\<lambda>e. try_send reads (Ok e)) es c = (True, c') \<and> received c' = received c @ map Ok es \<and> length (ch_queue c') \<le> 1"
  using assms(2)
proof (induction es arbitrary: c)
  case (Cons e es)
  obtain n where n: "reads (ch_sends c) = Some (Suc n)" using assms(1) by blast
  define c1 where "c1 = \<lparr>ch_queue = [Ok e], ch_taken = ch_taken c @ ch_queue c, ch_sends = Suc (ch_sends c)\<rparr>"
  have "try_send reads (Ok e) c = (True, c1)"
    using n Cons.prems by (simp add: try_send_def ENGINE_BUFFER_def c1_def)
  moreover have "length (ch_queue c1) \<le> 1" "received c1 = received c @ [Ok e]"
    by (simp_all add: c1_def received_def)
  ultimately show ?case using Cons.IH[of c1] by auto
qed simp

lemma lagging_send:
  assumes "ch_taken c = []"
  shows "\<exists>kept c'. try_send (\<lambda>_. Some 0) i c = (kept, c') \<and> ch_taken c' = [] \<and> (kept \<longleftrightarrow> length (ch_queue c) < 64) \<and>
    ch_queue c' = ch_queue c @ take (64 - length (ch_queue c)) [i]"
  using assms by (auto simp: try_send_def ENGINE_BUFFER_def take_Cons')

lemma lagging_offer:
  assumes "ch_taken c = []" and "length (ch_queue c) \<le> 64"
  shows "\<exists>kept c'. offer (\<lambda>e. try_send (\<lambda>_. Some 0) (Ok e)) es c = (kept, c') \<and> ch_taken c' = [] \<and>
    (kept \<longleftrightarrow> length (ch_queue c) + length es \<le> 64) \<and>
    ch_queue c' = ch_queue c @ take (64 - length (ch_queue c)) (map Ok es)"
  using assms
proof (induction es arbitrary: c)
  case (Cons e es)
  from lagging_send[OF Cons.prems(1), of "Ok e"] obtain kept c1 where s:
    "try_send (\<lambda>_. Some 0) (Ok e) c = (kept, c1)" "ch_taken c1 = []" "kept \<longleftrightarrow> length (ch_queue c) < 64"
    "ch_queue c1 = ch_queue c @ take (64 - length (ch_queue c)) [Ok e]" by blast
  show ?case
  proof (cases kept)
    case True
    with s have l: "length (ch_queue c1) = Suc (length (ch_queue c))" by (simp add: take_Cons')
    have "64 - length (ch_queue c) = Suc (63 - length (ch_queue c))" using s(3) True by simp
    with Cons.IH[of c1] s True Cons.prems l show ?thesis by auto
  qed (use s Cons.prems in auto)
qed auto

abbreviation "send_event reads e \<equiv> try_send reads (Ok e :: stream_item)"

lemma channel_new_simps [simp]:
  "ch_taken channel_new = []" "ch_queue channel_new = []" "received channel_new = []" "ch_sends channel_new = 0"
  by (simp_all add: channel_new_def received_def)

lemma prompt_session:
  assumes r: "\<forall>i. \<exists>n. reads i = Some (Suc n)" and v: "session_run M vec_accept stages req s [] = (res, es)"
  shows "case res of
      Panic \<Rightarrow> \<exists>c. session_run M (send_event reads) stages req s channel_new = (Panic, c)
    | Ok out \<Rightarrow> \<exists>out2 c. session_run M (send_event reads) stages req s channel_new = (Ok out2, c) \<and> received c = map Ok es
    | Err e \<Rightarrow> \<exists>c. session_run M (send_event reads) stages req s channel_new = (Err e, c) \<and>
        received c = map Ok es \<and> length (ch_queue c) \<le> 1"
proof (cases res)
  case (Ok out)
  with session_run_sink[OF v, of "send_event reads"] obtain xs x where e: "es = xs @ [StopEvent x]"
    and f: "\<And>k. case offer (send_event reads) xs k of
        (True, k') \<Rightarrow> \<exists>out2. session_run M (send_event reads) stages req s k = (Ok out2, snd (send_event reads (StopEvent x) k'))
      | (False, k') \<Rightarrow> \<exists>out2. session_run M (send_event reads) stages req s k = (Ok out2, snd (send_event reads (StopEvent RCancelled) k'))"
    by auto
  obtain c where c: "offer (send_event reads) xs channel_new = (True, c)" "received c = map Ok xs" "length (ch_queue c) \<le> 1"
    using prompt_offer[OF r, where c = channel_new and es = xs] by auto
  obtain c2 where "offer (send_event reads) [StopEvent x] c = (True, c2)" "received c2 = map Ok es"
    using prompt_offer[OF r c(3), where es = "[StopEvent x]"] c(2) e by auto
  then have "send_event reads (StopEvent x) c = (True, c2)" by (simp add: Let_def split: prod.splits if_splits)
  with f[of channel_new] c(1) \<open>received c2 = map Ok es\<close> Ok show ?thesis by auto
next
  case (Err e)
  obtain c where c: "offer (send_event reads) es channel_new = (True, c)" "received c = map Ok es" "length (ch_queue c) \<le> 1"
    using prompt_offer[OF r, where c = channel_new and es = es] by auto
  with session_run_sink[OF v, of "send_event reads"] Err show ?thesis by (auto dest!: spec[of _ channel_new])
qed (use session_run_sink[OF v, of "send_event reads"] in auto)

lemma lagging_session:
  assumes v: "session_run M vec_accept stages req s [] = (res, es)"
  shows "case res of
      Panic \<Rightarrow> \<exists>c. session_run M (send_event (\<lambda>_. Some 0)) stages req s channel_new = (Panic, c)
    | Ok out \<Rightarrow> \<exists>out2 c. session_run M (send_event (\<lambda>_. Some 0)) stages req s channel_new = (Ok out2, c) \<and>
        received c = take 64 (map Ok es)
    | Err e \<Rightarrow> \<exists>r2 c. session_run M (send_event (\<lambda>_. Some 0)) stages req s channel_new = (r2, c) \<and> ch_taken c = [] \<and>
        received c = take 64 (map Ok es) \<and> (r2 = Err e \<or> length es > 64 \<and> (\<exists>out. r2 = Ok out))"
proof -
  let ?a = "send_event (\<lambda>_. Some 0)"
  have last: "received (snd (?a x c)) = take 64 (ch_queue c @ [Ok x]) \<and> ch_taken (snd (?a x c)) = []"
    if "ch_taken c = []" "length (ch_queue c) \<le> 64" for x c
    using lagging_send[OF that(1), of "Ok x"] that(2) by (auto simp: received_def)
  have off: "\<exists>kept c. offer ?a xs channel_new = (kept, c) \<and> ch_taken c = [] \<and> (kept \<longleftrightarrow> length xs \<le> 64) \<and>
      ch_queue c = take 64 (map Ok xs)" for xs
    using lagging_offer[of channel_new xs] by auto
  show ?thesis
  proof (cases res)
    case (Ok out)
    with session_run_sink[OF v, of ?a] obtain xs x where e: "es = xs @ [StopEvent x]"
      and f: "case offer ?a xs channel_new of
        (True, k') \<Rightarrow> \<exists>out2. session_run M ?a stages req s channel_new = (Ok out2, snd (?a (StopEvent x) k'))
      | (False, k') \<Rightarrow> \<exists>out2. session_run M ?a stages req s channel_new = (Ok out2, snd (?a (StopEvent RCancelled) k'))"
      by auto
    obtain kept c where c: "offer ?a xs channel_new = (kept, c)" "ch_taken c = []" "kept \<longleftrightarrow> length xs \<le> 64"
      "ch_queue c = take 64 (map Ok xs)" using off by blast
    have "received (snd (?a y c)) = take 64 (take 64 (map Ok xs) @ [Ok y])" for y
      using last[OF c(2), of y] c(4) by simp
    with f c Ok e show ?thesis by (cases kept) auto
  next
    case (Err e)
    obtain kept c where c: "offer ?a es channel_new = (kept, c)" "ch_taken c = []" "kept \<longleftrightarrow> length es \<le> 64"
      "ch_queue c = take 64 (map Ok es)" using off by blast
    from session_run_sink[OF v, of ?a] Err have f: "case offer ?a es channel_new of
        (True, k') \<Rightarrow> session_run M ?a stages req s channel_new = (Err e, k')
      | (False, k') \<Rightarrow> \<exists>out2. session_run M ?a stages req s channel_new = (Ok out2, snd (?a (StopEvent RCancelled) k'))"
      by auto
    show ?thesis
    proof (cases kept)
      case True
      with f c Err show ?thesis by (auto simp: received_def)
    next
      case False
      with f c(1) obtain out2 where "session_run M ?a stages req s channel_new = (Ok out2, snd (?a (StopEvent RCancelled) c))" by auto
      with last[OF c(2), of "StopEvent RCancelled"] c False Err show ?thesis by auto
    qed
  qed (use session_run_sink[OF v, of ?a] in auto)
qed

text \<open>C34: A reader that takes at least one event between any two attempts to send gets the whole stream.
  A reader that takes nothing before the run is over gets its first 64 items: the channel does not hold
  the decoder back, a full channel cancels the run, and the stop event, or the error, is among what is
  lost, so a stream of more than 64 items ends without any end.\<close>

theorem lagging_reader_loses_the_end:
  "(\<forall>reads. (\<forall>i. \<exists>n. reads i = Some (Suc n)) \<longrightarrow> engine_infer reads M cfg q = engine_items M cfg q) \<and>
   engine_infer (\<lambda>_. Some 0) M cfg q = rbind (engine_items M cfg q) (\<lambda>items. Ok (take 64 items))"
proof (cases "rbind (context_new M (context_params_for cfg (iq_mode q))) (\<lambda>s.
           rbind (sampler_new M (iq_mode q) (iq_sampling q)) (\<lambda>stages. Ok (s, stages)))")
  case (Ok p)
  obtain s stages where p: "p = (s, stages)" by (cases p)
  have run: "run_sync M cfg q accept k = session_run M accept stages (session_request_of q) s k"
    for accept :: "inf_event \<Rightarrow> 'c \<Rightarrow> bool \<times> 'c" and k
    by (simp add: run_sync_def Ok p)
  obtain res es where v: "session_run M vec_accept stages (session_request_of q) s [] = (res, es)" by (metis surj_pair)
  note unfold = engine_infer_def engine_items_def run v
  show ?thesis
  proof (intro conjI allI impI)
    fix reads :: "nat \<Rightarrow> nat option" assume r: "\<forall>i. \<exists>n. reads i = Some (Suc n)"
    from prompt_session[OF r v] show "engine_infer reads M cfg q = engine_items M cfg q"
    proof (cases res)
      case (Err e)
      with prompt_session[OF r v] obtain c where c: "received c = map Ok es" "length (ch_queue c) \<le> 1"
        "session_run M (send_event reads) stages (session_request_of q) s channel_new = (Err e, c)" by auto
      obtain n where "reads (ch_sends c) = Some (Suc n)" using r by blast
      with c(1,2) have "received (snd (try_send reads (Err e) c)) = map Ok es @ [Err e]"
        by (simp add: try_send_def ENGINE_BUFFER_def received_def)
      then show ?thesis by (simp add: unfold c Err)
    qed (auto simp: unfold)
  next
    show "engine_infer (\<lambda>_. Some 0) M cfg q = rbind (engine_items M cfg q) (\<lambda>items. Ok (take 64 items))"
    proof (cases res)
      case (Err e)
      with lagging_session[OF v] obtain r2 c where c: "ch_taken c = []" "received c = take 64 (map Ok es)"
        "session_run M (send_event (\<lambda>_. Some 0)) stages (session_request_of q) s channel_new = (r2, c)"
        "r2 = Err e \<or> length es > 64 \<and> (\<exists>out. r2 = Ok out)" by auto
      have "received (snd (try_send (\<lambda>_. Some 0) (Err e) c)) = take 64 (map Ok es @ [Err e])"
        using lagging_send[OF c(1), of "Err e"] c(1,2) by (auto simp: received_def min_def)
      with c show ?thesis by (auto simp: unfold Err)
    qed (use lagging_session[OF v] in \<open>auto simp: unfold\<close>)
  qed
next
  case (Err e)
  have "engine_infer reads M cfg q = Ok [Err e]" if "reads 0 = Some n" for reads n
    using that by (simp add: engine_infer_def run_sync_def Err try_send_def ENGINE_BUFFER_def received_def)
  moreover have "engine_items M cfg q = Ok [Err e]" by (simp add: engine_items_def run_sync_def Err)
  ultimately show ?thesis by (metis (no_types, lifting) rbind.simps(1) take_Cons_numeral take_Nil)
qed (simp add: engine_infer_def engine_items_def run_sync_def)

section \<open>Concrete models\<close>

text \<open>A model that says \<open>a\<close> for ever, whatever the prompt.\<close>

definition demo_lm :: "nat lm" where
  "demo_lm = \<lparr>lm_tokenize = (\<lambda>txt len cap flag. (1, [5])), lm_eos = -1, lm_piece = (\<lambda>t. (1, [0x61])),
     lm_context = (\<lambda>p. Some 0), lm_n_ctx = (\<lambda>s. 8192), lm_stage_ok = (\<lambda>st. True),
     lm_decode = (\<lambda>ts s. (0, s)), lm_sample = (\<lambda>sts s. (7, Suc s)), lm_accept = (\<lambda>t s. s)\<rparr>"

definition demo_inference_request :: "nat \<Rightarrow> inference_request" where
  "demo_inference_request n = \<lparr>iq_prompt = [0x68], iq_max_tokens = n, iq_mode = Deterministic,
     iq_sampling = GREEDY_PARAMS, iq_stop = []\<rparr>"

lemma demo_encode: "encode demo_lm txt True = Ok [5]"
  by (simp add: encode_def encode_loop.simps demo_lm_def)

lemma demo_feed: "feed [] [0x61] = ([0x61], [])"
  by code_simp

lemma demo_lm_simps [simp]:
  "lm_eos demo_lm = -1" "lm_context demo_lm p = Some 0" "lm_n_ctx demo_lm n = 8192" "lm_stage_ok demo_lm st"
  "lm_decode demo_lm ts n = (0, n)" "lm_sample demo_lm sts n = (7, Suc n)" "lm_accept demo_lm t n = n"
  "token_to_piece demo_lm t = [0x61]"
  by (simp_all add: demo_lm_def token_to_piece_def)

lemma demo_lossy: "from_utf8_lossy [] = []"
  by (simp add: from_utf8_lossy.simps)

lemma gen_loop_2: "gen_loop M accept stages stop i 2 g = gen_loop M accept stages stop i (Suc (Suc 0)) g"
  by (simp only: numeral_2_eq_2)

lemma demo_session:
  "session_run demo_lm vec_accept [StGreedy] (session_request_of (demo_inference_request 2)) n [] =
     (Ok \<lparr>so_generated = [7, 7], so_text = [0x61, 0x61], so_reason = RMaxTokens\<rparr>,
      [TokenEvent 0 7 [0x61], TokenEvent 1 7 [0x61], StopEvent RMaxTokens])"
  by (simp add: session_run_def demo_inference_request_def session_request_of_def demo_encode uadd_def ucastn_def
      gen_loop_2 Let_def demo_feed demo_lossy vec_accept_def)

lemma demo_run:
  "run_sync demo_lm inference_config_default (demo_inference_request 2) vec_accept [] =
     (Ok \<lparr>so_generated = [7, 7], so_text = [0x61, 0x61], so_reason = RMaxTokens\<rparr>,
      [TokenEvent 0 7 [0x61], TokenEvent 1 7 [0x61], StopEvent RMaxTokens])"
  using demo_session[of 0]
  by (simp add: run_sync_def context_new_def sampler_new_def demo_inference_request_def sampler_stages_def)

theorem run_streams_its_tokens_witness:
  "\<exists>fs p. feed_all [] (map (token_to_piece demo_lm) [7, 7]) = (fs, p) \<and>
     [TokenEvent 0 7 [0x61], TokenEvent 1 7 [0x61], StopEvent RMaxTokens] = token_events 0 [7, 7] fs @ [StopEvent RMaxTokens]"
  using run_streams_its_tokens[OF demo_session] by auto

theorem lagging_reader_loses_the_end_witness:
  "engine_infer (\<lambda>_. Some 1) demo_lm inference_config_default (demo_inference_request 2) =
     Ok [Ok (TokenEvent 0 7 [0x61]), Ok (TokenEvent 1 7 [0x61]), Ok (StopEvent RMaxTokens)]"
proof -
  have "\<forall>i::nat. \<exists>n. (Some 1 :: nat option) = Some (Suc n)" by simp
  with lagging_reader_loses_the_end[of demo_lm inference_config_default "demo_inference_request 2", THEN conjunct1,
      rule_format, of "\<lambda>_. Some 1"]
  show ?thesis by (simp add: engine_items_def demo_run)
qed

section \<open>A request that stops the node\<close>

definition job_inference_request :: "llm_request \<Rightarrow> inference_request" where
  "job_inference_request lr =
     \<lparr>iq_prompt = lr_prompt lr, iq_max_tokens = lr_max_tokens lr,
      iq_mode = (if lr_deterministic lr then Deterministic else Serving),
      iq_sampling = (case lr_sampling lr of Greedy \<Rightarrow> GREEDY_PARAMS | Seeded seed \<Rightarrow> sampling_default\<lparr>sm_seed := seed\<rparr>),
      iq_stop = lr_stop lr\<rparr>"

fun llm_item_of :: "(inference_error \<Rightarrow> string) \<Rightarrow> stream_item \<Rightarrow> llm_item" where
  "llm_item_of shown (Ok (TokenEvent i t f)) = TokenItem f"
| "llm_item_of shown (Ok (StopEvent r)) = StopItem r"
| "llm_item_of shown (Err e) = FailItem (shown e)"
| "llm_item_of shown Panic = FailItem []"

text \<open>The engine as the compute role uses it: the loaded models by digest, and the reader's pace.\<close>

definition engine_llm ::
    "(model_ref \<Rightarrow> (string, hash256) result) \<Rightarrow> (hash256 \<Rightarrow> 's lm) \<Rightarrow> (inference_error \<Rightarrow> string) \<Rightarrow>
     (nat \<Rightarrow> nat option) \<Rightarrow> inference_config \<Rightarrow> llm_ext" where
  "engine_llm load models shown reads cfg =
     \<lparr>lx_load = load,
      lx_infer = (\<lambda>h lr. rbind (map_err (\<lambda>_. []) (engine_infer reads (models h) cfg (job_inference_request lr)))
        (\<lambda>items. Ok (map (llm_item_of shown) items)))\<rparr>"

lemma engine_infer_panics_iff:
  assumes "context_new M (context_params_for cfg (iq_mode q)) = Ok s" and "sampler_new M (iq_mode q) (iq_sampling q) = Ok stages"
    and "encode M (iq_prompt q) True = Ok toks" and "toks \<noteq> []"
  shows "engine_infer reads M cfg q = Panic \<longleftrightarrow> 2 ^ 32 \<le> ucastn 32 (length toks) + iq_max_tokens q"
  using assms
  by (auto simp: engine_infer_def run_sync_def session_run_def session_request_of_def uadd_def
      split: result.splits prod.splits if_splits)

text \<open>C1: A signed, fresh, well-formed request whose \<open>max_tokens\<close> is so large that adding the length of
  the prompt overflows thirty-two bits stops the compute node that receives it: no check on the way, in
  the verification of the request or in the runner, bounds the number, and the sum is taken before it is
  compared with the context. With a smaller number the engine never stops the node.\<close>

theorem one_request_stops_node:
  assumes "verify_request X K I req t = Ok ()" and "ix_unborsh_request I data = Some req"
    and "rq_encrypted_prompt req = None" and "now \<le> rq_timestamp_ms req + REQUEST_MAX_SKEW_MS"
    and "job_key X req \<notin> set (rn_nonces r)" and "model_ref_parse (rq_model_ref req) = Ok m" and "load m = Ok h"
    and "q = job_inference_request (inference_request_of req (rq_prompt req))"
    and "context_new (models h) (context_params_for cfg (iq_mode q)) = Ok s"
    and "sampler_new (models h) (iq_mode q) (iq_sampling q) = Ok stages"
    and "encode (models h) (rq_prompt req) True = Ok toks" and "toks \<noteq> []"
  shows "(2 ^ 32 \<le> ucastn 32 (length toks) + rq_max_tokens req \<longrightarrow>
       handle_inference_request X K I A (engine_llm load models shown reads cfg) (Some net) data t now end_ms r = Panic) \<and>
    (ucastn 32 (length toks) + rq_max_tokens req < 2 ^ 32 \<longrightarrow> engine_infer reads (models h) cfg q \<noteq> Panic)"
proof -
  have q: "iq_prompt q = rq_prompt req" "iq_max_tokens q = rq_max_tokens req"
    by (simp_all add: assms(8) job_inference_request_def inference_request_of_def)
  note p = engine_infer_panics_iff[OF assms(9,10) _ assms(12), of reads]
  have "rq_prompt req \<noteq> []" "rq_max_tokens req \<noteq> 0" using assms(1,3) by (auto simp: verify_request_Ok_iff)
  then have "fst (run_job X A (engine_llm load models shown reads cfg) req m (mint_job_id X req now) now r) = Panic"
    if "engine_infer reads (models h) cfg q = Panic"
    using that assms(3-8)
    by (simp add: run_job_def decrypt_prompt_def sat_sub_def nonce_insert_def engine_llm_def)
  then have "handle_inference_request X K I A (engine_llm load models shown reads cfg) (Some net) data t now end_ms r = Panic"
    if "engine_infer reads (models h) cfg q = Panic"
    using that assms(1,2,6) by (auto simp: handle_inference_request_def Let_def split: prod.splits)
  with p assms(11) q show ?thesis by auto
qed

definition greedy_infer :: infer_ext where
  "greedy_infer = mesh_infer\<lparr>ix_unborsh_request :=
     (\<lambda>_. Some (demo_request\<lparr>rq_model_ref := ''o/m-F16'', rq_max_tokens := 2 ^ 32 - 1\<rparr>))\<rparr>"

theorem one_request_stops_node_witness:
  "handle_inference_request split_ext demo_crypto greedy_infer demo_aead
     (engine_llm (\<lambda>m. Ok 0) (\<lambda>h. demo_lm) (\<lambda>e. []) (\<lambda>_. Some 1) inference_config_default) (Some mesh_net)
     [] 1000 1000 1500 runner_new = Panic"
proof -
  let ?req = "demo_request\<lparr>rq_model_ref := ''o/m-F16'', rq_max_tokens := 2 ^ 32 - 1\<rparr>"
  have v: "verify_request split_ext demo_crypto greedy_infer ?req 1000 = Ok ()"
    by (simp add: verify_request_Ok_iff demo_request_def verify_sig_Ok_iff demo_crypto_def
      ed25519_pubkey_def ed25519_sig_def signing_bytes_def greedy_infer_def mesh_infer_def demo_infer_def contains_window_def
      REQUEST_MAX_SKEW_MS_def)
  have f: "ix_unborsh_request greedy_infer [] = Some ?req" "rq_encrypted_prompt ?req = None"
    "1000 \<le> rq_timestamp_ms ?req + REQUEST_MAX_SKEW_MS" "job_key split_ext ?req \<notin> set (rn_nonces runner_new)"
    "model_ref_parse (rq_model_ref ?req) = Ok demo_model"
    by (simp_all add: greedy_infer_def demo_request_def runner_new_def demo_model_parses)
  have c: "context_new demo_lm p = Ok 0" "sampler_new demo_lm mode sp = Ok (sampler_stages mode sp)" for p mode sp
    by (simp_all add: context_new_def sampler_new_def list_all_iff)
  have "2 ^ 32 \<le> ucastn 32 (length [5 :: token]) + rq_max_tokens ?req" by (simp add: ucastn_def)
  with one_request_stops_node[OF v f refl refl c demo_encode] show ?thesis by simp
qed

section \<open>Loaded models\<close>

definition loaded_ok :: "ext \<Rightarrow> (bytes \<Rightarrow> 'm option) \<Rightarrow> (hash256, 'm) kv \<Rightarrow> bool" where
  "loaded_ok X llama_load cache \<longleftrightarrow>
     (\<forall>d m. kv_get cache d = Some m \<longrightarrow> (\<exists>bs. x_sha256 X bs = d \<and> llama_load bs = Some m))"

text \<open>A model that the engine hands out was loaded from bytes that hash to the digest which the
  registry has for its name, now or at an earlier load, whatever the mirrors answer and whatever was
  evicted from the disk in between; every loading keeps this of all the models in memory.\<close>

theorem loaded_model_is_registered:
  assumes "store_ok X s" and "loaded_ok X llama_load cache"
    and "engine_load X frames fetch rank rm_fails reg now llama_load r (cache, s) = (res, cache', s')"
  shows "store_ok X s' \<and> loaded_ok X llama_load cache' \<and>
    (\<forall>d m. res = Ok (d, m) \<longrightarrow> (\<exists>mf bs. registry_resolve reg r = Ok mf \<and> d = mf_sha256 mf \<and>
       x_sha256 X bs = d \<and> llama_load bs = Some m))"
proof -
  obtain p s1 where e: "ensure_local X frames fetch rank rm_fails reg now r s = (p, s1)" by (metis surj_pair)
  note l = ensure_local_spec[OF assms(1) e]
  show ?thesis
  proof (cases p)
    case (Ok f)
    with l obtain mf bs where f: "registry_resolve reg r = Ok mf" "so_files s1 f = Some bs" "x_sha256 X bs = mf_sha256 mf"
      by auto
    show ?thesis
    proof (cases "kv_get cache (mf_sha256 mf)")
      case None
      with assms(3) e Ok f have "s' = s1" "(res, cache') = (case llama_load bs of
          None \<Rightarrow> (Err (ModelLoad ''llama_model_load_from_file returned NULL''), cache)
        | Some m \<Rightarrow> (Ok (mf_sha256 mf, m), kv_put (mf_sha256 mf) m cache))"
        by (auto simp: engine_load_def Let_def split: option.splits)
      with l f assms(2) show ?thesis by (auto simp: loaded_ok_def kv_get_put split: option.splits if_splits)
    next
      case (Some m)
      with assms(3) e Ok f have "s' = s1" "res = Ok (mf_sha256 mf, m)" "cache' = cache"
        by (auto simp: engine_load_def Let_def)
      with l f assms(2) Some show ?thesis by (auto simp: loaded_ok_def)
    qed
  qed (use assms l e in \<open>auto simp: engine_load_def\<close>)
qed

theorem loaded_model_is_registered_witness:
  "\<exists>s' n. engine_load store_ext 1 demo_fetch (\<lambda>_. 0) (\<lambda>_. False) [model_ref_display demo_model \<mapsto> demo_file_manifest]
     3 (\<lambda>bs. Some (length bs)) demo_model (kv_empty, empty_store) = (Ok (7, n), kv_put 7 n kv_empty, s') \<and>
     store_ok store_ext s'"
proof -
  obtain s1 where e: "ensure_local store_ext 1 demo_fetch (\<lambda>_. 0) (\<lambda>_. False) [model_ref_display demo_model \<mapsto> demo_file_manifest]
     3 demo_model empty_store = (Ok (Final 7), s1)" using demo_pull by blast
  have ok: "store_ok store_ext empty_store" "loaded_ok store_ext (\<lambda>bs. Some (length bs)) kv_empty"
    by (simp_all add: store_ok_def empty_store_def loaded_ok_def)
  from ensure_local_spec[OF ok(1) e] obtain bs where "so_files s1 (Final 7) = Some bs" "x_sha256 store_ext bs = 7" by auto
  then have l: "engine_load store_ext 1 demo_fetch (\<lambda>_. 0) (\<lambda>_. False) [model_ref_display demo_model \<mapsto> demo_file_manifest]
     3 (\<lambda>bs. Some (length bs)) demo_model (kv_empty, empty_store) = (Ok (7, length bs), kv_put 7 (length bs) kv_empty, s1)"
    using e by (simp add: engine_load_def Let_def del: One_nat_def)
  from loaded_model_is_registered[OF ok l] l show ?thesis by auto
qed

end
