(* ===== verification/Rpc.thy ===== *)
theory Rpc
  imports InferenceSession Genesis
begin

text \<open>
  The HTTP interface of a node (\<^verbatim>\<open>crates/node/src/rpc.rs\<close>) with the OpenAI-compatible types
  (\<^verbatim>\<open>crates/rpc/src/openai.rs\<close>) and the handle through which it reads the chain and submits
  transactions (\<^verbatim>\<open>crates/consensus/src/engine.rs\<close>). A handler is a function of the state of the
  node; JSON values are records. Messages are given without the detail the code formats into them. What
  the handlers take from outside is in \<open>rpc_env\<close>: hex and URL parsing, the formats of keys, the clock,
  mirrors, the walk over the cache directory, llama.cpp and the pace of the HTTP reader.
\<close>

section \<open>State\<close>

datatype http_error = HttpError nat string | OpenAiError nat string string

datatype node_error =
  NodePaths string | NodeConfig string | NodeCommonConfig string | NodeModelManager model_error | NodeInference inference_error | NodeModelRef string
| NodeNotImplemented string | RoleNotImplemented string

definition http_error :: "node_error \<Rightarrow> http_error" where
  "http_error e = (case e of
     NodeModelRef msg \<Rightarrow> HttpError 400 msg
   | NodeNotImplemented msg \<Rightarrow> HttpError 501 msg
   | RoleNotImplemented msg \<Rightarrow> HttpError 501 msg
   | NodePaths msg \<Rightarrow> HttpError 500 msg
   | NodeConfig msg \<Rightarrow> HttpError 500 msg
   | NodeCommonConfig msg \<Rightarrow> HttpError 500 msg
   | NodeModelManager e \<Rightarrow> HttpError 500 ''model-manager''
   | NodeInference i \<Rightarrow> HttpError 500 ''inference'')"

record 's rpc =
  rp_chain_id :: string
  rp_tee_enabled :: bool
  rp_data_dir :: bytes
  rp_manifests :: "(string, model_file_manifest) kv"
  rp_registry :: mock_registry
  rp_store :: store
  rp_engine_models :: "(hash256, 's lm) kv"
  rp_loaded :: "string list option"
  rp_net :: "node_net option"
  rp_peers :: "bytes list option"
  rp_consensus :: "engine option"
  rp_engine_runs :: bool
  rp_router :: "runner router option"

record 's rpc_env =
  ev_hex_decode :: "string \<Rightarrow> bytes option"
  ev_url_ok :: "string \<Rightarrow> bool"
  ev_unborsh_stx :: "bytes \<Rightarrow> signed_transaction option"
  ev_borsh_offer :: "pool_offer \<Rightarrow> bytes"
  ev_debug_key :: "pubkey \<Rightarrow> string"
  ev_show_error :: "inference_error \<Rightarrow> bytes"
  ev_now_ms :: timestamp
  ev_unix :: "nat \<Rightarrow> nat"
  ev_frames :: nat
  ev_fetch :: "string \<Rightarrow> nat \<Rightarrow> http_answer"
  ev_rank :: "hash256 \<Rightarrow> nat"
  ev_rm_fails :: "path \<Rightarrow> bool"
  ev_key_rank :: "string \<Rightarrow> nat"
  ev_walk :: "(path \<Rightarrow> bytes option) \<Rightarrow> (hash256 \<times> nat) list"
  ev_llama :: "bytes \<Rightarrow> 's lm option"
  ev_reads :: "nat \<Rightarrow> nat option"
  ev_config :: inference_config

definition register_manifest :: "model_ref \<Rightarrow> model_file_manifest \<Rightarrow> 's rpc \<Rightarrow> 's rpc" where
  "register_manifest r m st = st\<lparr>rp_manifests := kv_put (model_ref_display r) m (rp_manifests st)\<rparr>"

definition manifest_for :: "model_ref \<Rightarrow> 's rpc \<Rightarrow> model_file_manifest option" where
  "manifest_for r st = kv_get (rp_manifests st) (model_ref_display r)"

text \<open>The routes that the server installs.\<close>

definition routes :: "(string \<times> string) list" where
  "routes = [(''GET'', ''/health''), (''GET'', ''/peers''), (''POST'', ''/v1/chat/completions''),
     (''GET'', ''/v1/models''), (''POST'', ''/v1/models/load''), (''POST'', ''/v1/inference''),
     (''GET'', ''/v1/status''), (''GET'', ''/v1/account/:address''), (''POST'', ''/v1/tx''),
     (''GET'', ''/v1/gateways''), (''GET'', ''/v1/block/:height''), (''GET'', ''/v1/tx/:hash'')]"

section \<open>Models\<close>

definition list_peers :: "'s rpc \<Rightarrow> bytes option \<times> bytes list" where
  "list_peers st =
     (case rp_net st of
        None \<Rightarrow> (None, [])
      | Some net \<Rightarrow> (Some (nn_peer_id net), case rp_peers st of Some ps \<Rightarrow> ps | None \<Rightarrow> []))"

definition manifest_keys :: "'s rpc_env \<Rightarrow> 's rpc \<Rightarrow> string list" where
  "manifest_keys env st = map fst (sort_key (ev_key_rank env \<circ> fst) (kv_entries (rp_manifests st)))"

definition list_models :: "ext \<Rightarrow> 's rpc_env \<Rightarrow> 's rpc \<Rightarrow> (string \<times> string) list" where
  "list_models X env st =
     map (\<lambda>(k, m). (k, x_hex_encode X (word_bytes (mf_sha256 m))))
       (sort_key (ev_key_rank env \<circ> fst) (kv_entries (rp_manifests st)))"

record load_request =
  lq_model_ref :: string
  lq_url :: string
  lq_sha256 :: string
  lq_size_bytes :: nat
  lq_quant :: "string option"

definition parse_digest :: "'s rpc_env \<Rightarrow> string \<Rightarrow> (node_error, hash256) result" where
  "parse_digest env hex_s =
     (case ev_hex_decode env hex_s of
        None \<Rightarrow> Err (NodeModelRef ''bad sha256 hex'')
      | Some bs \<Rightarrow>
          if length bs \<noteq> 32 then Err (NodeModelRef ''sha256 must be 32 bytes / 64 hex chars'')
          else Ok (word_rcat bs))"

definition build_manifest ::
    "'s rpc_env \<Rightarrow> model_ref \<Rightarrow> string \<Rightarrow> string \<Rightarrow> nat \<Rightarrow> string option \<Rightarrow> (node_error, model_file_manifest) result" where
  "build_manifest env r url sha256_hex sz quant_override =
     (if \<not> ev_url_ok env url then Err (NodeModelRef ''bad url'')
      else rbind (parse_digest env sha256_hex) (\<lambda>digest.
           rbind (case quant_override of
                    Some s \<Rightarrow> (case quant_parse s of Some q \<Rightarrow> Ok q | None \<Rightarrow> Err (NodeModelRef ''unknown quant''))
                  | None \<Rightarrow> Ok (mr_quant r)) (\<lambda>quant.
           Ok \<lparr>mf_model_ref = r, mf_mirrors = [url], mf_sha256 = digest, mf_size_bytes = sz, mf_quant = quant\<rparr>)))"

text \<open>The manifest goes into the table and the registry before the model is loaded; a model that loads
  makes the node announce everything in the table.\<close>

definition do_load ::
    "ext \<Rightarrow> 's rpc_env \<Rightarrow> load_request \<Rightarrow> 's rpc \<Rightarrow>
     (node_error, string \<times> hash256) result \<times> 's rpc \<times> (string \<times> bytes) list" where
  "do_load X env req st =
     (case rbind (map_err (\<lambda>_. NodeModelRef ''invalid model reference'') (model_ref_parse (lq_model_ref req))) (\<lambda>r.
           rbind (build_manifest env r (lq_url req) (lq_sha256 req) (lq_size_bytes req) (lq_quant req)) (\<lambda>m. Ok (r, m))) of
        Err e \<Rightarrow> (Err e, st, [])
      | Panic \<Rightarrow> (Panic, st, [])
      | Ok (r, m) \<Rightarrow>
         (let st1 = register_manifest r m st;
              st2 = st1\<lparr>rp_registry := registry_insert (model_ref_display r) m (rp_registry st1)\<rparr>
          in case engine_load X (ev_frames env) (ev_fetch env) (ev_rank env) (ev_rm_fails env) (rp_registry st2)
                    (ev_now_ms env) (ev_llama env) r (rp_engine_models st2, rp_store st2) of
               (res, models, s) \<Rightarrow>
                 (let st3 = st2\<lparr>rp_engine_models := models, rp_store := s\<rparr>
                  in case res of
                       Err e \<Rightarrow> (Err (NodeInference e), st3, [])
                     | Panic \<Rightarrow> (Panic, st3, [])
                     | Ok (digest, handle) \<Rightarrow>
                        (let refs = manifest_keys env st3;
                             st4 = st3\<lparr>rp_loaded := map_option (\<lambda>_. refs) (rp_loaded st3)\<rparr>;
                             out = (case rp_net st4 of
                                      None \<Rightarrow> []
                                    | Some net \<Rightarrow> announce_models (ev_borsh_offer env) net refs
                                        (local_operator X (rp_data_dir st4)) (rp_tee_enabled st4) (ev_now_ms env))
                         in (Ok (model_ref_display r, digest), st4, out)))))"

definition load_model ::
    "ext \<Rightarrow> 's rpc_env \<Rightarrow> load_request \<Rightarrow> 's rpc \<Rightarrow>
     (http_error, string \<times> hash256) result \<times> 's rpc \<times> (string \<times> bytes) list" where
  "load_model X env req st = (case do_load X env req st of (res, st', out) \<Rightarrow> (map_err http_error res, st', out))"

text \<open>The one-off runtime of a request: a registry with one manifest, the same directory, no model in
  memory.\<close>

definition temp_load ::
    "ext \<Rightarrow> 's rpc_env \<Rightarrow> model_ref \<Rightarrow> model_file_manifest \<Rightarrow> 's rpc \<Rightarrow>
     (inference_error, hash256 \<times> 's lm) result \<times> 's rpc" where
  "temp_load X env r m st =
     (let files = so_files (rp_store st);
          s0 = cache_open (ev_walk env files) (so_max_bytes (rp_store st)) files
      in case engine_load X (ev_frames env) (ev_fetch env) (ev_rank env) (ev_rm_fails env)
                [model_ref_display r \<mapsto> m] (ev_now_ms env) (ev_llama env) r (kv_empty, s0) of
           (res, _, s1) \<Rightarrow> (res, st\<lparr>rp_store := (rp_store st)\<lparr>so_files := so_files s1\<rparr>\<rparr>))"

section \<open>Chat completions\<close>

record chat_message =
  cm_role :: bytes
  cm_content :: bytes

datatype stop_condition = Single bytes | Multiple "bytes list"

fun into_vec :: "stop_condition \<Rightarrow> bytes list" where
  "into_vec (Single s) = [s]"
| "into_vec (Multiple v) = v"

text \<open>The temperature and the nucleus are given after the cast to \<^verbatim>\<open>f32\<close>.\<close>

record chat_request =
  cq_model :: string
  cq_messages :: "chat_message list"
  cq_max_tokens :: nat
  cq_temperature :: f32
  cq_top_p :: f32
  cq_stream :: bool
  cq_stop :: "stop_condition option"
  cq_n :: nat
  cq_prefer_tee :: bool
  cq_require_https :: bool

record usage =
  us_prompt_tokens :: nat
  us_completion_tokens :: nat
  us_total_tokens :: nat

record chat_response =
  cr_id :: string
  cr_created :: nat
  cr_model :: string
  cr_message :: chat_message
  cr_finish_reason :: "string option"
  cr_usage :: usage

record chat_chunk =
  ck_id :: string
  ck_created :: nat
  ck_model :: string
  ck_role :: "bytes option"
  ck_content :: "bytes option"
  ck_finish_reason :: "string option"

datatype chat_reply = Stream "chat_chunk list" | Whole chat_response

definition gen_request_id :: "ext \<Rightarrow> nat \<Rightarrow> string" where
  "gen_request_id X ts = ''chatcmpl-'' @ x_hex_encode X (u64_be_bytes ts)"

definition message_line :: "chat_message \<Rightarrow> bytes" where
  "message_line m = cm_role m @ str_bytes '': '' @ cm_content m"

definition newline :: bytes where "newline = [0x0A]"

fun join_lines :: "bytes list \<Rightarrow> bytes" where
  "join_lines [] = []"
| "join_lines [l] = l"
| "join_lines (l # m # ls) = l @ newline @ join_lines (m # ls)"

definition chat_prompt :: "chat_message list \<Rightarrow> bytes" where
  "chat_prompt ms = join_lines (map message_line ms)"

definition finish_name :: "stop_reason \<Rightarrow> string" where
  "finish_name r = (case r of RMaxTokens \<Rightarrow> ''length'' | _ \<Rightarrow> ''stop'')"

text \<open>One chunk per event; \<open>i\<close> counts them for the clock.\<close>

fun chat_chunks :: "'s rpc_env \<Rightarrow> string \<Rightarrow> string \<Rightarrow> nat \<Rightarrow> bool \<Rightarrow> stream_item list \<Rightarrow> chat_chunk list" where
  "chat_chunks env rid model i is_first [] = []"
| "chat_chunks env rid model i is_first (it # items) =
     (let (role, content, finish, is_first') = (case it of
            Ok (TokenEvent idx t txt) \<Rightarrow> (if is_first then Some (str_bytes ''assistant'') else None, Some txt, None, False)
          | Ok (StopEvent r) \<Rightarrow> (None, None, Some (finish_name r), is_first)
          | Err e \<Rightarrow> (None, Some (str_bytes ''[error: '' @ ev_show_error env e @ str_bytes '']''), Some ''stop'', is_first)
          | Panic \<Rightarrow> (None, None, None, is_first))
      in \<lparr>ck_id = rid, ck_created = ev_unix env i, ck_model = model, ck_role = role, ck_content = content,
          ck_finish_reason = finish\<rparr> # chat_chunks env rid model (Suc i) is_first' items)"

text \<open>The collected answer; the first error of the stream ends the collection.\<close>

definition collect_event :: "stream_item \<Rightarrow> bytes \<times> string \<times> nat \<Rightarrow> (inference_error, bytes \<times> string \<times> nat) result" where
  "collect_event it acc = (case acc of (txt, finish, n) \<Rightarrow>
     (case it of
        Ok (TokenEvent idx t f) \<Rightarrow> rbind (uadd 32 n 1) (\<lambda>n'. Ok (txt @ f, finish, n'))
      | Ok (StopEvent r) \<Rightarrow> Ok (txt, if r = RMaxTokens then ''length'' else finish, n)
      | Err e \<Rightarrow> Err e
      | Panic \<Rightarrow> Panic))"

definition chat_request_of :: "chat_request \<Rightarrow> inference_request" where
  "chat_request_of req =
     \<lparr>iq_prompt = chat_prompt (cq_messages req), iq_max_tokens = cq_max_tokens req, iq_mode = Serving,
      iq_sampling = sampling_default\<lparr>sm_temperature := cq_temperature req, sm_top_p := cq_top_p req\<rparr>,
      iq_stop = (case cq_stop req of Some c \<Rightarrow> into_vec c | None \<Rightarrow> [])\<rparr>"

definition chat_reply_of ::
    "ext \<Rightarrow> 's rpc_env \<Rightarrow> chat_request \<Rightarrow> stream_item list \<Rightarrow> (http_error, chat_reply) result" where
  "chat_reply_of X env req items =
     (let rid = gen_request_id X (ev_unix env 0)
      in if cq_stream req then Ok (Stream (chat_chunks env rid (cq_model req) 0 True items))
         else rbind (map_err (\<lambda>_. OpenAiError 500 ''inference'' ''server_error'')
                       (rfold collect_event items ([], ''stop'', 0))) (\<lambda>(txt, finish, n).
              Ok (Whole \<lparr>cr_id = rid, cr_created = ev_unix env 0, cr_model = cq_model req,
                cr_message = \<lparr>cm_role = str_bytes ''assistant'', cm_content = txt\<rparr>,
                cr_finish_reason = Some finish,
                cr_usage = \<lparr>us_prompt_tokens = 0, us_completion_tokens = n, us_total_tokens = n\<rparr>\<rparr>)))"

definition chat_completions ::
    "ext \<Rightarrow> 's rpc_env \<Rightarrow> chat_request \<Rightarrow> 's rpc \<Rightarrow> (http_error, chat_reply) result \<times> 's rpc" where
  "chat_completions X env req st =
     (if cq_messages req = [] then (Err (OpenAiError 400 ''messages array is empty'' ''invalid_request_error''), st)
      else if cq_prefer_tee req \<and> \<not> rp_tee_enabled st
      then (Err (OpenAiError 503 ''prefer_tee requested but this node has no TEE capability'' ''tee_unavailable''), st)
      else case model_ref_parse (cq_model req) of
        Err e \<Rightarrow> (Err (OpenAiError 400 ''invalid model'' ''invalid_request_error''), st)
      | Panic \<Rightarrow> (Panic, st)
      | Ok r \<Rightarrow>
         (case manifest_for r st of
            None \<Rightarrow> (Err (OpenAiError 404 ''model not loaded'' ''model_not_found''), st)
          | Some m \<Rightarrow>
             (case temp_load X env r m st of
                (Err e, st') \<Rightarrow> (Err (OpenAiError 500 ''model load failed'' ''server_error''), st')
              | (Panic, st') \<Rightarrow> (Panic, st')
              | (Ok (digest, M), st') \<Rightarrow>
                  (rbind (map_err (\<lambda>_. OpenAiError 500 ''inference'' ''server_error'')
                            (engine_infer (ev_reads env) M (ev_config env) (chat_request_of req)))
                     (chat_reply_of X env req), st'))))"

section \<open>Raw inference\<close>

record infer_body =
  ib_model_ref :: string
  ib_prompt :: bytes
  ib_max_tokens :: nat
  ib_mode :: string
  ib_stop :: "bytes list"

definition default_max_tokens :: nat where "default_max_tokens = 64"

definition parse_mode :: "string \<Rightarrow> (http_error, inference_mode) result" where
  "parse_mode s =
     (if s = ''serving'' then Ok Serving else if s = ''deterministic'' then Ok Deterministic
      else Err (http_error (NodeModelRef ''unknown mode'')))"

definition rpc_infer ::
    "ext \<Rightarrow> 's rpc_env \<Rightarrow> infer_body \<Rightarrow> 's rpc \<Rightarrow> (http_error, stream_item list) result \<times> 's rpc" where
  "rpc_infer X env req st =
     (case rbind (map_err (\<lambda>_. http_error (NodeModelRef ''invalid model reference'')) (model_ref_parse (ib_model_ref req))) (\<lambda>r.
           case manifest_for r st of
             None \<Rightarrow> Err (http_error (NodeModelRef ''model not loaded''))
           | Some m \<Rightarrow> rbind (parse_mode (ib_mode req)) (\<lambda>mode. Ok (r, m, mode))) of
        Err e \<Rightarrow> (Err e, st)
      | Panic \<Rightarrow> (Panic, st)
      | Ok (r, m, mode) \<Rightarrow>
         (case temp_load X env r m st of
            (Err e, st') \<Rightarrow> (Err (http_error (NodeInference e)), st')
          | (Panic, st') \<Rightarrow> (Panic, st')
          | (Ok (digest, M), st') \<Rightarrow>
              (map_err (\<lambda>_. HttpError 500 ''inference'')
                 (engine_infer (ev_reads env) M (ev_config env)
                    \<lparr>iq_prompt = ib_prompt req, iq_max_tokens = ib_max_tokens req, iq_mode = mode,
                     iq_sampling = (if mode = Deterministic then GREEDY_PARAMS else sampling_default),
                     iq_stop = ib_stop req\<rparr>), st')))"

section \<open>The consensus handle\<close>

text \<open>Commands go through the task of the engine, reads to the database.\<close>

definition handle_submit_tx ::
    "ext \<Rightarrow> signed_transaction \<Rightarrow> engine \<Rightarrow> bool \<Rightarrow> (string, hash256) result \<times> engine" where
  "handle_submit_tx X tx e runs =
     (if \<not> runs then (Err ''engine task exited'', e)
      else case on_submit_tx X tx e of
        None \<Rightarrow> (Panic, e)
      | Some (e', r) \<Rightarrow> (map_err (\<lambda>_. ''rejected by the pool'') r, e'))"

definition handle_current_height :: "engine \<Rightarrow> bool \<Rightarrow> (string, height) result" where
  "handle_current_height e runs = (if runs then Ok (en_height e) else Err ''engine task exited'')"

definition handle_get_account :: "address \<Rightarrow> engine \<Rightarrow> account option" where
  "handle_get_account a e = st_get_account (en_chain e) a"

definition handle_iter_gateways :: "engine \<Rightarrow> gateway_entry list" where
  "handle_iter_gateways e = iter_gateways (en_chain e)"

definition handle_validator_count :: "engine \<Rightarrow> nat" where
  "handle_validator_count e = ucastn 32 (length (iter_validators (en_chain e)))"

definition handle_get_block :: "height \<Rightarrow> engine \<Rightarrow> block option" where
  "handle_get_block h e = st_get_block (en_chain e) h"

definition handle_get_tx_height :: "hash256 \<Rightarrow> engine \<Rightarrow> height option" where
  "handle_get_tx_height h e = get_tx_height (en_chain e) h"

section \<open>The chain over HTTP\<close>

definition no_engine :: http_error where "no_engine = HttpError 503 ''consensus engine not running on this node''"

record status_response =
  sp_chain_id :: string
  sp_height :: "height option"
  sp_peer_count :: "nat option"
  sp_consensus_running :: bool

definition rpc_status :: "'s rpc \<Rightarrow> status_response" where
  "rpc_status st =
     \<lparr>sp_chain_id = rp_chain_id st,
      sp_height = (case rp_consensus st of
          Some e \<Rightarrow> (case handle_current_height e (rp_engine_runs st) of Ok h \<Rightarrow> Some h | _ \<Rightarrow> None)
        | None \<Rightarrow> None),
      sp_peer_count = (case rp_net st of Some n \<Rightarrow> map_option length (rp_peers st) | None \<Rightarrow> None),
      sp_consensus_running = (rp_consensus st \<noteq> None)\<rparr>"

definition rpc_get_account ::
    "'s rpc_env \<Rightarrow> string \<Rightarrow> 's rpc \<Rightarrow> (http_error, string \<times> amount \<times> nonce) result" where
  "rpc_get_account env s st =
     (let clean = strip_0x s
      in case ev_hex_decode env clean of
        None \<Rightarrow> Err (HttpError 400 ''bad address hex'')
      | Some bs \<Rightarrow>
          if length bs \<noteq> 20 then Err (HttpError 400 ''address must be 20 bytes (40 hex chars)'')
          else (case rp_consensus st of
             None \<Rightarrow> Err (HttpError 503 ''consensus not running'')
           | Some e \<Rightarrow>
              (case handle_get_account (word_rcat bs) e of
                 Some acct \<Rightarrow> Ok (''0x'' @ clean, balance acct, nonce acct)
               | None \<Rightarrow> Err (HttpError 404 ''account not found''))))"

definition rpc_submit_tx ::
    "ext \<Rightarrow> 's rpc_env \<Rightarrow> string \<Rightarrow> 's rpc \<Rightarrow> (http_error, string) result \<times> 's rpc" where
  "rpc_submit_tx X env tx_hex st =
     (case rp_consensus st of
        None \<Rightarrow> (Err no_engine, st)
      | Some e \<Rightarrow>
         (case ev_hex_decode env (strip_0x tx_hex) of
            None \<Rightarrow> (Err (HttpError 400 ''tx_hex''), st)
          | Some bs \<Rightarrow>
             (case ev_unborsh_stx env bs of
                None \<Rightarrow> (Err (HttpError 400 ''tx decode''), st)
              | Some tx \<Rightarrow>
                 (case handle_submit_tx X tx e (rp_engine_runs st) of
                    (r, e') \<Rightarrow> (rbind (map_err (HttpError 400) r) (\<lambda>h. Ok (x_hex_encode X (word_bytes h))),
                               st\<lparr>rp_consensus := Some e'\<rparr>)))))"

definition bootstrap_status :: "'s rpc \<Rightarrow> bool \<times> height \<times> nat" where
  "bootstrap_status st =
     (let h = (case rp_consensus st of
                 Some e \<Rightarrow> (case handle_current_height e (rp_engine_runs st) of Ok h \<Rightarrow> h | _ \<Rightarrow> 0)
               | None \<Rightarrow> 0);
          n = (case rp_consensus st of Some e \<Rightarrow> handle_validator_count e | None \<Rightarrow> 1)
      in (in_bootstrap_epoch h n, h, n))"

definition node_id_display :: "ext \<Rightarrow> node_id \<Rightarrow> string" where
  "node_id_display X n = ''node:'' @ x_hex_encode X (word_bytes n)"

definition address_display :: "ext \<Rightarrow> address \<Rightarrow> string" where
  "address_display X a = ''0x'' @ x_hex_encode X (word_bytes a)"

definition list_candidates ::
    "ext \<Rightarrow> 's rpc_env \<Rightarrow> string \<Rightarrow> 's rpc \<Rightarrow> (http_error, string list) result" where
  "list_candidates X env model st =
     (case rp_router st of
        None \<Rightarrow> Err (HttpError 503 ''no router role active on this node'')
      | Some rt \<Rightarrow>
          Ok (map (\<lambda>c. node_id_display X (ca_node_id c)) (registry_eligible (rt_registry rt) model (ev_now_ms env))))"

definition list_gateways :: "ext \<Rightarrow> 's rpc \<Rightarrow> (string \<times> string \<times> string \<times> bool \<times> height) list" where
  "list_gateways X st =
     (case rp_consensus st of
        None \<Rightarrow> []
      | Some e \<Rightarrow> map (\<lambda>g. (node_id_display X (ge_node_id g), address_display X (ge_operator g), ge_url g, ge_https g,
                         ge_registered_at g)) (handle_iter_gateways e))"

record block_response =
  br_height :: height
  br_hash :: string
  br_parent_hash :: string
  br_state_root :: string
  br_tx_root :: string
  br_timestamp_ms :: timestamp
  br_tx_count :: nat
  br_base_fee :: amount
  br_proposer :: string
  br_genesis_message :: string

definition rpc_get_block :: "ext \<Rightarrow> height \<Rightarrow> 's rpc \<Rightarrow> (http_error, block_response) result" where
  "rpc_get_block X h st =
     (case rp_consensus st of
        None \<Rightarrow> Err no_engine
      | Some e \<Rightarrow>
         (case handle_get_block h e of
            None \<Rightarrow> Err (HttpError 404 ''block not found'')
          | Some b \<Rightarrow>
             (let hdr = bl_header b
              in Ok \<lparr>br_height = bh_height hdr, br_hash = x_hex_encode X (word_bytes (header_hash X hdr)),
                   br_parent_hash = x_hex_encode X (word_bytes (bh_parent_hash hdr)),
                   br_state_root = x_hex_encode X (word_bytes (bh_state_root hdr)),
                   br_tx_root = x_hex_encode X (word_bytes (bh_tx_root hdr)),
                   br_timestamp_ms = bh_timestamp_ms hdr, br_tx_count = length (bl_txs b),
                   br_base_fee = bh_base_fee hdr, br_proposer = node_id_display X (bh_proposer hdr),
                   br_genesis_message = bh_genesis_message hdr\<rparr>)))"

fun classify_tx_type :: "transaction \<Rightarrow> string" where
  "classify_tx_type (Transfer a b c d e) = ''Transfer''"
| "classify_tx_type (StakeOp op) = ''StakeOp''"
| "classify_tx_type (ReceiptBatchTx b) = ''ReceiptBatch''"
| "classify_tx_type (RegisterModel a b c) = ''RegisterModel''"
| "classify_tx_type (GovProposal p) = ''GovProposal''"
| "classify_tx_type (GovVote a b c) = ''GovVote''"
| "classify_tx_type (DisputeTx d) = ''Dispute''"
| "classify_tx_type (EscrowLock a b c d e) = ''EscrowLock''"
| "classify_tx_type (EscrowSettle a b c d e f) = ''EscrowSettle''"
| "classify_tx_type (RewardMint a b c d e f g) = ''RewardMint''"
| "classify_tx_type (RegisterTeeCapability a b c) = ''RegisterTeeCapability''"
| "classify_tx_type (RegisterGateway a b c d) = ''RegisterGateway''"
| "classify_tx_type (UnregisterGateway a b) = ''UnregisterGateway''"

record tx_response =
  tr_tx_hash :: string
  tr_block_height :: height
  tr_tx_type :: string
  tr_from :: string

definition rpc_get_tx ::
    "ext \<Rightarrow> 's rpc_env \<Rightarrow> string \<Rightarrow> 's rpc \<Rightarrow> (http_error, tx_response) result" where
  "rpc_get_tx X env hash_hex st =
     (case rp_consensus st of
        None \<Rightarrow> Err no_engine
      | Some e \<Rightarrow>
         (let clean = strip_0x hash_hex
          in case ev_hex_decode env clean of
               None \<Rightarrow> Err (HttpError 400 ''invalid tx hash hex'')
             | Some bs \<Rightarrow>
                 if length bs \<noteq> 32 then Err (HttpError 400 ''tx hash must be 32 bytes (64 hex chars)'')
                 else (case handle_get_tx_height (word_rcat bs) e of
                    None \<Rightarrow> Err (HttpError 404 ''transaction not found'')
                  | Some h \<Rightarrow>
                     (let (tx_type, sender) =
                        (case (case handle_get_block h e of
                                 None \<Rightarrow> None
                               | Some b \<Rightarrow> find (\<lambda>tx. x_hex_encode X (word_bytes (stx_hash X tx)) = clean) (bl_txs b)) of
                           Some tx \<Rightarrow> (classify_tx_type (stx_tx tx), ev_debug_key env (stx_signer tx))
                         | None \<Rightarrow> (''unknown'', ''unknown''))
                      in Ok \<lparr>tr_tx_hash = ''0x'' @ clean, tr_block_height = h, tr_tx_type = tx_type,
                           tr_from = sender\<rparr>))))"

section \<open>Transactions that were committed\<close>

lemma takeWhile_keys:
  fixes k :: "'k::linorder"
  assumes "sorted_wrt (<) (map fst es)"
  shows "takeWhile (\<lambda>e. fst e < k) es = filter (\<lambda>e. fst e < k) es"
  using assms
proof (induction es)
  case (Cons e es)
  show ?case
  proof (cases "fst e < k")
    case False
    with Cons.prems have "\<forall>x \<in> set es. \<not> fst x < k" by (auto dest: less_trans)
    with False show ?thesis by (simp add: filter_empty_conv)
  qed (use Cons in simp)
qed simp

lemma index_store:
  "kv_get (cf_tx_index (store_block X h b d)) t =
     (if t \<in> stx_hash X ` set (bl_txs b) then Some h else kv_get (cf_tx_index d) t)"
proof -
  have "kv_get (cf_tx_index (fold (\<lambda>tx d. d\<lparr>cf_tx_index := kv_put (stx_hash X tx) h (cf_tx_index d)\<rparr>) txs d)) t =
      (if t \<in> stx_hash X ` set txs then Some h else kv_get (cf_tx_index d) t)" for txs and d :: db
    by (induction txs arbitrary: d) auto
  then show ?thesis by (simp add: store_block_def Let_def)
qed

lemma index_prune_block:
  "kv_get (cf_tx_index (prune_block X e d)) t =
     (if t \<in> stx_hash X ` set (bl_txs (snd e)) then None else kv_get (cf_tx_index d) t)"
proof -
  have "kv_get (cf_tx_index (fold (\<lambda>tx d. d\<lparr>cf_tx_index := kv_del (stx_hash X tx) (cf_tx_index d)\<rparr>) txs d)) t =
      (if t \<in> stx_hash X ` set txs then None else kv_get (cf_tx_index d) t)" for txs and d :: db
    by (induction txs arbitrary: d) auto
  then show ?thesis by (simp add: prune_block_def Let_def)
qed

lemma index_prune:
  "kv_get (cf_tx_index (snd (prune_blocks_before X k d))) t =
     (if \<exists>h b. kv_get (cf_blocks d) h = Some b \<and> h < k \<and> t \<in> stx_hash X ` set (bl_txs b) then None
      else kv_get (cf_tx_index d) t)"
proof -
  have "kv_get (cf_tx_index (fold (prune_block X) es d)) t =
      (if \<exists>e \<in> set es. t \<in> stx_hash X ` set (bl_txs (snd e)) then None else kv_get (cf_tx_index d) t)" for es d
    by (induction es arbitrary: d) (auto simp: index_prune_block)
  moreover have "takeWhile (\<lambda>e. fst e < k) (kv_entries (cf_blocks d)) = filter (\<lambda>e. fst e < k) (kv_entries (cf_blocks d))"
    by (rule takeWhile_keys[OF kv.entries_ordered])
  ultimately show ?thesis
    by (simp add: prune_blocks_before_def Let_def) (auto simp: kv.mem_entries)
qed

text \<open>A block that leaves the retained range while \<open>h\<close> is committed holds a transaction of that hash.\<close>

definition forgotten :: "ext \<Rightarrow> state \<Rightarrow> height \<Rightarrow> hash256 \<Rightarrow> bool" where
  "forgotten X s h t \<longleftrightarrow> (\<exists>h' old. kv_get (cf_blocks (st_db s)) h' = Some old \<and> h' + BLOCK_RETENTION < h \<and>
     t \<in> stx_hash X ` set (bl_txs old))"

lemma blocks_view: "cf_blocks (view c) = cf_blocks (st_db (ctx_state c))"
proof -
  have "cf_blocks (write_op op d) = cf_blocks d" for op d by (cases op) simp_all
  then have "cf_blocks (fold write_op ops d) = cf_blocks d" for ops d by (induction ops arbitrary: d) simp_all
  then show ?thesis by (simp add: view_def write_batch_def)
qed

lemma tx_index_commit:
  assumes "commit_block X s mp b = Ok (s', mp', rep)" and "stx \<in> set (bl_txs b)"
  shows "get_tx_height s' (stx_hash X stx) =
      (if forgotten X s (bh_height (bl_header b)) (stx_hash X stx) then None else Some (bh_height (bl_header b))) \<and>
    st_get_block s' (bh_height (bl_header b)) = Some b"
  using assms(1)
proof (cases rule: commit_block_cases)
  case (1 c1 n c2 c3 c4 d)
  let ?h = "bh_height (bl_header b)"
  have "keeps (begin_block s) c4" unfolding 1(4) by (intro keeps_step keeps_commit[OF 1(1-3)])
  then have "cf_blocks (view c4) = cf_blocks (st_db s)" by (simp add: blocks_view keeps_def begin_block_def)
  then have blocks: "cf_blocks d = kv_put ?h b (cf_blocks (st_db s))" by (simp add: 1(6) blocks_store)
  have index: "kv_get (cf_tx_index d) (stx_hash X stx) = Some ?h" using assms(2) by (simp add: 1(6) index_store)
  have b: "st_get_block s' ?h = Some b"
    unfolding st_get_block_def 1(7) by (simp add: blocks_prune 1(6) blocks_store)
  have "kv_get (cf_blocks d) h' = Some b' \<and> h' < ?h - BLOCK_RETENTION \<and> P \<longleftrightarrow>
      kv_get (cf_blocks (st_db s)) h' = Some b' \<and> h' + BLOCK_RETENTION < ?h \<and> P" for h' b' P
    by (auto simp: blocks less_diff_conv)
  then have "forgotten X s ?h (stx_hash X stx) \<longleftrightarrow> BLOCK_RETENTION < ?h \<and>
      (\<exists>h b'. kv_get (cf_blocks d) h = Some b' \<and> h < ?h - BLOCK_RETENTION \<and> stx_hash X stx \<in> stx_hash X ` set (bl_txs b'))"
    by (simp only: forgotten_def) auto
  with index b show ?thesis
    unfolding get_tx_height_def 1(7) by (auto simp: index_prune)
qed

text \<open>C23: A transaction of a committed block, applied or rejected, is found over HTTP under its hash, at
  the height of the block, with its kind and signer, unless the digits of the request are not written
  as the node prints them: then it is found with kind and sender unknown. And it is not found at all
  when the commit also pruned an old block that held the same transaction, since the index has one
  entry per hash, which goes with the old block.\<close>

theorem committed_tx_is_found:
  assumes "commit_block X s mp b = Ok (s', mp', rep)" and "stx \<in> set (bl_txs b)"
    and "rp_consensus st = Some e" "en_chain e = s'" and "clean = strip_0x digits"
    and "ev_hex_decode env clean = Some (word_bytes (stx_hash X stx))"
    and "inj_on (\<lambda>tx. x_hex_encode X (word_bytes (stx_hash X tx))) (set (bl_txs b))"
    and "\<forall>tx \<in> set (bl_txs b). x_hex_encode X (word_bytes (stx_hash X tx)) = clean \<longrightarrow> stx_hash X tx = stx_hash X stx"
  shows "rpc_get_tx X env digits st =
    (if forgotten X s (bh_height (bl_header b)) (stx_hash X stx) then Err (HttpError 404 ''transaction not found'')
     else Ok \<lparr>tr_tx_hash = ''0x'' @ clean, tr_block_height = bh_height (bl_header b),
       tr_tx_type = (if clean = x_hex_encode X (word_bytes (stx_hash X stx)) then classify_tx_type (stx_tx stx) else ''unknown''),
       tr_from = (if clean = x_hex_encode X (word_bytes (stx_hash X stx)) then ev_debug_key env (stx_signer stx) else ''unknown'')\<rparr>)"
proof -
  note idx = tx_index_commit[OF assms(1,2)]
  let ?enc = "\<lambda>tx. x_hex_encode X (word_bytes (stx_hash X tx))"
  have "find (\<lambda>tx. ?enc tx = clean) (bl_txs b) = (if clean = ?enc stx then Some stx else None)"
  proof (cases "clean = ?enc stx")
    case True
    with assms(2) obtain tx where f: "find (\<lambda>tx. ?enc tx = clean) (bl_txs b) = Some tx"
      by (cases "find (\<lambda>tx. ?enc tx = clean) (bl_txs b)") (auto simp: find_None_iff)
    then have "tx \<in> set (bl_txs b)" "?enc tx = ?enc stx" using True by (auto simp: find_Some_iff)
    with inj_onD[OF assms(7)] assms(2) have "tx = stx" by blast
    with f True show ?thesis by simp
  next
    case False
    with assms(8) have "find (\<lambda>tx. ?enc tx = clean) (bl_txs b) = None" by (auto simp: find_None_iff)
    with False show ?thesis by simp
  qed
  with idx assms(3-6) show ?thesis
    by (simp add: rpc_get_tx_def handle_get_tx_height_def handle_get_block_def word_rcat_word_bytes)
qed

section \<open>Concrete nodes\<close>

definition demo_env :: "bytes \<Rightarrow> nat rpc_env" where
  "demo_env bs = \<lparr>ev_hex_decode = (\<lambda>_. Some bs), ev_url_ok = (\<lambda>_. True), ev_unborsh_stx = (\<lambda>_. None),
     ev_borsh_offer = (\<lambda>o1. []), ev_debug_key = (\<lambda>k. ''key''), ev_show_error = (\<lambda>e. []), ev_now_ms = 3,
     ev_unix = (\<lambda>i. 7), ev_frames = 1, ev_fetch = demo_fetch, ev_rank = (\<lambda>_. 0), ev_rm_fails = (\<lambda>_. False),
     ev_key_rank = length, ev_walk = (\<lambda>files. []), ev_llama = (\<lambda>bs. Some demo_lm), ev_reads = (\<lambda>_. Some 1),
     ev_config = inference_config_default\<rparr>"

definition demo_node :: "engine option \<Rightarrow> nat rpc" where
  "demo_node e = \<lparr>rp_chain_id = ''net'', rp_tee_enabled = False, rp_data_dir = [], rp_manifests = kv_empty,
     rp_registry = (\<lambda>_. None), rp_store = empty_store, rp_engine_models = kv_empty, rp_loaded = Some [],
     rp_net = Some mesh_net, rp_peers = Some [], rp_consensus = e, rp_engine_runs = True, rp_router = None\<rparr>"

definition demo_self_transfer :: signed_transaction where
  "demo_self_transfer = demo_stx (Transfer 7 7 1 0 21000)"

lemma demo_commit_tx:
  "\<exists>root r. commit_block demo_ext s mp (demo_block root\<lparr>bl_txs := [demo_self_transfer]\<rparr>) = Ok r"
proof -
  let ?c4 = "set_base_fee (rolled_base_fee (demo_header 0) 0) (set_current_height 5 (begin_block s))"
  let ?root = "fst (preview_state_root demo_ext ?c4)"
  have "rolled_base_fee (demo_header ?root) 0 = rolled_base_fee (demo_header 0) 0"
    unfolding rolled_base_fee_def demo_header_fields by (rule refl)
  moreover have "\<not> is_epoch_boundary 5" by (simp add: is_epoch_boundary_def EPOCH_LENGTH_BLOCKS_def)
  moreover have "replay_tx demo_ext demo_self_transfer (begin_block s, 0, 0) = Ok (begin_block s, 0, 0)"
    by (simp add: replay_tx_def apply_tx_def apply_transfer_def demo_self_transfer_def)
  moreover have "slash_dispute demo_ext demo_self_transfer c = Ok c" for c
    by (simp add: slash_dispute_def demo_self_transfer_def)
  ultimately have "\<exists>r. commit_block demo_ext s mp (demo_block ?root\<lparr>bl_txs := [demo_self_transfer]\<rparr>) = Ok r"
    by (simp add: commit_block_def demo_block_def epoch_rotation_def Let_def case_prod_unfold)
  then show ?thesis by blast
qed

theorem committed_tx_is_found_witness:
  "\<exists>root s' mp' rep st. commit_block demo_ext (state_open (demo_db [])) mp_default
       (demo_block root\<lparr>bl_txs := [demo_self_transfer]\<rparr>) = Ok (s', mp', rep) \<and>
     rpc_get_tx demo_ext (demo_env (word_bytes (stx_hash demo_ext demo_self_transfer))) ''0x'' st =
       Ok \<lparr>tr_tx_hash = ''0x'', tr_block_height = 5, tr_tx_type = ''Transfer'', tr_from = ''key''\<rparr>"
proof -
  obtain root s' mp' rep where c: "commit_block demo_ext (state_open (demo_db [])) mp_default
       (demo_block root\<lparr>bl_txs := [demo_self_transfer]\<rparr>) = Ok (s', mp', rep)"
    using demo_commit_tx[of "state_open (demo_db [])" mp_default] by (metis prod_cases3)
  let ?st = "demo_node (Some (demo_engine None\<lparr>en_chain := s'\<rparr>))"
  have st: "rp_consensus ?st = Some (demo_engine None\<lparr>en_chain := s'\<rparr>)" "en_chain (demo_engine None\<lparr>en_chain := s'\<rparr>) = s'"
    by (simp_all add: demo_node_def)
  have nf: "\<not> forgotten demo_ext (state_open (demo_db [])) h t" for h t
    by (simp add: forgotten_def demo_db_def empty_db_def)
  let ?env = "demo_env (word_bytes (stx_hash demo_ext demo_self_transfer))"
  have p: "demo_self_transfer \<in> set (bl_txs (demo_block root\<lparr>bl_txs := [demo_self_transfer]\<rparr>))"
    "[] = strip_0x ''0x''" "ev_hex_decode ?env [] = Some (word_bytes (stx_hash demo_ext demo_self_transfer))"
    "inj_on f (set (bl_txs (demo_block root\<lparr>bl_txs := [demo_self_transfer]\<rparr>)))"
    "\<forall>tx \<in> set (bl_txs (demo_block root\<lparr>bl_txs := [demo_self_transfer]\<rparr>)). P tx \<longrightarrow> stx_hash demo_ext tx = stx_hash demo_ext demo_self_transfer"
    for f :: "signed_transaction \<Rightarrow> string" and P
    by (simp_all add: strip_0x_def starts_with_def demo_env_def)
  have q: "x_hex_encode demo_ext bs = []" "bh_height (bl_header (demo_block root\<lparr>bl_txs := ts\<rparr>)) = 5"
    "classify_tx_type (stx_tx demo_self_transfer) = ''Transfer''" "ev_debug_key ?env k = ''key''" for bs ts k
    by (simp_all add: demo_ext_def demo_block_def demo_self_transfer_def demo_env_def)
  have "rpc_get_tx demo_ext ?env ''0x'' ?st =
       Ok \<lparr>tr_tx_hash = ''0x'', tr_block_height = 5, tr_tx_type = ''Transfer'', tr_from = ''key''\<rparr>"
    using committed_tx_is_found[OF c p(1) st p(2,3,4,5)] by (simp only: q nf if_False if_True append_Nil2 refl)
  with c show ?thesis by blast
qed

section \<open>Answers\<close>

lemma chunks_collect:
  assumes "rfold collect_event items (tt, fin, n) = Ok (tt', fin', n')"
  shows "let chunks = chat_chunks env rid model i is_first items; said = filter (\<lambda>c. ck_content c \<noteq> None) chunks in
    tt' = tt @ concat (map (\<lambda>c. case ck_content c of Some t \<Rightarrow> t | None \<Rightarrow> []) chunks) \<and>
    n' = n + length said \<and>
    map ck_role said = (if is_first \<and> said \<noteq> [] then [Some (str_bytes ''assistant'')] else []) @
      replicate (length said - (if is_first then 1 else 0)) None \<and>
    (fin' = ''length'' \<longleftrightarrow> fin = ''length'' \<or> (\<exists>c \<in> set chunks. ck_finish_reason c = Some ''length''))"
  using assms
proof (induction items arbitrary: tt fin n i is_first)
  case (Cons it items)
  obtain acc where a: "collect_event it (tt, fin, n) = Ok acc" "rfold collect_event items acc = Ok (tt', fin', n')"
    using Cons.prems by (auto simp: rbind_Ok_iff)
  obtain t2 f2 n2 where acc: "acc = (t2, f2, n2)" by (cases acc)
  show ?case
  proof (cases it)
    case (Ok ev)
    show ?thesis
    proof (cases ev)
      case (TokenEvent idx t f)
      with a(1) Ok acc have "t2 = tt @ f" "f2 = fin" "n2 = n + 1"
        by (auto simp: collect_event_def uadd_def split: if_splits)
      with Cons.IH[of t2 f2 n2 "Suc i" False] a(2) acc Ok TokenEvent show ?thesis by (simp add: Let_def)
    next
      case (StopEvent r)
      with a(1) Ok acc have "t2 = tt" "f2 = (if r = RMaxTokens then ''length'' else fin)" "n2 = n"
        by (auto simp: collect_event_def)
      with Cons.IH[of t2 f2 n2 "Suc i" is_first] a(2) acc Ok StopEvent show ?thesis
        by (cases r) (simp_all add: Let_def finish_name_def)
    qed
  qed (use a in \<open>simp_all add: collect_event_def\<close>)
qed simp

lemma collected_finish:
  assumes "rfold collect_event items ([], ''stop'', 0) = Ok (tt, fin, n)"
  shows "fin = ''length'' \<or> fin = ''stop''"
proof -
  have "fst (snd (tt, fin, n)) \<in> {''length'', ''stop''}"
    by (rule rfold_invariant[where P = "\<lambda>acc. fst (snd acc) \<in> {''length'', ''stop''}", OF _ _ assms])
      (auto simp: collect_event_def rbind_Ok_iff split: result.splits inf_event.splits if_splits prod.splits)
  then show ?thesis by simp
qed

text \<open>C26: Whether it is streamed or collected, an answer has the same text: if the collected form
  succeeds, the streamed form of the same request has, in the same state, one chunk per event whose
  contents make up exactly the collected message, with as many contents as completion tokens and the role
  on the first of them only. The collected answer says \<open>length\<close> if some chunk does and \<open>stop\<close> otherwise,
  also when no chunk carries a finish reason, as when the stop event was lost. The
  number of prompt tokens is always reported as zero.\<close>

theorem streamed_answer_is_collected_answer:
  assumes "chat_completions X env (req\<lparr>cq_stream := False\<rparr>) st = (Ok (Whole resp), st')"
  shows "\<exists>chunks. chat_completions X env (req\<lparr>cq_stream := True\<rparr>) st = (Ok (Stream chunks), st') \<and>
    concat (map (\<lambda>c. case ck_content c of Some t \<Rightarrow> t | None \<Rightarrow> []) chunks) = cm_content (cr_message resp) \<and>
    map ck_role (filter (\<lambda>c. ck_content c \<noteq> None) chunks) =
      (if us_completion_tokens (cr_usage resp) = 0 then []
       else Some (str_bytes ''assistant'') # replicate (us_completion_tokens (cr_usage resp) - 1) None) \<and>
    cr_finish_reason resp =
      Some (if \<exists>c \<in> set chunks. ck_finish_reason c = Some ''length'' then ''length'' else ''stop'') \<and>
    us_prompt_tokens (cr_usage resp) = 0"
proof -
  from assms obtain r m digest M where g: "cq_messages req \<noteq> []" "\<not> (cq_prefer_tee req \<and> \<not> rp_tee_enabled st)"
    "model_ref_parse (cq_model req) = Ok r" "manifest_for r st = Some m" "temp_load X env r m st = (Ok (digest, M), st')"
    by (auto simp: chat_completions_def split: if_splits result.splits option.splits prod.splits)
  have same: "chat_request_of (req\<lparr>cq_stream := b\<rparr>) = chat_request_of req" for b by (simp add: chat_request_of_def)
  from assms g obtain items where it: "engine_infer (ev_reads env) M (ev_config env) (chat_request_of req) = Ok items"
    by (auto simp: chat_completions_def same rbind_Ok_iff)
  with assms g have w: "chat_reply_of X env (req\<lparr>cq_stream := False\<rparr>) items = Ok (Whole resp)"
    by (simp add: chat_completions_def same)
  then obtain tt fin n where c: "rfold collect_event items ([], ''stop'', 0) = Ok (tt, fin, n)"
    by (auto simp: chat_reply_of_def Let_def rbind_Ok_iff)
  with w have resp: "cm_content (cr_message resp) = tt" "cr_finish_reason resp = Some fin"
    "us_completion_tokens (cr_usage resp) = n" "us_prompt_tokens (cr_usage resp) = 0"
    by (auto simp: chat_reply_of_def Let_def)
  let ?chunks = "chat_chunks env (gen_request_id X (ev_unix env 0)) (cq_model req) 0 True items"
  have s: "chat_completions X env (req\<lparr>cq_stream := True\<rparr>) st = (Ok (Stream ?chunks), st')"
    using g it by (simp add: chat_completions_def same chat_reply_of_def Let_def)
  from chunks_collect[OF c, of env "gen_request_id X (ev_unix env 0)" "cq_model req" 0 True] resp s
    collected_finish[OF c]
  show ?thesis by (intro exI[of _ ?chunks]) (auto simp: Let_def)
qed

text \<open>A node with one model in its table, asked for one token.\<close>

definition demo_chat_node :: "nat rpc" where
  "demo_chat_node = register_manifest demo_model demo_file_manifest (demo_node None)"

definition demo_chat_request :: chat_request where
  "demo_chat_request = \<lparr>cq_model = ''o/m-F16'', cq_messages = [\<lparr>cm_role = [1], cm_content = [2]\<rparr>],
     cq_max_tokens = 1, cq_temperature = F32 1, cq_top_p = F32 1, cq_stream = False, cq_stop = None, cq_n = 1,
     cq_prefer_tee = False, cq_require_https = False\<rparr>"

lemma demo_temp_load:
  "\<exists>st'. temp_load store_ext (demo_env bs) demo_model demo_file_manifest demo_chat_node = (Ok (7, demo_lm), st')"
proof -
  have e: "cache_open [] 1000 (\<lambda>_. None) = empty_store" by (simp add: cache_open_def empty_store_def)
  obtain s1 where s: "ensure_local store_ext 1 demo_fetch (\<lambda>_. 0) (\<lambda>_. False) [model_ref_display demo_model \<mapsto> demo_file_manifest]
     3 demo_model empty_store = (Ok (Final 7), s1)" using demo_pull by blast
  have "store_ok store_ext empty_store" by (simp add: store_ok_def empty_store_def)
  from ensure_local_spec[OF this s] obtain f where "so_files s1 (Final 7) = Some f" "x_sha256 store_ext f = 7" by auto
  with s e show ?thesis
    by (simp add: temp_load_def demo_env_def demo_chat_node_def demo_node_def register_manifest_def empty_store_def
        engine_load_def Let_def del: One_nat_def)
qed

lemma demo_chat_items:
  "engine_infer (\<lambda>_. Some 1) demo_lm inference_config_default (chat_request_of (demo_chat_request\<lparr>cq_stream := b\<rparr>)) =
     Ok [Ok (TokenEvent 0 7 [0x61]), Ok (StopEvent RMaxTokens)]"
proof -
  have m: "iq_max_tokens (chat_request_of (demo_chat_request\<lparr>cq_stream := b\<rparr>)) = 1"
    "iq_stop (chat_request_of (demo_chat_request\<lparr>cq_stream := b\<rparr>)) = []"
    by (simp_all add: chat_request_of_def demo_chat_request_def)
  show ?thesis
    by (simp add: engine_infer_def run_sync_def context_new_def sampler_new_def list_all_iff session_run_def
        session_request_of_def m demo_encode uadd_def ucastn_def Let_def demo_feed try_send_def channel_new_def
        ENGINE_BUFFER_def received_def)
qed

lemma demo_chat_answer:
  "\<exists>resp st'. chat_completions store_ext (demo_env []) (demo_chat_request\<lparr>cq_stream := False\<rparr>) demo_chat_node =
     (Ok (Whole resp), st') \<and> cm_content (cr_message resp) = [0x61] \<and> us_completion_tokens (cr_usage resp) = 1"
proof -
  obtain st' where t: "temp_load store_ext (demo_env []) demo_model demo_file_manifest demo_chat_node = (Ok (7, demo_lm), st')"
    using demo_temp_load by blast
  have "manifest_for demo_model demo_chat_node = Some demo_file_manifest"
    by (simp add: manifest_for_def demo_chat_node_def register_manifest_def)
  moreover have "ev_reads (demo_env []) = (\<lambda>_. Some 1)" "ev_config (demo_env []) = inference_config_default"
    by (simp_all add: demo_env_def)
  moreover have "cq_messages demo_chat_request \<noteq> []" "\<not> cq_prefer_tee demo_chat_request" "cq_model demo_chat_request = ''o/m-F16''"
    by (simp_all add: demo_chat_request_def)
  ultimately show ?thesis using t demo_model_parses demo_chat_items[of False]
    by (simp add: chat_completions_def chat_reply_of_def collect_event_def uadd_def Let_def)
qed

theorem streamed_answer_is_collected_answer_witness:
  "\<exists>chunks st'. chat_completions store_ext (demo_env []) (demo_chat_request\<lparr>cq_stream := True\<rparr>) demo_chat_node =
     (Ok (Stream chunks), st') \<and> concat (map (\<lambda>c. case ck_content c of Some t \<Rightarrow> t | None \<Rightarrow> []) chunks) = [0x61]"
proof -
  obtain resp st' where c: "chat_completions store_ext (demo_env []) (demo_chat_request\<lparr>cq_stream := False\<rparr>) demo_chat_node =
     (Ok (Whole resp), st')" "cm_content (cr_message resp) = [0x61]" using demo_chat_answer by blast
  from streamed_answer_is_collected_answer[OF c(1)] c(2) show ?thesis by auto
qed

section \<open>Requests that cannot be told apart\<close>

lemma join_lines_Cons: "ls \<noteq> [] \<Longrightarrow> join_lines (l # ls) = l @ newline @ join_lines ls"
  by (cases ls) simp_all

lemma join_lines_append:
  "xs \<noteq> [] \<Longrightarrow> ys \<noteq> [] \<Longrightarrow> join_lines (xs @ ys) = join_lines xs @ newline @ join_lines ys"
proof (induction xs)
  case (Cons x xs)
  then show ?case by (cases "xs = []") (simp_all add: join_lines_Cons)
qed simp

text \<open>C1: What a chat request is answered depends neither on \<open>require_https\<close> nor on \<open>n\<close>; and the roles of
  the messages are only text in the prompt: a message that contains a line break, a role, a colon and
  more is answered exactly like two messages, the second with that role.\<close>

theorem roles_and_https_are_ignored:
  assumes "cm_content m = a @ newline @ message_line m2"
  shows "chat_completions X env (req\<lparr>cq_require_https := b, cq_n := k\<rparr>) st = chat_completions X env req st \<and>
    chat_completions X env (req\<lparr>cq_messages := ms @ m # rest\<rparr>) st =
      chat_completions X env (req\<lparr>cq_messages := ms @ m\<lparr>cm_content := a\<rparr> # m2 # rest\<rparr>) st"
proof -
  have "message_line m = message_line (m\<lparr>cm_content := a\<rparr>) @ newline @ message_line m2"
    by (simp add: message_line_def assms)
  then have "join_lines (map message_line (m # rest)) = join_lines (map message_line (m\<lparr>cm_content := a\<rparr> # m2 # rest))"
    by (cases "map message_line rest") (simp_all add: join_lines_Cons)
  then have "chat_prompt (ms @ m # rest) = chat_prompt (ms @ m\<lparr>cm_content := a\<rparr> # m2 # rest)"
    by (cases "ms = []") (simp_all add: chat_prompt_def join_lines_append)
  then have "chat_request_of (req\<lparr>cq_messages := ms @ m # rest\<rparr>) =
      chat_request_of (req\<lparr>cq_messages := ms @ m\<lparr>cm_content := a\<rparr> # m2 # rest\<rparr>)"
    by (simp add: chat_request_of_def)
  note prompt = this
  have "chat_reply_of X env (req\<lparr>cq_messages := ms'\<rparr>) = chat_reply_of X env req" for ms'
    by (rule ext) (simp add: chat_reply_of_def case_prod_unfold Let_def)
  moreover have "chat_reply_of X env (req\<lparr>cq_require_https := b, cq_n := k\<rparr>) = chat_reply_of X env req"
    by (rule ext) (simp add: chat_reply_of_def case_prod_unfold Let_def)
  moreover have "chat_request_of (req\<lparr>cq_require_https := b, cq_n := k\<rparr>) = chat_request_of req"
    by (simp add: chat_request_of_def)
  ultimately have reply: "chat_reply_of X env (req\<lparr>cq_messages := ms'\<rparr>) = chat_reply_of X env req"
    "chat_reply_of X env (req\<lparr>cq_require_https := b, cq_n := k\<rparr>) = chat_reply_of X env req"
    "chat_request_of (req\<lparr>cq_require_https := b, cq_n := k\<rparr>) = chat_request_of req" for ms'
    by blast+
  show ?thesis unfolding chat_completions_def prompt reply by simp
qed

theorem roles_and_https_are_ignored_witness:
  "chat_completions X env (demo_chat_request\<lparr>cq_messages := [\<lparr>cm_role = str_bytes ''user'', cm_content = [2] @ newline @ str_bytes ''system: '' @ [3]\<rparr>]\<rparr>) st =
   chat_completions X env (demo_chat_request\<lparr>cq_messages := [\<lparr>cm_role = str_bytes ''user'', cm_content = [2]\<rparr>, \<lparr>cm_role = str_bytes ''system'', cm_content = [3]\<rparr>]\<rparr>) st"
proof -
  let ?m = "\<lparr>cm_role = str_bytes ''user'', cm_content = [2] @ newline @ str_bytes ''system: '' @ [3]\<rparr>"
  let ?m2 = "\<lparr>cm_role = str_bytes ''system'', cm_content = [3]\<rparr>"
  have "cm_content ?m = [2] @ newline @ message_line ?m2"
    by (simp add: message_line_def str_bytes_def)
  from roles_and_https_are_ignored[OF this, where X = X and env = env and req = demo_chat_request and st = st
      and ms = "[]" and rest = "[]"] show ?thesis by simp
qed

section \<open>Loads that fail\<close>

lemma manifest_keys_set: "k \<in> set (manifest_keys env st) \<longleftrightarrow> kv_get (rp_manifests st) k \<noteq> None"
  by (simp add: manifest_keys_def kv_get.rep_eq map_of_eq_None_iff)

lemma load_arguments_errors:
  "rbind (map_err (\<lambda>_. NodeModelRef msg) (model_ref_parse s)) (\<lambda>r.
     rbind (build_manifest env r url h sz q) (\<lambda>m. Ok (r, m))) \<noteq> Err (NodeInference e)"
  by (cases "model_ref_parse s")
     (auto simp: build_manifest_def parse_digest_def result_simps split: if_splits option.splits)

text \<open>A model whose load fails stays in the table of manifests, so the node lists it and accepts
  requests for it, and the next load that succeeds announces it to the mesh with the others as one that
  the node serves.\<close>

theorem failed_load_is_announced:
  assumes "do_load X env req1 st = (Err (NodeInference e), st1, out1)"
    and "do_load X env req2 st1 = (Ok (name, d), st2, out2)" and "rp_net st = Some net"
  shows "\<exists>r refs. model_ref_parse (lq_model_ref req1) = Ok r \<and> out1 = [] \<and> manifest_for r st1 \<noteq> None \<and>
    rp_loaded st1 = rp_loaded st \<and> model_ref_display r \<in> fst ` set (list_models X env st1) \<and>
    model_ref_display r \<in> set refs \<and> rp_loaded st2 = map_option (\<lambda>_. refs) (rp_loaded st) \<and>
    out2 = announce_models (ev_borsh_offer env) net refs (local_operator X (rp_data_dir st)) (rp_tee_enabled st) (ev_now_ms env)"
proof -
  obtain r m where b: "model_ref_parse (lq_model_ref req1) = Ok r" "rp_manifests st1 = kv_put (model_ref_display r) m (rp_manifests st)"
    "out1 = []" "rp_loaded st1 = rp_loaded st" "rp_net st1 = Some net" "rp_data_dir st1 = rp_data_dir st"
    "rp_tee_enabled st1 = rp_tee_enabled st"
    using assms(1,3)
    by (auto simp: do_load_def Let_def register_manifest_def rbind_Ok_iff load_arguments_errors
        split: result.splits prod.splits)
  obtain r2 m2 where g: "rp_manifests st2 = kv_put (model_ref_display r2) m2 (rp_manifests st1)"
    "rp_loaded st2 = map_option (\<lambda>_. manifest_keys env st2) (rp_loaded st1)"
    "out2 = announce_models (ev_borsh_offer env) net (manifest_keys env st2) (local_operator X (rp_data_dir st1))
       (rp_tee_enabled st1) (ev_now_ms env)"
    using assms(2) b(5)
    by (auto simp: do_load_def Let_def register_manifest_def manifest_keys_def split: result.splits prod.splits option.splits)
  have "model_ref_display r \<in> set (manifest_keys env st1)" "model_ref_display r \<in> set (manifest_keys env st2)"
    by (simp_all add: manifest_keys_set b g)
  moreover have "fst ` set (list_models X env st1) = set (manifest_keys env st1)"
    by (force simp: list_models_def manifest_keys_def)
  ultimately show ?thesis using b g by (intro exI[of _ r] exI[of _ "manifest_keys env st2"])
    (simp add: manifest_for_def)
qed

definition dead_request :: load_request where
  "dead_request = \<lparr>lq_model_ref = ''o/d-F16'', lq_url = ''dead'', lq_sha256 = [], lq_size_bytes = 24, lq_quant = None\<rparr>"

definition good_request :: load_request where
  "good_request = \<lparr>lq_model_ref = ''o/m-F16'', lq_url = ''good'', lq_sha256 = [], lq_size_bytes = 24, lq_quant = None\<rparr>"

definition dead_model :: model_ref where
  "dead_model = \<lparr>mr_org = ''o'', mr_name = ''d'', mr_quant = QF16\<rparr>"

lemma dead_model_parses: "model_ref_parse ''o/d-F16'' = Ok dead_model"
  by code_simp

lemmas load_steps = do_load_def build_manifest_def parse_digest_def demo_env_def word_rcat_word_bytes demo_node_def
  register_manifest_def engine_load_def ensure_local_def registry_resolve_def registry_insert_def cache_get_def
  empty_store_def pull_def pull_from_mirror_def file_len_def demo_fetch_def set_path_def store_ext_def
  validate_gguf_def cache_insert_def gc_for_def gc_loop.simps total_bytes_def Let_def

lemma demo_dead_load:
  "\<exists>e st'. do_load store_ext (demo_env (word_bytes (7 :: hash256))) dead_request (demo_node None) =
     (Err (NodeInference e), st', []) \<and> rp_store st' = empty_store \<and> rp_engine_models st' = kv_empty \<and>
     rp_net st' = Some mesh_net"
  by (simp add: load_steps dead_request_def dead_model_parses)

theorem failed_load_is_announced_witness:
  "\<exists>e st1 name d st2 refs. let env = demo_env (word_bytes (7 :: hash256)) in
     do_load store_ext env dead_request (demo_node None) = (Err (NodeInference e), st1, []) \<and>
     do_load store_ext env good_request st1 = (Ok (name, d), st2,
       announce_models (\<lambda>o1. []) mesh_net refs (local_operator store_ext []) False 3) \<and>
     model_ref_display dead_model \<in> set refs"
proof -
  let ?env = "demo_env (word_bytes (7 :: hash256))"
  obtain e st1 where d: "do_load store_ext (demo_env (word_bytes (7 :: hash256))) dead_request (demo_node None) =
     (Err (NodeInference e), st1, [])" "rp_store st1 = empty_store" "rp_engine_models st1 = kv_empty"
     "rp_net st1 = Some mesh_net"
    using demo_dead_load by blast
  have "length (gguf_build []) = 24" by (simp add: gguf_build_def GGUF_MAGIC_def str_bytes_def)
  moreover have "parse_header 1 (gguf_build []) = Ok \<lparr>gh_version = 3, gh_tensor_count = 0, gh_metadata_count = 0,
      gh_architecture = None, gh_file_type = None\<rparr>"
    using built_header_parses[of "[]" None None 0] calculation by (simp add: parse_header_def HEADER_READ_SIZE_def)
  ultimately obtain name dg st2 out where g: "do_load store_ext (demo_env (word_bytes (7 :: hash256))) good_request st1 =
     (Ok (name, dg), st2, out)"
    using d demo_model_parses by (simp add: load_steps good_request_def) 
  from failed_load_is_announced[OF d(1) g, of mesh_net] g d(1) show ?thesis
    by (auto simp: dead_request_def dead_model_parses demo_node_def demo_env_def Let_def)
qed

end
