(* ===== verification/OperatorCli.thy ===== *)
theory OperatorCli
  imports Rpc Sdk
begin

text \<open>
  The commands of an operator (\<^verbatim>\<open>crates/node/src/cli/{wallet,governance,gateway,tee}.rs\<close> and the key file
  of \<^verbatim>\<open>start.rs\<close>): what each reads, signs and posts to a node. The key file is its content, if it exists;
  \<open>up\<close> says whether the node answers at the given address, and the node itself is the state of theory
  \<open>Rpc\<close>. What a command prints is its result. A node that aborts while it answers is, to the command, a
  request that failed. Strings of arguments are over ASCII.
\<close>

section \<open>The key file\<close>

definition no_wallet :: node_error where
  "no_wallet = NodePaths ''no wallet found - run `arknet wallet create` first''"

definition key_file_of :: "crypto_ext \<Rightarrow> 256 word \<Rightarrow> bytes" where
  "key_file_of K secret = word_bytes secret @ word_bytes (kx_public K secret)"

text \<open>An existing wallet is shown, not replaced.\<close>

definition show_address :: "ext \<Rightarrow> bytes option \<Rightarrow> (node_error, address \<times> bytes) result" where
  "show_address X key_file =
     (case key_file of
        None \<Rightarrow> Err no_wallet
      | Some bs \<Rightarrow>
          if length bs \<noteq> 64 then Err (NodePaths ''node.key has the wrong length'')
          else let pubkey = drop 32 bs in Ok (digest_address (x_blake3 X pubkey), pubkey))"

definition create_wallet ::
    "ext \<Rightarrow> crypto_ext \<Rightarrow> 256 word \<Rightarrow> bytes option \<Rightarrow> (node_error, address \<times> bytes) result \<times> bytes option" where
  "create_wallet X K fresh key_file =
     (case key_file of
        Some bs \<Rightarrow> (show_address X key_file, key_file)
      | None \<Rightarrow> (show_address X (Some (key_file_of K fresh)), Some (key_file_of K fresh)))"

definition load_key :: "ext \<Rightarrow> bytes option \<Rightarrow> (node_error, bytes \<times> 256 word \<times> address) result" where
  "load_key X key_file =
     (case key_file of
        None \<Rightarrow> Err no_wallet
      | Some bs \<Rightarrow>
          if length bs \<noteq> 64 then Err (NodePaths ''node.key has the wrong length'')
          else Ok (bs, word_rcat (drop 32 bs), digest_address (x_blake3 X (drop 32 bs))))"

text \<open>The key of a node at start: ed25519 key pairs are checked when they are read.\<close>

definition load_or_generate_keypair ::
    "crypto_ext \<Rightarrow> 256 word \<Rightarrow> bytes option \<Rightarrow> (node_error, 256 word) result \<times> bytes option" where
  "load_or_generate_keypair K fresh key_file =
     (case key_file of
        Some bs \<Rightarrow>
         (if length bs \<noteq> 64 then (Err (NodePaths ''node.key has the wrong length''), key_file)
          else let secret = word_rcat (take 32 bs)
          in if drop 32 bs \<noteq> word_bytes (kx_public K secret) then (Err (NodePaths ''parse node.key''), key_file)
             else (Ok secret, key_file))
      | None \<Rightarrow> (Ok fresh, Some (key_file_of K fresh)))"

section \<open>Balances\<close>

datatype balance_report = Balance amount nonce | NoAccount

text \<open>A JSON number as \<^verbatim>\<open>u64\<close>.\<close>

definition as_u64 :: "nat \<Rightarrow> nat option" where
  "as_u64 n = (if n < 2 ^ 64 then Some n else None)"

definition zero_if_none :: "nat option \<Rightarrow> nat" where
  "zero_if_none m = (case m of Some n \<Rightarrow> n | None \<Rightarrow> 0)"

fun http_status :: "http_error \<Rightarrow> nat" where
  "http_status (HttpError s m) = s"
| "http_status (OpenAiError s m t) = s"

definition query_balance ::
    "ext \<Rightarrow> 's rpc_env \<Rightarrow> bool \<Rightarrow> string option \<Rightarrow> bytes option \<Rightarrow> 's rpc \<Rightarrow> (node_error, balance_report) result" where
  "query_balance X env up addr key_file st =
     rbind (case addr of
              Some a \<Rightarrow> Ok (strip_0x a)
            | None \<Rightarrow>
               (case key_file of
                  None \<Rightarrow> Err no_wallet
                | Some bs \<Rightarrow>
                    if length bs < 64 then Panic
                    else Ok (x_hex_encode X (word_bytes (digest_address (x_blake3 X (take 32 (drop 32 bs)))))))) (\<lambda>addr_hex.
     if \<not> up then Err (NodeConfig ''cannot reach node'')
     else case rpc_get_account env addr_hex st of
       Ok (_, b, n) \<Rightarrow> Ok (Balance (zero_if_none (as_u64 b)) (zero_if_none (as_u64 n)))
     | Err e \<Rightarrow> if http_status e = 404 then Ok NoAccount else Err (NodeConfig ''RPC error'')
     | Panic \<Rightarrow> Err (NodeConfig ''cannot reach node''))"

section \<open>Signing and submitting\<close>

definition cli_signed :: "ext \<Rightarrow> crypto_ext \<Rightarrow> bytes \<Rightarrow> 256 word \<Rightarrow> transaction \<Rightarrow> signed_transaction" where
  "cli_signed X K key_bytes pubkey tx =
     \<lparr>stx_tx = tx, stx_signer = ed25519_pubkey pubkey,
      stx_signature = sign_bytes K (word_rcat (take 32 key_bytes)) (word_bytes (tx_hash X tx))\<rparr>"

definition post_signed ::
    "ext \<Rightarrow> 's rpc_env \<Rightarrow> bool \<Rightarrow> signed_transaction \<Rightarrow> 's rpc \<Rightarrow> (node_error, string) result \<times> 's rpc" where
  "post_signed X env up stx st =
     (if \<not> up then (Err (NodeConfig ''submit tx''), st)
      else case rpc_submit_tx X env (x_hex_encode X (x_borsh_stx X stx)) st of
        (Ok h, st') \<Rightarrow> (Ok h, st')
      | (Err e, st') \<Rightarrow> (Err (NodeConfig ''tx rejected''), st')
      | (Panic, st') \<Rightarrow> (Err (NodeConfig ''submit tx''), st'))"

definition sign_and_submit ::
    "ext \<Rightarrow> crypto_ext \<Rightarrow> 's rpc_env \<Rightarrow> bool \<Rightarrow> bytes \<Rightarrow> 256 word \<Rightarrow> transaction \<Rightarrow> 's rpc \<Rightarrow>
     (node_error, string) result \<times> 's rpc" where
  "sign_and_submit X K env up key_bytes pubkey tx st = post_signed X env up (cli_signed X K key_bytes pubkey tx) st"

definition lower_char :: "char \<Rightarrow> char" where
  "lower_char c = (if CHR ''A'' \<le> c \<and> c \<le> CHR ''Z'' then char_of (of_char c + 32 :: nat) else c)"

definition parse_role :: "string \<Rightarrow> (node_error, stake_role) result" where
  "parse_role s =
     (let l = map lower_char s
      in if l = ''validator'' then Ok Validator
         else if l = ''router'' then Ok Router
         else if l = ''compute'' then Ok Compute
         else if l = ''verifier'' then Ok Verifier
         else Err (NodeConfig ''unknown role''))"

text \<open>A command that fails before it posts leaves the node as it is.\<close>

definition submit_if_ok ::
    "ext \<Rightarrow> crypto_ext \<Rightarrow> 's rpc_env \<Rightarrow> bool \<Rightarrow> (node_error, bytes \<times> 256 word \<times> transaction) result \<Rightarrow> 's rpc \<Rightarrow>
     (node_error, string) result \<times> 's rpc" where
  "submit_if_ok X K env up prepared st =
     (case prepared of
        Ok (key_bytes, pubkey, tx) \<Rightarrow> sign_and_submit X K env up key_bytes pubkey tx st
      | Err e \<Rightarrow> (Err e, st)
      | Panic \<Rightarrow> (Panic, st))"

section \<open>Transfers\<close>

text \<open>The nonce is asked from the node; whatever goes wrong, it is zero.\<close>

definition account_nonce :: "ext \<Rightarrow> 's rpc_env \<Rightarrow> bool \<Rightarrow> address \<Rightarrow> 's rpc \<Rightarrow> nonce" where
  "account_nonce X env up from st =
     (if \<not> up then 0
      else case rpc_get_account env (x_hex_encode X (word_bytes from)) st of
        Ok (_, _, n) \<Rightarrow> zero_if_none (as_u64 n)
      | _ \<Rightarrow> 0)"

definition parse_recipient :: "'s rpc_env \<Rightarrow> string \<Rightarrow> (node_error, address) result" where
  "parse_recipient env s =
     (let to_hex = strip_0x s
      in if length to_hex \<noteq> 40 then Err (NodeConfig ''recipient address must be 40 hex chars'')
         else case ev_hex_decode env to_hex of
           None \<Rightarrow> Err (NodeConfig ''bad recipient hex'')
         | Some bs \<Rightarrow> if length bs \<noteq> 20 then Err (NodeConfig ''recipient must be 20 bytes'') else Ok (word_rcat bs))"

record send_args =
  sa_to :: string
  sa_amount :: nat
  sa_fee :: gas

definition send_transfer ::
    "ext \<Rightarrow> crypto_ext \<Rightarrow> 's rpc_env \<Rightarrow> bool \<Rightarrow> bytes option \<Rightarrow> send_args \<Rightarrow> 's rpc \<Rightarrow>
     (node_error, string) result \<times> 's rpc" where
  "send_transfer X K env up key_file args st =
     submit_if_ok X K env up
       (rbind (load_key X key_file) (\<lambda>(key_bytes, pubkey, from).
        rbind (parse_recipient env (sa_to args)) (\<lambda>to.
        Ok (key_bytes, pubkey, Transfer from to (sa_amount args) (account_nonce X env up from st) (sa_fee args))))) st"

section \<open>Staking\<close>

definition stake ::
    "ext \<Rightarrow> crypto_ext \<Rightarrow> 's rpc_env \<Rightarrow> bool \<Rightarrow> bytes option \<Rightarrow> nat \<Rightarrow> string \<Rightarrow> 's rpc \<Rightarrow>
     (node_error, string) result \<times> 's rpc" where
  "stake X K env up key_file amt role st =
     submit_if_ok X K env up
       (rbind (load_key X key_file) (\<lambda>(key_bytes, pubkey, _).
        rbind (parse_role role) (\<lambda>r. Ok (key_bytes, pubkey, StakeOp (Deposit pubkey r None amt None))))) st"

definition unstake ::
    "ext \<Rightarrow> crypto_ext \<Rightarrow> 's rpc_env \<Rightarrow> bool \<Rightarrow> bytes option \<Rightarrow> nat \<Rightarrow> string \<Rightarrow> 's rpc \<Rightarrow>
     (node_error, string) result \<times> 's rpc" where
  "unstake X K env up key_file amt role st =
     submit_if_ok X K env up
       (rbind (load_key X key_file) (\<lambda>(key_bytes, pubkey, _).
        rbind (parse_role role) (\<lambda>r. Ok (key_bytes, pubkey, StakeOp (Withdraw pubkey r None amt))))) st"

definition complete_unbond ::
    "ext \<Rightarrow> crypto_ext \<Rightarrow> 's rpc_env \<Rightarrow> bool \<Rightarrow> bytes option \<Rightarrow> nat \<Rightarrow> string \<Rightarrow> 's rpc \<Rightarrow>
     (node_error, string) result \<times> 's rpc" where
  "complete_unbond X K env up key_file unbond_id role st =
     submit_if_ok X K env up
       (rbind (load_key X key_file) (\<lambda>(key_bytes, pubkey, _).
        rbind (parse_role role) (\<lambda>r. Ok (key_bytes, pubkey, StakeOp (Complete pubkey r None unbond_id))))) st"

definition parse_node_key :: "'s rpc_env \<Rightarrow> string \<Rightarrow> (node_error, node_id) result" where
  "parse_node_key env s =
     (let to_hex = strip_0x s
      in if length to_hex \<noteq> 64 then Err (NodeConfig ''destination node pubkey must be 64 hex chars'')
         else case ev_hex_decode env to_hex of
           None \<Rightarrow> Err (NodeConfig ''bad node pubkey hex'')
         | Some bs \<Rightarrow> if length bs \<noteq> 32 then Err (NodeConfig ''node pubkey must be 32 bytes'') else Ok (word_rcat bs))"

definition redelegate ::
    "ext \<Rightarrow> crypto_ext \<Rightarrow> 's rpc_env \<Rightarrow> bool \<Rightarrow> bytes option \<Rightarrow> nat \<Rightarrow> string \<Rightarrow> string \<Rightarrow> 's rpc \<Rightarrow>
     (node_error, string) result \<times> 's rpc" where
  "redelegate X K env up key_file amt role to_node st =
     submit_if_ok X K env up
       (rbind (load_key X key_file) (\<lambda>(key_bytes, pubkey, _).
        rbind (parse_role role) (\<lambda>r.
        rbind (parse_node_key env to_node) (\<lambda>to. Ok (key_bytes, pubkey, StakeOp (Redelegate pubkey to r amt)))))) st"

section \<open>Governance\<close>

definition parse_choice :: "string \<Rightarrow> (node_error, vote_choice) result" where
  "parse_choice s =
     (let l = filter (\<lambda>c. c \<noteq> CHR ''-'') (map lower_char s)
      in if l = ''yes'' then Ok Yes
         else if l = ''no'' then Ok No
         else if l = ''abstain'' then Ok Abstain
         else if l = ''nowithveto'' \<or> l = ''veto'' then Ok NoWithVeto
         else Err (NodeConfig ''unknown vote choice''))"

definition one_week_ms :: nat where "one_week_ms = 7 * 24 * 60 * 60 * 1000"

text \<open>A body that begins with \<^verbatim>\<open>@\<close> names a file.\<close>

definition proposal_body :: "(string \<Rightarrow> string option) \<Rightarrow> string \<Rightarrow> (node_error, string) result" where
  "proposal_body read_file body =
     (case body of
        c # path \<Rightarrow> if c = CHR ''@''
          then (case read_file path of Some s \<Rightarrow> Ok s | None \<Rightarrow> Err (NodeConfig ''read proposal body''))
          else Ok body
      | [] \<Rightarrow> Ok [])"

definition propose ::
    "ext \<Rightarrow> crypto_ext \<Rightarrow> 's rpc_env \<Rightarrow> bool \<Rightarrow> bytes option \<Rightarrow> (string \<Rightarrow> string option) \<Rightarrow> string \<Rightarrow> string \<Rightarrow> nat \<Rightarrow>
     's rpc \<Rightarrow> (node_error, string) result \<times> 's rpc" where
  "propose X K env up key_file read_file title body deposit st =
     submit_if_ok X K env up
       (rbind (load_key X key_file) (\<lambda>(key_bytes, pubkey, addr).
        rbind (proposal_body read_file body) (\<lambda>b.
        rbind (uadd 64 (ev_now_ms env) one_week_ms) (\<lambda>discussion_ends.
        rbind (uadd 64 (ev_now_ms env) (2 * one_week_ms)) (\<lambda>voting_ends.
        Ok (key_bytes, pubkey, GovProposal
          \<lparr>pr_proposal_id = 0, pr_proposer = addr, pr_deposit = deposit, pr_title = title, pr_body = b,
           pr_discussion_ends = discussion_ends, pr_voting_ends = voting_ends, pr_activation = None\<rparr>)))))) st"

definition cli_vote ::
    "ext \<Rightarrow> crypto_ext \<Rightarrow> 's rpc_env \<Rightarrow> bool \<Rightarrow> bytes option \<Rightarrow> nat \<Rightarrow> string \<Rightarrow> 's rpc \<Rightarrow>
     (node_error, string) result \<times> 's rpc" where
  "cli_vote X K env up key_file proposal_id choice st =
     submit_if_ok X K env up
       (rbind (load_key X key_file) (\<lambda>(key_bytes, pubkey, addr).
        rbind (parse_choice choice) (\<lambda>c. Ok (key_bytes, pubkey, GovVote proposal_id addr c)))) st"

section \<open>Gateways\<close>

definition register_gateway ::
    "ext \<Rightarrow> crypto_ext \<Rightarrow> 's rpc_env \<Rightarrow> bool \<Rightarrow> bytes option \<Rightarrow> string \<Rightarrow> bool \<Rightarrow> 's rpc \<Rightarrow>
     (node_error, string) result \<times> 's rpc" where
  "register_gateway X K env up key_file url https st =
     submit_if_ok X K env up
       (if url = [] then Err (NodeConfig ''--url cannot be empty'')
        else rbind (load_key X key_file) (\<lambda>(key_bytes, pubkey, addr).
             Ok (key_bytes, pubkey, RegisterGateway pubkey addr url https))) st"

definition unregister_gateway ::
    "ext \<Rightarrow> crypto_ext \<Rightarrow> 's rpc_env \<Rightarrow> bool \<Rightarrow> bytes option \<Rightarrow> 's rpc \<Rightarrow>
     (node_error, string) result \<times> 's rpc" where
  "unregister_gateway X K env up key_file st =
     submit_if_ok X K env up
       (rbind (load_key X key_file) (\<lambda>(key_bytes, pubkey, addr).
        Ok (key_bytes, pubkey, UnregisterGateway pubkey addr))) st"

section \<open>Attested nodes\<close>

text \<open>The key of the enclave has a file of its own. \<open>platforms\<close> and the quote come from the arguments; a
  quote file that cannot be read is \<open>None\<close>.\<close>

definition tee_pubkey :: "aead_ext \<Rightarrow> bytes option \<Rightarrow> (node_error, 256 word) result" where
  "tee_pubkey A enclave_file =
     (case enclave_file of
        None \<Rightarrow> Err (NodeConfig ''no enclave key'')
      | Some bs \<Rightarrow>
          if length bs \<noteq> 32 then Err (NodeConfig ''enclave key file has the wrong length'')
          else Ok (ae_public A (word_rcat bs)))"

definition tee_keygen ::
    "aead_ext \<Rightarrow> 256 word \<Rightarrow> bytes option \<Rightarrow> (node_error, 256 word) result \<times> bytes option" where
  "tee_keygen A fresh enclave_file =
     (case enclave_file of
        Some bs \<Rightarrow> (tee_pubkey A enclave_file, enclave_file)
      | None \<Rightarrow> (Ok (ae_public A fresh), Some (word_bytes fresh)))"

definition parse_platform :: "string \<Rightarrow> (node_error, tee_platform) result" where
  "parse_platform s =
     (if s = ''intel-tdx'' then Ok IntelTdx
      else if s = ''amd-sev-snp'' then Ok AmdSevSnp
      else if s = ''arm-cca'' then Ok ArmCca
      else Err (NodeConfig ''unknown TEE platform''))"

text \<open>The body of a request to \<^verbatim>\<open>/v1/tx\<close>: an object with the field \<^verbatim>\<open>tx_hex\<close>, or the object that a signed
  transaction is serialised to, with the fields \<^verbatim>\<open>tx\<close>, \<^verbatim>\<open>signer\<close> and \<^verbatim>\<open>signature\<close>. The extractor of the handler
  answers a body without the field with status 422.\<close>

datatype tx_body = TxHex string | TxObject signed_transaction

definition post_tx ::
    "ext \<Rightarrow> 's rpc_env \<Rightarrow> tx_body \<Rightarrow> 's rpc \<Rightarrow> (http_error, string) result \<times> 's rpc" where
  "post_tx X env body st =
     (case body of
        TxHex h \<Rightarrow> rpc_submit_tx X env h st
      | TxObject stx \<Rightarrow> (Err (HttpError 422 ''missing field `tx_hex`''), st))"

definition tee_tx ::
    "ext \<Rightarrow> crypto_ext \<Rightarrow> aead_ext \<Rightarrow> bytes option \<Rightarrow> bytes option \<Rightarrow> bytes option \<Rightarrow> string \<Rightarrow>
     (node_error, signed_transaction) result" where
  "tee_tx X K A enclave_file quote_file node_file platform =
     rbind (tee_pubkey A enclave_file) (\<lambda>enclave_pubkey.
     rbind (case quote_file of Some q \<Rightarrow> Ok q | None \<Rightarrow> Err (NodeConfig ''read quote file'')) (\<lambda>quote.
     rbind (parse_platform platform) (\<lambda>p.
     rbind (case node_file of
              None \<Rightarrow> Err (NodeConfig ''read node key'')
            | Some bs \<Rightarrow> if length bs \<noteq> 64 then Err (NodeConfig ''invalid node key length'')
                         else Ok (word_rcat (take 32 bs))) (\<lambda>secret.
     let signer = to_pubkey K secret;
         digest = x_blake3 X (pk_bytes signer);
         tx = RegisterTeeCapability digest (digest_address digest)
                \<lparr>tc_platform = p, tc_quote = quote, tc_enclave_pubkey = ed25519_pubkey enclave_pubkey\<rparr>
     in Ok \<lparr>stx_tx = tx, stx_signer = signer, stx_signature = sign_bytes K secret (word_bytes (tx_hash X tx))\<rparr>))))"

text \<open>A refusal of the node is printed, and the command succeeds.\<close>

datatype tee_report = Registered hash256 | RegistrationFailed nat

definition tee_register ::
    "ext \<Rightarrow> crypto_ext \<Rightarrow> aead_ext \<Rightarrow> 's rpc_env \<Rightarrow> bool \<Rightarrow> bytes option \<Rightarrow> bytes option \<Rightarrow> bytes option \<Rightarrow> string \<Rightarrow>
     's rpc \<Rightarrow> (node_error, tee_report) result \<times> 's rpc" where
  "tee_register X K A env up enclave_file quote_file node_file platform st =
     (case tee_tx X K A enclave_file quote_file node_file platform of
        Err e \<Rightarrow> (Err e, st)
      | Panic \<Rightarrow> (Panic, st)
      | Ok stx \<Rightarrow>
          if \<not> up then (Err (NodeConfig ''submit tx''), st)
          else case post_tx X env (TxObject stx) st of
            (Ok _, st') \<Rightarrow> (Ok (Registered (tx_hash X (stx_tx stx))), st')
          | (Err e, st') \<Rightarrow> (Ok (RegistrationFailed (http_status e)), st')
          | (Panic, st') \<Rightarrow> (Err (NodeConfig ''submit tx''), st'))"

section \<open>What reaches the pool\<close>

definition is_stake_op :: "transaction \<Rightarrow> bool" where
  "is_stake_op tx \<longleftrightarrow> (case tx of StakeOp op \<Rightarrow> True | _ \<Rightarrow> False)"

text \<open>The node reads from the posted text the transaction that was signed, or for the first property at
  least one of the same kind.\<close>

definition received_as :: "ext \<Rightarrow> 's rpc_env \<Rightarrow> signed_transaction \<Rightarrow> signed_transaction option" where
  "received_as X env stx =
     Option.bind (ev_hex_decode env (strip_0x (x_hex_encode X (x_borsh_stx X stx)))) (ev_unborsh_stx env)"

definition stakes_stay_stakes :: "ext \<Rightarrow> 's rpc_env \<Rightarrow> bool" where
  "stakes_stay_stakes X env \<longleftrightarrow>
     (\<forall>stx stx'. is_stake_op (stx_tx stx) \<longrightarrow> received_as X env stx = Some stx' \<longrightarrow> is_stake_op (stx_tx stx'))"

lemma pool_refuses_stakes:
  assumes "is_stake_op (stx_tx stx)"
  shows "\<exists>e. mp_insert X stx p = Some (p, Err e)"
  using assms by (cases "stx_tx stx") (auto simp: is_stake_op_def mp_insert_def)

lemma post_stake_fails:
  assumes "stakes_stay_stakes X env" and "is_stake_op (stx_tx stx)"
  shows "\<exists>e. post_signed X env up stx st = (Err e, st)"
proof (cases "received_as X env stx")
  case None
  then show ?thesis
    by (auto simp: received_as_def post_signed_def rpc_submit_tx_def Option.bind_eq_None_conv Let_def
        split: option.split)
next
  case (Some stx')
  with assms have "is_stake_op (stx_tx stx')" by (auto simp: stakes_stay_stakes_def)
  then obtain e where e: "mp_insert X stx' p = Some (p, Err (e p))" for p using pool_refuses_stakes by metis
  from Some obtain bs where "ev_hex_decode env (strip_0x (x_hex_encode X (x_borsh_stx X stx))) = Some bs"
    "ev_unborsh_stx env bs = Some stx'" by (auto simp: received_as_def bind_eq_Some_conv)
  with e show ?thesis
    by (cases "rp_consensus st") (simp_all add: post_signed_def rpc_submit_tx_def handle_submit_tx_def on_submit_tx_def)
qed

lemma prepared_stake_fails:
  assumes "stakes_stay_stakes X env" and "prepared \<noteq> Panic"
    and "\<And>kb pk tx. prepared = Ok (kb, pk, tx) \<Longrightarrow> is_stake_op tx"
  shows "\<exists>e. submit_if_ok X K env up prepared st = (Err e, st)"
proof (cases prepared)
  case (Ok p)
  then obtain kb pk tx where p: "prepared = Ok (kb, pk, tx)" by (cases p) auto
  with assms(3) have "is_stake_op (stx_tx (cli_signed X K kb pk tx))" by (simp add: cli_signed_def)
  with post_stake_fails[OF assms(1)] p show ?thesis by (simp add: submit_if_ok_def sign_and_submit_def)
qed (use assms(2) in \<open>simp_all add: submit_if_ok_def\<close>)

text \<open>C24: No staking command ever succeeds: whatever the key, the arguments and the node, staking,
  unstaking, completing and redelegating end in an error and leave the node as it was, because the pool
  takes no staking transaction.\<close>

theorem staking_commands_always_fail:
  assumes "stakes_stay_stakes X env"
  shows "(\<exists>e. stake X K env up key_file amt role st = (Err e, st)) \<and>
    (\<exists>e. unstake X K env up key_file amt role st = (Err e, st)) \<and>
    (\<exists>e. complete_unbond X K env up key_file unbond_id role st = (Err e, st)) \<and>
    (\<exists>e. redelegate X K env up key_file amt role to_node st = (Err e, st))"
  unfolding stake_def unstake_def complete_unbond_def redelegate_def
  by (intro conjI prepared_stake_fails[OF assms])
    (auto simp: result_simps is_stake_op_def load_key_def parse_role_def parse_node_key_def Let_def
      split: option.splits if_splits)

theorem staking_commands_always_fail_witness:
  "\<exists>e. stake store_ext demo_crypto (demo_env []\<lparr>ev_unborsh_stx := \<lambda>bs. Some (demo_stx (StakeOp (Complete 1 Compute None 0)))\<rparr>)
     True (Some (key_file_of demo_crypto 5)) 100 ''Compute'' (demo_node (Some (demo_engine None))) =
     (Err e, demo_node (Some (demo_engine None)))"
  by (rule staking_commands_always_fail[THEN conjunct1])
    (auto simp: stakes_stay_stakes_def received_as_def demo_env_def is_stake_op_def demo_stx_def bind_eq_Some_conv)

section \<open>Transfers reach the chain\<close>

lemma submit_if_ok_Ok:
  assumes "submit_if_ok X K env up prepared st = (Ok h, st')"
  obtains kb pk tx where "prepared = Ok (kb, pk, tx)" "post_signed X env up (cli_signed X K kb pk tx) st = (Ok h, st')"
  using assms by (auto simp: submit_if_ok_def sign_and_submit_def split: result.splits)

lemma post_signed_Ok:
  assumes "post_signed X env up stx st = (Ok h, st')" and "received_as X env stx = Some stx"
  obtains e p r where "rp_consensus st = Some e" "mp_insert X stx (en_pool e) = Some (p, Ok r)"
    "st' = st\<lparr>rp_consensus := Some (e\<lparr>en_pool := p\<rparr>)\<rparr>" "h = x_hex_encode X (word_bytes r)" "up"
  using assms
  by (auto simp: post_signed_def rpc_submit_tx_def received_as_def bind_eq_Some_conv handle_submit_tx_def
      on_submit_tx_def result_simps split: if_splits option.splits result.splits prod.splits)

text \<open>The transaction that a send signs.\<close>

definition send_stx ::
    "ext \<Rightarrow> crypto_ext \<Rightarrow> bytes \<Rightarrow> 256 word \<Rightarrow> address \<Rightarrow> address \<Rightarrow> send_args \<Rightarrow> nonce \<Rightarrow> signed_transaction" where
  "send_stx X K kb pk from to args n = cli_signed X K kb pk (Transfer from to (sa_amount args) n (sa_fee args))"

lemma sent_is_pooled:
  assumes "send_transfer X K env up key_file args st = (Ok h, st')"
    and "load_key X key_file = Ok (kb, pk, from)" and "parse_recipient env (sa_to args) = Ok to"
    and "stx = send_stx X K kb pk from to args (account_nonce X env up from st)"
    and "received_as X env stx = Some stx"
  obtains e p r where "rp_consensus st = Some e" "mp_insert X stx (en_pool e) = Some (p, Ok r)"
    "st' = st\<lparr>rp_consensus := Some (e\<lparr>en_pool := p\<rparr>)\<rparr>" "h = x_hex_encode X (word_bytes r)" "up"
proof -
  from assms(1) have "post_signed X env up stx st = (Ok h, st')"
    unfolding send_transfer_def by (elim submit_if_ok_Ok) (simp add: assms(2-4) send_stx_def)
  from post_signed_Ok[OF this assms(5)] that show thesis by blast
qed

lemma account_nonce_committed:
  assumes "ev_hex_decode env (strip_0x (x_hex_encode X (word_bytes from))) = Some (word_bytes (from :: address))"
    and "rp_consensus st = Some e" and "up"
  shows "account_nonce X env up from st =
    (case st_get_account (en_chain e) from of None \<Rightarrow> 0 | Some a \<Rightarrow> if nonce a < 2 ^ 64 then nonce a else 0)"
  using assms word_rcat_word_bytes[of "from"]
  by (simp add: account_nonce_def rpc_get_account_def handle_get_account_def zero_if_none_def as_u64_def Let_def
      split: option.split)


lemma same_nonce_replaces:
  assumes "mempool_ok X p" and "counters_fit p" and "kv_get (mp_by_hash p) h1 = Some en1"
    and "extract_sender_nonce_fee (stx_tx stx) = Ok (me_sender en1, me_nonce en1, fee)"
    and "mp_insert X stx p = Some (p', Ok h)"
  shows "me_fee en1 < fee \<and> kv_get (mp_by_hash p') h1 = None"
proof (cases rule: insert_cases[OF assms(1,2), of stx, case_names refused entered])
  case (refused err)
  with assms(5) show ?thesis by simp
next
  case (entered a n f e p1 q r)
  with assms(4,5) have v: "a = me_sender en1" "n = me_nonce en1" "f = fee" "q = p'" by auto
  have ag: "indices_agree X p" using assms(1) by (simp add: mempool_ok_def)
  note q = replace_Ok[OF ag entered(2)]
  have gone: "kv_get (mp_by_hash p1) h1 = None"
  proof (rule ccontr)
    assume "kv_get (mp_by_hash p1) h1 \<noteq> None"
    then have "kv_get (mp_by_hash p1) h1 = Some en1" using q(4)[of h1] assms(3) by auto
    then have "pending_at a n p1 = Some h1" using indices_agreeD(4)[OF q(1)] v by blast
    with q(2) show False by simp
  qed
  moreover have "me_fee en1 < fee" using q(5)[OF assms(3)] gone v by simp
  moreover have "h1 \<noteq> stx_hash X stx" using entered(3) assms(3) by auto
  moreover have "evicts (admit (stx_hash X stx) e p1) p'"
    using evict_spec[OF entered(7), of "stx_hash X stx" f] entered(6) v by (auto simp: mp_contains_def)
  ultimately show ?thesis using evicts_submap[of _ p' h1] by (cases "kv_get (mp_by_hash p') h1") fastforce+
qed

lemma account_nonce_pool:
  "rp_consensus st = Some e \<Longrightarrow>
   account_nonce X env up a (st\<lparr>rp_consensus := Some (e\<lparr>en_pool := p\<rparr>)\<rparr>) = account_nonce X env up a st"
  by (simp add: account_nonce_def rpc_get_account_def handle_get_account_def Let_def split: option.split)

text \<open>Two transfers sent one after the other before a block is committed have the same nonce, so both
  never wait in the pool together: the second is refused, or it costs more than the first and has removed
  it, although the first was reported as submitted.\<close>

theorem second_send_replaces_first:
  assumes "send_transfer X K env up key_file args1 st = (Ok h1, st1)"
    and "send_transfer X K env up key_file args2 st1 = (Ok h2, st2)"
    and "load_key X key_file = Ok (kb, pk, from)"
    and "parse_recipient env (sa_to args1) = Ok to1" and "parse_recipient env (sa_to args2) = Ok to2"
    and "stx1 = send_stx X K kb pk from to1 args1 (account_nonce X env up from st)"
    and "stx2 = send_stx X K kb pk from to2 args2 (account_nonce X env up from st1)"
    and "received_as X env stx1 = Some stx1" and "received_as X env stx2 = Some stx2"
    and "rp_consensus st = Some e" and "mempool_ok X (en_pool e)" and "counters_fit (en_pool e)"
    and "rp_consensus st1 = Some e1" and "counters_fit (en_pool e1)" and "rp_consensus st2 = Some e2"
  shows "sa_fee args1 < sa_fee args2 \<and> kv_get (mp_by_hash (en_pool e2)) (stx_hash X stx1) = None"
proof -
  from sent_is_pooled[OF assms(1,3,4,6,8)] assms(10,13) obtain p r where
    i: "mp_insert X stx1 (en_pool e) = Some (p, Ok r)" and st1: "st1 = st\<lparr>rp_consensus := Some (e\<lparr>en_pool := p\<rparr>)\<rparr>"
    by (metis option.inject)
  with assms(13) have e1: "e1 = e\<lparr>en_pool := p\<rparr>" by simp
  let ?n = "account_nonce X env up from st"
  have x: "extract_sender_nonce_fee (stx_tx stx1) = Ok (from, ?n, sa_fee args1)"
    "extract_sender_nonce_fee (stx_tx stx2) = Ok (from, ?n, sa_fee args2)"
    using account_nonce_pool[OF assms(10)] by (simp_all add: assms(6,7) st1 send_stx_def cli_signed_def)
  from insert_spec[OF assms(11,12), of stx1] i x(1) obtain en where ok: "mempool_ok X p"
    and en: "kv_get (mp_by_hash p) (stx_hash X stx1) = Some en" "me_tx en = stx1" by auto
  then have f: "me_sender en = from" "me_nonce en = ?n" "me_fee en = sa_fee args1"
    using indices_agreeD(2)[of X p] x(1) by (auto simp: mempool_ok_def entry_ok_def)
  obtain e0 p2 r2 where s: "rp_consensus st1 = Some e0" "mp_insert X stx2 (en_pool e0) = Some (p2, Ok r2)"
    "st2 = st1\<lparr>rp_consensus := Some (e0\<lparr>en_pool := p2\<rparr>)\<rparr>"
    by (rule sent_is_pooled[OF assms(2,3,5,7,9)])
  have "e0 = e1" using s(1) assms(13) by simp
  moreover have "e2 = e0\<lparr>en_pool := p2\<rparr>" using s(3) assms(15) by simp
  ultimately have "mp_insert X stx2 p = Some (p2, Ok r2)" "en_pool e2 = p2" "counters_fit p"
    using s(2) e1 assms(14) by simp_all
  with same_nonce_replaces[OF ok _ en(1)] x(2) f show ?thesis by simp
qed


definition pay_engine :: engine where
  "pay_engine = demo_engine None\<lparr>en_chain := state_open (demo_db [(7, demo_acct 30000)])\<rparr>"

definition pay_args :: send_args where
  "pay_args = \<lparr>sa_to = replicate 40 CHR ''9'', sa_amount = 500, sa_fee = 21000\<rparr>"

definition pay_key :: bytes where "pay_key = key_file_of demo_crypto (7 * 2 ^ 96)"

definition pay_stx :: signed_transaction where
  "pay_stx = send_stx demo_ext demo_crypto pay_key (7 * 2 ^ 96) 7 9 pay_args 0"

definition pay_env :: "nat rpc_env" where
  "pay_env = (demo_env [])\<lparr>ev_hex_decode := (\<lambda>s. Some (word_bytes (if s = [] then 7 else 9 :: address))),
     ev_unborsh_stx := (\<lambda>bs. Some pay_stx)\<rparr>"

lemma insert_empty_pool:
  assumes "check_signed_tx_size X stx = Ok ()" and "extract_sender_nonce_fee (stx_tx stx) = Ok (a, n, fee)"
    and "stx_encoded_len X stx = 0"
  shows "\<exists>p. mp_insert X stx mp_default = Some (p, Ok (stx_hash X stx))"
  using assms
  by (simp add: mp_insert_def mp_default_def with_limits_def replace_pending_def pending_at_def Let_def
      evict.simps[of h fee p for h p] mp_len_def kv_size_def DEFAULT_MAX_COUNT_def)

lemma pay_facts:
  "load_key demo_ext (Some pay_key) = Ok (pay_key, 7 * 2 ^ 96, 7)"
  "parse_recipient pay_env (sa_to pay_args) = Ok 9"
  "received_as demo_ext pay_env pay_stx = Some pay_stx"
  "account_nonce demo_ext pay_env True 7 (demo_node (Some pay_engine)) = 0"
proof -
  have l: "take 32 pay_key = word_bytes (7 * 2 ^ 96 :: 256 word)" "drop 32 pay_key = word_bytes (7 * 2 ^ 96 :: 256 word)"
    "length pay_key = 64"
    by (simp_all add: pay_key_def key_file_of_def demo_crypto_def)
  have "word_rcat (drop 32 pay_key) = (7 * 2 ^ 96 :: 256 word)" using l by (simp add: word_rcat_word_bytes)
  moreover have "digest_address (7 * 2 ^ 96) = 7" by (simp add: digest_address_def)
  ultimately show "load_key demo_ext (Some pay_key) = Ok (pay_key, 7 * 2 ^ 96, 7)"
    by (simp add: load_key_def l demo_ext_def)
  show "parse_recipient pay_env (sa_to pay_args) = Ok 9"
  proof -
    have "strip_0x (replicate 40 CHR ''9'') = replicate 40 CHR ''9''" "replicate 40 CHR ''9'' \<noteq> []" by code_simp+
    then show ?thesis by (simp add: parse_recipient_def pay_args_def pay_env_def word_rcat_word_bytes Let_def)
  qed
  show "received_as demo_ext pay_env pay_stx = Some pay_stx"
    by (simp add: received_as_def pay_env_def)
  show "account_nonce demo_ext pay_env True 7 (demo_node (Some pay_engine)) = 0"
    by (simp add: account_nonce_def rpc_get_account_def pay_env_def demo_ext_def strip_0x_def starts_with_def
        word_rcat_word_bytes demo_node_def handle_get_account_def pay_engine_def zero_if_none_def as_u64_def Let_def
        st_get_account_def state_open_def demo_db_def)
qed



section \<open>Keys and attested nodes\<close>

text \<open>The key file that the wallet creates is one file for every use: the wallet and the node read the
  same public key from it, the client library loads it as the same wallet with the same address, and creating
  again keeps it.\<close>

theorem key_file_is_shared:
  assumes "create_wallet X K fresh None = (r, Some f)"
  shows "load_or_generate_keypair K fresh' (Some f) = (Ok fresh, Some f) \<and>
    (\<exists>w kb. wallet_load X K f = Ok w \<and> wallet_save K w = f \<and>
       load_key X (Some f) = Ok (kb, kx_public K fresh, wa_address w) \<and> r = Ok (wa_address w, word_bytes (kx_public K fresh))) \<and>
    create_wallet X K fresh' (Some f) = (r, Some f)"
proof -
  have l: "f = key_file_of K fresh" "r = show_address X (Some f)" using assms by (auto simp: create_wallet_def)
  have t: "take 32 f = word_bytes fresh" "drop 32 f = word_bytes (kx_public K fresh)" "length f = 64"
    by (simp_all add: l key_file_of_def)
  then have w: "wallet_load X K f = Ok \<lparr>wa_key = fresh, wa_address = derive_address X K fresh\<rparr>"
    "wallet_save K \<lparr>wa_key = fresh, wa_address = derive_address X K fresh\<rparr> = f"
    by (simp_all add: wallet_load_def word_rcat_word_bytes wallet_save_def l(1) key_file_of_def)
  have "digest_address (x_blake3 X (word_bytes (kx_public K fresh))) = derive_address X K fresh"
    by (simp add: derive_address_def to_pubkey_def ed25519_pubkey_def)
  with t w l(2) show ?thesis
    by (simp add: load_or_generate_keypair_def word_rcat_word_bytes load_key_def show_address_def create_wallet_def)
qed

theorem key_file_is_shared_witness:
  "\<exists>w. wallet_load demo_ext demo_crypto (key_file_of demo_crypto 5) = Ok w \<and>
    load_or_generate_keypair demo_crypto 1 (Some (key_file_of demo_crypto 5)) = (Ok 5, Some (key_file_of demo_crypto 5))"
proof -
  have "create_wallet demo_ext demo_crypto 5 None =
      (show_address demo_ext (Some (key_file_of demo_crypto 5)), Some (key_file_of demo_crypto 5))"
    by (simp add: create_wallet_def)
  from key_file_is_shared[OF this, of 1] show ?thesis by blast
qed

text \<open>Registering the attestation of a node never reaches a chain: whatever the files, the arguments and
  the node, no registration is reported, the node stays as it was, and a node that answers refuses the posted
  body with status 422 while the command ends without an error.\<close>

theorem tee_registration_never_sent:
  "snd (tee_register X K A env up enclave_file quote_file node_file platform st) = st \<and>
   (\<forall>h. fst (tee_register X K A env up enclave_file quote_file node_file platform st) \<noteq> Ok (Registered h)) \<and>
   (up \<and> tee_tx X K A enclave_file quote_file node_file platform = Ok stx \<longrightarrow>
      fst (tee_register X K A env up enclave_file quote_file node_file platform st) = Ok (RegistrationFailed 422))"
  by (cases "tee_tx X K A enclave_file quote_file node_file platform") (simp_all add: tee_register_def post_tx_def)

text \<open>The balance shown is the committed one, capped to what 64 bits hold; only a key file that is too
  short stops the command.\<close>

theorem balance_is_committed:
  assumes "ev_hex_decode env (strip_0x a) = Some (word_bytes (acct_address :: address))" and "strip_0x (strip_0x a) = strip_0x a"
    and "rp_consensus st = Some e"
  shows "query_balance X env True (Some a) key_file st =
      Ok (case st_get_account (en_chain e) acct_address of
            None \<Rightarrow> NoAccount
          | Some acct \<Rightarrow> Balance (zero_if_none (as_u64 (balance acct))) (zero_if_none (as_u64 (nonce acct)))) \<and>
    (query_balance X env up None key_file st = Panic \<longleftrightarrow> (\<exists>bs. key_file = Some bs \<and> length bs < 64))"
proof -
  have "rpc_get_account env (strip_0x a) st = (case st_get_account (en_chain e) acct_address of
      Some acct \<Rightarrow> Ok (''0x'' @ strip_0x a, balance acct, nonce acct) | None \<Rightarrow> Err (HttpError 404 ''account not found''))"
    using assms word_rcat_word_bytes[of acct_address] by (simp add: rpc_get_account_def handle_get_account_def Let_def)
  then have "query_balance X env True (Some a) key_file st =
      Ok (case st_get_account (en_chain e) acct_address of
            None \<Rightarrow> NoAccount
          | Some acct \<Rightarrow> Balance (zero_if_none (as_u64 (balance acct))) (zero_if_none (as_u64 (nonce acct))))"
    by (simp add: query_balance_def split: option.split)
  moreover have "query_balance X env up None key_file st = Panic \<longleftrightarrow> (\<exists>bs. key_file = Some bs \<and> length bs < 64)"
    by (auto simp: query_balance_def result_simps split: option.split if_splits result.splits prod.splits)
  ultimately show ?thesis by blast
qed

end
