(* ===== verification/PeerNetwork.thy ===== *)
theory PeerNetwork
  imports InferenceWire ModelRef "HOL-Library.Countable"
begin

text \<open>
  The peer-to-peer network of a node (\<^verbatim>\<open>crates/network/src\<close>): the handshake in the agent string of a peer
  (\<open>handshake.rs\<close>), the file of known peers (\<open>peer.rs\<close>), the configuration (\<open>config.rs\<close>, and
  \<^verbatim>\<open>crates/node/src/network_boot.rs\<close> with its sections of \<^verbatim>\<open>crates/common/src/config.rs\<close>), and the task that owns
  the swarm (\<open>network.rs\<close>): what it does at start, with a command and with an event. libp2p is outside the
  repository: its events come in any order, and what the task asks of it is a list of actions; the answers
  it gives at once (does a dial start, which id has a request) are in \<open>swarm_ext\<close>. The formats of peer ids,
  addresses and JSON are in \<open>net_ext\<close>.
\<close>

section \<open>Mailboxes\<close>

text \<open>The contract of a bounded channel whose sender never waits.\<close>

locale mailbox =
  fixes offer :: "nat \<Rightarrow> 'a \<Rightarrow> 'q \<Rightarrow> 'q" and take_one :: "'q \<Rightarrow> 'a option \<times> 'q" and items :: "'q \<Rightarrow> 'a list"
  assumes offer_items: "items (offer cap x q) = (if length (items q) < cap then items q @ [x] else items q)"
    and take_items: "items (snd (take_one q)) = tl (items q)"
    and take_first: "fst (take_one q) = (case items q of [] \<Rightarrow> None | x # _ \<Rightarrow> Some x)"
begin

lemma offer_bounded: "length (items q) \<le> cap \<Longrightarrow> length (items (offer cap x q)) \<le> cap"
  by (simp add: offer_items)

lemma offer_all:
  "items (fold (offer cap) xs q) = items q @ take (cap - length (items q)) xs"
proof (induction xs arbitrary: q)
  case (Cons x xs)
  then show ?case by (simp add: offer_items take_Cons' Suc_diff_Suc)
qed simp

end

text \<open>\<^verbatim>\<open>try_send\<close> on a channel of tokio; a reader that is gone makes no difference to the sender, who ignores the
  error.\<close>

definition mpsc_try_send :: "nat \<Rightarrow> 'a \<Rightarrow> 'a list \<Rightarrow> 'a list" where
  "mpsc_try_send cap x q = (if length q < cap then q @ [x] else q)"

definition mpsc_recv :: "'a list \<Rightarrow> 'a option \<times> 'a list" where
  "mpsc_recv q = (case q of [] \<Rightarrow> (None, []) | x # xs \<Rightarrow> (Some x, xs))"

interpretation mpsc: mailbox mpsc_try_send mpsc_recv "\<lambda>q. q"
  by unfold_locales (auto simp: mpsc_try_send_def mpsc_recv_def split: list.split)

section \<open>Handshakes\<close>

type_synonym peer_id = bytes
type_synonym multiaddr = bytes

record peer_roles =
  pe_validator :: bool
  pe_router :: bool
  pe_compute :: bool
  pe_verifier :: bool

record handshake =
  hs_version :: nat
  hs_network_id :: string
  hs_software :: string
  hs_roles :: peer_roles

record peer_record =
  pb_peer_id :: string
  pb_addrs :: "string list"
  pb_first_seen_ms :: timestamp
  pb_last_seen_ms :: timestamp

record net_ext =
  nx_json_handshake :: "handshake \<Rightarrow> string"
  nx_parse_handshake :: "string \<Rightarrow> handshake option"
  nx_show_peer :: "peer_id \<Rightarrow> string"
  nx_parse_peer :: "string \<Rightarrow> peer_id option"
  nx_show_addr :: "multiaddr \<Rightarrow> string"
  nx_parse_addr :: "string \<Rightarrow> multiaddr option"
  nx_has_p2p :: "multiaddr \<Rightarrow> bool"
  nx_with_circuit :: "multiaddr \<Rightarrow> multiaddr"
  nx_json_book :: "peer_record list \<Rightarrow> bytes"
  nx_parse_book :: "bytes \<Rightarrow> peer_record list option"

datatype network_error =
  NetConfig string | PeerBookError string | Transport string | Behaviour string | HandshakeError string string
| TaskExited string | NetJson

definition HANDSHAKE_VERSION :: nat where "HANDSHAKE_VERSION = 1"

definition AGENT_PREFIX :: string where "AGENT_PREFIX = ''arknet/''"

definition to_agent_version :: "net_ext \<Rightarrow> handshake \<Rightarrow> string" where
  "to_agent_version N h = AGENT_PREFIX @ nx_json_handshake N h"

definition from_agent_version :: "net_ext \<Rightarrow> string \<Rightarrow> (network_error, handshake option) result" where
  "from_agent_version N raw =
     (if \<not> starts_with AGENT_PREFIX raw then Ok None
      else case nx_parse_handshake N (drop (length AGENT_PREFIX) raw) of
        Some h \<Rightarrow> Ok (Some h) | None \<Rightarrow> Err NetJson)"

definition check_compatible :: "handshake \<Rightarrow> handshake \<Rightarrow> (network_error, unit) result" where
  "check_compatible ours theirs =
     (if hs_version theirs \<noteq> hs_version ours
      then Err (HandshakeError ''unknown'' ''handshake version mismatch'')
      else if hs_network_id theirs \<noteq> hs_network_id ours
      then Err (HandshakeError ''unknown'' ''network id mismatch'')
      else Ok ())"

section \<open>The peer book\<close>

text \<open>Loading never fails: what cannot be read or parsed is an empty book.\<close>

type_synonym peer_book = "(peer_id, peer_record) kv"

definition book_of :: "net_ext \<Rightarrow> peer_record list \<Rightarrow> peer_book" where
  "book_of N rs = fold (\<lambda>r m. case nx_parse_peer N (pb_peer_id r) of Some p \<Rightarrow> kv_put p r m | None \<Rightarrow> m) rs kv_empty"

definition book_load :: "net_ext \<Rightarrow> bytes option \<Rightarrow> peer_book" where
  "book_load N content =
     (case content of
        None \<Rightarrow> kv_empty
      | Some bs \<Rightarrow> (case nx_parse_book N bs of Some rs \<Rightarrow> book_of N rs | None \<Rightarrow> kv_empty))"

definition book_snapshot :: "peer_book \<Rightarrow> peer_record list" where
  "book_snapshot m = sort_key pb_peer_id (map snd (kv_entries m))"

text \<open>A write that fails (\<open>disk = False\<close>) leaves the file as it was.\<close>

definition book_flush :: "net_ext \<Rightarrow> bool \<Rightarrow> peer_book \<Rightarrow> bytes option \<Rightarrow> bytes option" where
  "book_flush N disk m content = (if disk then Some (nx_json_book N (book_snapshot m)) else content)"

definition insert_connected ::
    "net_ext \<Rightarrow> timestamp \<Rightarrow> bool \<Rightarrow> peer_id \<Rightarrow> multiaddr \<Rightarrow> peer_book \<times> bytes option \<Rightarrow> peer_book \<times> bytes option" where
  "insert_connected N now disk peer addr = (\<lambda>(m, content).
     let r = (case kv_get m peer of Some r \<Rightarrow> r
              | None \<Rightarrow> \<lparr>pb_peer_id = nx_show_peer N peer, pb_addrs = [], pb_first_seen_ms = now, pb_last_seen_ms = now\<rparr>);
         addr_s = nx_show_addr N addr;
         r' = r\<lparr>pb_addrs := (if addr_s \<in> set (pb_addrs r) then pb_addrs r else pb_addrs r @ [addr_s]), pb_last_seen_ms := now\<rparr>;
         m' = kv_put peer r' m
     in (m', book_flush N disk m' content))"

definition book_remove ::
    "net_ext \<Rightarrow> bool \<Rightarrow> peer_id \<Rightarrow> peer_book \<times> bytes option \<Rightarrow> peer_book \<times> bytes option" where
  "book_remove N disk peer = (\<lambda>(m, content).
     if kv_get m peer = None then (m, content)
     else let m' = kv_del peer m in (m', book_flush N disk m' content))"

section \<open>Configuration\<close>

record network_config =
  nc_network_id :: string
  nc_listen_addrs :: "multiaddr list"
  nc_external_addr :: "multiaddr option"
  nc_bootstrap_peers :: "multiaddr list"
  nc_max_inbound_peers :: nat
  nc_max_outbound_peers :: nat

definition config_validate :: "network_config \<Rightarrow> (network_error, unit) result" where
  "config_validate c =
     (if nc_network_id c = [] then Err (NetConfig ''network_id is empty'')
      else if nc_listen_addrs c = [] then Err (NetConfig ''at least one listen_addr is required'')
      else if nc_max_outbound_peers c = 0 \<and> nc_bootstrap_peers c = []
      then Err (NetConfig ''max_outbound_peers is 0 and no bootstrap peers - node would be offline'')
      else Ok ())"

fun parse_multiaddrs :: "net_ext \<Rightarrow> string list \<Rightarrow> (network_error, multiaddr list) result" where
  "parse_multiaddrs N [] = Ok []"
| "parse_multiaddrs N (s # ss) =
     (case nx_parse_addr N s of
        None \<Rightarrow> Err (NetConfig s)
      | Some a \<Rightarrow> rbind (parse_multiaddrs N ss) (\<lambda>as. Ok (a # as)))"

record node_section =
  ns_name :: string
  ns_network :: string
  ns_data_dir :: string
  ns_log_level :: string

record roles_section =
  rs_validator :: bool
  rs_router :: bool
  rs_compute :: bool
  rs_verifier :: bool

record network_section =
  nt_p2p_listen :: string
  nt_rpc_listen :: string
  nt_metrics_listen :: string
  nt_bootstrap_peers :: "string list"
  nt_external_address :: "string option"
  nt_max_inbound_peers :: nat
  nt_max_outbound_peers :: nat

definition node_section_default :: node_section where
  "node_section_default = \<lparr>ns_name = ''arknet-node'', ns_network = ''devnet'', ns_data_dir = ''/var/lib/arknet'',
     ns_log_level = ''info''\<rparr>"

definition network_section_default :: network_section where
  "network_section_default = \<lparr>nt_p2p_listen = ''0.0.0.0:26656'', nt_rpc_listen = ''127.0.0.1:26657'',
     nt_metrics_listen = ''127.0.0.1:9090'', nt_bootstrap_peers = [], nt_external_address = None,
     nt_max_inbound_peers = 60, nt_max_outbound_peers = 20\<rparr>"

text \<open>Reading and printing a port, as \<^verbatim>\<open>u16\<close> does: digits with an optional sign, below \<open>2^16\<close>.\<close>

definition is_digit :: "char \<Rightarrow> bool" where
  "is_digit c \<longleftrightarrow> CHR ''0'' \<le> c \<and> c \<le> CHR ''9''"

definition digits_value :: "string \<Rightarrow> nat" where
  "digits_value s = foldl (\<lambda>n c. 10 * n + (of_char c - 48)) 0 s"

definition parse_u16 :: "string \<Rightarrow> nat option" where
  "parse_u16 s =
     (let d = (if starts_with ''+'' s then drop 1 s else s)
      in if d \<noteq> [] \<and> list_all is_digit d \<and> digits_value d < 2 ^ 16 then Some (digits_value d) else None)"

fun show_nat :: "nat \<Rightarrow> string" where
  "show_nat n = (if n < 10 then [char_of (48 + n)] else show_nat (n div 10) @ [char_of (48 + n mod 10)])"

declare show_nat.simps [simp del]

definition net_listen_addrs :: "net_ext \<Rightarrow> string \<Rightarrow> (network_error, multiaddr list) result" where
  "net_listen_addrs N p2p_listen =
     (case rsplit_once CHR '':'' p2p_listen of
        None \<Rightarrow> Err (NetConfig ''p2p_listen must be host:port'')
      | Some (host, port_s) \<Rightarrow>
         (case parse_u16 port_s of
            None \<Rightarrow> Err (NetConfig ''p2p_listen port'')
          | Some port \<Rightarrow>
             (case nx_parse_addr N (''/ip4/'' @ host @ ''/udp/'' @ show_nat port @ ''/quic-v1'') of
                None \<Rightarrow> Err (NetConfig ''build quic multiaddr'')
              | Some quic \<Rightarrow>
                 (case nx_parse_addr N (''/ip4/'' @ host @ ''/tcp/'' @ show_nat port) of
                    None \<Rightarrow> Err (NetConfig ''build tcp multiaddr'')
                  | Some tcp \<Rightarrow> Ok [quic, tcp]))))"

text \<open>What the node hands to the network: the sections of its configuration become the configuration and the
  handshake.\<close>

definition boot_config ::
    "net_ext \<Rightarrow> string \<Rightarrow> node_section \<Rightarrow> network_section \<Rightarrow> roles_section \<Rightarrow>
     (network_error, network_config \<times> handshake) result" where
  "boot_config N version node net roles =
     rbind (net_listen_addrs N (nt_p2p_listen net)) (\<lambda>listen.
     rbind (parse_multiaddrs N (nt_bootstrap_peers net)) (\<lambda>bootstrap.
     rbind (case nt_external_address net of
              None \<Rightarrow> Ok None
            | Some s \<Rightarrow> (case nx_parse_addr N s of Some a \<Rightarrow> Ok (Some a) | None \<Rightarrow> Err (NetConfig ''external_address''))) (\<lambda>external.
     Ok (\<lparr>nc_network_id = ns_network node, nc_listen_addrs = listen, nc_external_addr = external,
          nc_bootstrap_peers = bootstrap, nc_max_inbound_peers = nt_max_inbound_peers net,
          nc_max_outbound_peers = nt_max_outbound_peers net\<rparr>,
         \<lparr>hs_version = HANDSHAKE_VERSION, hs_network_id = ns_network node, hs_software = ''arknet/'' @ version,
          hs_roles = \<lparr>pe_validator = rs_validator roles, pe_router = rs_router roles, pe_compute = rs_compute roles,
                     pe_verifier = rs_verifier roles\<rparr>\<rparr>))))"

definition sdk_defaults :: "multiaddr \<Rightarrow> string \<Rightarrow> multiaddr list \<Rightarrow> network_config" where
  "sdk_defaults any_port network_id bootstrap =
     \<lparr>nc_network_id = network_id, nc_listen_addrs = [any_port], nc_external_addr = None,
      nc_bootstrap_peers = bootstrap, nc_max_inbound_peers = 0, nc_max_outbound_peers = 20\<rparr>"

section \<open>The task that owns the swarm\<close>

datatype net_event =
  PeerConnected peer_id handshake
| PeerDisconnected peer_id
| GossipMessage string bytes peer_id

record inbound_request =
  in_peer :: peer_id
  in_data :: bytes
  in_id :: nat

record response_event =
  re_id :: nat
  re_peer :: peer_id
  re_result :: "(string, bytes) result"

text \<open>What the task asks of the swarm; a response channel is known by the id of its request.\<close>

datatype action =
  ListenOn multiaddr | AddExternalAddress multiaddr | SubscribeTopic string | DialAddr multiaddr
| AddKadAddress peer_id multiaddr | Disconnect peer_id | PublishOn string bytes | SendRequest peer_id bytes
| SendResponse nat bytes

record network =
  nw_book :: peer_book
  nw_file :: "bytes option"
  nw_pending :: "(nat, unit) kv"
  nw_requests :: "inbound_request list"
  nw_responses :: "response_event list"
  nw_events :: "net_event list"

record swarm_ext =
  sx_dial :: "multiaddr \<Rightarrow> bool"
  sx_listen :: "multiaddr \<Rightarrow> bool"
  sx_subscribe :: "string \<Rightarrow> bool"
  sx_publish :: "string \<Rightarrow> bytes \<Rightarrow> bool"
  sx_connected :: "peer_id list"
  sx_request_id :: nat
  sx_now_ms :: timestamp
  sx_disk :: bool

definition CHANNEL_CAPACITY :: nat where "CHANNEL_CAPACITY = 64"

subsection \<open>Start\<close>

fun listen_all :: "swarm_ext \<Rightarrow> multiaddr list \<Rightarrow> (network_error, action list) result" where
  "listen_all S [] = Ok []"
| "listen_all S (a # as) =
     (if sx_listen S a then rbind (listen_all S as) (\<lambda>acts. Ok (ListenOn a # acts)) else Err (Transport ''listen_on''))"

fun subscribe_all :: "swarm_ext \<Rightarrow> string list \<Rightarrow> (network_error, action list) result" where
  "subscribe_all S [] = Ok []"
| "subscribe_all S (t # ts) =
     (if sx_subscribe S t then rbind (subscribe_all S ts) (\<lambda>acts. Ok (SubscribeTopic t # acts))
      else Err (Behaviour ''gossipsub subscribe''))"

text \<open>A bootstrap peer whose dial starts is also asked to relay, if its address names it.\<close>

definition dial_bootstrap :: "net_ext \<Rightarrow> swarm_ext \<Rightarrow> multiaddr \<Rightarrow> action list" where
  "dial_bootstrap N S a =
     DialAddr a # (if sx_dial S a \<and> nx_has_p2p N a then [ListenOn (nx_with_circuit N a)] else [])"

definition redial_known :: "net_ext \<Rightarrow> peer_book \<Rightarrow> action list" where
  "redial_known N m =
     concat (map (\<lambda>r. concat (map (\<lambda>s. case nx_parse_addr N s of Some a \<Rightarrow> [DialAddr a] | None \<Rightarrow> []) (pb_addrs r)))
       (book_snapshot m))"

definition network_start ::
    "net_ext \<Rightarrow> swarm_ext \<Rightarrow> network_config \<Rightarrow> bytes option \<Rightarrow> (network_error, network \<times> action list) result" where
  "network_start N S cfg content =
     rbind (config_validate cfg) (\<lambda>_.
     rbind (listen_all S (nc_listen_addrs cfg)) (\<lambda>listens.
     rbind (subscribe_all S all_topics) (\<lambda>subs.
     let m = book_load N content
     in Ok (\<lparr>nw_book = m, nw_file = content, nw_pending = kv_empty, nw_requests = [], nw_responses = [], nw_events = []\<rparr>,
            listens @ (case nc_external_addr cfg of Some a \<Rightarrow> [AddExternalAddress a] | None \<Rightarrow> []) @ subs @
            concat (map (dial_bootstrap N S) (nc_bootstrap_peers cfg)) @ redial_known N m))))"

subsection \<open>Commands\<close>

datatype command =
  Publish string bytes | ConnectedPeers | DialCommand multiaddr
| SendInferenceRequest peer_id bytes | SendInferenceResponse nat bytes

datatype command_reply =
  PublishReply "(network_error, unit) result" | PeersReply "peer_id list" | DialReply "(network_error, unit) result"
| RequestIdReply nat | NoReply

fun handle_command :: "swarm_ext \<Rightarrow> command \<Rightarrow> network \<Rightarrow> command_reply \<times> network \<times> action list" where
  "handle_command S (Publish topic data) s =
     (PublishReply (if sx_publish S topic data then Ok () else Err (Behaviour topic)), s, [PublishOn topic data])"
| "handle_command S ConnectedPeers s = (PeersReply (sx_connected S), s, [])"
| "handle_command S (DialCommand a) s =
     (DialReply (if sx_dial S a then Ok () else Err (Transport ''dial'')), s, [DialAddr a])"
| "handle_command S (SendInferenceRequest peer data) s = (RequestIdReply (sx_request_id S), s, [SendRequest peer data])"
| "handle_command S (SendInferenceResponse i data) s =
     (if kv_get (nw_pending s) i = None then (NoReply, s, [])
      else (NoReply, s\<lparr>nw_pending := kv_del i (nw_pending s)\<rparr>, [SendResponse i data]))"

subsection \<open>Events\<close>

datatype swarm_event =
  NewListenAddr multiaddr
| ConnectionEstablished peer_id multiaddr
| ConnectionClosed peer_id
| OutgoingConnectionError peer_id
| Identified peer_id string "multiaddr list"
| GossipReceived string bytes peer_id
| RequestReceived peer_id nat bytes
| ResponseReceived peer_id nat bytes
| RequestFailed peer_id nat string
| OtherEvent

definition emit :: "net_event \<Rightarrow> network \<Rightarrow> network" where
  "emit ev s = s\<lparr>nw_events := nw_events s @ [ev]\<rparr>"

definition deliver_response :: "response_event \<Rightarrow> network \<Rightarrow> network" where
  "deliver_response r s = s\<lparr>nw_responses := mpsc_try_send CHANNEL_CAPACITY r (nw_responses s)\<rparr>"

definition with_book :: "(peer_book \<times> bytes option \<Rightarrow> peer_book \<times> bytes option) \<Rightarrow> network \<Rightarrow> network" where
  "with_book f s = (case f (nw_book s, nw_file s) of (m, content) \<Rightarrow> s\<lparr>nw_book := m, nw_file := content\<rparr>)"

definition on_identified ::
    "net_ext \<Rightarrow> swarm_ext \<Rightarrow> handshake \<Rightarrow> peer_id \<Rightarrow> string \<Rightarrow> multiaddr list \<Rightarrow> network \<Rightarrow> network \<times> action list" where
  "on_identified N S expected peer agent addrs s =
     (case from_agent_version N agent of
        Ok (Some remote) \<Rightarrow>
         (case check_compatible expected remote of
            Ok _ \<Rightarrow> (emit (PeerConnected peer remote) s, map (AddKadAddress peer) addrs)
          | _ \<Rightarrow> (with_book (book_remove N (sx_disk S) peer) s, [Disconnect peer]))
      | Ok None \<Rightarrow> (s, [Disconnect peer])
      | _ \<Rightarrow> (s, [Disconnect peer]))"

fun handle_swarm_event ::
    "net_ext \<Rightarrow> swarm_ext \<Rightarrow> handshake \<Rightarrow> swarm_event \<Rightarrow> network \<Rightarrow> network \<times> action list" where
  "handle_swarm_event N S expected (NewListenAddr a) s = (s, [])"
| "handle_swarm_event N S expected (ConnectionEstablished peer a) s =
     (with_book (insert_connected N (sx_now_ms S) (sx_disk S) peer a) s, [])"
| "handle_swarm_event N S expected (ConnectionClosed peer) s = (emit (PeerDisconnected peer) s, [])"
| "handle_swarm_event N S expected (OutgoingConnectionError peer) s = (s, [])"
| "handle_swarm_event N S expected (Identified peer agent addrs) s = on_identified N S expected peer agent addrs s"
| "handle_swarm_event N S expected (GossipReceived topic data source) s = (emit (GossipMessage topic data source) s, [])"
| "handle_swarm_event N S expected (RequestReceived peer i data) s =
     (s\<lparr>nw_pending := kv_put i () (nw_pending s),
        nw_requests := mpsc_try_send CHANNEL_CAPACITY \<lparr>in_peer = peer, in_data = data, in_id = i\<rparr> (nw_requests s)\<rparr>, [])"
| "handle_swarm_event N S expected (ResponseReceived peer i data) s =
     (deliver_response \<lparr>re_id = i, re_peer = peer, re_result = Ok data\<rparr> s, [])"
| "handle_swarm_event N S expected (RequestFailed peer i msg) s =
     (deliver_response \<lparr>re_id = i, re_peer = peer, re_result = Err msg\<rparr> s, [])"
| "handle_swarm_event N S expected OtherEvent s = (s, [])"

text \<open>One turn of the loop, or of the readers of its channels; the swarm may answer differently every time.\<close>

datatype turn = Commanded command | Happened swarm_event | ReadRequest | ReadResponse

fun net_turn :: "net_ext \<Rightarrow> handshake \<Rightarrow> swarm_ext \<times> turn \<Rightarrow> network \<Rightarrow> network \<times> action list" where
  "net_turn N expected (S, Commanded c) s = snd (handle_command S c s)"
| "net_turn N expected (S, Happened ev) s = handle_swarm_event N S expected ev s"
| "net_turn N expected (S, ReadRequest) s = (s\<lparr>nw_requests := snd (mpsc_recv (nw_requests s))\<rparr>, [])"
| "net_turn N expected (S, ReadResponse) s = (s\<lparr>nw_responses := snd (mpsc_recv (nw_responses s))\<rparr>, [])"

fun net_run :: "net_ext \<Rightarrow> handshake \<Rightarrow> (swarm_ext \<times> turn) list \<Rightarrow> network \<Rightarrow> network \<times> action list" where
  "net_run N expected [] s = (s, [])"
| "net_run N expected (t # ts) s =
     (let (s1, a1) = net_turn N expected t s; (s2, a2) = net_run N expected ts s1 in (s2, a1 @ a2))"

text \<open>Shutdown flushes the book once more.\<close>

definition net_shutdown :: "net_ext \<Rightarrow> bool \<Rightarrow> network \<Rightarrow> network" where
  "net_shutdown N disk s = s\<lparr>nw_file := book_flush N disk (nw_book s) (nw_file s)\<rparr>"

section \<open>Requests and their channels\<close>

definition received_id :: "swarm_ext \<times> turn \<Rightarrow> nat list" where
  "received_id t = (case snd t of Happened (RequestReceived p i d) \<Rightarrow> [i] | _ \<Rightarrow> [])"

definition received_ids :: "(swarm_ext \<times> turn) list \<Rightarrow> nat list" where
  "received_ids ts = concat (map received_id ts)"

definition answered_ids :: "action list \<Rightarrow> nat list" where
  "answered_ids acts = concat (map (\<lambda>a. case a of SendResponse i d \<Rightarrow> [i] | _ \<Rightarrow> []) acts)"

lemma id_lists [simp]:
  "received_ids [] = []" "answered_ids [] = []"
  "received_ids (t # ts) = received_id t @ received_ids ts" "answered_ids (as @ bs) = answered_ids as @ answered_ids bs"
  by (simp_all add: received_ids_def answered_ids_def)

lemma pending_frames [simp]:
  "nw_pending (emit ev s) = nw_pending s" "nw_pending (deliver_response r s) = nw_pending s"
  "nw_pending (with_book f s) = nw_pending s"
  by (simp_all add: emit_def deliver_response_def with_book_def split: prod.split)

lemma on_identified_pending:
  "nw_pending (fst (on_identified N S h p agent addrs s)) = nw_pending s"
  "answered_ids (snd (on_identified N S h p agent addrs s)) = []"
  by (simp_all add: on_identified_def answered_ids_def split: result.split option.split)

lemma turn_pending:
  assumes "net_turn N h t s = (s1, a1)"
  obtains (receive) i where "received_id t = [i]" "answered_ids a1 = []" "nw_pending s1 = kv_put i () (nw_pending s)"
  | (answer) i where "received_id t = []" "answered_ids a1 = [i]" "kv_get (nw_pending s) i \<noteq> None"
      "nw_pending s1 = kv_del i (nw_pending s)"
  | (other) "received_id t = []" "answered_ids a1 = []" "nw_pending s1 = nw_pending s"
proof -
  obtain S u where t: "t = (S, u)" by (cases t)
  show thesis
  proof (cases u)
    case (Commanded c)
    then have h: "snd (handle_command S c s) = (s1, a1)" and r: "received_id t = []"
      using assms t by (simp_all add: received_id_def)
    show thesis
    proof (cases "\<exists>i d. c = SendInferenceResponse i d \<and> kv_get (nw_pending s) i \<noteq> None")
      case True
      then obtain i d where "c = SendInferenceResponse i d" "kv_get (nw_pending s) i \<noteq> None" by blast
      with h r show thesis by (intro answer[of i]) (auto simp: answered_ids_def)
    next
      case False
      with h r show thesis by (intro other) (cases c; auto simp: answered_ids_def split: if_splits)+
    qed
  next
    case (Happened ev)
    have h: "handle_swarm_event N S h ev s = (s1, a1)" using assms t Happened by simp
    show thesis
    proof (cases ev)
      case (RequestReceived p i d)
      with h Happened t show thesis by (intro receive[of i]) (auto simp: received_id_def)
    next
      case (Identified p agent addrs)
      with h have "on_identified N S h p agent addrs s = (s1, a1)" by simp
      with on_identified_pending[of N S h p agent addrs s] Identified Happened t show thesis
        by (intro other) (simp_all add: received_id_def)
    qed (rule other; use h Happened t in \<open>auto simp: received_id_def\<close>)+
  qed (rule other; use assms t in \<open>auto simp: received_id_def\<close>)+
qed

lemma run_pending:
  assumes "net_run N h ts s = (s', acts)" and "distinct (received_ids ts)"
    and "\<forall>i \<in> set (received_ids ts). kv_get (nw_pending s) i = None"
  shows "distinct (answered_ids acts) \<and>
    (\<forall>i \<in> set (answered_ids acts). kv_get (nw_pending s) i \<noteq> None \<or> i \<in> set (received_ids ts)) \<and>
    (\<forall>i. kv_get (nw_pending s') i \<noteq> None \<longleftrightarrow>
       (kv_get (nw_pending s) i \<noteq> None \<or> i \<in> set (received_ids ts)) \<and> i \<notin> set (answered_ids acts))"
  using assms
proof (induction ts arbitrary: s acts)
  case (Cons t ts)
  obtain s1 a1 where t: "net_turn N h t s = (s1, a1)" by (cases "net_turn N h t s")
  obtain a2 where r: "net_run N h ts s1 = (s', a2)" "acts = a1 @ a2"
    using Cons.prems(1) t by (auto split: prod.splits)
  from t show ?case
  proof (cases rule: turn_pending)
    case (receive i)
    with Cons.prems(2,3) have "\<forall>j \<in> set (received_ids ts). kv_get (nw_pending s1) j = None" by auto
    with Cons.IH[OF r(1)] Cons.prems(2) receive r(2) show ?thesis by (auto split: if_splits)
  next
    case (answer i)
    with Cons.prems(2,3) have d: "\<forall>j \<in> set (received_ids ts). kv_get (nw_pending s1) j = None" "i \<notin> set (received_ids ts)" by auto
    with Cons.IH[OF r(1)] Cons.prems(2) answer have "i \<notin> set (answered_ids a2)" by (auto split: if_splits)
    with Cons.IH[OF r(1)] Cons.prems(2) answer d r(2) show ?thesis by (auto split: if_splits)
  next
    case other
    with Cons.IH[OF r(1)] Cons.prems(2,3) r(2) show ?thesis by auto
  qed
qed simp

lemma network_start_Ok:
  assumes "network_start N S cfg content = Ok (s, acts)"
  shows "s = \<lparr>nw_book = book_load N content, nw_file = content, nw_pending = kv_empty, nw_requests = [],
      nw_responses = [], nw_events = []\<rparr>"
    and "\<exists>before. acts = before @ redial_known N (book_load N content)"
  using assms by (auto simp: network_start_def result_simps Let_def)

text \<open>Whatever events and commands come in whatever order after the start of the network, if the ids of
  the inbound requests differ then every request is answered at most once and only after it came in, and
  the channels that the task holds are exactly those of the requests not answered yet.\<close>

theorem requests_answered_once:
  assumes "network_start N S cfg content = Ok (s, acts0)" and "net_run N h ts s = (s', acts)"
    and "distinct (received_ids ts)"
  shows "distinct (answered_ids acts) \<and> set (answered_ids acts) \<subseteq> set (received_ids ts) \<and>
    {i. kv_get (nw_pending s') i \<noteq> None} = set (received_ids ts) - set (answered_ids acts)"
  using run_pending[OF assms(2,3)] network_start_Ok(1)[OF assms(1)] by auto

text \<open>C1: If nobody reads the inbound requests, the channel keeps the first 64 of them and drops the rest, but
  the task holds a response channel for each of them: those of the dropped requests can never be used.\<close>

lemma kv_size_new: "kv_get m k = None \<Longrightarrow> kv_size (kv_put k v m) = kv_size m + 1"
  using kv_sum_put[of "\<lambda>_ _. 1" k v m] by (simp add: kv_size_sum)

lemma unread_run:
  fixes rs :: "(swarm_ext \<times> peer_id \<times> nat \<times> bytes) list"
  assumes "net_run N h (map (\<lambda>(S, p, i, d). (S, Happened (RequestReceived p i d))) rs) s = (s', acts)"
    and "distinct (map (\<lambda>(S, p, i, d). i) rs)" and "\<forall>(S, p, i, d) \<in> set rs. kv_get (nw_pending s) i = None"
  shows "acts = [] \<and> kv_size (nw_pending s') = kv_size (nw_pending s) + length rs \<and>
    nw_requests s' = fold (mpsc_try_send CHANNEL_CAPACITY)
      (map (\<lambda>(S, p, i, d). \<lparr>in_peer = p, in_data = d, in_id = i\<rparr>) rs) (nw_requests s)"
  using assms
proof (induction rs arbitrary: s acts)
  case (Cons r rs)
  obtain S p i d where r: "r = (S, p, i, d)" by (metis prod_cases4)
  let ?s1 = "s\<lparr>nw_pending := kv_put i () (nw_pending s),
    nw_requests := mpsc_try_send CHANNEL_CAPACITY \<lparr>in_peer = p, in_data = d, in_id = i\<rparr> (nw_requests s)\<rparr>"
  have "net_run N h (map (\<lambda>(S, p, i, d). (S, Happened (RequestReceived p i d))) rs) ?s1 = (s', acts)"
    using Cons.prems(1) r by (simp split: prod.splits)
  moreover have "\<forall>(S, p, j, d) \<in> set rs. kv_get (nw_pending ?s1) j = None"
    using Cons.prems(2,3) r by (force split: prod.splits)
  ultimately have "acts = [] \<and> kv_size (nw_pending s') = kv_size (nw_pending ?s1) + length rs \<and>
    nw_requests s' = fold (mpsc_try_send CHANNEL_CAPACITY)
      (map (\<lambda>(S, p, i, d). \<lparr>in_peer = p, in_data = d, in_id = i\<rparr>) rs) (nw_requests ?s1)"
    using Cons.IH[of ?s1 acts] Cons.prems(2) by simp
  then show ?case using Cons.prems(3) r by (simp add: kv_size_new)
qed simp

theorem unread_requests_pile_up:
  assumes "network_start N S cfg content = Ok (s, acts0)"
    and "net_run N h (map (\<lambda>(S, p, i, d). (S, Happened (RequestReceived p i d))) rs) s = (s', acts)"
    and "distinct (map (\<lambda>(S, p, i, d). i) rs)"
  shows "nw_requests s' = take 64 (map (\<lambda>(S, p, i, d). \<lparr>in_peer = p, in_data = d, in_id = i\<rparr>) rs) \<and>
    kv_size (nw_pending s') = length rs \<and> answered_ids acts = []"
proof -
  have "kv_size (kv_empty :: (nat, unit) kv) = 0" by (simp add: kv_size_def)
  with unread_run[OF assms(2,3)] network_start_Ok(1)[OF assms(1)] show ?thesis
    by (auto simp: mpsc.offer_all CHANNEL_CAPACITY_def)
qed

section \<open>Known peers\<close>

lemma book_of_get:
  "kv_get (fold (\<lambda>r m. case nx_parse_peer N (pb_peer_id r) of Some p \<Rightarrow> kv_put p r m | None \<Rightarrow> m) rs m) k =
   (case find (\<lambda>r. nx_parse_peer N (pb_peer_id r) = Some k) (rev rs) of Some r \<Rightarrow> Some r | None \<Rightarrow> kv_get m k)"
proof (induction rs rule: rev_induct)
  case (snoc r rs)
  then show ?case by (auto split: option.split)
qed simp

definition book_ok :: "net_ext \<Rightarrow> peer_book \<Rightarrow> bool" where
  "book_ok N m \<longleftrightarrow> (\<forall>p r. kv_get m p = Some r \<longrightarrow> nx_parse_peer N (pb_peer_id r) = Some p)"

lemma book_of_ok: "book_ok N (book_of N rs)"
  by (auto simp: book_ok_def book_of_def book_of_get find_Some_iff split: option.splits)

lemma snapshot_set: "r \<in> set (book_snapshot m) \<longleftrightarrow> (\<exists>p. kv_get m p = Some r)"
proof -
  have "kv_get m p = Some r \<longleftrightarrow> (p, r) \<in> set (kv_entries m)" for p
    using kv.distinct_keys[of m] by (simp add: kv.get_entries)
  then show ?thesis by (force simp: book_snapshot_def)
qed

lemma book_of_snapshot:
  assumes "book_ok N m"
  shows "book_of N (book_snapshot m) = m"
proof (rule kv_eqI)
  fix p
  have "find (\<lambda>r. nx_parse_peer N (pb_peer_id r) = Some p) (rev (book_snapshot m)) = kv_get m p"
  proof (cases "kv_get m p")
    case None
    then have "\<nexists>r. r \<in> set (rev (book_snapshot m)) \<and> nx_parse_peer N (pb_peer_id r) = Some p"
      using assms by (auto simp: snapshot_set book_ok_def)
    with None show ?thesis by (simp add: find_None_iff)
  next
    case (Some r)
    then have "r \<in> set (rev (book_snapshot m))" "nx_parse_peer N (pb_peer_id r) = Some p"
      using assms by (auto simp: snapshot_set book_ok_def)
    then have "find (\<lambda>r. nx_parse_peer N (pb_peer_id r) = Some p) (rev (book_snapshot m)) \<noteq> None"
      unfolding find_None_iff by blast
    then obtain r' where f: "find (\<lambda>r. nx_parse_peer N (pb_peer_id r) = Some p) (rev (book_snapshot m)) = Some r'"
      by blast
    then have "r' \<in> set (rev (book_snapshot m)) \<and> nx_parse_peer N (pb_peer_id r') = Some p"
      unfolding find_Some_iff by (metis nth_mem)
    then have "r' \<in> set (book_snapshot m)" "nx_parse_peer N (pb_peer_id r') = Some p" by simp_all
    with assms Some have "r' = r" by (auto simp: snapshot_set book_ok_def)
    with f Some show ?thesis by simp
  qed
  then show "kv_get (book_of N (book_snapshot m)) p = kv_get m p"
    by (simp add: book_of_def book_of_get split: option.split)
qed

definition formats_agree :: "net_ext \<Rightarrow> bool" where
  "formats_agree N \<longleftrightarrow> (\<forall>rs. nx_parse_book N (nx_json_book N rs) = Some rs) \<and>
     (\<forall>p. nx_parse_peer N (nx_show_peer N p) = Some p) \<and> (\<forall>a. nx_parse_addr N (nx_show_addr N a) = Some a)"

definition file_agrees :: "net_ext \<Rightarrow> peer_book \<times> bytes option \<Rightarrow> bool" where
  "file_agrees N b \<longleftrightarrow> book_load N (snd b) = fst b \<and> book_ok N (fst b)"

lemma file_agrees_loaded: "file_agrees N (book_load N content, content)"
  using book_of_ok by (auto simp: file_agrees_def book_load_def book_ok_def split: option.splits)

lemma flush_agrees: "formats_agree N \<Longrightarrow> book_ok N m \<Longrightarrow> file_agrees N (m, book_flush N True m content)"
  by (simp add: file_agrees_def book_flush_def book_load_def formats_agree_def book_of_snapshot)

lemma insert_connected_agrees:
  assumes "formats_agree N" and "file_agrees N b"
  shows "file_agrees N (insert_connected N now True p a b)"
proof -
  obtain m content where b: "b = (m, content)" by (cases b)
  have "book_ok N (fst (insert_connected N now True p a b))"
    using assms by (auto simp: b insert_connected_def book_ok_def file_agrees_def formats_agree_def Let_def split: option.splits)
  then show ?thesis using flush_agrees[OF assms(1)] by (simp add: b insert_connected_def Let_def)
qed

lemma book_remove_agrees:
  assumes "formats_agree N" and "file_agrees N b"
  shows "file_agrees N (book_remove N True p b)"
proof -
  obtain m content where b: "b = (m, content)" by (cases b)
  have "book_ok N (kv_del p m)" using assms(2) by (auto simp: b book_ok_def file_agrees_def split: if_splits)
  with flush_agrees[OF assms(1)] assms(2) show ?thesis by (simp add: b book_remove_def Let_def)
qed

definition network_agrees :: "net_ext \<Rightarrow> network \<Rightarrow> bool" where
  "network_agrees N s \<longleftrightarrow> file_agrees N (nw_book s, nw_file s)"

lemma agrees_frames [simp]:
  "network_agrees N (emit ev s) = network_agrees N s" "network_agrees N (deliver_response r s) = network_agrees N s"
  "network_agrees N (s\<lparr>nw_pending := x\<rparr>) = network_agrees N s" "network_agrees N (s\<lparr>nw_requests := rq\<rparr>) = network_agrees N s"
  "network_agrees N (s\<lparr>nw_responses := rp\<rparr>) = network_agrees N s"
  by (simp_all add: network_agrees_def emit_def deliver_response_def)

lemma with_book_agrees:
  "(\<And>b. file_agrees N b \<Longrightarrow> file_agrees N (f b)) \<Longrightarrow> network_agrees N s \<Longrightarrow> network_agrees N (with_book f s)"
proof -
  assume f: "\<And>b. file_agrees N b \<Longrightarrow> file_agrees N (f b)" and "network_agrees N s"
  then have "file_agrees N (f (nw_book s, nw_file s))" by (simp add: network_agrees_def)
  then show ?thesis by (auto simp: network_agrees_def with_book_def split: prod.split)
qed

lemma event_agrees:
  assumes "formats_agree N" and "sx_disk S" and "network_agrees N s"
  shows "network_agrees N (fst (handle_swarm_event N S h ev s))"
  using assms
  by (cases ev)
    (simp_all add: on_identified_def with_book_agrees insert_connected_agrees book_remove_agrees split: result.split option.split)

lemma turn_agrees:
  assumes "formats_agree N" and "sx_disk (fst t)" and "network_agrees N s"
  shows "network_agrees N (fst (net_turn N h t s))"
proof -
  obtain S u where t: "t = (S, u)" by (cases t)
  show ?thesis
  proof (cases u)
    case (Commanded c)
    then show ?thesis using assms t by (cases c) simp_all
  next
    case (Happened ev)
    then show ?thesis using event_agrees[OF assms(1) _ assms(3)] assms(2) t by simp
  qed (use assms t in simp_all)
qed

lemma run_agrees:
  assumes "formats_agree N" and "\<forall>t \<in> set ts. sx_disk (fst t)" and "network_agrees N s"
  shows "network_agrees N (fst (net_run N h ts s))"
  using assms(2,3)
proof (induction ts arbitrary: s)
  case (Cons t ts)
  then have "network_agrees N (fst (net_turn N h t s))" using turn_agrees[OF assms(1)] by simp
  with Cons show ?case by (simp split: prod.split) (metis fst_conv)
qed simp

lemma redial_known_mem:
  assumes "kv_get m p = Some r" and "nx_show_addr N a \<in> set (pb_addrs r)" and "formats_agree N"
  shows "DialAddr a \<in> set (redial_known N m)"
proof -
  have "r \<in> set (book_snapshot m)" using assms(1) by (auto simp: snapshot_set)
  moreover have "nx_parse_addr N (nx_show_addr N a) = Some a" using assms(3) by (simp add: formats_agree_def)
  ultimately show ?thesis
    using assms(2) by (auto simp: redial_known_def intro!: bexI[of _ r] bexI[of _ "nx_show_addr N a"])
qed

text \<open>Whatever happened while the network ran, as long as its file could be written: a network started
  on the file it leaves knows exactly the same peers and dials every address recorded for them.\<close>

theorem known_peers_survive_restart:
  assumes "formats_agree N" and "\<forall>t \<in> set ts. sx_disk (fst t)"
    and "network_start N S cfg content = Ok (s, acts)" and "net_run N h ts s = (s', acts')"
    and "network_start N S2 cfg2 (nw_file s') = Ok (s2, acts2)"
  shows "nw_book s2 = nw_book s' \<and>
    (\<forall>p r a. kv_get (nw_book s') p = Some r \<longrightarrow> nx_show_addr N a \<in> set (pb_addrs r) \<longrightarrow> DialAddr a \<in> set acts2)"
proof -
  have "network_agrees N s"
    using network_start_Ok(1)[OF assms(3)] file_agrees_loaded[of N content] by (simp add: network_agrees_def)
  from run_agrees[OF assms(1,2) this, of h] assms(4) have "book_load N (nw_file s') = nw_book s'"
    by (simp add: network_agrees_def file_agrees_def)
  with network_start_Ok[OF assms(5)] redial_known_mem[OF _ _ assms(1)] show ?thesis by auto
qed

text \<open>A peer that is not of this program (its agent string has no handshake, or a malformed one) is
  disconnected and never reported as connected, but it stays in the peer book, and the next start of the
  network dials it again; only a peer that names another network or version is forgotten.\<close>

theorem foreign_peers_are_redialled:
  assumes "formats_agree N" and "sx_disk S" and "network_agrees N s"
    and "s1 = fst (handle_swarm_event N S h (ConnectionEstablished p a) s)"
    and "handle_swarm_event N S h (Identified p agent addrs) s1 = (s2, acts)"
    and "network_start N S3 cfg (nw_file s2) = Ok (s3, acts3)"
    and "\<forall>remote. from_agent_version N agent = Ok (Some remote) \<longrightarrow> check_compatible h remote \<noteq> Ok ()"
  shows "acts = [Disconnect p] \<and> nw_events s2 = nw_events s1 \<and>
    (if \<exists>remote. from_agent_version N agent = Ok (Some remote) then kv_get (nw_book s3) p = None
     else DialAddr a \<in> set acts3)"
proof -
  have ag: "network_agrees N s1" unfolding assms(4) by (rule event_agrees[OF assms(1-3)])
  from event_agrees[OF assms(1,2) ag, of h "Identified p agent addrs"] assms(5)
  have "book_load N (nw_file s2) = nw_book s2" by (simp add: network_agrees_def file_agrees_def)
  with network_start_Ok[OF assms(6)] have s3: "nw_book s3 = nw_book s2" and d: "set (redial_known N (nw_book s2)) \<subseteq> set acts3"
    by auto
  show ?thesis
  proof (cases "\<exists>remote. from_agent_version N agent = Ok (Some remote)")
    case True
    then obtain remote where r: "from_agent_version N agent = Ok (Some remote)" by blast
    with assms(7) have "check_compatible h remote \<noteq> Ok ()" by blast
    with r assms(5) have e: "acts = [Disconnect p]" "s2 = with_book (book_remove N (sx_disk S) p) s1"
      by (auto simp: on_identified_def split: result.splits)
    have "kv_get (nw_book s2) p = None" "nw_events s2 = nw_events s1"
      by (auto simp: e(2) with_book_def book_remove_def Let_def)
    with e(1) r s3 show ?thesis by auto
  next
    case False
    with assms(5) have e: "acts = [Disconnect p]" "s2 = s1"
      by (auto simp: on_identified_def split: result.splits option.splits)
    have "\<exists>r. kv_get (nw_book s1) p = Some r \<and> nx_show_addr N a \<in> set (pb_addrs r)"
      by (simp add: assms(4) with_book_def insert_connected_def Let_def)
    then have "DialAddr a \<in> set acts3" using redial_known_mem[OF _ _ assms(1)] d e(2) by blast
    with e False show ?thesis by simp
  qed
qed

section \<open>Booting\<close>

lemma handshake_survives:
  "nx_parse_handshake N (nx_json_handshake N h) = Some h \<Longrightarrow> from_agent_version N (to_agent_version N h) = Ok (Some h)"
  by (simp add: from_agent_version_def to_agent_version_def starts_with_def)

lemma compatible_iff:
  "check_compatible a b = Ok () \<longleftrightarrow> hs_version b = hs_version a \<and> hs_network_id b = hs_network_id a"
  by (simp add: check_compatible_def)

text \<open>Without a configuration file a node gets a valid configuration with one address for each transport, and
  peers of the same network accept each other; but its handshake says that it serves no role at all, whatever
  role it was started with.\<close>

lemma default_config_boots:
  assumes "nx_parse_addr N ''/ip4/0.0.0.0/udp/26656/quic-v1'' = Some q" and "nx_parse_addr N ''/ip4/0.0.0.0/tcp/26656'' = Some t"
  shows "\<exists>cfg h. boot_config N version node_section_default network_section_default
      \<lparr>rs_validator = False, rs_router = False, rs_compute = False, rs_verifier = False\<rparr> = Ok (cfg, h) \<and>
    config_validate cfg = Ok () \<and> nc_listen_addrs cfg = [q, t] \<and> check_compatible h h = Ok () \<and>
    hs_roles h = \<lparr>pe_validator = False, pe_router = False, pe_compute = False, pe_verifier = False\<rparr>"
proof -
  have r: "rsplit_once CHR '':'' ''0.0.0.0:26656'' = Some (''0.0.0.0'', ''26656'')" by code_simp
  have p: "parse_u16 ''26656'' = Some 26656"
    by (simp add: parse_u16_def digits_value_def is_digit_def starts_with_def less_eq_char_def Let_def)
  have d: "show_nat 26656 = ''26656''" by (simp add: show_nat.simps) code_simp
  have "net_listen_addrs N ''0.0.0.0:26656'' = Ok [q, t]" using assms by (simp add: net_listen_addrs_def r p d)
  then show ?thesis
    by (simp add: boot_config_def network_section_default_def node_section_default_def config_validate_def compatible_iff)
qed

section \<open>Concrete networks\<close>

text \<open>Formats that can be read back: an id or address as the string of its bytes, a peer book as its number
  in an enumeration, written with that many bytes.\<close>

definition bytes_string :: "bytes \<Rightarrow> string" where "bytes_string bs = map (\<lambda>b. char_of (unat b)) bs"

definition string_bytes :: "string \<Rightarrow> bytes" where "string_bytes s = map (\<lambda>c. of_nat (of_char c)) s"

lemma string_bytes_inverse [simp]: "string_bytes (bytes_string bs) = bs"
proof -
  have "word_of_nat (of_char (char_of (unat b) :: char)) = (b :: byte)" for b
  proof -
    have "unat b < 256" using unsigned_less[of b] by simp
    then show ?thesis by simp
  qed
  then show ?thesis unfolding string_bytes_def bytes_string_def map_map by (intro map_idI) (simp add: comp_def)
qed

definition book_code :: "peer_record list \<Rightarrow> nat" where
  "book_code rs = to_nat (map (\<lambda>r. (pb_peer_id r, pb_addrs r, pb_first_seen_ms r, pb_last_seen_ms r)) rs)"

definition book_of_code :: "nat \<Rightarrow> peer_record list" where
  "book_of_code n = map (\<lambda>(p, a, f, l). \<lparr>pb_peer_id = p, pb_addrs = a, pb_first_seen_ms = f, pb_last_seen_ms = l\<rparr>) (from_nat n)"

lemma book_of_code_inverse: "book_of_code (book_code rs) = rs"
  by (induction rs) (simp_all add: book_of_code_def book_code_def)

definition demo_net :: net_ext where
  "demo_net = \<lparr>nx_json_handshake = (\<lambda>h. hs_network_id h), nx_parse_handshake = (\<lambda>s. None),
     nx_show_peer = bytes_string, nx_parse_peer = (\<lambda>s. Some (string_bytes s)), nx_show_addr = bytes_string,
     nx_parse_addr = (\<lambda>s. Some (string_bytes s)), nx_has_p2p = (\<lambda>a. False), nx_with_circuit = (\<lambda>a. a),
     nx_json_book = (\<lambda>rs. replicate (book_code rs) 0), nx_parse_book = (\<lambda>bs. Some (book_of_code (length bs)))\<rparr>"

lemma demo_formats: "formats_agree demo_net"
  by (simp add: formats_agree_def demo_net_def book_of_code_inverse)

definition demo_swarm :: swarm_ext where
  "demo_swarm = \<lparr>sx_dial = (\<lambda>a. True), sx_listen = (\<lambda>a. True), sx_subscribe = (\<lambda>t. True), sx_publish = (\<lambda>t d. True),
     sx_connected = [], sx_request_id = 0, sx_now_ms = 5, sx_disk = True\<rparr>"

definition demo_net_config :: network_config where
  "demo_net_config = \<lparr>nc_network_id = ''devnet'', nc_listen_addrs = [[1]], nc_external_addr = None,
     nc_bootstrap_peers = [[2]], nc_max_inbound_peers = 0, nc_max_outbound_peers = 20\<rparr>"

definition demo_handshake :: handshake where
  "demo_handshake = \<lparr>hs_version = 1, hs_network_id = ''devnet'', hs_software = [],
     hs_roles = \<lparr>pe_validator = False, pe_router = False, pe_compute = True, pe_verifier = False\<rparr>\<rparr>"

lemma demo_net_starts:
  "\<exists>acts. network_start demo_net demo_swarm demo_net_config content =
     Ok (\<lparr>nw_book = book_load demo_net content, nw_file = content, nw_pending = kv_empty, nw_requests = [],
         nw_responses = [], nw_events = []\<rparr>, acts)"
  by (simp add: network_start_def config_validate_def demo_net_config_def demo_swarm_def all_topics_def Let_def)

theorem requests_answered_once_witness:
  "\<exists>s acts s'. network_start demo_net demo_swarm demo_net_config None = Ok (s, acts) \<and>
     net_run demo_net demo_handshake [(demo_swarm, Happened (RequestReceived [7] 1 [9])), (demo_swarm, ReadRequest),
       (demo_swarm, Commanded (SendInferenceResponse 1 [3])), (demo_swarm, Commanded (SendInferenceResponse 1 [4]))] s =
     (s', [SendResponse 1 [3]]) \<and> {i. kv_get (nw_pending s') i \<noteq> None} = {}"
proof -
  let ?ts = "[(demo_swarm, Happened (RequestReceived [7] 1 [9])), (demo_swarm, ReadRequest),
       (demo_swarm, Commanded (SendInferenceResponse 1 [3])), (demo_swarm, Commanded (SendInferenceResponse 1 [4]))]"
  obtain s acts where s: "network_start demo_net demo_swarm demo_net_config None = Ok (s, acts)"
    using demo_net_starts by blast
  obtain s' where r: "net_run demo_net demo_handshake ?ts s = (s', [SendResponse 1 [3]])"
    by (simp add: mpsc_try_send_def CHANNEL_CAPACITY_def)
  have "distinct (received_ids ?ts)" by (simp add: received_id_def)
  note q = requests_answered_once[OF s r this, THEN conjunct2, THEN conjunct2]
  have "set (received_ids ?ts) - set (answered_ids [SendResponse 1 [3]]) = {}"
    by (simp add: received_id_def answered_ids_def)
  with q s r show ?thesis by metis
qed

theorem unread_requests_pile_up_witness:
  "\<exists>s acts s'. network_start demo_net demo_swarm demo_net_config None = Ok (s, acts) \<and>
     net_run demo_net demo_handshake (map (\<lambda>(S, p, i, d). (S, Happened (RequestReceived p i d)))
       (map (\<lambda>i. (demo_swarm, [7], i, [9])) [0..<100])) s = (s', []) \<and>
     length (nw_requests s') = 64 \<and> kv_size (nw_pending s') = 100"
proof -
  let ?rs = "map (\<lambda>i. (demo_swarm, [7 :: byte], i, [9 :: byte])) [0..<100]"
  let ?ts = "map (\<lambda>(S, p, i, d). (S, Happened (RequestReceived p i d))) ?rs"
  obtain s acts where s: "network_start demo_net demo_swarm demo_net_config None = Ok (s, acts)"
    using demo_net_starts by blast
  obtain s' a where r: "net_run demo_net demo_handshake ?ts s = (s', a)" by fastforce
  have i: "map (\<lambda>(S, p, i, d). i) ?rs = [0..<100]" by (simp add: comp_def map_idI)
  then have d: "distinct (map (\<lambda>(S, p, i, d). i) ?rs)" by (simp only: distinct_upt)
  have "\<forall>(S, p, i, d) \<in> set ?rs. kv_get (nw_pending s) i = None" using network_start_Ok(1)[OF s] by simp
  then have "a = []" using unread_run[OF r d] by blast
  with unread_requests_pile_up[OF s r d] s r show ?thesis by auto
qed

theorem known_peers_survive_restart_witness:
  "\<exists>s acts s' acts' s2 acts2. network_start demo_net demo_swarm demo_net_config None = Ok (s, acts) \<and>
     net_run demo_net demo_handshake [(demo_swarm, Happened (ConnectionEstablished [7] [8]))] s = (s', acts') \<and>
     network_start demo_net demo_swarm demo_net_config (nw_file s') = Ok (s2, acts2) \<and> DialAddr [8] \<in> set acts2"
proof -
  let ?ts = "[(demo_swarm, Happened (ConnectionEstablished [7] [8]))]"
  obtain s acts where s: "network_start demo_net demo_swarm demo_net_config None = Ok (s, acts)"
    using demo_net_starts by blast
  obtain s' acts' where r: "net_run demo_net demo_handshake ?ts s = (s', acts')" by fastforce
  obtain s2 acts2 where s2: "network_start demo_net demo_swarm demo_net_config (nw_file s') = Ok (s2, acts2)"
    using demo_net_starts by blast
  have d: "\<forall>t \<in> set ?ts. sx_disk (fst t)" by (simp add: demo_swarm_def)
  have "\<exists>p. kv_get (nw_book s') [7] = Some p \<and> nx_show_addr demo_net [8] \<in> set (pb_addrs p)"
    using r by (auto simp: with_book_def insert_connected_def Let_def)
  with known_peers_survive_restart[OF demo_formats d s r s2] s r s2 show ?thesis by blast
qed

theorem foreign_peers_are_redialled_witness:
  "\<exists>s acts s1 s2 s3 acts3. network_start demo_net demo_swarm demo_net_config None = Ok (s, acts) \<and>
     s1 = fst (handle_swarm_event demo_net demo_swarm demo_handshake (ConnectionEstablished [7] [8]) s) \<and>
     handle_swarm_event demo_net demo_swarm demo_handshake (Identified [7] ''rust-libp2p/0.54'' []) s1 = (s2, [Disconnect [7]]) \<and>
     network_start demo_net demo_swarm demo_net_config (nw_file s2) = Ok (s3, acts3) \<and> DialAddr [8] \<in> set acts3"
proof -
  obtain s acts where s: "network_start demo_net demo_swarm demo_net_config None = Ok (s, acts)"
    using demo_net_starts by blast
  let ?s1 = "fst (handle_swarm_event demo_net demo_swarm demo_handshake (ConnectionEstablished [7] [8]) s)"
  have f: "from_agent_version demo_net ''rust-libp2p/0.54'' = Ok None"
    by (simp add: from_agent_version_def AGENT_PREFIX_def starts_with_def)
  then have e: "handle_swarm_event demo_net demo_swarm demo_handshake (Identified [7] ''rust-libp2p/0.54'' []) ?s1 = (?s1, [Disconnect [7]])"
    by (simp add: on_identified_def)
  obtain s3 acts3 where s3: "network_start demo_net demo_swarm demo_net_config (nw_file ?s1) = Ok (s3, acts3)"
    using demo_net_starts by blast
  have "network_agrees demo_net s" using network_start_Ok(1)[OF s] file_agrees_loaded[of demo_net None] by (simp add: network_agrees_def)
  moreover have "sx_disk demo_swarm" by (simp add: demo_swarm_def)
  ultimately show ?thesis using foreign_peers_are_redialled[OF demo_formats _ _ refl e s3] f s e s3 by auto
qed

end
