(* ===== verification/ModelCatalog.thy ===== *)
theory ModelCatalog
  imports Rpc
begin

text \<open>
  The model files of a node as its operator sees them: the registry that the repository ships
  (\<^verbatim>\<open>crates/model-manager/src/genesis.rs\<close>), the directory in which the cache keeps its objects
  (\<^verbatim>\<open>cache.rs\<close>) and the commands that list, pull, load, verify and bench them
  (\<^verbatim>\<open>crates/node/src/cli/model_cmd.rs\<close>). A directory is the list of its entries, in the order of its
  iteration, with names, contents and times of access; every entry can be read. Theory \<open>ModelStore\<close>
  works on a map from digests to contents: the first lemmas here show that the directory implements it.
\<close>

section \<open>The registry that is shipped\<close>

record seed_entry =
  sg_model_ref :: string
  sg_gguf_repo :: string
  sg_file_path :: string
  sg_sha256 :: string
  sg_size_bytes :: nat
  sg_license :: string
  sg_tier :: string
  sg_description :: string

record seed_file =
  sf_chain_id :: string
  sf_generated_at :: "string option"
  sf_models :: "seed_entry list"

text \<open>A manifest with the two fields that loading does not read.\<close>

record seeded_manifest = model_file_manifest +
  sm_id :: hash256
  sm_license :: string

definition hf_mirror_url :: "'s rpc_env \<Rightarrow> string \<Rightarrow> string \<Rightarrow> (string, string) result" where
  "hf_mirror_url env repo path =
     (let raw = ''https://huggingface.co/'' @ repo @ ''/resolve/main/'' @ path
      in if ev_url_ok env raw then Ok raw else Err ''bad mirror url'')"

definition parse_sha256 :: "'s rpc_env \<Rightarrow> string \<Rightarrow> (string, hash256) result" where
  "parse_sha256 env s =
     (case ev_hex_decode env (strip_0x s) of
        None \<Rightarrow> Err ''sha256 hex''
      | Some bs \<Rightarrow> if length bs \<noteq> 32 then Err ''sha256 must be 32 bytes'' else Ok (word_rcat bs))"

definition derive_model_id :: "ext \<Rightarrow> string \<Rightarrow> hash256 \<Rightarrow> hash256" where
  "derive_model_id X r sha = x_blake3 X (str_bytes r @ str_bytes ''|'' @ word_bytes sha)"

definition to_manifest :: "ext \<Rightarrow> 's rpc_env \<Rightarrow> seed_entry \<Rightarrow> (string, seeded_manifest) result" where
  "to_manifest X env e =
     rbind (map_err (\<lambda>_. ''model_ref'') (model_ref_parse (sg_model_ref e))) (\<lambda>r.
     rbind (parse_sha256 env (sg_sha256 e)) (\<lambda>sha.
     rbind (hf_mirror_url env (sg_gguf_repo e) (sg_file_path e)) (\<lambda>mirror.
     rbind (map_err (\<lambda>_. ''invalid model_ref quant'') (model_ref_parse (sg_model_ref e))) (\<lambda>r2.
     Ok \<lparr>mf_model_ref = r, mf_mirrors = [mirror], mf_sha256 = sha, mf_size_bytes = sg_size_bytes e,
         mf_quant = mr_quant r2, sm_id = derive_model_id X (model_ref_display r) sha, sm_license = sg_license e\<rparr>))))"

text \<open>The table is filled entry by entry; a later entry with the same reference replaces an earlier one.\<close>

definition insert_entry ::
    "ext \<Rightarrow> 's rpc_env \<Rightarrow> seed_entry \<Rightarrow> (string \<rightharpoonup> seeded_manifest) \<Rightarrow> (model_error, string \<rightharpoonup> seeded_manifest) result" where
  "insert_entry X env e tbl =
     rbind (map_err (\<lambda>_. ModelCodec ''genesis-registry'') (to_manifest X env e)) (\<lambda>m.
     Ok (tbl(model_ref_display (mf_model_ref m) \<mapsto> m)))"

definition to_manifests :: "ext \<Rightarrow> 's rpc_env \<Rightarrow> seed_file \<Rightarrow> (model_error, string \<rightharpoonup> seeded_manifest) result" where
  "to_manifests X env f = rfold (insert_entry X env) (sf_models f) Map.empty"

definition to_mock_registry :: "ext \<Rightarrow> 's rpc_env \<Rightarrow> seed_file \<Rightarrow> (model_error, mock_registry) result" where
  "to_mock_registry X env f =
     rbind (to_manifests X env f) (\<lambda>tbl. Ok (\<lambda>k. map_option model_file_manifest.truncate (tbl k)))"

definition check_chain_id :: "seed_file \<Rightarrow> string \<Rightarrow> (model_error, unit) result" where
  "check_chain_id f expected =
     (if sf_chain_id f \<noteq> expected then Err (ModelCodec ''genesis-registry.toml: chain_id mismatch'') else Ok ())"

section \<open>The directory of the cache\<close>

record shard =
  sh_name :: string
  sh_is_dir :: bool
  sh_files :: "(string \<times> bytes \<times> nat) list"

definition object_path :: "ext \<Rightarrow> hash256 \<Rightarrow> string \<times> string" where
  "object_path X d = (let hex = x_hex_encode X (word_bytes d) in (take 2 hex, drop 2 hex @ ''.gguf''))"

definition strip_gguf :: "string \<Rightarrow> string option" where
  "strip_gguf name =
     (let n = length name - 5
      in if length name \<ge> 5 \<and> drop n name = ''.gguf'' then Some (take n name) else None)"

text \<open>The digest of a file that the index takes up.\<close>

definition object_digest :: "'s rpc_env \<Rightarrow> string \<Rightarrow> string \<Rightarrow> hash256 option" where
  "object_digest env pre name =
     (if length pre \<noteq> 2 then None
      else case strip_gguf name of
        None \<Rightarrow> None
      | Some rest \<Rightarrow>
          if length rest \<noteq> 62 then None
          else case ev_hex_decode env (pre @ rest) of
            None \<Rightarrow> None
          | Some bs \<Rightarrow> if length bs = 32 then Some (word_rcat bs) else None)"

definition index_file ::
    "'s rpc_env \<Rightarrow> string \<Rightarrow> string \<times> bytes \<times> nat \<Rightarrow> (hash256, cache_entry) kv \<Rightarrow> (hash256, cache_entry) kv" where
  "index_file env pre = (\<lambda>(name, bs, t) idx.
     case object_digest env pre name of
       None \<Rightarrow> idx
     | Some d \<Rightarrow> kv_put d \<lparr>ce_size_bytes = length bs, ce_last_used = t\<rparr> idx)"

definition index_shard :: "'s rpc_env \<Rightarrow> shard \<Rightarrow> (hash256, cache_entry) kv \<Rightarrow> (hash256, cache_entry) kv" where
  "index_shard env sh idx =
     (if \<not> sh_is_dir sh then idx
      else if length (sh_name sh) \<noteq> 2 then idx
      else fold (index_file env (sh_name sh)) (sh_files sh) idx)"

definition rebuild_index :: "'s rpc_env \<Rightarrow> shard list \<Rightarrow> (hash256, cache_entry) kv" where
  "rebuild_index env dir = fold (index_shard env) dir kv_empty"

section \<open>Listing and verifying\<close>

text \<open>The objects as the commands name them: every file of a subdirectory whose name has the suffix.\<close>

definition shard_objects :: "shard \<Rightarrow> (string \<times> bytes) list" where
  "shard_objects sh =
     (if \<not> sh_is_dir sh then []
      else List.map_filter (\<lambda>(name, bs, t). map_option (\<lambda>rest. (sh_name sh @ rest, bs)) (strip_gguf name)) (sh_files sh))"

definition listed_objects :: "shard list \<Rightarrow> (string \<times> bytes) list" where
  "listed_objects dir = concat (map shard_objects dir)"

text \<open>\<open>None\<close> is a directory that does not exist. The listing shows a line per object and the totals.\<close>

definition run_list :: "shard list option \<Rightarrow> (string \<times> nat) list \<times> nat \<times> nat" where
  "run_list objects =
     (case objects of
        None \<Rightarrow> ([], 0, 0)
      | Some dir \<Rightarrow>
          (let ls = map (\<lambda>(h, bs). (h, length bs)) (listed_objects dir)
           in (ls, length ls, sum_list (map snd ls))))"

text \<open>One object: a name that is no digest ends the command.\<close>

definition verify_object :: "ext \<Rightarrow> 's rpc_env \<Rightarrow> string \<times> bytes \<Rightarrow> nat \<times> nat \<Rightarrow> (node_error, nat \<times> nat) result" where
  "verify_object X env = (\<lambda>(digest_hex, bs) (good, bad).
     rbind (parse_digest env digest_hex) (\<lambda>expected.
     if x_sha256 X bs = expected then Ok (good + 1, bad) else Ok (good, bad + 1)))"

definition run_verify ::
    "ext \<Rightarrow> 's rpc_env \<Rightarrow> string \<Rightarrow> shard list option \<Rightarrow> (node_error, nat \<times> nat) result" where
  "run_verify X env model_ref objects =
     rbind (map_err (\<lambda>_. NodeModelRef ''invalid model reference'') (model_ref_parse model_ref)) (\<lambda>_.
     case objects of
       None \<Rightarrow> Ok (0, 0)
     | Some dir \<Rightarrow>
         rbind (rfold (verify_object X env) (listed_objects dir) (0, 0)) (\<lambda>(good, bad).
         if bad > 0 then Err (NodeConfig ''cache object(s) failed verification'') else Ok (good, bad)))"

section \<open>Pulling, loading and benching\<close>

text \<open>Every command opens the cache anew, with the cap that is the default and a registry of one entry.
  Models that other processes hold in memory are not seen. Pull, load and bench take the same arguments
  as the request that loads a model over HTTP.\<close>

definition DEFAULT_CACHE_MAX_BYTES :: nat where
  "DEFAULT_CACHE_MAX_BYTES = 200 * 1024 * 1024 * 1024"

definition cli_build_manifest ::
    "'s rpc_env \<Rightarrow> model_ref \<Rightarrow> string \<Rightarrow> string \<Rightarrow> nat \<Rightarrow> string option \<Rightarrow> (node_error, model_file_manifest) result" where
  "cli_build_manifest env r url sha256_hex sz quant_override =
     (if \<not> ev_url_ok env url then Err (NodeModelRef ''bad url'')
      else rbind (parse_digest env sha256_hex) (\<lambda>digest.
           rbind (case quant_override of
                    Some s \<Rightarrow> (case quant_parse s of Some q \<Rightarrow> Ok q | None \<Rightarrow> Err (NodeModelRef ''unknown quant''))
                  | None \<Rightarrow> Ok (mr_quant r)) (\<lambda>quant.
           Ok \<lparr>mf_model_ref = r, mf_mirrors = [url], mf_sha256 = digest, mf_size_bytes = sz, mf_quant = quant\<rparr>)))"

definition args_manifest :: "'s rpc_env \<Rightarrow> load_request \<Rightarrow> (node_error, model_ref \<times> model_file_manifest) result" where
  "args_manifest env a =
     rbind (map_err (\<lambda>_. NodeModelRef ''invalid model reference'') (model_ref_parse (lq_model_ref a))) (\<lambda>r.
     rbind (cli_build_manifest env r (lq_url a) (lq_sha256 a) (lq_size_bytes a) (lq_quant a)) (\<lambda>m. Ok (r, m)))"

definition open_runtime :: "'s rpc_env \<Rightarrow> model_ref \<Rightarrow> model_file_manifest \<Rightarrow> (path \<Rightarrow> bytes option) \<Rightarrow> mock_registry \<times> store" where
  "open_runtime env r m files =
     ([model_ref_display r \<mapsto> m], cache_open (ev_walk env files) DEFAULT_CACHE_MAX_BYTES files)"

definition run_pull ::
    "ext \<Rightarrow> 's rpc_env \<Rightarrow> load_request \<Rightarrow> (path \<Rightarrow> bytes option) \<Rightarrow> (node_error, path) result \<times> (path \<Rightarrow> bytes option)" where
  "run_pull X env a files =
     (case args_manifest env a of
        Err e \<Rightarrow> (Err e, files)
      | Panic \<Rightarrow> (Panic, files)
      | Ok (r, m) \<Rightarrow>
         (case open_runtime env r m files of (reg, s) \<Rightarrow>
         (case ensure_local X (ev_frames env) (ev_fetch env) (ev_rank env) (ev_rm_fails env) reg (ev_now_ms env) r s of
            (res, s1) \<Rightarrow> (map_err NodeModelManager res, so_files s1))))"

definition cli_load ::
    "ext \<Rightarrow> 's rpc_env \<Rightarrow> load_request \<Rightarrow> (path \<Rightarrow> bytes option) \<Rightarrow>
     (node_error, hash256 \<times> 's lm) result \<times> (path \<Rightarrow> bytes option)" where
  "cli_load X env a files =
     (case args_manifest env a of
        Err e \<Rightarrow> (Err e, files)
      | Panic \<Rightarrow> (Panic, files)
      | Ok (r, m) \<Rightarrow>
         (case open_runtime env r m files of (reg, s) \<Rightarrow>
         (case engine_load X (ev_frames env) (ev_fetch env) (ev_rank env) (ev_rm_fails env) reg (ev_now_ms env)
                 (ev_llama env) r (kv_empty, s) of
            (res, _, s1) \<Rightarrow> (map_err NodeInference res, so_files s1))))"

definition run_load ::
    "ext \<Rightarrow> 's rpc_env \<Rightarrow> load_request \<Rightarrow> (path \<Rightarrow> bytes option) \<Rightarrow> (node_error, hash256) result \<times> (path \<Rightarrow> bytes option)" where
  "run_load X env a files =
     (case cli_load X env a files of (res, files') \<Rightarrow> (rbind res (\<lambda>(digest, _). Ok digest), files'))"

text \<open>The benchmark counts the fragments of a greedy run; times are not modelled.\<close>

definition bench_request :: "nat \<Rightarrow> bytes \<Rightarrow> inference_request" where
  "bench_request tokens prompt =
     \<lparr>iq_prompt = prompt, iq_max_tokens = tokens, iq_mode = Serving, iq_sampling = GREEDY_PARAMS, iq_stop = []\<rparr>"

definition bench_item :: "stream_item \<Rightarrow> nat \<times> stop_reason option \<Rightarrow> (node_error, nat \<times> stop_reason option) result" where
  "bench_item it = (\<lambda>(tokens_seen, stop).
     case it of
       Err e \<Rightarrow> Err (NodeInference e)
     | Panic \<Rightarrow> Panic
     | Ok (TokenEvent i t bs) \<Rightarrow> rbind (uadd 32 tokens_seen 1) (\<lambda>n. Ok (n, stop))
     | Ok (StopEvent r) \<Rightarrow> Ok (tokens_seen, Some r))"

definition run_bench ::
    "ext \<Rightarrow> 's rpc_env \<Rightarrow> load_request \<Rightarrow> nat \<Rightarrow> bytes \<Rightarrow> (path \<Rightarrow> bytes option) \<Rightarrow>
     (node_error, nat \<times> stop_reason option) result \<times> (path \<Rightarrow> bytes option)" where
  "run_bench X env a tokens prompt files =
     (case cli_load X env a files of (res, files') \<Rightarrow>
       (rbind res (\<lambda>(_, m).
          rbind (map_err (\<lambda>_. NodeInference (ModelLoad ''infer''))
                   (engine_infer (ev_reads env) m inference_config_default (bench_request tokens prompt)))
            (\<lambda>items. rfold bench_item items (0, None))), files'))"

text \<open>The runtime of a node that starts knows no model.\<close>

definition node_open :: "'s rpc_env \<Rightarrow> (path \<Rightarrow> bytes option) \<Rightarrow> mock_registry \<times> store" where
  "node_open env files = (Map.empty, cache_open (ev_walk env files) DEFAULT_CACHE_MAX_BYTES files)"

definition serving_threads :: "nat \<Rightarrow> nat \<Rightarrow> nat" where
  "serving_threads max_concurrent_jobs cpus = min (max max_concurrent_jobs 1) cpus"

section \<open>The directory implements the store\<close>

text \<open>What is documented of the hex encoder and decoder.\<close>

definition hex_laws :: "ext \<Rightarrow> 's rpc_env \<Rightarrow> bool" where
  "hex_laws X env \<longleftrightarrow> (\<forall>bs. ev_hex_decode env (x_hex_encode X bs) = Some bs \<and> length (x_hex_encode X bs) = 2 * length bs)"

text \<open>A directory holds the files of a store: each at the path of its digest. Other files may lie
  about; \<open>canonical\<close> says that no file which the index takes up has another name than the cache gives,
  as one in capital letters has, and \<open>tidy\<close> that there are no other files with the suffix at all.\<close>

definition lays_out :: "ext \<Rightarrow> shard list \<Rightarrow> (path \<Rightarrow> bytes option) \<Rightarrow> bool" where
  "lays_out X dir files \<longleftrightarrow> (\<forall>d bs. files (Final d) = Some bs \<longleftrightarrow>
     (\<exists>sh \<in> set dir. sh_is_dir sh \<and> sh_name sh = fst (object_path X d) \<and>
        (\<exists>t. (snd (object_path X d), bs, t) \<in> set (sh_files sh))))"

definition canonical :: "ext \<Rightarrow> 's rpc_env \<Rightarrow> shard list \<Rightarrow> bool" where
  "canonical X env dir \<longleftrightarrow> (\<forall>sh \<in> set dir. sh_is_dir sh \<longrightarrow> (\<forall>(name, bs, t) \<in> set (sh_files sh). \<forall>d.
     object_digest env (sh_name sh) name = Some d \<longrightarrow> (sh_name sh, name) = object_path X d))"

definition tidy :: "ext \<Rightarrow> shard list \<Rightarrow> bool" where
  "tidy X dir \<longleftrightarrow> (\<forall>sh \<in> set dir. sh_is_dir sh \<longrightarrow> (\<forall>(name, bs, t) \<in> set (sh_files sh).
     strip_gguf name \<noteq> None \<longrightarrow> (\<exists>d. (sh_name sh, name) = object_path X d)))"

definition shard_walk :: "'s rpc_env \<Rightarrow> shard \<Rightarrow> (hash256 \<times> nat) list" where
  "shard_walk env sh =
     (if sh_is_dir sh then List.map_filter (\<lambda>(name, bs, t). map_option (\<lambda>d. (d, t)) (object_digest env (sh_name sh) name)) (sh_files sh)
      else [])"

definition dir_walk :: "'s rpc_env \<Rightarrow> shard list \<Rightarrow> (hash256 \<times> nat) list" where
  "dir_walk env dir = concat (map (shard_walk env) dir)"

lemma strip_gguf_append [simp]: "strip_gguf (s @ ''.gguf'') = Some s"
  by (simp add: strip_gguf_def Let_def)

lemma strip_gguf_Some: "strip_gguf name = Some s \<longleftrightarrow> name = s @ ''.gguf''"
proof
  assume a: "strip_gguf name = Some s"
  define n where "n = length name - 5"
  from a have "s = take n name" "drop n name = ''.gguf''"
    by (simp_all add: strip_gguf_def Let_def n_def split: if_splits)
  with append_take_drop_id[of n name] show "name = s @ ''.gguf''" by simp
qed simp

lemma object_name:
  assumes "hex_laws X env"
  shows "length (fst (object_path X d)) = 2" "fst (object_path X d) @ drop 2 (x_hex_encode X (word_bytes d)) = x_hex_encode X (word_bytes d)"
    "snd (object_path X d) = drop 2 (x_hex_encode X (word_bytes d)) @ ''.gguf''"
    "length (drop 2 (x_hex_encode X (word_bytes d))) = 62" "ev_hex_decode env (x_hex_encode X (word_bytes d)) = Some (word_bytes d)"
proof -
  have "length (x_hex_encode X (word_bytes d)) = 64" using assms by (simp add: hex_laws_def length_word_bytes)
  then show "length (fst (object_path X d)) = 2" "fst (object_path X d) @ drop 2 (x_hex_encode X (word_bytes d)) = x_hex_encode X (word_bytes d)"
    "snd (object_path X d) = drop 2 (x_hex_encode X (word_bytes d)) @ ''.gguf''"
    "length (drop 2 (x_hex_encode X (word_bytes d))) = 62" by (simp_all add: object_path_def Let_def)
  show "ev_hex_decode env (x_hex_encode X (word_bytes d)) = Some (word_bytes d)" using assms by (simp add: hex_laws_def)
qed

lemma object_digest_path:
  assumes "hex_laws X env"
  shows "object_digest env (fst (object_path X d)) (snd (object_path X d)) = Some d"
  using object_name[OF assms, of d] by (simp add: object_digest_def length_word_bytes word_rcat_word_bytes)

text \<open>The step of \<open>cache_open\<close>, for a file of the walk.\<close>

abbreviation (input) walk_step :: "(path \<Rightarrow> bytes option) \<Rightarrow> hash256 \<times> nat \<Rightarrow> (hash256, cache_entry) kv \<Rightarrow> (hash256, cache_entry) kv" where
  "walk_step files \<equiv> (\<lambda>(d, t) idx. case files (Final d) of
     Some bs \<Rightarrow> kv_put d \<lparr>ce_size_bytes = length bs, ce_last_used = t\<rparr> idx | None \<Rightarrow> idx)"

lemma index_files_walk:
  assumes "\<And>name bs t d. (name, bs, t) \<in> set fs \<Longrightarrow> object_digest env p name = Some d \<Longrightarrow> files (Final d) = Some bs"
  shows "fold (index_file env p) fs idx =
    fold (walk_step files) (List.map_filter (\<lambda>(name, bs, t). map_option (\<lambda>d. (d, t)) (object_digest env p name)) fs) idx"
  using assms
proof (induction fs arbitrary: idx)
  case (Cons f fs)
  obtain name bs t where f: "f = (name, bs, t)" by (cases f)
  have "fold (index_file env p) fs i = fold (walk_step files)
      (List.map_filter (\<lambda>(name, bs, t). map_option (\<lambda>d. (d, t)) (object_digest env p name)) fs) i" for i
    by (rule Cons.IH) (use Cons.prems in auto)
  then show ?case
    using Cons.prems[of name bs t] by (cases "object_digest env p name") (simp_all add: f index_file_def List.map_filter_def)
qed (simp add: List.map_filter_def)

lemma index_shard_walk:
  assumes "lays_out X dir files" and "canonical X env dir" and "sh \<in> set dir"
  shows "index_shard env sh idx = fold (walk_step files) (shard_walk env sh) idx"
proof -
  have *: "files (Final d) = Some bs"
    if "sh_is_dir sh" "(name, bs, t) \<in> set (sh_files sh)" "object_digest env (sh_name sh) name = Some d" for name bs t d
  proof -
    have "(sh_name sh, name) = object_path X d" using assms(2,3) that unfolding canonical_def by fast
    then have "sh_name sh = fst (object_path X d)" "name = snd (object_path X d)" by (metis fst_conv, metis snd_conv)
    with assms(1,3) that show ?thesis unfolding lays_out_def by blast
  qed
  show ?thesis
  proof (cases "sh_is_dir sh \<and> length (sh_name sh) = 2")
    case True
    then show ?thesis
      using index_files_walk[of "sh_files sh" env "sh_name sh" files idx] * by (simp add: index_shard_def shard_walk_def)
  next
    case False
    then have "shard_walk env sh = []"
      by (auto simp: shard_walk_def object_digest_def List.map_filter_def)
    with False show ?thesis by (auto simp: index_shard_def)
  qed
qed

lemma rebuild_walk:
  assumes "lays_out X dir files" and "canonical X env dir"
  shows "rebuild_index env dir = so_index (cache_open (dir_walk env dir) cap files)"
proof -
  have "fold (index_shard env) ds idx = fold (walk_step files) (concat (map (shard_walk env) ds)) idx"
    if "set ds \<subseteq> set dir" for ds idx
    using that by (induction ds arbitrary: idx) (simp_all add: index_shard_walk[OF assms])
  from this[of dir kv_empty] show ?thesis by (simp add: rebuild_index_def cache_open_def dir_walk_def)
qed

lemma walk_covers:
  assumes "hex_laws X env" and "lays_out X dir files" and "files (Final d) \<noteq> None"
  shows "d \<in> fst ` set (dir_walk env dir)"
proof -
  from assms(2,3) obtain sh bs t where s: "sh \<in> set dir" "sh_is_dir sh" "sh_name sh = fst (object_path X d)"
    "(snd (object_path X d), bs, t) \<in> set (sh_files sh)" unfolding lays_out_def by (metis not_None_eq)
  then have "(d, t) \<in> set (shard_walk env sh)"
    using object_digest_path[OF assms(1), of d] by (force simp: shard_walk_def List.map_filter_def)
  with s(1) show ?thesis by (force simp: dir_walk_def)
qed

text \<open>C40: Let the directory of the cache hold exactly the objects of a store at the paths of their
  digests (\<open>lays_out\<close>; other files and directories may lie about), let the hex decoder invert the encoder,
  and let no file in the shape of an object name, such as one in capital hex letters, decode to a digest
  whose path is another (\<open>canonical\<close>; the code does index such a file, under a path where it is not). Then
  the index that a node builds when it opens the cache is the one that the model of the store starts from,
  over the same files; and if every object hashes to its name, the store is well formed and its index
  lists exactly the objects, with their sizes.\<close>

theorem directory_refines_store:
  assumes "hex_laws X env" and "lays_out X dir files" and "canonical X env dir"
    and "\<forall>d bs. files (Final d) = Some bs \<longrightarrow> x_sha256 X bs = d"
  shows "rebuild_index env dir = so_index (cache_open (dir_walk env dir) cap files) \<and>
    store_ok X (cache_open (dir_walk env dir) cap files) \<and> index_exact (cache_open (dir_walk env dir) cap files)"
  using rebuild_walk[OF assms(2,3)] cache_open_ok[OF assms(4)[rule_format]] walk_covers[OF assms(1,2)] by blast

section \<open>Verification\<close>

lemma verify_object_Ok:
  assumes "parse_digest env h = Ok d"
  shows "verify_object X env (h, bs) (g, b) = Ok (if x_sha256 X bs = d then (Suc g, b) else (g, Suc b))"
  using assms by (simp add: verify_object_def)

lemma verify_objects:
  "rfold (verify_object X env) os (g, b) = Ok (g', b') \<longleftrightarrow>
     (\<forall>(h, bs) \<in> set os. \<exists>d. parse_digest env h = Ok d) \<and>
     g' = g + length (filter (\<lambda>(h, bs). parse_digest env h = Ok (x_sha256 X bs)) os) \<and>
     b' = b + length (filter (\<lambda>(h, bs). parse_digest env h \<noteq> Ok (x_sha256 X bs)) os)"
proof (induction os arbitrary: g b)
  case (Cons x os)
  obtain h bs where x: "x = (h, bs)" by (cases x)
  show ?case
  proof (cases "parse_digest env h")
    case (Ok d)
    then show ?thesis
      by (cases "x_sha256 X bs = d") (auto simp: x verify_object_Ok[OF Ok] Cons.IH)
  qed (auto simp: x verify_object_def)
qed auto

lemma verify_Ok:
  assumes "model_ref_parse model_ref = Ok r"
  shows "run_verify X env model_ref (Some dir) = Ok (good, bad) \<longleftrightarrow> bad = 0 \<and> good = length (listed_objects dir) \<and>
    (\<forall>(h, bs) \<in> set (listed_objects dir). parse_digest env h = Ok (x_sha256 X bs))"
proof -
  let ?os = "listed_objects dir"
  have all: "(\<forall>(h, bs) \<in> set ?os. parse_digest env h = Ok (x_sha256 X bs)) \<longleftrightarrow>
      (\<forall>(h, bs) \<in> set ?os. \<exists>d. parse_digest env h = Ok d) \<and>
      length (filter (\<lambda>(h, bs). parse_digest env h \<noteq> Ok (x_sha256 X bs)) ?os) = 0"
    by (fastforce simp: filter_empty_conv)
  have good: "filter (\<lambda>(h, bs). parse_digest env h = Ok (x_sha256 X bs)) ?os = ?os"
    if "\<forall>(h, bs) \<in> set ?os. parse_digest env h = Ok (x_sha256 X bs)"
    using that by (simp add: filter_id_conv)
  have "run_verify X env model_ref (Some dir) = Ok (good, bad) \<longleftrightarrow>
      bad = 0 \<and> rfold (verify_object X env) ?os (0, 0) = Ok (good, 0)"
    using assms by (auto simp: run_verify_def rbind_Ok_iff split: if_splits)
  then show ?thesis unfolding verify_objects using all good by auto
qed

text \<open>The command that verifies succeeds exactly if the argument is a well-formed reference, the name of
  every object is a digest of 32 bytes and every object hashes to its name; it then counts all objects
  that the listing shows. The reference itself plays no role, and one file with the suffix and another
  name makes the command fail, with an error about a model reference, before it has reached the rest.\<close>

theorem verification_is_exact:
  "(run_verify X env model_ref objects = Ok (good, bad) \<longleftrightarrow>
     (\<exists>r. model_ref_parse model_ref = Ok r) \<and> bad = 0 \<and> good = fst (snd (run_list objects)) \<and>
     (\<forall>dir. objects = Some dir \<longrightarrow> (\<forall>(h, bs) \<in> set (listed_objects dir). parse_digest env h = Ok (x_sha256 X bs)))) \<and>
   (\<forall>r1 r2 m1 m2. model_ref_parse r1 = Ok m1 \<longrightarrow> model_ref_parse r2 = Ok m2 \<longrightarrow>
      run_verify X env r1 objects = run_verify X env r2 objects)"
proof (intro conjI allI impI)
  show "run_verify X env model_ref objects = Ok (good, bad) \<longleftrightarrow>
     (\<exists>r. model_ref_parse model_ref = Ok r) \<and> bad = 0 \<and> good = fst (snd (run_list objects)) \<and>
     (\<forall>dir. objects = Some dir \<longrightarrow> (\<forall>(h, bs) \<in> set (listed_objects dir). parse_digest env h = Ok (x_sha256 X bs)))"
  proof (cases "model_ref_parse model_ref")
    case (Ok r)
    then show ?thesis
      by (cases objects) (auto simp: verify_Ok[OF Ok] run_list_def Let_def, auto simp: run_verify_def)
  qed (auto simp: run_verify_def)
next
  fix r1 r2 m1 m2
  assume "model_ref_parse r1 = Ok m1" "model_ref_parse r2 = Ok m2"
  then show "run_verify X env r1 objects = run_verify X env r2 objects" by (simp add: run_verify_def)
qed

lemma listed_object:
  assumes "(h, bs) \<in> set (listed_objects dir)"
  obtains sh name rest t where "sh \<in> set dir" "sh_is_dir sh" "(name, bs, t) \<in> set (sh_files sh)"
    "name = rest @ ''.gguf''" "h = sh_name sh @ rest"
proof -
  from assms obtain sh where sh: "sh \<in> set dir" "(h, bs) \<in> set (shard_objects sh)" by (auto simp: listed_objects_def)
  then have "sh_is_dir sh" by (auto simp: shard_objects_def split: if_splits)
  moreover from sh(2) obtain name t rest where "(name, bs, t) \<in> set (sh_files sh)" "strip_gguf name = Some rest" "h = sh_name sh @ rest"
    by (auto simp: shard_objects_def List.map_filter_def split: if_splits)
  ultimately show ?thesis using that sh(1) strip_gguf_Some by metis
qed

lemma tidyD:
  assumes "tidy X dir" and "sh \<in> set dir" and "sh_is_dir sh" and "(rest @ ''.gguf'', bs, t) \<in> set (sh_files sh)"
  shows "\<exists>d. sh_name sh = fst (object_path X d) \<and> rest @ ''.gguf'' = snd (object_path X d)"
proof -
  from assms(1-3) have a: "\<forall>(name, bs, t) \<in> set (sh_files sh). strip_gguf name \<noteq> None \<longrightarrow> (\<exists>d. (sh_name sh, name) = object_path X d)"
    by (simp add: tidy_def)
  from bspec[OF a assms(4)] obtain d where "(sh_name sh, rest @ ''.gguf'') = object_path X d" by auto
  from this[symmetric] show ?thesis by (intro exI[of _ d]) simp
qed

text \<open>Over the files of a store, the objects that are listed are the files under their digests.\<close>

lemma tidy_objects:
  assumes "hex_laws X env" and "lays_out X dir files" and "tidy X dir"
  shows "(h, bs) \<in> set (listed_objects dir) \<longleftrightarrow> (\<exists>d. files (Final d) = Some bs \<and> h = x_hex_encode X (word_bytes d))"
proof
  assume "(h, bs) \<in> set (listed_objects dir)"
  then obtain sh name rest t where s: "sh \<in> set dir" "sh_is_dir sh" "(name, bs, t) \<in> set (sh_files sh)"
    "name = rest @ ''.gguf''" "h = sh_name sh @ rest" by (rule listed_object)
  from tidyD[OF assms(3) s(1,2) s(3)[unfolded s(4)]] s(4)
  obtain d where n: "sh_name sh = fst (object_path X d)" "name = snd (object_path X d)" by auto
  have "files (Final d) = Some bs"
    using assms(2) s(1,2) n(1) s(3)[unfolded n(2)] unfolding lays_out_def by blast
  moreover have "rest = drop 2 (x_hex_encode X (word_bytes d))"
    using s(4) n(2) object_name(3)[OF assms(1), of d] by simp
  ultimately show "\<exists>d. files (Final d) = Some bs \<and> h = x_hex_encode X (word_bytes d)"
    using s(5) n(1) object_name(2)[OF assms(1), of d] by auto
next
  assume "\<exists>d. files (Final d) = Some bs \<and> h = x_hex_encode X (word_bytes d)"
  then obtain d where d: "files (Final d) = Some bs" "h = x_hex_encode X (word_bytes d)" by blast
  with assms(2) obtain sh t where s: "sh \<in> set dir" "sh_is_dir sh" "sh_name sh = fst (object_path X d)"
    "(snd (object_path X d), bs, t) \<in> set (sh_files sh)" unfolding lays_out_def by blast
  have g: "strip_gguf (snd (object_path X d)) = Some (drop 2 (x_hex_encode X (word_bytes d)))"
    using object_name(3)[OF assms(1), of d] by simp
  have "(sh_name sh @ drop 2 (x_hex_encode X (word_bytes d)), bs) \<in> set (shard_objects sh)"
    using s(2,4) g by (force simp: shard_objects_def List.map_filter_def)
  then show "(h, bs) \<in> set (listed_objects dir)"
    using s(1) object_name(2)[OF assms(1), of d] d(2) s(3) by (auto simp: listed_objects_def)
qed

lemma parse_object_name:
  assumes "hex_laws X env"
  shows "parse_digest env (x_hex_encode X (word_bytes d)) = Ok d"
  using assms by (simp add: hex_laws_def parse_digest_def length_word_bytes word_rcat_word_bytes)

lemma verify_store:
  assumes "hex_laws X env" and "lays_out X dir files" and "tidy X dir" and "model_ref_parse ref = Ok r"
  shows "(\<exists>n. run_verify X env ref (Some dir) = Ok (n, 0)) \<longleftrightarrow> (\<forall>d bs. files (Final d) = Some bs \<longrightarrow> x_sha256 X bs = d)"
proof -
  have "(\<exists>n. run_verify X env ref (Some dir) = Ok (n, 0)) \<longleftrightarrow>
      (\<forall>(h, bs) \<in> set (listed_objects dir). parse_digest env h = Ok (x_sha256 X bs))"
    by (simp add: verify_Ok[OF assms(4)])
  also have "\<dots> \<longleftrightarrow> (\<forall>d bs. files (Final d) = Some bs \<longrightarrow> x_sha256 X bs = d)"
    unfolding Ball_def split_paired_All prod.case tidy_objects[OF assms(1,2,3)]
    by (auto simp: parse_object_name[OF assms(1)]) (metis parse_object_name[OF assms(1)] result.inject(1))
  finally show ?thesis .
qed

section \<open>Pulling\<close>

lemma args_manifest_Ok:
  assumes "args_manifest env a = Ok (r, m)"
  shows "parse_digest env (lq_sha256 a) = Ok (mf_sha256 m) \<and> model_ref_parse (lq_model_ref a) = Ok r"
  using assms by (auto simp: args_manifest_def cli_build_manifest_def rbind_Ok_iff map_err_Ok_iff split: if_splits)

lemma open_runtime_resolves:
  assumes "open_runtime env r m files = (reg, s)"
  shows "registry_resolve reg r = Ok m" "s = cache_open (ev_walk env files) DEFAULT_CACHE_MAX_BYTES files"
  using assms by (auto simp: open_runtime_def registry_resolve_def)

text \<open>Whatever the mirrors answer and however it ends, a pull keeps a cache that verifies one that
  verifies: over the directory it leaves, the command that verifies finds no corrupted object; and if the
  pull succeeds, the file it names hashes to the digest that was given.\<close>

theorem pull_keeps_cache_verified:
  assumes "hex_laws X env" and "lays_out X dir files" and "ev_walk env files = dir_walk env dir"
    and "\<forall>d bs. files (Final d) = Some bs \<longrightarrow> x_sha256 X bs = d"
    and "run_pull X env a files = (res, files')" and "lays_out X dir' files'" and "tidy X dir'"
    and "model_ref_parse ref = Ok r"
  shows "(\<exists>n. run_verify X env ref (Some dir') = Ok (n, 0)) \<and>
    (\<forall>p. res = Ok p \<longrightarrow> (\<exists>d bs. parse_digest env (lq_sha256 a) = Ok d \<and> p = Final d \<and>
       files' p = Some bs \<and> x_sha256 X bs = d))"
proof -
  have "(\<forall>d bs. files' (Final d) = Some bs \<longrightarrow> x_sha256 X bs = d) \<and> (\<forall>p. res = Ok p \<longrightarrow>
      (\<exists>d bs. parse_digest env (lq_sha256 a) = Ok d \<and> p = Final d \<and> files' p = Some bs \<and> x_sha256 X bs = d))"
  proof (cases "args_manifest env a")
    case (Ok rm)
    then obtain r m where am: "args_manifest env a = Ok (r, m)" by (cases rm) auto
    obtain reg s where o: "open_runtime env r m files = (reg, s)" by (metis surj_pair)
    note reg = open_runtime_resolves[OF o]
    obtain p s1 where e: "ensure_local X (ev_frames env) (ev_fetch env) (ev_rank env) (ev_rm_fails env) reg (ev_now_ms env) r s = (p, s1)"
      by (metis surj_pair)
    have ok: "store_ok X s"
      unfolding reg(2) by (rule cache_open_ok[THEN conjunct1]) (use assms(3,4) walk_covers[OF assms(1,2)] in auto)
    have res: "res = map_err NodeModelManager p" "files' = so_files s1" using assms(5) am o e by (auto simp: run_pull_def)
    with ensure_local_spec[OF ok e] reg(1) args_manifest_Ok[OF am] show ?thesis
      by (cases p) (auto simp: store_ok_def)
  qed (use assms(4,5) in \<open>auto simp: run_pull_def\<close>)
  then show ?thesis using verify_store[OF assms(1,6,7,8)] by simp
qed

lemma cache_open_entry:
  "d \<in> fst ` set walk \<Longrightarrow> files (Final d) \<noteq> None \<Longrightarrow> kv_get (so_index (cache_open walk cap files)) d \<noteq> None"
proof -
  have "kv_get (fold (walk_step files) w idx) d \<noteq> None"
    if "d \<in> fst ` set w \<or> kv_get idx d \<noteq> None" "files (Final d) \<noteq> None" for w idx
    using that by (induction w arbitrary: idx) (auto split: option.splits)
  then show "d \<in> fst ` set walk \<Longrightarrow> files (Final d) \<noteq> None \<Longrightarrow> kv_get (so_index (cache_open walk cap files)) d \<noteq> None"
    by (simp add: cache_open_def)
qed

text \<open>A file of the cache is not hashed again when it is used: once an object has rotted on the disk,
  its header apart, the command that pulls the model reports it as pulled and verified, and the one that
  loads it loads it and reports another digest than the one it was given; only the command that verifies
  finds it.\<close>

theorem rotten_object_is_served:
  assumes "args_manifest env a = Ok (r, m)" and "files (Final (mf_sha256 m)) = Some bs"
    and "x_sha256 X bs \<noteq> mf_sha256 m" and "mf_sha256 m \<in> fst ` set (ev_walk env files)"
    and "parse_header (ev_frames env) bs = Ok h" and "gh_file_type h \<in> {None, Some (gguf_file_type (mf_quant m))}"
    and "ev_llama env bs = Some M" and "hex_laws X env" and "lays_out X dir files" and "tidy X dir"
  shows "run_pull X env a files = (Ok (Final (mf_sha256 m)), files) \<and>
    run_load X env a files = (Ok (x_sha256 X bs), files) \<and>
    (\<forall>ref good bad. run_verify X env ref (Some dir) \<noteq> Ok (good, bad))"
proof -
  obtain reg s where o: "open_runtime env r m files = (reg, s)" by (metis surj_pair)
  note reg = open_runtime_resolves[OF o]
  obtain e where i: "kv_get (so_index s) (mf_sha256 m) = Some e"
    using cache_open_entry[of "mf_sha256 m" "ev_walk env files" files] assms(2,4) reg(2) by fastforce
  have f: "so_files s = files" by (simp add: reg(2) cache_open_def)
  define s1 where "s1 = s\<lparr>so_index := kv_put (mf_sha256 m) (e\<lparr>ce_last_used := ev_now_ms env\<rparr>) (so_index s)\<rparr>"
  have "ensure_local X (ev_frames env) (ev_fetch env) (ev_rank env) (ev_rm_fails env) reg (ev_now_ms env) r s =
      (Ok (Final (mf_sha256 m)), s1)"
    using assms(2,5,6) i f by (auto simp: ensure_local_def reg(1) cache_get_def validate_gguf_def s1_def)
  moreover have f1: "so_files s1 = files" by (simp add: s1_def f)
  ultimately have "run_pull X env a files = (Ok (Final (mf_sha256 m)), files)" "run_load X env a files = (Ok (x_sha256 X bs), files)"
    using assms(1,2,7) o by (simp_all add: run_pull_def run_load_def cli_load_def engine_load_def Let_def)
  moreover have "run_verify X env ref (Some dir) \<noteq> Ok (good, bad)" for ref good bad
  proof
    assume v: "run_verify X env ref (Some dir) = Ok (good, bad)"
    then obtain r' where r': "model_ref_parse ref = Ok r'" by (auto simp: run_verify_def rbind_Ok_iff map_err_Ok_iff)
    from v have "bad = 0" by (simp add: verify_Ok[OF r'])
    with v verify_store[OF assms(8,9,10) r'] assms(2,3) show False by blast
  qed
  ultimately show ?thesis by blast
qed

section \<open>The shipped registry\<close>

definition seed_key :: "seed_entry \<Rightarrow> string option" where
  "seed_key e = (case model_ref_parse (sg_model_ref e) of Ok r \<Rightarrow> Some (model_ref_display r) | _ \<Rightarrow> None)"

lemma insert_entry_Ok:
  "insert_entry X env e tbl = Ok tbl' \<longleftrightarrow>
     (\<exists>m. to_manifest X env e = Ok m \<and> tbl' = tbl(model_ref_display (mf_model_ref m) \<mapsto> m))"
  by (auto simp: insert_entry_def rbind_Ok_iff map_err_Ok_iff)

lemma to_manifest_key:
  assumes "to_manifest X env e = Ok m"
  shows "seed_key e = Some (model_ref_display (mf_model_ref m))" "mf_quant m = mr_quant (mf_model_ref m)"
    "mf_mirrors m = [''https://huggingface.co/'' @ sg_gguf_repo e @ ''/resolve/main/'' @ sg_file_path e]"
    "mf_size_bytes m = sg_size_bytes e" "parse_sha256 env (sg_sha256 e) = Ok (mf_sha256 m)"
    "sm_id m = derive_model_id X (model_ref_display (mf_model_ref m)) (mf_sha256 m)"
  using assms by (auto simp: to_manifest_def rbind_Ok_iff map_err_Ok_iff seed_key_def hf_mirror_url_def Let_def split: if_splits)

text \<open>The table after the entries: the last entry with a key counts.\<close>

lemma filled_table:
  "rfold (insert_entry X env) es tbl = Ok tbl' \<longleftrightarrow>
     (\<forall>e \<in> set es. \<exists>m. to_manifest X env e = Ok m) \<and>
     tbl' = (\<lambda>k. case find (\<lambda>e. seed_key e = Some k) (rev es) of
        None \<Rightarrow> tbl k
      | Some e \<Rightarrow> (case to_manifest X env e of Ok m \<Rightarrow> Some m | _ \<Rightarrow> None))"
proof (induction es arbitrary: tbl' rule: rev_induct)
  case (snoc e es)
  show ?case
  proof (cases "to_manifest X env e")
    case (Ok m)
    have "rfold (insert_entry X env) (es @ [e]) tbl = Ok tbl' \<longleftrightarrow>
        (\<exists>t. rfold (insert_entry X env) es tbl = Ok t \<and> tbl' = t(model_ref_display (mf_model_ref m) \<mapsto> m))"
      by (auto simp: rfold_append rbind_Ok_iff insert_entry_Ok Ok)
    also have "\<dots> \<longleftrightarrow> (\<forall>e \<in> set es. \<exists>m. to_manifest X env e = Ok m) \<and>
        tbl' = (\<lambda>k. case find (\<lambda>e. seed_key e = Some k) (rev es) of
            None \<Rightarrow> tbl k
          | Some e \<Rightarrow> (case to_manifest X env e of Ok m \<Rightarrow> Some m | _ \<Rightarrow> None))(model_ref_display (mf_model_ref m) \<mapsto> m)"
      unfolding snoc.IH by blast
    finally show ?thesis by (auto simp: fun_eq_iff to_manifest_key(1)[OF Ok] Ok)
  qed (auto simp: rfold_append rbind_Ok_iff insert_entry_Ok)
qed (auto simp: fun_eq_iff)

text \<open>The shipped registry becomes one that resolves a reference exactly to the last of its entries that
  spells the same reference, with the mirror, the size and the digest of that entry and the quantisation of
  its reference; it is refused as a whole if and only if some entry is.\<close>

theorem shipped_registry_resolves:
  "((\<exists>reg. to_mock_registry X env f = Ok reg) \<longleftrightarrow> (\<forall>e \<in> set (sf_models f). \<exists>m. to_manifest X env e = Ok m)) \<and>
   (\<forall>reg r. to_mock_registry X env f = Ok reg \<longrightarrow>
      (case find (\<lambda>e. seed_key e = Some (model_ref_display r)) (rev (sf_models f)) of
         None \<Rightarrow> registry_resolve reg r = Err (UnknownModel (model_ref_display r))
       | Some e \<Rightarrow> \<exists>m. registry_resolve reg r = Ok m \<and> model_ref_display (mf_model_ref m) = model_ref_display r \<and>
           mf_mirrors m = [''https://huggingface.co/'' @ sg_gguf_repo e @ ''/resolve/main/'' @ sg_file_path e] \<and>
           mf_size_bytes m = sg_size_bytes e \<and> parse_sha256 env (sg_sha256 e) = Ok (mf_sha256 m) \<and>
           mf_quant m = mr_quant (mf_model_ref m)))"
proof (intro conjI allI impI)
  show "(\<exists>reg. to_mock_registry X env f = Ok reg) \<longleftrightarrow> (\<forall>e \<in> set (sf_models f). \<exists>m. to_manifest X env e = Ok m)"
    by (auto simp: to_mock_registry_def to_manifests_def rbind_Ok_iff filled_table)
  fix reg r
  assume "to_mock_registry X env f = Ok reg"
  then have ok: "\<forall>e \<in> set (sf_models f). \<exists>m. to_manifest X env e = Ok m"
    and reg: "reg = (\<lambda>k. map_option model_file_manifest.truncate
      (case find (\<lambda>e. seed_key e = Some k) (rev (sf_models f)) of
         None \<Rightarrow> None | Some e \<Rightarrow> (case to_manifest X env e of Ok m \<Rightarrow> Some m | _ \<Rightarrow> None)))"
    by (auto simp: to_mock_registry_def to_manifests_def rbind_Ok_iff filled_table)
  show "case find (\<lambda>e. seed_key e = Some (model_ref_display r)) (rev (sf_models f)) of
         None \<Rightarrow> registry_resolve reg r = Err (UnknownModel (model_ref_display r))
       | Some e \<Rightarrow> \<exists>m. registry_resolve reg r = Ok m \<and> model_ref_display (mf_model_ref m) = model_ref_display r \<and>
           mf_mirrors m = [''https://huggingface.co/'' @ sg_gguf_repo e @ ''/resolve/main/'' @ sg_file_path e] \<and>
           mf_size_bytes m = sg_size_bytes e \<and> parse_sha256 env (sg_sha256 e) = Ok (mf_sha256 m) \<and>
           mf_quant m = mr_quant (mf_model_ref m)"
  proof (cases "find (\<lambda>e. seed_key e = Some (model_ref_display r)) (rev (sf_models f))")
    case None
    then show ?thesis by (simp add: registry_resolve_def reg)
  next
    case (Some e)
    then have e: "e \<in> set (sf_models f)" "seed_key e = Some (model_ref_display r)"
      by (auto simp: find_Some_iff) (metis nth_mem length_rev set_rev)
    with ok obtain m where m: "to_manifest X env e = Ok m" by blast
    with Some have "registry_resolve reg r = Ok (model_file_manifest.truncate m)" by (simp add: registry_resolve_def reg)
    with to_manifest_key[OF m] e(2) Some show ?thesis by (auto simp: model_file_manifest.truncate_def)
  qed
qed

section \<open>Concrete directories\<close>

definition hex_char :: "nat \<Rightarrow> char" where
  "hex_char n = char_of (if n < 10 then n + 48 else n + 87)"

definition hex_value :: "char \<Rightarrow> nat option" where
  "hex_value c = (let n = of_char c in
     if 48 \<le> n \<and> n \<le> 57 then Some (n - 48) else if 97 \<le> n \<and> n \<le> 102 then Some (n - 87)
     else if 65 \<le> n \<and> n \<le> 70 then Some (n - 55) else None)"

fun hex_of :: "bytes \<Rightarrow> string" where
  "hex_of [] = []"
| "hex_of (b # bs) = hex_char (unat b div 16) # hex_char (unat b mod 16) # hex_of bs"

fun unhex :: "string \<Rightarrow> bytes option" where
  "unhex [] = Some []"
| "unhex [c] = None"
| "unhex (c # d # s) =
     (case (hex_value c, hex_value d, unhex s) of
        (Some x, Some y, Some bs) \<Rightarrow> Some (of_nat (16 * x + y) # bs) | _ \<Rightarrow> None)"

lemma hex_value_char: "n < 16 \<Longrightarrow> hex_value (hex_char n) = Some n"
  by (auto simp: hex_value_def hex_char_def Let_def)

lemma unhex_hex: "unhex (hex_of bs) = Some bs" "length (hex_of bs) = 2 * length bs"
proof (induction bs)
  case (Cons b bs)
  have "unat b < 256" using unsigned_less[of b] by simp
  then have "unat b div 16 < 16" "unat b mod 16 < 16" by auto
  with Cons show "unhex (hex_of (b # bs)) = Some (b # bs)" by (simp add: hex_value_char)
  show "length (hex_of (b # bs)) = 2 * length (b # bs)" using Cons by simp
qed simp_all

definition cat_ext :: ext where
  "cat_ext = store_ext\<lparr>x_hex_encode := hex_of\<rparr>"

definition cat_env :: "(hash256 \<times> nat) list \<Rightarrow> nat rpc_env" where
  "cat_env walk = (demo_env [])\<lparr>ev_hex_decode := unhex, ev_walk := (\<lambda>_. walk)\<rparr>"

definition cat_args :: "hash256 \<Rightarrow> load_request" where
  "cat_args d = \<lparr>lq_model_ref = ''o/m-F16'', lq_url = ''good'', lq_sha256 = hex_of (word_bytes d), lq_size_bytes = 24,
     lq_quant = None\<rparr>"

text \<open>One object, in the directory of its digest, and a note that the cache leaves alone.\<close>

definition cat_dir :: "hash256 \<Rightarrow> bytes \<Rightarrow> shard list" where
  "cat_dir d bs = [\<lparr>sh_name = fst (object_path cat_ext d), sh_is_dir = True,
     sh_files = [(''readme'', [], 0), (snd (object_path cat_ext d), bs, 1)]\<rparr>]"

lemma cat_hex: "hex_laws cat_ext (cat_env walk)"
  by (simp add: hex_laws_def cat_ext_def cat_env_def unhex_hex)

lemma object_path_inj:
  assumes "fst (object_path cat_ext d) = fst (object_path cat_ext d')" and "snd (object_path cat_ext d) = snd (object_path cat_ext d')"
  shows "d = d'"
  using object_digest_path[OF cat_hex[of "[]"], of d] object_digest_path[OF cat_hex[of "[]"], of d'] assms
  by (metis option.inject)

lemma readme_no_object: "strip_gguf ''readme'' = None"
  by code_simp

lemma readme_not_object: "snd (object_path cat_ext d) \<noteq> ''readme''"
  using readme_no_object object_name(3)[OF cat_hex[of "[]"], of d] by (metis option.distinct(1) strip_gguf_append)

lemma cat_laid:
  assumes "\<forall>d'. files (Final d') = (if d' = d then Some bs else None)"
  shows "lays_out cat_ext (cat_dir d bs) files" "canonical cat_ext (cat_env walk) (cat_dir d bs)" "tidy cat_ext (cat_dir d bs)"
proof -
  show "lays_out cat_ext (cat_dir d bs) files"
    unfolding lays_out_def cat_dir_def using assms readme_not_object by simp (metis object_path_inj)
  show "canonical cat_ext (cat_env walk) (cat_dir d bs)"
    by (auto simp: canonical_def cat_dir_def object_digest_path[OF cat_hex] prod_eq_iff)
      (auto simp: object_digest_def readme_no_object split: if_splits)
  show "tidy cat_ext (cat_dir d bs)"
    by (auto simp: tidy_def cat_dir_def readme_no_object intro!: exI[of _ d])
qed

lemma cat_walk: "dir_walk (cat_env walk) (cat_dir d bs) = [(d, 1)]"
  by (simp add: dir_walk_def shard_walk_def cat_dir_def object_digest_path[OF cat_hex] List.map_filter_def)
    (simp add: object_digest_def readme_no_object)

theorem directory_refines_store_witness:
  "kv_entries (rebuild_index (cat_env []) (cat_dir 7 [1, 2])) = [(7, \<lparr>ce_size_bytes = 2, ce_last_used = 1\<rparr>)] \<and>
   store_ok cat_ext (cache_open [(7, 1)] 1000 [Final 7 \<mapsto> [1, 2]]) \<and>
   index_exact (cache_open [(7, 1)] 1000 [Final 7 \<mapsto> [1, 2]])"
proof -
  let ?f = "[Final 7 \<mapsto> [1, 2]] :: path \<Rightarrow> bytes option"
  have f: "\<forall>d'. ?f (Final d') = (if d' = 7 then Some [1, 2] else None)" by simp
  have h: "\<forall>d bs. ?f (Final d) = Some bs \<longrightarrow> x_sha256 cat_ext bs = d" by (simp add: cat_ext_def store_ext_def)
  have t: "rebuild_index (cat_env []) (cat_dir 7 [1, 2]) = so_index (cache_open [(7, 1)] 1000 ?f) \<and>
      store_ok cat_ext (cache_open [(7, 1)] 1000 ?f) \<and> index_exact (cache_open [(7, 1)] 1000 ?f)"
    using directory_refines_store[OF cat_hex cat_laid(1)[where files = ?f, OF f] cat_laid(2)[OF f] h, of "[]" 1000]
    by (simp only: cat_walk)
  then show ?thesis by (intro conjI) (simp add: cache_open_def, blast, blast)
qed

lemma cat_manifest:
  "args_manifest (cat_env walk) (cat_args d) = Ok (demo_model, \<lparr>mf_model_ref = demo_model, mf_mirrors = [''good''],
     mf_sha256 = d, mf_size_bytes = 24, mf_quant = QF16\<rparr>)"
  by (simp add: args_manifest_def cli_build_manifest_def cat_args_def cat_env_def demo_env_def demo_model_parses
      parse_digest_def unhex_hex length_word_bytes word_rcat_word_bytes) (simp add: demo_model_def)

lemma cat_header:
  "parse_header 1 (gguf_build []) = Ok \<lparr>gh_version = 3, gh_tensor_count = 0, gh_metadata_count = 0,
     gh_architecture = None, gh_file_type = None\<rparr>" "length (gguf_build []) = 24"
proof -
  show "length (gguf_build []) = 24" by (simp add: gguf_build_def GGUF_MAGIC_def str_bytes_def)
  then show "parse_header 1 (gguf_build []) = Ok \<lparr>gh_version = 3, gh_tensor_count = 0, gh_metadata_count = 0,
     gh_architecture = None, gh_file_type = None\<rparr>"
    using built_header_parses[of "[]" None None 0] by (simp add: parse_header_def HEADER_READ_SIZE_def)
qed

lemma cat_pull:
  "\<exists>files'. run_pull cat_ext (cat_env []) (cat_args 7) (\<lambda>_. None) = (Ok (Final 7), files') \<and>
     (\<forall>d. files' (Final d) = (if d = 7 then Some (gguf_build []) else None))"
  unfolding run_pull_def cat_manifest using cat_header
  by (simp add: open_runtime_def cache_open_def cat_ext_def cat_env_def demo_env_def
      ensure_local_def registry_resolve_def cache_get_def pull_def pull_from_mirror_def file_len_def demo_fetch_def
      set_path_def store_ext_def validate_gguf_def cache_insert_def gc_for_def gc_loop.simps total_bytes_def Let_def
      DEFAULT_CACHE_MAX_BYTES_def)

theorem pull_keeps_cache_verified_witness:
  "\<exists>files'. run_pull cat_ext (cat_env []) (cat_args 7) (\<lambda>_. None) = (Ok (Final 7), files') \<and>
     files' (Final 7) = Some (gguf_build []) \<and>
     (\<exists>n. run_verify cat_ext (cat_env []) ''o/m-F16'' (Some (cat_dir 7 (gguf_build []))) = Ok (n, 0))"
proof -
  obtain files' where p: "run_pull cat_ext (cat_env []) (cat_args 7) (\<lambda>_. None) = (Ok (Final 7), files')"
    "\<forall>d. files' (Final d) = (if d = 7 then Some (gguf_build []) else None)" using cat_pull by blast
  have "lays_out cat_ext [] (\<lambda>_. None)" "ev_walk (cat_env []) (\<lambda>_. None) = dir_walk (cat_env []) []"
    by (simp_all add: lays_out_def dir_walk_def cat_env_def)
  from pull_keeps_cache_verified[OF cat_hex this _ p(1) cat_laid(1)[OF p(2)] cat_laid(3)[OF p(2)] demo_model_parses] p
  show ?thesis by auto
qed

theorem rotten_object_is_served_witness:
  "run_pull cat_ext (cat_env [(5, 1)]) (cat_args 5) [Final 5 \<mapsto> gguf_build []] = (Ok (Final 5), [Final 5 \<mapsto> gguf_build []]) \<and>
   run_load cat_ext (cat_env [(5, 1)]) (cat_args 5) [Final 5 \<mapsto> gguf_build []] = (Ok 7, [Final 5 \<mapsto> gguf_build []]) \<and>
   run_verify cat_ext (cat_env [(5, 1)]) ''o/m-F16'' (Some (cat_dir 5 (gguf_build []))) \<noteq> Ok (1, 0)"
proof -
  let ?f = "[Final 5 \<mapsto> gguf_build []] :: path \<Rightarrow> bytes option"
  have f: "\<forall>d. ?f (Final d) = (if d = 5 then Some (gguf_build []) else None)" by simp
  have e: "parse_header (ev_frames (cat_env [(5, 1)])) (gguf_build []) = Ok \<lparr>gh_version = 3, gh_tensor_count = 0,
      gh_metadata_count = 0, gh_architecture = None, gh_file_type = None\<rparr>"
    "ev_llama (cat_env [(5, 1)]) (gguf_build []) = Some demo_lm" "x_sha256 cat_ext (gguf_build []) = 7"
    using cat_header(1) by (simp_all add: cat_env_def demo_env_def cat_ext_def store_ext_def)
  have m: "mf_sha256 \<lparr>mf_model_ref = demo_model, mf_mirrors = [''good''], mf_sha256 = 5, mf_size_bytes = 24, mf_quant = QF16\<rparr> = 5"
    and w: "(5 :: hash256) \<in> fst ` set (ev_walk (cat_env [(5, 1)]) ?f)" "?f (Final 5) = Some (gguf_build [])"
    by (simp_all add: cat_env_def)
  have n: "x_sha256 cat_ext (gguf_build []) \<noteq> 5" by (simp add: e(3))
  note t = rotten_object_is_served[where files = ?f, OF cat_manifest[of _ 5], unfolded m, OF w(2) n w(1) e(1) _ e(2) cat_hex
    cat_laid(1)[where files = ?f, OF f] cat_laid(3)[OF f]]
  show ?thesis using t e(3) by simp
qed

theorem verification_is_exact_witness:
  "run_verify cat_ext (cat_env []) ''o/m-F16'' (Some (cat_dir 7 [1, 2])) = Ok (1, 0) \<and>
   run_verify cat_ext (cat_env []) ''o/d-F16'' (Some (cat_dir 7 [1, 2])) = Ok (1, 0)"
proof -
  let ?f = "[Final 7 \<mapsto> [1, 2]] :: path \<Rightarrow> bytes option"
  have f: "\<forall>d'. ?f (Final d') = (if d' = 7 then Some [1, 2] else None)" by simp
  have l: "length (listed_objects (cat_dir 7 [1, 2])) = 1"
    using object_name(3)[OF cat_hex[of "[]"], of 7]
    by (simp add: listed_objects_def shard_objects_def cat_dir_def List.map_filter_def readme_no_object)
  have "parse_digest (cat_env []) h = Ok (x_sha256 cat_ext bs)" if "(h, bs) \<in> set (listed_objects (cat_dir 7 [1, 2]))" for h bs
    using that parse_object_name[OF cat_hex, of "[]" 7]
    unfolding tidy_objects[OF cat_hex[of "[]"] cat_laid(1)[OF f] cat_laid(3)[OF f]]
    by (auto simp: cat_ext_def store_ext_def split: if_splits)
  then have "run_verify cat_ext (cat_env []) ''o/m-F16'' (Some (cat_dir 7 [1, 2])) = Ok (1, 0)"
    using l demo_model_parses
    by (intro verification_is_exact[THEN conjunct1, THEN iffD2]) (auto simp: run_list_def Let_def)
  moreover from this have "run_verify cat_ext (cat_env []) ''o/d-F16'' (Some (cat_dir 7 [1, 2])) = Ok (1, 0)"
    using verification_is_exact[THEN conjunct2, rule_format, OF dead_model_parses demo_model_parses,
      where X = cat_ext and env = "cat_env []" and objects = "Some (cat_dir 7 [1, 2])"] by metis
  ultimately show ?thesis by blast
qed

definition cat_entry :: "string \<Rightarrow> nat \<Rightarrow> seed_entry" where
  "cat_entry repo n = \<lparr>sg_model_ref = ''o/m-F16'', sg_gguf_repo = repo, sg_file_path = ''f.gguf'',
     sg_sha256 = hex_of (word_bytes (7 :: hash256)), sg_size_bytes = n, sg_license = ''mit'', sg_tier = ''low'', sg_description = []\<rparr>"

definition cat_seed :: seed_file where
  "cat_seed = \<lparr>sf_chain_id = ''arknet-devnet-1'', sf_generated_at = None, sf_models = [cat_entry ''a'' 3, cat_entry ''b'' 4]\<rparr>"

theorem shipped_registry_resolves_witness:
  "\<exists>reg m. to_mock_registry cat_ext (cat_env []) cat_seed = Ok reg \<and> registry_resolve reg demo_model = Ok m \<and>
     mf_size_bytes m = 4 \<and> mf_mirrors m = [''https://huggingface.co/b/resolve/main/f.gguf'']"
proof -
  have p: "strip_0x (hex_of (word_bytes (7 :: hash256))) = hex_of (word_bytes (7 :: hash256))"
    by (simp add: strip_0x_def starts_with_def word_bytes_def) code_simp
  have "\<forall>e \<in> set (sf_models cat_seed). \<exists>m. to_manifest cat_ext (cat_env []) e = Ok m"
    by (simp add: cat_seed_def cat_entry_def to_manifest_def demo_model_parses parse_sha256_def p hf_mirror_url_def
        cat_env_def demo_env_def unhex_hex length_word_bytes)
  then obtain reg where r: "to_mock_registry cat_ext (cat_env []) cat_seed = Ok reg"
    using shipped_registry_resolves[THEN conjunct1, THEN iffD2] by blast
  have "seed_key (cat_entry repo n) = Some (model_ref_display demo_model)" for repo n
    by (simp add: seed_key_def cat_entry_def demo_model_parses)
  with shipped_registry_resolves[THEN conjunct2, rule_format, OF r, of demo_model] r show ?thesis
    by (auto simp: cat_seed_def cat_entry_def)
qed

end
