(* ===== verification/NodeCli.thy ===== *)
theory NodeCli
  imports OperatorCli PeerNetwork ModelCatalog
begin

text \<open>
  How a node is configured and started: the layered configuration (\<^verbatim>\<open>crates/common/src/config.rs\<close>), the data
  directory (\<^verbatim>\<open>crates/node/src/paths.rs\<close>), the commands that write, check and read the configuration
  (\<^verbatim>\<open>cli/{init,config_cmd,health,status}.rs\<close>) and the start of a role (\<^verbatim>\<open>cli/start.rs\<close>, \<^verbatim>\<open>scheduler.rs\<close>). A
  configuration file is what the TOML parser reads in it, the values at their paths, if it can be read;
  an environment variable denotes the values that the library reads in it. The library merges layers path
  by path, later ones over earlier ones; unknown fields are refused, as the code asks.
\<close>

section \<open>The configuration\<close>

record compute_resources =
  cp_gpu_devices :: "nat list"
  cp_max_vram_gb :: nat
  cp_max_concurrent_jobs :: nat
  cp_loaded_models :: "string list"
  cp_model_swap_enabled :: bool

record router_resources =
  ro_cpu_percent :: nat
  ro_max_concurrent_routes :: nat
  ro_bandwidth_mbps :: nat

record verifier_resources =
  vf_gpu_share_with_compute :: bool
  vf_max_verifications_per_hour :: nat

record validator_resources =
  va_state_db_path :: "string option"
  va_gossip_peers_max :: nat
  va_remote_signer :: "string option"

record resources_section =
  re_compute :: compute_resources
  re_router :: router_resources
  re_verifier :: verifier_resources
  re_validator :: validator_resources

record operator_section =
  op_payout_address :: "string option"
  op_preferred_region :: "string option"
  op_min_reward_per_job :: "string option"
  op_auto_model_pull :: bool
  op_auto_pool_rebalance :: bool

record telemetry_section =
  tm_prometheus_enabled :: bool
  tm_otlp_endpoint :: "string option"
  tm_sentry_dsn :: "string option"

record tee_section =
  te_enabled :: bool
  te_platform :: "string option"
  te_enclave_key_path :: "string option"

record da_section =
  ds_layer :: string
  ds_endpoint :: string
  ds_namespace :: string
  ds_auth_token :: string

record node_config =
  nf_node :: node_section
  nf_roles :: roles_section
  nf_resources :: resources_section
  nf_operator :: operator_section
  nf_network :: network_section
  nf_telemetry :: telemetry_section
  nf_tee :: tee_section
  nf_da :: da_section

definition node_config_default :: node_config where
  "node_config_default = \<lparr>nf_node = node_section_default,
     nf_roles = \<lparr>rs_validator = False, rs_router = False, rs_compute = False, rs_verifier = False\<rparr>,
     nf_resources = \<lparr>
       re_compute = \<lparr>cp_gpu_devices = [], cp_max_vram_gb = 0, cp_max_concurrent_jobs = 0, cp_loaded_models = [],
         cp_model_swap_enabled = False\<rparr>,
       re_router = \<lparr>ro_cpu_percent = 0, ro_max_concurrent_routes = 0, ro_bandwidth_mbps = 0\<rparr>,
       re_verifier = \<lparr>vf_gpu_share_with_compute = False, vf_max_verifications_per_hour = 0\<rparr>,
       re_validator = \<lparr>va_state_db_path = None, va_gossip_peers_max = 0, va_remote_signer = None\<rparr>\<rparr>,
     nf_operator = \<lparr>op_payout_address = None, op_preferred_region = None, op_min_reward_per_job = None,
       op_auto_model_pull = False, op_auto_pool_rebalance = False\<rparr>,
     nf_network = network_section_default,
     nf_telemetry = \<lparr>tm_prometheus_enabled = False, tm_otlp_endpoint = None, tm_sentry_dsn = None\<rparr>,
     nf_tee = \<lparr>te_enabled = False, te_platform = None, te_enclave_key_path = None\<rparr>,
     nf_da = \<lparr>ds_layer = [], ds_endpoint = [], ds_namespace = [], ds_auth_token = []\<rparr>\<rparr>"

section \<open>Layers\<close>

text \<open>A value is a string, a number, a boolean, an array or something that no field takes.\<close>

datatype leaf = LStr string | LNum int | LBool bool | LArr "leaf list" | LOther

type_synonym layer = "(string list \<times> leaf) list"

definition opt_leaf :: "string list \<Rightarrow> string option \<Rightarrow> layer" where
  "opt_leaf p v = (case v of Some s \<Rightarrow> [(p, LStr s)] | None \<Rightarrow> [])"

definition num_leaf :: "nat \<Rightarrow> leaf" where "num_leaf n = LNum (int n)"

text \<open>A configuration as it is serialised.\<close>

definition node_layer :: "node_section \<Rightarrow> layer" where
  "node_layer n = [([''node'', ''name''], LStr (ns_name n)), ([''node'', ''network''], LStr (ns_network n)),
     ([''node'', ''data_dir''], LStr (ns_data_dir n)), ([''node'', ''log_level''], LStr (ns_log_level n))]"

definition roles_layer :: "roles_section \<Rightarrow> layer" where
  "roles_layer r = [([''roles'', ''validator''], LBool (rs_validator r)), ([''roles'', ''router''], LBool (rs_router r)),
     ([''roles'', ''compute''], LBool (rs_compute r)), ([''roles'', ''verifier''], LBool (rs_verifier r))]"

definition resources_layer :: "resources_section \<Rightarrow> layer" where
  "resources_layer r =
     (let c = re_compute r; o1 = re_router r; v = re_verifier r; w = re_validator r in
     [([''resources'', ''compute'', ''gpu_devices''], LArr (map num_leaf (cp_gpu_devices c))),
      ([''resources'', ''compute'', ''max_vram_gb''], num_leaf (cp_max_vram_gb c)),
      ([''resources'', ''compute'', ''max_concurrent_jobs''], num_leaf (cp_max_concurrent_jobs c)),
      ([''resources'', ''compute'', ''loaded_models''], LArr (map LStr (cp_loaded_models c))),
      ([''resources'', ''compute'', ''model_swap_enabled''], LBool (cp_model_swap_enabled c)),
      ([''resources'', ''router'', ''cpu_percent''], num_leaf (ro_cpu_percent o1)),
      ([''resources'', ''router'', ''max_concurrent_routes''], num_leaf (ro_max_concurrent_routes o1)),
      ([''resources'', ''router'', ''bandwidth_mbps''], num_leaf (ro_bandwidth_mbps o1)),
      ([''resources'', ''verifier'', ''gpu_share_with_compute''], LBool (vf_gpu_share_with_compute v)),
      ([''resources'', ''verifier'', ''max_verifications_per_hour''], num_leaf (vf_max_verifications_per_hour v)),
      ([''resources'', ''validator'', ''gossip_peers_max''], num_leaf (va_gossip_peers_max w))]
     @ opt_leaf [''resources'', ''validator'', ''state_db_path''] (va_state_db_path w)
     @ opt_leaf [''resources'', ''validator'', ''remote_signer''] (va_remote_signer w))"

definition operator_layer :: "operator_section \<Rightarrow> layer" where
  "operator_layer o1 =
     opt_leaf [''operator'', ''payout_address''] (op_payout_address o1)
     @ opt_leaf [''operator'', ''preferred_region''] (op_preferred_region o1)
     @ opt_leaf [''operator'', ''min_reward_per_job''] (op_min_reward_per_job o1)
     @ [([''operator'', ''auto_model_pull''], LBool (op_auto_model_pull o1)),
        ([''operator'', ''auto_pool_rebalance''], LBool (op_auto_pool_rebalance o1))]"

definition network_layer :: "network_section \<Rightarrow> layer" where
  "network_layer n = [([''network'', ''p2p_listen''], LStr (nt_p2p_listen n)), ([''network'', ''rpc_listen''], LStr (nt_rpc_listen n)),
     ([''network'', ''metrics_listen''], LStr (nt_metrics_listen n)),
     ([''network'', ''bootstrap_peers''], LArr (map LStr (nt_bootstrap_peers n))),
     ([''network'', ''max_inbound_peers''], num_leaf (nt_max_inbound_peers n)),
     ([''network'', ''max_outbound_peers''], num_leaf (nt_max_outbound_peers n))]
     @ opt_leaf [''network'', ''external_address''] (nt_external_address n)"

definition telemetry_layer :: "telemetry_section \<Rightarrow> layer" where
  "telemetry_layer t = [([''telemetry'', ''prometheus_enabled''], LBool (tm_prometheus_enabled t))]
     @ opt_leaf [''telemetry'', ''otlp_endpoint''] (tm_otlp_endpoint t)
     @ opt_leaf [''telemetry'', ''sentry_dsn''] (tm_sentry_dsn t)"

definition tee_layer :: "tee_section \<Rightarrow> layer" where
  "tee_layer t = [([''tee'', ''enabled''], LBool (te_enabled t))]
     @ opt_leaf [''tee'', ''platform''] (te_platform t)
     @ opt_leaf [''tee'', ''enclave_key_path''] (te_enclave_key_path t)"

definition da_layer_of :: "da_section \<Rightarrow> layer" where
  "da_layer_of d = [([''da'', ''layer''], LStr (ds_layer d)), ([''da'', ''endpoint''], LStr (ds_endpoint d)),
     ([''da'', ''namespace''], LStr (ds_namespace d)), ([''da'', ''auth_token''], LStr (ds_auth_token d))]"

definition config_layer :: "node_config \<Rightarrow> layer" where
  "config_layer c = node_layer (nf_node c) @ roles_layer (nf_roles c) @ resources_layer (nf_resources c)
     @ operator_layer (nf_operator c) @ network_layer (nf_network c) @ telemetry_layer (nf_telemetry c)
     @ tee_layer (nf_tee c) @ da_layer_of (nf_da c)"

text \<open>The fields of the sections. Every section but \<^verbatim>\<open>[da]\<close> denies others.\<close>

definition field_table :: "(string list \<times> string list) list" where
  "field_table =
     [([''node''], [''name'', ''network'', ''data_dir'', ''log_level'']),
      ([''roles''], [''validator'', ''router'', ''compute'', ''verifier'']),
      ([''resources'', ''compute''], [''gpu_devices'', ''max_vram_gb'', ''max_concurrent_jobs'', ''loaded_models'', ''model_swap_enabled'']),
      ([''resources'', ''router''], [''cpu_percent'', ''max_concurrent_routes'', ''bandwidth_mbps'']),
      ([''resources'', ''verifier''], [''gpu_share_with_compute'', ''max_verifications_per_hour'']),
      ([''resources'', ''validator''], [''state_db_path'', ''gossip_peers_max'', ''remote_signer'']),
      ([''operator''], [''payout_address'', ''preferred_region'', ''min_reward_per_job'', ''auto_model_pull'', ''auto_pool_rebalance'']),
      ([''network''], [''p2p_listen'', ''rpc_listen'', ''metrics_listen'', ''bootstrap_peers'', ''external_address'',
        ''max_inbound_peers'', ''max_outbound_peers'']),
      ([''telemetry''], [''prometheus_enabled'', ''otlp_endpoint'', ''sentry_dsn'']),
      ([''tee''], [''enabled'', ''platform'', ''enclave_key_path''])]"

definition known_path :: "string list \<Rightarrow> bool" where
  "known_path p \<longleftrightarrow> p \<noteq> [] \<and>
     (case map_of field_table (butlast p) of Some ks \<Rightarrow> last p \<in> set ks | None \<Rightarrow> butlast p = [''da''])"

text \<open>Reading a field: a missing one takes its default.\<close>

definition field_at :: "layer \<Rightarrow> string list \<Rightarrow> leaf option" where
  "field_at L p = map_of (rev L) p"

fun as_str :: "leaf \<Rightarrow> string option" where
  "as_str (LStr s) = Some s"
| "as_str _ = None"

fun as_bool :: "leaf \<Rightarrow> bool option" where
  "as_bool (LBool b) = Some b"
| "as_bool _ = None"

fun as_u32 :: "leaf \<Rightarrow> nat option" where
  "as_u32 (LNum n) = (if 0 \<le> n \<and> n < 2 ^ 32 then Some (nat n) else None)"
| "as_u32 _ = None"

fun all_some :: "('a \<Rightarrow> 'b option) \<Rightarrow> 'a list \<Rightarrow> 'b list option" where
  "all_some f [] = Some []"
| "all_some f (x # xs) =
     (case (f x, all_some f xs) of (Some y, Some ys) \<Rightarrow> Some (y # ys) | _ \<Rightarrow> None)"

fun as_list :: "(leaf \<Rightarrow> 'b option) \<Rightarrow> leaf \<Rightarrow> 'b list option" where
  "as_list f (LArr xs) = all_some f xs"
| "as_list f _ = None"

definition as_opt :: "leaf \<Rightarrow> string option option" where
  "as_opt v = map_option Some (as_str v)"

definition read_field :: "layer \<Rightarrow> string list \<Rightarrow> (leaf \<Rightarrow> 'a option) \<Rightarrow> 'a \<Rightarrow> (string, 'a) result" where
  "read_field L p f d =
     (case field_at L p of
        None \<Rightarrow> Ok d
      | Some v \<Rightarrow> (case f v of Some x \<Rightarrow> Ok x | None \<Rightarrow> Err ''config''))"

definition read_node :: "layer \<Rightarrow> (string, node_section) result" where
  "read_node L =
     (let d = node_section_default in
      rbind (read_field L [''node'', ''name''] as_str (ns_name d)) (\<lambda>name.
      rbind (read_field L [''node'', ''network''] as_str (ns_network d)) (\<lambda>net.
      rbind (read_field L [''node'', ''data_dir''] as_str (ns_data_dir d)) (\<lambda>dir.
      rbind (read_field L [''node'', ''log_level''] as_str (ns_log_level d)) (\<lambda>log_level.
      Ok \<lparr>ns_name = name, ns_network = net, ns_data_dir = dir, ns_log_level = log_level\<rparr>)))))"

definition read_roles :: "layer \<Rightarrow> (string, roles_section) result" where
  "read_roles L =
     rbind (read_field L [''roles'', ''validator''] as_bool False) (\<lambda>v.
     rbind (read_field L [''roles'', ''router''] as_bool False) (\<lambda>r.
     rbind (read_field L [''roles'', ''compute''] as_bool False) (\<lambda>c.
     rbind (read_field L [''roles'', ''verifier''] as_bool False) (\<lambda>w.
     Ok \<lparr>rs_validator = v, rs_router = r, rs_compute = c, rs_verifier = w\<rparr>))))"

definition read_compute :: "layer \<Rightarrow> (string, compute_resources) result" where
  "read_compute L =
     rbind (read_field L [''resources'', ''compute'', ''gpu_devices''] (as_list as_u32) []) (\<lambda>gpus.
     rbind (read_field L [''resources'', ''compute'', ''max_vram_gb''] as_u32 0) (\<lambda>vram.
     rbind (read_field L [''resources'', ''compute'', ''max_concurrent_jobs''] as_u32 0) (\<lambda>jobs.
     rbind (read_field L [''resources'', ''compute'', ''loaded_models''] (as_list as_str) []) (\<lambda>models.
     rbind (read_field L [''resources'', ''compute'', ''model_swap_enabled''] as_bool False) (\<lambda>swap.
     Ok \<lparr>cp_gpu_devices = gpus, cp_max_vram_gb = vram, cp_max_concurrent_jobs = jobs, cp_loaded_models = models,
         cp_model_swap_enabled = swap\<rparr>)))))"

definition read_resources :: "layer \<Rightarrow> (string, resources_section) result" where
  "read_resources L =
     rbind (read_compute L) (\<lambda>c.
     rbind (read_field L [''resources'', ''router'', ''cpu_percent''] as_u32 0) (\<lambda>cpu.
     rbind (read_field L [''resources'', ''router'', ''max_concurrent_routes''] as_u32 0) (\<lambda>routes.
     rbind (read_field L [''resources'', ''router'', ''bandwidth_mbps''] as_u32 0) (\<lambda>mbps.
     rbind (read_field L [''resources'', ''verifier'', ''gpu_share_with_compute''] as_bool False) (\<lambda>share.
     rbind (read_field L [''resources'', ''verifier'', ''max_verifications_per_hour''] as_u32 0) (\<lambda>per_hour.
     rbind (read_field L [''resources'', ''validator'', ''state_db_path''] as_opt None) (\<lambda>db.
     rbind (read_field L [''resources'', ''validator'', ''gossip_peers_max''] as_u32 0) (\<lambda>peers.
     rbind (read_field L [''resources'', ''validator'', ''remote_signer''] as_opt None) (\<lambda>signer.
     Ok \<lparr>re_compute = c,
         re_router = \<lparr>ro_cpu_percent = cpu, ro_max_concurrent_routes = routes, ro_bandwidth_mbps = mbps\<rparr>,
         re_verifier = \<lparr>vf_gpu_share_with_compute = share, vf_max_verifications_per_hour = per_hour\<rparr>,
         re_validator = \<lparr>va_state_db_path = db, va_gossip_peers_max = peers, va_remote_signer = signer\<rparr>\<rparr>)))))))))"

definition read_operator :: "layer \<Rightarrow> (string, operator_section) result" where
  "read_operator L =
     rbind (read_field L [''operator'', ''payout_address''] as_opt None) (\<lambda>payout.
     rbind (read_field L [''operator'', ''preferred_region''] as_opt None) (\<lambda>region.
     rbind (read_field L [''operator'', ''min_reward_per_job''] as_opt None) (\<lambda>reward.
     rbind (read_field L [''operator'', ''auto_model_pull''] as_bool False) (\<lambda>pull.
     rbind (read_field L [''operator'', ''auto_pool_rebalance''] as_bool False) (\<lambda>rebalance.
     Ok \<lparr>op_payout_address = payout, op_preferred_region = region, op_min_reward_per_job = reward,
         op_auto_model_pull = pull, op_auto_pool_rebalance = rebalance\<rparr>)))))"

definition read_network :: "layer \<Rightarrow> (string, network_section) result" where
  "read_network L =
     (let d = network_section_default in
      rbind (read_field L [''network'', ''p2p_listen''] as_str (nt_p2p_listen d)) (\<lambda>p2p.
      rbind (read_field L [''network'', ''rpc_listen''] as_str (nt_rpc_listen d)) (\<lambda>rpc.
      rbind (read_field L [''network'', ''metrics_listen''] as_str (nt_metrics_listen d)) (\<lambda>met.
      rbind (read_field L [''network'', ''bootstrap_peers''] (as_list as_str) []) (\<lambda>peers.
      rbind (read_field L [''network'', ''external_address''] as_opt None) (\<lambda>ext_addr.
      rbind (read_field L [''network'', ''max_inbound_peers''] as_u32 0) (\<lambda>inbound.
      rbind (read_field L [''network'', ''max_outbound_peers''] as_u32 0) (\<lambda>outbound.
      Ok \<lparr>nt_p2p_listen = p2p, nt_rpc_listen = rpc, nt_metrics_listen = met, nt_bootstrap_peers = peers,
          nt_external_address = ext_addr, nt_max_inbound_peers = inbound, nt_max_outbound_peers = outbound\<rparr>))))))))"

definition read_telemetry :: "layer \<Rightarrow> (string, telemetry_section) result" where
  "read_telemetry L =
     rbind (read_field L [''telemetry'', ''prometheus_enabled''] as_bool False) (\<lambda>p.
     rbind (read_field L [''telemetry'', ''otlp_endpoint''] as_opt None) (\<lambda>otlp.
     rbind (read_field L [''telemetry'', ''sentry_dsn''] as_opt None) (\<lambda>dsn.
     Ok \<lparr>tm_prometheus_enabled = p, tm_otlp_endpoint = otlp, tm_sentry_dsn = dsn\<rparr>)))"

definition read_tee :: "layer \<Rightarrow> (string, tee_section) result" where
  "read_tee L =
     rbind (read_field L [''tee'', ''enabled''] as_bool False) (\<lambda>e.
     rbind (read_field L [''tee'', ''platform''] as_opt None) (\<lambda>platform.
     rbind (read_field L [''tee'', ''enclave_key_path''] as_opt None) (\<lambda>key.
     Ok \<lparr>te_enabled = e, te_platform = platform, te_enclave_key_path = key\<rparr>)))"

definition read_da :: "layer \<Rightarrow> (string, da_section) result" where
  "read_da L =
     rbind (read_field L [''da'', ''layer''] as_str []) (\<lambda>l.
     rbind (read_field L [''da'', ''endpoint''] as_str []) (\<lambda>e.
     rbind (read_field L [''da'', ''namespace''] as_str []) (\<lambda>n.
     rbind (read_field L [''da'', ''auth_token''] as_str []) (\<lambda>t.
     Ok \<lparr>ds_layer = l, ds_endpoint = e, ds_namespace = n, ds_auth_token = t\<rparr>))))"

definition extract_config :: "layer \<Rightarrow> (string, node_config) result" where
  "extract_config L =
     (if \<not> list_all (known_path \<circ> fst) L then Err ''unknown field''
      else
       rbind (read_node L) (\<lambda>n. rbind (read_roles L) (\<lambda>r. rbind (read_resources L) (\<lambda>s.
       rbind (read_operator L) (\<lambda>o1. rbind (read_network L) (\<lambda>w. rbind (read_telemetry L) (\<lambda>t.
       rbind (read_tee L) (\<lambda>e. rbind (read_da L) (\<lambda>d.
       Ok \<lparr>nf_node = n, nf_roles = r, nf_resources = s, nf_operator = o1, nf_network = w, nf_telemetry = t,
           nf_tee = e, nf_da = d\<rparr>)))))))))"

section \<open>Loading\<close>

text \<open>A variable with the prefix names the path that its lower-case rest spells, with two underscores
  between the parts. \<open>env_value\<close> is how the library reads the text of a variable: a value, or the values of
  a table.\<close>

fun split_dunder :: "string \<Rightarrow> string list" where
  "split_dunder [] = [[]]"
| "split_dunder [c] = [[c]]"
| "split_dunder (c # d # s) =
     (if c = CHR ''_'' \<and> d = CHR ''_'' then [] # split_dunder s
      else case split_dunder (d # s) of [] \<Rightarrow> [[c]] | w # ws \<Rightarrow> (c # w) # ws)"

type_synonym variables = "(string \<times> string) list"

definition is_config_var :: "string \<Rightarrow> bool" where
  "is_config_var name \<longleftrightarrow> starts_with ''arknet_'' (map lower_char name) \<and> length name > 7"

definition var_path :: "string \<Rightarrow> string list" where
  "var_path name = split_dunder (drop 7 (map lower_char name))"

definition env_layer :: "(string \<Rightarrow> layer) \<Rightarrow> variables \<Rightarrow> layer" where
  "env_layer env_value vars =
     concat (map (\<lambda>(name, v). if is_config_var name then map (\<lambda>(p, l). (var_path name @ p, l)) (env_value v) else []) vars)"

type_synonym toml_doc = "layer option"

definition config_load_env_only :: "(string \<Rightarrow> layer) \<Rightarrow> variables \<Rightarrow> (string, node_config) result" where
  "config_load_env_only env_value vars = extract_config (config_layer node_config_default @ env_layer env_value vars)"

definition config_load :: "(string \<Rightarrow> layer) \<Rightarrow> toml_doc option \<Rightarrow> variables \<Rightarrow> (string, node_config) result" where
  "config_load env_value file vars =
     (case file of
        None \<Rightarrow> extract_config (config_layer node_config_default @ env_layer env_value vars)
      | Some None \<Rightarrow> Err ''toml''
      | Some (Some l) \<Rightarrow> extract_config (config_layer node_config_default @ l @ env_layer env_value vars))"

section \<open>The data directory\<close>

record node_dir =
  nd_toml :: "toml_doc option"
  nd_key :: "bytes option"
  nd_layout :: bool

type_synonym dirs = "string \<Rightarrow> node_dir"

definition ENV_DATA_DIR :: string where "ENV_DATA_DIR = ''ARKNET_HOME''"

definition default_data_dir :: "string option \<Rightarrow> (node_error, string) result" where
  "default_data_dir home =
     (case home of
        None \<Rightarrow> Err (NodePaths ''could not determine home directory'')
      | Some h \<Rightarrow> Ok (h @ ''/.arknet''))"

definition data_dir :: "string option \<Rightarrow> variables \<Rightarrow> string option \<Rightarrow> (node_error, string) result" where
  "data_dir cli_override vars home =
     (case cli_override of
        Some p \<Rightarrow> Ok p
      | None \<Rightarrow>
         (case map_of vars ENV_DATA_DIR of
            Some e \<Rightarrow> if e \<noteq> [] then Ok e else default_data_dir home
          | None \<Rightarrow> default_data_dir home))"

definition ensure_layout :: "string \<Rightarrow> dirs \<Rightarrow> dirs" where
  "ensure_layout dir fs = fs(dir := (fs dir)\<lparr>nd_layout := True\<rparr>)"

text \<open>What every command does that reads the configuration.\<close>

definition effective_config :: "(string \<Rightarrow> layer) \<Rightarrow> variables \<Rightarrow> string \<Rightarrow> dirs \<Rightarrow> (node_error, node_config) result" where
  "effective_config env_value vars dir fs =
     map_err NodeCommonConfig
       (if nd_toml (fs dir) \<noteq> None then config_load env_value (nd_toml (fs dir)) vars
        else config_load_env_only env_value vars)"

section \<open>The commands\<close>

text \<open>The template as the parser reads it. The data directory stands in a literal string, which has no
  escapes: it must not contain a quote or a control character other than a tab.\<close>

definition literal_ok :: "string \<Rightarrow> bool" where
  "literal_ok s \<longleftrightarrow> list_all (\<lambda>c. c \<noteq> CHR 0x27 \<and> (of_char c \<ge> (32 :: nat) \<and> c \<noteq> CHR 0x7F \<or> c = CHR 0x09)) s"

definition init_layer :: "string \<Rightarrow> layer" where
  "init_layer dir =
     [([''node'', ''name''], LStr ''arknet-node''), ([''node'', ''network''], LStr ''devnet''),
      ([''node'', ''data_dir''], LStr dir), ([''node'', ''log_level''], LStr ''info,llama=warn''),
      ([''roles'', ''validator''], LBool False), ([''roles'', ''router''], LBool False),
      ([''roles'', ''compute''], LBool True), ([''roles'', ''verifier''], LBool False),
      ([''resources'', ''compute'', ''gpu_devices''], LArr []), ([''resources'', ''compute'', ''max_vram_gb''], LNum 0),
      ([''resources'', ''compute'', ''max_concurrent_jobs''], LNum 1), ([''resources'', ''compute'', ''loaded_models''], LArr []),
      ([''resources'', ''compute'', ''model_swap_enabled''], LBool False),
      ([''resources'', ''router'', ''cpu_percent''], LNum 0), ([''resources'', ''router'', ''max_concurrent_routes''], LNum 0),
      ([''resources'', ''router'', ''bandwidth_mbps''], LNum 0),
      ([''resources'', ''verifier'', ''gpu_share_with_compute''], LBool False),
      ([''resources'', ''verifier'', ''max_verifications_per_hour''], LNum 0),
      ([''operator'', ''auto_model_pull''], LBool False), ([''operator'', ''auto_pool_rebalance''], LBool False),
      ([''network'', ''p2p_listen''], LStr ''0.0.0.0:26656''), ([''network'', ''rpc_listen''], LStr ''127.0.0.1:8080''),
      ([''network'', ''metrics_listen''], LStr ''127.0.0.1:9090''), ([''network'', ''bootstrap_peers''], LArr []),
      ([''network'', ''max_inbound_peers''], LNum 60), ([''network'', ''max_outbound_peers''], LNum 20),
      ([''telemetry'', ''prometheus_enabled''], LBool True)]"

definition init_doc :: "string \<Rightarrow> toml_doc" where
  "init_doc dir = (if literal_ok dir then Some (init_layer dir) else None)"

definition run_init ::
    "bool \<Rightarrow> string option \<Rightarrow> variables \<Rightarrow> string option \<Rightarrow> dirs \<Rightarrow> (node_error, string) result \<times> dirs" where
  "run_init force cli_override vars home fs =
     (case data_dir cli_override vars home of
        Err e \<Rightarrow> (Err e, fs)
      | Panic \<Rightarrow> (Panic, fs)
      | Ok dir \<Rightarrow>
         (let fs1 = ensure_layout dir fs
          in if nd_toml (fs1 dir) \<noteq> None \<and> \<not> force
             then (Err (NodeConfig ''node.toml already exists; pass --force to overwrite''), fs1)
             else (Ok dir, fs1(dir := (fs1 dir)\<lparr>nd_toml := Some (init_doc dir)\<rparr>))))"

text \<open>The check reports whether some role is on; the other command shows the whole.\<close>

definition config_cmd ::
    "(string \<Rightarrow> layer) \<Rightarrow> string option \<Rightarrow> variables \<Rightarrow> string option \<Rightarrow> dirs \<Rightarrow> (node_error, node_config) result" where
  "config_cmd env_value cli_override vars home fs =
     rbind (data_dir cli_override vars home) (\<lambda>dir.
     if nd_toml (fs dir) = None then Err (NodeConfig ''no node.toml; run `arknet init` first'')
     else map_err NodeCommonConfig (config_load env_value (nd_toml (fs dir)) vars))"

definition config_check ::
    "(string \<Rightarrow> layer) \<Rightarrow> string option \<Rightarrow> variables \<Rightarrow> string option \<Rightarrow> dirs \<Rightarrow> (node_error, bool) result" where
  "config_check env_value cli_override vars home fs =
     rbind (config_cmd env_value cli_override vars home fs) (\<lambda>cfg.
       let r = nf_roles cfg in Ok (rs_compute r \<or> rs_router r \<or> rs_validator r \<or> rs_verifier r))"

definition trim_slashes :: "string \<Rightarrow> string" where
  "trim_slashes s = rev (dropWhile (\<lambda>c. c = CHR ''/'') (rev s))"

definition health_endpoint ::
    "(string \<Rightarrow> layer) \<Rightarrow> string option \<Rightarrow> string option \<Rightarrow> variables \<Rightarrow> string option \<Rightarrow> dirs \<Rightarrow> (node_error, string) result" where
  "health_endpoint env_value flag cli_override vars home fs =
     (case flag of
        Some s \<Rightarrow> Ok (trim_slashes s)
      | None \<Rightarrow>
         rbind (data_dir cli_override vars home) (\<lambda>dir.
         rbind (effective_config env_value vars dir fs) (\<lambda>cfg. Ok (''http://'' @ nt_rpc_listen (nf_network cfg)))))"

definition status_endpoint ::
    "(string \<Rightarrow> layer) \<Rightarrow> string option \<Rightarrow> string option \<Rightarrow> variables \<Rightarrow> string option \<Rightarrow> dirs \<Rightarrow> (node_error, string) result" where
  "status_endpoint env_value flag cli_override vars home fs =
     (case flag of
        Some s \<Rightarrow> Ok (trim_slashes s)
      | None \<Rightarrow>
         rbind (data_dir cli_override vars home) (\<lambda>dir.
         rbind (effective_config env_value vars dir fs) (\<lambda>cfg. Ok (''http://'' @ nt_metrics_listen (nf_network cfg)))))"

text \<open>The node that the wallet and the other commands post to unless they are told another.\<close>

definition cli_default_rpc :: string where
  "cli_default_rpc = ''http://127.0.0.1:26657''"

section \<open>Roles\<close>

datatype run_role = RunValidator | RunCompute | RunVerifier

fun role_display :: "run_role \<Rightarrow> string" where
  "role_display RunValidator = ''validator''"
| "role_display RunCompute = ''compute''"
| "role_display RunVerifier = ''verifier''"

definition role_from_str :: "string \<Rightarrow> (node_error, run_role) result" where
  "role_from_str s =
     (let l = map lower_char s
      in if l = ''validator'' then Ok RunValidator
         else if l = ''compute'' then Ok RunCompute
         else if l = ''verifier'' then Ok RunVerifier
         else Err (RoleNotImplemented l))"

datatype role_body = ComputeBody | IdleBody | ValidatorBody | VerifierBody

text \<open>The body that runs until the shutdown, given whether the runtime has a consensus handle and a runner.\<close>

definition scheduler_run :: "run_role \<Rightarrow> bool \<Rightarrow> bool \<Rightarrow> (node_error, role_body) result" where
  "scheduler_run role has_consensus has_compute =
     (case role of
        RunCompute \<Rightarrow> if has_compute then Ok ComputeBody else Ok IdleBody
      | RunValidator \<Rightarrow>
          if has_consensus then Ok ValidatorBody
          else Err (NodeConfig ''validator role requires a ConsensusHandle'')
      | RunVerifier \<Rightarrow>
          if has_consensus then Ok VerifierBody
          else Err (NodeConfig ''verifier role requires a running validator''))"

section \<open>Start\<close>

datatype start_error = StartNode node_error | StartNetwork network_error | StartGenesis genesis_error

record start_env =
  se_ext :: ext
  se_crypto :: crypto_ext
  se_fresh :: "256 word"
  se_version :: string
  se_net :: net_ext
  se_swarm :: swarm_ext
  se_peer_file :: "bytes option"
  se_hex :: "string \<Rightarrow> bytes option"
  se_key_ok :: "bytes \<Rightarrow> bool"
  se_genesis :: "(genesis_error, genesis_config) result"
  se_state :: state
  se_now :: nat
  se_addr_ok :: "string \<Rightarrow> bool"

record started =
  sd_config :: node_config
  sd_network :: network
  sd_engine :: "(engine_config \<times> engine) option"
  sd_body :: role_body

text \<open>The boot of the network and of the engine, and the hand-over to the role.\<close>

definition start_network :: "start_env \<Rightarrow> node_config \<Rightarrow> (start_error, network) result" where
  "start_network E cfg =
     map_err StartNetwork
       (rbind (boot_config (se_net E) (se_version E) (nf_node cfg) (nf_network cfg) (nf_roles cfg)) (\<lambda>(ncfg, hs).
        rbind (network_start (se_net E) (se_swarm E) ncfg (se_peer_file E)) (\<lambda>(net, acts). Ok net)))"

definition start_consensus :: "start_env \<Rightarrow> run_role \<Rightarrow> 256 word \<Rightarrow> (start_error, (engine_config \<times> engine) option) result" where
  "start_consensus E role secret =
     (if role = RunValidator
      then map_err StartGenesis (rbind (se_genesis E) (\<lambda>g.
             rbind (start_validator (se_ext E) (se_hex E) (se_key_ok E) g (word_bytes (kx_public (se_crypto E) secret)) (se_now E) (se_state E))
               (\<lambda>e. Ok (Some e))))
      else Ok None)"

definition start_node ::
    "(string \<Rightarrow> layer) \<Rightarrow> start_env \<Rightarrow> string \<Rightarrow> string option \<Rightarrow> variables \<Rightarrow> string option \<Rightarrow> dirs \<Rightarrow>
     (start_error, started) result \<times> dirs" where
  "start_node env_value E role_arg cli_override vars home fs =
     (case rbind (role_from_str role_arg) (\<lambda>role. rbind (data_dir cli_override vars home) (\<lambda>dir. Ok (role, dir))) of
        Err e \<Rightarrow> (Err (StartNode e), fs)
      | Panic \<Rightarrow> (Panic, fs)
      | Ok (role, dir) \<Rightarrow>
         (let fs1 = ensure_layout dir fs
          in case effective_config env_value vars dir fs1 of
               Err e \<Rightarrow> (Err (StartNode e), fs1)
             | Panic \<Rightarrow> (Panic, fs1)
             | Ok cfg \<Rightarrow>
                (case load_or_generate_keypair (se_crypto E) (se_fresh E) (nd_key (fs1 dir)) of
                   (key, key_file) \<Rightarrow>
                    (let fs2 = fs1(dir := (fs1 dir)\<lparr>nd_key := key_file\<rparr>)
                     in (rbind (map_err StartNode key) (\<lambda>secret.
                         rbind (start_network E cfg) (\<lambda>net.
                         rbind (start_consensus E role secret) (\<lambda>engine.
                           if \<not> se_addr_ok E (nt_metrics_listen (nf_network cfg))
                           then Err (StartNode (NodeConfig ''metrics_listen''))
                           else if \<not> se_addr_ok E (nt_rpc_listen (nf_network cfg))
                           then Err (StartNode (NodeConfig ''rpc_listen''))
                           else rbind (map_err StartNode (scheduler_run role (engine \<noteq> None) (role = RunCompute))) (\<lambda>body.
                             Ok \<lparr>sd_config = cfg, sd_network = net, sd_engine = engine, sd_body = body\<rparr>)))), fs2)))))"

section \<open>Reading what was written\<close>

lemma field_at_append: "field_at (A @ B) p = (case field_at B p of Some v \<Rightarrow> Some v | None \<Rightarrow> field_at A p)"
  by (simp add: field_at_def map_add_def split: option.split)

lemma field_at_None_iff: "field_at L p = None \<longleftrightarrow> p \<notin> fst ` set L"
  by (simp add: field_at_def map_of_eq_None_iff)

lemma field_at_Nil [simp]: "field_at [] p = None"
  by (simp add: field_at_def)

lemma field_at_Cons: "field_at ((q, v) # L) p = (case field_at L p of Some w \<Rightarrow> Some w | None \<Rightarrow> if p = q then Some v else None)"
  using field_at_append[of "[(q, v)]" L p] by (simp add: field_at_def split: option.splits)

lemma field_at_opt_leaf [simp]: "field_at (opt_leaf q v) p = (if p = q then map_option LStr v else None)"
  by (simp add: opt_leaf_def field_at_def split: option.split)

lemma field_at_other: "\<forall>x \<in> set L. hd (fst x) \<noteq> s \<Longrightarrow> field_at L (s # q) = None"
  by (force simp: field_at_def map_of_eq_None_iff)

lemmas layer_defs = node_layer_def roles_layer_def resources_layer_def operator_layer_def network_layer_def
  telemetry_layer_def tee_layer_def da_layer_of_def

lemma other_sections:
  "s \<noteq> ''node'' \<Longrightarrow> field_at (node_layer n) (s # q) = None"
  "s \<noteq> ''roles'' \<Longrightarrow> field_at (roles_layer r) (s # q) = None"
  "s \<noteq> ''resources'' \<Longrightarrow> field_at (resources_layer rs) (s # q) = None"
  "s \<noteq> ''operator'' \<Longrightarrow> field_at (operator_layer o1) (s # q) = None"
  "s \<noteq> ''network'' \<Longrightarrow> field_at (network_layer w) (s # q) = None"
  "s \<noteq> ''telemetry'' \<Longrightarrow> field_at (telemetry_layer t) (s # q) = None"
  "s \<noteq> ''tee'' \<Longrightarrow> field_at (tee_layer e) (s # q) = None"
  "s \<noteq> ''da'' \<Longrightarrow> field_at (da_layer_of d) (s # q) = None"
  by (rule field_at_other; auto simp: layer_defs Let_def opt_leaf_def split: option.splits)+

lemma section_at:
  "field_at (config_layer c) (''node'' # q) = field_at (node_layer (nf_node c)) (''node'' # q)"
  "field_at (config_layer c) (''roles'' # q) = field_at (roles_layer (nf_roles c)) (''roles'' # q)"
  "field_at (config_layer c) (''resources'' # q) = field_at (resources_layer (nf_resources c)) (''resources'' # q)"
  "field_at (config_layer c) (''operator'' # q) = field_at (operator_layer (nf_operator c)) (''operator'' # q)"
  "field_at (config_layer c) (''network'' # q) = field_at (network_layer (nf_network c)) (''network'' # q)"
  "field_at (config_layer c) (''telemetry'' # q) = field_at (telemetry_layer (nf_telemetry c)) (''telemetry'' # q)"
  "field_at (config_layer c) (''tee'' # q) = field_at (tee_layer (nf_tee c)) (''tee'' # q)"
  "field_at (config_layer c) (''da'' # q) = field_at (da_layer_of (nf_da c)) (''da'' # q)"
  by (simp_all add: config_layer_def field_at_append other_sections split: option.split)

lemma all_some_map: "(\<And>x. x \<in> set xs \<Longrightarrow> f (g x) = Some x) \<Longrightarrow> all_some f (map g xs) = Some xs"
  by (induction xs) simp_all

lemma all_some_leaves [simp]:
  "all_some as_str (map LStr xs) = Some xs"
  "\<forall>n \<in> set ns. n < 2 ^ 32 \<Longrightarrow> all_some as_u32 (map num_leaf ns) = Some ns"
  by (auto intro!: all_some_map simp: num_leaf_def)

lemma as_u32_num [simp]: "n < 2 ^ 32 \<Longrightarrow> as_u32 (num_leaf n) = Some n"
  by (simp add: num_leaf_def)

text \<open>A configuration whose numbers fit their fields.\<close>

definition config_ok :: "node_config \<Rightarrow> bool" where
  "config_ok c \<longleftrightarrow>
     (let p = re_compute (nf_resources c); o1 = re_router (nf_resources c) in
      list_all (\<lambda>n. n < 2 ^ 32) (cp_gpu_devices p @ [cp_max_vram_gb p, cp_max_concurrent_jobs p, ro_cpu_percent o1,
        ro_max_concurrent_routes o1, ro_bandwidth_mbps o1, vf_max_verifications_per_hour (re_verifier (nf_resources c)),
        va_gossip_peers_max (re_validator (nf_resources c)), nt_max_inbound_peers (nf_network c),
        nt_max_outbound_peers (nf_network c)]))"

lemma case_option_same [simp]: "(case x of None \<Rightarrow> None | Some v \<Rightarrow> Some v) = x"
  by (cases x) simp_all

lemma read_opt:
  "field_at L p = map_option LStr v \<Longrightarrow> read_field L p as_opt None = Ok v"
  "field_at L p = (case v of None \<Rightarrow> None | Some x \<Rightarrow> Some (LStr x)) \<Longrightarrow> read_field L p as_opt None = Ok v"
  by (cases v; simp add: read_field_def as_opt_def)+

lemma read_some:
  "field_at L p = Some l \<Longrightarrow> f l = Some x \<Longrightarrow> read_field L p f d = Ok x"
  by (simp add: read_field_def)

lemma known_paths [simp]: "known_path [s, k] \<longleftrightarrow> (case map_of field_table [s] of Some ks \<Rightarrow> k \<in> set ks | None \<Rightarrow> s = ''da'')"
  "known_path [s, k, l] \<longleftrightarrow> (case map_of field_table [s, k] of Some ks \<Rightarrow> l \<in> set ks | None \<Rightarrow> False)"
  by (simp_all add: known_path_def split: option.split)

lemma known_opt: "list_all (known_path \<circ> fst) (opt_leaf p v) \<longleftrightarrow> v = None \<or> known_path p"
  by (simp add: opt_leaf_def split: option.split)

lemma known_sections:
  "list_all (known_path \<circ> fst) (node_layer n)" "list_all (known_path \<circ> fst) (roles_layer r)"
  "list_all (known_path \<circ> fst) (resources_layer rs)" "list_all (known_path \<circ> fst) (operator_layer o1)"
  "list_all (known_path \<circ> fst) (network_layer w)" "list_all (known_path \<circ> fst) (telemetry_layer t)"
  "list_all (known_path \<circ> fst) (tee_layer e)" "list_all (known_path \<circ> fst) (da_layer_of d)"
  by (simp_all add: layer_defs Let_def known_opt field_table_def)

lemma known_config: "list_all (known_path \<circ> fst) (config_layer c)"
  by (simp add: config_layer_def known_sections)

text \<open>The configuration that the command shows, read again, is the configuration: nothing is lost, and no field
  is unknown.\<close>

lemma read_sections:
  "read_node (config_layer c) = Ok (nf_node c)"
  "read_roles (config_layer c) = Ok (nf_roles c)"
  "read_operator (config_layer c) = Ok (nf_operator c)"
  "read_telemetry (config_layer c) = Ok (nf_telemetry c)"
  "read_tee (config_layer c) = Ok (nf_tee c)"
  "read_da (config_layer c) = Ok (nf_da c)"
  by (simp_all add: read_node_def read_roles_def read_operator_def read_telemetry_def read_tee_def read_da_def Let_def
      section_at read_opt read_some layer_defs field_at_append field_at_Cons cong: option.case_cong)

lemma read_resource_sections:
  assumes "config_ok c"
  shows "read_compute (config_layer c) = Ok (re_compute (nf_resources c))"
    "read_resources (config_layer c) = Ok (nf_resources c)"
    "read_network (config_layer c) = Ok (nf_network c)"
proof -
  note bounds = assms[unfolded config_ok_def Let_def list_all_append list_all_iff[of _ "cp_gpu_devices _"], simplified]
  note at = section_at layer_defs field_at_append field_at_Cons Let_def
  show c: "read_compute (config_layer c) = Ok (re_compute (nf_resources c))"
    using bounds by (simp add: read_compute_def at read_some cong: option.case_cong)
  show "read_resources (config_layer c) = Ok (nf_resources c)"
    using bounds by (simp add: read_resources_def c at read_some read_opt cong: option.case_cong)
  show "read_network (config_layer c) = Ok (nf_network c)"
    using bounds by (simp add: read_network_def at read_some read_opt cong: option.case_cong)
qed

lemma extract_config_layer: "config_ok c \<Longrightarrow> extract_config (config_layer c) = Ok c"
  by (simp add: extract_config_def known_config read_sections read_resource_sections)

section \<open>Precedence\<close>

lemma all_some_leaf:
  "all_some as_str vs = Some xs \<Longrightarrow> vs = map LStr xs" "all_some as_u32 vs = Some ns \<Longrightarrow> vs = map num_leaf ns"
proof (induction vs arbitrary: xs ns)
  case (Cons v vs)
  { case 1
    with Cons.IH(1) show ?case by (cases v) (auto split: option.splits)
  next
    case 2
    with Cons.IH(2) show ?case by (cases v) (auto simp: num_leaf_def split: option.splits if_splits) }
qed simp_all

lemma read_leaf:
  assumes "field_at L p = Some v"
  shows "read_field L p as_str d1 = Ok x1 \<Longrightarrow> v = LStr x1" "read_field L p as_bool d2 = Ok x2 \<Longrightarrow> v = LBool x2"
    "read_field L p as_u32 d3 = Ok x3 \<Longrightarrow> v = num_leaf x3"
    "read_field L p (as_list as_str) d4 = Ok x4 \<Longrightarrow> v = LArr (map LStr x4)"
    "read_field L p (as_list as_u32) d5 = Ok x5 \<Longrightarrow> v = LArr (map num_leaf x5)"
    "read_field L p as_opt d6 = Ok x6 \<Longrightarrow> map_option LStr x6 = Some v"
  using assms by (cases v; auto simp: read_field_def num_leaf_def as_opt_def all_some_leaf split: option.splits if_splits)+

lemma kept_node:
  assumes "read_node L = Ok x" and "field_at L [''node'', k] = Some v" and "k \<in> {''name'', ''network'', ''data_dir'', ''log_level''}"
  shows "field_at (node_layer x) [''node'', k] = Some v"
  using assms(3) assms(1,2)
  by (elim insertE emptyE; simp add: read_node_def rbind_Ok_iff node_layer_def Let_def field_at_append field_at_Cons
        cong: option.case_cong) (auto dest: read_leaf)

lemma kept_roles:
  assumes "read_roles L = Ok x" and "field_at L [''roles'', k] = Some v" and "k \<in> {''validator'', ''router'', ''compute'', ''verifier''}"
  shows "field_at (roles_layer x) [''roles'', k] = Some v"
  using assms(3) assms(1,2)
  by (elim insertE emptyE; simp add: read_roles_def rbind_Ok_iff roles_layer_def Let_def field_at_append field_at_Cons
        cong: option.case_cong) (auto dest: read_leaf)

lemma kept_operator:
  assumes "read_operator L = Ok x" and "field_at L [''operator'', k] = Some v" and "k \<in> {''payout_address'', ''preferred_region'', ''min_reward_per_job'', ''auto_model_pull'', ''auto_pool_rebalance''}"
  shows "field_at (operator_layer x) [''operator'', k] = Some v"
  using assms(3) assms(1,2)
  by (elim insertE emptyE; simp add: read_operator_def rbind_Ok_iff operator_layer_def Let_def field_at_append field_at_Cons
        cong: option.case_cong) (auto dest: read_leaf)

lemma kept_network:
  assumes "read_network L = Ok x" and "field_at L [''network'', k] = Some v" and "k \<in> {''p2p_listen'', ''rpc_listen'', ''metrics_listen'', ''bootstrap_peers'', ''external_address'', ''max_inbound_peers'', ''max_outbound_peers''}"
  shows "field_at (network_layer x) [''network'', k] = Some v"
  using assms(3) assms(1,2)
  by (elim insertE emptyE; simp add: read_network_def rbind_Ok_iff network_layer_def Let_def field_at_append field_at_Cons
        cong: option.case_cong) (auto dest: read_leaf)

lemma kept_telemetry:
  assumes "read_telemetry L = Ok x" and "field_at L [''telemetry'', k] = Some v" and "k \<in> {''prometheus_enabled'', ''otlp_endpoint'', ''sentry_dsn''}"
  shows "field_at (telemetry_layer x) [''telemetry'', k] = Some v"
  using assms(3) assms(1,2)
  by (elim insertE emptyE; simp add: read_telemetry_def rbind_Ok_iff telemetry_layer_def Let_def field_at_append field_at_Cons
        cong: option.case_cong) (auto dest: read_leaf)

lemma kept_tee:
  assumes "read_tee L = Ok x" and "field_at L [''tee'', k] = Some v" and "k \<in> {''enabled'', ''platform'', ''enclave_key_path''}"
  shows "field_at (tee_layer x) [''tee'', k] = Some v"
  using assms(3) assms(1,2)
  by (elim insertE emptyE; simp add: read_tee_def rbind_Ok_iff tee_layer_def Let_def field_at_append field_at_Cons
        cong: option.case_cong) (auto dest: read_leaf)

lemma kept_da:
  assumes "read_da L = Ok x" and "field_at L [''da'', k] = Some v" and "k \<in> {''layer'', ''endpoint'', ''namespace'', ''auth_token''}"
  shows "field_at (da_layer_of x) [''da'', k] = Some v"
  using assms(3) assms(1,2)
  by (elim insertE emptyE; simp add: read_da_def rbind_Ok_iff da_layer_of_def Let_def field_at_append field_at_Cons
        cong: option.case_cong) (auto dest: read_leaf)

lemma kept_compute:
  assumes "read_resources L = Ok x" and "field_at L [''resources'', ''compute'', k] = Some v" and "k \<in> {''gpu_devices'', ''max_vram_gb'', ''max_concurrent_jobs'', ''loaded_models'', ''model_swap_enabled''}"
  shows "field_at (resources_layer x) [''resources'', ''compute'', k] = Some v"
  using assms(3) assms(1,2)
  by (elim insertE emptyE; simp add: read_resources_def read_compute_def rbind_Ok_iff resources_layer_def Let_def field_at_append field_at_Cons
        cong: option.case_cong) (auto dest: read_leaf)

lemma kept_router:
  assumes "read_resources L = Ok x" and "field_at L [''resources'', ''router'', k] = Some v" and "k \<in> {''cpu_percent'', ''max_concurrent_routes'', ''bandwidth_mbps''}"
  shows "field_at (resources_layer x) [''resources'', ''router'', k] = Some v"
  using assms(3) assms(1,2)
  by (elim insertE emptyE; simp add: read_resources_def read_compute_def rbind_Ok_iff resources_layer_def Let_def field_at_append field_at_Cons
        cong: option.case_cong) (auto dest: read_leaf)

lemma kept_verifier:
  assumes "read_resources L = Ok x" and "field_at L [''resources'', ''verifier'', k] = Some v" and "k \<in> {''gpu_share_with_compute'', ''max_verifications_per_hour''}"
  shows "field_at (resources_layer x) [''resources'', ''verifier'', k] = Some v"
  using assms(3) assms(1,2)
  by (elim insertE emptyE; simp add: read_resources_def read_compute_def rbind_Ok_iff resources_layer_def Let_def field_at_append field_at_Cons
        cong: option.case_cong) (auto dest: read_leaf)

lemma kept_validator:
  assumes "read_resources L = Ok x" and "field_at L [''resources'', ''validator'', k] = Some v" and "k \<in> {''state_db_path'', ''gossip_peers_max'', ''remote_signer''}"
  shows "field_at (resources_layer x) [''resources'', ''validator'', k] = Some v"
  using assms(3) assms(1,2)
  by (elim insertE emptyE; simp add: read_resources_def read_compute_def rbind_Ok_iff resources_layer_def Let_def field_at_append field_at_Cons
        cong: option.case_cong) (auto dest: read_leaf)

text \<open>The fields that the configuration has.\<close>

definition declared :: "string list \<Rightarrow> bool" where
  "declared p \<longleftrightarrow> p \<noteq> [] \<and>
     (case map_of (field_table @ [([''da''], [''layer'', ''endpoint'', ''namespace'', ''auth_token''])]) (butlast p) of
        Some ks \<Rightarrow> last p \<in> set ks | None \<Rightarrow> False)"

lemma extract_parts:
  assumes "extract_config L = Ok c"
  shows "list_all (known_path \<circ> fst) L" "read_node L = Ok (nf_node c)" "read_roles L = Ok (nf_roles c)"
    "read_resources L = Ok (nf_resources c)" "read_operator L = Ok (nf_operator c)" "read_network L = Ok (nf_network c)"
    "read_telemetry L = Ok (nf_telemetry c)" "read_tee L = Ok (nf_tee c)" "read_da L = Ok (nf_da c)"
  using assms by (auto simp: extract_config_def rbind_Ok_iff split: if_splits)

lemma kept_field:
  assumes "extract_config L = Ok c" and "declared p" and "field_at L p = Some v"
  shows "field_at (config_layer c) p = Some v"
proof -
  note e = extract_parts[OF assms(1)]
  have p: "p = butlast p @ [last p]" using assms(2) by (simp add: declared_def)
  obtain s k where sk: "p = s @ [k]" using p by blast
  have "(s = [''node''] \<and> k \<in> {''name'', ''network'', ''data_dir'', ''log_level''}) \<or>
    (s = [''roles''] \<and> k \<in> {''validator'', ''router'', ''compute'', ''verifier''}) \<or>
    (s = [''resources'', ''compute''] \<and> k \<in> {''gpu_devices'', ''max_vram_gb'', ''max_concurrent_jobs'', ''loaded_models'', ''model_swap_enabled''}) \<or>
    (s = [''resources'', ''router''] \<and> k \<in> {''cpu_percent'', ''max_concurrent_routes'', ''bandwidth_mbps''}) \<or>
    (s = [''resources'', ''verifier''] \<and> k \<in> {''gpu_share_with_compute'', ''max_verifications_per_hour''}) \<or>
    (s = [''resources'', ''validator''] \<and> k \<in> {''state_db_path'', ''gossip_peers_max'', ''remote_signer''}) \<or>
    (s = [''operator''] \<and> k \<in> {''payout_address'', ''preferred_region'', ''min_reward_per_job'', ''auto_model_pull'', ''auto_pool_rebalance''}) \<or>
    (s = [''network''] \<and> k \<in> {''p2p_listen'', ''rpc_listen'', ''metrics_listen'', ''bootstrap_peers'', ''external_address'', ''max_inbound_peers'', ''max_outbound_peers''}) \<or>
    (s = [''telemetry''] \<and> k \<in> {''prometheus_enabled'', ''otlp_endpoint'', ''sentry_dsn''}) \<or>
    (s = [''tee''] \<and> k \<in> {''enabled'', ''platform'', ''enclave_key_path''}) \<or>
    (s = [''da''] \<and> k \<in> {''layer'', ''endpoint'', ''namespace'', ''auth_token''})"
    using assms(2) unfolding declared_def sk butlast_snoc last_snoc field_table_def
    by (simp split: if_splits)
  then show ?thesis
    using assms(3) unfolding sk
    by (elim disjE conjE; hypsubst; simp only: append_Cons append_Nil section_at)
      (rule kept_node[OF e(2)] kept_roles[OF e(3)] kept_compute[OF e(4)] kept_router[OF e(4)] kept_verifier[OF e(4)]
        kept_validator[OF e(4)] kept_operator[OF e(5)] kept_network[OF e(6)] kept_telemetry[OF e(7)] kept_tee[OF e(8)]
        kept_da[OF e(9)]; assumption)+
qed

text \<open>A field takes its value from a variable of the environment if one names it, otherwise from the file,
  otherwise from the defaults, for every field of every section.\<close>

theorem later_layers_win:
  assumes "config_load env_value (Some (Some l)) vars = Ok c" and "declared p"
  shows "(\<forall>v. field_at (env_layer env_value vars) p = Some v \<longrightarrow> field_at (config_layer c) p = Some v) \<and>
    (\<forall>v. field_at (env_layer env_value vars) p = None \<longrightarrow> field_at l p = Some v \<longrightarrow> field_at (config_layer c) p = Some v) \<and>
    (\<forall>v. field_at (env_layer env_value vars) p = None \<longrightarrow> field_at l p = None \<longrightarrow>
       field_at (config_layer node_config_default) p = Some v \<longrightarrow> field_at (config_layer c) p = Some v)"
  using assms(1) kept_field[OF _ assms(2)] by (auto simp: config_load_def field_at_append)

section \<open>Stray variables\<close>

lemma stray_variable:
  assumes "(name, v) \<in> set vars" and "is_config_var name" and "(q, l) \<in> set (env_value v)" and "\<not> known_path (var_path name @ q)"
  shows "\<exists>e. config_load env_value file vars = Err e" "\<exists>e. config_load_env_only env_value vars = Err e"
proof -
  have "(var_path name @ q, l) \<in> set (env_layer env_value vars)" using assms(1-3) by (force simp: env_layer_def)
  then have "\<not> list_all (known_path \<circ> fst) (A @ env_layer env_value vars)" for A
    using assms(4) by (force simp: list_all_iff)
  then have "extract_config (A @ env_layer env_value vars) = Err ''unknown field''" for A by (simp add: extract_config_def)
  from this[of "config_layer node_config_default"] this[of "config_layer node_config_default @ L" for L]
  show "\<exists>e. config_load env_value file vars = Err e" "\<exists>e. config_load_env_only env_value vars = Err e"
    by (auto simp: config_load_def config_load_env_only_def split: option.split)
qed

lemma home_unknown: "\<not> known_path (var_path ''ARKNET_HOME'' @ q)" "is_config_var ''ARKNET_HOME''"
proof -
  have "var_path ''ARKNET_HOME'' = [''home'']" by code_simp
  then show "\<not> known_path (var_path ''ARKNET_HOME'' @ q)" by (cases q) (auto simp: known_path_def field_table_def split: if_splits)
  show "is_config_var ''ARKNET_HOME''" by code_simp
qed

lemma data_dir_variable:
  assumes "map_of vars ENV_DATA_DIR = Some v" and "env_value v \<noteq> []"
  shows "\<exists>e. config_load env_value file vars = Err e" "\<exists>e. config_load_env_only env_value vars = Err e"
proof -
  from assms(2) obtain q l where "(q, l) \<in> set (env_value v)" by (metis list.set_intros(1) neq_Nil_conv surj_pair)
  moreover have "(''ARKNET_HOME'', v) \<in> set vars" using assms(1) by (simp add: ENV_DATA_DIR_def map_of_SomeD)
  ultimately show "\<exists>e. config_load env_value file vars = Err e" "\<exists>e. config_load_env_only env_value vars = Err e"
    using stray_variable home_unknown by blast+
qed

text \<open>C39: The variable that chooses the data directory has the prefix of the variables of the configuration,
  which has no such field: as soon as it is set, to whatever text that is read as a value, no command that
  loads the configuration gets one. The directory is chosen and created, but the node does not start, the
  check fails, and health and status find no endpoint.\<close>

theorem data_dir_variable_stops_node:
  assumes "map_of vars ENV_DATA_DIR = Some v" and "env_value v \<noteq> []"
  shows "(\<forall>sd. fst (start_node env_value E role_arg cli_override vars home fs) \<noteq> Ok sd) \<and>
    (\<forall>b. config_check env_value cli_override vars home fs \<noteq> Ok b) \<and>
    (\<forall>u. health_endpoint env_value None cli_override vars home fs \<noteq> Ok u) \<and>
    (\<forall>u. status_endpoint env_value None cli_override vars home fs \<noteq> Ok u) \<and>
    (v \<noteq> [] \<longrightarrow> run_init True None vars home fs =
       (Ok v, (ensure_layout v fs)(v := (ensure_layout v fs v)\<lparr>nd_toml := Some (init_doc v)\<rparr>)))"
proof -
  have bad: "\<exists>e. config_load env_value f vars = Err e" "\<exists>e. config_load_env_only env_value vars = Err e" for f
    by (rule data_dir_variable[where env_value = env_value, OF assms])+
  then have eff: "\<exists>e. effective_config env_value vars dir fs' = Err e" for dir fs'
  proof -
    obtain e1 e2 where "config_load env_value (nd_toml (fs' dir)) vars = Err e1" "config_load_env_only env_value vars = Err e2"
      using bad by blast
    then show ?thesis by (simp add: effective_config_def)
  qed
  then have eff_Ok: "effective_config env_value vars dir fs' = Ok cfg \<Longrightarrow> False" for dir fs' cfg by (metis result.distinct(1))
  have start: "fst (start_node env_value E role_arg cli_override vars home fs) \<noteq> Ok sd" for sd
    by (auto simp: start_node_def Let_def split: result.splits prod.splits dest: eff_Ok)
  have no_load: "config_load env_value f vars = Ok cfg \<Longrightarrow> False" for f cfg using bad(1)[of f] by auto
  have check: "config_check env_value cli_override vars home fs \<noteq> Ok b" for b
    by (auto simp: config_check_def config_cmd_def rbind_Ok_iff map_err_Ok_iff split: if_splits dest: no_load)
  have ends: "health_endpoint env_value None cli_override vars home fs \<noteq> Ok u"
    "status_endpoint env_value None cli_override vars home fs \<noteq> Ok u" for u
    by (auto simp: health_endpoint_def status_endpoint_def rbind_Ok_iff dest: eff_Ok)
  have "run_init True None vars home fs =
       (Ok v, (ensure_layout v fs)(v := (ensure_layout v fs v)\<lparr>nd_toml := Some (init_doc v)\<rparr>))" if "v \<noteq> []"
    using that assms(1) by (simp add: run_init_def data_dir_def Let_def)
  with start check ends show ?thesis by blast
qed

section \<open>The file that is generated\<close>

lemma extract_congruent:
  assumes "\<And>p. field_at L p = field_at L' p" and "list_all (known_path \<circ> fst) L" and "list_all (known_path \<circ> fst) L'"
  shows "extract_config L = extract_config L'"
proof -
  have "read_node L = read_node L'" "read_roles L = read_roles L'" "read_compute L = read_compute L'"
    "read_operator L = read_operator L'" "read_network L = read_network L'" "read_telemetry L = read_telemetry L'"
    "read_tee L = read_tee L'" "read_da L = read_da L'"
    unfolding read_node_def read_roles_def read_compute_def read_operator_def read_network_def read_telemetry_def
      read_tee_def read_da_def read_field_def assms(1) by (rule refl)+
  moreover from this have "read_resources L = read_resources L'"
    unfolding read_resources_def read_field_def assms(1) by simp
  ultimately show ?thesis using assms(2,3) by (simp add: extract_config_def)
qed

text \<open>Over the defaults, a layer that holds a value at each of their paths hides them.\<close>

lemma defaults_hidden:
  assumes "\<And>p. field_at (config_layer node_config_default) p \<noteq> None \<Longrightarrow> field_at L p \<noteq> None"
  shows "field_at (config_layer node_config_default @ L) p = field_at L p"
  using assms[of p]
  by (cases "field_at L p"; cases "field_at (config_layer node_config_default) p") (simp_all add: field_at_append)

lemma config_layer_covers:
  "field_at (config_layer node_config_default) p \<noteq> None \<Longrightarrow> field_at (config_layer c) p \<noteq> None"
proof -
  have "fst ` set (config_layer node_config_default) \<subseteq> fst ` set (config_layer c)"
    by (simp add: config_layer_def layer_defs Let_def node_config_default_def network_section_default_def opt_leaf_def image_Un)
  then show "field_at (config_layer node_config_default) p \<noteq> None \<Longrightarrow> field_at (config_layer c) p \<noteq> None"
    unfolding field_at_None_iff by blast
qed

text \<open>C38: A configuration that the node shows, written to its file, loads to itself, if no variable speaks for
  it: every section, every optional field and every list survives.\<close>

theorem shown_config_reloads:
  assumes "config_ok c" and "\<forall>(name, v) \<in> set vars. \<not> is_config_var name"
  shows "config_load env_value (Some (Some (config_layer c))) vars = Ok c"
proof -
  have "env_layer env_value vars = []" using assms(2) by (auto simp: env_layer_def)
  then have "config_load env_value (Some (Some (config_layer c))) vars =
      extract_config (config_layer node_config_default @ config_layer c)" by (simp add: config_load_def)
  also have "\<dots> = extract_config (config_layer c)"
    by (rule extract_congruent) (simp_all add: defaults_hidden[OF config_layer_covers] known_config)
  also have "\<dots> = Ok c" by (rule extract_config_layer[OF assms(1)])
  finally show ?thesis .
qed

definition init_config :: "string \<Rightarrow> node_config" where
  "init_config dir = node_config_default
     \<lparr>nf_node := node_section_default\<lparr>ns_data_dir := dir, ns_log_level := ''info,llama=warn''\<rparr>,
      nf_roles := \<lparr>rs_validator = False, rs_router = False, rs_compute = True, rs_verifier = False\<rparr>,
      nf_resources := (nf_resources node_config_default)
        \<lparr>re_compute := (re_compute (nf_resources node_config_default))\<lparr>cp_max_concurrent_jobs := 1\<rparr>\<rparr>,
      nf_network := network_section_default\<lparr>nt_rpc_listen := ''127.0.0.1:8080''\<rparr>,
      nf_telemetry := (nf_telemetry node_config_default)\<lparr>tm_prometheus_enabled := True\<rparr>\<rparr>"

lemma init_layer_reads:
  "config_load env_value (Some (Some (init_layer dir))) [] = Ok (init_config dir)"
proof -
  let ?D = "config_layer node_config_default" and ?c = "init_config dir"
  let ?L = "?D @ init_layer dir"
  have known: "list_all (known_path \<circ> fst) (init_layer dir)" by (simp add: init_layer_def field_table_def)
  define M where "M = map_of (rev (init_layer dir))"
  have at: "field_at ?L p = (case M p of Some v \<Rightarrow> Some v | None \<Rightarrow> field_at ?D p)" for p
    by (simp add: field_at_append field_at_def[of "init_layer dir"] M_def)
  note defs = at read_field_def M_def[unfolded init_layer_def] init_config_def as_opt_def Let_def
  note default_at = section_at layer_defs field_at_append field_at_Cons node_config_default_def network_section_default_def
    node_section_default_def num_leaf_def Let_def
  have "read_node ?L = Ok (nf_node ?c)" by (simp add: read_node_def defs node_section_default_def)
  moreover have "read_roles ?L = Ok (nf_roles ?c)" by (simp add: read_roles_def defs)
  moreover have "read_resources ?L = Ok (nf_resources ?c)"
    by (simp add: read_resources_def read_compute_def defs) (simp add: default_at)
  moreover have "read_operator ?L = Ok (nf_operator ?c)" by (simp add: read_operator_def defs) (simp add: default_at)
  moreover have "read_network ?L = Ok (nf_network ?c)" by (simp add: read_network_def defs) (simp add: default_at)
  moreover have "read_telemetry ?L = Ok (nf_telemetry ?c)" by (simp add: read_telemetry_def defs) (simp add: default_at)
  moreover have "read_tee ?L = Ok (nf_tee ?c)" by (simp add: read_tee_def defs) (simp add: default_at)
  moreover have "read_da ?L = Ok (nf_da ?c)" by (simp add: read_da_def defs) (simp add: default_at)
  ultimately show ?thesis
    by (simp add: config_load_def env_layer_def extract_config_def known known_config)
qed

text \<open>The file that is generated can be read if and only if the data directory can stand in a literal string: a
  quote in its name makes a file that no command can read. Otherwise, if no variable speaks, the
  configuration is the default one but for the directory, the log filter, the role of computing, one job, the
  metrics and the port of the RPC, so that the wallet and the other commands, which post to the default port
  of the configuration, miss the node; and a second generation is refused and changes nothing.\<close>

theorem generated_config_loads:
  assumes "run_init force cli_override vars home fs = (Ok dir, fs')" and "\<forall>(name, v) \<in> set vars. \<not> is_config_var name"
  shows "((\<exists>c. config_cmd env_value cli_override vars home fs' = Ok c) \<longleftrightarrow> literal_ok dir) \<and>
    (literal_ok dir \<longrightarrow> config_cmd env_value cli_override vars home fs' = Ok (init_config dir) \<and>
       config_check env_value cli_override vars home fs' = Ok True \<and>
       health_endpoint env_value None cli_override vars home fs' = Ok ''http://127.0.0.1:8080'' \<and>
       cli_default_rpc = ''http://'' @ nt_rpc_listen (nf_network node_config_default) \<and>
       nt_rpc_listen (nf_network node_config_default) \<noteq> nt_rpc_listen (nf_network (init_config dir))) \<and>
    (\<exists>e. run_init False cli_override vars home fs' = (Err e, fs'))"
proof -
  have d: "data_dir cli_override vars home = Ok dir" and t: "nd_toml (fs' dir) = Some (init_doc dir)" and l: "nd_layout (fs' dir)"
    using assms(1) by (auto simp: run_init_def ensure_layout_def Let_def split: result.splits if_splits)
  have v: "env_layer env_value vars = []" using assms(2) by (auto simp: env_layer_def)
  have load: "config_load env_value (Some (init_doc dir)) vars = (if literal_ok dir then Ok (init_config dir) else Err ''toml'')"
  proof -
    have "extract_config (config_layer node_config_default @ init_layer dir) = Ok (init_config dir)"
      using init_layer_reads[of env_value dir] by (simp add: config_load_def env_layer_def)
    then show ?thesis by (simp add: config_load_def init_doc_def v)
  qed
  have same: "ensure_layout dir fs' = fs'" using l by (simp add: ensure_layout_def fun_eq_iff)
  have again: "\<exists>e. run_init False cli_override vars home fs' = (Err e, fs')"
    by (simp add: run_init_def d same t Let_def)
  have cmd: "config_cmd env_value cli_override vars home fs' = map_err NodeCommonConfig (config_load env_value (Some (init_doc dir)) vars)"
    by (simp add: config_cmd_def d t)
  show ?thesis
    using again
    by (simp add: cmd load config_check_def health_endpoint_def effective_config_def d t cli_default_rpc_def Let_def)
      (simp add: init_config_def node_config_default_def network_section_default_def)
qed

section \<open>Roles that start\<close>

lemma role_roundtrip: "role_from_str (role_display r) = Ok r"
  by (cases r) (simp_all add: role_from_str_def lower_char_def less_eq_char_def)

text \<open>C37: A start that reaches the body of a role is that of a computing node, which then has no consensus engine,
  or of a validator with its engine. A verifier never starts: its body wants the engine, which only the start
  of a validator boots, so the command fails after the network is up, whatever the configuration says; and
  which roles the configuration turns on has no influence.\<close>

theorem verifier_never_starts:
  assumes "start_node env_value E role_arg cli_override vars home fs = (res, fs')"
  shows "(\<forall>sd. res = Ok sd \<longrightarrow>
      (role_from_str role_arg = Ok RunCompute \<and> sd_body sd = ComputeBody \<and> sd_engine sd = None) \<or>
      (role_from_str role_arg = Ok RunValidator \<and> sd_body sd = ValidatorBody \<and> sd_engine sd \<noteq> None)) \<and>
    (role_from_str role_arg = Ok RunVerifier \<longrightarrow> (\<forall>sd. res \<noteq> Ok sd))"
proof -
  have "(role_from_str role_arg = Ok RunCompute \<and> sd_body sd = ComputeBody \<and> sd_engine sd = None) \<or>
      (role_from_str role_arg = Ok RunValidator \<and> sd_body sd = ValidatorBody \<and> sd_engine sd \<noteq> None)" if ok: "res = Ok sd" for sd
  proof -
    obtain role dir where r: "role_from_str role_arg = Ok role" "data_dir cli_override vars home = Ok dir"
      using assms ok by (auto simp: start_node_def rbind_Ok_iff split: result.splits)
    from assms ok r obtain engine secret where "start_consensus E role secret = Ok engine" "sd_engine sd = engine"
      "scheduler_run role (engine \<noteq> None) (role = RunCompute) = Ok (sd_body sd)"
      by (auto simp: start_node_def Let_def rbind_Ok_iff map_err_Ok_iff split: result.splits prod.splits if_splits)
    with r(1) show ?thesis
      by (cases role) (auto simp: start_consensus_def scheduler_run_def rbind_Ok_iff map_err_Ok_iff split: if_splits)
  qed
  then show ?thesis by fastforce
qed

section \<open>Concrete nodes\<close>

text \<open>A variable is read as the string that it is.\<close>

definition plain_value :: "string \<Rightarrow> layer" where
  "plain_value v = [([], LStr v)]"

definition no_dirs :: dirs where
  "no_dirs = (\<lambda>d. \<lparr>nd_toml = None, nd_key = None, nd_layout = False\<rparr>)"

definition cli_start_env :: start_env where
  "cli_start_env = \<lparr>se_ext = demo_ext, se_crypto = demo_crypto, se_fresh = 7, se_version = ''1'', se_net = demo_net, se_swarm = demo_swarm,
     se_peer_file = None, se_hex = unhex, se_key_ok = (\<lambda>k. True), se_genesis = Err NoGenesisValidators, se_state = refund_state,
     se_now = 0, se_addr_ok = (\<lambda>a. True)\<rparr>"

theorem generated_config_loads_witness:
  "let fs = snd (run_init False (Some ''/data'') [(''RUST_LOG'', ''info'')] None no_dirs) in
     config_cmd plain_value (Some ''/data'') [(''RUST_LOG'', ''info'')] None fs = Ok (init_config ''/data'') \<and>
     health_endpoint plain_value None (Some ''/data'') [(''RUST_LOG'', ''info'')] None fs = Ok ''http://127.0.0.1:8080''"
proof -
  obtain fs' where i: "run_init False (Some ''/data'') [(''RUST_LOG'', ''info'')] None no_dirs = (Ok ''/data'', fs')"
    by (simp add: run_init_def data_dir_def no_dirs_def ensure_layout_def Let_def)
  have "\<not> is_config_var ''RUST_LOG''" "literal_ok ''/data''" by code_simp+
  with generated_config_loads[OF i, of plain_value] show ?thesis by (simp add: i Let_def)
qed

theorem data_dir_variable_stops_node_witness:
  "config_check plain_value None [(''ARKNET_HOME'', ''/data'')] (Some ''/root'')
     (snd (run_init True None [(''ARKNET_HOME'', ''/data'')] (Some ''/root'') no_dirs)) \<noteq> Ok True \<and>
   fst (run_init True None [(''ARKNET_HOME'', ''/data'')] (Some ''/root'') no_dirs) = Ok ''/data''"
proof -
  have v: "map_of [(''ARKNET_HOME'', ''/data'')] ENV_DATA_DIR = Some ''/data''" "plain_value ''/data'' \<noteq> []"
    by (simp_all add: ENV_DATA_DIR_def plain_value_def)
  note t = data_dir_variable_stops_node[where env_value = plain_value and home = "Some ''/root''", OF v]
  from t[where fs = no_dirs and cli_override = None]
    t[where fs = "snd (run_init True None [(''ARKNET_HOME'', ''/data'')] (Some ''/root'') no_dirs)" and cli_override = None]
  show ?thesis by simp
qed

text \<open>The environment of the container image and of the compose file.\<close>

lemma container_does_not_start:
  "\<exists>e. config_load plain_value f [(''ARKNET_DATA_DIR'', ''/var/lib/arknet'')] = Err e"
  "\<exists>e. config_load plain_value f [(''ARKNET_NETWORK'', ''devnet'')] = Err e"
proof -
  have "is_config_var ''ARKNET_DATA_DIR''" "is_config_var ''ARKNET_NETWORK''" "\<not> known_path (var_path ''ARKNET_DATA_DIR'' @ [])"
    "\<not> known_path (var_path ''ARKNET_NETWORK'' @ [])" by code_simp+
  then show "\<exists>e. config_load plain_value f [(''ARKNET_DATA_DIR'', ''/var/lib/arknet'')] = Err e"
    "\<exists>e. config_load plain_value f [(''ARKNET_NETWORK'', ''devnet'')] = Err e"
    using stray_variable(1)[of "''ARKNET_DATA_DIR''" "''/var/lib/arknet''" "[(''ARKNET_DATA_DIR'', ''/var/lib/arknet'')]" "[]"
        "LStr ''/var/lib/arknet''" plain_value f]
      stray_variable(1)[of "''ARKNET_NETWORK''" "''devnet''" "[(''ARKNET_NETWORK'', ''devnet'')]" "[]" "LStr ''devnet''" plain_value f]
    by (simp_all add: plain_value_def)
qed

theorem later_layers_win_witness:
  "\<exists>c. config_load plain_value (Some (Some [([''node'', ''name''], LStr ''file''), ([''node'', ''network''], LStr ''testnet'')]))
     [(''ARKNET_NODE__NAME'', ''variable'')] = Ok c \<and>
     field_at (config_layer c) [''node'', ''name''] = Some (LStr ''variable'') \<and>
     field_at (config_layer c) [''node'', ''network''] = Some (LStr ''testnet'')"
proof -
  let ?l = "[([''node'', ''name''], LStr ''file''), ([''node'', ''network''], LStr ''testnet'')] :: layer"
  let ?vars = "[(''ARKNET_NODE__NAME'', ''variable'')]"
  let ?c = "node_config_default\<lparr>nf_node := node_section_default\<lparr>ns_name := ''variable'', ns_network := ''testnet''\<rparr>\<rparr>"
  have "is_config_var ''ARKNET_NODE__NAME''" "var_path ''ARKNET_NODE__NAME'' = [''node'', ''name'']" by code_simp+
  then have e: "env_layer plain_value ?vars = [([''node'', ''name''], LStr ''variable'')]"
    by (simp add: env_layer_def plain_value_def)
  have k: "declared [''node'', ''name'']" "declared [''node'', ''network'']" by (simp_all add: declared_def field_table_def)
  have "extract_config (config_layer node_config_default @ ?l @ [([''node'', ''name''], LStr ''variable'')]) =
      extract_config (config_layer ?c)"
  proof (rule extract_congruent)
    fix p
    show "field_at (config_layer node_config_default @ ?l @ [([''node'', ''name''], LStr ''variable'')]) p = field_at (config_layer ?c) p"
    proof (cases "p = [''node'', ''name''] \<or> p = [''node'', ''network'']")
      case True
      then show ?thesis by (auto simp: section_at node_layer_def field_at_append field_at_Cons)
    next
      case False
      then show ?thesis
        by (simp add: config_layer_def field_at_append field_at_Cons node_layer_def node_config_default_def cong: option.case_cong)
    qed
  qed (simp_all add: known_config field_table_def)
  moreover have "config_ok ?c" by (simp add: config_ok_def node_config_default_def network_section_default_def)
  ultimately have c: "config_load plain_value (Some (Some ?l)) ?vars = Ok ?c"
    by (simp add: config_load_def e extract_config_layer)
  from later_layers_win[OF c k(1)] later_layers_win[OF c k(2)] c show ?thesis
    by (auto simp: e field_at_Cons)
qed

theorem shown_config_reloads_witness:
  "config_load plain_value (Some (Some (config_layer (init_config ''/data'')))) [(''RUST_LOG'', ''info'')] = Ok (init_config ''/data'')"
proof -
  have "config_ok (init_config ''/data'')"
    by (simp add: config_ok_def init_config_def node_config_default_def network_section_default_def)
  moreover have "\<not> is_config_var ''RUST_LOG''" by code_simp
  ultimately show ?thesis using shown_config_reloads[of "init_config ''/data''" "[(''RUST_LOG'', ''info'')]" plain_value] by simp
qed

lemma cli_boot:
  "\<exists>net. start_network cli_start_env node_config_default = Ok net"
proof -
  obtain cfg h where b: "boot_config demo_net ''1'' node_section_default network_section_default
      \<lparr>rs_validator = False, rs_router = False, rs_compute = False, rs_verifier = False\<rparr> = Ok (cfg, h)" "config_validate cfg = Ok ()"
    "nc_listen_addrs cfg = [string_bytes ''/ip4/0.0.0.0/udp/26656/quic-v1'', string_bytes ''/ip4/0.0.0.0/tcp/26656'']"
    using default_config_boots[of demo_net "string_bytes ''/ip4/0.0.0.0/udp/26656/quic-v1''" "string_bytes ''/ip4/0.0.0.0/tcp/26656''" "''1''"]
    by (auto simp: demo_net_def)
  have "\<exists>net acts. network_start demo_net demo_swarm cfg None = Ok (net, acts)"
    by (simp add: network_start_def b(2,3) demo_swarm_def all_topics_def Let_def)
  with b(1) show ?thesis by (auto simp: start_network_def cli_start_env_def node_config_default_def)
qed

theorem verifier_never_starts_witness:
  "\<exists>sd fs. start_node plain_value cli_start_env ''compute'' (Some ''/data'') [] None no_dirs = (Ok sd, fs) \<and>
     sd_body sd = ComputeBody \<and> sd_config sd = node_config_default \<and>
     (\<forall>sd'. fst (start_node plain_value cli_start_env ''Verifier'' (Some ''/data'') [] None no_dirs) \<noteq> Ok sd')"
proof -
  obtain net where n: "start_network cli_start_env node_config_default = Ok net" using cli_boot by blast
  have "config_ok node_config_default" by (simp add: config_ok_def node_config_default_def network_section_default_def)
  then have e: "effective_config plain_value [] ''/data'' (ensure_layout ''/data'' no_dirs) = Ok node_config_default"
    by (simp add: effective_config_def ensure_layout_def no_dirs_def config_load_env_only_def env_layer_def extract_config_layer)
  have k: "nd_key (ensure_layout ''/data'' no_dirs ''/data'') = None" by (simp add: ensure_layout_def no_dirs_def)
  have ok: "se_addr_ok cli_start_env a" for a by (simp add: cli_start_env_def)
  have "role_from_str ''compute'' = Ok RunCompute" and v: "role_from_str ''Verifier'' = Ok RunVerifier" by code_simp+
  then obtain sd fs where s: "start_node plain_value cli_start_env ''compute'' (Some ''/data'') [] None no_dirs = (Ok sd, fs)"
    "sd_config sd = node_config_default" "sd_body sd = ComputeBody"
    by (simp add: start_node_def data_dir_def e n k ok start_consensus_def scheduler_run_def load_or_generate_keypair_def Let_def)
  obtain res fs' where w: "start_node plain_value cli_start_env ''Verifier'' (Some ''/data'') [] None no_dirs = (res, fs')"
    by (metis surj_pair)
  from verifier_never_starts[OF w] verifier_never_starts[OF s(1)] v s w show ?thesis by auto
qed

end
