(* ===== verification/DataAvailability.thy ===== *)
theory DataAvailability
  imports ChainTypes
begin

text \<open>
  The client of the data availability layer (\<^verbatim>\<open>crates/chain/src/da.rs\<close>): posting the body of a block to a
  Celestia light node and getting it back by its reference. Base64 and the light node are outside: the
  node is a function from the address, the token and the parameters of a call to what arrives, nothing, a
  status without a body, or a status with the field that the client reads from the body if it parses.
  Messages are given without the detail the code formats into them.
\<close>

section \<open>Configuration\<close>

record da_config =
  dc_layer :: string
  dc_endpoint :: string
  dc_namespace :: string
  dc_auth_token :: string

definition default_namespace :: string where
  "default_namespace = ''00000000000000617264''"

definition da_config_default :: da_config where
  "da_config_default = \<lparr>dc_layer = ''inline'', dc_endpoint = [], dc_namespace = default_namespace, dc_auth_token = []\<rparr>"

definition da_is_enabled :: "da_config \<Rightarrow> bool" where
  "da_is_enabled c \<longleftrightarrow> dc_layer c \<noteq> ''inline'' \<and> dc_endpoint c \<noteq> []"

definition parsed_layer :: "da_config \<Rightarrow> da_layer" where
  "parsed_layer c =
     (if dc_layer c = ''celestia'' then Celestia else if dc_layer c = ''eigenda'' then EigenDa else Inline)"

section \<open>The client\<close>

datatype 'a da_reply = NoReply | NoBody bool | Reply bool "'a option"

record da_ext =
  dx_encode :: "bytes \<Rightarrow> string"
  dx_decode :: "string \<Rightarrow> bytes option"
  dx_submit :: "string \<Rightarrow> string \<Rightarrow> string \<times> string \<Rightarrow> nat option da_reply"
  dx_get :: "string \<Rightarrow> string \<Rightarrow> nat \<times> string \<times> string \<Rightarrow> string option da_reply"

text \<open>What the body says, or the error of the call.\<close>

definition reply_value :: "'a da_reply \<Rightarrow> (string, 'a) result" where
  "reply_value r =
     (case r of
        NoReply \<Rightarrow> Err ''celestia''
      | NoBody _ \<Rightarrow> Err ''celestia response body''
      | Reply success body \<Rightarrow>
          if \<not> success then Err ''celestia HTTP''
          else (case body of None \<Rightarrow> Err ''celestia response parse'' | Some v \<Rightarrow> Ok v))"

definition da_client_new :: "da_config \<Rightarrow> da_config option" where
  "da_client_new c = (if \<not> da_is_enabled c then None else Some c)"

text \<open>A result that is no number counts as height zero.\<close>

definition celestia_submit :: "ext \<Rightarrow> da_ext \<Rightarrow> da_config \<Rightarrow> bytes \<Rightarrow> (string, da_reference) result" where
  "celestia_submit X D c data =
     rbind (reply_value (dx_submit D (dc_endpoint c) (dc_auth_token c) (dc_namespace c, dx_encode D data))) (\<lambda>r.
     Ok \<lparr>da_layer = Celestia, da_commitment = x_sha256 X data, da_height = (case r of Some h \<Rightarrow> h | None \<Rightarrow> 0)\<rparr>)"

definition celestia_get :: "ext \<Rightarrow> da_ext \<Rightarrow> da_config \<Rightarrow> da_reference \<Rightarrow> (string, bytes) result" where
  "celestia_get X D c rf =
     rbind (reply_value (dx_get D (dc_endpoint c) (dc_auth_token c)
              (da_height rf, dc_namespace c, dx_encode D (word_bytes (da_commitment rf))))) (\<lambda>r.
     case r of
       None \<Rightarrow> Err ''celestia get: missing result.data''
     | Some blob \<Rightarrow>
        (case dx_decode D blob of
           None \<Rightarrow> Err ''celestia get base64 decode''
         | Some data \<Rightarrow>
             if x_sha256 X data \<noteq> da_commitment rf then Err ''celestia get: commitment mismatch'' else Ok data))"

definition submit_block :: "ext \<Rightarrow> da_ext \<Rightarrow> da_config \<Rightarrow> bytes \<Rightarrow> (string, da_reference) result" where
  "submit_block X D c data =
     (case parsed_layer c of
        Celestia \<Rightarrow> celestia_submit X D c data
      | EigenDa \<Rightarrow> Err ''EigenDA not yet implemented''
      | Inline \<Rightarrow> Err ''inline DA does not submit'')"

definition da_get_block :: "ext \<Rightarrow> da_ext \<Rightarrow> da_config \<Rightarrow> da_reference \<Rightarrow> (string, bytes) result" where
  "da_get_block X D c rf =
     (case da_layer rf of
        Celestia \<Rightarrow> celestia_get X D c rf
      | EigenDa \<Rightarrow> Err ''EigenDA not yet implemented''
      | Inline \<Rightarrow> Err ''inline DA does not retrieve'')"

section \<open>What comes back\<close>

text \<open>A light node that keeps what it was given: it answers a post with the height it stores the blob at,
  and a call with that height, namespace and commitment with the blob.\<close>

definition keeps_blob :: "ext \<Rightarrow> da_ext \<Rightarrow> da_config \<Rightarrow> bytes \<Rightarrow> bool" where
  "keeps_blob X D c data \<longleftrightarrow> dx_decode D (dx_encode D data) = Some data \<and>
     (\<exists>h. dx_submit D (dc_endpoint c) (dc_auth_token c) (dc_namespace c, dx_encode D data) = Reply True (Some (Some h)) \<and>
          dx_get D (dc_endpoint c) (dc_auth_token c) (h, dc_namespace c, dx_encode D (word_bytes (x_sha256 X data)))
            = Reply True (Some (Some (dx_encode D data))))"

text \<open>Whatever the light node answers, a block that is retrieved hashes to the commitment of its reference; so
  what is got back by the reference of a post is what was posted, unless two bodies have one hash; and with a
  node that keeps the blob it is got back.\<close>

lemma retrieved_block_is_posted:
  assumes "submit_block X D c data = Ok rf"
  shows "da_commitment rf = x_sha256 X data \<and> parsed_layer c = Celestia \<and>
    (\<forall>D' c' data'. da_get_block X D' c' rf = Ok data' \<longrightarrow> x_sha256 X data' = x_sha256 X data) \<and>
    (keeps_blob X D c data \<longrightarrow> da_get_block X D c rf = Ok data)"
proof -
  from assms have l: "parsed_layer c = Celestia" and s: "celestia_submit X D c data = Ok rf"
    by (auto simp: submit_block_def split: da_layer.splits)
  from s obtain r where r: "reply_value (dx_submit D (dc_endpoint c) (dc_auth_token c) (dc_namespace c, dx_encode D data)) = Ok r"
    "rf = \<lparr>da_layer = Celestia, da_commitment = x_sha256 X data, da_height = (case r of Some h \<Rightarrow> h | None \<Rightarrow> 0)\<rparr>"
    by (auto simp: celestia_submit_def rbind_Ok_iff)
  have "x_sha256 X data' = x_sha256 X data" if "da_get_block X D' c' rf = Ok data'" for D' c' data'
    using that by (auto simp: da_get_block_def r(2) celestia_get_def rbind_Ok_iff split: option.splits if_splits)
  moreover have "da_get_block X D c rf = Ok data" if "keeps_blob X D c data"
    using that r by (auto simp: keeps_blob_def da_get_block_def celestia_get_def reply_value_def)
  ultimately show ?thesis using l r(2) by simp
qed

text \<open>A layer that is misspelt is on, and every post to it fails.\<close>

lemma misspelt_layer_is_enabled:
  assumes "dc_endpoint c \<noteq> []" and "dc_layer c \<notin> {''inline'', ''celestia'', ''eigenda''}"
  shows "da_client_new c = Some c \<and> submit_block X D c data = Err ''inline DA does not submit''"
  using assms by (simp add: da_client_new_def da_is_enabled_def submit_block_def parsed_layer_def)

end
