(* ===== verification/Spec2Isabelle.thy ===== *)
theory Spec2Isabelle
  imports LedgerProperties Slashing ValidatorSet Emission Pricing Mempool Governance CommitBlock
    BlockBuilder CircuitBreaker ConsensusSet ConsensusMessages Engine EngineSafety Genesis FreeTier
    InferenceWire Router Intake ModelRef ComputeJob Dispatchers ReceiptBatch ComputeNode Verifier
    Gguf ModelStore Sdk InferenceSession Rpc OperatorCli PeerNetwork ModelCatalog NodeCli
    DataAvailability
begin

text \<open>
  This is a verification development for arknet, a layer-1 chain, written in Rust, that pays the operators
  of nodes for running language models. File names below are relative to \<^verbatim>\<open>src/crates\<close>.

  \<^bold>\<open>The program.\<close> Validators agree on blocks of signed transactions (\<^verbatim>\<open>consensus\<close>); a block is applied to the
  accounts, stakes, escrows, receipts and proposals of the chain (\<^verbatim>\<open>chain\<close>, \<^verbatim>\<open>staking\<close>, \<^verbatim>\<open>payments\<close>,
  \<^verbatim>\<open>governance\<close>), whose root after the block stands in its header. Clients (\<^verbatim>\<open>sdk-rust\<close>, or HTTP over
  \<^verbatim>\<open>node/src/rpc.rs\<close>) send signed inference requests; a router (\<^verbatim>\<open>router\<close>) checks the request and the free
  quota (\<^verbatim>\<open>compute/src/free_tier.rs\<close>), ranks the candidates it knows from gossip and hands the request to
  one of them, in its own process or over the mesh (\<^verbatim>\<open>node/src/l2_dispatch.rs\<close>); the compute node
  (\<^verbatim>\<open>node/src/compute_role.rs\<close>, \<^verbatim>\<open>compute/src/job.rs\<close>) loads the model (\<^verbatim>\<open>model-manager\<close>), runs it
  (\<^verbatim>\<open>inference\<close>), answers with events and publishes a receipt; verifiers (\<^verbatim>\<open>verifier\<close>,
  \<^verbatim>\<open>node/src/verifier_role.rs\<close>) re-check receipts and file disputes, for which the commit slashes.

  \<^bold>\<open>Conventions.\<close> A fallible function returns \<open>Ok\<close>, \<open>Err\<close> or \<open>Panic\<close> (theory \<^verbatim>\<open>Prelude\<close>): the workspace is
  compiled with overflow checks and with \<^verbatim>\<open>panic = abort\<close>, so an addition that overflows is \<open>Panic\<close> and ends
  the process, and a proof that a result is not \<open>Panic\<close> is a proof that the node survives. Integers are natural
  numbers with their width written at every operation (\<open>uadd 64\<close>, \<open>sat_sub\<close>, \<open>ucastn 32\<close>); byte arrays of
  fixed length are words; a column of the database or an ordered map is a \<open>kv\<close>, a map with its entries in key
  order (theory \<^verbatim>\<open>KvStore\<close>, locale \<open>ordered_store\<close> interpreted on it). Mutable state is passed explicitly
  through records with one field per field of the struct.

  \<^bold>\<open>Theories, in dependency order, with the code they model and what their lemmas show.\<close>

  Chain state and transactions:
  \<^item> \<^verbatim>\<open>ChainTypes\<close> (\<^verbatim>\<open>common/src/types.rs\<close>, \<^verbatim>\<open>chain/src/{transactions,receipt,block,account,...}.rs\<close>): the data,
    hashes, roots and size checks.
  \<^item> \<^verbatim>\<open>ChainState\<close>, \<^verbatim>\<open>BlockContext\<close> (\<^verbatim>\<open>chain/src/state.rs\<close>): the columns, the reads, the batch of writes over them
    with its overlays, the preview and the commit of the account tree. The overlay reads of a context are the
    reads of the database after its batch (\<open>view\<close>); this is the refinement the ledger properties rest on.
  \<^item> \<^verbatim>\<open>Ledger\<close>: the interface of the handlers to the state (a locale, interpreted on the block context).
  \<^item> \<^verbatim>\<open>FeeMarket\<close>, \<^verbatim>\<open>TxOutcome\<close>, \<^verbatim>\<open>StakeApply\<close>, \<^verbatim>\<open>Merkle\<close>, \<^verbatim>\<open>Apply\<close> (\<^verbatim>\<open>chain/src/{bootstrap,fee_market,
    stake_apply,apply}.rs\<close>, \<^verbatim>\<open>crypto/src/merkle.rs\<close>): every handler with every rejection. \<^verbatim>\<open>ApplySafety\<close>,
    \<^verbatim>\<open>ApplyValue\<close>, \<^verbatim>\<open>ApplySameBlock\<close> and \<^verbatim>\<open>LedgerProperties\<close> show what a transaction can change: value is only
    created by mints as long as no escrow is written twice in a block, stakes and unbondings conserve it, a
    nonce is used once, and a rejected transfer or stake operation changes nothing.
  \<^item> \<^verbatim>\<open>Slashing\<close>, \<^verbatim>\<open>ValidatorSet\<close> (\<^verbatim>\<open>staking\<close>), \<^verbatim>\<open>Emission\<close>, \<^verbatim>\<open>Pricing\<close> (\<^verbatim>\<open>payments\<close>), \<^verbatim>\<open>Governance\<close>
    (\<^verbatim>\<open>governance\<close>): penalties and their split, the epoch set as the best candidates, the schedule and
    its budget, the integer square root, the tally.
  \<^item> \<^verbatim>\<open>CommitBlock\<close>, \<^verbatim>\<open>BlockBuilder\<close>, \<^verbatim>\<open>Mempool\<close>, \<^verbatim>\<open>CircuitBreaker\<close> (\<^verbatim>\<open>consensus/src/{commit,block_builder,
    mempool}.rs\<close>, \<^verbatim>\<open>chain/src/circuit_breaker.rs\<close>): a built block commits, a commit matches its header, the
    three indices of the pool agree and it stays within its bounds.
  \<^item> \<^verbatim>\<open>ConsensusSet\<close>, \<^verbatim>\<open>ConsensusMessages\<close>, \<^verbatim>\<open>Engine\<close>, \<^verbatim>\<open>EngineSafety\<close>, \<^verbatim>\<open>Genesis\<close> (\<^verbatim>\<open>consensus/src/{validators,
    value,vote,proposal,signing,network_bridge,engine}.rs\<close>, \<^verbatim>\<open>chain/src/genesis.rs\<close>, \<^verbatim>\<open>node/src/validator.rs\<close>):
    the engine as a step relation over the effects of the consensus library, with the invariant that it
    follows the chain and the properties of decisions.

  Serving:
  \<^item> \<^verbatim>\<open>FreeTier\<close> (\<^verbatim>\<open>compute/src/free_tier.rs\<close>, \<^verbatim>\<open>router/src/quota_gossip.rs\<close>): buckets and gossip of quota uses.
  \<^item> \<^verbatim>\<open>InferenceWire\<close> (\<^verbatim>\<open>compute/src/wire.rs\<close>, \<^verbatim>\<open>network/src/{gossip,inference_proto}.rs\<close>, \<^verbatim>\<open>crypto\<close>): requests,
    their signed bytes, delegation and frames.
  \<^item> \<^verbatim>\<open>Router\<close>, \<^verbatim>\<open>Intake\<close> (\<^verbatim>\<open>router\<close>): registry, ranking, failover and the whole of \<^verbatim>\<open>accept\<close>.
  \<^item> \<^verbatim>\<open>ModelRef\<close>, \<^verbatim>\<open>Gguf\<close>, \<^verbatim>\<open>ModelStore\<close> (\<^verbatim>\<open>model-manager\<close>): references and their printing, the header parser with
    the stack as fuel, the cache with eviction and the resumable download.
  \<^item> \<^verbatim>\<open>ComputeJob\<close>, \<^verbatim>\<open>Dispatchers\<close>, \<^verbatim>\<open>ReceiptBatch\<close>, \<^verbatim>\<open>ComputeNode\<close> (\<^verbatim>\<open>compute\<close>, \<^verbatim>\<open>receipts\<close>, \<^verbatim>\<open>node\<close>): jobs,
    their replay memory and hash chain, the dispatchers, the batches and the compute role.
  \<^item> \<^verbatim>\<open>Verifier\<close> (\<^verbatim>\<open>verifier\<close>, \<^verbatim>\<open>node/src/verifier_role.rs\<close>): selection, re-execution and disputes.
  \<^item> \<^verbatim>\<open>Sdk\<close> (\<^verbatim>\<open>sdk-rust\<close>): wallets, sessions and the client composed with the compute node.
  \<^item> \<^verbatim>\<open>InferenceSession\<close> (\<^verbatim>\<open>inference\<close>): tokenizer protocol, piece buffer, sampler chains, decode loop and the
    event channel with an arbitrary reader.
  \<^item> \<^verbatim>\<open>Rpc\<close> (\<^verbatim>\<open>node/src/rpc.rs\<close>, \<^verbatim>\<open>rpc/src/openai.rs\<close>): the HTTP handlers over the state of the node.
  \<^item> \<^verbatim>\<open>OperatorCli\<close> (\<^verbatim>\<open>node/src/cli/{wallet,governance,gateway,tee,start}.rs\<close>): the commands of the operator composed
    with the node they post to, the key file they share with the node, and what becomes of what they send.
  \<^item> \<^verbatim>\<open>PeerNetwork\<close> (\<^verbatim>\<open>network\<close>, \<^verbatim>\<open>node/src/network_boot.rs\<close>): the handshake, the peer book, the configuration
    and the task that owns the swarm as a transition function over its events, with the invariant that an
    inference request is answered at most once.
  \<^item> \<^verbatim>\<open>ModelCatalog\<close> (\<^verbatim>\<open>model-manager/src/{genesis,cache}.rs\<close>, \<^verbatim>\<open>node/src/cli/model_cmd.rs\<close>): the shipped registry, the
    directory that implements the store of \<^verbatim>\<open>ModelStore\<close>, and the commands over it.
  \<^item> \<^verbatim>\<open>NodeCli\<close> (\<^verbatim>\<open>common/src/config.rs\<close>, \<^verbatim>\<open>node/src/{paths,scheduler}.rs\<close>, \<^verbatim>\<open>node/src/cli/{init,config_cmd,health,status,
    start}.rs\<close>): the layers of the configuration and what they refuse, the generated file, and the start of a
    node, which composes the boots of \<^verbatim>\<open>PeerNetwork\<close>, \<^verbatim>\<open>Genesis\<close> and \<^verbatim>\<open>OperatorCli\<close>.
  \<^item> \<^verbatim>\<open>DataAvailability\<close> (\<^verbatim>\<open>chain/src/da.rs\<close>): the client of the layer that keeps the bodies of blocks.
  \<^verbatim>\<open>Samples\<close> and the end of each theory hold the concrete inputs of the witnesses.

  \<^bold>\<open>Interfaces.\<close> The locales \<open>ordered_store\<close>, \<open>ledger\<close>, \<open>mailbox\<close> (the bounded channels of the
  network task) and those of the component theories state what a client
  relies on; each is interpreted on the definitions of the model that provides it.

  \<^bold>\<open>Parameters.\<close> Code that is not in the repository is an argument: the hashes, borsh and hex (records \<open>ext\<close>,
  \<open>wire_ext\<close>, \<open>infer_ext\<close>), ed25519, x25519, HKDF and ChaCha20-Poly1305 (\<open>crypto_ext\<close>, \<open>aead_ext\<close>), libp2p (\<open>net_ext\<close>, \<open>swarm_ext\<close>), the sparse
  Merkle tree, llama.cpp (record \<open>lm\<close>, one field per foreign function; \<open>llm_ext\<close> for the engine as jobs see
  it), the HTTP mirrors, the light node of the data layer and the mesh (functions from what is sent to what arrives), the parsers of TOML and of environment
  variables, clocks (arguments) and the iteration order of hash maps (ranks). The consensus library may ask for any effect in any state.
  A theorem names as hypotheses what it needs of them, such as no hash collision between two given inputs.

  \<^bold>\<open>Loops and bounds.\<close> Loops over data are structural recursions. The eviction loops of the pool and of the
  cache, the integer square root, the Merkle levels, the retry of the tokenizer and the lossy decoding end by
  a measure or are proved to return. The parser of model headers counts the stack frames that are left,
  since it recurses as deep as its input says; every bound on depth is an argument of the theorem. Streams
  and channels are finite lists, and the position of a reader in them is a function of time.

  \<^bold>\<open>Not modelled.\<close> I/O failures of RocksDB and of the file system (other than of
  deletions from the model cache, which may fail arbitrarily) and values that do not decode, unless a
  handler turns them into an answer; logging, metrics and the select loops of tasks (their steps are
  modelled); sockets, TLS, axum, serde and libp2p; key generation and the permissions of files. The manifest
  lists what was left out, file by file.
\<close>

end
